(* ===== verification/Ccp_Prelude.thy ===== *)
theory Ccp_Prelude
  imports Main "HOL-Library.Monad_Syntax"
begin

text \<open>
  Shared vocabulary of the development: Rust's panics and integer helpers as options,
  vectors indexed the way \<open>Vec\<close> is, results that carry an error, and the generic list,
  map and arithmetic lemmas the components share.

  A panic of the source (an index out of range, an integer underflow that a debug build
  traps) is the value \<open>None\<close> of an \<open>option\<close>; a theorem that an operation returns
  \<open>Some\<close> is a theorem that it does not panic. An error the source returns as a
  \<open>Result\<close> is the left side of a sum.
\<close>

named_theorems panic_free \<open>operations that do not panic under their invariant\<close>
named_theorems inv_preserve \<open>operations that keep a component's invariant\<close>

section \<open>Time\<close>

text \<open>
  \<open>Instant\<close> and \<open>Duration\<close> count nanoseconds. The clock is an argument of every
  operation that reads it. Subtraction on \<open>nat\<close> stops at 0, which is what
  \<open>saturating_duration_since\<close> and \<open>elapsed\<close> do.
\<close>

type_synonym instant = nat
type_synonym duration = nat

definition as_secs :: "duration \<Rightarrow> nat" where
  "as_secs d = d div 1000000000"

definition as_millis :: "duration \<Rightarrow> nat" where
  "as_millis d = d div 1000000"

definition from_secs :: "nat \<Rightarrow> duration" where
  "from_secs n = n * 1000000000"

definition from_millis :: "nat \<Rightarrow> duration" where
  "from_millis n = n * 1000000"

lemma as_secs_from_secs [simp]: "as_secs (from_secs n) = n"
  by (simp add: as_secs_def from_secs_def)

lemma as_millis_from_millis [simp]: "as_millis (from_millis n) = n"
  by (simp add: as_millis_def from_millis_def)

lemma as_secs_less_iff: "as_secs d < n \<longleftrightarrow> d < from_secs n"
  by (simp add: as_secs_def from_secs_def div_less_iff_less_mult)

lemma as_millis_ge_iff: "n \<le> as_millis d \<longleftrightarrow> from_millis n \<le> d"
  by (simp add: as_millis_def from_millis_def less_eq_div_iff_mult_less_eq)

section \<open>Checked arithmetic\<close>

definition checked_sub :: "nat \<Rightarrow> nat \<Rightarrow> nat option" where
  "checked_sub a b = (if b \<le> a then Some (a - b) else None)"

definition clamp :: "nat \<Rightarrow> nat \<Rightarrow> nat \<Rightarrow> nat" where
  "clamp lo hi x = (if x < lo then lo else if hi < x then hi else x)"

lemma checked_sub_le [simp]: "b \<le> a \<Longrightarrow> checked_sub a b = Some (a - b)"
  by (simp add: checked_sub_def)

lemma checked_sub_eq_Some: "checked_sub a b = Some c \<longleftrightarrow> a = b + c"
  by (auto simp: checked_sub_def)

lemma checked_sub_eq_None: "checked_sub a b = None \<longleftrightarrow> a < b"
  by (auto simp: checked_sub_def)

lemma clamp_bounds: "lo \<le> hi \<Longrightarrow> lo \<le> clamp lo hi x \<and> clamp lo hi x \<le> hi"
  by (auto simp: clamp_def)

section \<open>Vectors\<close>

text \<open>
  \<open>Vec\<close> indexing, \<open>remove\<close>, \<open>insert\<close> and assignment panic out of range.
  \<open>resize\<close> and \<open>truncate\<close> are total.
\<close>

definition vec_get :: "'a list \<Rightarrow> nat \<Rightarrow> 'a option" where
  "vec_get xs i = (if i < length xs then Some (xs ! i) else None)"

definition vec_set :: "'a list \<Rightarrow> nat \<Rightarrow> 'a \<Rightarrow> 'a list option" where
  "vec_set xs i x = (if i < length xs then Some (xs[i := x]) else None)"

definition vec_remove :: "'a list \<Rightarrow> nat \<Rightarrow> ('a \<times> 'a list) option" where
  "vec_remove xs i = (if i < length xs then Some (xs ! i, take i xs @ drop (Suc i) xs) else None)"

definition vec_insert :: "'a list \<Rightarrow> nat \<Rightarrow> 'a \<Rightarrow> 'a list option" where
  "vec_insert xs i x = (if i \<le> length xs then Some (take i xs @ x # drop i xs) else None)"

definition vec_resize :: "'a list \<Rightarrow> nat \<Rightarrow> 'a \<Rightarrow> 'a list" where
  "vec_resize xs n x = take n xs @ replicate (n - length xs) x"

lemma vec_get_Some [simp]: "i < length xs \<Longrightarrow> vec_get xs i = Some (xs ! i)"
  by (simp add: vec_get_def)

lemma vec_set_Some [simp]: "i < length xs \<Longrightarrow> vec_set xs i x = Some (xs[i := x])"
  by (simp add: vec_set_def)

lemma vec_remove_Some [simp]:
  "i < length xs \<Longrightarrow> vec_remove xs i = Some (xs ! i, take i xs @ drop (Suc i) xs)"
  by (simp add: vec_remove_def)

lemma vec_insert_Some [simp]:
  "i \<le> length xs \<Longrightarrow> vec_insert xs i x = Some (take i xs @ x # drop i xs)"
  by (simp add: vec_insert_def)

lemma length_vec_resize [simp]: "length (vec_resize xs n x) = n"
  by (simp add: vec_resize_def)

lemma set_vec_resize: "set (vec_resize xs n x) \<subseteq> insert x (set xs)"
  by (auto simp: vec_resize_def dest: in_set_takeD)

lemma set_take_drop_update: "set (take i xs @ y # drop j xs) \<subseteq> insert y (set xs)"
  by (auto dest: in_set_takeD in_set_dropD)

lemma set_take_drop_remove: "set (take i xs @ drop j xs) \<subseteq> set xs"
  by (auto dest: in_set_takeD in_set_dropD)

section \<open>Computations that do not panic\<close>

definition ok_opt :: "('a \<Rightarrow> bool) \<Rightarrow> 'a option \<Rightarrow> bool" where
  "ok_opt P x \<longleftrightarrow> (\<exists>y. x = Some y \<and> P y)"

lemma ok_opt_simps [simp]: "ok_opt P (Some y) = P y" "\<not> ok_opt P None"
  by (simp_all add: ok_opt_def)

lemma ok_bind [panic_free]:
  "ok_opt P x \<Longrightarrow> (\<And>y. P y \<Longrightarrow> ok_opt Q (f y)) \<Longrightarrow> ok_opt Q (Option.bind x f)"
  by (auto simp: ok_opt_def)

lemma ok_map [panic_free]: "ok_opt P x \<Longrightarrow> (\<And>y. P y \<Longrightarrow> Q (f y)) \<Longrightarrow> ok_opt Q (map_option f x)"
  by (auto simp: ok_opt_def)

lemma ok_if [panic_free]:
  "(b \<Longrightarrow> ok_opt P x) \<Longrightarrow> (\<not> b \<Longrightarrow> ok_opt P y) \<Longrightarrow> ok_opt P (if b then x else y)"
  by simp

lemma ok_weaken: "ok_opt P x \<Longrightarrow> (\<And>y. P y \<Longrightarrow> Q y) \<Longrightarrow> ok_opt Q x"
  by (auto simp: ok_opt_def)

section \<open>Results\<close>

text \<open>Rust's \<open>Result\<close> and the \<open>?\<close> operator.\<close>

definition res_bind :: "'e + 'a \<Rightarrow> ('a \<Rightarrow> 'e + 'b) \<Rightarrow> 'e + 'b" where
  "res_bind r f = (case r of Inl e \<Rightarrow> Inl e | Inr a \<Rightarrow> f a)"

lemma res_bind_simps [simp]:
  "res_bind (Inl e) f = Inl e"
  "res_bind (Inr a) f = f a"
  by (simp_all add: res_bind_def)

lemma res_bind_eq_Inr: "res_bind r f = Inr b \<longleftrightarrow> (\<exists>a. r = Inr a \<and> f a = Inr b)"
  by (cases r) auto

lemma res_bind_eq_Inl: "res_bind r f = Inl e \<longleftrightarrow> r = Inl e \<or> (\<exists>a. r = Inr a \<and> f a = Inl e)"
  by (cases r) auto

section \<open>Lists\<close>

text \<open>The index of the first element a predicate holds of (\<open>Iterator::position\<close>).\<close>

fun position :: "('a \<Rightarrow> bool) \<Rightarrow> 'a list \<Rightarrow> nat option" where
  "position P [] = None"
| "position P (x # xs) = (if P x then Some 0 else map_option Suc (position P xs))"

lemma position_None: "position P xs = None \<longleftrightarrow> (\<forall>x \<in> set xs. \<not> P x)"
  by (induction xs) auto

lemma position_Some:
  "position P xs = Some i \<Longrightarrow>
    i < length xs \<and> P (xs ! i) \<and> (\<forall>x \<in> set (take i xs). \<not> P x)"
  by (induction xs arbitrary: i) (auto split: if_splits)

lemma position_append_hit:
  "\<forall>x \<in> set xs. \<not> P x \<Longrightarrow> P y \<Longrightarrow> position P (xs @ y # ys) = Some (length xs)"
  by (induction xs) auto

definition strip_prefix :: "'a list \<Rightarrow> 'a list \<Rightarrow> 'a list option" where
  "strip_prefix p s = (if take (length p) s = p then Some (drop (length p) s) else None)"

lemma strip_prefix_append [simp]: "strip_prefix p (p @ s) = Some s"
  by (simp add: strip_prefix_def)

lemma strip_prefix_Some: "strip_prefix p s = Some r \<longleftrightarrow> s = p @ r"
  by (auto simp: strip_prefix_def) (metis append_take_drop_id)

definition strip_suffix :: "'a list \<Rightarrow> 'a list \<Rightarrow> 'a list option" where
  "strip_suffix p s = map_option rev (strip_prefix (rev p) (rev s))"

lemma strip_suffix_Some: "strip_suffix p s = Some r \<longleftrightarrow> s = r @ p"
proof
  assume "strip_suffix p s = Some r"
  then obtain q where "rev s = rev p @ q" and "r = rev q"
    by (auto simp: strip_suffix_def strip_prefix_Some)
  then have "rev (rev s) = rev (rev p @ q)" by simp
  with \<open>r = rev q\<close> show "s = r @ p" by simp
next
  assume "s = r @ p"
  then show "strip_suffix p s = Some r"
    by (simp add: strip_suffix_def)
qed

text \<open>The last element satisfying a predicate (\<open>Iterator::rposition\<close> plus one).\<close>

definition rposition_len :: "('a \<Rightarrow> bool) \<Rightarrow> 'a list \<Rightarrow> nat" where
  "rposition_len P xs = length (rev (dropWhile (\<lambda>x. \<not> P x) (rev xs)))"

lemma rposition_len_le: "rposition_len P xs \<le> length xs"
  by (metis length_dropWhile_le length_rev rposition_len_def)

section \<open>Defaults\<close>

text \<open>\<open>unwrap_or\<close>.\<close>

definition or_else :: "'a option \<Rightarrow> 'a \<Rightarrow> 'a" where
  "or_else x d = (case x of Some a \<Rightarrow> a | None \<Rightarrow> d)"

text \<open>\<open>Option::or\<close>.\<close>

definition or_option :: "'a option \<Rightarrow> 'a option \<Rightarrow> 'a option" where
  "or_option a b = (case a of Some _ \<Rightarrow> a | None \<Rightarrow> b)"

lemma or_else_simps [simp]: "or_else None d = d" "or_else (Some a) d = a"
  by (simp_all add: or_else_def)

lemma or_option_simps [simp]: "or_option None d = d" "or_option (Some a) d = Some a"
  by (simp_all add: or_option_def)

end
