(* ===== verification/Rust_Text.thy ===== *)
theory Rust_Text
  imports Ccp_Prelude
begin

text \<open>
  Rust's \<open>str\<close> as the list of its UTF-8 bytes: a \<open>string\<close> of HOL is a list of
  8-bit characters. The operations here are the standard library's, on bytes: char
  boundaries, \<open>from_utf8\<close>, splitting into chars, \<open>trim\<close>, \<open>split_whitespace\<close>,
  \<open>str::parse\<close> for integers and decimal formatting.
\<close>

abbreviation byte_val :: "char \<Rightarrow> nat" where
  "byte_val \<equiv> of_char"

section \<open>UTF-8\<close>

definition is_cont :: "char \<Rightarrow> bool" where
  "is_cont c \<longleftrightarrow> 0x80 \<le> byte_val c \<and> byte_val c < 0xC0"

definition is_ascii :: "char \<Rightarrow> bool" where
  "is_ascii c \<longleftrightarrow> byte_val c < 0x80"

lemma is_ascii_not_cont: "is_ascii c \<Longrightarrow> \<not> is_cont c"
  by (simp add: is_ascii_def is_cont_def)

text \<open>\<open>str::is_char_boundary\<close> and \<open>str::get(i..)\<close>.\<close>

definition is_char_boundary :: "string \<Rightarrow> nat \<Rightarrow> bool" where
  "is_char_boundary s i \<longleftrightarrow> i = 0 \<or> i = length s \<or> (i < length s \<and> \<not> is_cont (s ! i))"

definition str_get_from :: "string \<Rightarrow> nat \<Rightarrow> string option" where
  "str_get_from s i = (if is_char_boundary s i then Some (drop i s) else None)"

lemma str_get_from_Some: "str_get_from s i = Some t \<Longrightarrow> t = drop i s \<and> i \<le> length s"
  by (auto simp: str_get_from_def is_char_boundary_def split: if_splits)

text \<open>The chars of a string, each as its own bytes: a char starts at a non-continuation byte.\<close>

function utf8_chars :: "string \<Rightarrow> string list" where
  "utf8_chars [] = []"
| "utf8_chars (b # bs) = (b # takeWhile is_cont bs) # utf8_chars (dropWhile is_cont bs)"
  by pat_completeness auto
termination
  by (relation "measure length") (auto simp: length_dropWhile_le le_imp_less_Suc)

declare utf8_chars.simps(2) [simp del]

lemma concat_utf8_chars [simp]: "concat (utf8_chars s) = s"
  by (induction s rule: utf8_chars.induct) (simp_all add: utf8_chars.simps)

lemma utf8_chars_nonempty: "c \<in> set (utf8_chars s) \<Longrightarrow> c \<noteq> []"
  by (induction s rule: utf8_chars.induct) (auto simp: utf8_chars.simps)

lemma utf8_chars_eq_Nil [simp]: "utf8_chars s = [] \<longleftrightarrow> s = []"
  by (cases s) (auto simp: utf8_chars.simps)

lemma utf8_chars_ascii: "\<forall>c \<in> set s. is_ascii c \<Longrightarrow> utf8_chars s = map (\<lambda>c. [c]) s"
proof (induction s rule: utf8_chars.induct)
  case 1
  then show ?case by simp
next
  case (2 b bs)
  then have nc: "takeWhile is_cont bs = []" "dropWhile is_cont bs = bs"
    by (cases bs; simp add: is_ascii_not_cont)+
  with 2 show ?case by (simp add: utf8_chars.simps)
qed

text \<open>\<open>std::str::from_utf8\<close> succeeds on well-formed sequences only.\<close>

definition byte_in :: "nat \<Rightarrow> nat \<Rightarrow> char \<Rightarrow> bool" where
  "byte_in lo hi c \<longleftrightarrow> lo \<le> byte_val c \<and> byte_val c \<le> hi"

fun utf8_step :: "string \<Rightarrow> string option" where
  "utf8_step [] = None"
| "utf8_step (a # s) =
    (if byte_val a < 0x80 then Some s
     else if byte_in 0xC2 0xDF a then
       (case s of b # s' \<Rightarrow> if is_cont b then Some s' else None | [] \<Rightarrow> None)
     else if byte_in 0xE0 0xEF a then
       (case s of
          b # c # s' \<Rightarrow>
            if is_cont b \<and> is_cont c
               \<and> (byte_val a = 0xE0 \<longrightarrow> 0xA0 \<le> byte_val b)
               \<and> (byte_val a = 0xED \<longrightarrow> byte_val b \<le> 0x9F)
            then Some s' else None
        | _ \<Rightarrow> None)
     else if byte_in 0xF0 0xF4 a then
       (case s of
          b # c # d # s' \<Rightarrow>
            if is_cont b \<and> is_cont c \<and> is_cont d
               \<and> (byte_val a = 0xF0 \<longrightarrow> 0x90 \<le> byte_val b)
               \<and> (byte_val a = 0xF4 \<longrightarrow> byte_val b \<le> 0x8F)
            then Some s' else None
        | _ \<Rightarrow> None)
     else None)"

lemma utf8_step_shorter: "utf8_step s = Some t \<Longrightarrow> length t < length s"
  by (cases s) (auto split: if_splits list.splits)

function valid_utf8 :: "string \<Rightarrow> bool" where
  "valid_utf8 s =
    (s = [] \<or> (case utf8_step s of None \<Rightarrow> False | Some t \<Rightarrow> valid_utf8 t))"
  by pat_completeness auto
termination
  by (relation "measure length") (auto simp: utf8_step_shorter)

declare valid_utf8.simps [simp del]
declare utf8_step.simps(2) [simp del]

lemma valid_utf8_Nil [simp]: "valid_utf8 []"
  by (simp add: valid_utf8.simps)

lemma valid_utf8_ascii_Cons: "is_ascii c \<Longrightarrow> valid_utf8 (c # s) = valid_utf8 s"
  by (subst valid_utf8.simps) (simp add: utf8_step.simps is_ascii_def)

lemma valid_utf8_ascii: "\<forall>c \<in> set s. is_ascii c \<Longrightarrow> valid_utf8 s"
  by (induction s) (auto simp: valid_utf8_ascii_Cons)

definition from_utf8 :: "string \<Rightarrow> string option" where
  "from_utf8 bs = (if valid_utf8 bs then Some bs else None)"

lemma from_utf8_Some: "from_utf8 bs = Some s \<longleftrightarrow> s = bs \<and> valid_utf8 bs"
  by (auto simp: from_utf8_def)

text \<open>\<open>encode_utf16().count()\<close>: one unit per char, two for a four-byte char.\<close>

definition utf16_len :: "string \<Rightarrow> nat" where
  "utf16_len s = length (filter (\<lambda>c. \<not> is_cont c) s) + length (filter (\<lambda>c. 0xF0 \<le> byte_val c) s)"

lemma utf16_len_append [simp]: "utf16_len (s @ t) = utf16_len s + utf16_len t"
  by (simp add: utf16_len_def)

lemma utf16_len_Nil [simp]: "utf16_len [] = 0"
  by (simp add: utf16_len_def)

section \<open>White space and trimming\<close>

text \<open>The chars with the Unicode property \<open>White_Space\<close>, by their bytes.\<close>

fun is_ws_char :: "string \<Rightarrow> bool" where
  "is_ws_char [a] = (byte_val a = 0x20 \<or> 0x09 \<le> byte_val a \<and> byte_val a \<le> 0x0D)"
| "is_ws_char [a, b] = (byte_val a = 0xC2 \<and> (byte_val b = 0x85 \<or> byte_val b = 0xA0))"
| "is_ws_char [a, b, c] =
    (byte_val a = 0xE1 \<and> byte_val b = 0x9A \<and> byte_val c = 0x80
     \<or> byte_val a = 0xE2 \<and> byte_val b = 0x80
        \<and> (0x80 \<le> byte_val c \<and> byte_val c \<le> 0x8A
           \<or> byte_val c = 0xA8 \<or> byte_val c = 0xA9 \<or> byte_val c = 0xAF)
     \<or> byte_val a = 0xE2 \<and> byte_val b = 0x81 \<and> byte_val c = 0x9F
     \<or> byte_val a = 0xE3 \<and> byte_val b = 0x80 \<and> byte_val c = 0x80)"
| "is_ws_char _ = False"

definition drop_last_while :: "('a \<Rightarrow> bool) \<Rightarrow> 'a list \<Rightarrow> 'a list" where
  "drop_last_while P xs = rev (dropWhile P (rev xs))"

definition trim_end :: "string \<Rightarrow> string" where
  "trim_end s = concat (drop_last_while is_ws_char (utf8_chars s))"

definition trim :: "string \<Rightarrow> string" where
  "trim s = concat (drop_last_while is_ws_char (dropWhile is_ws_char (utf8_chars s)))"

lemma length_drop_last_while: "length (drop_last_while P xs) \<le> length xs"
  by (metis drop_last_while_def length_dropWhile_le length_rev)

lemma drop_last_while_prefix: "\<exists>zs. xs = drop_last_while P xs @ zs \<and> (\<forall>z \<in> set zs. P z)"
proof -
  have "drop_last_while P xs @ rev (takeWhile P (rev xs)) =
      rev (takeWhile P (rev xs) @ dropWhile P (rev xs))"
    by (simp only: drop_last_while_def rev_append)
  also have "\<dots> = xs"
    by (simp only: takeWhile_dropWhile_id rev_rev_ident)
  finally have "xs = drop_last_while P xs @ rev (takeWhile P (rev xs))" ..
  moreover have "\<forall>z \<in> set (rev (takeWhile P (rev xs))). P z"
    by (auto dest: set_takeWhileD)
  ultimately show ?thesis by blast
qed

lemma drop_last_while_noop: "xs = [] \<or> \<not> P (last xs) \<Longrightarrow> drop_last_while P xs = xs"
  by (cases xs rule: rev_cases) (auto simp: drop_last_while_def)

lemma length_trim_end: "length (trim_end s) \<le> length s"
proof -
  obtain zs where zs: "utf8_chars s = drop_last_while is_ws_char (utf8_chars s) @ zs"
    using drop_last_while_prefix [of "utf8_chars s" is_ws_char] by auto
  have "concat (utf8_chars s) = trim_end s @ concat zs"
    by (subst zs) (simp add: trim_end_def)
  then have "length s = length (trim_end s @ concat zs)"
    by (simp only: concat_utf8_chars)
  then show ?thesis by simp
qed

lemma trim_ascii_noop:
  assumes "\<forall>c \<in> set s. is_ascii c" and "\<forall>c \<in> set s. \<not> is_ws_char [c]"
  shows "trim s = s"
proof -
  have "dropWhile is_ws_char (map (\<lambda>c. [c]) s) = map (\<lambda>c. [c]) s"
    using assms(2) by (cases s) auto
  moreover have "drop_last_while is_ws_char (map (\<lambda>c. [c]) s) = map (\<lambda>c. [c]) s"
    using assms(2) by (intro drop_last_while_noop) (auto simp: last_map)
  ultimately have "trim s = concat (map (\<lambda>c. [c]) s)"
    using assms(1) by (simp add: trim_def utf8_chars_ascii)
  then show ?thesis by (simp add: concat_map_singleton)
qed

text \<open>Trimming twice changes nothing: the chars of a trimmed string are a part of the chars.\<close>

definition char_groups :: "string list \<Rightarrow> bool" where
  "char_groups cs \<longleftrightarrow> (\<forall>c \<in> set cs. c \<noteq> [] \<and> (\<forall>b \<in> set (tl c). is_cont b)) \<and> (\<forall>c \<in> set (tl cs). \<not> is_cont (hd c))"

lemma utf8_chars_groups: "char_groups (utf8_chars s)"
proof (induction s rule: utf8_chars.induct)
  case (2 b bs)
  have "\<forall>c \<in> set (utf8_chars (dropWhile is_cont bs)). \<not> is_cont (hd c)"
  proof (cases "dropWhile is_cont bs")
    case (Cons d ds)
    then have "\<not> is_cont d" using hd_dropWhile [of is_cont bs] by auto
    with 2 Cons show ?thesis by (auto simp: char_groups_def utf8_chars.simps)
  next
    case Nil
    then show ?thesis by (simp only: Nil utf8_chars.simps) simp
  qed
  with 2 show ?case by (auto simp: char_groups_def utf8_chars.simps dest: set_takeWhileD)
qed (simp add: char_groups_def)

lemma utf8_chars_concat: "char_groups cs \<Longrightarrow> utf8_chars (concat cs) = cs"
proof (induction cs)
  case (Cons c cs)
  then obtain b bs where c: "c = b # bs" "\<forall>x \<in> set bs. is_cont x" by (cases c) (auto simp: char_groups_def)
  have cs: "char_groups cs" using Cons.prems by (cases cs) (auto simp: char_groups_def)
  have split: "takeWhile is_cont (bs @ concat cs) = bs \<and> dropWhile is_cont (bs @ concat cs) = concat cs"
  proof (cases "concat cs")
    case Nil
    have "takeWhile is_cont bs = bs" "dropWhile is_cont bs = []" using c(2) by simp_all
    then show ?thesis by (simp only: Nil append_Nil2 simp_thms)
  next
    case (Cons d ds)
    then obtain c' cs' where "cs = c' # cs'" by (cases cs) auto
    with Cons.prems Cons c(1) have "\<not> is_cont d" by (cases c') (auto simp: char_groups_def)
    with c(2) Cons show ?thesis by (simp add: takeWhile_append2 dropWhile_append2)
  qed
  with c Cons.IH [OF cs] show ?case by (simp add: utf8_chars.simps)
qed simp

lemma char_groups_part: "char_groups (xs @ ys @ zs) \<Longrightarrow> char_groups ys"
  by (cases xs; cases ys) (auto simp: char_groups_def)

lemma trim_trim [simp]: "trim (trim s) = trim s"
proof -
  let ?cs = "utf8_chars s"
  define ds where "ds = drop_last_while is_ws_char (dropWhile is_ws_char ?cs)"
  obtain zs where "dropWhile is_ws_char ?cs = ds @ zs"
    using drop_last_while_prefix [of "dropWhile is_ws_char ?cs" is_ws_char] ds_def by auto
  then have part: "?cs = takeWhile is_ws_char ?cs @ ds @ zs" by (metis takeWhile_dropWhile_id)
  then have "char_groups ds" using utf8_chars_groups char_groups_part by metis
  then have ds': "utf8_chars (concat ds) = ds" by (rule utf8_chars_concat)
  have "ds = [] \<or> \<not> is_ws_char (hd ds)"
    using hd_dropWhile [of is_ws_char ?cs] \<open>dropWhile is_ws_char ?cs = ds @ zs\<close>
    by (cases "dropWhile is_ws_char ?cs"; cases ds) auto
  then have "dropWhile is_ws_char ds = ds" by (cases ds) auto
  moreover have "drop_last_while is_ws_char ds = ds"
    unfolding ds_def drop_last_while_def by simp
  ultimately show ?thesis by (simp add: trim_def ds' flip: ds_def)
qed

text \<open>\<open>str::split_whitespace\<close>: the maximal runs of chars that are not white space.\<close>

fun ws_words :: "string list \<Rightarrow> string \<Rightarrow> string list" where
  "ws_words [] acc = (if acc = [] then [] else [acc])"
| "ws_words (c # cs) acc =
    (if is_ws_char c then (if acc = [] then ws_words cs [] else acc # ws_words cs [])
     else ws_words cs (acc @ c))"

definition split_whitespace :: "string \<Rightarrow> string list" where
  "split_whitespace s = ws_words (utf8_chars s) []"

section \<open>Decimal numbers\<close>

definition is_digit :: "char \<Rightarrow> bool" where
  "is_digit c \<longleftrightarrow> 48 \<le> byte_val c \<and> byte_val c \<le> 57"

definition digit_val :: "char \<Rightarrow> nat" where
  "digit_val c = byte_val c - 48"

definition digits_val :: "string \<Rightarrow> nat" where
  "digits_val s = foldl (\<lambda>v c. 10 * v + digit_val c) 0 s"

definition parse_digits :: "string \<Rightarrow> nat option" where
  "parse_digits s = (if s \<noteq> [] \<and> list_all is_digit s then Some (digits_val s) else None)"

text \<open>\<open>parse::<u8>()\<close> and its unsigned kin (a leading plus is accepted), and \<open>parse::<i32>()\<close>.\<close>

definition parse_unsigned :: "nat \<Rightarrow> string \<Rightarrow> nat option" where
  "parse_unsigned mx s =
    (let body = (case s of c # r \<Rightarrow> if c = CHR ''+'' then r else s | [] \<Rightarrow> []) in
     case parse_digits body of
       Some v \<Rightarrow> if v \<le> mx then Some v else None
     | None \<Rightarrow> None)"

definition parse_i32 :: "string \<Rightarrow> int option" where
  "parse_i32 s =
    (case s of
       [] \<Rightarrow> None
     | c # r \<Rightarrow>
         if c = CHR ''-'' then
           (case parse_digits r of
              Some v \<Rightarrow> if v \<le> 2147483648 then Some (- int v) else None
            | None \<Rightarrow> None)
         else map_option int (parse_unsigned 2147483647 s))"

text \<open>Decimal formatting of an unsigned integer.\<close>

definition digit_char :: "nat \<Rightarrow> char" where
  "digit_char d = char_of (48 + d)"

fun dec :: "nat \<Rightarrow> string" where
  "dec n = (if n < 10 then [digit_char n] else dec (n div 10) @ [digit_char (n mod 10)])"

declare dec.simps [simp del]

lemma byte_val_digit_char: "d < 10 \<Longrightarrow> byte_val (digit_char d) = 48 + d"
  by (simp add: digit_char_def of_char_of)

lemma is_digit_digit_char [simp]: "d < 10 \<Longrightarrow> is_digit (digit_char d)"
  by (simp add: is_digit_def byte_val_digit_char)

lemma digit_val_digit_char [simp]: "d < 10 \<Longrightarrow> digit_val (digit_char d) = d"
  by (simp add: digit_val_def byte_val_digit_char)

lemma digit_char_numeral:
  "digit_char 0 = CHR ''0''" "digit_char 1 = CHR ''1''" "digit_char 2 = CHR ''2''"
  "digit_char 3 = CHR ''3''" "digit_char 4 = CHR ''4''" "digit_char 5 = CHR ''5''"
  "digit_char 6 = CHR ''6''" "digit_char 7 = CHR ''7''" "digit_char 8 = CHR ''8''"
  "digit_char 9 = CHR ''9''"
  by (simp_all add: digit_char_def char_of_def bit_Suc_0_iff)

lemma is_digit_ascii: "is_digit c \<Longrightarrow> is_ascii c"
  by (simp add: is_digit_def is_ascii_def)

lemma is_digit_not_ws: "is_digit c \<Longrightarrow> \<not> is_ws_char [c]"
  by (auto simp: is_digit_def)

lemma dec_nonempty [simp]: "dec n \<noteq> []"
  by (subst dec.simps) simp

lemma dec_digits: "list_all is_digit (dec n)"
proof (induction n rule: dec.induct)
  case (1 n)
  then show ?case by (subst dec.simps) simp
qed

lemma digits_val_snoc: "digits_val (s @ [c]) = 10 * digits_val s + digit_val c"
  by (simp add: digits_val_def)

lemma digits_val_dec [simp]: "digits_val (dec n) = n"
proof (induction n rule: dec.induct)
  case (1 n)
  show ?case
  proof (cases "n < 10")
    case True
    then show ?thesis by (subst dec.simps) (simp add: digits_val_def)
  next
    case False
    with "1.IH" show ?thesis
      by (subst dec.simps) (simp add: digits_val_snoc)
  qed
qed

lemma parse_digits_dec [simp]: "parse_digits (dec n) = Some n"
  by (simp add: parse_digits_def dec_digits)

lemma dec_hd_digit: "dec n = c # r \<Longrightarrow> is_digit c"
  using dec_digits [of n] by simp

lemma parse_unsigned_dec: "parse_unsigned mx (dec n) = (if n \<le> mx then Some n else None)"
proof -
  obtain c r where cr: "dec n = c # r" by (cases "dec n") auto
  have "c \<noteq> CHR ''+''" using dec_hd_digit [OF cr] by (auto simp: is_digit_def)
  then have body: "(case dec n of c # r \<Rightarrow> if c = CHR ''+'' then r else dec n | [] \<Rightarrow> []) = dec n"
    using cr by (auto split: list.split)
  show ?thesis by (simp add: parse_unsigned_def body)
qed

lemma trim_dec [simp]: "trim (dec n) = dec n"
  using dec_digits [of n] is_digit_ascii is_digit_not_ws
  by (intro trim_ascii_noop) (auto simp: list_all_iff)

text \<open>Length and canonicity of decimal strings.\<close>

lemma length_dec: "n < 10 ^ k \<Longrightarrow> 0 < k \<Longrightarrow> length (dec n) \<le> k"
proof (induction n arbitrary: k rule: dec.induct)
  case (1 n)
  show ?case
  proof (cases "n < 10")
    case True
    with 1 show ?thesis by (subst dec.simps) simp
  next
    case False
    obtain j where k: "k = Suc j" using 1 by (cases k) auto
    with 1 False have "n div 10 < 10 ^ j" "0 < j"
      by (cases j; auto simp: less_mult_imp_div_less mult.commute)+
    from "1.IH" [OF False this] False k show ?thesis by (subst dec.simps) simp
  qed
qed

lemma dec_leading: "dec n \<noteq> ''0'' \<Longrightarrow> hd (dec n) \<noteq> CHR ''0''"
proof (induction n rule: dec.induct)
  case (1 n)
  show ?case
  proof (cases "n < 10")
    case True
    then have "dec n = [digit_char n]" by (simp add: dec.simps)
    with 1 show ?thesis by simp
  next
    case False
    then have eq: "dec n = dec (n div 10) @ [digit_char (n mod 10)]" by (simp add: dec.simps)
    have "dec (n div 10) \<noteq> ''0''"
    proof
      assume "dec (n div 10) = ''0''"
      then have "digits_val (dec (n div 10)) = 0" by (simp add: digits_val_def digit_val_def)
      with False show False by simp
    qed
    from "1.IH" [OF False this] show ?thesis by (simp add: eq)
  qed
qed

text \<open>\<open>char::to_digit\<close> and the number a row of digits stands for.\<close>

definition to_digit :: "nat \<Rightarrow> char \<Rightarrow> nat option" where
  "to_digit radix c =
    (let v = (if is_digit c then digit_val c
              else if 97 \<le> byte_val c \<and> byte_val c \<le> 122 then byte_val c - 87
              else if 65 \<le> byte_val c \<and> byte_val c \<le> 90 then byte_val c - 55
              else radix)
     in if v < radix then Some v else None)"

definition number_of :: "nat \<Rightarrow> string \<Rightarrow> nat" where
  "number_of radix ds = foldl (\<lambda>v c. radix * v + the (to_digit radix c)) 0 ds"

lemma to_digit_decimal: "to_digit 10 c = (if is_digit c then Some (digit_val c) else None)"
  by (auto simp: to_digit_def is_digit_def digit_val_def Let_def)

lemma number_of_decimal: "list_all is_digit ds \<Longrightarrow> number_of 10 ds = digits_val ds"
  by (induction ds rule: rev_induct)
    (simp_all add: number_of_def digits_val_def to_digit_decimal)

section \<open>Splitting and joining\<close>

text \<open>\<open>split_once\<close> at a byte.\<close>

definition split_once :: "char \<Rightarrow> string \<Rightarrow> (string \<times> string) option" where
  "split_once c s = (case position (\<lambda>x. x = c) s of
     Some i \<Rightarrow> Some (take i s, drop (Suc i) s) | None \<Rightarrow> None)"

text \<open>\<open>join\<close> of a slice of strings.\<close>

fun join :: "string \<Rightarrow> string list \<Rightarrow> string" where
  "join sep [] = []"
| "join sep [x] = x"
| "join sep (x # y # xs) = x @ sep @ join sep (y # xs)"

section \<open>Searching and replacing\<close>

text \<open>\<open>str::find\<close>, \<open>contains\<close>, \<open>replace\<close> and \<open>to_ascii_lowercase\<close>.\<close>

fun str_find :: "string \<Rightarrow> string \<Rightarrow> nat option" where
  "str_find pat [] = (if pat = [] then Some 0 else None)"
| "str_find pat (c # cs) =
    (if take (length pat) (c # cs) = pat then Some 0 else map_option Suc (str_find pat cs))"

definition str_contains :: "string \<Rightarrow> string \<Rightarrow> bool" where
  "str_contains pat s \<longleftrightarrow> str_find pat s \<noteq> None"

function str_replace :: "string \<Rightarrow> string \<Rightarrow> string \<Rightarrow> string" where
  "str_replace pat new [] = []"
| "str_replace pat new (c # cs) =
    (if pat \<noteq> [] \<and> take (length pat) (c # cs) = pat
     then new @ str_replace pat new (drop (length pat) (c # cs))
     else c # str_replace pat new cs)"
  by pat_completeness auto
termination
proof (relation "measure (\<lambda>(pat, new, s). length s)", goal_cases)
  case (2 pat new c cs)
  then show ?case by (cases pat) auto
qed auto

definition ascii_lower :: "char \<Rightarrow> char" where
  "ascii_lower c = (if 65 \<le> byte_val c \<and> byte_val c \<le> 90 then char_of (byte_val c + 32) else c)"

definition to_ascii_lowercase :: "string \<Rightarrow> string" where
  "to_ascii_lowercase s = map ascii_lower s"

definition is_ascii_alphabetic :: "char \<Rightarrow> bool" where
  "is_ascii_alphabetic c \<longleftrightarrow> 65 \<le> byte_val c \<and> byte_val c \<le> 90 \<or> 97 \<le> byte_val c \<and> byte_val c \<le> 122"

definition ascii_upper :: "char \<Rightarrow> char" where
  "ascii_upper c = (if 97 \<le> byte_val c \<and> byte_val c \<le> 122 then char_of (byte_val c - 32) else c)"

definition eq_ignore_ascii_case :: "string \<Rightarrow> string \<Rightarrow> bool" where
  "eq_ignore_ascii_case a b \<longleftrightarrow> to_ascii_lowercase a = to_ascii_lowercase b"

section \<open>Separators of paths\<close>

abbreviation SLASH :: char where
  "SLASH \<equiv> CHR ''/''"

abbreviation BACKSLASH :: char where
  "BACKSLASH \<equiv> CHR 0x5C"

text \<open>\<open>str::replace\<close> of one char by another, both ASCII.\<close>

definition replace_char :: "char \<Rightarrow> char \<Rightarrow> string \<Rightarrow> string" where
  "replace_char a b s = map (\<lambda>c. if c = a then b else c) s"

text \<open>\<open>str::split\<close> at a char: every separator starts a new part.\<close>

fun split_char :: "char \<Rightarrow> string \<Rightarrow> string list" where
  "split_char a [] = [[]]"
| "split_char a (c # s) =
    (if c = a then [] # split_char a s
     else (case split_char a s of p # ps \<Rightarrow> (c # p) # ps | [] \<Rightarrow> [[c]]))"

text \<open>\<open>trim_matches\<close> with a char.\<close>

definition trim_char :: "char \<Rightarrow> string \<Rightarrow> string" where
  "trim_char a s = drop_last_while (\<lambda>c. c = a) (dropWhile (\<lambda>c. c = a) s)"

text \<open>\<open>str::lines\<close>: the ends of lines, LF or CR LF, are left out; a last line may lack one.\<close>

definition str_lines :: "string \<Rightarrow> string list" where
  "str_lines s =
    (let ps = split_char (CHR 0x0A) s in
     map (\<lambda>p. or_else (strip_suffix [CHR 0x0D] p) p) (butlast ps)
       @ (if last ps = [] then [] else [last ps]))"

text \<open>\<open>usize::from_str_radix(_, 16)\<close>.\<close>

definition parse_hex_usize :: "string \<Rightarrow> nat option" where
  "parse_hex_usize s =
    (let body = (case s of c # r \<Rightarrow> if c = CHR ''+'' then r else s | [] \<Rightarrow> []) in
     if body \<noteq> [] \<and> list_all (\<lambda>c. to_digit 16 c \<noteq> None) body
        \<and> number_of 16 body \<le> 18446744073709551615
     then Some (number_of 16 body) else None)"

end
