(* ===== verification/Machines.thy ===== *)
theory Machines
  imports Ccp_Prelude
begin

text \<open>
  The interfaces the components are proved against. \<open>safe_machine\<close> is a component whose
  operations may panic: under its invariant no operation does, so no run does.
  \<open>inv_machine\<close> is one whose operations are total; it is a \<open>safe_machine\<close>.
  \<open>stream_detector\<close> is a parser of a byte stream that is read in chunks: its
  \<open>process\<close> on a chunk is the fold of a one-byte step, so where the stream is cut does
  not matter.
\<close>

section \<open>Machines that may panic\<close>

fun run_opt :: "('s \<Rightarrow> 'e \<Rightarrow> 's option) \<Rightarrow> 's \<Rightarrow> 'e list \<Rightarrow> 's option" where
  "run_opt step s [] = Some s"
| "run_opt step s (e # es) = Option.bind (step s e) (\<lambda>s'. run_opt step s' es)"

lemma ok_run_opt:
  "P s \<Longrightarrow> (\<And>s e. e \<in> set es \<Longrightarrow> P s \<Longrightarrow> ok_opt P (step s e)) \<Longrightarrow> ok_opt P (run_opt step s es)"
  by (induction es arbitrary: s) (auto intro: ok_bind)

lemma run_opt_append:
  "run_opt step s (xs @ ys) = Option.bind (run_opt step s xs) (\<lambda>s'. run_opt step s' ys)"
  by (induction xs arbitrary: s) (simp_all split: Option.bind_split)

locale safe_machine =
  fixes step :: "'s \<Rightarrow> 'e \<Rightarrow> 's option"
    and inv :: "'s \<Rightarrow> bool"
    and valid :: "'e \<Rightarrow> bool"
  assumes step_safe: "inv s \<Longrightarrow> valid e \<Longrightarrow> ok_opt inv (step s e)"
begin

lemma run_safe: "inv s \<Longrightarrow> list_all valid es \<Longrightarrow> ok_opt inv (run_opt step s es)"
proof (induction es arbitrary: s)
  case Nil
  then show ?case by simp
next
  case (Cons e es)
  then show ?case by (auto intro: ok_bind step_safe)
qed

end

section \<open>Machines whose steps may be disabled\<close>

text \<open>A step that is not enabled has no successor; the invariant holds after every run of allowed events.\<close>

locale partial_machine =
  fixes step :: "'s \<Rightarrow> 'e \<Rightarrow> 's option"
    and inv :: "'s \<Rightarrow> bool"
    and allowed :: "'e \<Rightarrow> bool"
  assumes step_keeps: "inv s \<Longrightarrow> allowed e \<Longrightarrow> step s e = Some s' \<Longrightarrow> inv s'"
begin

lemma run_keeps: "inv s \<Longrightarrow> list_all allowed es \<Longrightarrow> run_opt step s es = Some s' \<Longrightarrow> inv s'"
  by (induction es arbitrary: s) (auto simp: bind_eq_Some_conv intro: step_keeps)

end

section \<open>Total machines\<close>

locale inv_machine =
  fixes next_state :: "'s \<Rightarrow> 'e \<Rightarrow> 's"
    and good :: "'s \<Rightarrow> bool"
  assumes next_good: "good s \<Longrightarrow> good (next_state s e)"
begin

lemma fold_good: "good s \<Longrightarrow> good (foldl next_state s es)"
  by (induction es arbitrary: s) (simp_all add: next_good)

end

sublocale inv_machine \<subseteq> safe_machine "\<lambda>s e. Some (next_state s e)" good "\<lambda>_. True"
  by unfold_locales (simp add: next_good)

section \<open>Stream detectors\<close>

fun feed :: "('s \<Rightarrow> 'b \<Rightarrow> 's \<times> 'o list) \<Rightarrow> 's \<Rightarrow> 'b list \<Rightarrow> 's \<times> 'o list" where
  "feed step s [] = (s, [])"
| "feed step s (b # bs) =
    (let (s1, o1) = step s b; (s2, o2) = feed step s1 bs in (s2, o1 @ o2))"

lemma feed_append:
  "feed step s (xs @ ys) =
    (let (s1, o1) = feed step s xs; (s2, o2) = feed step s1 ys in (s2, o1 @ o2))"
  by (induction xs arbitrary: s) (simp_all add: Let_def split: prod.splits)

lemma feed_cat:
  "feed step s xs = (s1, o1) \<Longrightarrow> feed step s1 ys = (s2, o2) \<Longrightarrow> feed step s (xs @ ys) = (s2, o1 @ o2)"
  by (simp add: feed_append)

text \<open>A stream delivered in chunks, each given to the detector's \<open>process\<close> in turn.\<close>

fun process_chunks ::
    "('s \<Rightarrow> 'b list \<Rightarrow> 's \<times> 'o list) \<Rightarrow> 's \<Rightarrow> 'b list list \<Rightarrow> 's \<times> 'o list" where
  "process_chunks process s [] = (s, [])"
| "process_chunks process s (c # cs) =
    (let (s1, o1) = process s c; (s2, o2) = process_chunks process s1 cs in (s2, o1 @ o2))"

locale stream_detector =
  fixes step :: "'s \<Rightarrow> 'b \<Rightarrow> 's \<times> 'o list"
    and process :: "'s \<Rightarrow> 'b list \<Rightarrow> 's \<times> 'o list"
  assumes process_feed: "process s bs = feed step s bs"
begin

lemma process_chunks_concat: "process_chunks process s cs = process s (concat cs)"
  by (induction cs arbitrary: s)
     (simp_all add: process_feed feed_append Let_def split: prod.splits)

lemma chunking_irrelevant:
  "concat cs = concat ds \<Longrightarrow> process_chunks process s cs = process_chunks process s ds"
  by (simp add: process_chunks_concat)

lemma process_append:
  "process s (xs @ ys) =
    (let (s1, o1) = process s xs; (s2, o2) = process s1 ys in (s2, o1 @ o2))"
  by (simp add: process_feed feed_append)

end

text \<open>A detector whose one-byte step keeps a state predicate keeps it on every chunk.\<close>

locale bounded_detector = stream_detector step process
  for step :: "'s \<Rightarrow> 'b \<Rightarrow> 's \<times> 'o list"
    and process :: "'s \<Rightarrow> 'b list \<Rightarrow> 's \<times> 'o list" +
  fixes wf :: "'s \<Rightarrow> bool"
    and ok :: "'o \<Rightarrow> bool"
  assumes step_wf: "wf s \<Longrightarrow> wf (fst (step s b)) \<and> list_all ok (snd (step s b))"
begin

lemma process_wf: "wf s \<Longrightarrow> wf (fst (process s bs)) \<and> list_all ok (snd (process s bs))"
proof (induction bs arbitrary: s)
  case Nil
  then show ?case by (simp add: process_feed)
next
  case (Cons b bs)
  from step_wf [OF Cons.prems, of b] have "wf (fst (step s b))" "list_all ok (snd (step s b))"
    by auto
  with Cons.IH [of "fst (step s b)"] show ?case
    by (simp add: process_feed Let_def case_prod_beta)
qed

lemma process_chunks_wf:
  "wf s \<Longrightarrow> wf (fst (process_chunks process s cs))
    \<and> list_all ok (snd (process_chunks process s cs))"
  using process_wf by (simp add: process_chunks_concat)

end

section \<open>Max-merge cells\<close>

text \<open>
  A cell that keeps the largest value it was given, up to a limit that its updates do not move.
  Its content does not depend on the order or the repetition of the updates.
\<close>

locale max_merge =
  fixes update :: "'s \<Rightarrow> nat \<Rightarrow> 's"
    and cell :: "'s \<Rightarrow> nat"
    and limit :: "'s \<Rightarrow> nat \<Rightarrow> nat"
  assumes cell_update: "cell (update s n) = max (cell s) (limit s n)"
    and limit_update: "limit (update s m) n = limit s n"
begin

lemma limit_fold: "limit (foldl update s ns) n = limit s n"
  by (induction ns arbitrary: s) (simp_all add: limit_update)

lemma cell_fold: "cell (foldl update s ns) = Max (insert (cell s) (limit s ` set ns))"
proof (induction ns rule: rev_induct)
  case Nil
  then show ?case by simp
next
  case (snoc n ns)
  have "cell (foldl update s (ns @ [n])) = max (cell (foldl update s ns)) (limit s n)"
    by (simp add: cell_update limit_fold)
  also have "\<dots> = Max (insert (limit s n) (insert (cell s) (limit s ` set ns)))"
    by (subst Max_insert) (simp_all add: snoc max.commute)
  also have "insert (limit s n) (insert (cell s) (limit s ` set ns))
      = insert (cell s) (limit s ` set (ns @ [n]))"
    by auto
  finally show ?case .
qed

lemma order_irrelevant:
  "set ns = set ms \<Longrightarrow> cell (foldl update s ns) = cell (foldl update s ms)"
  by (simp add: cell_fold)

lemma cell_monotone: "cell s \<le> cell (foldl update s ns)"
  by (simp add: cell_fold)

end

end
