(* ===== verification/Json.thy ===== *)
theory Json
  imports Rust_Text
begin

text \<open>
  A JSON value as \<open>serde_json\<close> gives it: a number by its printed form, an object by its
  entries in iteration order. Printing an array or an object is \<open>serde_json::to_string\<close>, the
  parameter \<open>ser\<close>.
\<close>

datatype json =
    JNull | JBool bool | JNumber string | JString string | JArray "json list"
  | JObject "(string \<times> json) list"

fun json_get :: "json \<Rightarrow> string \<Rightarrow> json option" where
  "json_get (JObject kvs) k = map_of kvs k"
| "json_get _ k = None"

fun json_as_str :: "json \<Rightarrow> string option" where
  "json_as_str (JString s) = Some s"
| "json_as_str _ = None"

fun json_as_u64 :: "json \<Rightarrow> nat option" where
  "json_as_u64 (JNumber s) = parse_unsigned 18446744073709551615 s"
| "json_as_u64 _ = None"

fun json_as_i64 :: "json \<Rightarrow> int option" where
  "json_as_i64 (JNumber s) =
    (case s of
       c # r \<Rightarrow>
         if c = CHR ''-'' then
           (case parse_digits r of
              Some v \<Rightarrow> if v \<le> 9223372036854775808 then Some (- int v) else None
            | None \<Rightarrow> None)
         else map_option int (parse_unsigned 9223372036854775807 s)
     | [] \<Rightarrow> None)"
| "json_as_i64 _ = None"

end
