(* ===== verification/Session_State.thy ===== *)
theory Session_State
  imports Rust_Text Machines Json
begin

text \<open>
  The hook-driven session state machine of
  \<open>cc-panes-core/src/services/session_state_machine.rs\<close>: the status enum
  (\<open>terminal_service.rs\<close>), the hook events (\<open>cc-cli-adapters/src/lib.rs\<close>), one entry
  per PTY session, and the operations that read and write it. A method that locks
  \<open>entries\<close> is one atomic step; the readings of the clock inside one critical section are
  one reading, \<open>now\<close> (monotonic) and \<open>wall\<close> (epoch milliseconds). Listeners and the
  broadcast channel are the log of the transitions handed to \<open>notify_listeners\<close>.
\<close>

section \<open>Statuses, events and channels\<close>

datatype session_status =
    Initializing | Idle | Thinking | ToolRunning | Compacting | WaitingInput | StError | Exited
  | Active

definition is_busy :: "session_status \<Rightarrow> bool" where
  "is_busy s \<longleftrightarrow> s \<in> {Thinking, ToolRunning, Compacting, Active}"

definition is_terminal :: "session_status \<Rightarrow> bool" where
  "is_terminal s \<longleftrightarrow> s = Exited"

instantiation session_status :: enum
begin

definition enum_session_status :: "session_status list" where
  "enum_session_status =
    [Initializing, Idle, Thinking, ToolRunning, Compacting, WaitingInput, StError, Exited, Active]"

definition enum_all_session_status :: "(session_status \<Rightarrow> bool) \<Rightarrow> bool" where
  "enum_all_session_status P = list_all P enum_class.enum"

definition enum_ex_session_status :: "(session_status \<Rightarrow> bool) \<Rightarrow> bool" where
  "enum_ex_session_status P = list_ex P enum_class.enum"

lemma UNIV_session_status:
  "(UNIV :: session_status set) = set enum_class.enum"
proof -
  have "s \<in> set enum_class.enum" for s :: session_status
    by (cases s) (simp_all add: enum_session_status_def)
  then show ?thesis by auto
qed

instance
proof
  show "(UNIV :: session_status set) = set enum_class.enum"
    by (rule UNIV_session_status)
  show "distinct (enum_class.enum :: session_status list)"
    by (simp add: enum_session_status_def)
  show "enum_class.enum_all P \<longleftrightarrow> Ball (UNIV :: session_status set) P" for P
    by (simp add: UNIV_session_status enum_all_session_status_def list_all_iff)
  show "enum_class.enum_ex P \<longleftrightarrow> Bex (UNIV :: session_status set) P" for P
    by (simp add: UNIV_session_status enum_ex_session_status_def list_ex_iff)
qed

end

datatype tool_kind = AnyTool | Bash | Write | Edit | Read | Custom

record tool_matcher =
  tm_tool :: tool_kind
  tm_path_glob :: "string option"
  tm_bash_cmd_prefix :: "string option"

definition tool_matcher_any :: tool_matcher where
  "tool_matcher_any = \<lparr>tm_tool = AnyTool, tm_path_glob = None, tm_bash_cmd_prefix = None\<rparr>"

datatype cc_pane_event =
    SessionInit | SessionResume | SessionEnd | PromptBefore
  | ToolBefore tool_matcher | ToolAfter tool_matcher
  | TurnEnd | BeforeCompact | EvWaitingInput | EvError

datatype event_channel = Http | Osc

fun cc_pane_event_name :: "cc_pane_event \<Rightarrow> string" where
  "cc_pane_event_name SessionInit = ''session-init''"
| "cc_pane_event_name SessionResume = ''session-resume''"
| "cc_pane_event_name SessionEnd = ''session-end''"
| "cc_pane_event_name PromptBefore = ''prompt-before''"
| "cc_pane_event_name (ToolBefore _) = ''tool-before''"
| "cc_pane_event_name (ToolAfter _) = ''tool-after''"
| "cc_pane_event_name TurnEnd = ''turn-end''"
| "cc_pane_event_name BeforeCompact = ''before-compact''"
| "cc_pane_event_name EvWaitingInput = ''waiting-input''"
| "cc_pane_event_name EvError = ''error''"

definition parse_cc_pane_event_name :: "string \<Rightarrow> cc_pane_event option" where
  "parse_cc_pane_event_name name =
    (if name = ''session-init'' then Some SessionInit
     else if name = ''session-resume'' then Some SessionResume
     else if name = ''session-end'' then Some SessionEnd
     else if name = ''prompt-before'' then Some PromptBefore
     else if name = ''tool-before'' then Some (ToolBefore tool_matcher_any)
     else if name = ''tool-after'' then Some (ToolAfter tool_matcher_any)
     else if name = ''turn-end'' then Some TurnEnd
     else if name = ''before-compact'' then Some BeforeCompact
     else if name = ''waiting-input'' then Some EvWaitingInput
     else if name = ''error'' then Some EvError
     else None)"

section \<open>Hook payloads\<close>

fun find_map :: "('a \<Rightarrow> 'b option) \<Rightarrow> 'a list \<Rightarrow> 'b option" where
  "find_map f [] = None"
| "find_map f (x # xs) = (case f x of Some y \<Rightarrow> Some y | None \<Rightarrow> find_map f xs)"

definition extract_str :: "string \<Rightarrow> json \<Rightarrow> string option" where
  "extract_str key payload = Option.bind (json_get payload key) json_as_str"

definition extract_tool_name :: "json \<Rightarrow> string option" where
  "extract_tool_name payload = extract_str ''tool_name'' payload"

definition extract_tool_use_id :: "json \<Rightarrow> string option" where
  "extract_tool_use_id payload = extract_str ''tool_use_id'' payload"

definition extract_error_type :: "json \<Rightarrow> string option" where
  "extract_error_type payload = extract_str ''error_type'' payload"

definition trim_tool_summary :: "string \<Rightarrow> string option" where
  "trim_tool_summary value =
    (let trimmed = trim value in
     if trimmed = [] then None else Some (concat (take 40 (utf8_chars trimmed))))"

fun summary_value_to_string :: "(json \<Rightarrow> string option) \<Rightarrow> json \<Rightarrow> string option" where
  "summary_value_to_string ser JNull = None"
| "summary_value_to_string ser (JString s) = Some s"
| "summary_value_to_string ser (JNumber n) = Some n"
| "summary_value_to_string ser (JBool b) = Some (if b then ''true'' else ''false'')"
| "summary_value_to_string ser v = ser v"

definition extract_tool_summary :: "(json \<Rightarrow> string option) \<Rightarrow> json \<Rightarrow> string option" where
  "extract_tool_summary ser payload =
    (case find_map (\<lambda>k. extract_str k payload)
            [''tool_summary'', ''input_summary'', ''summary''] of
       Some s \<Rightarrow> trim_tool_summary s
     | None \<Rightarrow>
         (case (case json_get payload ''tool_input'' of
                  Some i \<Rightarrow> Some i | None \<Rightarrow> json_get payload ''input'') of
            None \<Rightarrow> None
          | Some input \<Rightarrow>
              (case input of
                 JObject kvs \<Rightarrow>
                   (case find_map (\<lambda>k. Option.bind (map_of kvs k) (summary_value_to_string ser))
                           [''file_path'', ''path'', ''command'', ''pattern'', ''url'', ''query'',
                            ''prompt'', ''description''] of
                      Some v \<Rightarrow> trim_tool_summary v
                    | None \<Rightarrow>
                        (case kvs of
                           (_, v) # _ \<Rightarrow>
                             Option.bind (summary_value_to_string ser v) trim_tool_summary
                         | [] \<Rightarrow>
                             Option.bind (summary_value_to_string ser input) trim_tool_summary))
               | _ \<Rightarrow> Option.bind (summary_value_to_string ser input) trim_tool_summary)))"

section \<open>The entries and the machine\<close>

definition CROSS_CHANNEL_DEDUP_WINDOW_SECS :: nat where
  "CROSS_CHANNEL_DEDUP_WINDOW_SECS = 2"

definition DEDUP_MEMORY :: nat where
  "DEDUP_MEMORY = 4"

definition STALE_BUSY_TIMEOUT_SECS :: nat where
  "STALE_BUSY_TIMEOUT_SECS = 10 * 60"

definition AUTOMATIC_SUBMIT_PTY_IDLE_MS :: nat where
  "AUTOMATIC_SUBMIT_PTY_IDLE_MS = 800"

definition AUTOMATIC_SUBMIT_FALLBACK_IDLE_MS :: nat where
  "AUTOMATIC_SUBMIT_FALLBACK_IDLE_MS = 6000"

type_synonym applied_event = "string \<times> instant \<times> event_channel"

record session_entry =
  se_status :: session_status
  se_tool_name :: "string option"
  se_tool_summary :: "string option"
  se_last_hook_event_at :: instant
  se_last_applied_events :: "applied_event list"
  se_updated_at :: nat
  se_tool_use_id :: "string option"
  se_turn_seq :: nat
  se_task_binding_id :: "string option"
  se_automatic_submit_observed :: bool
  se_automatic_submit_pty_guard :: bool

definition new_entry :: "instant \<Rightarrow> nat \<Rightarrow> session_entry" where
  "new_entry now wall =
    \<lparr>se_status = Initializing, se_tool_name = None, se_tool_summary = None,
     se_last_hook_event_at = now, se_last_applied_events = [], se_updated_at = wall,
     se_tool_use_id = None, se_turn_seq = 0, se_task_binding_id = None,
     se_automatic_submit_observed = True, se_automatic_submit_pty_guard = False\<rparr>"

definition new_automatic_submit_baseline :: "instant \<Rightarrow> nat \<Rightarrow> session_entry" where
  "new_automatic_submit_baseline now wall =
    (new_entry now wall)\<lparr>se_automatic_submit_observed := False\<rparr>"

record state_transition =
  tr_session :: string
  tr_from :: session_status
  tr_to :: session_status
  tr_turn_seq :: nat
  tr_tool_use_id :: "string option"
  tr_tool_name :: "string option"
  tr_task_binding_id :: "string option"
  tr_trigger_event :: string
  tr_error_type :: "string option"

record state_machine =
  sm_entries :: "string \<rightharpoonup> session_entry"
  sm_log :: "state_transition list"

definition new_state_machine :: state_machine where
  "new_state_machine = \<lparr>sm_entries = Map.empty, sm_log = []\<rparr>"

definition notify_listeners :: "state_machine \<Rightarrow> state_transition \<Rightarrow> state_machine" where
  "notify_listeners m t = m\<lparr>sm_log := sm_log m @ [t]\<rparr>"

definition put_entry :: "state_machine \<Rightarrow> string \<Rightarrow> session_entry \<Rightarrow> state_machine" where
  "put_entry m sid e = m\<lparr>sm_entries := (sm_entries m)(sid \<mapsto> e)\<rparr>"

lemma put_entry_simps [simp]:
  "sm_entries (put_entry m sid e) = (sm_entries m)(sid \<mapsto> e)"
  "sm_log (put_entry m sid e) = sm_log m"
  "sm_entries (notify_listeners m t) = sm_entries m"
  "sm_log (notify_listeners m t) = sm_log m @ [t]"
  by (simp_all add: put_entry_def notify_listeners_def)

section \<open>Operations\<close>

text \<open>\<open>register_for_automatic_submit\<close> returns the instant of the last hook event.\<close>

definition register_for_automatic_submit ::
    "instant \<Rightarrow> nat \<Rightarrow> state_machine \<Rightarrow> string \<Rightarrow> state_machine \<times> instant" where
  "register_for_automatic_submit now wall m sid =
    (let e = (case sm_entries m sid of
                Some e \<Rightarrow> e | None \<Rightarrow> new_automatic_submit_baseline now wall);
         e' = e\<lparr>se_automatic_submit_pty_guard := True\<rparr>
     in (put_entry m sid e', se_last_hook_event_at e'))"

definition mark_automatic_submit_started ::
    "instant \<Rightarrow> nat \<Rightarrow> state_machine \<Rightarrow> string \<Rightarrow> state_machine" where
  "mark_automatic_submit_started now wall m sid =
    (let e = (case sm_entries m sid of
                Some e \<Rightarrow> e | None \<Rightarrow> new_automatic_submit_baseline now wall)
     in put_entry m sid
          (e\<lparr>se_automatic_submit_observed := False, se_last_hook_event_at := now,
             se_updated_at := wall\<rparr>))"

definition is_cross_channel_dup ::
    "session_entry \<Rightarrow> string \<Rightarrow> event_channel \<Rightarrow> instant \<Rightarrow> bool" where
  "is_cross_channel_dup e name channel now =
    list_ex (\<lambda>(n, at, ch). n = name \<and> ch \<noteq> channel
                \<and> as_secs (now - at) < CROSS_CHANNEL_DEDUP_WINDOW_SECS)
      (se_last_applied_events e)"

definition remember_applied :: "applied_event list \<Rightarrow> applied_event \<Rightarrow> applied_event list" where
  "remember_applied xs x = (if DEDUP_MEMORY \<le> length xs then drop 1 xs else xs) @ [x]"

text \<open>What an event that is applied writes before the transition table.\<close>

definition touch_entry ::
    "session_entry \<Rightarrow> string \<Rightarrow> event_channel \<Rightarrow> string option \<Rightarrow> instant \<Rightarrow> nat
      \<Rightarrow> session_entry" where
  "touch_entry e name channel tb now wall =
    e\<lparr>se_automatic_submit_observed := True,
      se_last_applied_events := remember_applied (se_last_applied_events e) (name, now, channel),
      se_task_binding_id := (case tb of Some i \<Rightarrow> Some i | None \<Rightarrow> se_task_binding_id e),
      se_last_hook_event_at := now,
      se_updated_at := wall\<rparr>"

definition clear_tool :: "session_entry \<Rightarrow> session_entry" where
  "clear_tool e = e\<lparr>se_tool_name := None, se_tool_summary := None\<rparr>"

text \<open>
  The transition table: the entry with its tool fields updated, the next status, and the
  tool-use id and tool name the transition reports.
\<close>

fun transition_table ::
    "(json \<Rightarrow> string option) \<Rightarrow> session_entry \<Rightarrow> session_status \<Rightarrow> cc_pane_event \<Rightarrow> json
      \<Rightarrow> session_entry \<times> session_status \<times> string option \<times> string option" where
  "transition_table ser e from SessionInit payload = (e, Initializing, None, None)"
| "transition_table ser e from SessionResume payload = (e, Initializing, None, None)"
| "transition_table ser e from PromptBefore payload = (e, Thinking, None, None)"
| "transition_table ser e from (ToolBefore _) payload =
    (let tool_name = (case extract_tool_name payload of Some n \<Rightarrow> n | None \<Rightarrow> ''tool'');
         tool_use_id = extract_tool_use_id payload
     in (e\<lparr>se_tool_use_id := tool_use_id, se_tool_name := Some tool_name,
            se_tool_summary := extract_tool_summary ser payload\<rparr>,
         ToolRunning, tool_use_id, Some tool_name))"
| "transition_table ser e from (ToolAfter _) payload =
    (let was = se_tool_use_id e; e' = clear_tool (e\<lparr>se_tool_use_id := None\<rparr>)
     in (e', if from = ToolRunning then Thinking else from, was, None))"
| "transition_table ser e from TurnEnd payload =
    (clear_tool (e\<lparr>se_turn_seq := se_turn_seq e + 1\<rparr>), Idle, None, None)"
| "transition_table ser e from BeforeCompact payload = (clear_tool e, Compacting, None, None)"
| "transition_table ser e from EvWaitingInput payload =
    (clear_tool e, WaitingInput, extract_tool_use_id payload, None)"
| "transition_table ser e from EvError payload = (clear_tool e, StError, None, None)"
| "transition_table ser e from SessionEnd payload = (clear_tool e, Exited, None, None)"

fun is_tool_before :: "cc_pane_event \<Rightarrow> bool" where
  "is_tool_before (ToolBefore _) = True"
| "is_tool_before _ = False"

definition on_event_with_channel ::
    "(json \<Rightarrow> string option) \<Rightarrow> instant \<Rightarrow> nat \<Rightarrow> state_machine \<Rightarrow> string \<Rightarrow> cc_pane_event
      \<Rightarrow> string option \<Rightarrow> json \<Rightarrow> event_channel
      \<Rightarrow> state_machine \<times> session_status \<times> session_status" where
  "on_event_with_channel ser now wall m sid event tb payload channel =
    (let e0 = (case sm_entries m sid of Some e \<Rightarrow> e | None \<Rightarrow> new_entry now wall);
         from = se_status e0;
         name = cc_pane_event_name event
     in if is_cross_channel_dup e0 name channel now then (put_entry m sid e0, from, from)
        else
          let e1 = touch_entry e0 name channel tb now wall;
              (e2, next, tool_use_id, tool_name) = transition_table ser e1 from event payload;
              e3 = e2\<lparr>se_status := next\<rparr>;
              m' = put_entry m sid e3;
              t = \<lparr>tr_session = sid, tr_from = from, tr_to = next,
                   tr_turn_seq = se_turn_seq e3, tr_tool_use_id = tool_use_id,
                   tr_tool_name = tool_name, tr_task_binding_id = se_task_binding_id e3,
                   tr_trigger_event = name,
                   tr_error_type = (if event = EvError then extract_error_type payload
                                    else None)\<rparr>
          in (if from \<noteq> next \<or> is_tool_before event then notify_listeners m' t else m',
              from, next))"

definition on_event ::
    "(json \<Rightarrow> string option) \<Rightarrow> instant \<Rightarrow> nat \<Rightarrow> state_machine \<Rightarrow> string \<Rightarrow> cc_pane_event
      \<Rightarrow> string option \<Rightarrow> json \<Rightarrow> state_machine \<times> session_status \<times> session_status" where
  "on_event ser now wall m sid event tb payload =
    on_event_with_channel ser now wall m sid event tb payload Http"

definition force_exited :: "nat \<Rightarrow> state_machine \<Rightarrow> string \<Rightarrow> state_machine" where
  "force_exited wall m sid =
    (case sm_entries m sid of
       None \<Rightarrow> m
     | Some e \<Rightarrow>
         if se_status e = Exited then m
         else notify_listeners
           (put_entry m sid
             (e\<lparr>se_status := Exited, se_tool_name := None, se_tool_summary := None,
                se_tool_use_id := None, se_updated_at := wall\<rparr>))
           \<lparr>tr_session = sid, tr_from = se_status e, tr_to = Exited,
            tr_turn_seq = se_turn_seq e, tr_tool_use_id = None, tr_tool_name = None,
            tr_task_binding_id = se_task_binding_id e, tr_trigger_event = ''pty-exit'',
            tr_error_type = None\<rparr>)"

definition snapshot :: "state_machine \<Rightarrow> string \<Rightarrow> session_entry option" where
  "snapshot m sid = sm_entries m sid"

definition seconds_since_last_hook :: "instant \<Rightarrow> state_machine \<Rightarrow> string \<Rightarrow> nat option" where
  "seconds_since_last_hook now m sid =
    map_option (\<lambda>e. as_secs (now - se_last_hook_event_at e)) (sm_entries m sid)"

definition status_for_query_at ::
    "state_machine \<Rightarrow> string \<Rightarrow> session_status \<Rightarrow> instant \<Rightarrow> session_status" where
  "status_for_query_at m sid stored now =
    (if \<not> is_busy stored then stored
     else case sm_entries m sid of
       None \<Rightarrow> stored
     | Some e \<Rightarrow>
         if \<not> is_busy (se_status e) then stored
         else if STALE_BUSY_TIMEOUT_SECS < as_secs (now - se_last_hook_event_at e) then Idle
         else stored)"

definition hook_silent :: "session_entry \<Rightarrow> instant \<Rightarrow> bool" where
  "hook_silent e now \<longleftrightarrow>
    AUTOMATIC_SUBMIT_FALLBACK_IDLE_MS \<le> as_millis (now - se_last_hook_event_at e)"

definition status_for_automatic_submit_at ::
    "state_machine \<Rightarrow> string \<Rightarrow> session_status \<Rightarrow> bool \<Rightarrow> instant \<Rightarrow> session_status" where
  "status_for_automatic_submit_at m sid backend pty_output_stale now =
    (if backend = Exited \<or> backend = StError then backend
     else case sm_entries m sid of
       None \<Rightarrow> Initializing
     | Some e \<Rightarrow>
         if \<not> se_automatic_submit_observed e then
           (if backend = Idle \<and> hook_silent e now \<and> pty_output_stale then Idle
            else Initializing)
         else if se_status e = Idle then
           (if \<not> se_automatic_submit_pty_guard e \<or> pty_output_stale then Idle
            else Initializing)
         else if se_status e = WaitingInput then WaitingInput
         else if is_busy (se_status e) then
           (if hook_silent e now \<and> pty_output_stale then Idle else se_status e)
         else se_status e)"

definition status_for_automatic_submit ::
    "state_machine \<Rightarrow> string \<Rightarrow> session_status \<Rightarrow> nat \<Rightarrow> nat \<Rightarrow> instant \<Rightarrow> session_status" where
  "status_for_automatic_submit m sid backend last_output_at wall now =
    status_for_automatic_submit_at m sid backend
      (AUTOMATIC_SUBMIT_PTY_IDLE_MS < wall - last_output_at) now"

section \<open>Runs of the machine\<close>

text \<open>
  The calls other threads may interleave: hook events on either channel, the queue worker's
  registration and submit mark, and the PTY exit. Each takes the entries lock once.
\<close>

datatype sm_op =
    OpEvent instant nat string cc_pane_event "string option" json event_channel
  | OpRegister instant nat string
  | OpMarkSubmit instant nat string
  | OpForceExited nat string

fun sm_step :: "(json \<Rightarrow> string option) \<Rightarrow> state_machine \<Rightarrow> sm_op \<Rightarrow> state_machine" where
  "sm_step ser m (OpEvent now wall sid ev tb payload ch) =
    fst (on_event_with_channel ser now wall m sid ev tb payload ch)"
| "sm_step ser m (OpRegister now wall sid) = fst (register_for_automatic_submit now wall m sid)"
| "sm_step ser m (OpMarkSubmit now wall sid) = mark_automatic_submit_started now wall m sid"
| "sm_step ser m (OpForceExited wall sid) = force_exited wall m sid"

definition sm_run :: "(json \<Rightarrow> string option) \<Rightarrow> state_machine \<Rightarrow> sm_op list \<Rightarrow> state_machine" where
  "sm_run ser m ops = foldl (sm_step ser) m ops"

lemma sm_run_simps [simp]:
  "sm_run ser m [] = m"
  "sm_run ser m (op # ops) = sm_run ser (sm_step ser m op) ops"
  by (simp_all add: sm_run_def)

subsection \<open>The entry an event leaves\<close>

definition entry_or_new :: "instant \<Rightarrow> nat \<Rightarrow> state_machine \<Rightarrow> string \<Rightarrow> session_entry" where
  "entry_or_new now wall m sid =
    (case sm_entries m sid of Some e \<Rightarrow> e | None \<Rightarrow> new_entry now wall)"

definition status_of :: "state_machine \<Rightarrow> string \<Rightarrow> session_status" where
  "status_of m sid = (case sm_entries m sid of Some e \<Rightarrow> se_status e | None \<Rightarrow> Initializing)"

lemma se_status_entry_or_new [simp]: "se_status (entry_or_new now wall m sid) = status_of m sid"
  by (simp add: entry_or_new_def status_of_def new_entry_def split: option.split)

lemma transition_table_frame:
  assumes "transition_table ser e from ev payload = (e', nxt, tu, tn)"
  shows "se_last_applied_events e' = se_last_applied_events e"
    and "se_automatic_submit_observed e' = se_automatic_submit_observed e"
    and "se_last_hook_event_at e' = se_last_hook_event_at e"
    and "se_task_binding_id e' = se_task_binding_id e"
    and "se_turn_seq e' = se_turn_seq e + (if ev = TurnEnd then 1 else 0)"
  using assms by (cases ev; auto simp: Let_def clear_tool_def split: if_splits)+

text \<open>An event either is dropped as a copy, or leaves a touched entry with the next status.\<close>

lemma on_event_dropped:
  assumes "is_cross_channel_dup (entry_or_new now wall m sid) (cc_pane_event_name ev) ch now"
  shows "on_event_with_channel ser now wall m sid ev tb payload ch =
    (put_entry m sid (entry_or_new now wall m sid), status_of m sid, status_of m sid)"
  using assms
  by (simp add: on_event_with_channel_def Let_def entry_or_new_def [symmetric])

lemma on_event_applied:
  assumes "\<not> is_cross_channel_dup (entry_or_new now wall m sid) (cc_pane_event_name ev) ch now"
  obtains e' nxt t where
    "on_event_with_channel ser now wall m sid ev tb payload ch =
      ((if status_of m sid \<noteq> nxt \<or> is_tool_before ev
        then notify_listeners (put_entry m sid e') t else put_entry m sid e'),
       status_of m sid, nxt)"
    and "se_status e' = nxt" and "tr_session t = sid" and "tr_from t = status_of m sid"
    and "tr_to t = nxt"
    and "se_last_applied_events e' =
      remember_applied (se_last_applied_events (entry_or_new now wall m sid))
        (cc_pane_event_name ev, now, ch)"
    and "se_automatic_submit_observed e'" and "se_last_hook_event_at e' = now"
    and "se_turn_seq e' =
      se_turn_seq (entry_or_new now wall m sid) + (if ev = TurnEnd then 1 else 0)"
    and "nxt = ToolRunning \<Longrightarrow> se_tool_name e' \<noteq> None"
proof -
  define e1 where "e1 = touch_entry (entry_or_new now wall m sid) (cc_pane_event_name ev) ch tb now wall"
  obtain e2 nxt tu tn where tt:
    "transition_table ser e1 (status_of m sid) ev payload = (e2, nxt, tu, tn)"
    by (metis prod_cases4)
  note frame = transition_table_frame [OF tt]
  define t where "t = \<lparr>tr_session = sid, tr_from = status_of m sid, tr_to = nxt,
      tr_turn_seq = se_turn_seq e2, tr_tool_use_id = tu,
      tr_tool_name = tn, tr_task_binding_id = se_task_binding_id e2,
      tr_trigger_event = cc_pane_event_name ev,
      tr_error_type = (if ev = EvError then extract_error_type payload else None)\<rparr>"
  show thesis
  proof (rule that [of nxt "e2\<lparr>se_status := nxt\<rparr>" t])
    show "on_event_with_channel ser now wall m sid ev tb payload ch =
      ((if status_of m sid \<noteq> nxt \<or> is_tool_before ev
        then notify_listeners (put_entry m sid (e2\<lparr>se_status := nxt\<rparr>)) t
        else put_entry m sid (e2\<lparr>se_status := nxt\<rparr>)), status_of m sid, nxt)"
      using assms tt
      by (simp add: on_event_with_channel_def Let_def entry_or_new_def [symmetric] e1_def t_def)
    show "nxt = ToolRunning \<Longrightarrow>
        se_tool_name (e2\<lparr>se_status := nxt\<rparr>) \<noteq> None"
      using tt by (cases ev) (auto simp: Let_def clear_tool_def split: if_splits)
  qed (use frame in \<open>simp_all add: e1_def touch_entry_def t_def\<close>)
qed

lemma on_event_other_session:
  assumes "sid' \<noteq> sid"
  shows "sm_entries (fst (on_event_with_channel ser now wall m sid ev tb payload ch)) sid' =
    sm_entries m sid'"
proof (cases "is_cross_channel_dup (entry_or_new now wall m sid) (cc_pane_event_name ev) ch now")
  case True
  then show ?thesis using assms by (simp add: on_event_dropped)
next
  case False
  then show ?thesis
    by (rule on_event_applied [where ser = ser and tb = tb and payload = payload])
       (use assms in \<open>simp split: if_splits\<close>)
qed

subsection \<open>The invariant\<close>

text \<open>
  The transition log read as a history: each transition starts from the status the previous
  one of its session left. \<open>None\<close> is a log with a break in it.
\<close>

fun replay_log ::
    "(string \<Rightarrow> session_status) \<Rightarrow> state_transition list \<Rightarrow> (string \<Rightarrow> session_status) option"
where
  "replay_log f [] = Some f"
| "replay_log f (t # ts) =
    (if tr_from t = f (tr_session t) then replay_log (f(tr_session t := tr_to t)) ts else None)"

lemma replay_log_snoc:
  "replay_log f (ts @ [t]) =
    Option.bind (replay_log f ts)
      (\<lambda>g. if tr_from t = g (tr_session t) then Some (g(tr_session t := tr_to t)) else None)"
  by (induction ts arbitrary: f) auto

definition entry_inv :: "session_entry \<Rightarrow> bool" where
  "entry_inv e \<longleftrightarrow>
    length (se_last_applied_events e) \<le> DEDUP_MEMORY
    \<and> (se_status e = ToolRunning \<longrightarrow> se_tool_name e \<noteq> None)"

definition entries_inv :: "state_machine \<Rightarrow> bool" where
  "entries_inv m \<longleftrightarrow> (\<forall>sid e. sm_entries m sid = Some e \<longrightarrow> entry_inv e)"

definition log_inv :: "state_machine \<Rightarrow> bool" where
  "log_inv m \<longleftrightarrow> replay_log (\<lambda>_. Initializing) (sm_log m) = Some (status_of m)"

definition sm_inv :: "state_machine \<Rightarrow> bool" where
  "sm_inv m \<longleftrightarrow> entries_inv m \<and> log_inv m"

lemma length_remember_applied:
  "length xs \<le> DEDUP_MEMORY \<Longrightarrow> length (remember_applied xs x) \<le> DEDUP_MEMORY"
  by (auto simp: remember_applied_def DEDUP_MEMORY_def)

lemma entry_inv_new [simp]: "entry_inv (new_entry now wall)"
  by (simp add: entry_inv_def new_entry_def)

lemma entry_inv_baseline [simp]: "entry_inv (new_automatic_submit_baseline now wall)"
  by (simp add: entry_inv_def new_automatic_submit_baseline_def new_entry_def)

lemma status_of_put_entry [simp]:
  "status_of (put_entry m sid e) = (status_of m)(sid := se_status e)"
  by (auto simp: status_of_def fun_eq_iff)

lemma status_of_notify [simp]: "status_of (notify_listeners m t) = status_of m"
  by (auto simp: status_of_def fun_eq_iff)

lemma entries_inv_put_entry:
  "entries_inv m \<Longrightarrow> entry_inv e \<Longrightarrow> entries_inv (put_entry m sid e)"
  by (auto simp: entries_inv_def)

lemma entries_inv_notify [simp]: "entries_inv (notify_listeners m t) = entries_inv m"
  by (simp add: entries_inv_def)

lemma entry_inv_or_new: "entries_inv m \<Longrightarrow> entry_inv (entry_or_new now wall m sid)"
  by (auto simp: entries_inv_def entry_or_new_def split: option.split)

text \<open>Writing an entry of unchanged status keeps the log invariant; so does logging a change.\<close>

lemma log_inv_put_same:
  "log_inv m \<Longrightarrow> se_status e = status_of m sid \<Longrightarrow> log_inv (put_entry m sid e)"
  by (simp add: log_inv_def)

lemma log_inv_notify:
  assumes "log_inv m" and "tr_session t = sid" and "tr_from t = status_of m sid"
    and "tr_to t = se_status e"
  shows "log_inv (notify_listeners (put_entry m sid e) t)"
  using assms by (simp add: log_inv_def replay_log_snoc)

lemma on_event_inv [inv_preserve]:
  assumes "sm_inv m"
  shows "sm_inv (fst (on_event_with_channel ser now wall m sid ev tb payload ch))"
proof (cases "is_cross_channel_dup (entry_or_new now wall m sid) (cc_pane_event_name ev) ch now")
  case True
  with assms show ?thesis
    by (simp add: on_event_dropped sm_inv_def entries_inv_put_entry entry_inv_or_new
        log_inv_put_same)
next
  case False
  from assms have ent: "entries_inv m" and log: "log_inv m" by (simp_all add: sm_inv_def)
  show ?thesis
  proof (rule on_event_applied [OF False, of ser tb payload])
    fix e' nxt t
    assume eq: "on_event_with_channel ser now wall m sid ev tb payload ch =
        ((if status_of m sid \<noteq> nxt \<or> is_tool_before ev
          then notify_listeners (put_entry m sid e') t else put_entry m sid e'),
         status_of m sid, nxt)"
      and st: "se_status e' = nxt" "tr_session t = sid" "tr_from t = status_of m sid" "tr_to t = nxt"
      and la: "se_last_applied_events e' =
        remember_applied (se_last_applied_events (entry_or_new now wall m sid))
          (cc_pane_event_name ev, now, ch)"
      and tool: "nxt = ToolRunning \<Longrightarrow> se_tool_name e' \<noteq> None"
    have "entry_inv e'"
      using entry_inv_or_new [OF ent, of now wall sid] st tool
      by (auto simp: entry_inv_def la length_remember_applied)
    with ent have "entries_inv (put_entry m sid e')"
      by (rule entries_inv_put_entry)
    then show ?thesis
      using st log_inv_notify [OF log, of t sid e'] log_inv_put_same [OF log, of e' sid]
      by (simp add: eq sm_inv_def)
  qed
qed

lemma register_inv [inv_preserve]:
  assumes "sm_inv m"
  shows "sm_inv (fst (register_for_automatic_submit now wall m sid))"
proof -
  define e where "e = (case sm_entries m sid of
      Some e \<Rightarrow> e | None \<Rightarrow> new_automatic_submit_baseline now wall)"
  have e: "entry_inv e" "se_status e = status_of m sid"
    using assms
    by (auto simp: e_def status_of_def sm_inv_def entries_inv_def
        new_automatic_submit_baseline_def new_entry_def entry_inv_def split: option.split)
  then have "entry_inv (e\<lparr>se_automatic_submit_pty_guard := True\<rparr>)"
    by (simp add: entry_inv_def)
  with e assms show ?thesis
    by (simp add: register_for_automatic_submit_def Let_def e_def [symmetric] sm_inv_def
        entries_inv_put_entry log_inv_put_same)
qed

lemma mark_submit_inv [inv_preserve]:
  assumes "sm_inv m"
  shows "sm_inv (mark_automatic_submit_started now wall m sid)"
proof -
  define e where "e = (case sm_entries m sid of
      Some e \<Rightarrow> e | None \<Rightarrow> new_automatic_submit_baseline now wall)"
  have e: "entry_inv e" "se_status e = status_of m sid"
    using assms
    by (auto simp: e_def status_of_def sm_inv_def entries_inv_def
        new_automatic_submit_baseline_def new_entry_def entry_inv_def split: option.split)
  then have "entry_inv (e\<lparr>se_automatic_submit_observed := False, se_last_hook_event_at := now,
      se_updated_at := wall\<rparr>)"
    by (simp add: entry_inv_def)
  with e assms show ?thesis
    by (simp add: mark_automatic_submit_started_def Let_def e_def [symmetric] sm_inv_def
        entries_inv_put_entry log_inv_put_same)
qed

lemma force_exited_inv [inv_preserve]:
  assumes "sm_inv m"
  shows "sm_inv (force_exited wall m sid)"
proof (cases "sm_entries m sid")
  case None
  with assms show ?thesis by (simp add: force_exited_def)
next
  case (Some e)
  let ?e = "e\<lparr>se_status := Exited, se_tool_name := None, se_tool_summary := None,
      se_tool_use_id := None, se_updated_at := wall\<rparr>"
  from assms Some have ei: "entry_inv e" by (simp add: sm_inv_def entries_inv_def)
  then have "entry_inv ?e" by (simp add: entry_inv_def)
  moreover have "status_of m sid = se_status e" using Some by (simp add: status_of_def)
  ultimately show ?thesis
    using assms Some
    by (simp add: force_exited_def sm_inv_def entries_inv_put_entry log_inv_notify)
qed

lemma sm_step_inv: "sm_inv m \<Longrightarrow> sm_inv (sm_step ser m op)"
  by (cases op) (simp_all add: inv_preserve)

lemma new_state_machine_inv: "sm_inv new_state_machine"
  by (simp add: sm_inv_def entries_inv_def log_inv_def new_state_machine_def status_of_def
      fun_eq_iff)

interpretation sm: inv_machine "sm_step ser" sm_inv
  for ser
  by unfold_locales (rule sm_step_inv)

lemma sm_run_inv: "sm_inv m \<Longrightarrow> sm_inv (sm_run ser m ops)"
  unfolding sm_run_def by (rule sm.fold_good)

section \<open>The memory of applied events\<close>

text \<open>\<open>recent k x xs\<close>: \<open>x\<close> is in \<open>xs\<close> with at most \<open>k\<close> newer records after it.\<close>

definition recent :: "nat \<Rightarrow> 'a \<Rightarrow> 'a list \<Rightarrow> bool" where
  "recent k x xs \<longleftrightarrow> (\<exists>ys zs. xs = ys @ x # zs \<and> length zs \<le> k)"

lemma recentI: "xs = ys @ x # zs \<Longrightarrow> length zs \<le> k \<Longrightarrow> recent k x xs"
  unfolding recent_def by blast

lemma recent_mem: "recent k x xs \<Longrightarrow> x \<in> set xs"
  by (auto simp: recent_def)

lemma recent_mono: "recent k x xs \<Longrightarrow> k \<le> l \<Longrightarrow> recent l x xs"
  by (fastforce simp: recent_def)

lemma recent_remember_new: "recent 0 x (remember_applied xs x)"
  by (auto simp: recent_def remember_applied_def)

lemma recent_remember:
  assumes "recent k x xs" and "length xs \<le> DEDUP_MEMORY" and "Suc k < DEDUP_MEMORY"
  shows "recent (Suc k) x (remember_applied xs y)"
proof -
  from assms(1) obtain ys zs where xs: "xs = ys @ x # zs" and zs: "length zs \<le> k"
    by (auto simp: recent_def)
  show ?thesis
  proof (cases "DEDUP_MEMORY \<le> length xs")
    case False
    with xs zs show ?thesis
      by (intro recentI [of _ ys x "zs @ [y]"]) (simp_all add: remember_applied_def)
  next
    case True
    with assms(3) zs xs obtain a ys' where "ys = a # ys'"
      by (cases ys) (auto simp: DEDUP_MEMORY_def)
    with True xs zs show ?thesis
      by (intro recentI [of _ ys' x "zs @ [y]"]) (simp_all add: remember_applied_def)
  qed
qed

definition remembers :: "nat \<Rightarrow> applied_event \<Rightarrow> state_machine \<Rightarrow> string \<Rightarrow> bool" where
  "remembers k x m sid \<longleftrightarrow>
    (\<exists>e. sm_entries m sid = Some e \<and> recent k x (se_last_applied_events e))"

fun is_event_of :: "string \<Rightarrow> sm_op \<Rightarrow> bool" where
  "is_event_of sid (OpEvent now wall sid' ev tb payload ch) = (sid' = sid)"
| "is_event_of sid _ = False"

lemma remembers_other_ops:
  assumes "remembers k x m sid" and "\<not> is_event_of sid op"
  shows "remembers k x (sm_step ser m op) sid"
proof (cases op)
  case (OpEvent now wall sid' ev tb payload ch)
  with assms show ?thesis
    by (simp add: remembers_def on_event_other_session)
next
  case (OpRegister now wall sid')
  with assms show ?thesis
    by (auto simp: remembers_def register_for_automatic_submit_def Let_def)
next
  case (OpMarkSubmit now wall sid')
  with assms show ?thesis
    by (auto simp: remembers_def mark_automatic_submit_started_def Let_def)
next
  case (OpForceExited wall sid')
  with assms show ?thesis
    by (auto simp: remembers_def force_exited_def split: option.split)
qed

lemma remembers_event:
  assumes "remembers k x m sid" and "entries_inv m" and "Suc k < DEDUP_MEMORY"
  shows "remembers (Suc k) x (fst (on_event_with_channel ser now wall m sid ev tb payload ch)) sid"
proof (cases "is_cross_channel_dup (entry_or_new now wall m sid) (cc_pane_event_name ev) ch now")
  case True
  with assms(1) show ?thesis
    by (auto simp: on_event_dropped remembers_def entry_or_new_def recent_mono)
next
  case False
  from assms(1) obtain e where e: "sm_entries m sid = Some e"
    "recent k x (se_last_applied_events e)" by (auto simp: remembers_def)
  with assms(2) have len: "length (se_last_applied_events e) \<le> DEDUP_MEMORY"
    by (auto simp: entries_inv_def entry_inv_def)
  show ?thesis
    by (rule on_event_applied [OF False, of ser tb payload])
       (use recent_remember [OF e(2) len assms(3)] e(1) in
          \<open>auto simp: remembers_def entry_or_new_def\<close>)
qed

lemma remembers_run:
  assumes "remembers k x m sid" and "sm_inv m"
    and "k + length (filter (is_event_of sid) ops) < DEDUP_MEMORY"
  shows "remembers (k + length (filter (is_event_of sid) ops)) x (sm_run ser m ops) sid"
  using assms
proof (induction ops arbitrary: k m)
  case Nil
  then show ?case by simp
next
  case (Cons op ops)
  note inv' = sm_step_inv [OF Cons.prems(2), of ser op]
  show ?case
  proof (cases "is_event_of sid op")
    case True
    with Cons.prems have "remembers (Suc k) x (sm_step ser m op) sid"
      by (cases op) (simp_all add: remembers_event sm_inv_def)
    from Cons.IH [OF this inv'] Cons.prems(3) True show ?thesis by simp
  next
    case False
    from Cons.IH [OF remembers_other_ops [OF Cons.prems(1) False] inv'] Cons.prems(3) False
    show ?thesis by simp
  qed
qed

lemma remembered_copy_dropped:
  assumes "remembers k (cc_pane_event_name ev, t1, ch) m sid" and "ch' \<noteq> ch"
    and "as_secs (t2 - t1) < CROSS_CHANNEL_DEDUP_WINDOW_SECS"
    and "cc_pane_event_name ev' = cc_pane_event_name ev"
  shows "on_event_with_channel ser t2 wall m sid ev' tb payload ch' =
    (m, status_of m sid, status_of m sid)"
proof -
  from assms(1) obtain e where e: "sm_entries m sid = Some e"
    "(cc_pane_event_name ev, t1, ch) \<in> set (se_last_applied_events e)"
    by (auto simp: remembers_def dest: recent_mem)
  then have "is_cross_channel_dup (entry_or_new t2 wall m sid) (cc_pane_event_name ev') ch' t2"
    using assms(2-4) by (auto simp: is_cross_channel_dup_def entry_or_new_def list_ex_iff)
  moreover have "put_entry m sid e = m"
    using e(1) by (simp add: put_entry_def fun_upd_idem)
  ultimately show ?thesis
    using e(1) by (simp add: on_event_dropped entry_or_new_def)
qed

lemma applied_is_remembered:
  assumes "\<not> is_cross_channel_dup (entry_or_new now wall m sid) (cc_pane_event_name ev) ch now"
  shows "remembers 0 (cc_pane_event_name ev, now, ch)
    (fst (on_event_with_channel ser now wall m sid ev tb payload ch)) sid"
  by (rule on_event_applied [OF assms, of ser tb payload])
     (auto simp: remembers_def recent_remember_new)

end
