(* ===== verification/Session_Props.thy ===== *)
theory Session_Props
  imports Session_State
begin

text \<open>
  The properties of the session state machine: its transition log is an unbroken history,
  its entries stay bounded, one hook delivered on two channels counts once, and an automatic
  submit is authorised only by a fresh observation or by double silence.
\<close>

section \<open>History and bounds\<close>


text \<open>
  In every reachable machine an entry remembers at most DEDUP_MEMORY applied
  events, and an entry whose status is ToolRunning names its tool.
\<close>

theorem session_entries_wf:
  assumes "sm_entries (sm_run ser new_state_machine ops) sid = Some e"
  shows "length (se_last_applied_events e) \<le> DEDUP_MEMORY
    \<and> (se_status e = ToolRunning \<longrightarrow> se_tool_name e \<noteq> None)"
  using sm_run_inv [OF new_state_machine_inv, of ser ops] assms
  by (auto simp: sm_inv_def entries_inv_def entry_inv_def)

definition sample_ops :: "sm_op list" where
  "sample_ops =
    [OpEvent 10 1 ''pty'' PromptBefore None JNull Http,
     OpEvent 20 1 ''pty'' (ToolBefore tool_matcher_any) None
       (JObject [(''tool_name'', JString ''Edit'')]) Http]"

lemmas session_eval =
  on_event_with_channel_def new_state_machine_def new_entry_def is_cross_channel_dup_def
  touch_entry_def remember_applied_def DEDUP_MEMORY_def clear_tool_def put_entry_def
  notify_listeners_def as_secs_def from_secs_def from_millis_def CROSS_CHANNEL_DEDUP_WINDOW_SECS_def
  status_of_def entry_or_new_def

lemma sample_entry:
  "sm_entries (sm_run (\<lambda>_. None) new_state_machine sample_ops) ''pty'' =
    Some (the (sm_entries (sm_run (\<lambda>_. None) new_state_machine sample_ops) ''pty''))"
  by (simp add: sample_ops_def session_eval Let_def)

theorem session_entries_wf_witness:
  "se_status (the (sm_entries (sm_run (\<lambda>_. None) new_state_machine sample_ops) ''pty'')) = ToolRunning
    \<and> se_tool_name (the (sm_entries (sm_run (\<lambda>_. None) new_state_machine sample_ops) ''pty'')) \<noteq> None"
proof -
  have "se_status (the (sm_entries (sm_run (\<lambda>_. None) new_state_machine sample_ops) ''pty''))
      = ToolRunning"
    by (simp add: sample_ops_def session_eval Let_def)
  with session_entries_wf [OF sample_entry] show ?thesis by blast
qed

section \<open>One hook, two channels\<close>

text \<open>
  Property C2. A hook event that was applied on one channel is dropped when it arrives again on
  the other channel within the two-second window, even if up to three other events of the
  session were applied in between (the reordering A(Http), B(Http), A(Osc)): the machine is
  unchanged, so no turn is counted twice and no status is set back.
\<close>

theorem cross_channel_copy_dropped:
  assumes "m = sm_run ser new_state_machine pre"
    and "\<not> is_cross_channel_dup (entry_or_new t w m sid) (cc_pane_event_name ev) ch t"
    and "m' = sm_run ser m (OpEvent t w sid ev tb payload ch # ops)"
    and "length (filter (is_event_of sid) ops) < DEDUP_MEMORY"
    and "ch' \<noteq> ch" and "cc_pane_event_name ev' = cc_pane_event_name ev"
    and "as_secs (t' - t) < CROSS_CHANNEL_DEDUP_WINDOW_SECS"
  shows "on_event_with_channel ser t' w' m' sid ev' tb' payload' ch' =
    (m', status_of m' sid, status_of m' sid)"
proof -
  let ?m1 = "fst (on_event_with_channel ser t w m sid ev tb payload ch)"
  have "sm_inv ?m1"
    unfolding assms(1) by (intro on_event_inv sm_run_inv new_state_machine_inv)
  with applied_is_remembered [OF assms(2)] assms(4)
  have "remembers (0 + length (filter (is_event_of sid) ops)) (cc_pane_event_name ev, t, ch)
      (sm_run ser ?m1 ops) sid"
    by (intro remembers_run) simp_all
  then have "remembers (0 + length (filter (is_event_of sid) ops))
      (cc_pane_event_name ev, t, ch) m' sid"
    by (simp add: assms(3))
  then show ?thesis
    using assms(5,7,6) by (rule remembered_copy_dropped)
qed

theorem cross_channel_copy_dropped_witness:
  "on_event_with_channel (\<lambda>_. None) (from_millis 500) 9
     (sm_run (\<lambda>_. None) new_state_machine
       [OpEvent 0 0 ''s'' TurnEnd None JNull Http, OpEvent 10 0 ''s'' PromptBefore None JNull Http])
     ''s'' TurnEnd None JNull Osc =
   (sm_run (\<lambda>_. None) new_state_machine
       [OpEvent 0 0 ''s'' TurnEnd None JNull Http, OpEvent 10 0 ''s'' PromptBefore None JNull Http],
    Thinking, Thinking)"
proof -
  let ?m = "sm_run (\<lambda>_. None) new_state_machine
       [OpEvent 0 0 ''s'' TurnEnd None JNull Http, OpEvent 10 0 ''s'' PromptBefore None JNull Http]"
  have "on_event_with_channel (\<lambda>_. None) (from_millis 500) 9 ?m ''s'' TurnEnd None JNull Osc =
      (?m, status_of ?m ''s'', status_of ?m ''s'')"
    by (rule cross_channel_copy_dropped
        [where pre = "[]" and m = new_state_machine and t = 0 and w = 0 and ev = TurnEnd
          and ch = Http and tb = None and payload = JNull
          and ops = "[OpEvent 10 0 ''s'' PromptBefore None JNull Http]"])
       (simp_all add: session_eval)
  moreover have "status_of ?m ''s'' = Thinking"
    by (simp add: session_eval Let_def)
  ultimately show ?thesis by simp
qed

section \<open>Automatic submit\<close>

lemma submit_idle_cond:
  "status_for_automatic_submit_at m sid backend stale now = Idle \<longleftrightarrow>
    backend \<noteq> Exited \<and> backend \<noteq> StError \<and>
    (\<exists>e. sm_entries m sid = Some e \<and>
      (\<not> se_automatic_submit_observed e \<and> backend = Idle \<and> hook_silent e now \<and> stale
       \<or> se_automatic_submit_observed e \<and> se_status e = Idle
          \<and> (\<not> se_automatic_submit_pty_guard e \<or> stale)
       \<or> se_automatic_submit_observed e \<and> is_busy (se_status e) \<and> hook_silent e now \<and> stale))"
  by (auto simp: status_for_automatic_submit_at_def is_busy_def split: option.split)

text \<open>
  The exact conditions under which a prompt may be sent by itself: the backend has
  neither exited nor failed, the session has an entry, and either nothing fresh was observed
  and backend, hooks and PTY are all silent, or an observed Idle (with a quiet PTY if the
  session is guarded), or an observed busy status that both hooks and PTY have let go stale.
  A session without an entry fails closed.
\<close>

theorem automatic_submit_idle_iff:
  "status_for_automatic_submit_at m sid backend stale now = Idle \<longleftrightarrow>
    backend \<noteq> Exited \<and> backend \<noteq> StError \<and>
    (\<exists>e. sm_entries m sid = Some e \<and>
      (\<not> se_automatic_submit_observed e \<and> backend = Idle \<and> hook_silent e now \<and> stale
       \<or> se_automatic_submit_observed e \<and> se_status e = Idle
          \<and> \<not> (se_automatic_submit_pty_guard e \<and> \<not> stale)
       \<or> se_automatic_submit_observed e \<and> is_busy (se_status e) \<and> hook_silent e now \<and> stale))"
  by (auto simp: submit_idle_cond)

fun op_time :: "sm_op \<Rightarrow> instant option" where
  "op_time (OpEvent now wall sid ev tb payload ch) = Some now"
| "op_time (OpRegister now wall sid) = Some now"
| "op_time (OpMarkSubmit now wall sid) = Some now"
| "op_time (OpForceExited wall sid) = None"

definition quiet_since :: "instant \<Rightarrow> string \<Rightarrow> sm_op \<Rightarrow> bool" where
  "quiet_since t sid op \<longleftrightarrow> \<not> is_event_of sid op \<and> (\<forall>t'. op_time op = Some t' \<longrightarrow> t \<le> t')"

definition consumed :: "instant \<Rightarrow> state_machine \<Rightarrow> string \<Rightarrow> bool" where
  "consumed t m sid \<longleftrightarrow>
    (\<exists>e. sm_entries m sid = Some e \<and> \<not> se_automatic_submit_observed e
      \<and> t \<le> se_last_hook_event_at e)"

lemma consumed_step:
  assumes "consumed t m sid" and "quiet_since t sid op"
  shows "consumed t (sm_step ser m op) sid"
  using assms
  by (cases op)
     (auto simp: consumed_def quiet_since_def on_event_other_session force_exited_def
        register_for_automatic_submit_def mark_automatic_submit_started_def Let_def
        split: option.split)

lemma consumed_run:
  "consumed t m sid \<Longrightarrow> list_all (quiet_since t sid) ops \<Longrightarrow> consumed t (sm_run ser m ops) sid"
  by (induction ops arbitrary: m) (simp_all add: consumed_step)

text \<open>
  Marking a submit as started consumes the idle observation: until the next hook
  event of the session, whatever other calls run, the session is not offered for a second
  automatic submit unless the backend itself reports Idle, the PTY is quiet and the fallback
  window has passed since the mark.
\<close>

theorem submit_mark_consumes_idle:
  assumes "list_all (quiet_since t0 sid) ops"
    and "status_for_automatic_submit_at
          (sm_run ser (mark_automatic_submit_started t0 w0 m sid) ops) sid backend stale now = Idle"
  shows "backend = Idle \<and> stale \<and> t0 + from_millis AUTOMATIC_SUBMIT_FALLBACK_IDLE_MS \<le> now"
proof -
  have "consumed t0 (mark_automatic_submit_started t0 w0 m sid) sid"
    by (simp add: consumed_def mark_automatic_submit_started_def Let_def)
  from consumed_run [OF this assms(1)]
  have "consumed t0 (sm_run ser (mark_automatic_submit_started t0 w0 m sid) ops) sid" .
  with assms(2) show ?thesis
    by (auto simp: consumed_def submit_idle_cond hook_silent_def as_millis_ge_iff
        from_millis_def AUTOMATIC_SUBMIT_FALLBACK_IDLE_MS_def)
qed

theorem submit_mark_consumes_idle_witness:
  "status_for_automatic_submit_at
     (sm_run (\<lambda>_. None) (mark_automatic_submit_started 5 0 new_state_machine ''s'')
       [OpRegister 6 0 ''s'', OpEvent 7 0 ''other'' TurnEnd None JNull Osc])
     ''s'' Idle True (from_secs 10) = Idle
   \<and> (5::nat) + from_millis AUTOMATIC_SUBMIT_FALLBACK_IDLE_MS \<le> from_secs 10"
proof -
  let ?ops = "[OpRegister 6 0 ''s'', OpEvent 7 0 ''other'' TurnEnd None JNull Osc]"
  have q: "list_all (quiet_since 5 ''s'') ?ops" by (simp add: quiet_since_def)
  have i: "status_for_automatic_submit_at
     (sm_run (\<lambda>_. None) (mark_automatic_submit_started 5 0 new_state_machine ''s'') ?ops)
     ''s'' Idle True (from_secs 10) = Idle"
    by (simp add: submit_idle_cond on_event_other_session
        mark_automatic_submit_started_def register_for_automatic_submit_def Let_def
        hook_silent_def as_millis_def from_secs_def AUTOMATIC_SUBMIT_FALLBACK_IDLE_MS_def
        new_state_machine_def new_automatic_submit_baseline_def)
  from submit_mark_consumes_idle [OF q i] i show ?thesis by simp
qed

section \<open>Queries and names\<close>

text \<open>
  The status shown to a client differs from the stored one only by falling back to
  Idle, and only when both the stored status and the state machine's are busy and no hook event
  arrived for more than the stale timeout. The query never makes a session look busier.
\<close>

theorem query_relaxes_only_stale_busy:
  "status_for_query_at m sid stored now \<noteq> stored \<longleftrightarrow>
    status_for_query_at m sid stored now = Idle \<and> is_busy stored \<and>
    (\<exists>e. sm_entries m sid = Some e \<and> is_busy (se_status e)
      \<and> STALE_BUSY_TIMEOUT_SECS < as_secs (now - se_last_hook_event_at e))"
  by (auto simp: status_for_query_at_def is_busy_def split: option.split)

text \<open>A tool event of the in-band channel carries no matcher.\<close>

fun forget_matcher :: "cc_pane_event \<Rightarrow> cc_pane_event" where
  "forget_matcher (ToolBefore _) = ToolBefore tool_matcher_any"
| "forget_matcher (ToolAfter _) = ToolAfter tool_matcher_any"
| "forget_matcher ev = ev"

text \<open>
  Event names and events are inverse to each other: printing and parsing an event
  gives it back (with the wildcard matcher), and a name that parses is the name of its event.
\<close>

theorem event_name_roundtrip:
  "parse_cc_pane_event_name (cc_pane_event_name ev) = Some (forget_matcher ev)
    \<and> (\<forall>name ev'. parse_cc_pane_event_name name = Some ev' \<longrightarrow> cc_pane_event_name ev' = name)"
  by (cases ev) (simp_all add: parse_cc_pane_event_name_def)

theorem event_name_roundtrip_witness:
  "cc_pane_event_name (ToolBefore tool_matcher_any) = ''tool-before''"
proof -
  have "parse_cc_pane_event_name ''tool-before'' = Some (ToolBefore tool_matcher_any)"
    by (simp add: parse_cc_pane_event_name_def)
  with event_name_roundtrip show ?thesis by blast
qed

end
