(* ===== verification/Output_Flow.thy ===== *)
theory Output_Flow
  imports Rust_Text Machines
begin

text \<open>
  The delivery ledger of terminal output, \<open>cc-panes-core/src/services/terminal_output_flow.rs\<close>:
  how many bytes were emitted and not yet acknowledged, and the gate that pauses the reader
  thread on that number. Sequence numbers are cumulative byte counts of a session; they are
  \<open>nat\<close>, since a \<open>u64\<close> of bytes does not overflow in the life of a process. Every operation
  here is one atomic step; the theory \<open>Flow_Threads\<close> splits them at their atomic accesses.
  A poisoned mutex, which the code answers by returning early, does not occur: no critical
  section panics.
\<close>

section \<open>Constants and state\<close>

definition PRODUCER_FLOW_CONTROL_ENABLED :: bool where
  "PRODUCER_FLOW_CONTROL_ENABLED = True"

definition PRODUCER_FLOW_HIGH_WATERMARK_BYTES :: nat where
  "PRODUCER_FLOW_HIGH_WATERMARK_BYTES = 256 * 1024"

definition PRODUCER_FLOW_LOW_WATERMARK_BYTES :: nat where
  "PRODUCER_FLOW_LOW_WATERMARK_BYTES = 32 * 1024"

definition PRODUCER_PAUSE_FAILSAFE :: duration where
  "PRODUCER_PAUSE_FAILSAFE = from_secs 5"

definition FAILSAFE_TIMEOUTS_BEFORE_DESYNC :: nat where
  "FAILSAFE_TIMEOUTS_BEFORE_DESYNC = 2"

definition INTERACTIVE_OUTPUT_WINDOW :: duration where
  "INTERACTIVE_OUTPUT_WINDOW = from_millis 100"

definition INTERACTIVE_OUTPUT_MAX_BYTES :: nat where
  "INTERACTIVE_OUTPUT_MAX_BYTES = 1024"

datatype park_outcome = NotParked | Resumed | TimedOut | Stalled

text \<open>\<open>fg_warnings\<close> is what \<open>warn!\<close> has printed: the kinds, oldest first.\<close>

record flow_gate =
  fg_sent_seq :: nat
  fg_acked_seq :: nat
  fg_ever_acked :: bool
  fg_last_ack_at :: "instant option"
  fg_park_enabled :: bool
  fg_parked :: bool
  fg_pause_count :: nat
  fg_failsafe :: duration
  fg_failsafe_timeouts :: nat
  fg_last_input_at :: "instant option"
  fg_last_park_warn_at :: "instant option"
  fg_session_id :: "string option"
  fg_warnings :: "string list"

definition with_failsafe :: "bool \<Rightarrow> duration \<Rightarrow> flow_gate" where
  "with_failsafe park_enabled failsafe =
    \<lparr>fg_sent_seq = 0, fg_acked_seq = 0, fg_ever_acked = False, fg_last_ack_at = None,
     fg_park_enabled = park_enabled, fg_parked = False, fg_pause_count = 0,
     fg_failsafe = failsafe, fg_failsafe_timeouts = 0, fg_last_input_at = None,
     fg_last_park_warn_at = None, fg_session_id = None, fg_warnings = []\<rparr>"

definition with_park :: "bool \<Rightarrow> flow_gate" where
  "with_park park_enabled = with_failsafe park_enabled PRODUCER_PAUSE_FAILSAFE"

definition flow_new :: flow_gate where
  "flow_new = with_park PRODUCER_FLOW_CONTROL_ENABLED"

definition flow_disabled :: flow_gate where
  "flow_disabled = with_park False"

section \<open>Operations\<close>

definition attach_session_id :: "flow_gate \<Rightarrow> string \<Rightarrow> flow_gate" where
  "attach_session_id g sid = g\<lparr>fg_session_id := Some sid\<rparr>"

definition note_input :: "instant \<Rightarrow> flow_gate \<Rightarrow> flow_gate" where
  "note_input now g = g\<lparr>fg_last_input_at := Some now\<rparr>"

definition is_interactive_echo :: "instant \<Rightarrow> flow_gate \<Rightarrow> nat \<Rightarrow> bool" where
  "is_interactive_echo now g batch_bytes =
    (if batch_bytes = 0 \<or> INTERACTIVE_OUTPUT_MAX_BYTES < batch_bytes then False
     else case fg_last_input_at g of
       None \<Rightarrow> False
     | Some at \<Rightarrow> now - at \<le> INTERACTIVE_OUTPUT_WINDOW)"

definition in_flight :: "flow_gate \<Rightarrow> nat" where
  "in_flight g = fg_sent_seq g - fg_acked_seq g"

definition reevaluate_park :: "flow_gate \<Rightarrow> flow_gate" where
  "reevaluate_park g =
    (if \<not> fg_park_enabled g then g
     else if \<not> fg_ever_acked g then g
     else if fg_parked g then
       (if in_flight g < PRODUCER_FLOW_LOW_WATERMARK_BYTES then g\<lparr>fg_parked := False\<rparr> else g)
     else if PRODUCER_FLOW_HIGH_WATERMARK_BYTES < in_flight g then
       g\<lparr>fg_parked := True, fg_pause_count := fg_pause_count g + 1\<rparr>
     else g)"

definition note_sent :: "flow_gate \<Rightarrow> nat option \<Rightarrow> flow_gate" where
  "note_sent g end_seq =
    (case end_seq of
       None \<Rightarrow> g
     | Some n \<Rightarrow> reevaluate_park (g\<lparr>fg_sent_seq := max (fg_sent_seq g) n\<rparr>))"

text \<open>\<open>note_acked\<close> returns the number of bytes newly acknowledged.\<close>

definition note_acked :: "instant \<Rightarrow> flow_gate \<Rightarrow> nat \<Rightarrow> flow_gate \<times> nat" where
  "note_acked now g processed_end_seq =
    (let g1 = g\<lparr>fg_ever_acked := True, fg_last_ack_at := Some now\<rparr>;
         capped = min processed_end_seq (fg_sent_seq g1);
         previous = fg_acked_seq g1
     in (reevaluate_park (g1\<lparr>fg_acked_seq := max previous capped\<rparr>), capped - previous))"

definition warn_flow :: "instant \<Rightarrow> string \<Rightarrow> bool \<Rightarrow> flow_gate \<Rightarrow> flow_gate" where
  "warn_flow now kind rate_limited g =
    (let limited = (rate_limited \<and> (case fg_last_park_warn_at g of
                       Some at \<Rightarrow> now - at < from_secs 5 | None \<Rightarrow> False))
     in if limited then g
        else g\<lparr>fg_last_park_warn_at := (if rate_limited then Some now else fg_last_park_warn_at g),
               fg_warnings := fg_warnings g @ [kind]\<rparr>)"

definition release :: "flow_gate \<Rightarrow> flow_gate" where
  "release g = g\<lparr>fg_parked := False\<rparr>"

definition ack_silence :: "instant \<Rightarrow> flow_gate \<Rightarrow> duration option" where
  "ack_silence now g = map_option (\<lambda>at. now - at) (fg_last_ack_at g)"

section \<open>What other threads do while the reader sleeps\<close>

datatype flow_op =
    FSent "nat option" | FAcked instant nat | FInput instant | FRelease | FAttach string

fun flow_step :: "flow_gate \<Rightarrow> flow_op \<Rightarrow> flow_gate" where
  "flow_step g (FSent n) = note_sent g n"
| "flow_step g (FAcked now n) = fst (note_acked now g n)"
| "flow_step g (FInput now) = note_input now g"
| "flow_step g FRelease = release g"
| "flow_step g (FAttach sid) = attach_session_id g sid"

text \<open>
  A return of the condition variable: the operations others performed since the last one, the
  time, whether \<open>wait_timeout\<close> reports a timeout, and the cancel flag as re-read.
\<close>

datatype wake = Wake (wake_ops: "flow_op list") (wake_time: instant) (wake_timed_out: bool)
  (wake_cancelled: bool)

definition park_finish :: "bool \<Rightarrow> instant \<Rightarrow> flow_gate \<Rightarrow> flow_gate \<times> park_outcome" where
  "park_finish timed_out_waiting now g =
    (let g1 = g\<lparr>fg_parked := False\<rparr> in
     if \<not> timed_out_waiting then (g1\<lparr>fg_failsafe_timeouts := 0\<rparr>, Resumed)
     else
       let streak = fg_failsafe_timeouts g1 + 1 in
       if FAILSAFE_TIMEOUTS_BEFORE_DESYNC \<le> streak
       then (g1\<lparr>fg_failsafe_timeouts := 0\<rparr>, Stalled)
       else (warn_flow now ''failsafe-release'' False (g1\<lparr>fg_failsafe_timeouts := streak\<rparr>),
             TimedOut))"

text \<open>The wait loop: \<open>None\<close> is a reader still asleep when the given wake-ups are used up.\<close>

fun park_wait ::
    "instant \<Rightarrow> instant \<Rightarrow> bool \<Rightarrow> flow_gate \<Rightarrow> wake list \<Rightarrow> (flow_gate \<times> park_outcome) option"
where
  "park_wait deadline now cancelled g ws =
    (if \<not> fg_parked g \<or> cancelled then Some (park_finish False now g)
     else if deadline \<le> now then Some (park_finish True now g)
     else case ws of
       [] \<Rightarrow> None
     | w # ws' \<Rightarrow>
         let g' = foldl flow_step g (wake_ops w) in
         if wake_timed_out w then Some (park_finish True (wake_time w) g')
         else park_wait deadline (wake_time w) (wake_cancelled w) g' ws')"

declare park_wait.simps [simp del]

definition park_if_paused ::
    "instant \<Rightarrow> bool \<Rightarrow> flow_gate \<Rightarrow> wake list \<Rightarrow> (flow_gate \<times> park_outcome) option" where
  "park_if_paused now cancelled g ws =
    (if \<not> fg_park_enabled g then Some (g, NotParked)
     else if \<not> fg_parked g \<or> cancelled then Some (g, NotParked)
     else park_wait (now + fg_failsafe g) now cancelled (warn_flow now ''park-enter'' True g) ws)"

record flow_diagnostics =
  fd_session_id :: string
  fd_sent_seq :: nat
  fd_acked_seq :: nat
  fd_in_flight_bytes :: nat
  fd_ever_acked :: bool
  fd_parked :: bool
  fd_park_enabled :: bool
  fd_pause_count :: nat
  fd_failsafe_count :: nat
  fd_ack_silence_ms :: "nat option"

section \<open>Lemmas\<close>

lemma reevaluate_park_frame [simp]:
  "fg_sent_seq (reevaluate_park g) = fg_sent_seq g"
  "fg_acked_seq (reevaluate_park g) = fg_acked_seq g"
  "fg_ever_acked (reevaluate_park g) = fg_ever_acked g"
  "fg_park_enabled (reevaluate_park g) = fg_park_enabled g"
  "fg_failsafe_timeouts (reevaluate_park g) = fg_failsafe_timeouts g"
  "fg_failsafe (reevaluate_park g) = fg_failsafe g"
  "in_flight (reevaluate_park g) = in_flight g"
  by (simp_all add: reevaluate_park_def in_flight_def)

lemma watermark_gap:
  "PRODUCER_FLOW_LOW_WATERMARK_BYTES < PRODUCER_FLOW_HIGH_WATERMARK_BYTES"
  by (simp add: PRODUCER_FLOW_LOW_WATERMARK_BYTES_def PRODUCER_FLOW_HIGH_WATERMARK_BYTES_def)

lemma warn_flow_frame [simp]:
  "fg_sent_seq (warn_flow now k b g) = fg_sent_seq g"
  "fg_acked_seq (warn_flow now k b g) = fg_acked_seq g"
  "fg_parked (warn_flow now k b g) = fg_parked g"
  "fg_park_enabled (warn_flow now k b g) = fg_park_enabled g"
  "fg_ever_acked (warn_flow now k b g) = fg_ever_acked g"
  "fg_failsafe_timeouts (warn_flow now k b g) = fg_failsafe_timeouts g"
  "in_flight (warn_flow now k b g) = in_flight g"
  by (simp_all add: warn_flow_def Let_def in_flight_def)

definition diagnostics :: "instant \<Rightarrow> flow_gate \<Rightarrow> string \<Rightarrow> flow_diagnostics" where
  "diagnostics now g sid =
    \<lparr>fd_session_id = sid, fd_sent_seq = fg_sent_seq g, fd_acked_seq = fg_acked_seq g,
     fd_in_flight_bytes = in_flight g, fd_ever_acked = fg_ever_acked g,
     fd_parked = fg_parked g, fd_park_enabled = fg_park_enabled g,
     fd_pause_count = fg_pause_count g, fd_failsafe_count = fg_failsafe_timeouts g,
     fd_ack_silence_ms = map_option as_millis (ack_silence now g)\<rparr>"

text \<open>The two sequence numbers are max-merge cells: the sent one free, the acknowledged one limited by it.\<close>

lemma fg_sent_seq_note_sent [simp]:
  "fg_sent_seq (note_sent g n) = (case n of None \<Rightarrow> fg_sent_seq g | Some k \<Rightarrow> max (fg_sent_seq g) k)"
  by (simp add: note_sent_def split: option.split)

lemma note_sent_frame [simp]:
  "fg_acked_seq (note_sent g n) = fg_acked_seq g"
  "fg_ever_acked (note_sent g n) = fg_ever_acked g"
  "fg_park_enabled (note_sent g n) = fg_park_enabled g"
  "fg_failsafe_timeouts (note_sent g n) = fg_failsafe_timeouts g"
  by (simp_all add: note_sent_def split: option.split)

lemma note_acked_frame [simp]:
  "fg_sent_seq (fst (note_acked now g n)) = fg_sent_seq g"
  "fg_ever_acked (fst (note_acked now g n))"
  "fg_park_enabled (fst (note_acked now g n)) = fg_park_enabled g"
  "fg_acked_seq (fst (note_acked now g n)) = max (fg_acked_seq g) (min n (fg_sent_seq g))"
  "fg_failsafe_timeouts (fst (note_acked now g n)) = fg_failsafe_timeouts g"
  "snd (note_acked now g n) = min n (fg_sent_seq g) - fg_acked_seq g"
  by (simp_all add: note_acked_def Let_def)

interpretation ack_cell: max_merge "\<lambda>g n. fst (note_acked now g n)" fg_acked_seq
  "\<lambda>g n. min n (fg_sent_seq g)"
  for now
  by unfold_locales simp_all

interpretation sent_cell: max_merge "\<lambda>g n. note_sent g (Some n)" fg_sent_seq "\<lambda>g n. n"
  by unfold_locales simp_all

section \<open>Invariants of the ledger and the gate\<close>

text \<open>
  \<open>gate_inv\<close> holds whatever other threads do: the acknowledged count never passes the sent
  one, and a gate whose peer never acknowledged, or that does not park, is open.
  \<open>backlog_inv\<close> ties the gate to the backlog.
\<close>

definition gate_inv :: "flow_gate \<Rightarrow> bool" where
  "gate_inv g \<longleftrightarrow>
    fg_acked_seq g \<le> fg_sent_seq g
    \<and> (fg_parked g \<longrightarrow> fg_ever_acked g \<and> fg_park_enabled g)
    \<and> fg_failsafe_timeouts g < FAILSAFE_TIMEOUTS_BEFORE_DESYNC"

definition backlog_inv :: "flow_gate \<Rightarrow> bool" where
  "backlog_inv g \<longleftrightarrow> (fg_parked g \<longrightarrow> PRODUCER_FLOW_LOW_WATERMARK_BYTES \<le> in_flight g)"

lemma reevaluate_park_gate_inv: "gate_inv g \<Longrightarrow> gate_inv (reevaluate_park g)"
  by (auto simp: gate_inv_def reevaluate_park_def)

lemma reevaluate_park_backlog: "\<not> fg_parked g \<or> fg_ever_acked g \<and> fg_park_enabled g
    \<Longrightarrow> backlog_inv (reevaluate_park g)"
  using watermark_gap by (auto simp: backlog_inv_def reevaluate_park_def in_flight_def)

lemma note_sent_gate_inv [inv_preserve]: "gate_inv g \<Longrightarrow> gate_inv (note_sent g n)"
  by (auto simp: note_sent_def gate_inv_def max_def reevaluate_park_def split: option.split)

lemma note_acked_gate_inv [inv_preserve]: "gate_inv g \<Longrightarrow> gate_inv (fst (note_acked now g n))"
  by (auto simp: note_acked_def Let_def gate_inv_def max_def min_def reevaluate_park_def)

lemma note_sent_backlog:
  "gate_inv g \<Longrightarrow> backlog_inv g \<Longrightarrow> backlog_inv (note_sent g n)"
  by (auto simp: note_sent_def gate_inv_def intro!: reevaluate_park_backlog split: option.split)

lemma note_acked_backlog:
  "gate_inv g \<Longrightarrow> backlog_inv (fst (note_acked now g n))"
  by (auto simp: note_acked_def Let_def gate_inv_def intro!: reevaluate_park_backlog)

lemma release_gate_inv [inv_preserve]: "gate_inv g \<Longrightarrow> gate_inv (release g)"
  by (simp add: gate_inv_def release_def)

lemma flow_step_inv:
  "gate_inv g \<and> backlog_inv g \<Longrightarrow> gate_inv (flow_step g op) \<and> backlog_inv (flow_step g op)"
proof (cases op)
  case (FSent n)
  then show "gate_inv g \<and> backlog_inv g \<Longrightarrow> ?thesis"
    by (simp add: inv_preserve note_sent_backlog)
next
  case (FAcked now n)
  then show "gate_inv g \<and> backlog_inv g \<Longrightarrow> ?thesis"
    by (simp add: inv_preserve note_acked_backlog)
qed (simp_all add: gate_inv_def backlog_inv_def note_input_def release_def attach_session_id_def
      in_flight_def)

lemma with_failsafe_inv: "gate_inv (with_failsafe b d) \<and> backlog_inv (with_failsafe b d)"
  by (simp add: with_failsafe_def gate_inv_def backlog_inv_def FAILSAFE_TIMEOUTS_BEFORE_DESYNC_def)

interpretation flow: inv_machine flow_step "\<lambda>g. gate_inv g \<and> backlog_inv g"
  by unfold_locales (rule flow_step_inv)

lemma flow_step_park_enabled [simp]: "fg_park_enabled (flow_step g op) = fg_park_enabled g"
  by (cases op) (simp_all add: note_input_def release_def attach_session_id_def)

lemma flow_run_park_enabled [simp]:
  "fg_park_enabled (foldl flow_step g ops) = fg_park_enabled g"
  by (induction ops arbitrary: g) simp_all

section \<open>The reader's wait\<close>

lemma park_finish_gate_inv: "gate_inv g \<Longrightarrow> gate_inv (fst (park_finish b now g))"
  by (auto simp: park_finish_def Let_def gate_inv_def FAILSAFE_TIMEOUTS_BEFORE_DESYNC_def
      warn_flow_def)

lemma park_finish_open: "\<not> fg_parked (fst (park_finish b now g))"
  by (simp add: park_finish_def Let_def)

lemma park_finish_outcome:
  "gate_inv g \<Longrightarrow>
    snd (park_finish b now g) =
      (if \<not> b then Resumed else if fg_failsafe_timeouts g = 1 then Stalled else TimedOut)
    \<and> fg_failsafe_timeouts (fst (park_finish b now g)) =
      (if b \<and> fg_failsafe_timeouts g = 0 then 1 else 0)"
  by (auto simp: park_finish_def Let_def gate_inv_def FAILSAFE_TIMEOUTS_BEFORE_DESYNC_def)

lemma flow_step_failsafe [simp]:
  "fg_failsafe_timeouts (flow_step g op) = fg_failsafe_timeouts g"
  by (cases op) (simp_all add: note_input_def release_def attach_session_id_def)

lemma flow_run_failsafe [simp]:
  "fg_failsafe_timeouts (foldl flow_step g ops) = fg_failsafe_timeouts g"
  by (induction ops arbitrary: g) simp_all

lemma park_wait_stop:
  "\<not> fg_parked g \<or> cancelled \<or> deadline \<le> now \<Longrightarrow>
    park_wait deadline now cancelled g ws = Some (park_finish (fg_parked g \<and> \<not> cancelled) now g)"
  by (subst park_wait.simps) auto

lemma park_wait_sleep:
  assumes "fg_parked g" and "\<not> cancelled" and "now < deadline"
  shows "park_wait deadline now cancelled g [] = None"
    and "park_wait deadline now cancelled g (w # ws) =
      (let g' = foldl flow_step g (wake_ops w) in
       if wake_timed_out w then Some (park_finish True (wake_time w) g')
       else park_wait deadline (wake_time w) (wake_cancelled w) g' ws)"
  using assms by (subst park_wait.simps, simp)+

lemma park_wait_result:
  assumes "park_wait deadline now cancelled g ws = Some (g', r)" and "gate_inv g \<and> backlog_inv g"
  shows "\<exists>h b t. gate_inv h \<and> fg_failsafe_timeouts h = fg_failsafe_timeouts g
    \<and> (g', r) = park_finish b t h"
  using assms
proof (induction ws arbitrary: now cancelled g)
  case Nil
  then have stop: "\<not> fg_parked g \<or> cancelled \<or> deadline \<le> now"
    by (metis leI option.distinct(1) park_wait_sleep(1))
  from Nil show ?case unfolding park_wait_stop [OF stop] by (metis option.inject)
next
  case (Cons w ws)
  let ?g = "foldl flow_step g (wake_ops w)"
  from Cons.prems(2) have inv: "gate_inv ?g \<and> backlog_inv ?g" by (rule flow.fold_good)
  show ?case
  proof (cases "\<not> fg_parked g \<or> cancelled \<or> deadline \<le> now")
    case True
    from Cons.prems show ?thesis unfolding park_wait_stop [OF True] by (metis option.inject)
  next
    case False
    then have sleep: "fg_parked g" "\<not> cancelled" "now < deadline" by auto
    note eq = Cons.prems(1) [unfolded park_wait_sleep(2) [OF sleep] Let_def]
    show ?thesis
    proof (cases "wake_timed_out w")
      case True
      with eq have "(g', r) = park_finish True (wake_time w) ?g" by simp
      with inv show ?thesis by (metis flow_run_failsafe)
    next
      case timed: False
      with eq have "park_wait deadline (wake_time w) (wake_cancelled w) ?g ws = Some (g', r)"
        by simp
      from Cons.IH [OF this inv] show ?thesis by simp
    qed
  qed
qed

text \<open>The wait ends at a timeout, at a time past the deadline, or when the session is cancelled.\<close>

definition ends_wait :: "instant \<Rightarrow> wake \<Rightarrow> bool" where
  "ends_wait deadline w \<longleftrightarrow> wake_timed_out w \<or> deadline \<le> wake_time w \<or> wake_cancelled w"

lemma park_wait_returns:
  "\<exists>w \<in> set ws. ends_wait deadline w \<Longrightarrow> \<exists>res. park_wait deadline now cancelled g ws = Some res"
proof (induction ws arbitrary: now cancelled g)
  case Nil
  then show ?case by simp
next
  case (Cons w ws)
  show ?case
  proof (cases "\<not> fg_parked g \<or> cancelled \<or> deadline \<le> now")
    case True
    then show ?thesis by (simp add: park_wait_stop)
  next
    case False
    then have sleep: "fg_parked g" "\<not> cancelled" "now < deadline" by auto
    show ?thesis
    proof (cases "ends_wait deadline w")
      case True
      then show ?thesis
        using park_wait_stop [of _ "wake_cancelled w" deadline "wake_time w"]
        by (auto simp: park_wait_sleep(2) [OF sleep] Let_def ends_wait_def)
    next
      case False
      with Cons.prems have "\<exists>w \<in> set ws. ends_wait deadline w" by auto
      from Cons.IH [OF this] show ?thesis
        by (simp add: park_wait_sleep(2) [OF sleep] Let_def)
    qed
  qed
qed

end
