(* ===== verification/Flow_Props.thy ===== *)
theory Flow_Props
  imports Output_Flow
begin

text \<open>
  The properties of the output ledger and its gate: acknowledged bytes are counted once, the
  hysteresis bounds how often the gate can close, a peer that never acknowledges is never
  paused, the reader always wakes, and a stall is reported exactly at the second consecutive
  timeout.
\<close>

section \<open>The ledger\<close>

text \<open>A run that adds up what \<open>note_acked\<close> returned.\<close>

fun flow_ledger :: "flow_gate \<Rightarrow> flow_op list \<Rightarrow> flow_gate \<times> nat" where
  "flow_ledger g [] = (g, 0)"
| "flow_ledger g (op # ops) =
    (let (g', n) = flow_ledger (flow_step g op) ops
     in (g', n + (case op of FAcked now k \<Rightarrow> snd (note_acked now g k) | _ \<Rightarrow> 0)))"

lemma flow_step_acked:
  "fg_acked_seq (flow_step g op) =
    fg_acked_seq g + (case op of FAcked now k \<Rightarrow> snd (note_acked now g k) | _ \<Rightarrow> 0)"
  by (cases op) (auto simp: note_input_def release_def attach_session_id_def)

lemma flow_ledger_sum:
  "fg_acked_seq (fst (flow_ledger g ops)) = fg_acked_seq g + snd (flow_ledger g ops)"
proof (induction ops arbitrary: g)
  case Nil
  then show ?case by simp
next
  case (Cons op ops)
  from Cons.IH [of "flow_step g op"] show ?case
    by (simp add: Let_def case_prod_beta flow_step_acked)
qed

lemma flow_ledger_state: "fst (flow_ledger g ops) = foldl flow_step g ops"
  by (induction ops arbitrary: g) (simp_all add: Let_def case_prod_beta)

text \<open>
  Acknowledged bytes are counted exactly once: over any run, with duplicate,
  reordered, stale or oversized acknowledgements, the numbers \<open>note_acked\<close> returns add up to
  the acknowledged sequence number, and that number never passes what was sent.
\<close>

theorem acked_bytes_conserved:
  "snd (flow_ledger (with_failsafe b d) ops) = fg_acked_seq (foldl flow_step (with_failsafe b d) ops)
    \<and> fg_acked_seq (foldl flow_step (with_failsafe b d) ops)
        \<le> fg_sent_seq (foldl flow_step (with_failsafe b d) ops)"
proof
  show "snd (flow_ledger (with_failsafe b d) ops)
      = fg_acked_seq (foldl flow_step (with_failsafe b d) ops)"
    using flow_ledger_sum [of "with_failsafe b d" ops]
    by (simp add: flow_ledger_state with_failsafe_def)
  show "fg_acked_seq (foldl flow_step (with_failsafe b d) ops)
      \<le> fg_sent_seq (foldl flow_step (with_failsafe b d) ops)"
    using flow.fold_good [OF with_failsafe_inv, of b d ops] by (simp add: gate_inv_def)
qed

text \<open>
  The order and the repetition of acknowledgements do not matter: two deliveries of
  the same set of acknowledgements leave the same acknowledged sequence number.
\<close>

theorem acks_order_irrelevant:
  assumes "set ns = set ms"
  shows "fg_acked_seq (foldl (\<lambda>g n. fst (note_acked now g n)) g ns)
    = fg_acked_seq (foldl (\<lambda>g n. fst (note_acked now g n)) g ms)"
  using assms by (rule ack_cell.order_irrelevant)

theorem acks_order_irrelevant_witness:
  "fg_acked_seq (foldl (\<lambda>g n. fst (note_acked 3 g n)) (note_sent flow_new (Some 50)) [10, 40, 10])
    = fg_acked_seq (foldl (\<lambda>g n. fst (note_acked 3 g n)) (note_sent flow_new (Some 50)) [40, 10])"
proof -
  have "set [10, 40, 10 :: nat] = set [40, 10]" by auto
  then show ?thesis by (rule acks_order_irrelevant)
qed

section \<open>Hysteresis\<close>

definition WATERMARK_GAP :: nat where
  "WATERMARK_GAP = PRODUCER_FLOW_HIGH_WATERMARK_BYTES - PRODUCER_FLOW_LOW_WATERMARK_BYTES"

definition flap_inv :: "flow_gate \<Rightarrow> bool" where
  "flap_inv g \<longleftrightarrow>
    fg_acked_seq g \<le> fg_sent_seq g
    \<and> (if fg_parked g
       then \<exists>k. fg_pause_count g = Suc k \<and> k * WATERMARK_GAP \<le> fg_acked_seq g
              \<and> k * WATERMARK_GAP + PRODUCER_FLOW_HIGH_WATERMARK_BYTES < fg_sent_seq g
       else fg_pause_count g * WATERMARK_GAP \<le> fg_acked_seq g)"

lemma flap_inv_reevaluate: "flap_inv g \<Longrightarrow> flap_inv (reevaluate_park g)"
  by (auto simp: flap_inv_def reevaluate_park_def in_flight_def WATERMARK_GAP_def
      PRODUCER_FLOW_HIGH_WATERMARK_BYTES_def PRODUCER_FLOW_LOW_WATERMARK_BYTES_def)

lemma flap_inv_sent: "flap_inv g \<Longrightarrow> flap_inv (g\<lparr>fg_sent_seq := max (fg_sent_seq g) n\<rparr>)"
  by (auto simp: flap_inv_def split: if_splits)

lemma flap_inv_acked:
  "flap_inv g \<Longrightarrow> flap_inv (g\<lparr>fg_ever_acked := True, fg_last_ack_at := t,
      fg_acked_seq := max (fg_acked_seq g) (min n (fg_sent_seq g))\<rparr>)"
  by (auto simp: flap_inv_def split: if_splits)

lemma flap_inv_step: "flap_inv g \<Longrightarrow> op \<noteq> FRelease \<Longrightarrow> flap_inv (flow_step g op)"
proof (cases op)
  case (FSent n)
  then show "flap_inv g \<Longrightarrow> ?thesis"
    by (simp add: note_sent_def flap_inv_reevaluate flap_inv_sent split: option.split)
next
  case (FAcked now n)
  then show "flap_inv g \<Longrightarrow> ?thesis"
    using flap_inv_reevaluate [OF flap_inv_acked [where g = g and t = "Some now" and n = n]]
    by (simp add: note_acked_def Let_def)
qed (auto simp: flap_inv_def note_input_def attach_session_id_def)

lemma flap_inv_run: "flap_inv g \<Longrightarrow> FRelease \<notin> set ops \<Longrightarrow> flap_inv (foldl flow_step g ops)"
  by (induction ops arbitrary: g) (auto simp: flap_inv_step)



text \<open>
  The gate is closed only for a reason: a reachable gate that is parked belongs to
  a session that parks, its peer has acknowledged at least once, and at least the low watermark
  of bytes is in flight. A peer without acknowledgements and an SSH session are never paused:
  the reader's call returns at once.
\<close>

theorem gate_closed_only_for_backlog:
  "(fg_parked (foldl flow_step (with_failsafe b d) ops) \<longrightarrow>
      b \<and> fg_ever_acked (foldl flow_step (with_failsafe b d) ops)
      \<and> PRODUCER_FLOW_LOW_WATERMARK_BYTES \<le> in_flight (foldl flow_step (with_failsafe b d) ops))
   \<and> (\<not> b \<or> \<not> fg_ever_acked (foldl flow_step (with_failsafe b d) ops) \<longrightarrow>
      park_if_paused now c (foldl flow_step (with_failsafe b d) ops) ws
        = Some (foldl flow_step (with_failsafe b d) ops, NotParked))"
proof -
  let ?g = "foldl flow_step (with_failsafe b d) ops"
  have inv: "gate_inv ?g" "backlog_inv ?g"
    using flow.fold_good [OF with_failsafe_inv, of b d ops] by auto
  have en: "fg_park_enabled ?g = b" by (simp add: with_failsafe_def)
  from inv en show ?thesis by (auto simp: gate_inv_def backlog_inv_def park_if_paused_def)
qed

theorem gate_closed_only_for_backlog_witness:
  "PRODUCER_FLOW_LOW_WATERMARK_BYTES
      \<le> in_flight (foldl flow_step (with_failsafe True 5) [FSent (Some 1), FAcked 0 1, FSent (Some 300000)])
   \<and> park_if_paused 0 False (foldl flow_step (with_failsafe True 5) [FSent (Some 300000)]) []
      = Some (foldl flow_step (with_failsafe True 5) [FSent (Some 300000)], NotParked)"
proof -
  let ?ops = "[FSent (Some 1), FAcked 0 1, FSent (Some 300000)]"
  have p: "fg_parked (foldl flow_step (with_failsafe True 5) ?ops)"
    by (simp add: note_sent_def note_acked_def Let_def reevaluate_park_def with_failsafe_def
        in_flight_def PRODUCER_FLOW_HIGH_WATERMARK_BYTES_def)
  have q: "\<not> fg_ever_acked (foldl flow_step (with_failsafe True 5) [FSent (Some 300000)])"
    by (simp add: with_failsafe_def)
  from gate_closed_only_for_backlog [of True 5 ?ops 0 False "[]"]
    gate_closed_only_for_backlog [of True 5 "[FSent (Some 300000)]" 0 False "[]"] p q
  show ?thesis by blast
qed

section \<open>The reader\<close>

text \<open>
  The reader never sleeps for ever and leaves the gate open: if the wake-ups
  include a timeout, a time at or past the failsafe deadline, or a cancel, the call returns,
  and unless it did not park at all the gate is open afterwards.
\<close>

theorem reader_always_wakes:
  assumes "\<exists>w \<in> set ws. ends_wait (now + fg_failsafe g) w"
    and "gate_inv g" and "backlog_inv g"
  shows "\<exists>g' r. park_if_paused now c g ws = Some (g', r) \<and> (r = NotParked \<or> \<not> fg_parked g')"
proof (cases "\<not> fg_park_enabled g \<or> \<not> fg_parked g \<or> c")
  case True
  then show ?thesis by (auto simp: park_if_paused_def)
next
  case False
  let ?h = "warn_flow now ''park-enter'' True g"
  from park_wait_returns [OF assms(1)] obtain g' r where
    res: "park_wait (now + fg_failsafe g) now c ?h ws = Some (g', r)" by fastforce
  moreover have "gate_inv ?h \<and> backlog_inv ?h"
    using assms(2,3) by (simp add: gate_inv_def backlog_inv_def)
  ultimately obtain h b t where "(g', r) = park_finish b t h"
    using park_wait_result by blast
  then have "\<not> fg_parked g'" using park_finish_open by (metis fst_conv)
  with False res show ?thesis by (auto simp: park_if_paused_def)
qed

theorem reader_always_wakes_witness:
  "\<exists>g' r. park_if_paused 7 False
     (foldl flow_step (with_failsafe True 5) [FSent (Some 1), FAcked 0 1, FSent (Some 300000)])
     [Wake [] 12 True False] = Some (g', r) \<and> (r = NotParked \<or> \<not> fg_parked g')"
  by (rule reader_always_wakes)
     (use flow.fold_good [OF with_failsafe_inv, of True 5
        "[FSent (Some 1), FAcked 0 1, FSent (Some 300000)]"]
      in \<open>simp_all add: ends_wait_def del: foldl_Cons\<close>)

text \<open>A reader thread among other threads: the outcomes of its calls, in order.\<close>

datatype reader_op = ROther flow_op | RPark instant bool "wake list"

fun reader_run :: "flow_gate \<Rightarrow> reader_op list \<Rightarrow> (flow_gate \<times> park_outcome list) option" where
  "reader_run g [] = Some (g, [])"
| "reader_run g (ROther op # rs) = reader_run (flow_step g op) rs"
| "reader_run g (RPark now c ws # rs) =
    (case park_if_paused now c g ws of
       None \<Rightarrow> None
     | Some (g', r) \<Rightarrow> map_option (\<lambda>(g'', outs). (g'', r # outs)) (reader_run g' rs))"

text \<open>
  What the outcomes must look like; the flag says that the last call that parked timed out.
\<close>

fun outcomes_ok :: "bool \<Rightarrow> park_outcome list \<Rightarrow> bool" where
  "outcomes_ok late [] = True"
| "outcomes_ok late (NotParked # rs) = outcomes_ok late rs"
| "outcomes_ok late (Resumed # rs) = outcomes_ok False rs"
| "outcomes_ok late (TimedOut # rs) = (\<not> late \<and> outcomes_ok True rs)"
| "outcomes_ok late (Stalled # rs) = (late \<and> outcomes_ok False rs)"

lemma park_if_paused_step:
  assumes "park_if_paused now c g ws = Some (g', r)" and "gate_inv g \<and> backlog_inv g"
  shows "gate_inv g' \<and> backlog_inv g'
    \<and> (outcomes_ok (fg_failsafe_timeouts g = 1) (r # rs)
        = outcomes_ok (fg_failsafe_timeouts g' = 1) rs)"
proof (cases "\<not> fg_park_enabled g \<or> \<not> fg_parked g \<or> c")
  case True
  with assms show ?thesis by (auto simp: park_if_paused_def split: if_splits)
next
  case False
  let ?h = "warn_flow now ''park-enter'' True g"
  from False assms(1) have res: "park_wait (now + fg_failsafe g) now c ?h ws = Some (g', r)"
    by (simp add: park_if_paused_def)
  have "gate_inv ?h \<and> backlog_inv ?h"
    using assms(2) by (simp add: gate_inv_def backlog_inv_def)
  from park_wait_result [OF res this] obtain h b t where
    h: "gate_inv h" "fg_failsafe_timeouts h = fg_failsafe_timeouts g"
      "(g', r) = park_finish b t h" by auto
  then have g': "g' = fst (park_finish b t h)" and r: "r = snd (park_finish b t h)"
    by (metis fst_conv, metis snd_conv)
  have "gate_inv g' \<and> backlog_inv g'"
    using park_finish_gate_inv [OF h(1)] park_finish_open by (simp add: g' backlog_inv_def)
  moreover have "fg_failsafe_timeouts h = 0 \<or> fg_failsafe_timeouts h = 1"
    using h(1) by (auto simp: gate_inv_def FAILSAFE_TIMEOUTS_BEFORE_DESYNC_def)
  ultimately show ?thesis
    using park_finish_outcome [OF h(1), of b t] h(2) by (auto simp: g' r)
qed

lemma reader_run_outcomes:
  "gate_inv g \<and> backlog_inv g \<Longrightarrow> reader_run g ops = Some (g', outs) \<Longrightarrow>
    outcomes_ok (fg_failsafe_timeouts g = 1) outs"
proof (induction g ops arbitrary: g' outs rule: reader_run.induct)
  case (1 g)
  then show ?case by simp
next
  case (2 g op rs)
  from "2.IH" [OF flow_step_inv [OF "2.prems"(1)]] "2.prems"(2) show ?case by simp
next
  case (3 g now c ws rs)
  then obtain g1 r outs' where p: "park_if_paused now c g ws = Some (g1, r)"
    and rest: "reader_run g1 rs = Some (g', outs')" and outs: "outs = r # outs'"
    by (auto split: option.splits)
  from park_if_paused_step [OF p "3.prems"(1)] have inv: "gate_inv g1 \<and> backlog_inv g1"
    and eq: "outcomes_ok (fg_failsafe_timeouts g = 1) (r # outs')
      = outcomes_ok (fg_failsafe_timeouts g1 = 1) outs'" by auto
  from "3.IH" [OF p refl inv rest] show ?case by (simp only: outs eq)
qed

text \<open>
  A stall is reported exactly at the second of two consecutive timeouts: in the
  outcomes of the reader's calls, whatever other threads do, a TimedOut never follows another
  one and a Stalled comes only after one; a normal wake-up or a stall starts the count afresh.
\<close>

theorem stall_needs_two_timeouts:
  assumes "reader_run (with_failsafe b d) ops = Some (g, outs)"
  shows "outcomes_ok False outs"
  using reader_run_outcomes [OF with_failsafe_inv assms] by (simp add: with_failsafe_def)

definition flooded_run :: "reader_op list" where
  "flooded_run =
    [ROther (FSent (Some 1)), ROther (FAcked 0 1), ROther (FSent (Some 300000)),
     RPark 7 False [Wake [] 12 True False], ROther (FSent (Some 600000)),
     RPark 13 False [Wake [] 18 True False]]"

theorem stall_needs_two_timeouts_witness:
  "map_option snd (reader_run (with_failsafe True 5) flooded_run) = Some [TimedOut, Stalled]
    \<and> outcomes_ok False [TimedOut, Stalled]"
proof -
  have ex: "\<exists>g. reader_run (with_failsafe True 5) flooded_run = Some (g, [TimedOut, Stalled])"
    by (simp add: flooded_run_def park_if_paused_def park_wait.simps park_finish_def
        note_sent_def note_acked_def reevaluate_park_def with_failsafe_def in_flight_def
        warn_flow_def FAILSAFE_TIMEOUTS_BEFORE_DESYNC_def
        PRODUCER_FLOW_HIGH_WATERMARK_BYTES_def Let_def)
  then obtain g where g: "reader_run (with_failsafe True 5) flooded_run = Some (g, [TimedOut, Stalled])"
    by blast
  from stall_needs_two_timeouts [OF g] g show ?thesis by simp
qed

end
