(* ===== verification/Flow_Threads.thy ===== *)
theory Flow_Threads
  imports Output_Flow
begin

text \<open>
  The flow gate under real concurrency. \<open>note_sent\<close> and \<open>note_acked\<close> of
  \<open>terminal_output_flow.rs\<close> are called by different threads and are not atomic: each access
  to an atomic counter and each critical section is one step here, and the steps of any number
  of threads interleave. The atomics are taken to be sequentially consistent, so an execution
  shown here is an execution of the code.
\<close>

section \<open>Threads and steps\<close>

text \<open>Where a thread is: between two accesses of \<open>note_sent\<close> or \<open>note_acked\<close>.\<close>

datatype flow_pc =
    PcIdle
  | PcAckStamp instant nat   \<comment> \<open>\<open>ever_acked\<close> stored; the time stamp is next\<close>
  | PcAckLoad nat            \<comment> \<open>about to load \<open>sent_seq\<close>\<close>
  | PcAckMax nat             \<comment> \<open>about to \<open>fetch_max\<close> the capped sequence\<close>
  | PcReeval                 \<comment> \<open>entering \<open>reevaluate_park\<close>\<close>
  | PcLoadSent               \<comment> \<open>\<open>in_flight\<close>: about to load \<open>sent_seq\<close>\<close>
  | PcLoadAcked nat          \<comment> \<open>\<open>in_flight\<close>: about to load \<open>acked_seq\<close>\<close>
  | PcLock nat               \<comment> \<open>about to take the lock of \<open>parked\<close> with this \<open>in_flight\<close>\<close>

text \<open>\<open>ft_returned\<close> adds up what the finished \<open>fetch_max\<close> calls will return.\<close>

record flow_threads =
  ft_gate :: flow_gate
  ft_pcs :: "nat \<Rightarrow> flow_pc"
  ft_returned :: nat

definition threads_init :: "bool \<Rightarrow> duration \<Rightarrow> flow_threads" where
  "threads_init b d = \<lparr>ft_gate = with_failsafe b d, ft_pcs = (\<lambda>_. PcIdle), ft_returned = 0\<rparr>"

definition at_pc :: "flow_threads \<Rightarrow> nat \<Rightarrow> flow_pc \<Rightarrow> flow_threads" where
  "at_pc s t pc = s\<lparr>ft_pcs := (ft_pcs s)(t := pc)\<rparr>"

text \<open>The critical section of \<open>reevaluate_park\<close>, with the value loaded before it.\<close>

definition park_section :: "nat \<Rightarrow> flow_gate \<Rightarrow> flow_gate" where
  "park_section flight g =
    (if fg_parked g then
       (if flight < PRODUCER_FLOW_LOW_WATERMARK_BYTES then g\<lparr>fg_parked := False\<rparr> else g)
     else if PRODUCER_FLOW_HIGH_WATERMARK_BYTES < flight then
       g\<lparr>fg_parked := True, fg_pause_count := fg_pause_count g + 1\<rparr>
     else g)"

inductive flow_tstep :: "flow_threads \<Rightarrow> flow_threads \<Rightarrow> bool" where
  sent: "ft_pcs s t = PcIdle \<Longrightarrow>
    flow_tstep s (at_pc (s\<lparr>ft_gate := (ft_gate s)\<lparr>fg_sent_seq := max (fg_sent_seq (ft_gate s)) n\<rparr>\<rparr>)
      t PcReeval)"
| acked: "ft_pcs s t = PcIdle \<Longrightarrow>
    flow_tstep s (at_pc (s\<lparr>ft_gate := (ft_gate s)\<lparr>fg_ever_acked := True\<rparr>\<rparr>) t (PcAckStamp now n))"
| ack_stamp: "ft_pcs s t = PcAckStamp now n \<Longrightarrow>
    flow_tstep s (at_pc (s\<lparr>ft_gate := (ft_gate s)\<lparr>fg_last_ack_at := Some now\<rparr>\<rparr>) t (PcAckLoad n))"
| ack_load: "ft_pcs s t = PcAckLoad n \<Longrightarrow>
    flow_tstep s (at_pc s t (PcAckMax (min n (fg_sent_seq (ft_gate s)))))"
| ack_max: "ft_pcs s t = PcAckMax capped \<Longrightarrow>
    flow_tstep s (at_pc (s\<lparr>ft_gate := (ft_gate s)\<lparr>fg_acked_seq := max (fg_acked_seq (ft_gate s)) capped\<rparr>,
        ft_returned := ft_returned s + (capped - fg_acked_seq (ft_gate s))\<rparr>) t PcReeval)"
| reeval: "ft_pcs s t = PcReeval \<Longrightarrow>
    flow_tstep s (at_pc s t
      (if fg_park_enabled (ft_gate s) \<and> fg_ever_acked (ft_gate s) then PcLoadSent else PcIdle))"
| load_sent: "ft_pcs s t = PcLoadSent \<Longrightarrow>
    flow_tstep s (at_pc s t (PcLoadAcked (fg_sent_seq (ft_gate s))))"
| load_acked: "ft_pcs s t = PcLoadAcked n \<Longrightarrow>
    flow_tstep s (at_pc s t (PcLock (n - fg_acked_seq (ft_gate s))))"
| lock: "ft_pcs s t = PcLock flight \<Longrightarrow>
    flow_tstep s (at_pc (s\<lparr>ft_gate := park_section flight (ft_gate s)\<rparr>) t PcIdle)"
| released: "flow_tstep s (s\<lparr>ft_gate := release (ft_gate s)\<rparr>)"

inductive flow_reach :: "bool \<Rightarrow> duration \<Rightarrow> flow_threads \<Rightarrow> bool" for b d where
  start: "flow_reach b d (threads_init b d)"
| more: "flow_reach b d s \<Longrightarrow> flow_tstep s s' \<Longrightarrow> flow_reach b d s'"

inductive_simps flow_reach_init [simp]: "flow_reach b d (threads_init b d)"

lemma at_pc_sel [simp]:
  "ft_gate (at_pc s t pc) = ft_gate s"
  "ft_returned (at_pc s t pc) = ft_returned s"
  "ft_pcs (at_pc s t pc) = (ft_pcs s)(t := pc)"
  by (simp_all add: at_pc_def)

lemma park_section_sel [simp]:
  "fg_sent_seq (park_section f g) = fg_sent_seq g"
  "fg_acked_seq (park_section f g) = fg_acked_seq g"
  "fg_ever_acked (park_section f g) = fg_ever_acked g"
  "fg_park_enabled (park_section f g) = fg_park_enabled g"
  by (simp_all add: park_section_def)

section \<open>What holds in every interleaving\<close>

text \<open>What a thread carries between two steps is bounded by the shared counters.\<close>

fun pc_ok :: "flow_gate \<Rightarrow> flow_pc \<Rightarrow> bool" where
  "pc_ok g (PcAckMax capped) = (capped \<le> fg_sent_seq g \<and> fg_ever_acked g)"
| "pc_ok g (PcAckStamp now n) = fg_ever_acked g"
| "pc_ok g (PcAckLoad n) = fg_ever_acked g"
| "pc_ok g PcLoadSent = (fg_park_enabled g \<and> fg_ever_acked g)"
| "pc_ok g (PcLoadAcked n) = (fg_park_enabled g \<and> fg_ever_acked g \<and> n \<le> fg_sent_seq g)"
| "pc_ok g (PcLock f) = (fg_park_enabled g \<and> fg_ever_acked g \<and> f \<le> fg_sent_seq g)"
| "pc_ok g pc = True"

definition threads_inv :: "bool \<Rightarrow> flow_threads \<Rightarrow> bool" where
  "threads_inv b s \<longleftrightarrow>
    fg_acked_seq (ft_gate s) \<le> fg_sent_seq (ft_gate s)
    \<and> ft_returned s = fg_acked_seq (ft_gate s)
    \<and> fg_park_enabled (ft_gate s) = b
    \<and> (fg_parked (ft_gate s) \<longrightarrow> b \<and> fg_ever_acked (ft_gate s)
          \<and> PRODUCER_FLOW_HIGH_WATERMARK_BYTES < fg_sent_seq (ft_gate s))
    \<and> (\<forall>t. pc_ok (ft_gate s) (ft_pcs s t))"

lemma pc_ok_frame [simp]:
  "pc_ok (g\<lparr>fg_parked := x\<rparr>) pc = pc_ok g pc"
  "pc_ok (g\<lparr>fg_pause_count := y\<rparr>) pc = pc_ok g pc"
  "pc_ok (g\<lparr>fg_acked_seq := y\<rparr>) pc = pc_ok g pc"
  "pc_ok (g\<lparr>fg_last_ack_at := z\<rparr>) pc = pc_ok g pc"
  by (cases pc; simp)+

lemma pc_ok_section [simp]: "pc_ok (park_section f g) pc = pc_ok g pc"
  by (simp add: park_section_def)

lemma pc_ok_grow:
  "pc_ok g pc \<Longrightarrow> pc_ok (g\<lparr>fg_ever_acked := True\<rparr>) pc"
  "pc_ok g pc \<Longrightarrow> pc_ok (g\<lparr>fg_sent_seq := max (fg_sent_seq g) n\<rparr>) pc"
  by (cases pc; auto)+

lemma threads_inv_pc: "threads_inv b s \<Longrightarrow> ft_pcs s t = pc \<Longrightarrow> pc_ok (ft_gate s) pc"
  by (auto simp: threads_inv_def)

lemma threads_inv_step:
  assumes "threads_inv b s" and "flow_tstep s s'"
  shows "threads_inv b s'"
  using assms(2)
proof (cases rule: flow_tstep.cases)
  case (lock t flight)
  with threads_inv_pc [OF assms(1) lock(2)] assms(1) show ?thesis
    by (auto simp: threads_inv_def park_section_def)
next
  case (ack_max t capped)
  with threads_inv_pc [OF assms(1) ack_max(2)] assms(1) show ?thesis
    by (auto simp: threads_inv_def)
next
  case (load_acked t n)
  with threads_inv_pc [OF assms(1) load_acked(2)] assms(1) show ?thesis
    by (auto simp: threads_inv_def)
next
  case (ack_load t n)
  with threads_inv_pc [OF assms(1) ack_load(2)] assms(1) show ?thesis
    by (auto simp: threads_inv_def)
next
  case (load_sent t)
  with threads_inv_pc [OF assms(1) load_sent(2)] assms(1) show ?thesis
    by (auto simp: threads_inv_def)
next
  case (ack_stamp t now n)
  with threads_inv_pc [OF assms(1) ack_stamp(2)] assms(1) show ?thesis
    by (auto simp: threads_inv_def)
next
  case (sent t n)
  with assms(1) show ?thesis by (auto simp: threads_inv_def pc_ok_grow)
next
  case (acked t now n)
  with assms(1) show ?thesis by (auto simp: threads_inv_def pc_ok_grow)
next
  case (reeval t)
  with assms(1) show ?thesis by (auto simp: threads_inv_def)
next
  case released
  with assms(1) show ?thesis by (simp add: threads_inv_def release_def)
qed

lemma threads_inv_reach: "flow_reach b d s \<Longrightarrow> threads_inv b s"
proof (induction rule: flow_reach.induct)
  case start
  then show ?case by (simp add: threads_inv_def threads_init_def with_failsafe_def)
qed (rule threads_inv_step)

section \<open>Schedules\<close>

text \<open>An executable scheduler: which thread moves, and whether it starts a call.\<close>

datatype flow_act = DoSent nat | DoAcked instant nat | Advance

fun flow_advance :: "flow_threads \<Rightarrow> nat \<Rightarrow> flow_pc \<Rightarrow> flow_threads" where
  "flow_advance s t PcIdle = s"
| "flow_advance s t (PcAckStamp now n) =
    at_pc (s\<lparr>ft_gate := (ft_gate s)\<lparr>fg_last_ack_at := Some now\<rparr>\<rparr>) t (PcAckLoad n)"
| "flow_advance s t (PcAckLoad n) = at_pc s t (PcAckMax (min n (fg_sent_seq (ft_gate s))))"
| "flow_advance s t (PcAckMax capped) =
    at_pc (s\<lparr>ft_gate := (ft_gate s)\<lparr>fg_acked_seq := max (fg_acked_seq (ft_gate s)) capped\<rparr>,
        ft_returned := ft_returned s + (capped - fg_acked_seq (ft_gate s))\<rparr>) t PcReeval"
| "flow_advance s t PcReeval = at_pc s t
    (if fg_park_enabled (ft_gate s) \<and> fg_ever_acked (ft_gate s) then PcLoadSent else PcIdle)"
| "flow_advance s t PcLoadSent = at_pc s t (PcLoadAcked (fg_sent_seq (ft_gate s)))"
| "flow_advance s t (PcLoadAcked n) = at_pc s t (PcLock (n - fg_acked_seq (ft_gate s)))"
| "flow_advance s t (PcLock flight) =
    at_pc (s\<lparr>ft_gate := park_section flight (ft_gate s)\<rparr>) t PcIdle"

fun flow_do :: "flow_threads \<Rightarrow> nat \<times> flow_act \<Rightarrow> flow_threads" where
  "flow_do s (t, DoSent n) = (if ft_pcs s t = PcIdle
    then at_pc (s\<lparr>ft_gate := (ft_gate s)\<lparr>fg_sent_seq := max (fg_sent_seq (ft_gate s)) n\<rparr>\<rparr>) t PcReeval
    else s)"
| "flow_do s (t, DoAcked now n) = (if ft_pcs s t = PcIdle
    then at_pc (s\<lparr>ft_gate := (ft_gate s)\<lparr>fg_ever_acked := True\<rparr>\<rparr>) t (PcAckStamp now n) else s)"
| "flow_do s (t, Advance) = flow_advance s t (ft_pcs s t)"

lemma flow_do_sound: "flow_do s ta = s \<or> flow_tstep s (flow_do s ta)"
proof (cases ta)
  case (Pair t a)
  show ?thesis
  proof (cases a)
    case Advance
    with Pair show ?thesis
      by (cases "ft_pcs s t") (auto simp only: flow_do.simps flow_advance.simps intro: flow_tstep.intros)
  qed (auto simp: Pair intro: flow_tstep.intros)
qed

lemma flow_do_reach: "flow_reach b d s \<Longrightarrow> flow_reach b d (foldl flow_do s acts)"
proof (induction acts arbitrary: s)
  case (Cons a acts)
  from flow_do_sound [of s a] Cons.prems have "flow_reach b d (flow_do s a)"
    by (auto intro: flow_reach.more)
  then show ?case by (simp add: Cons.IH)
qed simp

text \<open>A thread alone: the small steps of a call are the atomic operation of \<open>Output_Flow\<close>.\<close>

definition alone :: "nat \<Rightarrow> flow_act \<Rightarrow> nat \<Rightarrow> (nat \<times> flow_act) list" where
  "alone t a k = (t, a) # replicate k (t, Advance)"

lemma replicate_numeral [simp]:
  "replicate 3 x = [x, x, x]"
  "replicate 4 x = [x, x, x, x]"
  "replicate 7 x = [x, x, x, x, x, x, x]"
  by (simp_all add: numeral_eq_Suc)

lemma pcs_back [simp]: "ft_pcs s t = PcIdle \<Longrightarrow> (ft_pcs s)(t := PcIdle) = ft_pcs s"
  by (simp add: fun_upd_idem)

lemma park_section_reevaluate:
  "fg_park_enabled g \<Longrightarrow> fg_ever_acked g \<Longrightarrow> park_section (in_flight g) g = reevaluate_park g"
  "\<not> (fg_park_enabled g \<and> fg_ever_acked g) \<Longrightarrow> reevaluate_park g = g"
  by (auto simp: park_section_def reevaluate_park_def)

lemma flow_do_advance:
  "ft_pcs s t = pc \<Longrightarrow> flow_do s (t, Advance) = flow_advance s t pc"
  by simp

lemma alone_reeval:
  assumes "ft_pcs s t = PcReeval"
  shows "foldl flow_do s (replicate 4 (t, Advance))
    = at_pc (s\<lparr>ft_gate := reevaluate_park (ft_gate s)\<rparr>) t PcIdle"
proof (cases "fg_park_enabled (ft_gate s) \<and> fg_ever_acked (ft_gate s)")
  case True
  with assms show ?thesis
    by (simp add: at_pc_def park_section_reevaluate in_flight_def [symmetric])
next
  case False
  then have "(if fg_park_enabled (ft_gate s) \<and> fg_ever_acked (ft_gate s) then PcLoadSent else PcIdle)
      = PcIdle" by simp
  with False assms show ?thesis
    by (simp add: at_pc_def park_section_reevaluate(2) del: de_Morgan_conj)
qed

lemma alone_sent:
  assumes "ft_pcs s t = PcIdle"
  shows "foldl flow_do s (alone t (DoSent n) 4) = s\<lparr>ft_gate := note_sent (ft_gate s) (Some n)\<rparr>"
proof -
  let ?s = "at_pc (s\<lparr>ft_gate := (ft_gate s)\<lparr>fg_sent_seq := max (fg_sent_seq (ft_gate s)) n\<rparr>\<rparr>) t PcReeval"
  have "foldl flow_do s (alone t (DoSent n) 4) = foldl flow_do ?s (replicate 4 (t, Advance))"
    using assms by (simp only: alone_def foldl_Cons flow_do.simps simp_thms if_True)
  also have "\<dots> = at_pc (?s\<lparr>ft_gate := reevaluate_park (ft_gate ?s)\<rparr>) t PcIdle"
    by (rule alone_reeval) simp
  finally show ?thesis using assms by (simp add: at_pc_def note_sent_def)
qed

lemma alone_acked:
  assumes "ft_pcs s t = PcIdle"
  shows "foldl flow_do s (alone t (DoAcked now n) 7) =
      s\<lparr>ft_gate := fst (note_acked now (ft_gate s) n),
        ft_returned := ft_returned s + snd (note_acked now (ft_gate s) n)\<rparr>"
proof -
  let ?c = "min n (fg_sent_seq (ft_gate s))"
  let ?s = "at_pc (s\<lparr>ft_gate := (ft_gate s)\<lparr>fg_ever_acked := True, fg_last_ack_at := Some now,
      fg_acked_seq := max (fg_acked_seq (ft_gate s)) ?c\<rparr>,
      ft_returned := ft_returned s + (?c - fg_acked_seq (ft_gate s))\<rparr>) t PcReeval"
  have split: "replicate 7 (t, Advance) = replicate 3 (t, Advance) @ replicate 4 (t, Advance)" by simp
  have "foldl flow_do s ((t, DoAcked now n) # replicate 3 (t, Advance)) = ?s"
    using assms by (simp add: at_pc_def)
  then have "foldl flow_do s (alone t (DoAcked now n) 7) = foldl flow_do ?s (replicate 4 (t, Advance))"
    by (simp only: alone_def split foldl_Cons foldl_append)
  also have "\<dots> = at_pc (?s\<lparr>ft_gate := reevaluate_park (ft_gate ?s)\<rparr>) t PcIdle"
    by (rule alone_reeval) simp
  finally show ?thesis using assms by (simp add: at_pc_def note_acked_def Let_def)
qed

section \<open>Properties\<close>

text \<open>
  Property C4. In every interleaving of senders, acknowledgers and releases, however the
  accesses of their calls mix: acknowledged never passes sent, what the calls of
  \<open>note_acked\<close> return adds up to the acknowledged sequence number (no byte is acknowledged
  twice), and the gate is closed only in a session that parks, after an acknowledgement, with
  more than the high watermark sent.
\<close>

theorem interleaved_ledger:
  assumes "flow_reach b d s"
  shows "fg_acked_seq (ft_gate s) \<le> fg_sent_seq (ft_gate s)
    \<and> ft_returned s = fg_acked_seq (ft_gate s)
    \<and> \<not> (fg_parked (ft_gate s) \<and> \<not> (b \<and> fg_ever_acked (ft_gate s)
          \<and> PRODUCER_FLOW_HIGH_WATERMARK_BYTES < fg_sent_seq (ft_gate s)))"
  using threads_inv_reach [OF assms] by (auto simp: threads_inv_def)

definition two_ackers :: "(nat \<times> flow_act) list" where
  "two_ackers = (0, DoSent 9) # (1, DoAcked 0 9) # (2, DoAcked 0 4)
     # concat (replicate 4 [(1, Advance), (2, Advance)])"

theorem interleaved_ledger_witness:
  "ft_returned (foldl flow_do (threads_init True 5) two_ackers) = 9
    \<and> fg_acked_seq (ft_gate (foldl flow_do (threads_init True 5) two_ackers)) = 9"
proof -
  let ?s = "foldl flow_do (threads_init True 5) two_ackers"
  have "fg_acked_seq (ft_gate ?s) = 9"
    by (simp add: two_ackers_def threads_init_def with_failsafe_def at_pc_def)
  with interleaved_ledger [OF flow_do_reach [of True 5 "threads_init True 5" two_ackers]]
  show ?thesis by simp
qed

text \<open>
  The atomic model is what a call does when no other thread moves: from any state
  with an idle thread, the steps of its call reach exactly the state of \<open>note_sent\<close> or
  \<open>note_acked\<close>, with the bytes \<open>note_acked\<close> returns.
\<close>

theorem undisturbed_call_is_atomic:
  assumes "ft_pcs s t = PcIdle"
  shows "foldl flow_do s (alone t (DoSent n) 4) = s\<lparr>ft_gate := note_sent (ft_gate s) (Some n)\<rparr>
    \<and> foldl flow_do s (alone t (DoAcked now n) 7) =
      s\<lparr>ft_gate := fst (note_acked now (ft_gate s) n),
        ft_returned := ft_returned s + snd (note_acked now (ft_gate s) n)\<rparr>"
  using assms by (simp only: alone_sent alone_acked)

theorem undisturbed_call_is_atomic_witness:
  "foldl flow_do (threads_init True 5) (alone 3 (DoSent 8) 4)
     = (threads_init True 5)\<lparr>ft_gate := note_sent (with_failsafe True 5) (Some 8)\<rparr>"
proof -
  have "ft_pcs (threads_init True 5) 3 = PcIdle" by (simp add: threads_init_def)
  from undisturbed_call_is_atomic [OF this, of 8 0] show ?thesis by (simp add: threads_init_def)
qed

text \<open>The race: thread 0 has sent a burst and loaded \<open>in_flight\<close>, thread 1 acknowledges all of it.\<close>

definition stale_park_schedule :: "(nat \<times> flow_act) list" where
  "stale_park_schedule =
    alone 0 (DoSent 1) 4 @ alone 1 (DoAcked 0 1) 7
    @ alone 0 (DoSent 300000) 3 @ alone 1 (DoAcked 0 300000) 7 @ [(0, Advance)]"

lemma stale_park_end:
  "\<exists>g. foldl flow_do (threads_init True d) stale_park_schedule
      = \<lparr>ft_gate = g, ft_pcs = (\<lambda>_. PcIdle), ft_returned = 300000\<rparr>
      \<and> fg_sent_seq g = 300000 \<and> fg_acked_seq g = 300000 \<and> fg_parked g \<and> fg_park_enabled g
      \<and> fg_failsafe g = d \<and> fg_failsafe_timeouts g = 0 \<and> fg_ever_acked g"
proof -
  let ?w = "with_failsafe True d"
  let ?g1 = "?w\<lparr>fg_sent_seq := 1, fg_ever_acked := True, fg_last_ack_at := Some 0, fg_acked_seq := 1\<rparr>"
  let ?s1 = "\<lparr>ft_gate = ?g1, ft_pcs = (\<lambda>_. PcIdle), ft_returned = 1\<rparr>"
  let ?s2 = "\<lparr>ft_gate = ?g1\<lparr>fg_sent_seq := 300000\<rparr>, ft_pcs = (\<lambda>_. PcIdle)(0 := PcLock 299999),
    ft_returned = 1\<rparr>"
  let ?s3 = "\<lparr>ft_gate = ?g1\<lparr>fg_sent_seq := 300000, fg_acked_seq := 300000\<rparr>,
    ft_pcs = (\<lambda>_. PcIdle)(0 := PcLock 299999), ft_returned = 300000\<rparr>"
  have a: "foldl flow_do (threads_init True d) (alone 0 (DoSent 1) 4)
      = (threads_init True d)\<lparr>ft_gate := ?w\<lparr>fg_sent_seq := 1\<rparr>\<rparr>"
    by (simp add: alone_sent threads_init_def note_sent_def reevaluate_park_def with_failsafe_def)
  have b: "foldl flow_do ((threads_init True d)\<lparr>ft_gate := ?w\<lparr>fg_sent_seq := 1\<rparr>\<rparr>)
      (alone 1 (DoAcked 0 1) 7) = ?s1"
    by (simp add: alone_acked threads_init_def note_acked_def reevaluate_park_def with_failsafe_def
        in_flight_def)
  have c: "foldl flow_do ?s1 (alone 0 (DoSent 300000) 3) = ?s2"
    by (simp add: alone_def at_pc_def with_failsafe_def)
  have d: "foldl flow_do ?s2 (alone 1 (DoAcked 0 300000) 7) = ?s3"
    by (simp add: alone_acked note_acked_def reevaluate_park_def with_failsafe_def in_flight_def)
  have e: "foldl flow_do ?s3 [(0, Advance)]
      = \<lparr>ft_gate = park_section 299999 (ft_gate ?s3), ft_pcs = (\<lambda>_. PcIdle), ft_returned = 300000\<rparr>"
    by (simp add: at_pc_def fun_eq_iff)
  show ?thesis
    unfolding stale_park_schedule_def foldl_append a b c d e
    by (simp add: park_section_def with_failsafe_def PRODUCER_FLOW_HIGH_WATERMARK_BYTES_def)
qed

text \<open>
  The gate can close with nothing in flight: \<open>in_flight\<close> is computed before the
  lock of \<open>parked\<close> is taken, so a sender that is overtaken by the acknowledgement of everything
  it sent still closes the gate. All calls have returned, no byte is unacknowledged, and the
  reader's next call sleeps the whole failsafe interval and reports a timeout.
\<close>

theorem gate_can_close_on_stale_backlog:
  "\<exists>s. flow_reach True d s \<and> (\<forall>t. ft_pcs s t = PcIdle) \<and> in_flight (ft_gate s) = 0
    \<and> fg_parked (ft_gate s)
    \<and> map_option snd (park_if_paused now False (ft_gate s) [Wake [] (now + d) True False])
        = Some TimedOut"
proof -
  let ?s = "foldl flow_do (threads_init True d) stale_park_schedule"
  note s = stale_park_end [of d]
  have "flow_reach True d ?s" by (rule flow_do_reach) simp
  moreover from s have "\<forall>t. ft_pcs ?s t = PcIdle" by auto
  moreover from s have "in_flight (ft_gate ?s) = 0" by (auto simp: in_flight_def)
  moreover from s have "fg_parked (ft_gate ?s)" by auto
  moreover from s have
    "map_option snd (park_if_paused now False (ft_gate ?s) [Wake [] (now + d) True False])
      = Some TimedOut"
    by (auto simp: park_if_paused_def park_wait.simps park_finish_def warn_flow_def Let_def
        FAILSAFE_TIMEOUTS_BEFORE_DESYNC_def)
  ultimately show ?thesis by blast
qed

end
