(* ===== verification/Replay_Buffer.thy ===== *)
theory Replay_Buffer
  imports Rust_Text "HOL-Library.Word"
begin

unbundle bit_operations_syntax

text \<open>
  The raw replay buffer of a session (\<open>ReplayBuffer\<close> in \<open>terminal_service.rs\<close>, with its
  data types in \<open>models/terminal.rs\<close>): the window of retained chunks, the byte coordinates,
  the uploaded screen checkpoint, the geometry marks and the recovery snapshot; and the epoch
  of the JavaScript boundary (\<open>models/terminal_recovery_dto.rs\<close>). The sequence numbers count
  bytes since the start of the session and are natural numbers; the epoch is a 64-bit word. The
  debug assertions are those of a release build, no code.
\<close>

section \<open>Data\<close>

datatype buffer_mode = ModeNormal | ModeAlternate

type_synonym epoch = "64 word"

record geometry_mark =
  gm_seq :: nat
  gm_cols :: nat
  gm_rows :: nat

record checkpoint =
  cp_epoch :: epoch
  cp_anchor_seq :: nat
  cp_snapshot_ansi :: string
  cp_buffer_mode :: buffer_mode
  cp_cols :: nat
  cp_rows :: nat
  cp_checkpointed_at_ms :: nat

record replay_buffer =
  rb_chunks :: "string list"
  rb_total_bytes :: nat
  rb_max_bytes :: nat
  rb_buffer_mode :: buffer_mode
  rb_epoch :: epoch
  rb_pushed_seq :: nat
  rb_window_start_seq :: nat
  rb_checkpoint :: "checkpoint option"
  rb_geometry_marks :: "geometry_mark list"

record replay_snapshot =
  rs_data :: string
  rs_buffer_mode :: buffer_mode

type_synonym geometry = "nat \<times> nat"

record delta_resize =
  dr_offset :: nat
  dr_cols :: nat
  dr_rows :: nat

record recovery_snapshot =
  rec_checkpoint :: "checkpoint option"
  rec_delta :: string
  rec_buffer_mode :: buffer_mode
  rec_end_seq :: nat
  rec_checkpoint_epoch :: epoch
  rec_delta_geometry :: "geometry option"
  rec_delta_resizes :: "delta_resize list"

datatype store_outcome =
    Accepted nat
  | RejectedEpochMismatch
  | RejectedStaleAnchor
  | RejectedAnchorGap
  | RejectedFutureAnchor
  | RejectedTooLarge

definition CHECKPOINT_ANCHORING_ENABLED :: bool where
  "CHECKPOINT_ANCHORING_ENABLED = True"

definition CHECKPOINT_SNAPSHOT_MAX_BYTES :: nat where
  "CHECKPOINT_SNAPSHOT_MAX_BYTES = 8 * 1024 * 1024"

definition LIVE_REPLAY_MAX_BYTES :: nat where
  "LIVE_REPLAY_MAX_BYTES = 8 * 1024 * 1024"

definition LIVE_REPLAY_MIN_BYTES :: nat where
  "LIVE_REPLAY_MIN_BYTES = LIVE_REPLAY_MAX_BYTES"

definition REPLAY_BYTES_PER_SCROLLBACK_ROW :: nat where
  "REPLAY_BYTES_PER_SCROLLBACK_ROW = 120"

definition live_replay_max_bytes :: "nat \<Rightarrow> nat" where
  "live_replay_max_bytes scrollback_rows =
    max LIVE_REPLAY_MIN_BYTES (scrollback_rows * REPLAY_BYTES_PER_SCROLLBACK_ROW)"

text \<open>The clock and the process-wide counter are arguments; \<open>as u64\<close> truncates.\<close>

definition generate_checkpoint_epoch :: "nat \<Rightarrow> epoch \<Rightarrow> epoch" where
  "generate_checkpoint_epoch millis counter = (push_bit 16 (of_nat millis)) OR (counter AND 0xFFFF)"

definition replay_new :: "epoch \<Rightarrow> nat \<Rightarrow> replay_buffer" where
  "replay_new epoch max_bytes =
    \<lparr>rb_chunks = [], rb_total_bytes = 0, rb_max_bytes = max_bytes, rb_buffer_mode = ModeNormal,
     rb_epoch = epoch, rb_pushed_seq = 0, rb_window_start_seq = 0, rb_checkpoint = None,
     rb_geometry_marks = []\<rparr>"

section \<open>Geometry marks\<close>

text \<open>\<open>dedupe_last_geometry\<close> on the deque alone: drop the last mark if its neighbour agrees.\<close>

definition same_size :: "geometry_mark \<Rightarrow> nat \<Rightarrow> nat \<Rightarrow> bool" where
  "same_size m cols rows \<longleftrightarrow> gm_cols m = cols \<and> gm_rows m = rows"

definition dedupe_last_geometry :: "geometry_mark list \<Rightarrow> geometry_mark list" where
  "dedupe_last_geometry marks =
    (let len = length marks in
     if 2 \<le> len then
       (let prev = marks ! (len - 2); lst = marks ! (len - 1) in
        if same_size prev (gm_cols lst) (gm_rows lst) then butlast marks else marks)
     else marks)"

definition record_geometry :: "replay_buffer \<Rightarrow> nat \<Rightarrow> nat \<Rightarrow> replay_buffer" where
  "record_geometry r cols rows =
    (let marks = rb_geometry_marks r;
         pushed = rb_geometry_marks r @ [\<lparr>gm_seq = rb_pushed_seq r, gm_cols = cols, gm_rows = rows\<rparr>]
     in if marks = [] then r\<lparr>rb_geometry_marks := pushed\<rparr>
        else if same_size (last marks) cols rows then r
        else if gm_seq (last marks) = rb_pushed_seq r then
          r\<lparr>rb_geometry_marks := dedupe_last_geometry
            (butlast marks @ [(last marks)\<lparr>gm_cols := cols, gm_rows := rows\<rparr>])\<rparr>
        else r\<lparr>rb_geometry_marks := pushed\<rparr>)"

fun prune_marks :: "nat \<Rightarrow> geometry_mark list \<Rightarrow> geometry_mark list" where
  "prune_marks ws (m # n # ms) = (if gm_seq n \<le> ws then prune_marks ws (n # ms) else m # n # ms)"
| "prune_marks ws ms = ms"

definition prune_geometry_marks :: "replay_buffer \<Rightarrow> replay_buffer" where
  "prune_geometry_marks r =
    r\<lparr>rb_geometry_marks := prune_marks (rb_window_start_seq r) (rb_geometry_marks r)\<rparr>"

text \<open>
  The loop of \<open>delta_geometry_from\<close>: the marks still pending, the coordinate and the offset
  of the next chunk, in UTF-16 units of the delta.
\<close>

definition resize_at :: "nat \<Rightarrow> geometry_mark \<Rightarrow> delta_resize" where
  "resize_at offset m = \<lparr>dr_offset = offset, dr_cols = gm_cols m, dr_rows = gm_rows m\<rparr>"

fun resize_loop :: "nat \<Rightarrow> geometry_mark list \<Rightarrow> nat \<Rightarrow> nat \<Rightarrow> string list \<Rightarrow> delta_resize list" where
  "resize_loop start pending sq offset [] = map (resize_at offset) pending"
| "resize_loop start pending sq offset (c # cs) =
    map (resize_at offset) (takeWhile (\<lambda>m. gm_seq m \<le> sq) pending)
    @ resize_loop start (dropWhile (\<lambda>m. gm_seq m \<le> sq) pending) (sq + length c)
        (if start \<le> sq then offset + utf16_len c else offset) cs"

definition delta_geometry_from :: "replay_buffer \<Rightarrow> nat \<Rightarrow> geometry option \<times> delta_resize list" where
  "delta_geometry_from r start_seq =
    (let before = takeWhile (\<lambda>m. gm_seq m \<le> start_seq) (rb_geometry_marks r);
         start = (if before = [] then None else Some (gm_cols (last before), gm_rows (last before)));
         pending = filter (\<lambda>m. start_seq < gm_seq m) (rb_geometry_marks r)
     in (start, resize_loop start_seq pending (rb_window_start_seq r) 0 (rb_chunks r)))"

section \<open>The screen mode\<close>

text \<open>Index loop of \<open>update_buffer_mode\<close>: it looks for \<open>ESC [ ? digits h\<close> or \<open>l\<close>.\<close>

definition digits_end :: "string \<Rightarrow> nat \<Rightarrow> nat" where
  "digits_end bytes j = j + length (takeWhile is_digit (drop j bytes))"

definition mode_after :: "string \<Rightarrow> char \<Rightarrow> buffer_mode \<Rightarrow> buffer_mode" where
  "mode_after code action mode =
    (if code \<in> {''47'', ''1047'', ''1049''} then
       (if action = CHR ''h'' then ModeAlternate
        else if action = CHR ''l'' then ModeNormal else mode)
     else mode)"

function mode_loop :: "string \<Rightarrow> nat \<Rightarrow> buffer_mode \<Rightarrow> buffer_mode" where
  "mode_loop bytes i mode =
    (if i + 4 < length bytes then
       (if bytes ! i = CHR 0x1B \<and> bytes ! (i + 1) = CHR ''['' \<and> bytes ! (i + 2) = CHR ''?'' then
          (let j = digits_end bytes (i + 3) in
           if length bytes \<le> j then mode
           else mode_loop bytes (j + 1)
                  (mode_after (take (j - (i + 3)) (drop (i + 3) bytes)) (bytes ! j) mode))
        else mode_loop bytes (i + 1) mode)
     else mode)"
  by pat_completeness auto
termination
  by (relation "measure (\<lambda>(bytes, i, mode). length bytes - i)") (auto simp: digits_end_def)

declare mode_loop.simps [simp del]

definition update_buffer_mode :: "replay_buffer \<Rightarrow> string \<Rightarrow> replay_buffer" where
  "update_buffer_mode r data = r\<lparr>rb_buffer_mode := mode_loop data 0 (rb_buffer_mode r)\<rparr>"

section \<open>The window\<close>

text \<open>Both loops drop whole chunks from the front: (chunks, total bytes, window start).\<close>

fun evict_loop :: "nat \<Rightarrow> string list \<Rightarrow> nat \<Rightarrow> nat \<Rightarrow> string list \<times> nat \<times> nat" where
  "evict_loop mx [] tot ws = ([], tot, ws)"
| "evict_loop mx (c # cs) tot ws =
    (if mx < tot then evict_loop mx cs (tot - length c) (ws + length c)
     else (c # cs, tot, ws))"

fun trim_loop :: "nat \<Rightarrow> string list \<Rightarrow> nat \<Rightarrow> nat \<Rightarrow> string list \<times> nat \<times> nat" where
  "trim_loop anchor [] tot ws = ([], tot, ws)"
| "trim_loop anchor (c # cs) tot ws =
    (if anchor < ws + length c then (c # cs, tot, ws)
     else trim_loop anchor cs (tot - length c) (ws + length c))"

definition set_window :: "replay_buffer \<Rightarrow> string list \<times> nat \<times> nat \<Rightarrow> replay_buffer" where
  "set_window r w =
    r\<lparr>rb_chunks := fst w, rb_total_bytes := fst (snd w), rb_window_start_seq := snd (snd w)\<rparr>"

definition evict_front :: "replay_buffer \<Rightarrow> replay_buffer" where
  "evict_front r =
    (let r1 = prune_geometry_marks (set_window r
               (evict_loop (rb_max_bytes r) (rb_chunks r) (rb_total_bytes r) (rb_window_start_seq r)))
     in case rb_checkpoint r1 of
          Some cp \<Rightarrow>
            if cp_anchor_seq cp < rb_window_start_seq r1 then r1\<lparr>rb_checkpoint := None\<rparr> else r1
        | None \<Rightarrow> r1)"

definition trim_before_anchor :: "replay_buffer \<Rightarrow> nat \<Rightarrow> replay_buffer" where
  "trim_before_anchor r anchor =
    prune_geometry_marks (set_window r
      (trim_loop anchor (rb_chunks r) (rb_total_bytes r) (rb_window_start_seq r)))"

definition replay_push :: "replay_buffer \<Rightarrow> string \<Rightarrow> replay_buffer" where
  "replay_push r data =
    (if data = [] then r
     else (let r1 = update_buffer_mode r data in
       evict_front (r1\<lparr>rb_chunks := rb_chunks r1 @ [data],
         rb_total_bytes := rb_total_bytes r1 + length data,
         rb_pushed_seq := rb_pushed_seq r1 + length data\<rparr>)))"

definition replay_shrink :: "replay_buffer \<Rightarrow> nat \<Rightarrow> replay_buffer" where
  "replay_shrink r max_bytes = evict_front (r\<lparr>rb_max_bytes := max_bytes\<rparr>)"

definition store_checkpoint :: "replay_buffer \<Rightarrow> checkpoint \<Rightarrow> replay_buffer \<times> store_outcome" where
  "store_checkpoint r cp =
    (if CHECKPOINT_SNAPSHOT_MAX_BYTES < length (cp_snapshot_ansi cp) then (r, RejectedTooLarge)
     else if cp_epoch cp \<noteq> rb_epoch r then (r, RejectedEpochMismatch)
     else if (case rb_checkpoint r of
                Some existing \<Rightarrow> cp_anchor_seq cp \<le> cp_anchor_seq existing | None \<Rightarrow> False)
       then (r, RejectedStaleAnchor)
     else if cp_anchor_seq cp < rb_window_start_seq r then (r, RejectedAnchorGap)
     else if rb_pushed_seq r < cp_anchor_seq cp then (r, RejectedFutureAnchor)
     else (let r1 = r\<lparr>rb_checkpoint := Some cp\<rparr> in
       (if CHECKPOINT_ANCHORING_ENABLED then trim_before_anchor r1 (cp_anchor_seq cp) else r1,
        Accepted (cp_anchor_seq cp))))"

section \<open>Reading\<close>

definition valid_checkpoint :: "replay_buffer \<Rightarrow> checkpoint option" where
  "valid_checkpoint r =
    (case rb_checkpoint r of
       Some cp \<Rightarrow>
         if cp_epoch cp = rb_epoch r \<and> rb_window_start_seq r \<le> cp_anchor_seq cp then Some cp else None
     | None \<Rightarrow> None)"

definition needs_checkpoint :: "replay_buffer \<Rightarrow> nat \<Rightarrow> bool" where
  "needs_checkpoint r threshold_bytes =
    (case valid_checkpoint r of
       Some cp \<Rightarrow> threshold_bytes < rb_pushed_seq r - cp_anchor_seq cp
     | None \<Rightarrow> False)"

fun concat_chunks_from :: "nat \<Rightarrow> nat \<Rightarrow> string list \<Rightarrow> string" where
  "concat_chunks_from anchor sq [] = []"
| "concat_chunks_from anchor sq (c # cs) =
    (let en = sq + length c in
     (if anchor \<le> sq then c else if anchor < en then c else []) @ concat_chunks_from anchor en cs)"

definition replay_snapshot_of :: "replay_buffer \<Rightarrow> replay_snapshot" where
  "replay_snapshot_of r =
    (let photo = (case (if CHECKPOINT_ANCHORING_ENABLED then valid_checkpoint r else None) of
                    Some cp \<Rightarrow> cp_snapshot_ansi cp | None \<Rightarrow> [])
     in \<lparr>rs_data = photo @ concat (rb_chunks r), rs_buffer_mode = rb_buffer_mode r\<rparr>)"

definition recovery_snapshot_of :: "replay_buffer \<Rightarrow> recovery_snapshot" where
  "recovery_snapshot_of r =
    (let (checkpoint, delta, delta_start_seq) =
           (case valid_checkpoint r of
              Some cp \<Rightarrow> (Some cp,
                concat_chunks_from (cp_anchor_seq cp) (rb_window_start_seq r) (rb_chunks r),
                cp_anchor_seq cp)
            | None \<Rightarrow> (None, rs_data (replay_snapshot_of r), rb_window_start_seq r));
         (geometry, resizes) = delta_geometry_from r delta_start_seq
     in \<lparr>rec_checkpoint = checkpoint, rec_delta = delta, rec_buffer_mode = rb_buffer_mode r,
         rec_end_seq = rb_pushed_seq r, rec_checkpoint_epoch = rb_epoch r,
         rec_delta_geometry = geometry, rec_delta_resizes = resizes\<rparr>)"

section \<open>The epoch at the JavaScript boundary\<close>

text \<open>
  A JSON string or number; serialization always gives the decimal string. \<open>str::parse\<close> fails
  above the largest \<open>u64\<close>.
\<close>

datatype epoch_input = EpText string | EpLegacy nat | EpOther

definition epoch_serialize :: "epoch \<Rightarrow> epoch_input" where
  "epoch_serialize e = EpText (dec (unat e))"

fun epoch_deserialize :: "epoch_input \<Rightarrow> epoch option" where
  "epoch_deserialize (EpLegacy n) = (if n \<le> 9007199254740991 then Some (of_nat n) else None)"
| "epoch_deserialize (EpText s) =
    (if s \<noteq> [] \<and> length s \<le> 20 \<and> list_all is_digit s \<and> (s = ''0'' \<or> hd s \<noteq> CHR ''0'')
     then map_option of_nat (parse_unsigned 18446744073709551615 s) else None)"
| "epoch_deserialize EpOther = None"

section \<open>Runs\<close>

datatype replay_op =
    RPush string
  | RShrink nat
  | RStore checkpoint
  | RGeometry nat nat

fun replay_step :: "replay_buffer \<Rightarrow> replay_op \<Rightarrow> replay_buffer" where
  "replay_step r (RPush d) = replay_push r d"
| "replay_step r (RShrink n) = replay_shrink r n"
| "replay_step r (RStore cp) = fst (store_checkpoint r cp)"
| "replay_step r (RGeometry c w) = record_geometry r c w"

text \<open>What was pushed, in chunks: the empty push leaves no chunk.\<close>

fun pushed_chunks :: "replay_op list \<Rightarrow> string list" where
  "pushed_chunks [] = []"
| "pushed_chunks (RPush d # ops) = (if d = [] then [] else [d]) @ pushed_chunks ops"
| "pushed_chunks (_ # ops) = pushed_chunks ops"

end
