(* ===== verification/Replay_Props.thy ===== *)
theory Replay_Props
  imports Replay_Buffer Machines
begin

text \<open>
  The replay buffer against its history: what was pushed since the session started, and which
  size the terminal had at each byte. The window is a suffix of the pushed chunks, the
  accepted checkpoint joins it without a gap, and the recovery snapshot gives back the bytes
  and the sizes.
\<close>

section \<open>The window and its checkpoint\<close>

record replay_hist =
  rh_chunks :: "string list"
  rh_sizes :: "geometry_mark list"
  rh_buf :: replay_buffer

definition hist_init :: "epoch \<Rightarrow> nat \<Rightarrow> replay_hist" where
  "hist_init e mx = \<lparr>rh_chunks = [], rh_sizes = [], rh_buf = replay_new e mx\<rparr>"

definition hist_step :: "replay_hist \<Rightarrow> replay_op \<Rightarrow> replay_hist" where
  "hist_step h op =
    \<lparr>rh_chunks = rh_chunks h @ pushed_chunks [op],
     rh_sizes = rh_sizes h @ (case op of
        RGeometry c w \<Rightarrow> [\<lparr>gm_seq = length (concat (rh_chunks h)), gm_cols = c, gm_rows = w\<rparr>]
      | _ \<Rightarrow> []),
     rh_buf = replay_step (rh_buf h) op\<rparr>"

text \<open>The whole output of the session.\<close>

definition rh_log :: "replay_hist \<Rightarrow> string" where
  "rh_log h = concat (rh_chunks h)"

text \<open>A coordinate at which a chunk starts or the stream ends.\<close>

definition chunk_boundary :: "string list \<Rightarrow> nat \<Rightarrow> bool" where
  "chunk_boundary cs s \<longleftrightarrow> (\<exists>xs ys. cs = xs @ ys \<and> s = length (concat xs))"

definition window_inv :: "string list \<Rightarrow> replay_buffer \<Rightarrow> bool" where
  "window_inv H r \<longleftrightarrow>
    (\<exists>old. H = old @ rb_chunks r \<and> rb_window_start_seq r = length (concat old))
    \<and> rb_pushed_seq r = length (concat H)
    \<and> rb_total_bytes r = length (concat (rb_chunks r))
    \<and> [] \<notin> set H"

definition checkpoint_ok :: "replay_buffer \<Rightarrow> checkpoint \<Rightarrow> bool" where
  "checkpoint_ok r cp \<longleftrightarrow>
    cp_epoch cp = rb_epoch r
    \<and> length (cp_snapshot_ansi cp) \<le> CHECKPOINT_SNAPSHOT_MAX_BYTES
    \<and> rb_window_start_seq r \<le> cp_anchor_seq cp
    \<and> cp_anchor_seq cp \<le> rb_pushed_seq r
    \<and> (rb_chunks r \<noteq> [] \<longrightarrow>
        cp_anchor_seq cp < rb_window_start_seq r + length (hd (rb_chunks r)))"

definition buffer_inv :: "string list \<Rightarrow> replay_buffer \<Rightarrow> bool" where
  "buffer_inv H r \<longleftrightarrow> window_inv H r \<and> rb_total_bytes r \<le> rb_max_bytes r
    \<and> (\<forall>cp. rb_checkpoint r = Some cp \<longrightarrow> checkpoint_ok r cp)"

lemma prune_geometry_sel [simp]:
  "rb_chunks (prune_geometry_marks r) = rb_chunks r"
  "rb_total_bytes (prune_geometry_marks r) = rb_total_bytes r"
  "rb_max_bytes (prune_geometry_marks r) = rb_max_bytes r"
  "rb_buffer_mode (prune_geometry_marks r) = rb_buffer_mode r"
  "rb_epoch (prune_geometry_marks r) = rb_epoch r"
  "rb_pushed_seq (prune_geometry_marks r) = rb_pushed_seq r"
  "rb_window_start_seq (prune_geometry_marks r) = rb_window_start_seq r"
  "rb_checkpoint (prune_geometry_marks r) = rb_checkpoint r"
  by (simp_all add: prune_geometry_marks_def)

lemma record_geometry_sel [simp]:
  "rb_chunks (record_geometry r c w) = rb_chunks r"
  "rb_total_bytes (record_geometry r c w) = rb_total_bytes r"
  "rb_max_bytes (record_geometry r c w) = rb_max_bytes r"
  "rb_epoch (record_geometry r c w) = rb_epoch r"
  "rb_pushed_seq (record_geometry r c w) = rb_pushed_seq r"
  "rb_window_start_seq (record_geometry r c w) = rb_window_start_seq r"
  "rb_checkpoint (record_geometry r c w) = rb_checkpoint r"
  by (simp_all add: record_geometry_def Let_def)

lemma set_window_sel [simp]:
  "rb_chunks (set_window r w) = fst w"
  "rb_total_bytes (set_window r w) = fst (snd w)"
  "rb_window_start_seq (set_window r w) = snd (snd w)"
  "rb_max_bytes (set_window r w) = rb_max_bytes r"
  "rb_epoch (set_window r w) = rb_epoch r"
  "rb_pushed_seq (set_window r w) = rb_pushed_seq r"
  "rb_checkpoint (set_window r w) = rb_checkpoint r"
  "rb_geometry_marks (set_window r w) = rb_geometry_marks r"
  by (simp_all add: set_window_def)

text \<open>What both trimming loops do: they cut a prefix of whole chunks.\<close>

definition cut_of :: "string list \<Rightarrow> nat \<Rightarrow> string list \<times> nat \<times> nat \<Rightarrow> bool" where
  "cut_of cs ws w \<longleftrightarrow> (\<exists>old. cs = old @ fst w \<and> snd (snd w) = ws + length (concat old))
    \<and> fst (snd w) = length (concat (fst w))"

lemma cut_of_Cons: "cut_of cs (ws + length c) w \<Longrightarrow> cut_of (c # cs) ws w"
  unfolding cut_of_def by (metis (no_types, lifting) add.assoc append_Cons concat.simps(2) length_append)

lemma cut_of_refl: "tot = length (concat cs) \<Longrightarrow> cut_of cs ws (cs, tot, ws)"
  by (auto simp: cut_of_def)

lemma evict_loop_cut:
  "tot = length (concat cs) \<Longrightarrow> cut_of cs ws (evict_loop mx cs tot ws)"
  by (induction mx cs tot ws rule: evict_loop.induct) (auto intro: cut_of_refl cut_of_Cons)

lemma evict_loop_bound:
  "tot = length (concat cs) \<Longrightarrow> fst (snd (evict_loop mx cs tot ws)) \<le> mx"
  by (induction mx cs tot ws rule: evict_loop.induct) auto

lemma evict_loop_ws: "ws \<le> snd (snd (evict_loop mx cs tot ws))"
  by (induction mx cs tot ws rule: evict_loop.induct) auto

lemma trim_loop_cut:
  "tot = length (concat cs) \<Longrightarrow> cut_of cs ws (trim_loop anchor cs tot ws)"
  by (induction anchor cs tot ws rule: trim_loop.induct) (auto intro: cut_of_refl cut_of_Cons)

lemma trim_loop_anchor:
  "ws \<le> anchor \<Longrightarrow> snd (snd (trim_loop anchor cs tot ws)) \<le> anchor
    \<and> (fst (trim_loop anchor cs tot ws) \<noteq> [] \<longrightarrow>
        anchor < snd (snd (trim_loop anchor cs tot ws)) + length (hd (fst (trim_loop anchor cs tot ws))))"
  by (induction anchor cs tot ws rule: trim_loop.induct) auto

lemma trim_loop_total: "fst (snd (trim_loop anchor cs tot ws)) \<le> tot"
  by (induction anchor cs tot ws rule: trim_loop.induct) (auto intro: le_trans)

lemma window_inv_cut:
  assumes "window_inv H r" and "cut_of (rb_chunks r) (rb_window_start_seq r) w"
  shows "window_inv H (set_window r w)"
proof -
  from assms(1) obtain old where old: "H = old @ rb_chunks r"
    "rb_window_start_seq r = length (concat old)" by (auto simp: window_inv_def)
  from assms(2) obtain mid where mid: "rb_chunks r = mid @ fst w"
    "snd (snd w) = rb_window_start_seq r + length (concat mid)"
    "fst (snd w) = length (concat (fst w))" by (auto simp: cut_of_def)
  have "H = (old @ mid) @ fst w" "snd (snd w) = length (concat (old @ mid))"
    using old mid by simp_all
  then have "\<exists>old. H = old @ fst w \<and> snd (snd w) = length (concat old)" by blast
  then show ?thesis
    using assms(1) mid(3) by (simp add: window_inv_def)
qed

lemma cut_not_past:
  assumes "cut_of cs ws w" and "cs \<noteq> [] \<Longrightarrow> anchor < ws + length (hd cs)"
    and "snd (snd w) \<le> anchor"
  shows "fst w = cs \<and> snd (snd w) = ws"
proof -
  from assms(1) obtain old where old: "cs = old @ fst w" "snd (snd w) = ws + length (concat old)"
    by (auto simp: cut_of_def)
  show ?thesis
  proof (cases old)
    case Nil
    with old show ?thesis by simp
  next
    case (Cons c rest)
    with old have "cs \<noteq> []" "ws + length (hd cs) \<le> snd (snd w)" by auto
    with assms(2,3) show ?thesis by linarith
  qed
qed

lemma buffer_inv_evict:
  assumes "window_inv H r" and "\<And>cp. rb_checkpoint r = Some cp \<Longrightarrow> checkpoint_ok r cp"
  shows "buffer_inv H (evict_front r)"
proof -
  let ?w = "evict_loop (rb_max_bytes r) (rb_chunks r) (rb_total_bytes r) (rb_window_start_seq r)"
  let ?r = "prune_geometry_marks (set_window r ?w)"
  have tot: "rb_total_bytes r = length (concat (rb_chunks r))"
    using assms(1) by (simp add: window_inv_def)
  note cut = evict_loop_cut [OF tot, of "rb_window_start_seq r" "rb_max_bytes r"]
  have win: "window_inv H ?r"
    using window_inv_cut [OF assms(1) cut] by (simp add: window_inv_def)
  have tot': "rb_total_bytes ?r \<le> rb_max_bytes ?r"
    using evict_loop_bound [OF tot] by (simp add: set_window_def)
  have ok: "checkpoint_ok ?r cp"
    if cp: "rb_checkpoint r = Some cp" and le: "rb_window_start_seq ?r \<le> cp_anchor_seq cp" for cp
  proof -
    have "rb_chunks r \<noteq> [] \<Longrightarrow> cp_anchor_seq cp < rb_window_start_seq r + length (hd (rb_chunks r))"
      using assms(2) [OF cp] by (simp add: checkpoint_ok_def)
    from cut_not_past [OF cut this] le have "fst ?w = rb_chunks r" "snd (snd ?w) = rb_window_start_seq r"
      by simp_all
    with assms(2) [OF cp] show ?thesis by (simp add: checkpoint_ok_def)
  qed
  have win': "window_inv H (?r\<lparr>rb_checkpoint := None\<rparr>)"
    using win by (simp add: window_inv_def)
  have cp: "rb_checkpoint ?r = rb_checkpoint r" by simp
  show ?thesis
  proof (cases "\<exists>cp. rb_checkpoint r = Some cp \<and> rb_window_start_seq ?r \<le> cp_anchor_seq cp")
    case True
    then have "evict_front r = ?r" by (auto simp: evict_front_def Let_def)
    with win tot' ok True show ?thesis unfolding buffer_inv_def by (metis cp option.inject)
  next
    case False
    then have "evict_front r = ?r\<lparr>rb_checkpoint := None\<rparr>
        \<or> rb_checkpoint r = None \<and> evict_front r = ?r"
      by (auto simp: evict_front_def Let_def split: option.split)
    with win win' tot' show ?thesis unfolding buffer_inv_def by fastforce
  qed
qed

lemma buffer_inv_push:
  assumes "buffer_inv H r"
  shows "buffer_inv (H @ (if d = [] then [] else [d])) (replay_push r d)"
proof (cases "d = []")
  case True
  with assms show ?thesis by (simp add: replay_push_def)
next
  case False
  let ?r = "(update_buffer_mode r d)\<lparr>rb_chunks := rb_chunks r @ [d],
    rb_total_bytes := rb_total_bytes r + length d, rb_pushed_seq := rb_pushed_seq r + length d\<rparr>"
  have win: "window_inv (H @ [d]) ?r"
    using assms False by (auto simp: buffer_inv_def window_inv_def update_buffer_mode_def)
  have "checkpoint_ok ?r cp" if "rb_checkpoint ?r = Some cp" for cp
  proof -
    from that assms have ok: "checkpoint_ok r cp"
      by (simp add: buffer_inv_def update_buffer_mode_def)
    have "rb_pushed_seq r = rb_window_start_seq r + length (concat (rb_chunks r))"
      using assms by (auto simp: buffer_inv_def window_inv_def)
    with ok False show ?thesis
      by (cases "rb_chunks r") (auto simp: checkpoint_ok_def update_buffer_mode_def)
  qed
  from buffer_inv_evict [OF win this] False show ?thesis
    by (simp add: replay_push_def Let_def update_buffer_mode_def)
qed

lemma buffer_inv_store:
  assumes "buffer_inv H r"
  shows "buffer_inv H (fst (store_checkpoint r cp))"
proof (cases "\<exists>a. snd (store_checkpoint r cp) = Accepted a")
  case False
  with assms show ?thesis
    by (auto simp: store_checkpoint_def Let_def split: if_splits option.splits)
next
  case True
  then have acc: "length (cp_snapshot_ansi cp) \<le> CHECKPOINT_SNAPSHOT_MAX_BYTES"
      "cp_epoch cp = rb_epoch r" "rb_window_start_seq r \<le> cp_anchor_seq cp"
      "cp_anchor_seq cp \<le> rb_pushed_seq r"
    and eq: "fst (store_checkpoint r cp)
      = trim_before_anchor (r\<lparr>rb_checkpoint := Some cp\<rparr>) (cp_anchor_seq cp)"
    by (auto simp: store_checkpoint_def Let_def CHECKPOINT_ANCHORING_ENABLED_def split: if_splits)
  let ?w = "trim_loop (cp_anchor_seq cp) (rb_chunks r) (rb_total_bytes r) (rb_window_start_seq r)"
  let ?r = "set_window (r\<lparr>rb_checkpoint := Some cp\<rparr>) ?w"
  have tot: "rb_total_bytes r = length (concat (rb_chunks r))"
    using assms by (simp add: buffer_inv_def window_inv_def)
  have "window_inv H (r\<lparr>rb_checkpoint := Some cp\<rparr>)"
    using assms by (simp add: buffer_inv_def window_inv_def)
  from window_inv_cut [OF this, of ?w] trim_loop_cut [OF tot] have win: "window_inv H ?r" by simp
  have ok: "checkpoint_ok ?r cp"
    using acc trim_loop_anchor [OF acc(3)] by (simp add: checkpoint_ok_def set_window_def)
  have "rb_total_bytes ?r \<le> rb_max_bytes ?r"
    using assms trim_loop_total [of "cp_anchor_seq cp" "rb_chunks r" "rb_total_bytes r"]
    by (auto simp: buffer_inv_def set_window_def intro: le_trans)
  with win ok have "buffer_inv H ?r" by (simp add: buffer_inv_def set_window_def)
  then show ?thesis
    unfolding eq trim_before_anchor_def
    by (simp add: buffer_inv_def window_inv_def checkpoint_ok_def)
qed

lemma buffer_inv_shrink:
  assumes "buffer_inv H r"
  shows "buffer_inv H (replay_shrink r n)"
  unfolding replay_shrink_def
proof (rule buffer_inv_evict)
  show "window_inv H (r\<lparr>rb_max_bytes := n\<rparr>)"
    using assms by (simp add: buffer_inv_def window_inv_def)
  show "checkpoint_ok (r\<lparr>rb_max_bytes := n\<rparr>) cp"
    if "rb_checkpoint (r\<lparr>rb_max_bytes := n\<rparr>) = Some cp" for cp
    using assms that by (simp add: buffer_inv_def checkpoint_ok_def)
qed

lemma buffer_inv_geometry: "buffer_inv H r \<Longrightarrow> buffer_inv H (record_geometry r c w)"
  unfolding buffer_inv_def window_inv_def checkpoint_ok_def record_geometry_sel .

lemma buffer_inv_step:
  assumes "buffer_inv (rh_chunks h) (rh_buf h)"
  shows "buffer_inv (rh_chunks (hist_step h op)) (rh_buf (hist_step h op))"
  by (cases op)
     (simp_all only: hist_step_def replay_hist.select_convs replay_step.simps pushed_chunks.simps
       append_Nil2 buffer_inv_push [OF assms] buffer_inv_shrink [OF assms]
       buffer_inv_store [OF assms] buffer_inv_geometry [OF assms])

section \<open>Sizes\<close>

text \<open>The size in force at a byte: the last mark at or before it.\<close>

definition size_at :: "geometry_mark list \<Rightarrow> nat \<Rightarrow> geometry option" where
  "size_at ms p =
    (let before = filter (\<lambda>m. gm_seq m \<le> p) ms
     in if before = [] then None else Some (gm_cols (last before), gm_rows (last before)))"

lemma size_at_Nil [simp]: "size_at [] p = None"
  by (simp add: size_at_def)

lemma size_at_snoc:
  "size_at (ms @ [m]) p = (if gm_seq m \<le> p then Some (gm_cols m, gm_rows m) else size_at ms p)"
  by (simp add: size_at_def Let_def)

definition marks_sorted :: "geometry_mark list \<Rightarrow> bool" where
  "marks_sorted ms \<longleftrightarrow> sorted_wrt (\<lambda>m n. gm_seq m < gm_seq n) ms"

definition sizes_differ :: "geometry_mark list \<Rightarrow> bool" where
  "sizes_differ ms \<longleftrightarrow> successively (\<lambda>m n. \<not> same_size m (gm_cols n) (gm_rows n)) ms"

definition mark_ok :: "string list \<Rightarrow> nat \<Rightarrow> geometry_mark \<Rightarrow> bool" where
  "mark_ok cs ws m \<longleftrightarrow> gm_seq m \<le> ws \<or> (\<exists>k. chunk_boundary cs k \<and> gm_seq m = ws + k)"

definition marks_ok :: "geometry_mark list \<Rightarrow> geometry_mark list \<Rightarrow> string list \<Rightarrow> nat \<Rightarrow> bool" where
  "marks_ok S ms cs ws \<longleftrightarrow>
    marks_sorted ms \<and> sizes_differ ms \<and> (\<forall>m \<in> set ms. mark_ok cs ws m)
    \<and> (\<forall>p \<ge> ws. size_at ms p = size_at S p)"

definition marks_inv :: "replay_hist \<Rightarrow> bool" where
  "marks_inv h \<longleftrightarrow> marks_ok (rh_sizes h) (rb_geometry_marks (rh_buf h)) (rb_chunks (rh_buf h))
    (rb_window_start_seq (rh_buf h))"

lemma takeWhile_sorted:
  "marks_sorted ms \<Longrightarrow> takeWhile (\<lambda>m. gm_seq m \<le> p) ms = filter (\<lambda>m. gm_seq m \<le> p) ms"
  unfolding marks_sorted_def
proof (induction ms)
  case (Cons a ms)
  then have "\<not> gm_seq a \<le> p \<Longrightarrow> filter (\<lambda>m. gm_seq m \<le> p) ms = []"
    by (auto simp: filter_empty_conv)
  with Cons show ?case by simp
qed simp

lemma marks_short [simp]:
  "marks_sorted []" "marks_sorted [m]" "sizes_differ []" "sizes_differ [m]"
  by (simp_all add: marks_sorted_def sizes_differ_def)

lemma size_at_single [simp]:
  "size_at [m] p = (if gm_seq m \<le> p then Some (gm_cols m, gm_rows m) else None)"
  by (simp add: size_at_def)

lemma marks_sorted_snoc:
  "marks_sorted (ms @ [m]) \<longleftrightarrow> marks_sorted ms \<and> (\<forall>n \<in> set ms. gm_seq n < gm_seq m)"
  by (auto simp: marks_sorted_def sorted_wrt_append)

lemma sizes_differ_snoc:
  "sizes_differ (ms @ [m]) \<longleftrightarrow>
    sizes_differ ms \<and> (ms \<noteq> [] \<longrightarrow> \<not> same_size (last ms) (gm_cols m) (gm_rows m))"
  by (auto simp: sizes_differ_def successively_append_iff)

lemma dedupe_snoc:
  "dedupe_last_geometry (ms @ [m]) =
    (if ms \<noteq> [] \<and> same_size (last ms) (gm_cols m) (gm_rows m) then ms else ms @ [m])"
proof (cases ms rule: rev_cases)
  case (snoc ys y)
  have "butlast (ys @ [y, m]) = ys @ [y]" by (simp add: butlast_append)
  with snoc show ?thesis by (simp add: dedupe_last_geometry_def Let_def nth_append)
qed (simp add: dedupe_last_geometry_def)

text \<open>What \<open>record_geometry\<close> does to the marks, whichever branch it takes.\<close>

lemma record_geometry_cases:
  fixes r :: replay_buffer
  assumes srt: "marks_sorted (rb_geometry_marks r)"
    and le: "\<forall>m \<in> set (rb_geometry_marks r). gm_seq m \<le> rb_pushed_seq r"
  obtains (same) "rb_geometry_marks r \<noteq> []" "same_size (last (rb_geometry_marks r)) c w"
      "rb_geometry_marks (record_geometry r c w) = rb_geometry_marks r"
  | (add) ms where
      "rb_geometry_marks r = ms \<or> (\<exists>m. rb_geometry_marks r = ms @ [m] \<and> gm_seq m = rb_pushed_seq r)"
      "\<forall>m \<in> set ms. gm_seq m < rb_pushed_seq r"
      "ms = [] \<or> \<not> same_size (last ms) c w"
      "rb_geometry_marks (record_geometry r c w)
        = ms @ [\<lparr>gm_seq = rb_pushed_seq r, gm_cols = c, gm_rows = w\<rparr>]"
  | (merge) ms m where "rb_geometry_marks r = ms @ [m]" "gm_seq m = rb_pushed_seq r"
      "\<forall>m \<in> set ms. gm_seq m < rb_pushed_seq r" "ms \<noteq> []" "same_size (last ms) c w"
      "rb_geometry_marks (record_geometry r c w) = ms"
proof (cases "rb_geometry_marks r" rule: rev_cases)
  case Nil
  then show ?thesis by (intro add [of "[]"]) (simp_all add: record_geometry_def)
next
  case (snoc ms m)
  show ?thesis
  proof (cases "same_size m c w")
    case True
    with snoc show ?thesis by (intro same) (simp_all add: record_geometry_def Let_def)
  next
    case diff: False
    show ?thesis
    proof (cases "gm_seq m = rb_pushed_seq r")
      case True
      have lt: "\<forall>n \<in> set ms. gm_seq n < rb_pushed_seq r"
        using srt snoc True by (simp add: marks_sorted_snoc)
      have upd: "m\<lparr>gm_cols := c, gm_rows := w\<rparr> = \<lparr>gm_seq = rb_pushed_seq r, gm_cols = c, gm_rows = w\<rparr>"
        using True by (cases m) simp
      have "rb_geometry_marks (record_geometry r c w) = dedupe_last_geometry
          (ms @ [\<lparr>gm_seq = rb_pushed_seq r, gm_cols = c, gm_rows = w\<rparr>])"
        using snoc diff True by (simp add: record_geometry_def Let_def upd)
      then show ?thesis
        using snoc True lt by (cases "ms \<noteq> [] \<and> same_size (last ms) c w")
          (auto simp: dedupe_snoc intro: merge add)
    next
      case False
      have lt: "\<forall>n \<in> set (rb_geometry_marks r). gm_seq n < rb_pushed_seq r"
        using srt le snoc False by (auto simp: marks_sorted_snoc dest: order.strict_trans2)
      have nd: "rb_geometry_marks r = [] \<or> \<not> same_size (last (rb_geometry_marks r)) c w"
        using snoc diff by simp
      have "rb_geometry_marks (record_geometry r c w) = rb_geometry_marks r
          @ [\<lparr>gm_seq = rb_pushed_seq r, gm_cols = c, gm_rows = w\<rparr>]"
        using snoc diff False by (simp add: record_geometry_def Let_def)
      from add [OF disjI1 [OF refl] lt nd this] show ?thesis .
    qed
  qed
qed

lemma window_pushed:
  "window_inv H r \<Longrightarrow> rb_pushed_seq r = rb_window_start_seq r + length (concat (rb_chunks r))"
  by (auto simp: window_inv_def)

lemma chunk_boundary_end: "chunk_boundary cs (length (concat cs))"
  unfolding chunk_boundary_def by (rule exI [of _ cs]) simp

lemma mark_ok_pushed:
  "window_inv H r \<Longrightarrow> mark_ok (rb_chunks r) (rb_window_start_seq r) m \<Longrightarrow> gm_seq m \<le> rb_pushed_seq r"
  by (auto simp: window_inv_def mark_ok_def chunk_boundary_def)

lemma marks_inv_geometry:
  assumes win: "window_inv (rh_chunks h) (rh_buf h)" and inv: "marks_inv h"
  shows "marks_inv (hist_step h (RGeometry c w))"
proof -
  let ?r = "rh_buf h" and ?ws = "rb_window_start_seq (rh_buf h)"
  let ?ms = "rb_geometry_marks (record_geometry ?r c w)"
  let ?new = "\<lparr>gm_seq = rb_pushed_seq ?r, gm_cols = c, gm_rows = w\<rparr>"
  have srt: "marks_sorted (rb_geometry_marks ?r)" and diff: "sizes_differ (rb_geometry_marks ?r)"
    and ok: "\<And>m. m \<in> set (rb_geometry_marks ?r) \<Longrightarrow> mark_ok (rb_chunks ?r) ?ws m"
    and at: "\<And>p. ?ws \<le> p \<Longrightarrow> size_at (rb_geometry_marks ?r) p = size_at (rh_sizes h) p"
    using inv by (auto simp: marks_inv_def marks_ok_def)
  have le: "\<forall>m \<in> set (rb_geometry_marks ?r). gm_seq m \<le> rb_pushed_seq ?r"
    using ok mark_ok_pushed [OF win] by blast
  have new_ok: "mark_ok (rb_chunks ?r) ?ws ?new"
    using window_pushed [OF win] chunk_boundary_end by (auto simp: mark_ok_def)
  have len: "length (concat (rh_chunks h)) = rb_pushed_seq ?r"
    using win by (simp add: window_inv_def)
  have goal: "marks_sorted ?ms \<and> sizes_differ ?ms \<and> (\<forall>m \<in> set ?ms. mark_ok (rb_chunks ?r) ?ws m)
      \<and> (\<forall>p. size_at ?ms p = (if rb_pushed_seq ?r \<le> p then Some (c, w)
                            else size_at (rb_geometry_marks ?r) p))"
    using srt le
  proof (cases rule: record_geometry_cases [where c = c and w = w])
    case same
    then obtain ms m where m: "rb_geometry_marks ?r = ms @ [m]" by (cases "rb_geometry_marks ?r" rule: rev_cases) auto
    from same le m srt diff ok show ?thesis by (auto simp: size_at_snoc same_size_def)
  next
    case (add ms)
    then show ?thesis
      using srt diff ok new_ok
      by (auto simp: marks_sorted_snoc sizes_differ_snoc size_at_snoc)
  next
    case (merge ms m)
    then have "marks_sorted ms" "sizes_differ ms"
      and at_ms: "\<And>p. size_at (rb_geometry_marks ?r) p
        = (if gm_seq m \<le> p then Some (gm_cols m, gm_rows m) else size_at ms p)"
      using srt diff by (simp_all add: marks_sorted_snoc sizes_differ_snoc size_at_snoc)
    moreover have "size_at ms p = Some (c, w)" if "rb_pushed_seq ?r \<le> p" for p
      using merge that by (cases ms rule: rev_cases) (auto simp: size_at_snoc same_size_def)
    ultimately show ?thesis using merge ok by (auto simp: at_ms)
  qed
  then show ?thesis
    using at len unfolding marks_inv_def marks_ok_def hist_step_def
    by (simp add: size_at_snoc)
qed

lemma chunk_boundary_drop:
  assumes "chunk_boundary (old @ cs) k" and "length (concat old) < k"
  shows "chunk_boundary cs (k - length (concat old))"
proof -
  from assms(1) obtain xs ys where xs: "old @ cs = xs @ ys" "k = length (concat xs)"
    by (auto simp: chunk_boundary_def)
  with assms(2) obtain us where "xs = old @ us" "us @ ys = cs"
    by (auto simp: append_eq_append_conv2)
  then show ?thesis using xs(2) by (auto simp: chunk_boundary_def)
qed

lemma mark_ok_cut:
  assumes "mark_ok cs ws m" and "cut_of cs ws w"
  shows "mark_ok (fst w) (snd (snd w)) m"
proof -
  from assms(2) obtain old where old: "cs = old @ fst w" "snd (snd w) = ws + length (concat old)"
    by (auto simp: cut_of_def)
  show ?thesis
  proof (cases "gm_seq m \<le> snd (snd w)")
    case False
    with assms(1) old obtain k where k: "chunk_boundary (old @ fst w) k" "gm_seq m = ws + k"
      by (auto simp: mark_ok_def)
    with False old have "length (concat old) < k" by simp
    from chunk_boundary_drop [OF k(1) this] this k(2) old(2) show ?thesis
      unfolding mark_ok_def by (metis add.assoc le_add_diff_inverse less_imp_le_nat)
  qed (simp add: mark_ok_def)
qed

lemma prune_size_at: "ws \<le> p \<Longrightarrow> size_at (prune_marks ws ms) p = size_at ms p"
  by (induction ws ms rule: prune_marks.induct) (auto simp: size_at_def Let_def split: if_splits)

lemma prune_suffix: "\<exists>pre. ms = pre @ prune_marks ws ms"
proof (induction ws ms rule: prune_marks.induct)
  case (1 ws m n ms)
  then show ?case by (cases "gm_seq n \<le> ws") (auto intro: exI [of _ "m # _"])
qed simp_all

lemma marks_ok_cut:
  assumes "marks_ok S ms cs ws" and "cut_of cs ws w"
  shows "marks_ok S (prune_marks (snd (snd w)) ms) (fst w) (snd (snd w))"
proof -
  obtain pre ys where ys: "prune_marks (snd (snd w)) ms = ys" and pre: "ms = pre @ ys"
    using prune_suffix by blast
  have "marks_sorted ys" "sizes_differ ys"
    using assms(1) by (auto simp: pre marks_ok_def marks_sorted_def sizes_differ_def
        sorted_wrt_append successively_append_iff)
  moreover have "\<forall>m \<in> set ys. mark_ok (fst w) (snd (snd w)) m"
    using assms by (auto simp: pre marks_ok_def intro: mark_ok_cut)
  moreover have "ws \<le> snd (snd w)" using assms(2) by (auto simp: cut_of_def)
  then have "size_at ys p = size_at S p" if "snd (snd w) \<le> p" for p
    using assms(1) that prune_size_at [of "snd (snd w)" p ms] by (simp add: marks_ok_def ys)
  ultimately show ?thesis by (simp add: marks_ok_def ys)
qed

lemma marks_ok_push: "marks_ok S ms cs ws \<Longrightarrow> marks_ok S ms (cs @ [d]) ws"
  unfolding marks_ok_def mark_ok_def chunk_boundary_def by (metis append.assoc)

lemma marks_ok_evict:
  assumes "marks_ok S (rb_geometry_marks r) (rb_chunks r) (rb_window_start_seq r)"
    and "rb_total_bytes r = length (concat (rb_chunks r))"
  shows "marks_ok S (rb_geometry_marks (evict_front r)) (rb_chunks (evict_front r))
    (rb_window_start_seq (evict_front r))"
  using marks_ok_cut [OF assms(1) evict_loop_cut [OF assms(2), of _ "rb_max_bytes r"]]
  by (simp add: evict_front_def Let_def prune_geometry_marks_def set_window_def split: option.split)

lemma marks_inv_step:
  assumes inv: "buffer_inv (rh_chunks h) (rh_buf h)" and marks: "marks_inv h"
  shows "marks_inv (hist_step h op)"
proof (cases op)
  case (RPush d)
  show ?thesis
  proof (cases "d = []")
    case True
    with RPush marks show ?thesis by (simp add: hist_step_def marks_inv_def replay_push_def)
  next
    case False
    with RPush marks inv show ?thesis
      by (auto simp: hist_step_def marks_inv_def replay_push_def Let_def update_buffer_mode_def
          buffer_inv_def window_inv_def intro!: marks_ok_evict marks_ok_push)
  qed
next
  case (RShrink n)
  with marks inv show ?thesis
    by (auto simp: hist_step_def marks_inv_def replay_shrink_def buffer_inv_def window_inv_def
        intro!: marks_ok_evict)
next
  case (RGeometry c w)
  with marks inv show ?thesis by (simp add: marks_inv_geometry buffer_inv_def)
next
  case (RStore cp)
  have tot: "rb_total_bytes (rh_buf h) = length (concat (rb_chunks (rh_buf h)))"
    using inv by (simp add: buffer_inv_def window_inv_def)
  from marks_ok_cut [OF marks [unfolded marks_inv_def] trim_loop_cut [OF tot]] RStore marks
  show ?thesis
    by (simp add: hist_step_def marks_inv_def store_checkpoint_def Let_def trim_before_anchor_def
        prune_geometry_marks_def)
qed

interpretation replay: inv_machine hist_step
  "\<lambda>h. buffer_inv (rh_chunks h) (rh_buf h) \<and> marks_inv h"
  by unfold_locales (use buffer_inv_step marks_inv_step in blast)

lemma hist_init_good:
  "buffer_inv (rh_chunks (hist_init e mx)) (rh_buf (hist_init e mx)) \<and> marks_inv (hist_init e mx)"
  by (simp add: hist_init_def replay_new_def buffer_inv_def window_inv_def marks_inv_def marks_ok_def)

end
