(* ===== verification/Replay_Recovery.thy ===== *)
theory Replay_Recovery
  imports Replay_Props
begin

text \<open>
  What the replay buffer promises to a client that rebuilds its screen: the bytes and the sizes
  of the recovery snapshot, the progress of the accepted checkpoints, and the epoch that tells
  buffer generations apart.
\<close>

section \<open>Bytes\<close>

lemma concat_chunks_from_all: "anchor \<le> sq \<Longrightarrow> concat_chunks_from anchor sq cs = concat cs"
  by (induction cs arbitrary: sq) (simp_all add: Let_def)

lemma concat_chunks_from_window:
  "(cs \<noteq> [] \<Longrightarrow> anchor < sq + length (hd cs)) \<Longrightarrow> concat_chunks_from anchor sq cs = concat cs"
  by (cases cs) (simp_all add: Let_def concat_chunks_from_all)

lemma window_drop:
  "window_inv H r \<Longrightarrow> concat (rb_chunks r) = drop (rb_window_start_seq r) (concat H)"
  by (auto simp: window_inv_def)

lemma valid_checkpoint_inv:
  "buffer_inv H r \<Longrightarrow> valid_checkpoint r = rb_checkpoint r"
  by (auto simp: valid_checkpoint_def buffer_inv_def checkpoint_ok_def split: option.split)

lemma recovery_delta:
  assumes "buffer_inv H r"
  shows "rec_delta (recovery_snapshot_of r) = concat (rb_chunks r)"
proof (cases "rb_checkpoint r")
  case None
  then show ?thesis
    by (simp add: recovery_snapshot_of_def valid_checkpoint_inv [OF assms] replay_snapshot_of_def
        Let_def case_prod_beta)
next
  case (Some cp)
  then have "concat_chunks_from (cp_anchor_seq cp) (rb_window_start_seq r) (rb_chunks r)
      = concat (rb_chunks r)"
    using assms by (intro concat_chunks_from_window) (simp add: buffer_inv_def checkpoint_ok_def)
  with Some show ?thesis
    by (simp add: recovery_snapshot_of_def valid_checkpoint_inv [OF assms] case_prod_beta)
qed

lemma recovery_rest:
  "buffer_inv H r \<Longrightarrow> rec_checkpoint (recovery_snapshot_of r) = rb_checkpoint r"
  "rec_end_seq (recovery_snapshot_of r) = rb_pushed_seq r"
  "rec_checkpoint_epoch (recovery_snapshot_of r) = rb_epoch r"
  by (auto simp: recovery_snapshot_of_def valid_checkpoint_inv case_prod_beta split: option.split)

lemma boundary_is_start:
  assumes "window_inv H r" and "chunk_boundary H a" and "rb_window_start_seq r \<le> a"
    and "rb_chunks r \<noteq> [] \<Longrightarrow> a < rb_window_start_seq r + length (hd (rb_chunks r))"
    and "a \<le> rb_pushed_seq r"
  shows "a = rb_window_start_seq r"
proof -
  from assms(1) obtain old where old: "H = old @ rb_chunks r"
    "rb_window_start_seq r = length (concat old)" by (auto simp: window_inv_def)
  show ?thesis
  proof (cases "a = rb_window_start_seq r")
    case False
    with assms(3) old(2) have gt: "length (concat old) < a" by simp
    from assms(2) old(1) have "chunk_boundary (old @ rb_chunks r) a" by simp
    from chunk_boundary_drop [OF this gt] obtain xs ys where
      xs: "rb_chunks r = xs @ ys" "a - length (concat old) = length (concat xs)"
      by (auto simp: chunk_boundary_def)
    then have "xs \<noteq> []" using gt by auto
    then have "rb_chunks r \<noteq> []" "length (hd (rb_chunks r)) \<le> length (concat xs)"
      using xs(1) by (cases xs; simp)+
    with assms(4) xs(2) gt old(2) show ?thesis by linarith
  qed simp
qed

lemma anchor_is_start:
  assumes "buffer_inv H r" and "rb_checkpoint r = Some cp" and "chunk_boundary H (cp_anchor_seq cp)"
  shows "cp_anchor_seq cp = rb_window_start_seq r"
proof -
  from assms(1,2) have win: "window_inv H r" and ok: "checkpoint_ok r cp"
    by (auto simp: buffer_inv_def)
  from ok show ?thesis
    by (intro boundary_is_start [OF win assms(3)]) (simp_all add: checkpoint_ok_def)
qed

text \<open>
  Property C5. Recovery loses nothing. After any pushes, shrinks, uploads and resizes the delta
  of the recovery snapshot is the whole output from the start of the window on, within the
  byte limit, and ends where the snapshot says. A checkpoint that is returned belongs to this
  buffer, and the window starts at or before its anchor, so no byte after the anchor is
  missing; with an anchor on a chunk boundary it starts exactly there, so none is repeated.
\<close>

theorem recovery_is_gapless:
  "let h = foldl hist_step (hist_init e mx) ops;
       S = recovery_snapshot_of (rh_buf h)
   in rec_delta S = drop (rb_window_start_seq (rh_buf h)) (rh_log h)
    \<and> rec_end_seq S = length (rh_log h)
    \<and> length (rec_delta S) \<le> rb_max_bytes (rh_buf h)
    \<and> (case rec_checkpoint S of
         None \<Rightarrow> True
       | Some cp \<Rightarrow> cp_epoch cp = rec_checkpoint_epoch S
           \<and> rb_window_start_seq (rh_buf h) \<le> cp_anchor_seq cp
           \<and> cp_anchor_seq cp \<le> rec_end_seq S
           \<and> \<not> (chunk_boundary (rh_chunks h) (cp_anchor_seq cp)
                \<and> rec_delta S \<noteq> drop (cp_anchor_seq cp) (rh_log h)))"
proof -
  define h where "h = foldl hist_step (hist_init e mx) ops"
  define S where "S = recovery_snapshot_of (rh_buf h)"
  have inv: "buffer_inv (rh_chunks h) (rh_buf h)"
    unfolding h_def using replay.fold_good [OF hist_init_good] by blast
  then have win: "window_inv (rh_chunks h) (rh_buf h)"
    and tot: "rb_total_bytes (rh_buf h) \<le> rb_max_bytes (rh_buf h)"
    and cp: "\<And>cp. rb_checkpoint (rh_buf h) = Some cp \<Longrightarrow> checkpoint_ok (rh_buf h) cp"
    by (auto simp: buffer_inv_def)
  have delta: "rec_delta S = drop (rb_window_start_seq (rh_buf h)) (rh_log h)"
    unfolding S_def rh_log_def by (simp only: recovery_delta [OF inv] window_drop [OF win])
  have end_seq: "rec_end_seq S = length (rh_log h)"
    using win by (simp add: S_def recovery_rest rh_log_def window_inv_def)
  have "length (rec_delta S) \<le> rb_max_bytes (rh_buf h)"
    using win tot by (simp add: S_def recovery_delta [OF inv] window_inv_def)
  moreover have "\<not> (chunk_boundary (rh_chunks h) (cp_anchor_seq c)
      \<and> rec_delta S \<noteq> drop (cp_anchor_seq c) (rh_log h))"
    if "rb_checkpoint (rh_buf h) = Some c" for c
    using anchor_is_start [OF inv that] delta by auto
  ultimately show ?thesis
    unfolding Let_def h_def [symmetric] S_def [symmetric]
    using delta end_seq cp
    by (auto simp: S_def recovery_rest(1) [OF inv] recovery_rest(2,3) checkpoint_ok_def
        split: option.split)
qed

text \<open>
  The old snapshot endpoint and the structured one agree: its data is the
  returned photo (if any) followed by the delta.
\<close>

theorem legacy_snapshot_agrees:
  "rs_data (replay_snapshot_of (rh_buf (foldl hist_step (hist_init e mx) ops))) =
    (case rec_checkpoint (recovery_snapshot_of (rh_buf (foldl hist_step (hist_init e mx) ops))) of
       None \<Rightarrow> [] | Some cp \<Rightarrow> cp_snapshot_ansi cp)
    @ rec_delta (recovery_snapshot_of (rh_buf (foldl hist_step (hist_init e mx) ops)))"
proof -
  have inv: "buffer_inv (rh_chunks (foldl hist_step (hist_init e mx) ops))
      (rh_buf (foldl hist_step (hist_init e mx) ops))"
    using replay.fold_good [OF hist_init_good] by blast
  show ?thesis
    by (simp add: replay_snapshot_of_def Let_def CHECKPOINT_ANCHORING_ENABLED_def
        valid_checkpoint_inv [OF inv] recovery_delta [OF inv] recovery_rest(1) [OF inv])
qed

section \<open>Sizes\<close>

lemma resize_loop_window:
  assumes "start \<le> sq" and "marks_sorted ms" and "[] \<notin> set cs"
    and "\<And>m. m \<in> set ms \<Longrightarrow> \<exists>k. chunk_boundary cs k \<and> gm_seq m = sq + k"
  shows "resize_loop start ms sq offset cs
    = map (\<lambda>m. resize_at (offset + utf16_len (take (gm_seq m - sq) (concat cs))) m) ms"
  using assms
proof (induction cs arbitrary: ms sq offset)
  case Nil
  then show ?case by (simp add: chunk_boundary_def)
next
  case (Cons c cs)
  let ?P = "\<lambda>m. gm_seq m \<le> sq"
  let ?late = "dropWhile ?P ms"
  have split: "ms = takeWhile ?P ms @ ?late" by simp
  have early: "gm_seq m = sq" if "m \<in> set (takeWhile ?P ms)" for m
    using Cons.prems(4) [of m] that by (auto dest!: set_takeWhileD)
  have srt: "marks_sorted ?late"
    using Cons.prems(2) split unfolding marks_sorted_def by (metis sorted_wrt_append)
  have gt: "sq < gm_seq m" if "m \<in> set ?late" for m
  proof -
    from that obtain a as where late: "?late = a # as" by (cases ?late) auto
    then have "\<not> gm_seq a \<le> sq" by (metis dropWhile_eq_Cons_conv)
    with srt late that show ?thesis by (auto simp: marks_sorted_def)
  qed
  have bound: "\<exists>k. chunk_boundary cs k \<and> gm_seq m = sq + length c + k" if m: "m \<in> set ?late" for m
  proof -
    from m Cons.prems(4) obtain k where k: "chunk_boundary (c # cs) k" "gm_seq m = sq + k"
      by (meson set_dropWhileD)
    then obtain xs ys where xs: "c # cs = xs @ ys" "k = length (concat xs)"
      by (auto simp: chunk_boundary_def)
    moreover have "xs \<noteq> []" using gt [OF m] k(2) xs(2) by auto
    ultimately obtain zs where "cs = zs @ ys" "k = length c + length (concat zs)"
      by (cases xs) auto
    with k(2) show ?thesis by (auto simp: chunk_boundary_def)
  qed
  have "resize_loop start ?late (sq + length c) (offset + utf16_len c) cs
      = map (\<lambda>m. resize_at (offset + utf16_len c
          + utf16_len (take (gm_seq m - (sq + length c)) (concat cs))) m) ?late"
    by (rule Cons.IH) (use Cons.prems srt bound in auto)
  also have "\<dots> = map (\<lambda>m. resize_at (offset + utf16_len (take (gm_seq m - sq) (concat (c # cs)))) m) ?late"
  proof (rule map_cong [OF refl])
    fix m assume "m \<in> set ?late"
    from bound [OF this] obtain k where "gm_seq m = sq + length c + k" by blast
    then show "resize_at (offset + utf16_len c
          + utf16_len (take (gm_seq m - (sq + length c)) (concat cs))) m
        = resize_at (offset + utf16_len (take (gm_seq m - sq) (concat (c # cs)))) m"
      by (simp add: add.assoc)
  qed
  finally have late: "resize_loop start ?late (sq + length c) (offset + utf16_len c) cs = \<dots>" .
  have "map (resize_at offset) (takeWhile ?P ms)
      = map (\<lambda>m. resize_at (offset + utf16_len (take (gm_seq m - sq) (concat (c # cs)))) m) (takeWhile ?P ms)"
    using early by (intro map_cong refl) simp
  with late Cons.prems(1) show ?case
    by (simp only: resize_loop.simps if_True map_append [symmetric] takeWhile_dropWhile_id)
qed

lemma size_at_late:
  assumes "marks_sorted ms" and "ws \<le> p"
  shows "size_at ms p = (case size_at (filter (\<lambda>m. ws < gm_seq m) ms) p of
      Some z \<Rightarrow> Some z | None \<Rightarrow> size_at ms ws)"
  using assms(1)
proof (induction ms rule: rev_induct)
  case (snoc m ms)
  then have srt: "marks_sorted ms" and lt: "\<And>n. n \<in> set ms \<Longrightarrow> gm_seq n < gm_seq m"
    by (auto simp: marks_sorted_snoc)
  show ?case
  proof (cases "ws < gm_seq m")
    case True
    then have "size_at (ms @ [m]) ws = size_at ms ws" by (simp add: size_at_snoc)
    with snoc.IH [OF srt] True show ?thesis by (simp add: size_at_snoc split: option.split)
  next
    case False
    then have "filter (\<lambda>m. ws < gm_seq m) ms = []" using lt by (force simp: filter_empty_conv)
    with False assms(2) show ?thesis by (simp add: size_at_snoc)
  qed
qed simp

lemma delta_geometry_window:
  assumes "window_inv H r" and "marks_ok S (rb_geometry_marks r) (rb_chunks r) (rb_window_start_seq r)"
  shows "delta_geometry_from r (rb_window_start_seq r) =
    (size_at S (rb_window_start_seq r),
     map (\<lambda>m. resize_at (utf16_len (take (gm_seq m - rb_window_start_seq r) (concat (rb_chunks r)))) m)
       (filter (\<lambda>m. rb_window_start_seq r < gm_seq m) (rb_geometry_marks r)))"
proof -
  let ?ws = "rb_window_start_seq r" and ?ms = "rb_geometry_marks r"
  let ?late = "filter (\<lambda>m. ?ws < gm_seq m) ?ms"
  have srt: "marks_sorted ?ms" and ok: "\<And>m. m \<in> set ?ms \<Longrightarrow> mark_ok (rb_chunks r) ?ws m"
    and at: "size_at ?ms ?ws = size_at S ?ws"
    using assms(2) by (auto simp: marks_ok_def)
  have "resize_loop ?ws ?late ?ws 0 (rb_chunks r)
      = map (\<lambda>m. resize_at (0 + utf16_len (take (gm_seq m - ?ws) (concat (rb_chunks r)))) m) ?late"
  proof (rule resize_loop_window)
    show "marks_sorted ?late" using srt by (simp add: marks_sorted_def sorted_wrt_filter)
    show "[] \<notin> set (rb_chunks r)" using assms(1) by (auto simp: window_inv_def)
    show "\<exists>k. chunk_boundary (rb_chunks r) k \<and> gm_seq m = ?ws + k" if "m \<in> set ?late" for m
      using ok [of m] that by (auto simp: mark_ok_def)
  qed simp
  with at show ?thesis
    by (simp add: delta_geometry_from_def takeWhile_sorted [OF srt] size_at_def Let_def)
qed

text \<open>The client anchors its photos at coordinates it was sent, which end chunks.\<close>

definition anchored :: "replay_hist \<Rightarrow> bool" where
  "anchored h = (case rb_checkpoint (rh_buf h) of
     None \<Rightarrow> True | Some cp \<Rightarrow> chunk_boundary (rh_chunks h) (cp_anchor_seq cp))"

text \<open>
  The sizes of the recovery snapshot replay the terminal's size history. If the
  anchor of the checkpoint is on a chunk boundary, the delta starts with the size in force at
  its first byte, and its resizes are marks in increasing order, each on a chunk boundary inside
  the delta and placed at the UTF-16 length of the bytes before it; at every byte of the delta
  the last of them (or the starting size) is the size the terminal had there.
\<close>

theorem recovery_replays_sizes:
  assumes "anchored (foldl hist_step (hist_init e mx) ops)"
  shows "let h = foldl hist_step (hist_init e mx) ops;
       ws = rb_window_start_seq (rh_buf h);
       S = recovery_snapshot_of (rh_buf h)
   in \<exists>ms. rec_delta_resizes S
        = map (\<lambda>m. resize_at (utf16_len (take (gm_seq m - ws) (rec_delta S))) m) ms
      \<and> marks_sorted ms
      \<and> (\<forall>m \<in> set ms. ws < gm_seq m \<and> chunk_boundary (rb_chunks (rh_buf h)) (gm_seq m - ws))
      \<and> (\<forall>p \<ge> ws. size_at (rh_sizes h) p =
            (case size_at ms p of Some z \<Rightarrow> Some z | None \<Rightarrow> rec_delta_geometry S))"
proof -
  define h where "h = foldl hist_step (hist_init e mx) ops"
  let ?r = "rh_buf h" and ?ws = "rb_window_start_seq (rh_buf h)"
  let ?ms = "filter (\<lambda>m. ?ws < gm_seq m) (rb_geometry_marks ?r)"
  have inv: "buffer_inv (rh_chunks h) ?r" and mi: "marks_inv h"
    unfolding h_def using replay.fold_good [OF hist_init_good] by blast+
  then have win: "window_inv (rh_chunks h) ?r" by (simp add: buffer_inv_def)
  from mi have ok: "marks_ok (rh_sizes h) (rb_geometry_marks ?r) (rb_chunks ?r) ?ws"
    by (simp add: marks_inv_def)
  have start: "cp_anchor_seq c = ?ws" if "rb_checkpoint ?r = Some c" for c
    using anchor_is_start [OF inv that] assms that by (simp add: h_def [symmetric] anchored_def)
  have "(rec_delta_geometry (recovery_snapshot_of ?r), rec_delta_resizes (recovery_snapshot_of ?r))
      = delta_geometry_from ?r ?ws"
    using start by (auto simp: recovery_snapshot_of_def valid_checkpoint_inv [OF inv] Let_def
        case_prod_beta split: option.split)
  with delta_geometry_window [OF win ok] have
    geo: "rec_delta_geometry (recovery_snapshot_of ?r) = size_at (rh_sizes h) ?ws"
    and res: "rec_delta_resizes (recovery_snapshot_of ?r)
      = map (\<lambda>m. resize_at (utf16_len (take (gm_seq m - ?ws) (rec_delta (recovery_snapshot_of ?r)))) m) ?ms"
    by (simp_all add: recovery_delta [OF inv])
  have srt: "marks_sorted (rb_geometry_marks ?r)" using ok by (simp add: marks_ok_def)
  have "marks_sorted ?ms" using srt by (simp add: marks_sorted_def sorted_wrt_filter)
  moreover have "\<forall>m \<in> set ?ms. ?ws < gm_seq m \<and> chunk_boundary (rb_chunks ?r) (gm_seq m - ?ws)"
    using ok by (auto simp: marks_ok_def mark_ok_def)
  moreover have "size_at (rh_sizes h) p =
      (case size_at ?ms p of Some z \<Rightarrow> Some z | None \<Rightarrow> rec_delta_geometry (recovery_snapshot_of ?r))"
    if "?ws \<le> p" for p
  proof -
    have at: "size_at (rb_geometry_marks ?r) q = size_at (rh_sizes h) q" if "?ws \<le> q" for q
      using ok that by (simp add: marks_ok_def)
    from size_at_late [OF srt that] show ?thesis unfolding at [OF that] at [OF order.refl] geo .
  qed
  ultimately show ?thesis
    unfolding Let_def h_def [symmetric] using res by blast
qed

definition resized_run :: "replay_op list" where
  "resized_run = [RGeometry 80 24, RPush ''ab'', RGeometry 120 30, RPush ''cd'', RShrink 2]"

theorem recovery_replays_sizes_witness:
  "rec_delta_geometry (recovery_snapshot_of (rh_buf (foldl hist_step (hist_init 1 9) resized_run)))
      = Some (120, 30)
   \<and> (\<exists>ms. rec_delta_resizes (recovery_snapshot_of (rh_buf (foldl hist_step (hist_init 1 9) resized_run)))
        = map (resize_at 0) ms)"
proof -
  let ?h = "foldl hist_step (hist_init 1 9) resized_run"
  have h: "?h = \<lparr>rh_chunks = [''ab'', ''cd''],
      rh_sizes = [\<lparr>gm_seq = 0, gm_cols = 80, gm_rows = 24\<rparr>, \<lparr>gm_seq = 2, gm_cols = 120, gm_rows = 30\<rparr>],
      rh_buf = \<lparr>rb_chunks = [''cd''], rb_total_bytes = 2, rb_max_bytes = 2, rb_buffer_mode = ModeNormal,
        rb_epoch = 1, rb_pushed_seq = 4, rb_window_start_seq = 2, rb_checkpoint = None,
        rb_geometry_marks = [\<lparr>gm_seq = 2, gm_cols = 120, gm_rows = 30\<rparr>]\<rparr>\<rparr>"
    by (simp add: resized_run_def hist_init_def hist_step_def replay_new_def record_geometry_def
        replay_push_def replay_shrink_def evict_front_def set_window_def prune_geometry_marks_def
        update_buffer_mode_def mode_loop.simps same_size_def Let_def)
  have a: "anchored ?h" by (simp add: h anchored_def)
  have d: "rec_delta (recovery_snapshot_of (rh_buf ?h)) = ''cd''"
    by (simp add: h recovery_snapshot_of_def valid_checkpoint_def replay_snapshot_of_def Let_def
        case_prod_beta)
  have g: "rec_delta_geometry (recovery_snapshot_of (rh_buf ?h)) = Some (120, 30)"
    by (simp add: h recovery_snapshot_of_def valid_checkpoint_def delta_geometry_from_def Let_def
        case_prod_beta)
  from recovery_replays_sizes [OF a] obtain ms where
    res: "rec_delta_resizes (recovery_snapshot_of (rh_buf ?h))
      = map (\<lambda>m. resize_at (utf16_len (take (gm_seq m - 2) ''cd'')) m) ms"
    by (auto simp: Let_def h d [unfolded h, simplified])
  have "rec_delta_resizes (recovery_snapshot_of (rh_buf ?h)) = []"
    by (simp add: h recovery_snapshot_of_def valid_checkpoint_def delta_geometry_from_def Let_def
        case_prod_beta)
  with res g show ?thesis by auto
qed

section \<open>Progress of the checkpoints\<close>

text \<open>The anchors a run of operations accepts, in order.\<close>

fun accepted_anchors :: "replay_buffer \<Rightarrow> replay_op list \<Rightarrow> nat list" where
  "accepted_anchors r [] = []"
| "accepted_anchors r (RStore cp # ops) =
    (case store_checkpoint r cp of
       (r', Accepted a) \<Rightarrow> a # accepted_anchors r' ops
     | (r', _) \<Rightarrow> accepted_anchors r' ops)"
| "accepted_anchors r (op # ops) = accepted_anchors (replay_step r op) ops"

text \<open>Every anchor below \<open>a\<close> would be refused: by the current photo or by the window.\<close>

definition anchor_barred :: "replay_buffer \<Rightarrow> nat \<Rightarrow> bool" where
  "anchor_barred r a \<longleftrightarrow>
    (case rb_checkpoint r of Some cp \<Rightarrow> a \<le> cp_anchor_seq cp | None \<Rightarrow> a < rb_window_start_seq r)"

lemma anchor_barred_evict:
  "anchor_barred r a \<Longrightarrow> anchor_barred (evict_front r) a"
  using evict_loop_ws [of "rb_window_start_seq r" "rb_max_bytes r" "rb_chunks r" "rb_total_bytes r"]
  by (auto simp: anchor_barred_def evict_front_def Let_def split: option.splits)

lemma anchor_barred_step:
  assumes "anchor_barred r a" and "\<And>cp. op \<noteq> RStore cp"
  shows "anchor_barred (replay_step r op) a"
proof (cases op)
  case (RPush d)
  have "anchor_barred ((update_buffer_mode r d)\<lparr>rb_chunks := cs, rb_total_bytes := n,
      rb_pushed_seq := k\<rparr>) a" for cs n k
    using assms(1) by (simp add: anchor_barred_def update_buffer_mode_def split: option.splits)
  with RPush assms(1) show ?thesis by (simp add: replay_push_def Let_def anchor_barred_evict)
next
  case (RShrink n)
  have "anchor_barred (r\<lparr>rb_max_bytes := n\<rparr>) a"
    using assms(1) by (simp add: anchor_barred_def split: option.splits)
  with RShrink show ?thesis by (simp add: replay_shrink_def anchor_barred_evict)
next
  case (RGeometry c w)
  with assms(1) show ?thesis by (simp add: anchor_barred_def split: option.splits)
qed (use assms(2) in simp)

lemma store_accepts:
  assumes "store_checkpoint r cp = (r', out)"
  shows "(out = Accepted (cp_anchor_seq cp) \<and> rb_checkpoint r' = Some cp
      \<and> (\<forall>a. anchor_barred r a \<longrightarrow> a < cp_anchor_seq cp))
    \<or> (r' = r \<and> (\<forall>a. out \<noteq> Accepted a))"
  using assms
  by (auto simp: store_checkpoint_def Let_def trim_before_anchor_def anchor_barred_def
      CHECKPOINT_ANCHORING_ENABLED_def split: if_splits option.splits)

lemma accepted_Cons:
  "accepted_anchors r (op # ops) =
    (case op of RStore cp \<Rightarrow>
       (if snd (store_checkpoint r cp) = Accepted (cp_anchor_seq cp) then [cp_anchor_seq cp] else [])
     | _ \<Rightarrow> []) @ accepted_anchors (replay_step r op) ops"
proof (cases op)
  case (RStore cp)
  obtain r' out where st: "store_checkpoint r cp = (r', out)" by fastforce
  from store_accepts [OF st] RStore st show ?thesis by (cases out) auto
qed simp_all

lemma accepted_above:
  "anchor_barred r a \<Longrightarrow>
    sorted_wrt (<) (accepted_anchors r ops) \<and> (\<forall>b \<in> set (accepted_anchors r ops). a < b)"
proof (induction ops arbitrary: r a)
  case (Cons op ops)
  show ?case
  proof (cases "\<exists>cp. op = RStore cp \<and> snd (store_checkpoint r cp) = Accepted (cp_anchor_seq cp)")
    case True
    then obtain cp r' where op: "op = RStore cp"
      and st: "store_checkpoint r cp = (r', Accepted (cp_anchor_seq cp))"
      by (metis prod.collapse)
    from store_accepts [OF st] Cons.prems have "rb_checkpoint r' = Some cp" "a < cp_anchor_seq cp"
      by auto
    then have "anchor_barred r' (cp_anchor_seq cp)" by (simp add: anchor_barred_def)
    from Cons.IH [OF this] \<open>a < _\<close> show ?thesis by (auto simp: accepted_Cons op st)
  next
    case False
    have "anchor_barred (replay_step r op) a"
    proof (cases "\<exists>cp. op = RStore cp")
      case True
      then obtain cp where RStore: "op = RStore cp" by blast
      obtain r' out where st: "store_checkpoint r cp = (r', out)" by fastforce
      from store_accepts [OF st] False RStore st have "r' = r" by auto
      with RStore st Cons.prems show ?thesis by simp
    qed (use anchor_barred_step [OF Cons.prems] in blast)
    from Cons.IH [OF this] False show ?thesis by (auto simp: accepted_Cons split: replay_op.split)
  qed
qed simp

lemma accepted_sorted: "sorted_wrt (<) (accepted_anchors r ops)"
proof (induction ops arbitrary: r)
  case (Cons op ops)
  show ?case
  proof (cases "\<exists>cp. op = RStore cp \<and> snd (store_checkpoint r cp) = Accepted (cp_anchor_seq cp)")
    case True
    then obtain cp r' where op: "op = RStore cp"
      and st: "store_checkpoint r cp = (r', Accepted (cp_anchor_seq cp))"
      by (metis prod.collapse)
    from store_accepts [OF st] have "anchor_barred r' (cp_anchor_seq cp)"
      by (auto simp: anchor_barred_def)
    from accepted_above [OF this] show ?thesis by (simp add: accepted_Cons op st)
  next
    case False
    with Cons.IH show ?thesis by (auto simp: accepted_Cons split: replay_op.split)
  qed
qed simp

text \<open>
  Property C6. Checkpoints only move forward. Over any run the accepted anchors strictly
  increase, also across a photo that the window overtook and dropped in between; so a photo
  that arrives late never replaces a newer one.
\<close>

theorem accepted_anchors_increase:
  "sorted_wrt (<) (accepted_anchors (replay_new e mx) ops)"
  by (rule accepted_sorted)

section \<open>Epochs\<close>

lemma generate_checkpoint_epoch_unat:
  assumes "millis < 2 ^ 48"
  shows "unat (generate_checkpoint_epoch millis c) = millis * 65536 + unat c mod 65536"
proof -
  let ?hi = "push_bit 16 (of_nat millis :: epoch)" and ?lo = "c AND (0xFFFF :: epoch)"
  have lo: "?lo = take_bit 16 c" by (simp add: take_bit_eq_mask mask_eq_exp_minus_1)
  have "?hi AND ?lo = 0"
    by (rule bit_eqI) (auto simp: lo bit_simps)
  then have "?hi OR ?lo = ?hi + ?lo" by (simp add: disjunctive_add_eq_or)
  moreover have hi: "unat ?hi = millis * 65536"
  proof -
    have "?hi = of_nat (millis * 65536)" by (simp add: push_bit_eq_mult)
    moreover have "millis * 65536 < 2 ^ 64" using assms by simp
    ultimately show ?thesis by (simp add: unat_of_nat take_bit_nat_eq_self del: of_nat_mult)
  qed
  moreover have "unat ?lo = unat c mod 65536"
    unfolding lo unsigned_take_bit_eq by (simp add: take_bit_eq_mod)
  moreover have "unat ?hi + unat ?lo < 2 ^ 64"
    using hi assms unfolding lo unsigned_take_bit_eq by (simp add: take_bit_eq_mod)
  ultimately show ?thesis
    by (simp add: generate_checkpoint_epoch_def unat_add_lem [THEN iffD1])
qed

text \<open>
  The epochs of two buffers differ unless they were created in the same millisecond
  with counters that agree modulo 65536: neither a later daemon nor another session of the same
  process can pass for this buffer (clock below 2^48 ms, the year 10889).
\<close>

theorem epochs_distinct:
  assumes "m < 2 ^ 48" and "m' < 2 ^ 48"
  shows "generate_checkpoint_epoch m c = generate_checkpoint_epoch m' c'
    \<longleftrightarrow> m = m' \<and> unat c mod 65536 = unat c' mod 65536"
proof -
  have "generate_checkpoint_epoch m c = generate_checkpoint_epoch m' c'
    \<longleftrightarrow> m * 65536 + unat c mod 65536 = m' * 65536 + unat c' mod 65536"
    using assms by (simp add: generate_checkpoint_epoch_unat word_unat_eq_iff)
  also have "\<dots> \<longleftrightarrow> m = m' \<and> unat c mod 65536 = unat c' mod 65536"
  proof
    let ?x = "unat c mod 65536" and ?y = "unat c' mod 65536"
    assume eq: "m * 65536 + ?x = m' * 65536 + ?y"
    have x: "?x < 65536" "?y < 65536" by simp_all
    have "(m * 65536 + ?x) div 65536 = m" "(m' * 65536 + ?y) div 65536 = m'"
      using x by simp_all
    with eq show "m = m' \<and> ?x = ?y" by simp
  qed simp
  finally show ?thesis .
qed

theorem epochs_distinct_witness:
  "generate_checkpoint_epoch 1700000000000 0 \<noteq> generate_checkpoint_epoch 1700000000000 1"
  using epochs_distinct [of 1700000000000 1700000000000 0 1] by simp

lemma digit_char_val: "is_digit c \<Longrightarrow> digit_char (digit_val c) = c \<and> digit_val c < 10"
  by (auto simp: digit_char_def digit_val_def is_digit_def)

lemma dec_digits_val:
  "list_all is_digit s \<Longrightarrow> s \<noteq> [] \<Longrightarrow> s = ''0'' \<or> hd s \<noteq> CHR ''0'' \<Longrightarrow> dec (digits_val s) = s"
proof (induction s rule: rev_induct)
  case (snoc c s)
  then have c: "digit_char (digit_val c) = c" "digit_val c < 10"
    using digit_char_val [of c] by auto
  show ?case
  proof (cases "s = []")
    case True
    with c show ?thesis by (subst dec.simps) (simp add: digits_val_def)
  next
    case False
    with snoc.prems have h: "hd s \<noteq> CHR ''0''" by (cases s) auto
    with snoc False have ih: "dec (digits_val s) = s" by simp
    have "digits_val s \<noteq> 0"
    proof
      assume "digits_val s = 0"
      moreover have "digit_char 0 = CHR ''0''"
        using digit_char_val [of "CHR ''0''"] by (simp add: is_digit_def digit_val_def)
      ultimately have "s = ''0''" using ih by (simp add: dec.simps)
      with h show False by simp
    qed
    with ih c show ?thesis by (subst dec.simps) (simp add: digits_val_snoc)
  qed
qed simp

lemma parse_unsigned_digits:
  assumes "list_all is_digit s" and "s \<noteq> []"
  shows "parse_unsigned mx s = (if digits_val s \<le> mx then Some (digits_val s) else None)"
proof -
  have "hd s \<noteq> CHR ''+''" using assms by (cases s) (auto simp: is_digit_def)
  then have "(case s of c # r \<Rightarrow> if c = CHR ''+'' then r else s | [] \<Rightarrow> []) = s"
    using assms(2) by (auto split: list.split)
  with assms show ?thesis by (simp add: parse_unsigned_def parse_digits_def)
qed

lemma epoch_text: "epoch_deserialize (EpText (dec (unat e))) = Some e"
proof -
  have b: "unat e < 2 ^ 64" using unsigned_less [of e, where 'a = nat] by simp
  then have lt: "unat e < 10 ^ 20" by simp
  from b have "unat e \<le> 18446744073709551615" by simp
  then show ?thesis
    using length_dec [OF lt] dec_digits [of "unat e"] dec_leading [of "unat e"]
    by (auto simp: parse_unsigned_dec)
qed

text \<open>
  The epoch crosses the JavaScript boundary exactly: every 64-bit epoch is read back
  from its serialized form, also above 2^53, and a text that is read is the serialized form of
  the epoch it gives, so no two texts name the same epoch.
\<close>

theorem epoch_dto_roundtrip:
  "epoch_deserialize (epoch_serialize e) = Some e
    \<and> (epoch_deserialize (EpText s) = Some e \<longleftrightarrow> EpText s = epoch_serialize e)"
proof
  show "epoch_deserialize (epoch_serialize e) = Some e"
    by (simp only: epoch_serialize_def epoch_text)
  show "epoch_deserialize (EpText s) = Some e \<longleftrightarrow> EpText s = epoch_serialize e"
  proof
    assume some: "epoch_deserialize (EpText s) = Some e"
    then have s: "list_all is_digit s" "s \<noteq> []" "s = ''0'' \<or> hd s \<noteq> CHR ''0''"
      by (auto split: if_splits)
    with some have v: "digits_val s \<le> 18446744073709551615" "e = of_nat (digits_val s)"
      by (auto simp: parse_unsigned_digits split: if_splits)
    then have "digits_val s < 2 ^ 64" by simp
    then have "unat e = digits_val s" by (simp add: v(2) unat_of_nat take_bit_nat_eq_self)
    then show "EpText s = epoch_serialize e"
      by (simp add: epoch_serialize_def dec_digits_val [OF s])
  next
    assume "EpText s = epoch_serialize e"
    then show "epoch_deserialize (EpText s) = Some e" by (simp only: epoch_serialize_def epoch_text)
  qed
qed

section \<open>A mode switch cut in two\<close>

text \<open>
  The screen mode is looked for in each chunk alone: the switch to the alternate
  screen is seen when it comes in one chunk and missed when the read ends inside it, although
  both buffers hold the same bytes.
\<close>

theorem split_mode_switch_missed:
  "rb_buffer_mode (replay_push (replay_new e 100) (CHR 0x1B # ''[?1049h'')) = ModeAlternate
    \<and> rb_buffer_mode (replay_push (replay_push (replay_new e 100) (CHR 0x1B # ''[?10'')) ''49h'') = ModeNormal
    \<and> concat (rb_chunks (replay_push (replay_new e 100) (CHR 0x1B # ''[?1049h'')))
      = concat (rb_chunks (replay_push (replay_push (replay_new e 100) (CHR 0x1B # ''[?10'')) ''49h''))"
  by (simp add: replay_push_def replay_new_def evict_front_def set_window_def
      prune_geometry_marks_def update_buffer_mode_def mode_loop.simps digits_end_def is_digit_def
      mode_after_def Let_def)

end
