(* ===== verification/Utf8_Stream.thy ===== *)
theory Utf8_Stream
  imports Rust_Text Machines
begin

text \<open>
  Decoding of the PTY's bytes (\<open>utf8_safe_process\<close> and \<open>decode_terminal_output\<close> in
  \<open>terminal_service.rs\<close>): a char cut by the end of a read is carried over to the next read,
  bytes that are not UTF-8 at all are decoded as GBK. The GBK decoder (\<open>encoding_rs\<close>) is a
  parameter. \<open>utf8_split\<close> and \<open>utf8_incomplete\<close> are \<open>Utf8Error::valid_up_to\<close> and
  \<open>error_len() == None\<close> of the standard library.
\<close>

section \<open>The decoder\<close>

function utf8_split :: "string \<Rightarrow> string \<times> string" where
  "utf8_split s =
    (case utf8_step s of
       None \<Rightarrow> ([], s)
     | Some t \<Rightarrow> (let (v, r) = utf8_split t in (take (length s - length t) s @ v, r)))"
  by pat_completeness auto
termination
  by (relation "measure length") (auto simp: utf8_step_shorter)

declare utf8_split.simps [simp del]

text \<open>The second byte a lead byte admits.\<close>

definition utf8_second :: "char \<Rightarrow> char \<Rightarrow> bool" where
  "utf8_second a b \<longleftrightarrow> is_cont b
    \<and> (byte_val a = 0xE0 \<longrightarrow> 0xA0 \<le> byte_val b) \<and> (byte_val a = 0xED \<longrightarrow> byte_val b \<le> 0x9F)
    \<and> (byte_val a = 0xF0 \<longrightarrow> 0x90 \<le> byte_val b) \<and> (byte_val a = 0xF4 \<longrightarrow> byte_val b \<le> 0x8F)"

fun utf8_incomplete :: "string \<Rightarrow> bool" where
  "utf8_incomplete [a] = byte_in 0xC2 0xF4 a"
| "utf8_incomplete [a, b] = (byte_in 0xE0 0xF4 a \<and> utf8_second a b)"
| "utf8_incomplete [a, b, c] = (byte_in 0xF0 0xF4 a \<and> utf8_second a b \<and> is_cont c)"
| "utf8_incomplete _ = False"

definition decode_terminal_output :: "(string \<Rightarrow> string) \<Rightarrow> string \<Rightarrow> string" where
  "decode_terminal_output gbk bytes = (case from_utf8 bytes of Some s \<Rightarrow> s | None \<Rightarrow> gbk bytes)"

definition utf8_safe_process ::
    "(string \<Rightarrow> string) \<Rightarrow> string \<Rightarrow> string \<Rightarrow> string \<times> string option" where
  "utf8_safe_process gbk buf carry =
    (let combined = carry @ buf in
     if combined = [] then ([], None)
     else (let (valid, rest) = utf8_split combined in
       if rest = [] then ([], Some combined)
       else if utf8_incomplete rest then
         (rest, if length valid = 0 then None
                else Some (decode_terminal_output gbk (take (length valid) combined)))
       else ([], Some (decode_terminal_output gbk combined))))"

text \<open>A reader that is given the stream in pieces: the carry and what it passed on.\<close>

definition decode_read :: "(string \<Rightarrow> string) \<Rightarrow> string \<Rightarrow> string \<Rightarrow> string \<times> string list" where
  "decode_read gbk carry buf =
    (case utf8_safe_process gbk buf carry of
       (carry', Some s) \<Rightarrow> (carry', [s])
     | (carry', None) \<Rightarrow> (carry', []))"

definition decode_reads :: "(string \<Rightarrow> string) \<Rightarrow> string \<Rightarrow> string list \<Rightarrow> string \<times> string list" where
  "decode_reads gbk carry reads = process_chunks (decode_read gbk) carry reads"

section \<open>Prefixes of valid strings\<close>

lemma utf8_step_append: "utf8_step s = Some t \<Longrightarrow> utf8_step (s @ u) = Some (t @ u)"
  by (cases s) (auto simp: utf8_step.simps split: if_splits list.splits)

lemma utf8_step_cut:
  assumes "utf8_step s = None" and "s \<noteq> []" and "utf8_step (s @ u) = Some t"
  shows "utf8_incomplete s"
proof -
  from assms(2) obtain a r where s: "s = a # r" by (cases s) auto
  consider "r = []" | b where "r = [b]" | b c where "r = [b, c]"
    | b c d r' where "r = b # c # d # r'"
    by (metis list.exhaust)
  then show ?thesis
    using assms(1,3) unfolding s
    by cases (auto simp: utf8_step.simps byte_in_def utf8_second_def split: if_splits list.splits)
qed

lemma utf8_step_suffix: "utf8_step s = Some t \<Longrightarrow> s = take (length s - length t) s @ t"
  by (cases s) (auto simp: utf8_step.simps split: if_splits list.splits)

lemma valid_utf8_step:
  "utf8_step s = Some t \<Longrightarrow> valid_utf8 s = valid_utf8 t"
  by (subst valid_utf8.simps) (auto simp: utf8_step.simps(1))

lemma utf8_step_char:
  assumes "utf8_step s = Some t"
  shows "\<exists>c. s = c @ t \<and> utf8_step c = Some []"
proof -
  from assms obtain a r where s: "s = a # r" by (cases s) auto
  consider "t = r" | b where "r = b # t" | b c where "r = b # c # t" | b c d where "r = b # c # d # t"
    using assms unfolding s by (auto simp: utf8_step.simps split: if_splits list.splits)
  then show ?thesis
  proof cases
    case 1
    have "utf8_step (a # r) = Some r" using assms s 1 by simp
    then have "byte_val a < 0x80"
      by (rule_tac ccontr) (auto simp: utf8_step.simps split: if_splits list.splits)
    then have "utf8_step [a] = Some []" by (simp add: utf8_step.simps)
    then show ?thesis unfolding s 1 by (intro exI [of _ "[a]"]) simp
  next
    case (2 b)
    have "utf8_step [a, b] = Some []"
      using assms unfolding s 2 by (auto simp: utf8_step.simps split: if_splits list.splits)
    then show ?thesis unfolding s 2 by (intro exI [of _ "[a, b]"]) simp
  next
    case (3 b c)
    have "utf8_step [a, b, c] = Some []"
      using assms unfolding s 3 by (auto simp: utf8_step.simps split: if_splits list.splits)
    then show ?thesis unfolding s 3 by (intro exI [of _ "[a, b, c]"]) simp
  next
    case (4 b c d)
    have "utf8_step [a, b, c, d] = Some []"
      using assms unfolding s 4 by (auto simp: utf8_step.simps split: if_splits list.splits)
    then show ?thesis unfolding s 4 by (intro exI [of _ "[a, b, c, d]"]) simp
  qed
qed

lemma valid_utf8_append_step:
  assumes "utf8_step s = Some t" and "valid_utf8 v" and "length t \<le> length s"
  shows "valid_utf8 (take (length s - length t) s @ v)"
proof -
  from utf8_step_char [OF assms(1)] obtain c where c: "s = c @ t" "utf8_step c = Some []" by blast
  from utf8_step_append [OF c(2), of v] assms(2) show ?thesis
    by (simp add: c(1) valid_utf8_step)
qed

lemma utf8_split_prefix:
  "valid_utf8 (s @ u) \<Longrightarrow> utf8_split s = (v, r) \<Longrightarrow>
    s = v @ r \<and> valid_utf8 v \<and> (r = [] \<or> utf8_incomplete r) \<and> valid_utf8 (r @ u)"
proof (induction s arbitrary: v r rule: utf8_split.induct)
  case (1 s)
  show ?case
  proof (cases "utf8_step s")
    case None
    with "1.prems"(2) have vr: "v = []" "r = s" by (auto simp: utf8_split.simps [of s])
    have "s = [] \<or> utf8_incomplete s"
    proof (cases "s = []")
      case False
      then have "s @ u \<noteq> []" by simp
      with "1.prems"(1) obtain t where "utf8_step (s @ u) = Some t"
        by (subst (asm) valid_utf8.simps) (auto split: option.splits)
      from utf8_step_cut [OF None False this] show ?thesis by simp
    qed simp
    with vr "1.prems"(1) show ?thesis by simp
  next
    case (Some t)
    obtain v' r' where split: "utf8_split t = (v', r')" by fastforce
    with "1.prems"(2) Some have vr: "v = take (length s - length t) s @ v'" "r = r'"
      by (auto simp: utf8_split.simps [of s])
    have "valid_utf8 (t @ u)"
      using "1.prems"(1) valid_utf8_step [OF utf8_step_append [OF Some]] by simp
    from "1.IH" [OF Some this split] have ih: "t = v' @ r'" "valid_utf8 v'"
      "r' = [] \<or> utf8_incomplete r'" "valid_utf8 (r' @ u)" by auto
    have "valid_utf8 v"
      unfolding vr using valid_utf8_append_step [OF Some ih(2)] utf8_step_shorter [OF Some] by simp
    moreover have "s = v @ r"
      using utf8_step_suffix [OF Some] ih(1) vr by (metis append.assoc)
    ultimately show ?thesis using ih(3,4) unfolding vr(2) by blast
  qed
qed

lemma utf8_incomplete_short: "utf8_incomplete r \<Longrightarrow> length r \<le> 3 \<and> r \<noteq> []"
  by (induction r rule: utf8_incomplete.induct) auto

lemma decode_read_valid:
  assumes "valid_utf8 (carry @ buf @ u)"
  shows "\<exists>r out. decode_read gbk carry buf = (r, out) \<and> carry @ buf = concat out @ r
    \<and> list_all (\<lambda>o'. valid_utf8 o' \<and> o' \<noteq> []) out \<and> (r = [] \<or> utf8_incomplete r) \<and> valid_utf8 (r @ u)"
proof (cases "carry @ buf = []")
  case True
  with assms show ?thesis by (simp add: decode_read_def utf8_safe_process_def)
next
  case False
  obtain v r where split: "utf8_split (carry @ buf) = (v, r)" by fastforce
  have p: "carry @ buf = v @ r" "valid_utf8 v" "r = [] \<or> utf8_incomplete r" "valid_utf8 (r @ u)"
    using utf8_split_prefix [OF _ split] assms by auto
  show ?thesis
  proof (cases "r = []")
    case True
    with False p split show ?thesis by (simp add: decode_read_def utf8_safe_process_def Let_def)
  next
    case rest: False
    show ?thesis
    proof (cases "v = []")
      case True
      with False p rest split show ?thesis
        by (simp add: decode_read_def utf8_safe_process_def Let_def)
    next
      case v: False
      have "take (length v) (carry @ buf) = v" using p(1) by simp
      with v False p rest split show ?thesis
        by (simp add: decode_read_def utf8_safe_process_def Let_def decode_terminal_output_def
            from_utf8_def)
    qed
  qed
qed

lemma decode_reads_valid:
  "valid_utf8 (carry @ concat reads @ u) \<Longrightarrow> decode_reads gbk carry reads = (r, out) \<Longrightarrow>
    carry = [] \<or> utf8_incomplete carry \<Longrightarrow>
    carry @ concat reads = concat out @ r
    \<and> list_all (\<lambda>o'. valid_utf8 o' \<and> o' \<noteq> []) out \<and> (r = [] \<or> utf8_incomplete r)"
proof (induction reads arbitrary: carry r out)
  case Nil
  then show ?case by (simp add: decode_reads_def)
next
  case (Cons buf reads)
  from Cons.prems(1) have "valid_utf8 (carry @ buf @ (concat reads @ u))" by simp
  from decode_read_valid [OF this, of gbk] obtain r1 o1 where
    one: "decode_read gbk carry buf = (r1, o1)" "carry @ buf = concat o1 @ r1"
      "list_all (\<lambda>o'. valid_utf8 o' \<and> o' \<noteq> []) o1" "r1 = [] \<or> utf8_incomplete r1"
      "valid_utf8 (r1 @ concat reads @ u)" by auto
  obtain r2 o2 where two: "decode_reads gbk r1 reads = (r2, o2)" by fastforce
  with one(1) Cons.prems(2) have out: "out = o1 @ o2" "r = r2" by (auto simp: decode_reads_def)
  from Cons.IH [OF one(5) two one(4)] one(2,3) out show ?case
    by (metis append.assoc concat.simps(2) concat_append list_all_append)
qed

text \<open>
  Reads may cut chars anywhere: if the bytes read so far are a prefix of some UTF-8
  stream, then whatever the sizes of the reads, the strings passed on are well-formed and not
  empty, they and the carried bytes are exactly the bytes read, in order, and at most three
  bytes are carried. The GBK fallback is never used, whatever it does.
\<close>

theorem utf8_reads_lossless:
  assumes "valid_utf8 (concat reads @ u)"
  shows "concat reads
      = concat (snd (decode_reads gbk [] reads)) @ fst (decode_reads gbk [] reads)
    \<and> list_all (\<lambda>s. valid_utf8 s \<and> s \<noteq> []) (snd (decode_reads gbk [] reads))
    \<and> length (fst (decode_reads gbk [] reads)) \<le> 3"
proof -
  obtain r out where d: "decode_reads gbk [] reads = (r, out)" by fastforce
  from decode_reads_valid [of "[]" reads u, OF _ d] assms have
    "concat reads = concat out @ r" "list_all (\<lambda>s. valid_utf8 s \<and> s \<noteq> []) out"
    "r = [] \<or> utf8_incomplete r" by simp_all
  with utf8_incomplete_short [of r] show ?thesis by (auto simp: d)
qed

text \<open>The two bytes of a Greek letter in different reads.\<close>

definition split_reads :: "string list" where
  "split_reads = [[CHR 0x61, CHR 0xCE], [CHR 0xB1, CHR 0x62]]"

theorem utf8_reads_lossless_witness:
  "concat split_reads = concat (snd (decode_reads (\<lambda>_. ''?'') [] split_reads))
    @ fst (decode_reads (\<lambda>_. ''?'') [] split_reads)"
proof -
  have "valid_utf8 (concat split_reads @ [])"
    by (simp add: split_reads_def valid_utf8.simps utf8_step.simps byte_in_def is_cont_def)
  from utf8_reads_lossless [OF this] show ?thesis by blast
qed

end
