(* ===== verification/Output_Cursor.thy ===== *)
theory Output_Cursor
  imports Rust_Text Machines
begin

text \<open>
  The cursor a reconnecting client keeps over the byte coordinates of a session
  (\<open>terminal_output_cursor.rs\<close>) and the flush clock of the output batcher
  (\<open>terminal_service/output_batch_clock.rs\<close>). The cursor is proved against the log of all
  bytes: whatever mix of stream frames and recovery snapshots it sees, the text it lets
  through is one contiguous piece of the log.
\<close>

section \<open>The cursor\<close>

record output_cursor =
  oc_epoch :: "nat option"
  oc_end_seq :: "nat option"

datatype cursor_delta = Unchanged | Data string | Resync

definition cursor_default :: output_cursor where
  "cursor_default = \<lparr>oc_epoch = None, oc_end_seq = None\<rparr>"

definition cursor_stream :: "output_cursor \<Rightarrow> nat \<Rightarrow> string \<Rightarrow> output_cursor \<times> cursor_delta" where
  "cursor_stream c end_seq data =
    (let previous = oc_end_seq c in
     if (case previous of Some p \<Rightarrow> end_seq \<le> p | None \<Rightarrow> False) then (c, Unchanged)
     else (let c1 = c\<lparr>oc_end_seq := Some end_seq\<rparr> in
       case checked_sub end_seq (length data) of
         None \<Rightarrow> (c1, Resync)
       | Some start_seq \<Rightarrow>
           (case previous of
              None \<Rightarrow> (c1, Data data)
            | Some p \<Rightarrow>
                (case checked_sub p start_seq of
                   None \<Rightarrow> (c1, Resync)
                 | Some offset \<Rightarrow>
                     (case str_get_from data offset of
                        Some d \<Rightarrow> (c1, if d = [] then Unchanged else Data d)
                      | None \<Rightarrow> (c1, Resync))))))"

definition cursor_recovery ::
    "output_cursor \<Rightarrow> nat \<Rightarrow> nat \<Rightarrow> string \<Rightarrow> output_cursor \<times> cursor_delta" where
  "cursor_recovery c epoch end_seq data =
    (let epoch_changed = (case oc_epoch c of Some previous \<Rightarrow> previous \<noteq> epoch | None \<Rightarrow> False);
         c1 = c\<lparr>oc_epoch := Some epoch\<rparr>
     in if epoch_changed \<or> oc_end_seq c1 = None
        then (c1\<lparr>oc_end_seq := Some end_seq\<rparr>, Resync)
        else if (case oc_end_seq c1 of Some previous \<Rightarrow> end_seq < previous | None \<Rightarrow> False)
        then (c1\<lparr>oc_end_seq := Some end_seq\<rparr>, Resync)
        else cursor_stream c1 end_seq data)"

definition cursor_reset :: "output_cursor \<Rightarrow> output_cursor" where
  "cursor_reset c = cursor_default"

section \<open>A client over a log\<close>

text \<open>The bytes \<open>a\<close> to \<open>b\<close> of a log, and a frame that carries the bytes up to its end.\<close>

definition slice :: "string \<Rightarrow> nat \<Rightarrow> nat \<Rightarrow> string" where
  "slice L a b = drop a (take b L)"

definition frame_of :: "string \<Rightarrow> nat \<Rightarrow> string \<Rightarrow> bool" where
  "frame_of L end_seq data \<longleftrightarrow>
    length data \<le> end_seq \<and> end_seq \<le> length L \<and> data = slice L (end_seq - length data) end_seq"

datatype cursor_in = InStream nat string | InRecovery nat nat string

fun in_of :: "string \<Rightarrow> cursor_in \<Rightarrow> bool" where
  "in_of L (InStream e d) = frame_of L e d"
| "in_of L (InRecovery ep e d) = frame_of L e d"

fun in_end :: "cursor_in \<Rightarrow> nat" where
  "in_end (InStream e d) = e"
| "in_end (InRecovery ep e d) = e"

text \<open>
  The client shows what it is given and, when told to resynchronise, rebuilds its screen from
  the authoritative output up to the coordinate the cursor has moved to.
\<close>

record client =
  cl_cursor :: output_cursor
  cl_shown :: string

definition client_init :: client where
  "client_init = \<lparr>cl_cursor = cursor_default, cl_shown = []\<rparr>"

definition client_take :: "string \<Rightarrow> client \<Rightarrow> output_cursor \<times> cursor_delta \<Rightarrow> client" where
  "client_take L v r =
    \<lparr>cl_cursor = fst r,
     cl_shown = (case snd r of
        Unchanged \<Rightarrow> cl_shown v
      | Data d \<Rightarrow> cl_shown v @ d
      | Resync \<Rightarrow> take (the (oc_end_seq (fst r))) L)\<rparr>"

fun client_step :: "string \<Rightarrow> client \<Rightarrow> cursor_in \<Rightarrow> client" where
  "client_step L v (InStream e d) = client_take L v (cursor_stream (cl_cursor v) e d)"
| "client_step L v (InRecovery ep e d) = client_take L v (cursor_recovery (cl_cursor v) ep e d)"

lemma take_slice: "b \<le> c \<Longrightarrow> take c L = take b L @ slice L b c"
  unfolding slice_def by (metis drop_take le_add_diff_inverse take_add)

lemma slice_append:
  assumes "a \<le> b" and "b \<le> c" and "b \<le> length L"
  shows "slice L a b @ slice L b c = slice L a c"
proof -
  have "slice L a c = drop a (take b L @ slice L b c)"
    using take_slice [OF assms(2)] by (simp add: slice_def)
  also have "\<dots> = slice L a b @ slice L b c" using assms by (simp add: slice_def)
  finally show ?thesis by simp
qed

lemma drop_slice: "drop k (slice L a b) = slice L (a + k) b"
  by (simp add: slice_def add.commute)

lemma slice_Nil_iff: "b \<le> length L \<Longrightarrow> slice L a b = [] \<longleftrightarrow> b \<le> a"
  by (simp add: slice_def)

lemma slice_0 [simp]: "slice L 0 b = take b L"
  by (simp add: slice_def)

text \<open>What \<open>stream\<close> answers to a frame of the log, by where the cursor is.\<close>

lemma cursor_stream_frame:
  assumes "frame_of L e d"
  shows "cursor_stream c e d =
    (case oc_end_seq c of
       None \<Rightarrow> (c\<lparr>oc_end_seq := Some e\<rparr>, Data d)
     | Some p \<Rightarrow>
         if e \<le> p then (c, Unchanged)
         else (c\<lparr>oc_end_seq := Some e\<rparr>,
               if e - length d \<le> p \<and> is_char_boundary d (p - (e - length d))
               then Data (slice L p e) else Resync))"
proof (cases "oc_end_seq c")
  case None
  with assms show ?thesis by (simp add: cursor_stream_def frame_of_def)
next
  case (Some p)
  have len: "length d \<le> e" "e \<le> length L" "d = slice L (e - length d) e"
    using assms by (auto simp: frame_of_def)
  show ?thesis
  proof (cases "\<not> e \<le> p \<and> e - length d \<le> p")
    case True
    have "drop (p - (e - length d)) d = drop (p - (e - length d)) (slice L (e - length d) e)"
      using len(3) by (rule arg_cong)
    also have "\<dots> = slice L p e" using True by (simp add: drop_slice)
    finally have d: "drop (p - (e - length d)) d = slice L p e" .
    moreover have "slice L p e \<noteq> []" using True len by (simp add: slice_Nil_iff)
    ultimately show ?thesis
      using True Some len(1) by (simp add: cursor_stream_def str_get_from_def)
  next
    case False
    then have "e \<le> p \<or> checked_sub p (e - length d) = None" by (auto simp: checked_sub_def)
    with Some len(1) False show ?thesis by (auto simp: cursor_stream_def)
  qed
qed

definition client_ok :: "string \<Rightarrow> client \<Rightarrow> bool" where
  "client_ok L v \<longleftrightarrow>
    (case oc_end_seq (cl_cursor v) of
       None \<Rightarrow> cl_shown v = []
     | Some p \<Rightarrow> p \<le> length L \<and> (\<exists>a \<le> p. cl_shown v = slice L a p))"

lemma client_okI:
  "oc_end_seq (cl_cursor v) = Some p \<Longrightarrow> p \<le> length L \<Longrightarrow> a \<le> p \<Longrightarrow> cl_shown v = slice L a p \<Longrightarrow>
    client_ok L v"
  by (auto simp: client_ok_def)

lemma client_ok_resync:
  "e \<le> length L \<Longrightarrow> oc_end_seq c = Some e \<Longrightarrow> client_ok L (client_take L v (c, Resync))"
  by (rule client_okI [of _ e _ 0]) (simp_all add: client_take_def)

lemma client_ok_stream:
  assumes "client_ok L v" and "frame_of L e d" and "oc_end_seq c = oc_end_seq (cl_cursor v)"
  shows "client_ok L (client_take L v (cursor_stream c e d))"
proof (cases "oc_end_seq c")
  case None
  have "d = slice L (e - length d) e" "e \<le> length L" using assms(2) by (auto simp: frame_of_def)
  then show ?thesis
    using assms None unfolding client_ok_def client_take_def cursor_stream_frame [OF assms(2)]
    by (auto intro!: exI [of _ "e - length d"])
next
  case (Some p)
  then obtain a where a: "p \<le> length L" "a \<le> p" "cl_shown v = slice L a p"
    using assms(1,3) by (auto simp: client_ok_def)
  have e: "e \<le> length L" using assms(2) by (simp add: frame_of_def)
  have sc: "cursor_stream c e d =
      (if e \<le> p then (c, Unchanged)
       else (c\<lparr>oc_end_seq := Some e\<rparr>,
             if e - length d \<le> p \<and> is_char_boundary d (p - (e - length d))
             then Data (slice L p e) else Resync))"
    using cursor_stream_frame [OF assms(2), of c] Some by simp
  consider "e \<le> p" | "p < e" "snd (cursor_stream c e d) = Resync"
    | "p < e" "snd (cursor_stream c e d) = Data (slice L p e)" 
    by (cases "e \<le> p"; cases "e - length d \<le> p \<and> is_char_boundary d (p - (e - length d))")
       (use sc in \<open>auto simp del: de_Morgan_conj\<close>)
  then show ?thesis
  proof cases
    case 1
    with a Some sc show ?thesis by (intro client_okI [of _ p _ a]) (simp_all add: client_take_def)
  next
    case 2
    then have "cursor_stream c e d = (c\<lparr>oc_end_seq := Some e\<rparr>, Resync)"
      using sc by (simp split: if_splits)
    with e show ?thesis by (simp add: client_ok_resync)
  next
    case 3
    then have "cursor_stream c e d = (c\<lparr>oc_end_seq := Some e\<rparr>, Data (slice L p e))"
      using sc by (simp split: if_splits)
    with a e 3 slice_append [of a p e L] show ?thesis
      by (intro client_okI [of _ e _ a]) (simp_all add: client_take_def)
  qed
qed

lemma client_ok_step: "client_ok L v \<Longrightarrow> in_of L i \<Longrightarrow> client_ok L (client_step L v i)"
proof (cases i)
  case (InRecovery ep e d)
  moreover assume "client_ok L v" "in_of L i"
  ultimately show ?thesis
    by (auto simp: cursor_recovery_def Let_def frame_of_def
        intro!: client_ok_resync client_ok_stream)
qed (simp add: client_ok_stream)

lemma client_ok_run:
  "list_all (in_of L) is \<Longrightarrow> client_ok L v \<Longrightarrow> client_ok L (foldl (client_step L) v is)"
  by (induction "is" arbitrary: v) (auto simp: client_ok_step)

text \<open>
  What a reconnecting client shows is contiguous: for any mix of stream frames and
  recovery snapshots of one log (late, repeated, overlapping, out of order, from any epoch), the
  text after the deltas is the bytes from some point up to the cursor, without a gap and
  without a repetition.
\<close>

theorem client_text_contiguous:
  assumes "list_all (in_of L) is"
  shows "case oc_end_seq (cl_cursor (foldl (client_step L) client_init is)) of
      None \<Rightarrow> cl_shown (foldl (client_step L) client_init is) = []
    | Some p \<Rightarrow> p \<le> length L \<and>
        (\<exists>a \<le> p. cl_shown (foldl (client_step L) client_init is) = slice L a p)"
proof -
  have "client_ok L client_init"
    by (simp add: client_ok_def client_init_def cursor_default_def)
  from client_ok_run [OF assms this] show ?thesis by (simp add: client_ok_def)
qed

definition overlapping_frames :: "cursor_in list" where
  "overlapping_frames =
    [InRecovery 1 4 ''abcd'', InStream 3 ''bc'', InStream 6 ''cdef'', InStream 8 ''gh'']"

theorem client_text_contiguous_witness:
  "cl_shown (foldl (client_step ''abcdefgh'') client_init overlapping_frames) = ''abcdefgh''
   \<and> (\<exists>a \<le> 8. ''abcdefgh'' = slice ''abcdefgh'' a 8)"
proof -
  have ok: "list_all (in_of ''abcdefgh'') overlapping_frames"
    by (simp add: overlapping_frames_def frame_of_def slice_def numeral_eq_Suc)
  have run: "foldl (client_step ''abcdefgh'') client_init overlapping_frames
      = \<lparr>cl_cursor = \<lparr>oc_epoch = Some 1, oc_end_seq = Some 8\<rparr>, cl_shown = ''abcdefgh''\<rparr>"
    by (simp add: overlapping_frames_def client_init_def cursor_default_def client_take_def
        cursor_recovery_def cursor_stream_def checked_sub_def str_get_from_def
        is_char_boundary_def is_cont_def Let_def numeral_eq_Suc)
  from client_text_contiguous [OF ok] run show ?thesis by simp
qed

text \<open>
  The cursor gives up only when it must. For a frame of the log, \<open>stream\<close> asks for
  a resynchronisation exactly when the frame is ahead of the cursor and either bytes between
  them were lost or the cursor stands inside a char of the frame; a frame at or behind the
  cursor changes nothing, and any other frame yields exactly the missing bytes.
\<close>

theorem cursor_stream_exact:
  assumes "frame_of L e d" and "oc_end_seq c = Some p"
  shows "(snd (cursor_stream c e d) = Resync \<longleftrightarrow>
        p < e \<and> (p < e - length d \<or> \<not> is_char_boundary d (p - (e - length d))))
    \<and> (snd (cursor_stream c e d) = Unchanged \<longleftrightarrow> e \<le> p)
    \<and> (\<forall>t. snd (cursor_stream c e d) = Data t \<longrightarrow> t = slice L p e)
    \<and> oc_end_seq (fst (cursor_stream c e d)) = Some (max p e)"
  unfolding cursor_stream_frame [OF assms(1)] using assms(2) by (auto simp: max_def)

theorem cursor_stream_exact_witness:
  "snd (cursor_stream \<lparr>oc_epoch = None, oc_end_seq = Some 1\<rparr> 4 ''cd'') = Resync"
proof -
  have "frame_of ''abcd'' 4 ''cd''" by (simp add: frame_of_def slice_def numeral_eq_Suc)
  from cursor_stream_exact [OF this, of "\<lparr>oc_epoch = None, oc_end_seq = Some 1\<rparr>" 1]
  show ?thesis by simp
qed

section \<open>The flush clock\<close>

definition NORMAL_DELAY :: duration where
  "NORMAL_DELAY = from_millis 16"

type_synonym batch_clock = "instant option"

definition clock_note_data :: "batch_clock \<Rightarrow> instant \<Rightarrow> batch_clock" where
  "clock_note_data c now = (case c of Some d \<Rightarrow> Some d | None \<Rightarrow> Some (now + NORMAL_DELAY))"

definition clock_wait :: "batch_clock \<Rightarrow> instant \<Rightarrow> duration" where
  "clock_wait c now = (case c of Some deadline \<Rightarrow> deadline - now | None \<Rightarrow> NORMAL_DELAY)"

definition clock_due :: "batch_clock \<Rightarrow> instant \<Rightarrow> bool" where
  "clock_due c now = (case c of Some deadline \<Rightarrow> deadline \<le> now | None \<Rightarrow> False)"

definition clock_clear :: "batch_clock \<Rightarrow> batch_clock" where
  "clock_clear c = None"

end
