(* ===== verification/Delivery.thy ===== *)
theory Delivery
  imports Utf8_Stream Replay_Buffer Output_Flow Output_Cursor
begin

text \<open>
  The way of the output through a session: the reader thread decodes a read, gives it its
  coordinate from the replay buffer and hands it to the bounded channel; the batcher thread
  merges chunks and emits them, by size, echo or the 16 ms clock
  (\<open>create_session\<close> in \<open>terminal_service.rs\<close>, the two spawned closures). A step of either
  thread is atomic here; the threads interleave in any order. The parts of the reader that look
  at the data without changing it are in the theories of the detectors.
\<close>

section \<open>Model\<close>

definition OUTPUT_BATCH_CHANNEL_CAPACITY :: nat where
  "OUTPUT_BATCH_CHANNEL_CAPACITY = 256"

definition BATCH_SIZE_THRESHOLD :: nat where
  "BATCH_SIZE_THRESHOLD = 16384"

type_synonym chunk = "string \<times> nat option"

record delivery =
  dl_carry :: string
  dl_replay :: replay_buffer
  dl_channel :: "chunk list"
  dl_batch :: string
  dl_batch_end_seq :: "nat option"
  dl_clock :: batch_clock
  dl_flow :: flow_gate
  dl_emits :: "chunk list"    \<comment> \<open>the \<open>TERMINAL_OUTPUT\<close> events that got out\<close>
  dl_desyncs :: nat           \<comment> \<open>the \<open>TERMINAL_DESYNC\<close> events of the reader\<close>

definition delivery_init :: "epoch \<Rightarrow> nat \<Rightarrow> flow_gate \<Rightarrow> delivery" where
  "delivery_init e mx g =
    \<lparr>dl_carry = [], dl_replay = replay_new e mx, dl_channel = [], dl_batch = [],
     dl_batch_end_seq = None, dl_clock = None, dl_flow = g, dl_emits = [], dl_desyncs = 0\<rparr>"

text \<open>The reader: decode, push, take the coordinate, \<open>try_send\<close>.\<close>

definition send_chunk :: "delivery \<Rightarrow> string \<Rightarrow> delivery" where
  "send_chunk s data =
    (let replay = replay_push (dl_replay s) data;
         chunk_end_seq = Some (rb_pushed_seq replay);
         s1 = s\<lparr>dl_replay := replay\<rparr>
     in if length (dl_channel s1) < OUTPUT_BATCH_CHANNEL_CAPACITY
        then s1\<lparr>dl_channel := dl_channel s1 @ [(data, chunk_end_seq)]\<rparr>
        else s1\<lparr>dl_desyncs := dl_desyncs s1 + 1\<rparr>)"

definition read_bytes :: "(string \<Rightarrow> string) \<Rightarrow> delivery \<Rightarrow> string \<Rightarrow> delivery" where
  "read_bytes gbk s output_bytes =
    (if output_bytes = [] then s
     else (case utf8_safe_process gbk output_bytes (dl_carry s) of
             (carry, None) \<Rightarrow> s\<lparr>dl_carry := carry\<rparr>
           | (carry, Some data) \<Rightarrow> send_chunk (s\<lparr>dl_carry := carry\<rparr>) data))"

text \<open>The batcher: drain the channel into the batch, up to the threshold.\<close>

fun drain :: "chunk list \<Rightarrow> string \<Rightarrow> nat option \<Rightarrow> chunk list \<times> string \<times> nat option" where
  "drain [] batch sq = ([], batch, sq)"
| "drain ((next_data, next_seq) # rest) batch sq =
    (let batch' = batch @ next_data in
     if BATCH_SIZE_THRESHOLD \<le> length batch' then (rest, batch', next_seq)
     else drain rest batch' next_seq)"

text \<open>
  Emitting takes the batch; only a batch that got out is accounted for (\<open>note_emitted\<close>). A
  panic in the emitter is caught and is a failure.
\<close>

definition emit_batch :: "bool \<Rightarrow> delivery \<Rightarrow> delivery" where
  "emit_batch emitted s =
    (let end_seq = dl_batch_end_seq s;
         s1 = s\<lparr>dl_batch := [], dl_batch_end_seq := None\<rparr>
     in if emitted
        then s1\<lparr>dl_emits := dl_emits s1 @ [(dl_batch s, end_seq)],
                dl_flow := note_sent (dl_flow s1) end_seq\<rparr>
        else s1)"

definition batch_recv :: "instant \<Rightarrow> instant \<Rightarrow> bool \<Rightarrow> delivery \<Rightarrow> delivery" where
  "batch_recv now now2 emitted s =
    (case dl_channel s of
       [] \<Rightarrow> s
     | (data, end_seq) # rest \<Rightarrow>
         (let clock = clock_note_data (dl_clock s) now;
              (channel, batch, sq) = drain rest (dl_batch s @ data) end_seq;
              s1 = s\<lparr>dl_clock := clock, dl_channel := channel, dl_batch := batch,
                     dl_batch_end_seq := sq\<rparr>
          in if BATCH_SIZE_THRESHOLD \<le> length batch
                \<or> is_interactive_echo now2 (dl_flow s) (length batch)
                \<or> clock_due clock now2
             then (emit_batch emitted s1)\<lparr>dl_clock := clock_clear clock\<rparr>
             else s1))"

definition batch_timeout :: "bool \<Rightarrow> delivery \<Rightarrow> delivery" where
  "batch_timeout emitted s =
    (let s1 = (if dl_batch s \<noteq> [] then emit_batch emitted s else s)
     in s1\<lparr>dl_clock := clock_clear (dl_clock s1)\<rparr>)"

definition batch_disconnected :: "bool \<Rightarrow> delivery \<Rightarrow> delivery" where
  "batch_disconnected emitted s = (if dl_batch s \<noteq> [] then emit_batch emitted s else s)"

datatype delivery_op =
    DRead string
  | DBatch instant instant bool
  | DTimeout bool
  | DDisconnected bool
  | DAcked instant nat
  | DInput instant

fun delivery_step :: "(string \<Rightarrow> string) \<Rightarrow> delivery \<Rightarrow> delivery_op \<Rightarrow> delivery" where
  "delivery_step gbk s (DRead bytes) = read_bytes gbk s bytes"
| "delivery_step gbk s (DBatch now now2 ok) = batch_recv now now2 ok s"
| "delivery_step gbk s (DTimeout ok) = batch_timeout ok s"
| "delivery_step gbk s (DDisconnected ok) = batch_disconnected ok s"
| "delivery_step gbk s (DAcked now n) = s\<lparr>dl_flow := fst (note_acked now (dl_flow s) n)\<rparr>"
| "delivery_step gbk s (DInput now) = s\<lparr>dl_flow := note_input now (dl_flow s)\<rparr>"

text \<open>The log: everything the reader has passed on since the session started.\<close>

definition read_data :: "(string \<Rightarrow> string) \<Rightarrow> delivery \<Rightarrow> delivery_op \<Rightarrow> string" where
  "read_data gbk s op =
    (case op of
       DRead bytes \<Rightarrow> (if bytes = [] then []
         else (case utf8_safe_process gbk bytes (dl_carry s) of (_, Some d) \<Rightarrow> d | _ \<Rightarrow> []))
     | _ \<Rightarrow> [])"

definition logged_step ::
    "(string \<Rightarrow> string) \<Rightarrow> string \<times> delivery \<Rightarrow> delivery_op \<Rightarrow> string \<times> delivery" where
  "logged_step gbk Ls op = (fst Ls @ read_data gbk (snd Ls) op, delivery_step gbk (snd Ls) op)"

section \<open>Coordinates of what is under way\<close>

text \<open>
  The chunks in the channel are frames of the log, in order and without overlap, from \<open>cov\<close>
  on. The batch covers the bytes from the last emitted coordinate to \<open>cov\<close>, possibly with
  gaps; if its length is all of that, there is no gap.
\<close>

fun chain :: "string \<Rightarrow> nat \<Rightarrow> chunk list \<Rightarrow> bool" where
  "chain L lo [] = (lo \<le> length L)"
| "chain L lo ((d, None) # cs) = False"
| "chain L lo ((d, Some e) # cs) = (frame_of L e d \<and> lo + length d \<le> e \<and> chain L e cs)"

definition covers :: "string \<Rightarrow> nat \<Rightarrow> string \<Rightarrow> nat \<Rightarrow> bool" where
  "covers L lo d e \<longleftrightarrow> lo + length d \<le> e \<and> (lo + length d = e \<longrightarrow> d = slice L lo e)"

fun emits_ok :: "string \<Rightarrow> nat \<Rightarrow> chunk list \<Rightarrow> bool" where
  "emits_ok L lo [] = True"
| "emits_ok L lo ((d, None) # cs) = False"
| "emits_ok L lo ((d, Some e) # cs) = (covers L lo d e \<and> e \<le> length L \<and> emits_ok L e cs)"

definition last_end :: "chunk list \<Rightarrow> nat" where
  "last_end cs = (if cs = [] then 0 else case snd (last cs) of Some e \<Rightarrow> e | None \<Rightarrow> 0)"

definition delivery_inv :: "string \<Rightarrow> delivery \<Rightarrow> bool" where
  "delivery_inv L s \<longleftrightarrow>
    emits_ok L 0 (dl_emits s)
    \<and> fg_sent_seq (dl_flow s) = last_end (dl_emits s)
    \<and> rb_pushed_seq (dl_replay s) = length L
    \<and> length (dl_channel s) \<le> OUTPUT_BATCH_CHANNEL_CAPACITY
    \<and> (\<exists>cov. covers L (last_end (dl_emits s)) (dl_batch s) cov \<and> chain L cov (dl_channel s)
         \<and> (dl_batch_end_seq s = Some cov \<or> dl_batch_end_seq s = None \<and> dl_batch s = []))"

lemma slice_grow: "b \<le> length L \<Longrightarrow> slice (L @ x) a b = slice L a b"
  by (simp add: slice_def)

lemma frame_of_grow: "frame_of L e d \<Longrightarrow> frame_of (L @ x) e d"
  by (auto simp: frame_of_def slice_grow)

lemma covers_grow: "covers L lo d e \<Longrightarrow> e \<le> length L \<Longrightarrow> covers (L @ x) lo d e"
  by (auto simp: covers_def slice_grow)

lemma chain_grow: "chain L lo cs \<Longrightarrow> chain (L @ x) lo cs"
  by (induction L lo cs rule: chain.induct) (auto simp: frame_of_grow)

lemma chain_le: "chain L lo cs \<Longrightarrow> lo \<le> length L"
  by (induction L lo cs rule: chain.induct) (auto simp: frame_of_def)

lemma chain_snoc:
  "chain L lo cs \<Longrightarrow> chain (L @ d) lo (cs @ [(d, Some (length (L @ d)))])"
  by (induction L lo cs rule: chain.induct)
     (auto simp: frame_of_grow frame_of_def slice_def)

lemma emits_ok_grow: "emits_ok L lo cs \<Longrightarrow> emits_ok (L @ x) lo cs"
  by (induction L lo cs rule: emits_ok.induct) (auto simp: covers_grow)

lemma emits_ok_snoc:
  "emits_ok L lo cs \<Longrightarrow>
    emits_ok L lo (cs @ [(d, Some e)]) \<longleftrightarrow>
      covers L (if cs = [] then lo else last_end cs) d e \<and> e \<le> length L"
  by (induction L lo cs rule: emits_ok.induct) (auto simp: last_end_def)

lemma covers_append:
  assumes "covers L lo b cov" and "frame_of L e d" and "cov + length d \<le> e"
  shows "covers L lo (b @ d) e"
proof -
  from assms(2) have d: "d = slice L (e - length d) e" "e \<le> length L" by (auto simp: frame_of_def)
  have "b @ d = slice L lo e" if "lo + length (b @ d) = e"
  proof -
    from that assms have "lo + length b = cov" "cov = e - length d" by (auto simp: covers_def)
    with assms(1) d slice_append [of lo cov e L] show ?thesis
      by (auto simp: covers_def)
  qed
  with assms show ?thesis by (auto simp: covers_def)
qed

lemma drain_inv:
  assumes "covers L lo b cov" and "chain L cov cs" and "drain cs b (Some cov) = (cs', b', sq)"
  shows "\<exists>cov'. sq = Some cov' \<and> covers L lo b' cov' \<and> chain L cov' cs' \<and> length cs' \<le> length cs"
  using assms
proof (induction cs b "Some cov" arbitrary: cov rule: drain.induct)
  case (2 d more_seq rest b)
  then obtain e where e: "more_seq = Some e" by (cases more_seq) auto
  with "2.prems" have cov: "covers L lo (b @ d) e" "chain L e rest"
    by (auto intro: covers_append)
  show ?case
  proof (cases "BATCH_SIZE_THRESHOLD \<le> length (b @ d)")
    case True
    with "2.prems"(3) cov e show ?thesis by (auto simp: Let_def)
  next
    case False
    from "2.hyps" [OF refl False e cov] "2.prems"(3) False e show ?thesis
      by (auto simp: Let_def)
  qed
qed auto

lemma delivery_invI:
  assumes "emits_ok L 0 (dl_emits s)" and "fg_sent_seq (dl_flow s) = last_end (dl_emits s)"
    and "rb_pushed_seq (dl_replay s) = length L"
    and "length (dl_channel s) \<le> OUTPUT_BATCH_CHANNEL_CAPACITY"
    and "covers L (last_end (dl_emits s)) (dl_batch s) cov" and "chain L cov (dl_channel s)"
    and "dl_batch_end_seq s = Some cov \<or> dl_batch_end_seq s = None \<and> dl_batch s = []"
  shows "delivery_inv L s"
  using assms unfolding delivery_inv_def by blast

lemma covers_Nil: "lo \<le> cov \<Longrightarrow> covers L lo [] cov"
  by (simp add: covers_def slice_def)

lemma emit_batch_inv:
  assumes "delivery_inv L s" and "dl_batch_end_seq s = Some cov"
  shows "delivery_inv L (emit_batch ok s)"
proof -
  from assms have inv: "emits_ok L 0 (dl_emits s)" "fg_sent_seq (dl_flow s) = last_end (dl_emits s)"
    "rb_pushed_seq (dl_replay s) = length L"
    "length (dl_channel s) \<le> OUTPUT_BATCH_CHANNEL_CAPACITY"
    "covers L (last_end (dl_emits s)) (dl_batch s) cov" "chain L cov (dl_channel s)"
    by (auto simp: delivery_inv_def)
  have le: "last_end (dl_emits s) \<le> cov" using inv(5) by (simp add: covers_def)
  show ?thesis
  proof (cases ok)
    case True
    have "emits_ok L 0 (dl_emits s @ [(dl_batch s, Some cov)])"
      using inv(1,5) chain_le [OF inv(6)] by (cases "dl_emits s = []")
        (auto simp: emits_ok_snoc last_end_def)
    then show ?thesis
      using True inv le assms(2)
      by (intro delivery_invI [of _ _ cov])
         (simp_all add: emit_batch_def Let_def note_sent_def last_end_def covers_Nil max_def)
  next
    case False
    with inv le show ?thesis
      by (intro delivery_invI [of _ _ cov]) (simp_all add: emit_batch_def Let_def covers_Nil)
  qed
qed

lemma batch_recv_inv:
  assumes "delivery_inv L s"
  shows "delivery_inv L (batch_recv now now2 ok s)"
proof (cases "dl_channel s")
  case Nil
  with assms show ?thesis by (simp add: batch_recv_def)
next
  case (Cons c rest)
  from assms obtain cov where inv: "emits_ok L 0 (dl_emits s)"
    "fg_sent_seq (dl_flow s) = last_end (dl_emits s)" "rb_pushed_seq (dl_replay s) = length L"
    "length (dl_channel s) \<le> OUTPUT_BATCH_CHANNEL_CAPACITY"
    "covers L (last_end (dl_emits s)) (dl_batch s) cov" "chain L cov (dl_channel s)"
    by (auto simp: delivery_inv_def)
  with Cons obtain d e where c: "c = (d, Some e)"
    by (cases c) (auto elim: chain.elims)
  with inv Cons have fr: "frame_of L e d" "cov + length d \<le> e" "chain L e rest" by simp_all
  obtain ch b sq where dr: "drain rest (dl_batch s @ d) (Some e) = (ch, b, sq)"
    by (metis prod_cases3)
  from drain_inv [OF covers_append [OF inv(5) fr(1,2)] fr(3) dr] obtain cov' where
    d: "sq = Some cov'" "covers L (last_end (dl_emits s)) b cov'" "chain L cov' ch"
      "length ch \<le> length rest" by blast
  let ?clock = "clock_note_data (dl_clock s) now"
  let ?s = "s\<lparr>dl_clock := ?clock, dl_channel := ch, dl_batch := b, dl_batch_end_seq := sq\<rparr>"
  have s: "delivery_inv L ?s"
    using inv d Cons by (intro delivery_invI [of _ _ cov']) simp_all
  have "delivery_inv L (emit_batch ok ?s)"
    by (rule emit_batch_inv [OF s]) (simp add: d(1))
  then have "delivery_inv L ((emit_batch ok ?s)\<lparr>dl_clock := clock_clear ?clock\<rparr>)"
    by (simp add: delivery_inv_def)
  with s Cons c dr show ?thesis by (simp add: batch_recv_def Let_def)
qed

lemma batch_flush_inv:
  assumes "delivery_inv L s"
  shows "delivery_inv L (if dl_batch s \<noteq> [] then emit_batch ok s else s)"
proof (cases "dl_batch s = []")
  case False
  with assms obtain cov where "dl_batch_end_seq s = Some cov" by (auto simp: delivery_inv_def)
  from emit_batch_inv [OF assms this] False show ?thesis by simp
qed (use assms in simp)

lemma evict_front_pushed [simp]: "rb_pushed_seq (evict_front r) = rb_pushed_seq r"
  by (simp add: evict_front_def Let_def prune_geometry_marks_def set_window_def split: option.split)

lemma replay_push_pushed [simp]: "rb_pushed_seq (replay_push r d) = rb_pushed_seq r + length d"
  by (simp add: replay_push_def Let_def update_buffer_mode_def)

lemma send_chunk_inv:
  assumes "delivery_inv L s"
  shows "delivery_inv (L @ d) (send_chunk s d)"
proof -
  from assms obtain cov where inv: "emits_ok L 0 (dl_emits s)"
    "fg_sent_seq (dl_flow s) = last_end (dl_emits s)" "rb_pushed_seq (dl_replay s) = length L"
    "length (dl_channel s) \<le> OUTPUT_BATCH_CHANNEL_CAPACITY"
    "covers L (last_end (dl_emits s)) (dl_batch s) cov" "chain L cov (dl_channel s)"
    "dl_batch_end_seq s = Some cov \<or> dl_batch_end_seq s = None \<and> dl_batch s = []"
    by (auto simp: delivery_inv_def)
  have cov: "covers (L @ d) (last_end (dl_emits s)) (dl_batch s) cov"
    using inv(5) chain_le [OF inv(6)] by (rule covers_grow)
  have "chain (L @ d) cov (dl_channel s @ [(d, Some (length (L @ d)))])"
    using inv(6) by (rule chain_snoc)
  with inv cov show ?thesis
    by (intro delivery_invI [of _ _ cov])
       (auto simp: send_chunk_def Let_def emits_ok_grow chain_grow)
qed

lemma delivery_inv_step:
  assumes "delivery_inv L s"
  shows "delivery_inv (L @ read_data gbk s op) (delivery_step gbk s op)"
proof (cases op)
  case (DRead bytes)
  have carry: "delivery_inv L (s\<lparr>dl_carry := c\<rparr>)" for c
    using assms by (simp add: delivery_inv_def)
  show ?thesis
    using assms carry send_chunk_inv [OF carry]
    by (auto simp: DRead read_data_def read_bytes_def split: prod.split option.split)
next
  case (DBatch now now2 ok)
  with batch_recv_inv [OF assms] show ?thesis by (simp add: read_data_def)
next
  case (DTimeout ok)
  have "delivery_inv L (t\<lparr>dl_clock := c\<rparr>) = delivery_inv L t" for t c
    by (simp add: delivery_inv_def)
  with DTimeout batch_flush_inv [OF assms] show ?thesis
    by (simp add: read_data_def batch_timeout_def Let_def split: if_splits)
next
  case (DDisconnected ok)
  with batch_flush_inv [OF assms] show ?thesis
    by (simp add: read_data_def batch_disconnected_def split: if_splits)
next
  case (DAcked now n)
  with assms show ?thesis by (simp add: read_data_def delivery_inv_def note_acked_def Let_def)
next
  case (DInput now)
  with assms show ?thesis by (simp add: read_data_def delivery_inv_def note_input_def)
qed

interpretation delivery: inv_machine "logged_step gbk" "\<lambda>Ls. delivery_inv (fst Ls) (snd Ls)"
  for gbk
  by unfold_locales (simp add: logged_step_def delivery_inv_step)

lemma delivery_init_inv: "fg_sent_seq g = 0 \<Longrightarrow> delivery_inv [] (delivery_init e mx g)"
  by (rule delivery_invI [of _ _ 0])
     (simp_all add: delivery_init_def last_end_def replay_new_def covers_def slice_def)

section \<open>A client of the emitted batches\<close>

definition emitted_frames :: "chunk list \<Rightarrow> cursor_in list" where
  "emitted_frames cs = map (\<lambda>(d, e). InStream (the e) d) cs"

definition client_at :: "string \<Rightarrow> nat \<Rightarrow> client" where
  "client_at L p = \<lparr>cl_cursor = \<lparr>oc_epoch = None, oc_end_seq = Some p\<rparr>, cl_shown = take p L\<rparr>"

lemma client_step_covers:
  assumes "covers L lo d e" and "e \<le> length L"
  shows "client_step L (client_at L lo) (InStream e d) = client_at L e"
proof -
  have le: "lo + length d \<le> e" using assms(1) by (simp add: covers_def)
  consider "e \<le> lo" | "lo < e" "lo + length d = e" | "lo + length d < e" using le by linarith
  then show ?thesis
  proof cases
    case 1
    with le have "lo = e" by simp
    then show ?thesis by (simp add: client_take_def cursor_stream_def client_at_def)
  next
    case 2
    then have d: "d = slice L lo e" "e - length d = lo" using assms(1) by (auto simp: covers_def)
    then have fr: "frame_of L e d" using 2 assms(2) by (simp add: frame_of_def)
    have "take lo L @ slice L lo e = take e L" using take_slice [of lo e L] 2 by simp
    with 2 d(2) show ?thesis
      by (simp add: client_take_def client_at_def cursor_stream_frame [OF fr] is_char_boundary_def)
  next
    case 3
    then have "checked_sub e (length d) = Some (e - length d)" "checked_sub lo (e - length d) = None"
      by (auto simp: checked_sub_def)
    with 3 show ?thesis by (simp add: client_take_def client_at_def cursor_stream_def)
  qed
qed

lemma client_emits:
  "emits_ok L lo cs \<Longrightarrow>
    foldl (client_step L) (client_at L lo) (emitted_frames cs)
      = client_at L (if cs = [] then lo else last_end cs)"
proof (induction L lo cs rule: emits_ok.induct)
  case (3 L lo d e cs)
  then have "covers L lo d e" "e \<le> length L" "emits_ok L e cs" by simp_all
  with "3.IH" client_step_covers show ?case
    by (cases cs) (simp_all add: emitted_frames_def last_end_def del: client_step.simps)
qed (simp_all add: emitted_frames_def)


section \<open>Latency\<close>

text \<open>
  A batch is never held longer than its budget: later chunks do not move the
  deadline set by the first, 16 ms after it; before the deadline the batcher sleeps at most the
  remaining time, and a chunk handled at or after the deadline flushes the batch.
\<close>

theorem batch_deadline_is_anchored:
  "clock_due (foldl clock_note_data None (t # ts)) now = (t + NORMAL_DELAY \<le> now)
    \<and> clock_wait (foldl clock_note_data None (t # ts)) now = (t + NORMAL_DELAY) - now
    \<and> (dl_channel s \<noteq> [] \<and> dl_clock s = foldl clock_note_data None (t # ts)
          \<and> t + NORMAL_DELAY \<le> now \<longrightarrow> dl_batch (batch_recv now' now ok s) = [])"
proof -
  have anchor: "foldl clock_note_data (Some dd) ts = Some dd" for dd
    by (induction ts) (simp_all add: clock_note_data_def)
  then have "foldl clock_note_data None (t # ts) = Some (t + NORMAL_DELAY)"
    by (simp add: clock_note_data_def)
  then show ?thesis
    by (auto simp: clock_due_def clock_wait_def batch_recv_def clock_note_data_def emit_batch_def
        Let_def split: list.split prod.split)
qed

theorem batch_deadline_is_anchored_witness:
  "dl_batch (batch_recv 5 (from_millis 17) True
     ((delivery_init 1 9 flow_new)\<lparr>dl_channel := [(''a'', Some 1)], dl_clock := Some (from_millis 16)\<rparr>))
   = []"
  using batch_deadline_is_anchored [of 0 "[]" "from_millis 17"
    "(delivery_init 1 9 flow_new)\<lparr>dl_channel := [(''a'', Some 1)], dl_clock := Some (from_millis 16)\<rparr>" 5 True]
  by (simp add: clock_note_data_def NORMAL_DELAY_def from_millis_def)

end
