(* ===== verification/Osc_Detect.thy ===== *)
theory Osc_Detect
  imports Rust_Text Machines
begin

text \<open>
  The detector of in-band status signals
  (\<open>terminal_service/osc_state_detect.rs\<close>): OSC 777 markers of the hooks, OSC 133 command
  marks, OSC 9;4 progress. \<open>osc_process\<close> is the loop of the code, which in the Ground state
  skips to the next ESC; \<open>osc_step\<close> is the machine byte by byte.
\<close>

section \<open>Model\<close>

abbreviation ESC :: char where "ESC \<equiv> CHR 0x1B"
abbreviation BEL :: char where "BEL \<equiv> CHR 0x07"
abbreviation OSC_INTRO :: char where "OSC_INTRO \<equiv> CHR '']''"
abbreviation ST_FINAL :: char where "ST_FINAL \<equiv> CHR 0x5C"
abbreviation SEMI :: char where "SEMI \<equiv> CHR '';''"

definition OSC_MAX :: nat where
  "OSC_MAX = 2048"

definition DEFAULT_AGENTS :: "string list" where
  "DEFAULT_AGENTS = [''claude'', ''codex'', ''gemini'', ''opencode'']"

definition CCPANES_MARKER :: string where
  "CCPANES_MARKER = ''notify;CCPanes;''"

datatype osc_state = OGround | OEsc | OOsc | OOscEsc

datatype progress_state = PgNone | PgRunning | PgPaused | PgError | PgIndeterminate

datatype osc_signal =
    Started string
  | Event string
  | CommandExited "int option"
  | Progress progress_state nat

record osc_detector =
  od_agents :: "string list"
  od_state :: osc_state
  od_osc :: string
  od_armed :: bool

definition osc_new :: osc_detector where
  "osc_new = \<lparr>od_agents = DEFAULT_AGENTS, od_state = OGround, od_osc = [], od_armed = False\<rparr>"

fun progress_state_of :: "nat \<Rightarrow> progress_state option" where
  "progress_state_of n =
    (if n = 0 then Some PgNone else if n = 1 then Some PgRunning else if n = 2 then Some PgPaused
     else if n = 3 then Some PgError else if n = 4 then Some PgIndeterminate else None)"

definition handle_osc9 :: "string \<Rightarrow> osc_signal list" where
  "handle_osc9 pt =
    (case Option.bind (strip_prefix ''4;'' pt) from_utf8 of
       None \<Rightarrow> []
     | Some text \<Rightarrow>
         (let (state_s, progress_s) =
                (case split_once SEMI text of Some (a, b) \<Rightarrow> (a, Some b) | None \<Rightarrow> (text, None))
          in case Option.bind (parse_unsigned 255 (trim state_s)) progress_state_of of
               None \<Rightarrow> []
             | Some st \<Rightarrow>
                 (let p = (case Option.bind progress_s (\<lambda>s. parse_unsigned 65535 (trim s)) of
                             Some n \<Rightarrow> n | None \<Rightarrow> 0)
                  in [Progress st (min p 100)])))"

definition handle_osc777 :: "osc_detector \<Rightarrow> string \<Rightarrow> osc_detector \<times> osc_signal list" where
  "handle_osc777 d pt =
    (case strip_prefix CCPANES_MARKER pt of
       None \<Rightarrow> (d, [])
     | Some tail \<Rightarrow>
         (case position (\<lambda>c. c = SEMI) tail of
            None \<Rightarrow> (d, [])
          | Some i \<Rightarrow>
              (case from_utf8 (take i tail) of
                 None \<Rightarrow> (d, [])
               | Some agent \<Rightarrow>
                   if agent \<notin> set (od_agents d) then (d, [])
                   else (case from_utf8 (drop (Suc i) tail) of
                           None \<Rightarrow> (d, [])
                         | Some event \<Rightarrow>
                             if event = [] \<or> 64 < length event then (d, [])
                             else (d\<lparr>od_armed := True\<rparr>, [Event event])))))"

text \<open>The text after the last path separator; one of two extensions is cut off.\<close>

definition base_name :: "string \<Rightarrow> string" where
  "base_name token =
    (let base = drop (rposition_len (\<lambda>c. c = CHR ''/'' \<or> c = CHR 0x5C) token) token in
     case strip_suffix ''.exe'' base of
       Some b \<Rightarrow> b
     | None \<Rightarrow> (case strip_suffix ''.cmd'' base of Some b \<Rightarrow> b | None \<Rightarrow> base))"

definition agent_matches :: "string \<Rightarrow> string \<Rightarrow> bool" where
  "agent_matches base a =
    (case strip_prefix a base of
       Some rest \<Rightarrow> rest = [] \<or> hd rest = CHR ''-''
     | None \<Rightarrow> False)"

fun match_tokens :: "string list \<Rightarrow> string list \<Rightarrow> string option" where
  "match_tokens agents [] = None"
| "match_tokens agents (token # tokens) =
    (if token \<noteq> [] \<and> hd token = CHR ''-'' then match_tokens agents tokens
     else (case find (agent_matches (base_name token)) agents of
             Some agent \<Rightarrow> Some agent
           | None \<Rightarrow> match_tokens agents tokens))"

definition match_agent :: "osc_detector \<Rightarrow> string \<Rightarrow> string option" where
  "match_agent d cmd =
    Option.bind (from_utf8 cmd) (\<lambda>s. match_tokens (od_agents d) (split_whitespace s))"

definition handle_osc133 :: "osc_detector \<Rightarrow> string \<Rightarrow> osc_detector \<times> osc_signal list" where
  "handle_osc133 d pt =
    (case pt of
       [] \<Rightarrow> (d, [])
     | c # _ \<Rightarrow>
         if c = CHR ''C'' then
           (if od_armed d then (d, [])
            else (let cmd = (case strip_prefix ''C;'' pt of Some r \<Rightarrow> r | None \<Rightarrow> []) in
              case match_agent d cmd of
                Some agent \<Rightarrow> (d\<lparr>od_armed := True\<rparr>, [Started agent])
              | None \<Rightarrow> (d, [])))
         else if c = CHR ''D'' \<and> od_armed d then
           (d\<lparr>od_armed := False\<rparr>,
            [CommandExited (Option.bind (Option.bind (strip_prefix ''D;'' pt) from_utf8)
                              (\<lambda>s. parse_i32 (trim s)))])
         else (d, []))"

definition finish_osc :: "osc_detector \<Rightarrow> osc_detector \<times> osc_signal list" where
  "finish_osc d =
    (let body = od_osc d; d1 = d\<lparr>od_osc := []\<rparr>;
         (ps, pt) = (case position (\<lambda>c. c = SEMI) body of
                       Some i \<Rightarrow> (take i body, drop (Suc i) body)
                     | None \<Rightarrow> (body, []))
     in if ps = ''133'' then handle_osc133 d1 pt
        else if ps = ''777'' then handle_osc777 d1 pt
        else if ps = ''9'' then (d1, handle_osc9 pt)
        else (d1, []))"

definition to_ground :: "osc_detector \<times> osc_signal list \<Rightarrow> osc_detector \<times> osc_signal list" where
  "to_ground r = ((fst r)\<lparr>od_state := OGround\<rparr>, snd r)"

text \<open>One byte in a state other than Ground.\<close>

definition osc_byte :: "osc_detector \<Rightarrow> char \<Rightarrow> osc_detector \<times> osc_signal list" where
  "osc_byte d b =
    (case od_state d of
       OGround \<Rightarrow> (d, [])
     | OEsc \<Rightarrow>
         if b = OSC_INTRO then (d\<lparr>od_state := OOsc, od_osc := []\<rparr>, [])
         else if b = ESC then (d, [])
         else (d\<lparr>od_state := OGround\<rparr>, [])
     | OOsc \<Rightarrow>
         if b = BEL then to_ground (finish_osc d)
         else if b = ESC then (d\<lparr>od_state := OOscEsc\<rparr>, [])
         else if length (od_osc d) < OSC_MAX then (d\<lparr>od_osc := od_osc d @ [b]\<rparr>, [])
         else (d\<lparr>od_osc := [], od_state := OGround\<rparr>, [])
     | OOscEsc \<Rightarrow>
         if b = ST_FINAL then to_ground (finish_osc d)
         else if b = ESC then (d, [])
         else (d\<lparr>od_osc := [], od_state := OGround\<rparr>, []))"

text \<open>The loop of \<open>process\<close> on the rest of the input.\<close>

function osc_process :: "osc_detector \<Rightarrow> string \<Rightarrow> osc_detector \<times> osc_signal list" where
  "osc_process d input =
    (case input of
       [] \<Rightarrow> (d, [])
     | b # rest \<Rightarrow>
         if od_state d = OGround then
           (case position (\<lambda>x. x = ESC) input of
              Some offset \<Rightarrow> osc_process (d\<lparr>od_state := OEsc\<rparr>) (drop (Suc offset) input)
            | None \<Rightarrow> (d, []))
         else (let (d1, o1) = osc_byte d b; (d2, o2) = osc_process d1 rest in (d2, o1 @ o2)))"
  by pat_completeness auto
termination
  by (relation "measure (\<lambda>(d, input). length input)") auto

declare osc_process.simps [simp del]

definition osc_step :: "osc_detector \<Rightarrow> char \<Rightarrow> osc_detector \<times> osc_signal list" where
  "osc_step d b =
    (if od_state d = OGround then ((if b = ESC then d\<lparr>od_state := OEsc\<rparr> else d), [])
     else osc_byte d b)"

section \<open>The skip loop is the byte machine\<close>

lemma feed_ground_skip:
  "od_state d = OGround \<Longrightarrow> \<forall>b \<in> set xs. b \<noteq> ESC \<Longrightarrow> feed osc_step d xs = (d, [])"
  by (induction xs) (simp_all add: osc_step_def)

lemma osc_process_feed: "osc_process d input = feed osc_step d input"
proof (induction d input rule: osc_process.induct)
  case (1 d input)
  show ?case
  proof (cases input)
    case Nil
    then show ?thesis by (simp add: osc_process.simps)
  next
    case (Cons b rest)
    show ?thesis
    proof (cases "od_state d = OGround")
      case False
      obtain d1 o1 where db: "osc_byte d b = (d1, o1)" by fastforce
      from False db have st: "osc_step d b = (d1, o1)" by (simp add: osc_step_def)
      have "osc_process d1 rest = feed osc_step d1 rest"
        using "1.IH"(2) [OF Cons False refl db [symmetric]] .
      with Cons False db st show ?thesis
        by (subst osc_process.simps) (simp add: Let_def)
    next
      case True
      show ?thesis
      proof (cases "position (\<lambda>x. x = ESC) input")
        case None
        then have "\<forall>x \<in> set input. x \<noteq> ESC" by (simp add: position_None)
        from feed_ground_skip [OF True this] True None Cons show ?thesis
          by (subst osc_process.simps) simp
      next
        case (Some off)
        from position_Some [OF Some] have
          off: "off < length input" "input ! off = ESC" "\<forall>x \<in> set (take off input). x \<noteq> ESC" by auto
        have split: "input = take off input @ ESC # drop (Suc off) input"
          using off(1,2) by (metis id_take_nth_drop)
        have "feed osc_step d input = feed osc_step (d\<lparr>od_state := OEsc\<rparr>) (drop (Suc off) input)"
          by (subst split, subst feed_append)
             (simp add: feed_ground_skip [OF True off(3)] osc_step_def True Let_def case_prod_beta)
        with "1.IH"(1) [OF Cons True Some] True Some Cons show ?thesis
          by (subst osc_process.simps) simp
      qed
    qed
  qed
qed

interpretation osc: stream_detector osc_step osc_process
  by unfold_locales (rule osc_process_feed)

section \<open>Bounds\<close>

definition osc_wf :: "osc_detector \<Rightarrow> bool" where
  "osc_wf d \<longleftrightarrow> od_agents d = DEFAULT_AGENTS \<and> length (od_osc d) \<le> OSC_MAX"

fun signal_ok :: "osc_signal \<Rightarrow> bool" where
  "signal_ok (Started a) = (a \<in> set DEFAULT_AGENTS)"
| "signal_ok (Event n) = (n \<noteq> [] \<and> length n \<le> 64 \<and> valid_utf8 n)"
| "signal_ok (CommandExited c) = (\<forall>n. c = Some n \<longrightarrow> - 2147483648 \<le> n \<and> n \<le> 2147483647)"
| "signal_ok (Progress st p) = (p \<le> 100)"

lemma parse_i32_bounds: "parse_i32 s = Some n \<Longrightarrow> - 2147483648 \<le> n \<and> n \<le> 2147483647"
  by (auto simp: parse_i32_def parse_unsigned_def Let_def split: list.splits if_splits option.splits)

lemma match_tokens_agent: "match_tokens agents ts = Some a \<Longrightarrow> a \<in> set agents"
  by (induction ts) (auto split: if_splits option.splits simp: find_Some_iff)

lemma handle_osc9_ok: "list_all signal_ok (handle_osc9 pt)"
  by (auto simp: handle_osc9_def Let_def split: option.split prod.split)

lemma handle_osc777_ok:
  "osc_wf d \<Longrightarrow> osc_wf (fst (handle_osc777 d pt)) \<and> list_all signal_ok (snd (handle_osc777 d pt))"
  by (auto simp: handle_osc777_def osc_wf_def from_utf8_Some split: option.split)

lemma handle_osc133_ok:
  "osc_wf d \<Longrightarrow> osc_wf (fst (handle_osc133 d pt)) \<and> list_all signal_ok (snd (handle_osc133 d pt))"
  by (auto simp: handle_osc133_def osc_wf_def match_agent_def bind_eq_Some_conv Let_def
      dest: match_tokens_agent parse_i32_bounds split: option.split list.split)

lemma finish_osc_ok:
  assumes "osc_wf d"
  shows "osc_wf (fst (finish_osc d)) \<and> list_all signal_ok (snd (finish_osc d))"
proof -
  have "osc_wf (d\<lparr>od_osc := []\<rparr>)" using assms by (simp add: osc_wf_def)
  then show ?thesis
    by (simp add: finish_osc_def Let_def case_prod_beta handle_osc777_ok handle_osc133_ok
        handle_osc9_ok)
qed

lemma osc_step_ok: "osc_wf d \<Longrightarrow> osc_wf (fst (osc_step d b)) \<and> list_all signal_ok (snd (osc_step d b))"
  using finish_osc_ok [of d]
  by (auto simp: osc_step_def osc_byte_def to_ground_def split: osc_state.split)
     (simp_all add: osc_wf_def)

interpretation osc_bounded: bounded_detector osc_step osc_process osc_wf signal_ok
  by unfold_locales (rule osc_step_ok)

lemma osc_new_wf [simp]: "osc_wf osc_new"
  by (simp add: osc_wf_def osc_new_def)

section \<open>Arming\<close>

text \<open>
  What the signals say about the agent: running or not. A command exit is only reported for an
  agent that was seen running, and then counts once.
\<close>

fun arming :: "bool \<Rightarrow> osc_signal list \<Rightarrow> bool option" where
  "arming armed [] = Some armed"
| "arming armed (Started a # sigs) = (if armed then None else arming True sigs)"
| "arming armed (Event n # sigs) = arming True sigs"
| "arming armed (CommandExited c # sigs) = (if armed then arming False sigs else None)"
| "arming armed (Progress st p # sigs) = arming armed sigs"

lemma arming_append:
  "arming a (xs @ ys) = Option.bind (arming a xs) (\<lambda>a'. arming a' ys)"
  by (induction a xs rule: arming.induct) auto

lemma handle_osc9_arming: "arming a (handle_osc9 pt) = Some a"
  by (auto simp: handle_osc9_def Let_def split: option.split prod.split)

lemma handle_osc777_arming:
  "arming (od_armed d) (snd (handle_osc777 d pt)) = Some (od_armed (fst (handle_osc777 d pt)))"
  by (auto simp: handle_osc777_def split: option.split)

lemma handle_osc133_arming:
  "arming (od_armed d) (snd (handle_osc133 d pt)) = Some (od_armed (fst (handle_osc133 d pt)))"
  by (auto simp: handle_osc133_def Let_def split: option.split list.split)

lemma finish_osc_arming: "arming (od_armed d) (snd (finish_osc d)) = Some (od_armed (fst (finish_osc d)))"
  using handle_osc777_arming [of "d\<lparr>od_osc := []\<rparr>"] handle_osc133_arming [of "d\<lparr>od_osc := []\<rparr>"]
  by (simp add: finish_osc_def Let_def case_prod_beta handle_osc9_arming)

lemma osc_step_arming: "arming (od_armed d) (snd (osc_step d b)) = Some (od_armed (fst (osc_step d b)))"
  using finish_osc_arming [of d]
  by (auto simp: osc_step_def osc_byte_def to_ground_def split: osc_state.split)

lemma feed_arming: "arming (od_armed d) (snd (feed osc_step d bs)) = Some (od_armed (fst (feed osc_step d bs)))"
proof (induction bs arbitrary: d)
  case (Cons b bs)
  from Cons.IH [of "fst (osc_step d b)"] osc_step_arming [of d b] show ?case
    by (simp add: Let_def case_prod_beta arming_append)
qed simp

section \<open>Properties\<close>

text \<open>
  Property C8. The detector sees the stream, not the reads: for any way of cutting the output
  into reads, its final state and its signals are those of the byte-by-byte machine on the
  whole output. Skipping to the next ESC changes nothing.
\<close>

theorem osc_reads_irrelevant:
  "process_chunks osc_process d reads = feed osc_step d (concat reads)"
  by (simp add: osc.process_chunks_concat osc_process_feed)

text \<open>
  Hostile output cannot overrun the detector or forge what it reports: whatever the
  bytes, the buffer stays within 2048 bytes, an agent is one of the known ones, an event name has
  1 to 64 bytes of UTF-8, a percentage is at most 100, an exit code is an i32; and command exits
  alternate with agent starts or events.
\<close>

theorem osc_output_bounded:
  "length (od_osc (fst (process_chunks osc_process osc_new reads))) \<le> OSC_MAX
    \<and> list_all signal_ok (snd (process_chunks osc_process osc_new reads))
    \<and> arming False (snd (process_chunks osc_process osc_new reads))
        = Some (od_armed (fst (process_chunks osc_process osc_new reads)))"
proof -
  have "arming (od_armed osc_new) (snd (process_chunks osc_process osc_new reads))
      = Some (od_armed (fst (process_chunks osc_process osc_new reads)))"
    by (simp add: osc.process_chunks_concat osc_process_feed feed_arming)
  then show ?thesis
    using osc_bounded.process_chunks_wf [OF osc_new_wf, of reads]
    by (simp add: osc_wf_def osc_new_def)
qed

definition osc_marker :: "string \<Rightarrow> string \<Rightarrow> string" where
  "osc_marker agent event =
    [ESC, OSC_INTRO] @ ''777;'' @ CCPANES_MARKER @ agent @ [SEMI] @ event @ [BEL]"

lemma feed_osc_body:
  "od_state d = OOsc \<Longrightarrow> ESC \<notin> set xs \<Longrightarrow> BEL \<notin> set xs \<Longrightarrow> length (od_osc d) + length xs \<le> OSC_MAX \<Longrightarrow>
    feed osc_step d xs = (d\<lparr>od_osc := od_osc d @ xs\<rparr>, [])"
proof (induction xs arbitrary: d)
  case (Cons x xs)
  then have "osc_step d x = (d\<lparr>od_osc := od_osc d @ [x]\<rparr>, [])"
    by (auto simp: osc_step_def osc_byte_def)
  with Cons show ?case by simp
qed simp

lemma finish_marker:
  assumes "od_osc d = ''777;'' @ CCPANES_MARKER @ agent @ [SEMI] @ event"
    and "od_agents d = DEFAULT_AGENTS" and "agent \<in> set DEFAULT_AGENTS"
    and "valid_utf8 event" and "event \<noteq> []" and "length event \<le> 64"
  shows "finish_osc d = (d\<lparr>od_osc := [], od_armed := True\<rparr>, [Event event])"
proof -
  have agent: "SEMI \<notin> set agent" "\<forall>c \<in> set agent. is_ascii c"
    using assms(3) by (auto simp: DEFAULT_AGENTS_def is_ascii_def)
  have p1: "position (\<lambda>c. c = SEMI) (od_osc d) = Some 3"
    using assms(1) by simp
  have p2: "position (\<lambda>c. c = SEMI) (agent @ SEMI # event) = Some (length agent)"
    using agent(1) by (intro position_append_hit) auto
  have "handle_osc777 (d\<lparr>od_osc := []\<rparr>) (CCPANES_MARKER @ agent @ SEMI # event)
      = (d\<lparr>od_osc := [], od_armed := True\<rparr>, [Event event])"
    using assms agent valid_utf8_ascii [OF agent(2)]
    by (simp add: handle_osc777_def p2 from_utf8_def)
  then show ?thesis
    using assms(1) p1 by (simp add: finish_osc_def Let_def)
qed

lemma feed_marker:
  assumes "od_agents d = DEFAULT_AGENTS" and "od_state d = OGround"
    and "agent \<in> set DEFAULT_AGENTS"
    and "valid_utf8 event" and "event \<noteq> []" and "length event \<le> 64"
    and "ESC \<notin> set event" and "BEL \<notin> set event"
  shows "feed osc_step d (osc_marker agent event)
    = (d\<lparr>od_osc := [], od_armed := True\<rparr>, [Event event])"
proof -
  let ?body = "''777;'' @ CCPANES_MARKER @ agent @ [SEMI] @ event"
  let ?d = "d\<lparr>od_state := OOsc, od_osc := []\<rparr>"
  have open_osc: "feed osc_step d [ESC, OSC_INTRO] = (?d, [])"
    using assms(2) by (simp add: osc_step_def osc_byte_def)
  have "length agent \<le> 8" "ESC \<notin> set agent" "BEL \<notin> set agent"
    using assms(3) by (auto simp: DEFAULT_AGENTS_def)
  then have body: "feed osc_step ?d ?body = (?d\<lparr>od_osc := ?body\<rparr>, [])"
    using assms(6-8) by (subst feed_osc_body) (auto simp: CCPANES_MARKER_def OSC_MAX_def)
  have fin: "finish_osc (?d\<lparr>od_osc := ?body\<rparr>) = (?d\<lparr>od_osc := [], od_armed := True\<rparr>, [Event event])"
    using assms(1,3-6) by (subst finish_marker [where agent = agent and event = event]) simp_all
  have close: "feed osc_step (?d\<lparr>od_osc := ?body\<rparr>) [BEL]
      = (d\<lparr>od_osc := [], od_armed := True\<rparr>, [Event event])"
    using fin assms(2) by (simp add: osc_step_def osc_byte_def to_ground_def)
  have "osc_marker agent event = [ESC, OSC_INTRO] @ ?body @ [BEL]" by (simp add: osc_marker_def)
  then show ?thesis
    using feed_cat [OF open_osc feed_cat [OF body close]] by simp
qed

text \<open>
  The marker of a hook gets through: written by the hook for a known agent with an
  event of 1 to 64 bytes of UTF-8 (no ESC, no BEL), and received in any pieces by a detector
  that is not inside a sequence, it gives exactly that event, once, and arms the detector.
\<close>

theorem osc_marker_roundtrip:
  assumes "od_agents d = DEFAULT_AGENTS" and "od_state d = OGround"
    and "agent \<in> set DEFAULT_AGENTS"
    and "valid_utf8 event" and "event \<noteq> []" and "length event \<le> 64"
    and "ESC \<notin> set event" and "BEL \<notin> set event"
    and "concat reads = osc_marker agent event"
  shows "process_chunks osc_process d reads
    = (d\<lparr>od_osc := [], od_armed := True\<rparr>, [Event event])"
  using feed_marker [OF assms(1-8)] assms(9)
  by (simp add: osc.process_chunks_concat osc_process_feed)

theorem osc_marker_roundtrip_witness:
  "process_chunks osc_process osc_new
      [[ESC, OSC_INTRO] @ ''777;notify;CCPa'', ''nes;codex;turn'', ''-end'' @ [BEL]]
    = (osc_new\<lparr>od_armed := True\<rparr>, [Event ''turn-end''])"
proof -
  have v: "valid_utf8 ''turn-end''" by (rule valid_utf8_ascii) (simp add: is_ascii_def)
  have "process_chunks osc_process osc_new
      [[ESC, OSC_INTRO] @ ''777;notify;CCPa'', ''nes;codex;turn'', ''-end'' @ [BEL]]
    = (osc_new\<lparr>od_osc := [], od_armed := True\<rparr>, [Event ''turn-end''])"
    by (rule osc_marker_roundtrip [where agent = "''codex''"])
       (simp_all add: osc_new_def v osc_marker_def CCPANES_MARKER_def DEFAULT_AGENTS_def)
  then show ?thesis by (simp add: osc_new_def)
qed

end
