(* ===== verification/Csi_Mode.thy ===== *)
theory Csi_Mode
  imports Rust_Text Machines
begin

text \<open>
  The detector of DEC private modes (\<open>terminal_service/csi_mode_detect.rs\<close>): it follows
  \<open>ESC [ ? params h\<close> or \<open>l\<close> byte by byte and reports bracketed paste and the end of the
  alternate screen. Parameters are \<open>u16\<close> with checked arithmetic.
\<close>

section \<open>Model\<close>

datatype csi_signal = PasteReady bool | AlternateBufferExited

datatype csi_state = CGround | CEsc | CCsi | CPrivate

record csi_detector =
  cd_state :: csi_state
  cd_params :: "nat list"
  cd_current_param :: "nat option"
  cd_invalid_param :: bool

definition csi_new :: csi_detector where
  "csi_new = \<lparr>cd_state = CGround, cd_params = [], cd_current_param = None, cd_invalid_param = False\<rparr>"

definition checked_u16 :: "nat \<Rightarrow> nat option" where
  "checked_u16 n = (if n \<le> 65535 then Some n else None)"

definition push_digit :: "csi_detector \<Rightarrow> nat \<Rightarrow> csi_detector" where
  "push_digit d digit =
    (let v = (case cd_current_param d of Some v \<Rightarrow> v | None \<Rightarrow> 0) in
     case Option.bind (checked_u16 (v * 10)) (\<lambda>v. checked_u16 (v + digit)) of
       Some v \<Rightarrow> d\<lparr>cd_current_param := Some v\<rparr>
     | None \<Rightarrow> d\<lparr>cd_invalid_param := True\<rparr>)"

definition finish_param :: "csi_detector \<Rightarrow> csi_detector" where
  "finish_param d =
    (case cd_current_param d of
       Some p \<Rightarrow> d\<lparr>cd_current_param := None, cd_params := cd_params d @ [p]\<rparr>
     | None \<Rightarrow> d\<lparr>cd_invalid_param := True\<rparr>)"

definition reset_params :: "csi_detector \<Rightarrow> csi_detector" where
  "reset_params d = d\<lparr>cd_params := [], cd_current_param := None, cd_invalid_param := False\<rparr>"

definition param_signal :: "char \<Rightarrow> nat \<Rightarrow> csi_signal list" where
  "param_signal final param =
    (if param = 2004 \<and> final = CHR ''h'' then [PasteReady True]
     else if param = 2004 \<and> final = CHR ''l'' then [PasteReady False]
     else if param = 1049 \<and> final = CHR ''l'' then [AlternateBufferExited]
     else [])"

definition csi_final :: "char \<Rightarrow> bool" where
  "csi_final b \<longleftrightarrow> 0x40 \<le> byte_val b \<and> byte_val b \<le> 0x7E"

definition csi_step :: "csi_detector \<Rightarrow> char \<Rightarrow> csi_detector \<times> csi_signal list" where
  "csi_step d b =
    (case cd_state d of
       CGround \<Rightarrow> (if b = CHR 0x1B then d\<lparr>cd_state := CEsc\<rparr> else d, [])
     | CEsc \<Rightarrow>
         (if b = CHR ''['' then d\<lparr>cd_state := CCsi\<rparr>
          else if b = CHR 0x1B then d
          else d\<lparr>cd_state := CGround\<rparr>, [])
     | CCsi \<Rightarrow>
         (if b = CHR ''?'' then (reset_params d)\<lparr>cd_state := CPrivate\<rparr>
          else if b = CHR 0x1B then d\<lparr>cd_state := CEsc\<rparr>
          else if csi_final b then d\<lparr>cd_state := CGround\<rparr>
          else d, [])
     | CPrivate \<Rightarrow>
         if is_digit b then (push_digit d (digit_val b), [])
         else if b = CHR '';'' then (finish_param d, [])
         else if b = CHR ''h'' \<or> b = CHR ''l'' then
           (let d1 = finish_param d in
            ((reset_params d1)\<lparr>cd_state := CGround\<rparr>,
             if cd_invalid_param d1 then [] else concat (map (param_signal b) (cd_params d1))))
         else if b = CHR 0x1B then ((reset_params d)\<lparr>cd_state := CEsc\<rparr>, [])
         else if csi_final b then ((reset_params d)\<lparr>cd_state := CGround\<rparr>, [])
         else (d\<lparr>cd_invalid_param := True\<rparr>, []))"

text \<open>\<open>process\<close> is a \<open>for\<close> over the bytes.\<close>

definition csi_process :: "csi_detector \<Rightarrow> string \<Rightarrow> csi_detector \<times> csi_signal list" where
  "csi_process d bytes = feed csi_step d bytes"

interpretation csi: stream_detector csi_step csi_process
  by unfold_locales (simp add: csi_process_def)

section \<open>Bounds\<close>

definition csi_wf :: "csi_detector \<Rightarrow> bool" where
  "csi_wf d \<longleftrightarrow> list_all (\<lambda>p. p \<le> 65535) (cd_params d)
    \<and> (\<forall>p. cd_current_param d = Some p \<longrightarrow> p \<le> 65535)"

lemma csi_step_wf: "csi_wf d \<Longrightarrow> csi_wf (fst (csi_step d b)) \<and> list_all (\<lambda>_. True) (snd (csi_step d b))"
  by (auto simp: csi_step_def csi_wf_def push_digit_def finish_param_def reset_params_def
      checked_u16_def Let_def list_all_iff bind_eq_Some_conv
      split: csi_state.split option.splits if_splits)

interpretation csi_bounded: bounded_detector csi_step csi_process csi_wf "\<lambda>_. True"
  by unfold_locales (rule csi_step_wf)

section \<open>Mode sequences\<close>

fun join_params :: "nat list \<Rightarrow> string" where
  "join_params [] = []"
| "join_params [p] = dec p"
| "join_params (p # ps) = dec p @ [CHR '';''] @ join_params ps"

definition mode_sequence :: "nat list \<Rightarrow> char \<Rightarrow> string" where
  "mode_sequence ps final = [CHR 0x1B, CHR ''['', CHR ''?''] @ join_params ps @ [final]"

lemma push_digits:
  "cd_state d = CPrivate \<Longrightarrow> list_all is_digit s \<Longrightarrow> s \<noteq> [] \<Longrightarrow> cd_current_param d = None \<Longrightarrow>
    digits_val s \<le> 65535 \<Longrightarrow>
    feed csi_step d s = (d\<lparr>cd_current_param := Some (digits_val s)\<rparr>, [])"
proof (induction s rule: rev_induct)
  case (snoc c s)
  have c: "is_digit c" "digits_val (s @ [c]) = 10 * digits_val s + digit_val c"
    using snoc.prems(2) by (simp_all add: digits_val_snoc)
  show ?case
  proof (cases "s = []")
    case True
    with snoc.prems c show ?thesis
      by (simp add: csi_step_def push_digit_def checked_u16_def digits_val_def)
  next
    case False
    with snoc c have IH: "feed csi_step d s = (d\<lparr>cd_current_param := Some (digits_val s)\<rparr>, [])"
      by simp
    have "feed csi_step (d\<lparr>cd_current_param := Some (digits_val s)\<rparr>) [c]
        = (d\<lparr>cd_current_param := Some (digits_val (s @ [c]))\<rparr>, [])"
      using snoc.prems c by (simp add: csi_step_def push_digit_def checked_u16_def mult.commute)
    from feed_cat [OF IH this] show ?thesis by simp
  qed
qed simp

lemma push_dec:
  "cd_state d = CPrivate \<Longrightarrow> cd_current_param d = None \<Longrightarrow> p \<le> 65535 \<Longrightarrow>
    feed csi_step d (dec p) = (d\<lparr>cd_current_param := Some p\<rparr>, [])"
  using push_digits [of d "dec p"] by (simp add: dec_digits)

lemma feed_params:
  "ps \<noteq> [] \<Longrightarrow> list_all (\<lambda>p. p \<le> 65535) ps \<Longrightarrow> cd_state d = CPrivate \<Longrightarrow>
    cd_current_param d = None \<Longrightarrow>
    feed csi_step d (join_params ps)
      = (d\<lparr>cd_params := cd_params d @ butlast ps, cd_current_param := Some (last ps)\<rparr>, [])"
proof (induction ps arbitrary: d rule: join_params.induct)
  case (2 p)
  then show ?case by (simp add: push_dec)
next
  case (3 p q ps)
  let ?d = "d\<lparr>cd_params := cd_params d @ [p]\<rparr>"
  from 3 have one: "feed csi_step d (dec p) = (d\<lparr>cd_current_param := Some p\<rparr>, [])"
    by (simp add: push_dec)
  have semi: "feed csi_step (d\<lparr>cd_current_param := Some p\<rparr>) [CHR '';''] = (?d, [])"
    using 3 by (simp add: csi_step_def is_digit_def finish_param_def)
  from 3 have rest: "feed csi_step ?d (join_params (q # ps))
      = (?d\<lparr>cd_params := cd_params ?d @ butlast (q # ps), cd_current_param := Some (last (q # ps))\<rparr>, [])"
    by (intro "3.IH") auto
  from feed_cat [OF one feed_cat [OF semi rest]] show ?case by simp
qed simp

text \<open>
  Mode sequences are understood in full: received in any pieces by a detector in
  the ground state, \<open>ESC [ ? p1 ; ... ; pn h\<close> (or \<open>l\<close>) with parameters up to 65535 gives the
  signals of its parameters in order, wherever a known mode stands in the list, and leaves the
  detector as new.
\<close>

theorem csi_sequence_roundtrip:
  assumes "concat reads = mode_sequence ps final" and "final = CHR ''h'' \<or> final = CHR ''l''"
    and "ps \<noteq> []" and "list_all (\<lambda>p. p \<le> 65535) ps"
  shows "process_chunks csi_process csi_new reads
    = (csi_new, concat (map (param_signal final) ps))"
proof -
  let ?d = "csi_new\<lparr>cd_state := CPrivate\<rparr>"
  have intro_seq: "feed csi_step csi_new [CHR 0x1B, CHR ''['', CHR ''?''] = (?d, [])"
    by (simp add: csi_new_def csi_step_def reset_params_def)
  have params: "feed csi_step ?d (join_params ps)
      = (?d\<lparr>cd_params := butlast ps, cd_current_param := Some (last ps)\<rparr>, [])"
    using assms(3,4) by (simp add: feed_params csi_new_def)
  have nd: "\<not> is_digit final" "final \<noteq> CHR '';''" using assms(2) by (auto simp: is_digit_def)
  have close: "feed csi_step (?d\<lparr>cd_params := butlast ps, cd_current_param := Some (last ps)\<rparr>) [final]
      = (csi_new, concat (map (param_signal final) ps))"
    using assms(2,3) nd
    by (simp add: csi_step_def finish_param_def reset_params_def csi_new_def Let_def)
  from feed_cat [OF intro_seq feed_cat [OF params close]] assms(1) show ?thesis
    by (simp add: csi.process_chunks_concat csi_process_def mode_sequence_def)
qed

theorem csi_sequence_roundtrip_witness:
  "process_chunks csi_process csi_new [[CHR 0x1B] @ ''[?25;20'', ''04h'']
    = (csi_new, [PasteReady True])"
proof -
  have dec25: "dec 25 = ''25''" and dec2004: "dec 2004 = ''2004''"
    by (simp_all add: dec.simps digit_char_numeral)
  have "process_chunks csi_process csi_new [[CHR 0x1B] @ ''[?25;20'', ''04h'']
    = (csi_new, concat (map (param_signal CHR ''h'') [25, 2004]))"
    by (rule csi_sequence_roundtrip) (simp_all add: mode_sequence_def dec25 dec2004)
  then show ?thesis by (simp add: param_signal_def)
qed

end
