(* ===== verification/Osc_Signals.thy ===== *)
theory Osc_Signals
  imports Osc_Detect Csi_Mode Session_State
begin

text \<open>
  What the reader thread does with the signals of the detectors (\<open>terminal_service.rs\<close>):
  \<open>apply_osc_signal\<close> feeds the state machine, \<open>apply_osc_progress_signal\<close> keeps the progress
  badges in a store of their own, the mode signals set the paste flag; and the reasons a
  session is killed for. The badge store is a map from sessions to entries, behind one lock.
\<close>

section \<open>Kill reasons\<close>

datatype kill_reason = UserClose | Mcp | OrphanReclaim | DaemonReaper | LaunchTimeout | KillUnknown

definition kill_reason_parse :: "string option \<Rightarrow> kill_reason" where
  "kill_reason_parse v =
    (if v = Some ''user-close'' then UserClose
     else if v = Some ''mcp'' then Mcp
     else if v = Some ''orphan-reclaim'' then OrphanReclaim
     else if v = Some ''daemon-reaper'' then DaemonReaper
     else if v = Some ''launch-timeout'' then LaunchTimeout
     else KillUnknown)"

fun kill_reason_as_str :: "kill_reason \<Rightarrow> string" where
  "kill_reason_as_str UserClose = ''user-close''"
| "kill_reason_as_str Mcp = ''mcp''"
| "kill_reason_as_str OrphanReclaim = ''orphan-reclaim''"
| "kill_reason_as_str DaemonReaper = ''daemon-reaper''"
| "kill_reason_as_str LaunchTimeout = ''launch-timeout''"
| "kill_reason_as_str KillUnknown = ''unknown''"

lemma kill_reason_roundtrip: "kill_reason_parse (Some (kill_reason_as_str r)) = r"
  by (cases r) (simp_all add: kill_reason_parse_def)

section \<open>Progress badges\<close>

datatype badge_state = BgRunning | BgPaused | BgError | BgIndeterminate

record badge =
  bg_state :: badge_state
  bg_progress :: nat

record badge_entry =
  be_badge :: badge
  be_seen_at :: instant

type_synonym badge_store = "string \<rightharpoonup> badge_entry"

definition OSC_PROGRESS_TTL_SECS :: nat where
  "OSC_PROGRESS_TTL_SECS = 10"

definition badge_sticky :: "badge \<Rightarrow> bool" where
  "badge_sticky b \<longleftrightarrow> bg_state b = BgPaused \<or> bg_state b = BgError"

definition badge_resolve :: "badge_entry \<Rightarrow> instant \<Rightarrow> badge option" where
  "badge_resolve e now =
    (if badge_sticky (be_badge e) then Some (be_badge e)
     else if OSC_PROGRESS_TTL_SECS < as_secs (now - be_seen_at e) then None
     else Some (be_badge e))"

definition osc_badge_from_signal :: "progress_state \<Rightarrow> nat \<Rightarrow> badge option" where
  "osc_badge_from_signal st p =
    map_option (\<lambda>s. \<lparr>bg_state = s, bg_progress = p\<rparr>)
      (case st of
         PgNone \<Rightarrow> None
       | PgRunning \<Rightarrow> Some BgRunning
       | PgPaused \<Rightarrow> Some BgPaused
       | PgError \<Rightarrow> Some BgError
       | PgIndeterminate \<Rightarrow> Some BgIndeterminate)"

definition resolve_osc_progress ::
    "badge_store \<Rightarrow> string \<Rightarrow> instant \<Rightarrow> badge_store \<times> badge option" where
  "resolve_osc_progress store sid now =
    (case store sid of
       None \<Rightarrow> (store, None)
     | Some e \<Rightarrow>
         (case badge_resolve e now of
            Some b \<Rightarrow> (store, Some b)
          | None \<Rightarrow> (store(sid := None), None)))"

definition apply_osc_progress_signal ::
    "instant \<Rightarrow> badge_store \<Rightarrow> string \<Rightarrow> osc_signal \<Rightarrow> badge_store" where
  "apply_osc_progress_signal now store sid sig =
    (case sig of
       Progress st p \<Rightarrow>
         (case osc_badge_from_signal st p of
            Some b \<Rightarrow> store(sid \<mapsto> \<lparr>be_badge = b, be_seen_at = now\<rparr>)
          | None \<Rightarrow> store(sid := None))
     | _ \<Rightarrow> store)"

section \<open>Signals into the state machine\<close>

definition dec_int :: "int \<Rightarrow> string" where
  "dec_int n = (if n < 0 then CHR ''-'' # dec (nat (- n)) else dec (nat n))"

text \<open>The event and the payload a signal stands for; none for unknown names and progress.\<close>

definition osc_signal_event :: "osc_signal \<Rightarrow> (cc_pane_event \<times> json) option" where
  "osc_signal_event sig =
    (case sig of
       Started agent \<Rightarrow>
         Some (SessionInit, JObject [(''agent'', JString agent), (''source'', JString ''osc'')])
     | Event name \<Rightarrow>
         map_option (\<lambda>ev. (ev, JObject [(''source'', JString ''osc'')]))
           (parse_cc_pane_event_name name)
     | CommandExited exit_code \<Rightarrow>
         (case exit_code of
            Some code \<Rightarrow>
              if code \<noteq> 0 then
                Some (EvError, JObject [(''error_type'', JString ''agent-exit''),
                  (''exit_code'', JNumber (dec_int code)), (''source'', JString ''osc'')])
              else Some (TurnEnd, JObject [(''exit_code'', JNumber (dec_int code)),
                     (''source'', JString ''osc'')])
          | None \<Rightarrow> Some (TurnEnd, JObject [(''exit_code'', JNull), (''source'', JString ''osc'')]))
     | Progress st p \<Rightarrow> None)"

definition apply_osc_signal ::
    "(json \<Rightarrow> string option) \<Rightarrow> instant \<Rightarrow> nat \<Rightarrow> state_machine \<Rightarrow> string \<Rightarrow> osc_signal
      \<Rightarrow> state_machine" where
  "apply_osc_signal ser now wall m sid sig =
    (case osc_signal_event sig of
       None \<Rightarrow> m
     | Some (event, payload) \<Rightarrow>
         fst (on_event_with_channel ser now wall m sid event None payload Osc))"

definition apply_csi_signal :: "bool \<Rightarrow> csi_signal \<Rightarrow> bool" where
  "apply_csi_signal paste_ready sig =
    (case sig of PasteReady ready \<Rightarrow> ready | AlternateBufferExited \<Rightarrow> False)"

section \<open>The reader's view of the data\<close>

text \<open>The part of the reader's loop that looks at the decoded data of one read.\<close>

record reader_view =
  rv_csi :: csi_detector
  rv_osc :: osc_detector
  rv_paste_ready :: bool
  rv_badges :: badge_store
  rv_machine :: state_machine

definition scan_data ::
    "(json \<Rightarrow> string option) \<Rightarrow> instant \<Rightarrow> nat \<Rightarrow> string \<Rightarrow> reader_view \<Rightarrow> string \<Rightarrow> reader_view" where
  "scan_data ser now wall sid v data =
    (let (csi, modes) = csi_process (rv_csi v) data;
         (osc, sigs) = osc_process (rv_osc v) data
     in \<lparr>rv_csi = csi, rv_osc = osc,
         rv_paste_ready = foldl apply_csi_signal (rv_paste_ready v) modes,
         rv_badges = foldl (\<lambda>b s. apply_osc_progress_signal now b sid s) (rv_badges v) sigs,
         rv_machine = foldl (\<lambda>m s. apply_osc_signal ser now wall m sid s) (rv_machine v) sigs\<rparr>)"

definition view_init :: "state_machine \<Rightarrow> badge_store \<Rightarrow> reader_view" where
  "view_init m b = \<lparr>rv_csi = csi_new, rv_osc = osc_new, rv_paste_ready = False, rv_badges = b,
    rv_machine = m\<rparr>"

lemma scan_data_append:
  "scan_data ser now wall sid (scan_data ser now wall sid v xs) ys
    = scan_data ser now wall sid v (xs @ ys)"
  by (simp add: scan_data_def Let_def case_prod_beta csi.process_append osc.process_append)

lemma scan_data_Nil [simp]: "scan_data ser now wall sid v [] = v"
  by (simp add: scan_data_def csi_process_def osc_process_feed)

lemma scan_data_concat:
  "foldl (scan_data ser now wall sid) v reads = scan_data ser now wall sid v (concat reads)"
  by (induction reads arbitrary: v) (simp_all add: scan_data_append)

section \<open>Properties\<close>



text \<open>The last progress signal of a session, and what it leaves to show.\<close>

fun last_progress :: "osc_signal list \<Rightarrow> (progress_state \<times> nat) option" where
  "last_progress [] = None"
| "last_progress (s # ss) =
    (case last_progress ss of
       Some r \<Rightarrow> Some r
     | None \<Rightarrow> (case s of Progress st p \<Rightarrow> Some (st, p) | _ \<Rightarrow> None))"

lemma badges_after:
  "foldl (\<lambda>b s. apply_osc_progress_signal now b sid s) store sigs =
    (case last_progress sigs of
       None \<Rightarrow> store
     | Some (st, p) \<Rightarrow>
         store(sid := map_option (\<lambda>b. \<lparr>be_badge = b, be_seen_at = now\<rparr>) (osc_badge_from_signal st p)))"
  by (induction sigs arbitrary: store)
     (auto simp: apply_osc_progress_signal_def split: option.splits osc_signal.splits)

text \<open>
  The progress badge is a channel of its own: after a read only the last progress
  signal in it matters; the badge of this session is what that signal says, gone 10 seconds
  later if it was running or indeterminate and kept otherwise; the badges of other sessions do
  not change, and progress alone never touches the state machine.
\<close>

theorem progress_badge_isolated:
  "(sid' \<noteq> sid \<longrightarrow> rv_badges (scan_data ser now wall sid v data) sid' = rv_badges v sid')
    \<and> (\<forall>st p. last_progress (snd (osc_process (rv_osc v) data)) = Some (st, p) \<longrightarrow>
         snd (resolve_osc_progress (rv_badges (scan_data ser now wall sid v data)) sid later) =
           (case osc_badge_from_signal st p of
              None \<Rightarrow> None
            | Some b \<Rightarrow>
                if badge_sticky b \<or> later - now < from_secs (Suc OSC_PROGRESS_TTL_SECS) then Some b
                else None))
    \<and> (list_all (\<lambda>s. osc_signal_event s = None) (snd (osc_process (rv_osc v) data)) \<longrightarrow>
         rv_machine (scan_data ser now wall sid v data) = rv_machine v)"
proof -
  have machine: "list_all (\<lambda>s. osc_signal_event s = None) sigs \<Longrightarrow>
      foldl (\<lambda>m s. apply_osc_signal ser now wall m sid s) m sigs = m" for sigs m
    by (induction sigs arbitrary: m) (simp_all add: apply_osc_signal_def)
  have ttl: "\<not> OSC_PROGRESS_TTL_SECS < as_secs d \<longleftrightarrow> d < from_secs (Suc OSC_PROGRESS_TTL_SECS)" for d
    by (simp add: as_secs_less_iff [symmetric] not_less less_Suc_eq_le)
  show ?thesis
    by (auto simp: scan_data_def Let_def case_prod_beta badges_after machine resolve_osc_progress_def
        badge_resolve_def ttl [symmetric] split: option.split)
qed

theorem progress_badge_isolated_witness:
  "snd (resolve_osc_progress (rv_badges (scan_data (\<lambda>_. None) 5 0 ''s''
      (view_init new_state_machine Map.empty) ([ESC, OSC_INTRO] @ ''9;4;1;42'' @ [BEL]))) ''s'' 6)
    = Some \<lparr>bg_state = BgRunning, bg_progress = 42\<rparr>"
proof -
  let ?data = "[ESC, OSC_INTRO] @ ''9;4;1;42'' @ [BEL]"
  have t: "trim ''1'' = ''1''" "trim ''42'' = ''42''"
    by (rule trim_ascii_noop; simp add: is_ascii_def)+
  have v: "valid_utf8 ''1;42''" by (rule valid_utf8_ascii) (simp add: is_ascii_def)
  have "snd (osc_process osc_new ?data) = [Progress PgRunning 42]"
    by (simp add: osc_process_feed osc_step_def osc_byte_def osc_new_def OSC_MAX_def to_ground_def
        finish_osc_def handle_osc9_def strip_prefix_def from_utf8_def v split_once_def t
        parse_unsigned_def parse_digits_def is_digit_def digits_val_def digit_val_def Let_def)
  then have "last_progress (snd (osc_process (rv_osc (view_init new_state_machine Map.empty)) ?data))
      = Some (PgRunning, 42)" by (simp add: view_init_def)
  with progress_badge_isolated [of "''t''" "''s''" "\<lambda>_. None" 5 0
      "view_init new_state_machine Map.empty" ?data 6]
  show ?thesis
    by (simp add: osc_badge_from_signal_def from_secs_def)
qed

end
