(* ===== verification/Screen.thy ===== *)
theory Screen
  imports Rust_Text Machines
begin

text \<open>
  The plain-text view of the terminal (\<open>terminal_service/plain_output.rs\<close>): a bounded screen
  of cells, a bounded history of lines, an alternate screen. A cell is the text of a glyph, the
  empty cell the right half of a wide one. Indexing, \<open>remove\<close>, \<open>insert\<close> and the byte count
  of the history may panic in the code; a panic is \<open>None\<close>. The escape parser (\<open>vte\<close>) is
  third-party: its calls are the events. The width of a char (\<open>unicode_width\<close>) is the
  parameter \<open>cw\<close>.
\<close>

section \<open>State\<close>

definition MAX_ROWS :: nat where
  "MAX_ROWS = 512"

definition MAX_COLS :: nat where
  "MAX_COLS = 1024"

type_synonym cell_row = "string list"
type_synonym saved_screen = "cell_row list \<times> nat \<times> nat \<times> bool"

record screen =
  sc_history :: "string list"
  sc_history_bytes :: nat
  sc_cells :: "cell_row list"
  sc_row :: nat
  sc_col :: nat
  sc_saved_cursor :: "nat \<times> nat"
  sc_rows :: nat
  sc_cols :: nat
  sc_max_lines :: nat
  sc_max_bytes :: nat
  sc_alternate :: "saved_screen option"
  sc_scroll_top :: nat
  sc_scroll_bottom :: nat
  sc_wrap_pending :: bool

definition screen_with_size :: "nat \<Rightarrow> nat \<Rightarrow> nat \<Rightarrow> nat \<Rightarrow> screen" where
  "screen_with_size max_lines max_bytes cols rows =
    (let rows = clamp 1 MAX_ROWS rows in
     \<lparr>sc_history = [], sc_history_bytes = 0, sc_cells = replicate rows [], sc_row = 0, sc_col = 0,
      sc_saved_cursor = (0, 0), sc_rows = rows, sc_cols = clamp 1 MAX_COLS cols,
      sc_max_lines = max_lines, sc_max_bytes = max_bytes, sc_alternate = None,
      sc_scroll_top = 0, sc_scroll_bottom = rows - 1, sc_wrap_pending = False\<rparr>)"

definition render :: "cell_row \<Rightarrow> string" where
  "render row = trim_end (concat row)"

section \<open>History\<close>

fun evict_lines :: "nat \<Rightarrow> nat \<Rightarrow> string list \<Rightarrow> nat \<Rightarrow> (string list \<times> nat) option" where
  "evict_lines max_lines max_bytes [] bytes = Some ([], bytes)"
| "evict_lines max_lines max_bytes (l # ls) bytes =
    (if max_lines < length (l # ls) \<or> max_bytes < bytes
     then Option.bind (checked_sub bytes (length l)) (evict_lines max_lines max_bytes ls)
     else Some (l # ls, bytes))"

definition evict :: "screen \<Rightarrow> screen option" where
  "evict s =
    map_option (\<lambda>(h, b). s\<lparr>sc_history := h, sc_history_bytes := b\<rparr>)
      (evict_lines (sc_max_lines s) (sc_max_bytes s) (sc_history s) (sc_history_bytes s))"

definition remember_line :: "screen \<Rightarrow> string \<Rightarrow> screen option" where
  "remember_line s line =
    evict (s\<lparr>sc_history_bytes := sc_history_bytes s + length line,
             sc_history := sc_history s @ [line]\<rparr>)"

definition screen_shrink :: "screen \<Rightarrow> nat \<Rightarrow> nat \<Rightarrow> screen option" where
  "screen_shrink s max_lines max_bytes =
    evict (s\<lparr>sc_max_lines := max_lines, sc_max_bytes := max_bytes\<rparr>)"

section \<open>Cells\<close>

definition get_row :: "screen \<Rightarrow> cell_row option" where
  "get_row s = vec_get (sc_cells s) (sc_row s)"

definition put_row :: "screen \<Rightarrow> cell_row \<Rightarrow> screen" where
  "put_row s row = s\<lparr>sc_cells := (sc_cells s)[sc_row s := row]\<rparr>"

definition set_pos :: "screen \<Rightarrow> nat \<Rightarrow> nat \<Rightarrow> screen" where
  "set_pos s row col = s\<lparr>sc_row := row, sc_col := col\<rparr>"

text \<open>Remove the row at \<open>i\<close> and insert an empty one at \<open>j\<close>.\<close>

definition shift_rows :: "cell_row list \<Rightarrow> nat \<Rightarrow> nat \<Rightarrow> (cell_row \<times> cell_row list) option" where
  "shift_rows cells i j =
    Option.bind (vec_remove cells i) (\<lambda>(removed, rest).
      map_option (\<lambda>cells'. (removed, cells')) (vec_insert rest j []))"

definition scroll_up :: "screen \<Rightarrow> screen option" where
  "scroll_up s =
    Option.bind (shift_rows (sc_cells s) (sc_scroll_top s) (sc_scroll_bottom s))
      (\<lambda>(removed, cells).
        (let s1 = s\<lparr>sc_cells := cells\<rparr> in
         if sc_alternate s1 = None \<and> sc_scroll_top s1 = 0 \<and> sc_scroll_bottom s1 = sc_rows s1 - 1
         then remember_line s1 (render removed)
         else Some s1))"

definition newline :: "screen \<Rightarrow> screen option" where
  "newline s =
    map_option (\<lambda>s. s\<lparr>sc_wrap_pending := False\<rparr>)
      (if sc_row s = sc_scroll_bottom s then scroll_up s
       else Some (s\<lparr>sc_row := min (sc_row s + 1) (sc_rows s - 1)\<rparr>))"

definition clear_in_row :: "cell_row \<Rightarrow> nat \<Rightarrow> cell_row option" where
  "clear_in_row row col =
    (if length row \<le> col then Some row
     else
       Option.bind (vec_get row col) (\<lambda>c.
       Option.bind (if c = [] \<and> 0 < col then vec_set row (col - 1) '' '' else Some row) (\<lambda>row1.
       Option.bind (if col + 1 < length row1 \<and> row1 ! (col + 1) = [] then vec_set row1 (col + 1) '' ''
                    else Some row1) (\<lambda>row2.
       vec_set row2 col '' ''))))"

definition clear_cell :: "screen \<Rightarrow> nat \<Rightarrow> screen option" where
  "clear_cell s col =
    Option.bind (get_row s) (\<lambda>row. map_option (put_row s) (clear_in_row row col))"

definition clear_cells :: "screen \<Rightarrow> nat \<Rightarrow> nat \<Rightarrow> screen option" where
  "clear_cells s start stop = run_opt clear_cell s [start..<stop]"

definition erase_line :: "screen \<Rightarrow> nat \<Rightarrow> screen option" where
  "erase_line s mode =
    Option.bind (get_row s) (\<lambda>row.
      if mode = 0 then clear_cells s (sc_col s) (length row)
      else if mode = 1 then clear_cells s 0 (min (sc_col s + 1) (length row))
      else if mode = 2 then Some (put_row s [])
      else Some s)"

definition clear_rows :: "screen \<Rightarrow> nat \<Rightarrow> nat \<Rightarrow> screen option" where
  "clear_rows s start stop =
    (if start \<le> stop \<and> stop \<le> length (sc_cells s)
     then Some (s\<lparr>sc_cells := take start (sc_cells s) @ replicate (stop - start) []
                              @ drop stop (sc_cells s)\<rparr>)
     else None)"

definition erase_display :: "screen \<Rightarrow> nat \<Rightarrow> screen option" where
  "erase_display s mode =
    (if mode = 0 then
       Option.bind (erase_line s 0) (\<lambda>s. clear_rows s (sc_row s + 1) (length (sc_cells s)))
     else if mode = 1 then
       Option.bind (erase_line s 1) (\<lambda>s. clear_rows s 0 (sc_row s))
     else if mode = 2 then clear_rows s 0 (length (sc_cells s))
     else if mode = 3 then Some (s\<lparr>sc_history := [], sc_history_bytes := 0\<rparr>)
     else Some s)"

definition alternate_screen :: "screen \<Rightarrow> bool \<Rightarrow> screen" where
  "alternate_screen s enabled =
    (if enabled \<and> sc_alternate s = None then
       s\<lparr>sc_cells := replicate (sc_rows s) [],
         sc_alternate := Some (sc_cells s, sc_row s, sc_col s, sc_wrap_pending s),
         sc_row := 0, sc_col := 0, sc_wrap_pending := False\<rparr>
     else if \<not> enabled then
       (case sc_alternate s of
          Some (cells, row, col, wrap) \<Rightarrow>
            s\<lparr>sc_alternate := None, sc_cells := cells, sc_row := row, sc_col := col,
              sc_wrap_pending := wrap\<rparr>
        | None \<Rightarrow> s)
     else s)"

section \<open>Printing and control characters\<close>

definition print_mark :: "screen \<Rightarrow> string \<Rightarrow> screen option" where
  "print_mark s c =
    Option.bind (get_row s) (\<lambda>row.
      (let col = (if sc_wrap_pending s then sc_col s else sc_col s - 1);
           col = (if col < length row \<and> row ! col = [] then col - 1 else col)
       in if col < length row \<and> length (row ! col) < 64
          then Some (put_row s (row[col := row ! col @ c])) else Some s))"

definition print_glyph :: "screen \<Rightarrow> string \<Rightarrow> nat \<Rightarrow> screen option" where
  "print_glyph s c width =
    Option.bind (if sc_wrap_pending s \<or> sc_cols s < sc_col s + width
                 then map_option (\<lambda>s. s\<lparr>sc_col := 0\<rparr>) (newline s) else Some s) (\<lambda>s.
    if sc_cols s < width then Some s
    else
      Option.bind (clear_cell s (sc_col s)) (\<lambda>s.
      Option.bind (if width = 2 then clear_cell s (sc_col s + 1) else Some s) (\<lambda>s.
      Option.bind (get_row s) (\<lambda>row.
      Option.bind (vec_set (vec_resize row (max (length row) (sc_col s + width)) '' '') (sc_col s) c) (\<lambda>row.
      Option.bind (if width = 2 then vec_set row (sc_col s + 1) [] else Some row) (\<lambda>row.
        (let s1 = put_row s row; col = sc_col s + width in
         Some (if sc_cols s \<le> col then s1\<lparr>sc_col := sc_cols s - 1, sc_wrap_pending := True\<rparr>
               else s1\<lparr>sc_col := col\<rparr>))))))))"

definition screen_print :: "(string \<Rightarrow> nat option) \<Rightarrow> screen \<Rightarrow> string \<Rightarrow> screen option" where
  "screen_print cw s c =
    (let width = (case cw c of Some w \<Rightarrow> w | None \<Rightarrow> 0) in
     if width = 0 then print_mark s c else print_glyph s c width)"

definition screen_execute :: "screen \<Rightarrow> nat \<Rightarrow> screen option" where
  "screen_execute s byte =
    (if byte = 13 then Some (s\<lparr>sc_col := 0, sc_wrap_pending := False\<rparr>)
     else if byte = 10 \<or> byte = 11 \<or> byte = 12 then map_option (\<lambda>s. s\<lparr>sc_col := 0\<rparr>) (newline s)
     else if byte = 8 then Some (s\<lparr>sc_col := sc_col s - 1, sc_wrap_pending := False\<rparr>)
     else if byte = 9 then
       Some (s\<lparr>sc_col := min ((sc_col s div 8 + 1) * 8) (sc_cols s - 1), sc_wrap_pending := False\<rparr>)
     else Some s)"

section \<open>Escape and control sequences\<close>

definition no_wrap :: "screen \<Rightarrow> screen" where
  "no_wrap s = s\<lparr>sc_wrap_pending := False\<rparr>"

definition restore_cursor :: "screen \<Rightarrow> screen" where
  "restore_cursor s = set_pos s (min (fst (sc_saved_cursor s)) (sc_rows s - 1))
    (min (snd (sc_saved_cursor s)) (sc_cols s - 1))"

definition scroll_down :: "screen \<Rightarrow> screen option" where
  "scroll_down s = map_option (\<lambda>(_, cells). s\<lparr>sc_cells := cells\<rparr>)
    (shift_rows (sc_cells s) (sc_scroll_bottom s) (sc_scroll_top s))"

definition esc_dispatch :: "screen \<Rightarrow> bool \<Rightarrow> char \<Rightarrow> screen option" where
  "esc_dispatch s ignore byte =
    (if ignore then Some s
     else map_option no_wrap
       (if byte = CHR ''7'' then Some (s\<lparr>sc_saved_cursor := (sc_row s, sc_col s)\<rparr>)
        else if byte = CHR ''8'' then Some (restore_cursor s)
        else if byte = CHR ''D'' then newline s
        else if byte = CHR ''E'' then map_option (\<lambda>s. s\<lparr>sc_col := 0\<rparr>) (newline s)
        else if byte = CHR ''M'' then
          (if sc_row s = sc_scroll_top s then scroll_down s
           else Some (s\<lparr>sc_row := sc_row s - 1\<rparr>))
        else if byte = CHR ''c'' then map_option (\<lambda>s. set_pos s 0 0) (erase_display s 2)
        else Some s))"

text \<open>The parameters of a control sequence, each a list of subparameters.\<close>

definition csi_param :: "nat list list \<Rightarrow> nat \<Rightarrow> nat \<Rightarrow> nat" where
  "csi_param params i dflt =
    (if i < length params then (case params ! i of v # _ \<Rightarrow> v | [] \<Rightarrow> dflt) else dflt)"

definition repeat_opt :: "nat \<Rightarrow> (screen \<Rightarrow> screen option) \<Rightarrow> screen \<Rightarrow> screen option" where
  "repeat_opt n f s = run_opt (\<lambda>s _. f s) s [0..<n]"

definition edit_row :: "screen \<Rightarrow> (cell_row \<Rightarrow> cell_row option) \<Rightarrow> screen option" where
  "edit_row s f = Option.bind (get_row s) (\<lambda>row. map_option (put_row s) (f row))"

definition delete_chars :: "nat \<Rightarrow> nat \<Rightarrow> cell_row \<Rightarrow> cell_row option" where
  "delete_chars col n row =
    (if col < length row then Some (take col row @ drop (min (col + n) (length row)) row)
     else Some row)"

definition insert_blanks :: "nat \<Rightarrow> nat \<Rightarrow> nat \<Rightarrow> cell_row \<Rightarrow> cell_row option" where
  "insert_blanks col cols n row =
    map_option (take cols)
      (run_opt (\<lambda>row _. vec_insert row col '' '') (vec_resize row (max (length row) col) '' '')
        [0..<min n cols])"

definition shift_line :: "screen \<Rightarrow> nat \<Rightarrow> nat \<Rightarrow> screen option" where
  "shift_line s i j = map_option (\<lambda>(_, cells). s\<lparr>sc_cells := cells\<rparr>) (shift_rows (sc_cells s) i j)"

definition csi_action :: "screen \<Rightarrow> nat list list \<Rightarrow> char \<Rightarrow> screen option" where
  "csi_action s params action =
    (let n = max (csi_param params 0 1) 1; r = sc_row s; c = sc_col s;
         maxr = sc_rows s - 1; maxc = sc_cols s - 1 in
     if action = CHR ''A'' then Some (no_wrap (s\<lparr>sc_row := r - n\<rparr>))
     else if action = CHR ''B'' \<or> action = CHR ''e'' then Some (no_wrap (s\<lparr>sc_row := min (r + n) maxr\<rparr>))
     else if action = CHR ''C'' \<or> action = CHR ''a'' then Some (no_wrap (s\<lparr>sc_col := min (c + n) maxc\<rparr>))
     else if action = CHR ''D'' then Some (no_wrap (s\<lparr>sc_col := c - n\<rparr>))
     else if action = CHR ''E'' then Some (no_wrap (set_pos s (min (r + n) maxr) 0))
     else if action = CHR ''F'' then Some (no_wrap (set_pos s (r - n) 0))
     else if action = CHR ''G'' \<or> action = CHR 0x60 then Some (no_wrap (s\<lparr>sc_col := min (n - 1) maxc\<rparr>))
     else if action = CHR ''d'' then Some (no_wrap (s\<lparr>sc_row := min (n - 1) maxr\<rparr>))
     else if action = CHR ''H'' \<or> action = CHR ''f'' then
       Some (no_wrap (set_pos s (min (n - 1) maxr) (min (max (csi_param params 1 1) 1 - 1) maxc)))
     else if action = CHR ''J'' then map_option no_wrap (erase_display s (csi_param params 0 0))
     else if action = CHR ''K'' then map_option no_wrap (erase_line s (csi_param params 0 0))
     else if action = CHR ''s'' then Some (no_wrap (s\<lparr>sc_saved_cursor := (r, c)\<rparr>))
     else if action = CHR ''u'' then Some (no_wrap (restore_cursor s))
     else if action = CHR ''S'' then map_option no_wrap (repeat_opt (min n (sc_rows s)) scroll_up s)
     else if action = CHR ''T'' then map_option no_wrap (repeat_opt (min n (sc_rows s)) scroll_down s)
     else if action = CHR ''X'' then map_option no_wrap (clear_cells s c (min (c + n) (sc_cols s)))
     else if action = CHR ''P'' then map_option no_wrap (edit_row s (delete_chars c n))
     else if action = CHR ''@'' then map_option no_wrap (edit_row s (insert_blanks c (sc_cols s) n))
     else if (action = CHR ''L'' \<or> action = CHR ''M'')
             \<and> sc_scroll_top s \<le> r \<and> r \<le> sc_scroll_bottom s then
       map_option no_wrap (repeat_opt (min n (sc_scroll_bottom s - r + 1))
         (\<lambda>s. if action = CHR ''L'' then shift_line s (sc_scroll_bottom s) (sc_row s)
              else shift_line s (sc_row s) (sc_scroll_bottom s)) s)
     else if action = CHR ''r'' then
       (let top = n - 1; bottom = max (csi_param params 1 (sc_rows s)) 1 - 1 in
        Some (no_wrap (if top < bottom \<and> bottom < sc_rows s
          then (set_pos s 0 0)\<lparr>sc_scroll_top := top, sc_scroll_bottom := bottom\<rparr> else s)))
     else Some s)"

definition csi_dispatch ::
    "screen \<Rightarrow> nat list list \<Rightarrow> string \<Rightarrow> bool \<Rightarrow> char \<Rightarrow> screen option" where
  "csi_dispatch s params intermediates ignore action =
    (if ignore then Some s
     else if intermediates = ''?'' then
       Some (if (action = CHR ''h'' \<or> action = CHR ''l'')
                \<and> list_ex (\<lambda>v. v \<noteq> [] \<and> hd v \<in> {47, 1047, 1049}) params
             then alternate_screen s (action = CHR ''h'') else s)
     else if intermediates \<noteq> [] then Some s
     else csi_action s params action)"

text \<open>The calls of the escape parser.\<close>

datatype vt_event =
    Print string
  | Execute nat
  | EscDispatch bool char
  | CsiDispatch "nat list list" string bool char

fun screen_event :: "(string \<Rightarrow> nat option) \<Rightarrow> screen \<Rightarrow> vt_event \<Rightarrow> screen option" where
  "screen_event cw s (Print c) = screen_print cw s c"
| "screen_event cw s (Execute b) = screen_execute s b"
| "screen_event cw s (EscDispatch ignore b) = esc_dispatch s ignore b"
| "screen_event cw s (CsiDispatch params intermediates ignore action) =
    csi_dispatch s params intermediates ignore action"

section \<open>Resizing\<close>

text \<open>
  The state of \<open>resize_screen\<close>: the new rows, how many of them were handed to the history, the
  lines handed over in order, and the cursor.
\<close>

record resizing =
  rz_visible :: "cell_row list"
  rz_removed :: nat
  rz_remembered :: "string list"
  rz_cursor :: "nat \<times> nat \<times> bool"

definition keep_resized_line :: "nat \<Rightarrow> resizing \<Rightarrow> cell_row \<Rightarrow> resizing" where
  "keep_resized_line rows z line =
    (case rz_visible z @ [line] of
       l # ls \<Rightarrow>
         if rows < length (l # ls)
         then z\<lparr>rz_visible := ls, rz_remembered := rz_remembered z @ [render l],
                rz_removed := rz_removed z + 1\<rparr>
         else z\<lparr>rz_visible := l # ls\<rparr>
     | [] \<Rightarrow> z)"

definition glyph_at :: "cell_row \<Rightarrow> nat \<Rightarrow> string option" where
  "glyph_at source i = (if i < length source \<and> source ! i \<noteq> [] then Some (source ! i) else None)"

definition glyph_width :: "(string \<Rightarrow> nat option) \<Rightarrow> nat \<Rightarrow> string \<Rightarrow> nat" where
  "glyph_width cw cols glyph =
    clamp 1 cols (case (if glyph = [] then None else cw (hd (utf8_chars glyph))) of
      Some w \<Rightarrow> w | None \<Rightarrow> 1)"

text \<open>The inner loop over the cells of one row: \<open>target\<close> is the cursor's column in its row.\<close>

definition source_width :: "cell_row \<Rightarrow> nat \<Rightarrow> nat" where
  "source_width source index =
    (if glyph_at source index \<noteq> None \<and> index + 1 < length source \<and> source ! (index + 1) = []
     then 2 else 1)"

lemma source_width_pos: "0 < source_width source index"
  by (simp add: source_width_def)

text \<open>One glyph of the loop over a source row.\<close>

definition resize_cell ::
    "(string \<Rightarrow> nat option) \<Rightarrow> nat \<Rightarrow> nat \<Rightarrow> cell_row \<Rightarrow> nat option \<Rightarrow> nat
      \<Rightarrow> resizing \<Rightarrow> cell_row \<Rightarrow> resizing \<times> cell_row" where
  "resize_cell cw rows cols source target index z line =
    (let glyph = (case glyph_at source index of Some g \<Rightarrow> g | None \<Rightarrow> '' '');
         width = glyph_width cw cols glyph;
         (z1, line1) = (if cols < length line + width then (keep_resized_line rows z line, [])
                        else (z, line));
         z2 = (case target of
                 Some t \<Rightarrow>
                   if index \<le> t \<and> t < index + source_width source index
                   then z1\<lparr>rz_cursor := (rz_removed z1 + length (rz_visible z1),
                          length line1 + min (t - index) (width - 1), False)\<rparr>
                   else z1
               | None \<Rightarrow> z1)
     in (z2, line1 @ glyph # (if width = 2 then [[]] else [])))"

function resize_row ::
    "(string \<Rightarrow> nat option) \<Rightarrow> nat \<Rightarrow> nat \<Rightarrow> cell_row \<Rightarrow> nat \<Rightarrow> nat option \<Rightarrow> nat
      \<Rightarrow> resizing \<Rightarrow> cell_row \<Rightarrow> resizing \<times> cell_row" where
  "resize_row cw rows cols source len target index z line =
    (if index < len then
       (case resize_cell cw rows cols source target index z line of (z', line') \<Rightarrow>
          resize_row cw rows cols source len target (index + source_width source index) z' line')
     else (z, line))"
  by pat_completeness auto
termination
  by (relation "measure (\<lambda>(cw, rows, cols, source, len, target, index, z, line). len - index)")
     (use source_width_pos in \<open>auto intro!: diff_less_mono2\<close>)

declare resize_row.simps [simp del]

definition resize_source ::
    "(string \<Rightarrow> nat option) \<Rightarrow> nat \<Rightarrow> nat \<Rightarrow> nat \<Rightarrow> nat \<Rightarrow> resizing \<Rightarrow> nat \<times> cell_row
      \<Rightarrow> resizing" where
  "resize_source cw rows cols cursor_row target z isrc =
    (let (row_index, source) = isrc;
         here = (row_index = cursor_row);
         len = max (length source) (if here then target else 0);
         (z1, line) = resize_row cw rows cols source len (if here then Some target else None) 0 z [];
         z2 = (if here \<and> len \<le> target
               then z1\<lparr>rz_cursor := (rz_removed z1 + length (rz_visible z1),
                      min (length line) (cols - 1), length line = cols)\<rparr>
               else z1)
     in keep_resized_line rows z2 line)"

definition used_rows :: "cell_row list \<Rightarrow> nat \<Rightarrow> nat" where
  "used_rows cells cursor_row =
    max (rposition_len (\<lambda>line. list_ex (\<lambda>cell. trim cell \<noteq> []) line) cells) (cursor_row + 1)"

text \<open>The resized screen and the lines given to \<open>remember\<close>.\<close>

definition resize_screen ::
    "(string \<Rightarrow> nat option) \<Rightarrow> nat \<Rightarrow> nat \<Rightarrow> saved_screen \<Rightarrow> saved_screen \<times> string list" where
  "resize_screen cw rows cols saved =
    (let (cells, cursor_row, cursor_col, wrap_pending) = saved;
         kept = take (used_rows cells cursor_row) cells;
         z = foldl (resize_source cw rows cols cursor_row (cursor_col + (if wrap_pending then 1 else 0)))
               \<lparr>rz_visible = [], rz_removed = 0, rz_remembered = [], rz_cursor = (0, 0, False)\<rparr>
               (enumerate 0 kept);
         (row, col, wrap) = rz_cursor z
     in ((vec_resize (rz_visible z) rows [], min (row - rz_removed z) (rows - 1), col, wrap),
         rz_remembered z))"

definition remember_lines :: "screen \<Rightarrow> string list \<Rightarrow> screen option" where
  "remember_lines s lines = run_opt remember_line s lines"

text \<open>The saved main screen is resized first, with the history open; then the screen on display.\<close>

definition resize_alternate :: "(string \<Rightarrow> nat option) \<Rightarrow> screen \<Rightarrow> screen option" where
  "resize_alternate cw s =
    (case sc_alternate s of
       None \<Rightarrow> Some s
     | Some main \<Rightarrow>
         (case resize_screen cw (sc_rows s) (sc_cols s) main of (main', lines) \<Rightarrow>
            map_option (\<lambda>s. s\<lparr>sc_alternate := Some main'\<rparr>)
              (remember_lines (s\<lparr>sc_alternate := None\<rparr>) lines)))"

definition resize_active :: "(string \<Rightarrow> nat option) \<Rightarrow> screen \<Rightarrow> screen option" where
  "resize_active cw s =
    (case resize_screen cw (sc_rows s) (sc_cols s) (sc_cells s, sc_row s, sc_col s, sc_wrap_pending s) of
       ((cells, row, col, wrap), lines) \<Rightarrow>
         map_option
           (\<lambda>s. s\<lparr>sc_cells := cells, sc_row := row, sc_col := col, sc_wrap_pending := wrap,
              sc_saved_cursor := (min (fst (sc_saved_cursor s)) (sc_rows s - 1),
                                  min (snd (sc_saved_cursor s)) (sc_cols s - 1)),
              sc_scroll_top := 0, sc_scroll_bottom := sc_rows s - 1\<rparr>)
           (if sc_alternate s = None then remember_lines s lines else Some s))"

definition screen_resize :: "(string \<Rightarrow> nat option) \<Rightarrow> screen \<Rightarrow> nat \<Rightarrow> nat \<Rightarrow> screen option" where
  "screen_resize cw s cols rows =
    Option.bind
      (resize_alternate cw (s\<lparr>sc_rows := clamp 1 MAX_ROWS rows, sc_cols := clamp 1 MAX_COLS cols\<rparr>))
      (resize_active cw)"

section \<open>Reading\<close>

text \<open>The newest lines that fit, newest first.\<close>

fun take_recent :: "nat \<Rightarrow> nat \<Rightarrow> string list \<Rightarrow> string list" where
  "take_recent max_bytes bytes [] = []"
| "take_recent max_bytes bytes (l # ls) =
    (if max_bytes < bytes + length l then []
     else l # take_recent max_bytes (bytes + length l) ls)"

definition visible_lines :: "screen \<Rightarrow> string list" where
  "visible_lines s =
    (let visible = map render (sc_cells s)
     in take (rposition_len (\<lambda>l. l \<noteq> []) visible) visible)"

definition get_recent :: "screen \<Rightarrow> nat \<Rightarrow> string list" where
  "get_recent s n =
    (let limit = (if n = 0 then sc_max_lines s else min n (sc_max_lines s));
         history = (if sc_alternate s = None then sc_history s else [])
     in rev (take_recent (sc_max_bytes s) 0 (take limit (rev (history @ visible_lines s)))))"

text \<open>The calls on the output buffer: the parser's events of a push, resizes and shrinks.\<close>

datatype screen_op = ScEvent vt_event | ScResize nat nat | ScShrink nat nat

fun screen_step :: "(string \<Rightarrow> nat option) \<Rightarrow> screen \<Rightarrow> screen_op \<Rightarrow> screen option" where
  "screen_step cw s (ScEvent e) = screen_event cw s e"
| "screen_step cw s (ScResize cols rows) = screen_resize cw s cols rows"
| "screen_step cw s (ScShrink max_lines max_bytes) = screen_shrink s max_lines max_bytes"

end
