(* ===== verification/Screen_Props.thy ===== *)
theory Screen_Props
  imports Screen
begin

text \<open>
  The screen never panics and stays within its bounds, whatever the terminal prints and
  however it is resized; the text that is read back is the newest that fits; a full-screen
  program leaves no trace in the text; plain text comes back as it was printed.
\<close>

section \<open>The invariant\<close>

text \<open>A cell holds at most one char of four bytes and marks up to 64 bytes before the last.\<close>

definition CELL_MAX :: nat where
  "CELL_MAX = 67"

definition row_ok :: "nat \<Rightarrow> cell_row \<Rightarrow> bool" where
  "row_ok cols r \<longleftrightarrow> length r \<le> cols \<and> (\<forall>c \<in> set r. length c \<le> CELL_MAX)"

definition cells_ok :: "nat \<Rightarrow> nat \<Rightarrow> cell_row list \<Rightarrow> bool" where
  "cells_ok rows cols cells \<longleftrightarrow> length cells = rows \<and> (\<forall>r \<in> set cells. row_ok cols r)"

definition bytes_of :: "string list \<Rightarrow> nat" where
  "bytes_of ls = sum_list (map length ls)"

definition history_ok :: "screen \<Rightarrow> bool" where
  "history_ok s \<longleftrightarrow> sc_history_bytes s = bytes_of (sc_history s)
    \<and> length (sc_history s) \<le> sc_max_lines s \<and> sc_history_bytes s \<le> sc_max_bytes s"

definition shape_ok :: "screen \<Rightarrow> bool" where
  "shape_ok s \<longleftrightarrow>
    0 < sc_rows s \<and> sc_rows s \<le> MAX_ROWS \<and> 0 < sc_cols s \<and> sc_cols s \<le> MAX_COLS
    \<and> cells_ok (sc_rows s) (sc_cols s) (sc_cells s)
    \<and> sc_row s < sc_rows s \<and> sc_col s < sc_cols s
    \<and> sc_scroll_top s \<le> sc_scroll_bottom s \<and> sc_scroll_bottom s < sc_rows s
    \<and> (\<forall>cells r c w. sc_alternate s = Some (cells, r, c, w) \<longrightarrow>
        cells_ok (sc_rows s) (sc_cols s) cells \<and> r < sc_rows s \<and> c < sc_cols s)"

definition screen_inv :: "screen \<Rightarrow> bool" where
  "screen_inv s \<longleftrightarrow> shape_ok s \<and> history_ok s"

text \<open>Operations that only touch the cells.\<close>

definition cells_only :: "screen \<Rightarrow> screen \<Rightarrow> bool" where
  "cells_only s s' \<longleftrightarrow> screen_inv s' \<and> s' = s\<lparr>sc_cells := sc_cells s'\<rparr>"

lemma cells_only_refl [simp]: "screen_inv s \<Longrightarrow> cells_only s s"
  by (simp add: cells_only_def)

lemma cells_only_sel:
  assumes "cells_only s s'"
  shows "sc_rows s' = sc_rows s" "sc_cols s' = sc_cols s" "sc_row s' = sc_row s"
    "sc_col s' = sc_col s" "sc_alternate s' = sc_alternate s" "sc_history s' = sc_history s"
    "sc_scroll_top s' = sc_scroll_top s" "sc_scroll_bottom s' = sc_scroll_bottom s"
    "sc_wrap_pending s' = sc_wrap_pending s" "sc_history_bytes s' = sc_history_bytes s"
    "sc_saved_cursor s' = sc_saved_cursor s" "screen_inv s'"
  using assms unfolding cells_only_def by (metis screen.select_convs screen.surjective screen.update_convs(3))+

lemma cells_only_trans: "cells_only s t \<Longrightarrow> cells_only t u \<Longrightarrow> cells_only s u"
  unfolding cells_only_def by (metis screen.select_convs screen.surjective screen.update_convs(3))

lemma cells_only_upd:
  "screen_inv s \<Longrightarrow> cells_ok (sc_rows s) (sc_cols s) cells \<Longrightarrow> cells_only s (s\<lparr>sc_cells := cells\<rparr>)"
  by (simp add: cells_only_def screen_inv_def shape_ok_def history_ok_def)

section \<open>Rows\<close>

lemma row_ok_Nil [simp]: "row_ok cols []"
  by (simp add: row_ok_def)

lemma row_ok_set:
  "row_ok cols r \<Longrightarrow> length c \<le> CELL_MAX \<Longrightarrow> row_ok cols (r[i := c])"
  by (auto simp: row_ok_def dest: set_update_subset_insert [THEN subsetD])

lemma row_ok_resize: "row_ok cols r \<Longrightarrow> n \<le> cols \<Longrightarrow> row_ok cols (vec_resize r n '' '')"
  using set_vec_resize [of r n "'' ''"] by (auto simp: row_ok_def CELL_MAX_def)

lemma clear_in_row_ok: "row_ok cols r \<Longrightarrow> ok_opt (\<lambda>r'. row_ok cols r' \<and> length r' = length r) (clear_in_row r col)"
  by (auto simp: clear_in_row_def row_ok_set CELL_MAX_def)

lemma cells_ok_row: "cells_ok rows cols cells \<Longrightarrow> i < rows \<Longrightarrow> row_ok cols (cells ! i)"
  by (simp add: cells_ok_def)

lemma cells_ok_put: "cells_ok rows cols cells \<Longrightarrow> row_ok cols r \<Longrightarrow> cells_ok rows cols (cells[i := r])"
  by (auto simp: cells_ok_def dest: set_update_subset_insert [THEN subsetD])

lemma cells_ok_replicate [simp]: "cells_ok rows cols (replicate rows [])"
  by (auto simp: cells_ok_def)

lemma get_row_ok:
  "screen_inv s \<Longrightarrow> get_row s = Some (sc_cells s ! sc_row s) \<and> row_ok (sc_cols s) (sc_cells s ! sc_row s)"
  by (auto simp: get_row_def screen_inv_def shape_ok_def cells_ok_def vec_get_def)

lemma put_row_ok: "screen_inv s \<Longrightarrow> row_ok (sc_cols s) r \<Longrightarrow> cells_only s (put_row s r)"
  unfolding put_row_def
  by (rule cells_only_upd) (auto simp: screen_inv_def shape_ok_def cells_ok_put)

lemma edit_row_ok:
  assumes "screen_inv s" and "\<And>r. row_ok (sc_cols s) r \<Longrightarrow> ok_opt (row_ok (sc_cols s)) (f r)"
  shows "ok_opt (cells_only s) (edit_row s f)"
  using get_row_ok [OF assms(1)] assms(2)
  by (auto simp: edit_row_def intro!: ok_map intro: put_row_ok [OF assms(1)])

lemma clear_cell_ok:
  assumes "screen_inv s"
  shows "ok_opt (cells_only s) (clear_cell s col)"
proof -
  have "ok_opt (cells_only s) (edit_row s (\<lambda>r. clear_in_row r col))"
    by (rule edit_row_ok [OF assms]) (rule ok_weaken [OF clear_in_row_ok], auto)
  then show ?thesis by (simp add: edit_row_def clear_cell_def)
qed

lemma clear_cells_ok: "screen_inv s \<Longrightarrow> ok_opt (cells_only s) (clear_cells s a b)"
  unfolding clear_cells_def
  by (rule ok_run_opt) (auto intro: ok_weaken [OF clear_cell_ok] cells_only_trans cells_only_sel(12))

lemma erase_line_ok: "screen_inv s \<Longrightarrow> ok_opt (cells_only s) (erase_line s mode)"
  using get_row_ok [of s] clear_cells_ok [of s] put_row_ok [of s "[]"]
  by (simp add: erase_line_def)

lemma clear_rows_ok:
  assumes "screen_inv s" and "a \<le> b" and "b \<le> sc_rows s"
  shows "ok_opt (cells_only s) (clear_rows s a b)"
proof -
  have ok: "cells_ok (sc_rows s) (sc_cols s) (sc_cells s)"
    using assms(1) by (simp add: screen_inv_def shape_ok_def)
  then have "cells_ok (sc_rows s) (sc_cols s)
      (take a (sc_cells s) @ replicate (b - a) [] @ drop b (sc_cells s))"
    using assms(2,3) by (auto simp: cells_ok_def dest: in_set_takeD in_set_dropD)
  from cells_only_upd [OF assms(1) this] show ?thesis
    using assms ok by (simp add: clear_rows_def cells_ok_def)
qed

lemma shift_rows_ok:
  assumes "cells_ok rows cols cells" and "i < rows" and "j < rows"
  shows "ok_opt (\<lambda>(removed, cells'). cells_ok rows cols cells') (shift_rows cells i j)"
proof -
  have len: "length cells = rows" using assms(1) by (simp add: cells_ok_def)
  let ?rest = "take i cells @ drop (Suc i) cells"
  have "length ?rest = rows - 1" using assms(2) len by auto
  moreover have "set ?rest \<subseteq> set cells" by (rule set_take_drop_remove)
  ultimately have "cells_ok rows cols (take j ?rest @ [] # drop j ?rest)"
    using assms unfolding cells_ok_def
    by (auto dest: in_set_takeD in_set_dropD)
  with assms len show ?thesis
    by (simp add: shift_rows_def)
qed

section \<open>The history\<close>

lemma evict_lines_ok:
  "bytes = bytes_of ls \<Longrightarrow>
    ok_opt (\<lambda>(h, b). b = bytes_of h \<and> length h \<le> ml \<and> b \<le> mb \<and> (\<exists>pre. ls = pre @ h))
      (evict_lines ml mb ls bytes)"
proof (induction ls arbitrary: bytes)
  case Nil
  then show ?case by (simp add: bytes_of_def)
next
  case (Cons l ls)
  show ?case
  proof (cases "ml < length (l # ls) \<or> mb < bytes")
    case True
    have "bytes - length l = bytes_of ls" "length l \<le> bytes"
      using Cons.prems by (simp_all add: bytes_of_def)
    with Cons.IH [of "bytes - length l"] True show ?thesis
      by (auto simp: ok_opt_def)
  next
    case False
    with Cons.prems show ?thesis by auto
  qed
qed

lemma evict_hist:
  assumes "sc_history_bytes s = bytes_of (sc_history s)"
  shows "ok_opt (\<lambda>s'. history_ok s' \<and> (\<exists>h b. s' = s\<lparr>sc_history := h, sc_history_bytes := b\<rparr>)) (evict s)"
  unfolding evict_def
  by (rule ok_map [OF evict_lines_ok [OF assms]]) (auto simp: history_ok_def)

lemma remember_line_hist:
  assumes "history_ok s"
  shows "ok_opt (\<lambda>s'. history_ok s' \<and> (\<exists>h b. s' = s\<lparr>sc_history := h, sc_history_bytes := b\<rparr>))
    (remember_line s line)"
  unfolding remember_line_def
  by (rule ok_weaken [OF evict_hist]) (use assms in \<open>auto simp: history_ok_def bytes_of_def\<close>)

lemma shape_ok_history [simp]: "shape_ok (s\<lparr>sc_history := h, sc_history_bytes := b\<rparr>) = shape_ok s"
  by (simp add: shape_ok_def)

lemma remember_line_ok:
  assumes "shape_ok s" and "history_ok s"
  shows "ok_opt (\<lambda>s'. screen_inv s' \<and> (\<exists>h b. s' = s\<lparr>sc_history := h, sc_history_bytes := b\<rparr>))
    (remember_line s line)"
  by (rule ok_weaken [OF remember_line_hist [OF assms(2)]]) (use assms(1) in \<open>auto simp: screen_inv_def\<close>)

lemma remember_lines_hist:
  assumes "history_ok s"
  shows "ok_opt (\<lambda>s'. history_ok s' \<and> (\<exists>h b. s' = s\<lparr>sc_history := h, sc_history_bytes := b\<rparr>))
    (remember_lines s lines)"
  unfolding remember_lines_def
proof (rule ok_run_opt)
  show "history_ok s \<and> (\<exists>h b. s = s\<lparr>sc_history := h, sc_history_bytes := b\<rparr>)"
    using assms by (intro conjI exI [of _ "sc_history s"] exI [of _ "sc_history_bytes s"]) simp_all
qed (auto intro!: ok_weaken [OF remember_line_hist], blast)

section \<open>Every operation keeps the invariant\<close>

lemma inv_cells: "screen_inv s \<Longrightarrow> cells_ok (sc_rows s) (sc_cols s) (sc_cells s)"
  by (simp add: screen_inv_def shape_ok_def)

lemma scroll_up_ok:
  assumes "screen_inv s"
  shows "ok_opt (\<lambda>s'. screen_inv s' \<and> sc_cols s' = sc_cols s \<and> sc_rows s' = sc_rows s) (scroll_up s)"
proof -
  have b: "sc_scroll_top s < sc_rows s" "sc_scroll_bottom s < sc_rows s"
    using assms by (auto simp: screen_inv_def shape_ok_def)
  show ?thesis
    unfolding scroll_up_def
  proof (rule ok_bind [OF shift_rows_ok [OF inv_cells [OF assms] b]], clarify)
    fix removed cells assume c: "cells_ok (sc_rows s) (sc_cols s) cells"
    have i: "screen_inv (s\<lparr>sc_cells := cells\<rparr>)" using cells_only_upd [OF assms c] by (rule cells_only_sel)
    then have "ok_opt (\<lambda>s'. screen_inv s' \<and> sc_cols s' = sc_cols s \<and> sc_rows s' = sc_rows s)
        (remember_line (s\<lparr>sc_cells := cells\<rparr>) (render removed))"
      by (intro ok_weaken [OF remember_line_ok]) (auto simp: screen_inv_def)
    with i show "ok_opt (\<lambda>s'. screen_inv s' \<and> sc_cols s' = sc_cols s \<and> sc_rows s' = sc_rows s)
      (let s1 = s\<lparr>sc_cells := cells\<rparr> in
       if sc_alternate s1 = None \<and> sc_scroll_top s1 = 0 \<and> sc_scroll_bottom s1 = sc_rows s1 - 1
       then remember_line s1 (render removed) else Some s1)"
      by (simp add: Let_def)
  qed
qed

lemma inv_upd [simp]:
  "screen_inv (s\<lparr>sc_wrap_pending := w\<rparr>) = screen_inv s"
  "screen_inv (s\<lparr>sc_saved_cursor := k\<rparr>) = screen_inv s"
  "screen_inv s \<Longrightarrow> c < sc_cols s \<Longrightarrow> screen_inv (s\<lparr>sc_col := c\<rparr>)"
  "screen_inv s \<Longrightarrow> r < sc_rows s \<Longrightarrow> screen_inv (s\<lparr>sc_row := r\<rparr>)"
  "screen_inv s \<Longrightarrow> r < sc_rows s \<Longrightarrow> c < sc_cols s \<Longrightarrow> screen_inv (set_pos s r c)"
  "screen_inv (no_wrap s) = screen_inv s"
  by (auto simp: screen_inv_def shape_ok_def history_ok_def set_pos_def no_wrap_def)

lemma inv_pos: "screen_inv s \<Longrightarrow> 0 < sc_rows s \<and> 0 < sc_cols s \<and> sc_row s < sc_rows s \<and> sc_col s < sc_cols s"
  by (simp add: screen_inv_def shape_ok_def)

lemma newline_ok:
  assumes "screen_inv s"
  shows "ok_opt (\<lambda>s'. screen_inv s' \<and> sc_cols s' = sc_cols s \<and> sc_rows s' = sc_rows s) (newline s)"
  unfolding newline_def
  by (rule ok_map [where P = "\<lambda>s'. screen_inv s' \<and> sc_cols s' = sc_cols s \<and> sc_rows s' = sc_rows s"])
     (use scroll_up_ok [OF assms] inv_pos [OF assms] assms in auto)

lemma newline_home_ok:
  assumes "screen_inv s"
  shows "ok_opt (\<lambda>s'. screen_inv s' \<and> sc_cols s' = sc_cols s \<and> sc_rows s' = sc_rows s \<and> sc_col s' = 0)
    (map_option (\<lambda>s. s\<lparr>sc_col := 0\<rparr>) (newline s))"
  by (rule ok_map [OF newline_ok [OF assms]]) (use inv_pos [OF assms] in auto)

lemma erase_display_ok: "screen_inv s \<Longrightarrow> ok_opt (\<lambda>s'. screen_inv s' \<and> sc_rows s' = sc_rows s \<and> sc_cols s' = sc_cols s) (erase_display s mode)"
proof -
  assume inv: "screen_inv s"
  let ?Q = "\<lambda>s'. screen_inv s' \<and> sc_rows s' = sc_rows s \<and> sc_cols s' = sc_cols s"
  have rows: "ok_opt ?Q (clear_rows t a b)" if "cells_only s t" "a \<le> b" "b \<le> sc_rows s" for t a b
    using that cells_only_sel [OF that(1)]
    by (intro ok_weaken [OF clear_rows_ok]) (auto dest: cells_only_sel)
  have zero: "ok_opt ?Q (Option.bind (erase_line s 0) (\<lambda>s. clear_rows s (sc_row s + 1) (length (sc_cells s))))"
  proof (rule ok_bind [OF erase_line_ok [OF inv]])
    fix t assume t: "cells_only s t"
    note sel = cells_only_sel [OF t]
    have "length (sc_cells t) = sc_rows t" using inv_cells [OF sel(12)] by (simp add: cells_ok_def)
    with rows [OF t] sel inv_pos [OF inv] show "ok_opt ?Q (clear_rows t (sc_row t + 1) (length (sc_cells t)))"
      by simp
  qed
  have one: "ok_opt ?Q (Option.bind (erase_line s 1) (\<lambda>s. clear_rows s 0 (sc_row s)))"
  proof (rule ok_bind [OF erase_line_ok [OF inv]])
    fix t assume t: "cells_only s t"
    with rows [OF t] cells_only_sel [OF t] inv_pos [OF inv] show "ok_opt ?Q (clear_rows t 0 (sc_row t))"
      by simp
  qed
  have "length (sc_cells s) = sc_rows s" using inv_cells [OF inv] by (simp add: cells_ok_def)
  then have two: "ok_opt ?Q (clear_rows s 0 (length (sc_cells s)))" using inv rows [of s] by simp
  have "screen_inv (s\<lparr>sc_history := [], sc_history_bytes := 0\<rparr>)"
    using inv by (simp add: screen_inv_def shape_ok_def history_ok_def bytes_of_def)
  with zero one two inv show ?thesis by (simp add: erase_display_def)
qed

lemma alternate_screen_ok: "screen_inv s \<Longrightarrow> screen_inv (alternate_screen s b)"
  by (auto simp: alternate_screen_def screen_inv_def shape_ok_def history_ok_def split: option.split)

lemma print_mark_ok:
  assumes "screen_inv s" and "length c \<le> 4"
  shows "ok_opt screen_inv (print_mark s c)"
proof -
  let ?row = "sc_cells s ! sc_row s"
  have row: "get_row s = Some ?row" "row_ok (sc_cols s) ?row" using get_row_ok [OF assms(1)] by auto
  have "screen_inv (put_row s (?row[i := ?row ! i @ c]))" if "length (?row ! i) < 64" for i
    using assms that row(2)
    by (intro cells_only_sel(12) [OF put_row_ok] row_ok_set) (auto simp: CELL_MAX_def)
  with assms(1) row(1) show ?thesis by (simp add: print_mark_def Let_def)
qed

lemma print_glyph_ok:
  assumes "screen_inv s" and "length c \<le> 4" and "0 < width"
  shows "ok_opt screen_inv (print_glyph s c width)"
proof -
  let ?F = "\<lambda>t. screen_inv t \<and> sc_cols t = sc_cols s \<and> (width \<le> sc_cols s \<longrightarrow> sc_col t + width \<le> sc_cols s)"
  have start: "ok_opt ?F (if sc_wrap_pending s \<or> sc_cols s < sc_col s + width
      then map_option (\<lambda>s. s\<lparr>sc_col := 0\<rparr>) (newline s) else Some s)"
    using assms(1) by (auto intro!: ok_weaken [OF newline_home_ok])
  show ?thesis
    unfolding print_glyph_def
  proof (rule ok_bind [OF start], rule ok_if)
    fix t assume t: "?F t" and "\<not> sc_cols t < width"
    then have fits: "sc_col t + width \<le> sc_cols t" by simp
    let ?C = "\<lambda>u. cells_only t u"
    have t_inv: "screen_inv t" using t by simp
    show "ok_opt screen_inv (Option.bind (clear_cell t (sc_col t)) (\<lambda>s.
      Option.bind (if width = 2 then clear_cell s (sc_col s + 1) else Some s) (\<lambda>s.
      Option.bind (get_row s) (\<lambda>row.
      Option.bind (vec_set (vec_resize row (max (length row) (sc_col s + width)) '' '') (sc_col s) c) (\<lambda>row.
      Option.bind (if width = 2 then vec_set row (sc_col s + 1) [] else Some row) (\<lambda>row.
        (let s1 = put_row s row; col = sc_col s + width in
         Some (if sc_cols s \<le> col then s1\<lparr>sc_col := sc_cols s - 1, sc_wrap_pending := True\<rparr>
               else s1\<lparr>sc_col := col\<rparr>))))))))"
    proof (rule ok_bind [OF clear_cell_ok [OF t_inv]], rule ok_bind [where P = ?C])
      fix u assume u: "?C u"
      show "ok_opt ?C (if width = 2 then clear_cell u (sc_col u + 1) else Some u)"
        using u cells_only_sel(12) [OF u]
        by (auto intro!: ok_weaken [OF clear_cell_ok] intro: cells_only_trans)
    next
      fix u v assume v: "?C v"
      note sel = cells_only_sel [OF v]
      let ?row = "sc_cells v ! sc_row v"
      have row: "get_row v = Some ?row" "row_ok (sc_cols v) ?row" using get_row_ok [OF sel(12)] by auto
      let ?big = "vec_resize ?row (max (length ?row) (sc_col v + width)) '' ''"
      have big: "row_ok (sc_cols v) ?big"
        using row(2) fits sel by (intro row_ok_resize) (auto simp: row_ok_def)
      let ?one = "?big[sc_col v := c]"
      let ?two = "if width = 2 then ?one[sc_col v + 1 := []] else ?one"
      have "row_ok (sc_cols v) ?two"
        using big assms(2) by (auto intro!: row_ok_set simp: CELL_MAX_def)
      then have put: "cells_only v (put_row v ?two)" by (rule put_row_ok [OF sel(12)])
      note ps = cells_only_sel [OF put]
      let ?last = "if sc_cols v \<le> sc_col v + width
          then (put_row v ?two)\<lparr>sc_col := sc_cols v - 1, sc_wrap_pending := True\<rparr>
          else (put_row v ?two)\<lparr>sc_col := sc_col v + width\<rparr>"
      let ?rest = "Option.bind (get_row v) (\<lambda>row.
        Option.bind (vec_set (vec_resize row (max (length row) (sc_col v + width)) '' '') (sc_col v) c) (\<lambda>row.
        Option.bind (if width = 2 then vec_set row (sc_col v + 1) [] else Some row) (\<lambda>row.
          (let s1 = put_row v row; col = sc_col v + width in
           Some (if sc_cols v \<le> col then s1\<lparr>sc_col := sc_cols v - 1, sc_wrap_pending := True\<rparr>
                 else s1\<lparr>sc_col := col\<rparr>)))))"
      have "screen_inv ?last"
        using ps inv_pos [OF sel(12)]
        by (auto simp del: inv_upd(1) intro!: inv_upd(3) inv_upd(1) [THEN iffD2])
      moreover have "?rest = Some ?last"
        using row(1) assms(3) by (cases "width = 2") (simp_all add: Let_def)
      ultimately show "ok_opt screen_inv ?rest" by (simp only: ok_opt_simps)
    qed
  qed simp
qed

lemma execute_ok: "screen_inv s \<Longrightarrow> ok_opt screen_inv (screen_execute s b)"
  using inv_pos [of s] newline_home_ok [of s]
  by (auto simp: screen_execute_def intro: ok_weaken)

lemma restore_cursor_ok: "screen_inv s \<Longrightarrow> screen_inv (restore_cursor s)"
  using inv_pos [of s] unfolding restore_cursor_def by (intro inv_upd(5)) auto

lemma shift_ok:
  assumes "screen_inv s" and "i < sc_rows s" and "j < sc_rows s"
  shows "ok_opt (cells_only s) (map_option (\<lambda>(_, cells). s\<lparr>sc_cells := cells\<rparr>) (shift_rows (sc_cells s) i j))"
  by (rule ok_map [OF shift_rows_ok [OF inv_cells [OF assms(1)] assms(2,3)]])
     (auto intro: cells_only_upd [OF assms(1)])

lemma inv_region:
  "screen_inv s \<Longrightarrow> sc_scroll_top s \<le> sc_scroll_bottom s \<and> sc_scroll_bottom s < sc_rows s
    \<and> sc_scroll_top s < sc_rows s"
  by (auto simp: screen_inv_def shape_ok_def)

lemma scroll_down_ok: "screen_inv s \<Longrightarrow> ok_opt (cells_only s) (scroll_down s)"
  unfolding scroll_down_def using inv_region [of s] by (intro shift_ok) auto

lemma esc_dispatch_ok:
  assumes "screen_inv s"
  shows "ok_opt screen_inv (esc_dispatch s ignore b)"
proof -
  have w: "ok_opt screen_inv x \<Longrightarrow> ok_opt screen_inv (map_option no_wrap x)" for x
    by (rule ok_map [where P = screen_inv]) simp_all
  have nl: "ok_opt screen_inv (newline s)" "ok_opt screen_inv (map_option (\<lambda>s. s\<lparr>sc_col := 0\<rparr>) (newline s))"
    using newline_ok [OF assms] newline_home_ok [OF assms] by (auto intro: ok_weaken)
  have down: "ok_opt screen_inv (scroll_down s)"
    using scroll_down_ok [OF assms] by (rule ok_weaken) (rule cells_only_sel)
  have reset: "ok_opt screen_inv (map_option (\<lambda>s. set_pos s 0 0) (erase_display s 2))"
    by (rule ok_map [OF erase_display_ok [OF assms]]) (use inv_pos [OF assms] in \<open>auto intro: inv_upd(5)\<close>)
  show ?thesis
    unfolding esc_dispatch_def
    by (rule ok_if, use assms in simp, rule w)
       (use assms nl down reset inv_pos [OF assms] in \<open>auto simp: restore_cursor_ok\<close>)
qed

lemma delete_chars_ok: "row_ok cols r \<Longrightarrow> ok_opt (row_ok cols) (delete_chars c n r)"
  by (auto simp: delete_chars_def row_ok_def dest: in_set_takeD in_set_dropD)

lemma insert_blanks_ok:
  assumes "row_ok cols r" and "c < cols"
  shows "ok_opt (row_ok cols) (insert_blanks c cols n r)"
proof -
  let ?P = "\<lambda>row. c \<le> length row \<and> (\<forall>x \<in> set row. length x \<le> CELL_MAX)"
  have "ok_opt ?P (run_opt (\<lambda>row _. vec_insert row c '' '') (vec_resize r (max (length r) c) '' '')
      [0..<min n cols])"
  proof (rule ok_run_opt)
    show "?P (vec_resize r (max (length r) c) '' '')"
      using assms set_vec_resize [of r "max (length r) c" "'' ''"]
      by (auto simp: row_ok_def CELL_MAX_def)
    show "ok_opt ?P (vec_insert row c '' '')" if "?P row" for row
      using that by (auto simp: CELL_MAX_def dest: in_set_takeD in_set_dropD)
  qed
  then show ?thesis
    unfolding insert_blanks_def by (rule ok_map) (auto simp: row_ok_def dest: in_set_takeD)
qed

lemma csi_action_ok:
  assumes inv: "screen_inv s"
  shows "ok_opt screen_inv (csi_action s params action)"
proof -
  note pos = inv_pos [OF inv] and reg = inv_region [OF inv]
  have w: "ok_opt screen_inv x \<Longrightarrow> ok_opt screen_inv (map_option no_wrap x)" for x
    by (rule ok_map [where P = screen_inv]) simp_all
  have co: "ok_opt (cells_only s) x \<Longrightarrow> ok_opt screen_inv (map_option no_wrap x)" for x
    by (rule w) (auto intro: ok_weaken cells_only_sel(12))
  have rep: "ok_opt screen_inv (map_option no_wrap (repeat_opt k f s))"
    if "\<And>t. cells_only s t \<Longrightarrow> ok_opt (cells_only t) (f t)" for k f
    unfolding repeat_opt_def
    by (rule co, rule ok_run_opt) (use inv that in \<open>auto intro: ok_weaken cells_only_trans\<close>)
  have up: "ok_opt screen_inv (map_option no_wrap (repeat_opt k scroll_up s))" for k
    unfolding repeat_opt_def
    by (rule w, rule ok_run_opt) (use inv scroll_up_ok in \<open>auto intro: ok_weaken\<close>)
  have down: "ok_opt screen_inv (map_option no_wrap (repeat_opt k scroll_down s))" for k
    by (rule rep) (auto intro: scroll_down_ok cells_only_sel(12))
  have lines: "ok_opt screen_inv (map_option no_wrap (repeat_opt k
      (\<lambda>s. if b then shift_line s (sc_scroll_bottom s) (sc_row s)
           else shift_line s (sc_row s) (sc_scroll_bottom s)) s))" for k b
  proof (rule rep)
    fix t assume t: "cells_only s t"
    note tsel = cells_only_sel [OF t]
    show "ok_opt (cells_only t) (if b then shift_line t (sc_scroll_bottom t) (sc_row t)
           else shift_line t (sc_row t) (sc_scroll_bottom t))"
      unfolding shift_line_def using inv_pos [OF tsel(12)] inv_region [OF tsel(12)]
      by (auto intro!: shift_ok [OF tsel(12)])
  qed
  have region: "screen_inv ((set_pos s 0 0)\<lparr>sc_scroll_top := a, sc_scroll_bottom := b\<rparr>)"
    if "a < b" "b < sc_rows s" for a b
    using inv that by (auto simp: screen_inv_def shape_ok_def history_ok_def set_pos_def)
  have er: "ok_opt screen_inv (map_option no_wrap (erase_display s m))"
    "ok_opt screen_inv (map_option no_wrap (erase_line s m))" for m
    using erase_display_ok [OF inv] erase_line_ok [OF inv]
    by (auto intro: w co ok_weaken)
  have cl: "ok_opt screen_inv (map_option no_wrap (clear_cells s a b))" for a b
    by (rule co) (rule clear_cells_ok [OF inv])
  have ed: "ok_opt screen_inv (map_option no_wrap (edit_row s (delete_chars (sc_col s) k)))"
    "ok_opt screen_inv (map_option no_wrap (edit_row s (insert_blanks (sc_col s) (sc_cols s) k)))" for k
    using pos by (auto intro!: co edit_row_ok [OF inv] delete_chars_ok insert_blanks_ok)
  have either: "ok_opt screen_inv x \<Longrightarrow> ok_opt screen_inv y \<Longrightarrow> ok_opt screen_inv (if b then x else y)" for x y b
    by simp
  have simple: "screen_inv t \<Longrightarrow> ok_opt screen_inv (Some (no_wrap t))" for t by simp
  have row: "r < sc_rows s \<Longrightarrow> ok_opt screen_inv (Some (no_wrap (s\<lparr>sc_row := r\<rparr>)))" for r
    by (rule simple) (rule inv_upd(4) [OF inv])
  have col: "c < sc_cols s \<Longrightarrow> ok_opt screen_inv (Some (no_wrap (s\<lparr>sc_col := c\<rparr>)))" for c
    by (rule simple) (rule inv_upd(3) [OF inv])
  have cur: "r < sc_rows s \<Longrightarrow> c < sc_cols s \<Longrightarrow> ok_opt screen_inv (Some (no_wrap (set_pos s r c)))" for r c
    by (rule simple) (rule inv_upd(5) [OF inv])
  have keep: "ok_opt screen_inv (Some (no_wrap (s\<lparr>sc_saved_cursor := k\<rparr>)))"
    "ok_opt screen_inv (Some (no_wrap (restore_cursor s)))" "ok_opt screen_inv (Some s)" for k
    using inv restore_cursor_ok [OF inv] by simp_all
  have margins: "ok_opt screen_inv (Some (no_wrap (if a < b \<and> b < sc_rows s
      then (set_pos s 0 0)\<lparr>sc_scroll_top := a, sc_scroll_bottom := b\<rparr> else s)))" for a b
    using region inv by simp
  show ?thesis
    unfolding csi_action_def Let_def
    by (intro either up down lines er cl ed row col cur keep margins) (use pos in auto)
qed

lemma csi_dispatch_ok: "screen_inv s \<Longrightarrow> ok_opt screen_inv (csi_dispatch s params inters ignore action)"
  by (simp add: csi_dispatch_def csi_action_ok alternate_screen_ok)

fun event_ok :: "vt_event \<Rightarrow> bool" where
  "event_ok (Print c) = (length c \<le> 4)"
| "event_ok _ = True"

lemma screen_event_ok: "screen_inv s \<Longrightarrow> event_ok e \<Longrightarrow> ok_opt screen_inv (screen_event cw s e)"
  by (cases e) (auto simp: screen_print_def print_mark_ok print_glyph_ok execute_ok esc_dispatch_ok
      csi_dispatch_ok split: option.split)

section \<open>Resizing keeps it\<close>

definition rz_ok :: "nat \<Rightarrow> nat \<Rightarrow> resizing \<Rightarrow> bool" where
  "rz_ok rows cols z \<longleftrightarrow> length (rz_visible z) \<le> rows \<and> (\<forall>r \<in> set (rz_visible z). row_ok cols r)
    \<and> fst (snd (rz_cursor z)) < cols"

definition cells_small :: "cell_row \<Rightarrow> bool" where
  "cells_small r \<longleftrightarrow> (\<forall>c \<in> set r. length c \<le> CELL_MAX)"

lemma keep_resized_line_ok:
  "0 < rows \<Longrightarrow> rz_ok rows cols z \<Longrightarrow> row_ok cols line \<Longrightarrow> rz_ok rows cols (keep_resized_line rows z line)"
  by (cases "rz_visible z") (auto simp: keep_resized_line_def rz_ok_def)

lemma keep_resized_line_cursor [simp]: "rz_cursor (keep_resized_line rows z line) = rz_cursor z"
  by (simp add: keep_resized_line_def split: list.split)

lemma glyph_width_bounds: "0 < cols \<Longrightarrow> 1 \<le> glyph_width cw cols g \<and> glyph_width cw cols g \<le> cols"
  unfolding glyph_width_def by (rule clamp_bounds) simp

lemma glyph_small: "cells_small source \<Longrightarrow>
    length (case glyph_at source i of Some g \<Rightarrow> g | None \<Rightarrow> '' '') \<le> CELL_MAX"
  by (auto simp: glyph_at_def cells_small_def CELL_MAX_def)

lemma resize_cell_ok:
  assumes "0 < rows" and cols: "0 < cols" and small: "cells_small source"
    and z: "rz_ok rows cols z" and line: "row_ok cols line"
    and eq: "resize_cell cw rows cols source target index z line = (z', line')"
  shows "rz_ok rows cols z' \<and> row_ok cols line'"
proof -
  define glyph where "glyph = (case glyph_at source index of Some g \<Rightarrow> g | None \<Rightarrow> '' '')"
  define width where "width = glyph_width cw cols glyph"
  obtain z1 line1 where zl: "(if cols < length line + width
      then (keep_resized_line rows z line, []) else (z, line)) = (z1, line1)" by (metis surj_pair)
  have w: "1 \<le> width" "width \<le> cols" using glyph_width_bounds [OF cols] by (auto simp: width_def)
  have z1: "rz_ok rows cols z1" "row_ok cols line1" "length line1 + width \<le> cols"
    using zl assms w keep_resized_line_ok by (auto split: if_splits)
  have g: "length glyph \<le> CELL_MAX"
    using glyph_small [OF small, of index] by (simp add: glyph_def)
  have line': "line' = line1 @ glyph # (if width = 2 then [[]] else [])"
    using eq zl unfolding resize_cell_def Let_def glyph_def [symmetric] width_def [symmetric] zl by simp
  have z': "z' = z1 \<or> (\<exists>t. z' = z1\<lparr>rz_cursor := (rz_removed z1 + length (rz_visible z1),
      length line1 + min t (width - 1), False)\<rparr>)"
    using eq unfolding resize_cell_def Let_def glyph_def [symmetric] width_def [symmetric] zl
    by (auto split: option.splits if_splits)
  show ?thesis
    using z1 w z' g by (auto simp: rz_ok_def row_ok_def line')
qed

lemma resize_row_ok:
  "0 < rows \<Longrightarrow> 0 < cols \<Longrightarrow> cells_small source \<Longrightarrow> rz_ok rows cols z \<Longrightarrow> row_ok cols line \<Longrightarrow>
    resize_row cw rows cols source len target index z line = (z', line') \<Longrightarrow>
    rz_ok rows cols z' \<and> row_ok cols line'"
proof (induction cw rows cols source len target index z line rule: resize_row.induct)
  case (1 cw rows cols source len target index z line)
  obtain z1 line1 where c: "resize_cell cw rows cols source target index z line = (z1, line1)"
    by (metis surj_pair)
  show ?case
  proof (cases "index < len")
    case False
    with 1 show ?thesis by (simp add: resize_row.simps)
  next
    case True
    have "resize_row cw rows cols source len target (index + source_width source index) z1 line1 = (z', line')"
      using "1.prems"(6) True c by (subst (asm) resize_row.simps) simp
    with "1.IH" [OF True c [symmetric]] "1.prems" resize_cell_ok [OF _ _ _ _ _ c]
    show ?thesis by blast
  qed
qed

lemma resize_source_ok:
  assumes "0 < rows" "0 < cols" "cells_small (snd isrc)" "rz_ok rows cols z"
  shows "rz_ok rows cols (resize_source cw rows cols cursor_row target z isrc)"
proof -
  obtain i source where isrc: "isrc = (i, source)" by (metis surj_pair)
  define len where "len = max (length source) (if i = cursor_row then target else 0)"
  obtain z1 line where r: "resize_row cw rows cols source len
      (if i = cursor_row then Some target else None) 0 z [] = (z1, line)"
    by (metis surj_pair)
  have z1: "rz_ok rows cols z1 \<and> row_ok cols line"
    by (rule resize_row_ok [OF assms(1,2) _ assms(4) _ r]) (use assms(3) isrc in simp_all)
  show ?thesis
    unfolding isrc resize_source_def
    using z1 assms(1,2) r [unfolded len_def]
    by (auto simp: Let_def intro!: keep_resized_line_ok) (auto simp: rz_ok_def)
qed

lemma resize_sources_ok:
  "0 < rows \<Longrightarrow> 0 < cols \<Longrightarrow> \<forall>x \<in> set xs. cells_small (snd x) \<Longrightarrow> rz_ok rows cols z \<Longrightarrow>
    rz_ok rows cols (foldl (resize_source cw rows cols cursor_row target) z xs)"
  by (induction xs arbitrary: z) (simp_all add: resize_source_ok)

lemma cells_ok_small: "cells_ok rows cols cells \<Longrightarrow> r \<in> set cells \<Longrightarrow> cells_small r"
  by (auto simp: cells_ok_def row_ok_def cells_small_def)

lemma resize_screen_ok:
  assumes "0 < rows" "0 < cols" and cells: "cells_ok rows0 cols0 cells"
    and eq: "resize_screen cw rows cols (cells, cr, cc, w) = ((cells', r, c, w'), lines)"
  shows "cells_ok rows cols cells' \<and> r < rows \<and> c < cols"
proof -
  define z0 where "z0 = \<lparr>rz_visible = [], rz_removed = 0, rz_remembered = [], rz_cursor = (0, 0, False)\<rparr>"
  define z where "z = foldl (resize_source cw rows cols cr (cc + (if w then 1 else 0))) z0
    (enumerate 0 (take (used_rows cells cr) cells))"
  have small: "\<forall>x \<in> set (enumerate 0 (take (used_rows cells cr) cells)). cells_small (snd x)"
  proof
    fix x assume "x \<in> set (enumerate 0 (take (used_rows cells cr) cells))"
    then have "snd x \<in> set cells"
      by (metis in_set_takeD map_snd_enumerate image_eqI set_map)
    then show "cells_small (snd x)" by (rule cells_ok_small [OF cells])
  qed
  have z: "rz_ok rows cols z"
    unfolding z_def by (rule resize_sources_ok [OF assms(1,2) small]) (use assms in \<open>simp add: z0_def rz_ok_def\<close>)
  have parts: "cells' = vec_resize (rz_visible z) rows []" "r = min (fst (rz_cursor z) - rz_removed z) (rows - 1)"
    "c = fst (snd (rz_cursor z))"
    using eq unfolding resize_screen_def Let_def prod.case z0_def [symmetric] z_def [symmetric]
    by (auto split: prod.splits)
  have "\<forall>x \<in> set cells'. row_ok cols x"
    using z set_vec_resize [of "rz_visible z" rows "[]"] unfolding parts rz_ok_def by auto
  then show ?thesis
    using z assms(1) by (auto simp: parts cells_ok_def rz_ok_def)
qed

lemma clamp_rows: "0 < clamp 1 MAX_ROWS n" "clamp 1 MAX_ROWS n \<le> MAX_ROWS"
  "0 < clamp 1 MAX_COLS n" "clamp 1 MAX_COLS n \<le> MAX_COLS"
  using clamp_bounds [of 1 MAX_ROWS n] clamp_bounds [of 1 MAX_COLS n] by (simp_all add: MAX_ROWS_def MAX_COLS_def)

text \<open>What holds between the two halves of a resize: the cells still have the old shape.\<close>

definition half_resized :: "nat \<Rightarrow> nat \<Rightarrow> screen \<Rightarrow> bool" where
  "half_resized rows0 cols0 s \<longleftrightarrow> history_ok s
    \<and> 0 < sc_rows s \<and> sc_rows s \<le> MAX_ROWS \<and> 0 < sc_cols s \<and> sc_cols s \<le> MAX_COLS
    \<and> cells_ok rows0 cols0 (sc_cells s)
    \<and> (\<forall>cells r c w. sc_alternate s = Some (cells, r, c, w) \<longrightarrow>
        cells_ok (sc_rows s) (sc_cols s) cells \<and> r < sc_rows s \<and> c < sc_cols s)"

lemma resize_alternate_ok:
  assumes h: "history_ok s" and rows: "0 < sc_rows s" "sc_rows s \<le> MAX_ROWS"
    and cols: "0 < sc_cols s" "sc_cols s \<le> MAX_COLS" and cells: "cells_ok rows0 cols0 (sc_cells s)"
    and main: "\<And>cells r c w. sc_alternate s = Some (cells, r, c, w) \<Longrightarrow> cells_ok rows0 cols0 cells"
  shows "ok_opt (half_resized rows0 cols0) (resize_alternate cw s)"
proof (cases "sc_alternate s")
  case None
  then show ?thesis using assms by (simp add: half_resized_def resize_alternate_def)
next
  case (Some m)
  obtain cells r c w where m: "m = (cells, r, c, w)" by (metis surj_pair)
  obtain cells' r' c' w' lines where
    rz: "resize_screen cw (sc_rows s) (sc_cols s) m = ((cells', r', c', w'), lines)"
    by (metis surj_pair)
  from resize_screen_ok [OF rows(1) cols(1) main [OF Some [unfolded m]] rz [unfolded m]]
  have ok: "cells_ok (sc_rows s) (sc_cols s) cells' \<and> r' < sc_rows s \<and> c' < sc_cols s" .
  have "history_ok (s\<lparr>sc_alternate := None\<rparr>)" using h by (simp add: history_ok_def)
  from remember_lines_hist [OF this, of lines]
  show ?thesis
    unfolding resize_alternate_def Some option.case rz prod.case
    by (rule ok_map) (use ok assms in \<open>auto simp: half_resized_def history_ok_def\<close>)
qed

lemma resize_active_ok:
  assumes half: "half_resized rows0 cols0 s"
  shows "ok_opt screen_inv (resize_active cw s)"
proof -
  obtain cells' r' c' w' lines where
    rz: "resize_screen cw (sc_rows s) (sc_cols s) (sc_cells s, sc_row s, sc_col s, sc_wrap_pending s)
      = ((cells', r', c', w'), lines)"
    by (metis surj_pair)
  have ok: "cells_ok (sc_rows s) (sc_cols s) cells' \<and> r' < sc_rows s \<and> c' < sc_cols s"
    using resize_screen_ok [OF _ _ _ rz] half by (auto simp: half_resized_def)
  have "s = s\<lparr>sc_history := sc_history s, sc_history_bytes := sc_history_bytes s\<rparr>" by simp
  then have "\<exists>h b. s = s\<lparr>sc_history := h, sc_history_bytes := b\<rparr>" by blast
  then have hist: "ok_opt (\<lambda>s'. history_ok s' \<and> (\<exists>h b. s' = s\<lparr>sc_history := h, sc_history_bytes := b\<rparr>))
    (if sc_alternate s = None then remember_lines s lines else Some s)"
    using remember_lines_hist [of s lines] half by (simp add: half_resized_def)
  show ?thesis
    unfolding resize_active_def rz prod.case
    by (rule ok_map [OF hist])
       (use ok half in \<open>auto simp: screen_inv_def shape_ok_def history_ok_def half_resized_def\<close>)
qed

lemma screen_resize_ok:
  assumes "screen_inv s"
  shows "ok_opt screen_inv (screen_resize cw s cols rows)"
  unfolding screen_resize_def
  by (rule ok_bind [OF resize_alternate_ok resize_active_ok])
     (use assms clamp_rows in \<open>auto simp: screen_inv_def shape_ok_def history_ok_def\<close>)

lemma screen_shrink_ok:
  assumes "screen_inv s"
  shows "ok_opt screen_inv (screen_shrink s max_lines max_bytes)"
  unfolding screen_shrink_def
  by (rule ok_weaken [OF evict_hist])
     (use assms in \<open>auto simp: screen_inv_def history_ok_def shape_ok_def\<close>)

lemma screen_with_size_inv: "screen_inv (screen_with_size max_lines max_bytes cols rows)"
  using clamp_rows [of rows] clamp_rows [of cols]
  by (simp add: screen_with_size_def screen_inv_def shape_ok_def history_ok_def bytes_of_def Let_def)

fun op_ok :: "screen_op \<Rightarrow> bool" where
  "op_ok (ScEvent e) = event_ok e"
| "op_ok _ = True"

interpretation screen: safe_machine "screen_step cw" screen_inv op_ok
  by unfold_locales
     (auto simp: screen_event_ok screen_resize_ok screen_shrink_ok elim: op_ok.elims split: screen_op.splits)

end
