(* ===== verification/Screen_Text.thy ===== *)
theory Screen_Text
  imports Screen_Props
begin

text \<open>
  What the plain-text view promises its readers: bounds whatever the terminal prints, the newest
  text that fits when it is read, no trace of a full-screen program, and plain lines as they
  were printed.
\<close>

section \<open>Bounds\<close>

text \<open>
  Property C10. Whatever the terminal prints (any sequence of printed chars, control characters,
  escape and control sequences), however the terminal is resized (zero and huge sizes included)
  and the limits are shrunk, the plain-text view does not panic: no index is out of range, no
  row is removed or inserted outside the screen, the byte count of the history never goes below
  zero. The cursor stays on the screen, the screen stays within 512 rows of 1024 cells of 67
  bytes, and the history within the limits in force.
\<close>

theorem screen_never_panics_and_is_bounded:
  assumes "list_all op_ok ops"
  shows "\<exists>s. run_opt (screen_step cw) (screen_with_size max_lines max_bytes cols rows) ops = Some s
    \<and> sc_row s < sc_rows s \<and> sc_col s < sc_cols s
    \<and> length (sc_cells s) = sc_rows s \<and> sc_rows s \<le> 512
    \<and> (\<forall>r \<in> set (sc_cells s). length r \<le> sc_cols s \<and> (\<forall>c \<in> set r. length c \<le> 67))
    \<and> sc_cols s \<le> 1024
    \<and> length (sc_history s) \<le> sc_max_lines s
    \<and> sum_list (map length (sc_history s)) \<le> sc_max_bytes s"
  using screen.run_safe [OF screen_with_size_inv assms, of cw max_lines max_bytes cols rows]
  by (auto simp: ok_opt_def screen_inv_def shape_ok_def history_ok_def cells_ok_def row_ok_def
      bytes_of_def MAX_ROWS_def MAX_COLS_def CELL_MAX_def)

theorem screen_never_panics_and_is_bounded_witness:
  "\<exists>s. run_opt (screen_step (\<lambda>_. Some 2)) (screen_with_size 1 5 2 1)
      [ScEvent (Print ''ab''), ScEvent (Print ''cd''), ScResize 0 0, ScEvent (Execute 10), ScShrink 0 0] = Some s
    \<and> sc_row s < sc_rows s \<and> sc_col s < sc_cols s
    \<and> length (sc_cells s) = sc_rows s \<and> sc_rows s \<le> 512
    \<and> (\<forall>r \<in> set (sc_cells s). length r \<le> sc_cols s \<and> (\<forall>c \<in> set r. length c \<le> 67))
    \<and> sc_cols s \<le> 1024
    \<and> length (sc_history s) \<le> sc_max_lines s
    \<and> sum_list (map length (sc_history s)) \<le> sc_max_bytes s"
  by (rule screen_never_panics_and_is_bounded) simp

section \<open>The newest text\<close>

lemma take_recent_spec:
  "bytes \<le> mb \<Longrightarrow> \<exists>rest. ls = take_recent mb bytes ls @ rest
    \<and> bytes + bytes_of (take_recent mb bytes ls) \<le> mb
    \<and> (rest = [] \<or> mb < bytes + bytes_of (take_recent mb bytes ls) + length (hd rest))"
proof (induction ls arbitrary: bytes)
  case Nil
  then show ?case by (simp add: bytes_of_def)
next
  case (Cons l ls)
  show ?case
  proof (cases "mb < bytes + length l")
    case True
    with Cons.prems show ?thesis by (simp add: bytes_of_def)
  next
    case False
    with Cons.IH [of "bytes + length l"] show ?thesis by (auto simp: bytes_of_def add.assoc)
  qed
qed

definition all_lines :: "screen \<Rightarrow> string list" where
  "all_lines s = (if sc_alternate s = None then sc_history s else []) @ visible_lines s"

lemma get_recent_all:
  "get_recent s n = rev (take_recent (sc_max_bytes s) 0
    (take (if n = 0 then sc_max_lines s else min n (sc_max_lines s)) (rev (all_lines s))))"
  by (simp add: get_recent_def all_lines_def Let_def)

text \<open>
  Reading the newest \<open>n\<close> lines (0 for as many as are kept) returns a suffix of what
  the view holds, whole lines in the order they were printed; never more lines than asked for
  or kept, never more bytes than the limit; and nothing that fits is left out: the suffix is
  either everything, or as many lines as asked for, or the next older line would not fit.
\<close>

theorem recent_lines_are_the_newest_that_fit:
  "let lines = get_recent s n; limit = (if n = 0 then sc_max_lines s else min n (sc_max_lines s))
   in \<exists>older. all_lines s = older @ lines \<and> length lines \<le> limit
     \<and> sum_list (map length lines) \<le> sc_max_bytes s
     \<and> (if older = [] \<or> length lines = limit then True
        else sc_max_bytes s < length (last older) + sum_list (map length lines))"
proof -
  define limit where "limit = (if n = 0 then sc_max_lines s else min n (sc_max_lines s))"
  define new where "new = take limit (rev (all_lines s))"
  obtain rest where r: "new = take_recent (sc_max_bytes s) 0 new @ rest"
      "bytes_of (take_recent (sc_max_bytes s) 0 new) \<le> sc_max_bytes s"
      "rest = [] \<or> sc_max_bytes s < bytes_of (take_recent (sc_max_bytes s) 0 new) + length (hd rest)"
    using take_recent_spec [of 0 "sc_max_bytes s" new] by auto
  define got where "got = take_recent (sc_max_bytes s) 0 new"
  have lines: "get_recent s n = rev got" by (simp add: get_recent_all got_def new_def limit_def)
  define old where "old = rest @ drop limit (rev (all_lines s))"
  have new_eq: "new = got @ rest" using r(1) unfolding got_def .
  have "rev (all_lines s) = new @ drop limit (rev (all_lines s))"
    unfolding new_def by (rule append_take_drop_id [symmetric])
  also have "\<dots> = got @ old" by (simp only: new_eq old_def append.assoc)
  finally have "rev (all_lines s) = got @ old" .
  then have split: "all_lines s = rev old @ rev got" by (metis rev_append rev_rev_ident)
  have "length new = length got + length rest" by (simp only: new_eq length_append)
  then have short: "length got \<le> limit" by (simp add: new_def)
  have bytes: "sum_list (map length (rev got)) = bytes_of got"
    by (simp add: bytes_of_def rev_map [symmetric] sum_list_rev)
  have full: "sc_max_bytes s < length (last (rev old)) + bytes_of got"
    if "rev old \<noteq> []" "length got \<noteq> limit"
  proof (cases "rest = []")
    case True
    then have "new = got" using new_eq by simp
    with that(2) have "length (rev (all_lines s)) < limit" by (auto simp: new_def min_def split: if_splits)
    with that(1) True show ?thesis by (simp add: old_def)
  next
    case False
    with r(3) show ?thesis by (cases rest) (auto simp: got_def old_def)
  qed
  show ?thesis
    unfolding lines limit_def [symmetric] Let_def
    by (rule exI [of _ "rev old"])
       (use split short bytes full r(2) in \<open>auto simp: got_def [symmetric]\<close>)
qed

section \<open>Full-screen programs\<close>

text \<open>
  While the alternate screen is shown, the saved main screen and the history are frozen. The
  two events that may touch them: leaving (or entering) the alternate screen, and the control
  sequence that erases the saved lines.
\<close>

definition frozen :: "screen \<Rightarrow> screen \<Rightarrow> bool" where
  "frozen s t \<longleftrightarrow> (sc_alternate s \<noteq> None \<longrightarrow> sc_alternate t = sc_alternate s
    \<and> sc_history t = sc_history s \<and> sc_history_bytes t = sc_history_bytes s
    \<and> sc_max_lines t = sc_max_lines s \<and> sc_max_bytes t = sc_max_bytes s)"

definition keeps :: "screen \<Rightarrow> screen option \<Rightarrow> bool" where
  "keeps s x \<longleftrightarrow> (\<forall>t. x = Some t \<longrightarrow> frozen s t)"

named_theorems keep_intros \<open>what leaves the main screen alone\<close>

lemma frozen_refl [keep_intros]: "frozen s s"
  by (simp add: frozen_def)

lemma frozen_trans: "frozen s t \<Longrightarrow> frozen t u \<Longrightarrow> frozen s u"
  by (simp add: frozen_def)

lemma frozen_upd [simp]:
  "frozen s (t\<lparr>sc_cells := cells\<rparr>) = frozen s t" "frozen s (t\<lparr>sc_row := r\<rparr>) = frozen s t"
  "frozen s (t\<lparr>sc_col := c\<rparr>) = frozen s t" "frozen s (t\<lparr>sc_wrap_pending := w\<rparr>) = frozen s t"
  "frozen s (t\<lparr>sc_saved_cursor := k\<rparr>) = frozen s t"
  "frozen s (t\<lparr>sc_scroll_top := a\<rparr>) = frozen s t" "frozen s (t\<lparr>sc_scroll_bottom := b\<rparr>) = frozen s t"
  "frozen s (set_pos t r c) = frozen s t" "frozen s (put_row t row) = frozen s t"
  "frozen s (no_wrap t) = frozen s t" "frozen s (restore_cursor t) = frozen s t"
  by (simp_all add: frozen_def set_pos_def put_row_def no_wrap_def restore_cursor_def)

lemma keeps_Some [simp]: "keeps s (Some t) = frozen s t"
  by (simp add: keeps_def)

lemma keeps_None [simp]: "keeps s None"
  by (simp add: keeps_def)

lemma keeps_bind: "keeps s x \<Longrightarrow> (\<And>t. keeps t (f t)) \<Longrightarrow> keeps s (Option.bind x f)"
  by (cases x) (auto simp: keeps_def intro: frozen_trans)

lemma keeps_bind_any: "(\<And>a. keeps s (f a)) \<Longrightarrow> keeps s (Option.bind x f)"
  by (cases x) simp_all

lemma keeps_map: "keeps s x \<Longrightarrow> (\<And>t. frozen s t \<Longrightarrow> frozen s (f t)) \<Longrightarrow> keeps s (map_option f x)"
  by (cases x) simp_all

lemma keeps_map_any: "(\<And>a. frozen s (f a)) \<Longrightarrow> keeps s (map_option f x)"
  by (cases x) simp_all

lemma keeps_if: "keeps s x \<Longrightarrow> keeps s y \<Longrightarrow> keeps s (if b then x else y)"
  by simp

lemma keeps_run: "(\<And>t e. keeps t (f t e)) \<Longrightarrow> keeps s (run_opt f s es)"
  by (induction es arbitrary: s) (simp_all add: frozen_refl keeps_bind)

lemma keeps_scroll_up: "keeps s (scroll_up s)"
  unfolding scroll_up_def
  by (rule keeps_bind_any) (auto simp: Let_def frozen_refl frozen_def keeps_def)

lemma keeps_newline: "keeps s (newline s)"
  unfolding newline_def by (rule keeps_map) (auto simp: keeps_scroll_up frozen_refl)

lemma keeps_newline_home: "keeps s (map_option (\<lambda>s. s\<lparr>sc_col := 0\<rparr>) (newline s))"
  by (rule keeps_map [OF keeps_newline]) simp

lemma keeps_edit: "keeps s (edit_row s f)"
  unfolding edit_row_def by (rule keeps_bind_any, rule keeps_map_any) (simp add: frozen_refl)

lemma keeps_clear_cell: "keeps s (clear_cell s col)"
  unfolding clear_cell_def by (rule keeps_bind_any, rule keeps_map_any) (simp add: frozen_refl)

lemma keeps_clear_cells: "keeps s (clear_cells s a b)"
  unfolding clear_cells_def by (rule keeps_run) (rule keeps_clear_cell)

lemma keeps_erase_line: "keeps s (erase_line s m)"
  unfolding erase_line_def by (rule keeps_bind_any) (simp add: keeps_clear_cells frozen_refl)

lemma keeps_clear_rows: "keeps s (clear_rows s a b)"
  by (simp add: clear_rows_def frozen_refl)

lemma keeps_erase_display: "m \<noteq> 3 \<Longrightarrow> keeps s (erase_display s m)"
  unfolding erase_display_def
  by (auto intro!: keeps_bind [OF keeps_erase_line] keeps_clear_rows simp: frozen_refl)

lemma keeps_shift: "keeps s (map_option (\<lambda>(_, cells). s\<lparr>sc_cells := cells\<rparr>) (shift_rows cs i j))"
  by (rule keeps_map_any) (auto simp: frozen_refl)

lemma keeps_print: "keeps s (screen_print cw s c)"
proof -
  have mark: "keeps s (print_mark s c)"
    unfolding print_mark_def by (rule keeps_bind_any) (simp add: Let_def frozen_refl)
  have glyph: "keeps s (print_glyph s c width)" for width
    unfolding print_glyph_def
    by (rule keeps_bind, simp add: keeps_newline_home frozen_refl, rule keeps_if, simp add: frozen_refl,
        rule keeps_bind [OF keeps_clear_cell], rule keeps_bind, simp add: keeps_clear_cell frozen_refl,
        rule keeps_bind_any, rule keeps_bind_any, rule keeps_bind_any) (simp add: Let_def frozen_refl)
  show ?thesis unfolding screen_print_def Let_def by (intro keeps_if mark glyph)
qed

lemma keeps_execute: "keeps s (screen_execute s b)"
  using keeps_newline_home by (simp add: screen_execute_def frozen_refl)

lemma keeps_esc: "keeps s (esc_dispatch s ignore b)"
proof -
  have w: "keeps s x \<Longrightarrow> keeps s (map_option no_wrap x)" for x
    by (rule keeps_map) simp_all
  have "keeps s (map_option (\<lambda>s. set_pos s 0 0) (erase_display s 2))"
    by (rule keeps_map [OF keeps_erase_display]) simp_all
  then show ?thesis
    unfolding esc_dispatch_def
    by (intro keeps_if w) (simp_all add: keeps_newline keeps_newline_home keeps_shift scroll_down_def frozen_refl)
qed

lemma keeps_csi_action:
  assumes "\<not> (action = CHR ''J'' \<and> csi_param params 0 0 = 3)"
  shows "keeps s (csi_action s params action)"
proof -
  have w: "keeps s x \<Longrightarrow> keeps s (map_option no_wrap x)" for x
    by (rule keeps_map) simp_all
  have rep: "(\<And>t. keeps t (f t)) \<Longrightarrow> keeps s (map_option no_wrap (repeat_opt k f s))" for k f
    unfolding repeat_opt_def by (rule w, rule keeps_run)
  have if_cond: "(b \<Longrightarrow> keeps s x) \<Longrightarrow> keeps s y \<Longrightarrow> keeps s (if b then x else y)" for b x y
    by simp
  have up: "keeps t (scroll_up t)" and down: "keeps t (scroll_down t)"
    and line: "keeps t (shift_line t i j)" for t i j
    by (simp_all add: keeps_scroll_up scroll_down_def shift_line_def keeps_shift)
  have some: "frozen s t \<Longrightarrow> keeps s (Some (no_wrap t))" for t by simp
  show ?thesis
    unfolding csi_action_def Let_def
    by (intro if_cond some w rep up down line keeps_clear_cells keeps_edit keeps_erase_line
          keeps_erase_display keeps_if)
       (use assms in \<open>simp_all add: frozen_refl\<close>)
qed

text \<open>Events that stay inside the full-screen program.\<close>

fun quiet :: "vt_event \<Rightarrow> bool" where
  "quiet (CsiDispatch params intermediates ignore action) =
    (ignore \<or>
     (\<not> (intermediates = ''?'' \<and> (action = CHR ''h'' \<or> action = CHR ''l'')
         \<and> list_ex (\<lambda>v. v \<noteq> [] \<and> hd v \<in> {47, 1047, 1049}) params)
      \<and> \<not> (intermediates = [] \<and> action = CHR ''J'' \<and> csi_param params 0 0 = 3)))"
| "quiet _ = True"

lemma keeps_event: "quiet e \<Longrightarrow> keeps s (screen_event cw s e)"
  by (cases e) (auto simp: csi_dispatch_def frozen_refl keeps_print keeps_execute keeps_esc keeps_csi_action)

lemma keeps_events: "list_all quiet es \<Longrightarrow> keeps s (run_opt (screen_event cw) s es)"
  by (induction es arbitrary: s) (simp_all add: frozen_refl keeps_bind keeps_event)

interpretation vt: safe_machine "screen_event cw" screen_inv event_ok
  by unfold_locales (rule screen_event_ok)



section \<open>Plain lines\<close>

text \<open>A line of glyphs of one column each, ended by a carriage return and a line feed.\<close>

definition typed :: "cell_row \<Rightarrow> vt_event list" where
  "typed l = map Print l @ [Execute 13, Execute 10]"

text \<open>
  The screen after the lines \<open>pre @ post\<close>: the lines of \<open>pre\<close> are history, the lines of \<open>post\<close>
  are on display and the cursor is at the start of the row below.
\<close>

definition shows_lines :: "cell_row list \<Rightarrow> cell_row list \<Rightarrow> screen \<Rightarrow> bool" where
  "shows_lines pre post s \<longleftrightarrow>
    sc_alternate s = None \<and> sc_scroll_top s = 0 \<and> sc_scroll_bottom s = sc_rows s - 1
    \<and> sc_wrap_pending s = False \<and> sc_col s = 0 \<and> sc_row s = length post \<and> length post < sc_rows s
    \<and> sc_cells s = post @ replicate (sc_rows s - length post) []
    \<and> sc_history s = map render pre \<and> sc_history_bytes s = bytes_of (map render pre)"

definition same_limits :: "screen \<Rightarrow> screen \<Rightarrow> bool" where
  "same_limits s t \<longleftrightarrow> sc_rows t = sc_rows s \<and> sc_cols t = sc_cols s
    \<and> sc_max_lines t = sc_max_lines s \<and> sc_max_bytes t = sc_max_bytes s"

lemma evict_fits:
  "length (sc_history s) \<le> sc_max_lines s \<Longrightarrow> sc_history_bytes s \<le> sc_max_bytes s \<Longrightarrow> evict s = Some s"
  by (cases "sc_history s") (simp_all add: evict_def)

text \<open>The screen while a line is being typed.\<close>

definition typing :: "cell_row \<Rightarrow> screen \<Rightarrow> screen" where
  "typing l s = s\<lparr>sc_cells := (sc_cells s)[sc_row s := l],
     sc_col := min (length l) (sc_cols s - 1), sc_wrap_pending := (l \<noteq> [] \<and> length l = sc_cols s)\<rparr>"

lemma print_one:
  assumes "cw c = Some 1" "length l < sc_cols s" "sc_row s < length (sc_cells s)"
  shows "screen_print cw (typing l s) c = Some (typing (l @ [c]) s)"
proof -
  have row: "get_row (typing l s) = Some l" using assms(3) by (simp add: get_row_def typing_def)
  have pos: "sc_col (typing l s) = length l" "\<not> sc_wrap_pending (typing l s)" "sc_cols (typing l s) = sc_cols s"
    using assms(2) by (auto simp: typing_def)
  have put: "put_row (typing l s) l = typing l s" by (simp add: put_row_def typing_def)
  have clear: "clear_cell (typing l s) (length l) = Some (typing l s)"
    by (simp add: clear_cell_def row clear_in_row_def put)
  have cell: "(vec_resize l (length l + 1) '' '')[length l := c] = l @ [c]"
    by (simp add: vec_resize_def list_update_append)
  have "vec_set (vec_resize l (max (length l) (length l + 1)) '' '') (length l) c = Some (l @ [c])"
    using cell by simp
  then show ?thesis
    using assms pos row clear
    by (simp add: screen_print_def print_glyph_def Let_def)
       (auto simp: typing_def put_row_def)
qed

lemma print_line:
  "\<forall>c \<in> set l. cw c = Some 1 \<Longrightarrow> length l0 + length l \<le> sc_cols s \<Longrightarrow> sc_row s < length (sc_cells s) \<Longrightarrow>
    run_opt (screen_event cw) (typing l0 s) (map Print l) = Some (typing (l0 @ l) s)"
  by (induction l arbitrary: l0) (simp_all add: print_one)

lemma typed_line:
  assumes s: "shows_lines pre post s" and l: "\<forall>c \<in> set l. cw c = Some 1" "length l \<le> sc_cols s"
    and room: "length pre + 1 \<le> sc_max_lines s" "bytes_of (map render (pre @ post @ [l])) \<le> sc_max_bytes s"
  shows "\<exists>s' pre' post'. run_opt (screen_event cw) s (typed l) = Some s' \<and> shows_lines pre' post' s'
    \<and> pre' @ post' = pre @ post @ [l] \<and> same_limits s s'"
proof -
  note d = s [unfolded shows_lines_def]
  have n: "length (sc_cells s) = sc_rows s" "sc_row s < length (sc_cells s)" using d by auto
  have start: "typing [] s = s"
    using d by (simp add: typing_def list_update_append list_update_same_conv nth_append)
  have cells: "(sc_cells s)[sc_row s := l] = post @ l # replicate (sc_rows s - length post - 1) []"
    using d by (simp add: list_update_append) (cases "sc_rows s - length post", auto)
  define t where "t = s\<lparr>sc_cells := post @ l # replicate (sc_rows s - length post - 1) [],
    sc_col := 0, sc_wrap_pending := False\<rparr>"
  have "run_opt (screen_event cw) s (map Print l) = Some (typing l s)"
    using print_line [of l cw "[]" s] l n start by simp
  then have run: "run_opt (screen_event cw) s (typed l)
      = Option.bind (map_option (\<lambda>s. s\<lparr>sc_col := 0\<rparr>) (newline t)) (\<lambda>s. Some s)"
    unfolding typed_def run_opt_append
    by (simp add: screen_execute_def typing_def cells t_def)
  show ?thesis
  proof (cases "sc_row t = sc_scroll_bottom t")
    case False
    define s' where "s' = t\<lparr>sc_row := length post + 1\<rparr>"
    have "min (Suc (length post)) (sc_rows s - Suc 0) = Suc (length post)"
      using False d by (auto simp: t_def)
    then have "run_opt (screen_event cw) s (typed l) = Some s'"
      using False d by (simp add: run newline_def s'_def t_def)
    moreover have "shows_lines pre (post @ [l]) s'"
      using False d by (auto simp: shows_lines_def s'_def t_def)
    moreover have "same_limits s s'" by (simp add: same_limits_def s'_def t_def)
    ultimately show ?thesis by (intro exI [of _ s'] exI [of _ pre] exI [of _ "post @ [l]"]) simp
  next
    case True
    then have bottom: "sc_rows s = length post + 1" using d by (auto simp: t_def)
    obtain p ps where p: "post @ [l] = p # ps" by (cases post) auto
    define s' where "s' = t\<lparr>sc_cells := ps @ [[]], sc_history := map render (pre @ [p]),
      sc_history_bytes := bytes_of (map render (pre @ [p]))\<rparr>"
    have cells_t: "sc_cells t = p # ps" by (simp add: t_def bottom p)
    have len: "length ps = length post" using arg_cong [OF p, of length] by simp
    have "bytes_of (map render (pre @ [p])) \<le> bytes_of (map render (pre @ post @ [l]))"
      unfolding p by (simp add: bytes_of_def)
    with room have fits: "bytes_of (map render (pre @ [p])) \<le> sc_max_bytes s" by simp
    have shift: "shift_rows (sc_cells t) 0 (sc_scroll_bottom t) = Some (p, ps @ [[]])"
      using d len by (simp add: shift_rows_def cells_t) (simp add: t_def bottom)
    have rest: "sc_alternate t = None" "sc_scroll_top t = 0" "sc_scroll_bottom t = sc_rows t - 1"
      "sc_history t = map render pre" "sc_history_bytes t = bytes_of (map render pre)"
      "sc_max_lines t = sc_max_lines s" "sc_max_bytes t = sc_max_bytes s"
      using d by (simp_all add: t_def)
    have "scroll_up t = Some s'"
      using rest shift fits room(1)
      by (simp add: scroll_up_def Let_def remember_line_def s'_def bytes_of_def evict_fits)
    then have "run_opt (screen_event cw) s (typed l) = Some s'"
      using True by (simp add: run newline_def) (simp add: s'_def t_def)
    moreover have "shows_lines (pre @ [p]) ps s'"
      using d bottom len by (simp add: shows_lines_def s'_def t_def)
    moreover have "same_limits s s'" by (simp add: same_limits_def s'_def t_def)
    ultimately show ?thesis
      using p by (intro exI [of _ s'] exI [of _ "pre @ [p]"] exI [of _ ps]) simp
  qed
qed

lemma typed_lines:
  "shows_lines pre post s \<Longrightarrow> \<forall>l \<in> set ls. length l \<le> sc_cols s \<and> (\<forall>c \<in> set l. cw c = Some 1) \<Longrightarrow>
    length (pre @ post @ ls) \<le> sc_max_lines s \<Longrightarrow> bytes_of (map render (pre @ post @ ls)) \<le> sc_max_bytes s \<Longrightarrow>
    \<exists>s' pre' post'. run_opt (screen_event cw) s (concat (map typed ls)) = Some s'
      \<and> shows_lines pre' post' s' \<and> pre' @ post' = pre @ post @ ls \<and> same_limits s s'"
proof (induction ls arbitrary: s pre post)
  case Nil
  then show ?case by (intro exI [of _ s] exI [of _ pre] exI [of _ post]) (simp add: same_limits_def)
next
  case (Cons l ls)
  have "bytes_of (map render (pre @ post @ [l])) \<le> bytes_of (map render (pre @ post @ l # ls))"
    by (simp add: bytes_of_def)
  with typed_line [OF Cons.prems(1), of l cw] Cons.prems
  obtain s1 pre1 post1 where one: "run_opt (screen_event cw) s (typed l) = Some s1"
      "shows_lines pre1 post1 s1" "pre1 @ post1 = pre @ post @ [l]" "same_limits s s1"
    by auto
  have all: "pre1 @ post1 @ ls = pre @ post @ l # ls" using one(3) by (metis append.assoc append_Cons append_Nil)
  with Cons.IH [OF one(2)] Cons.prems one(4)
  obtain s2 pre2 post2 where "run_opt (screen_event cw) s1 (concat (map typed ls)) = Some s2"
      "shows_lines pre2 post2 s2" "pre2 @ post2 = pre @ post @ l # ls" "same_limits s1 s2"
    by (auto simp: same_limits_def)
  with one show ?case
    by (intro exI [of _ s2] exI [of _ pre2] exI [of _ post2]) (simp add: run_opt_append same_limits_def)
qed

lemma take_recent_all: "bytes + bytes_of ls \<le> mb \<Longrightarrow> take_recent mb bytes ls = ls"
  by (induction ls arbitrary: bytes) (simp_all add: bytes_of_def add.assoc)

lemma rposition_len_pad:
  "\<forall>x \<in> set xs. P x \<Longrightarrow> \<not> P y \<Longrightarrow> rposition_len P (xs @ replicate n y) = length xs"
proof -
  assume xs: "\<forall>x \<in> set xs. P x" and y: "\<not> P y"
  have "dropWhile (\<lambda>x. \<not> P x) (replicate n y @ rev xs) = dropWhile (\<lambda>x. \<not> P x) (rev xs)"
    by (induction n) (use y in simp_all)
  also have "\<dots> = rev xs"
    using xs by (metis dropWhile_eq_self_iff hd_in_set set_rev)
  finally show ?thesis by (simp add: rposition_len_def)
qed

lemma render_Nil [simp]: "render [] = []"
  by (simp add: render_def trim_end_def drop_last_while_def)

text \<open>
  Plain text comes back as it was printed: on a new terminal of any size, lines of
  one-column chars no wider than the screen, none of them blank, within the limits of the
  history, read back as exactly these lines in order, each without its trailing white space;
  those that scrolled off the screen and those still on it are joined without a gap or a
  duplicate.
\<close>

theorem plain_lines_read_back:
  assumes "\<forall>l \<in> set ls. length l \<le> clamp 1 MAX_COLS cols \<and> (\<forall>c \<in> set l. cw c = Some 1)
      \<and> trim_end (concat l) \<noteq> []"
    and "length ls \<le> max_lines" and "sum_list (map (\<lambda>l. length (trim_end (concat l))) ls) \<le> max_bytes"
  shows "\<exists>s. run_opt (screen_event cw) (screen_with_size max_lines max_bytes cols rows)
      (concat (map typed ls)) = Some s
    \<and> get_recent s 0 = map (\<lambda>l. trim_end (concat l)) ls"
proof -
  let ?s = "screen_with_size max_lines max_bytes cols rows"
  have start: "shows_lines [] [] ?s"
    using clamp_rows(1) [of rows] by (simp add: screen_with_size_def shows_lines_def Let_def bytes_of_def)
  have dims: "sc_cols ?s = clamp 1 MAX_COLS cols" "sc_max_lines ?s = max_lines" "sc_max_bytes ?s = max_bytes"
    by (simp_all add: screen_with_size_def Let_def)
  have bytes: "bytes_of (map render ls) \<le> max_bytes"
    using assms(3) by (simp add: bytes_of_def render_def comp_def)
  obtain s pre post where s: "run_opt (screen_event cw) ?s (concat (map typed ls)) = Some s"
      "shows_lines pre post s" "pre @ post = ls" "same_limits ?s s"
    using typed_lines [OF start, of ls cw] assms bytes by (auto simp: dims)
  have ne: "\<forall>l \<in> set post. render l \<noteq> []" using assms(1) s(3) by (auto simp: render_def)
  have "visible_lines s = map render post"
    using s(2) rposition_len_pad [of "map render post" "\<lambda>l. l \<noteq> []" "[]"] ne
    by (simp add: visible_lines_def shows_lines_def Let_def)
  then have "all_lines s = map render ls" using s(2,3) by (auto simp: all_lines_def shows_lines_def)
  moreover have "bytes_of (rev (map render ls)) \<le> sc_max_bytes s"
    using bytes s(4) dims by (simp add: bytes_of_def rev_map [symmetric] sum_list_rev same_limits_def)
  ultimately have "get_recent s 0 = map render ls"
    using assms(2) s(4) dims by (simp add: get_recent_all take_recent_all same_limits_def)
  with s(1) show ?thesis by (auto simp: render_def fun_eq_iff)
qed

theorem plain_lines_read_back_witness:
  "\<exists>s. run_opt (screen_event (\<lambda>_. Some 1)) (screen_with_size 9 99 5 2)
      (concat (map typed [[''a'', '' ''], [''b'', ''c''], [''d'']])) = Some s
    \<and> get_recent s 0 = map (\<lambda>l. trim_end (concat l)) [[''a'', '' ''], [''b'', ''c''], [''d'']]"
  by (rule plain_lines_read_back) (code_simp, code_simp, code_simp)

end
