(* ===== verification/App_Error.thy ===== *)
theory App_Error
  imports Rust_Text
begin

text \<open>
  The error type of the services (\<open>utils/error.rs\<close>), and operations that change a state and
  may fail: an error ends the operation and keeps what it changed before.
\<close>

section \<open>Errors\<close>

text \<open>
  The translation parameters of a message are left out. A violated constraint is a message of
  the database without a code; its wording stands for whatever SQLite says.
\<close>

datatype app_error =
    ErrMessage "string option" string
  | NotFound string

abbreviation Coded :: "string \<Rightarrow> string \<Rightarrow> app_error" where
  "Coded code msg \<equiv> ErrMessage (Some code) msg"

abbreviation DbConstraint :: app_error where
  "DbConstraint \<equiv> ErrMessage None ''constraint failed''"

fun app_code :: "app_error \<Rightarrow> string option" where
  "app_code (ErrMessage code msg) = code"
| "app_code (NotFound msg) = Some ''NOT_FOUND''"

fun app_message :: "app_error \<Rightarrow> string" where
  "app_message (ErrMessage code msg) = msg"
| "app_message (NotFound msg) = msg"

section \<open>Operations with a state\<close>

type_synonym ('s, 'a) svc = "'s \<Rightarrow> 's \<times> (app_error + 'a)"

definition run_bind :: "('s, 'a) svc \<Rightarrow> ('a \<Rightarrow> ('s, 'b) svc) \<Rightarrow> ('s, 'b) svc" where
  "run_bind x f = (\<lambda>p. case x p of (p', Inl e) \<Rightarrow> (p', Inl e) | (p', Inr a) \<Rightarrow> f a p')"

definition ret :: "'a \<Rightarrow> ('s, 'a) svc" where
  "ret a = (\<lambda>p. (p, Inr a))"

definition of_res :: "app_error + 'a \<Rightarrow> ('s, 'a) svc" where
  "of_res r = (\<lambda>p. (p, r))"

lemma run_bind_simps [simp]:
  "run_bind (ret a) f = f a" "run_bind (of_res (Inr a)) f = f a"
  by (simp_all add: run_bind_def ret_def of_res_def fun_eq_iff)

end
