(* ===== verification/Sql_Rows.thy ===== *)
theory Sql_Rows
  imports App_Error
begin

text \<open>
  What the repositories use of SQLite beyond filters: ordering, the newest row, and \<open>LIKE\<close>. A
  table is the list of its rows in the order of their rowids; rows with equal keys are visited
  in that order.
\<close>

definition order_by :: "('a \<Rightarrow> 'k :: linorder) \<Rightarrow> 'a list \<Rightarrow> 'a list" where
  "order_by k rows = foldr (insort_key k) rows []"

lemma order_by_sort_key: "order_by k rows = sort_key k rows"
  by (simp add: order_by_def sort_key_def)

lemma order_by_id: "sorted (map k rows) \<Longrightarrow> order_by k rows = rows"
  by (simp add: order_by_sort_key sort_key_id_if_sorted)

text \<open>\<open>ORDER BY k DESC LIMIT 1\<close>: the first of the rows with the greatest key.\<close>

fun newest :: "('a \<Rightarrow> 'k :: linorder) \<Rightarrow> 'a list \<Rightarrow> 'a option" where
  "newest k [] = None"
| "newest k (r # rs) =
    (case newest k rs of
       None \<Rightarrow> Some r
     | Some r' \<Rightarrow> if k r < k r' then Some r' else Some r)"

lemma newest_None [simp]: "newest k rs = None \<longleftrightarrow> rs = []"
  by (cases rs) (auto split: option.split)

lemma newest_Some: "newest k rs = Some r \<Longrightarrow> r \<in> set rs \<and> (\<forall>r' \<in> set rs. k r' \<le> k r)"
  by (induction rs arbitrary: r) (fastforce split: option.splits if_splits)+

text \<open>
  \<open>LIKE\<close>: \<open>%\<close> stands for any chars, \<open>_\<close> for one, and ASCII letters match in either case. A
  text is given by its chars.
\<close>

fun sql_like :: "string list \<Rightarrow> string list \<Rightarrow> bool" where
  "sql_like [] s = (s = [])"
| "sql_like (p # ps) [] = (p = ''%'' \<and> sql_like ps [])"
| "sql_like (p # ps) (c # cs) =
    (if p = ''%'' then sql_like ps (c # cs) \<or> sql_like (p # ps) cs
     else (p = ''_'' \<or> to_ascii_lowercase p = to_ascii_lowercase c) \<and> sql_like ps cs)"

definition like :: "string \<Rightarrow> string \<Rightarrow> bool" where
  "like pat s = sql_like (utf8_chars pat) (utf8_chars s)"

end
