(* ===== verification/Queue_Model.thy ===== *)
theory Queue_Model
  imports Sql_Rows
begin

text \<open>
  The data of the per-terminal task queues: \<open>models/task_queue.rs\<close> and the four tables of
  migration 34 in \<open>repository/db.rs\<close>. Integer columns are mathematical integers; the JSON text
  of the image references stands for the list it encodes (\<open>serde_json\<close> reads back what it
  wrote), the state and reason columns for the value their text encodes (the theorems at the end
  say that the text is read back).
\<close>

section \<open>States and reasons\<close>

datatype queue_state =
    Disabled | Running | Paused | ConfirmingIdle | QDispatching | ActionRequired | SendFailed
  | SessionEnded

fun queue_state_db :: "queue_state \<Rightarrow> string" where
  "queue_state_db Disabled = ''disabled''"
| "queue_state_db Running = ''running''"
| "queue_state_db Paused = ''paused''"
| "queue_state_db ConfirmingIdle = ''confirming_idle''"
| "queue_state_db QDispatching = ''dispatching''"
| "queue_state_db ActionRequired = ''action_required''"
| "queue_state_db SendFailed = ''send_failed''"
| "queue_state_db SessionEnded = ''session_ended''"

definition queue_state_from_db :: "string \<Rightarrow> app_error + queue_state" where
  "queue_state_from_db v =
    (if v = ''disabled'' then Inr Disabled
     else if v = ''running'' then Inr Running
     else if v = ''paused'' then Inr Paused
     else if v = ''confirming_idle'' then Inr ConfirmingIdle
     else if v = ''dispatching'' then Inr QDispatching
     else if v = ''action_required'' then Inr ActionRequired
     else if v = ''send_failed'' then Inr SendFailed
     else if v = ''session_ended'' then Inr SessionEnded
     else Inl (Coded ''QUEUE_ROW_INVALID'' (''Invalid task queue state: '' @ v)))"

datatype queue_reason =
    GlobalDisabled | UserPaused | WaitingInputR | UnknownPrompt | UnattendedUnsupported
  | AutomaticWriteUnavailable | SessionClaimLost | SessionError | SessionExited
  | DeliveryUnknownR | SubmitFailed

fun queue_reason_db :: "queue_reason \<Rightarrow> string" where
  "queue_reason_db GlobalDisabled = ''global_disabled''"
| "queue_reason_db UserPaused = ''user_paused''"
| "queue_reason_db WaitingInputR = ''waiting_input''"
| "queue_reason_db UnknownPrompt = ''unknown_prompt''"
| "queue_reason_db UnattendedUnsupported = ''unattended_unsupported''"
| "queue_reason_db AutomaticWriteUnavailable = ''automatic_write_unavailable''"
| "queue_reason_db SessionClaimLost = ''session_claim_lost''"
| "queue_reason_db SessionError = ''session_error''"
| "queue_reason_db SessionExited = ''session_exited''"
| "queue_reason_db DeliveryUnknownR = ''delivery_unknown''"
| "queue_reason_db SubmitFailed = ''submit_failed''"

definition queue_reason_from_db :: "string \<Rightarrow> app_error + queue_reason" where
  "queue_reason_from_db v =
    (if v = ''global_disabled'' then Inr GlobalDisabled
     else if v = ''user_paused'' then Inr UserPaused
     else if v = ''waiting_input'' then Inr WaitingInputR
     else if v = ''unknown_prompt'' then Inr UnknownPrompt
     else if v = ''unattended_unsupported'' then Inr UnattendedUnsupported
     else if v = ''automatic_write_unavailable'' then Inr AutomaticWriteUnavailable
     else if v = ''session_claim_lost'' then Inr SessionClaimLost
     else if v = ''session_error'' then Inr SessionError
     else if v = ''session_exited'' then Inr SessionExited
     else if v = ''delivery_unknown'' then Inr DeliveryUnknownR
     else if v = ''submit_failed'' then Inr SubmitFailed
     else Inl (Coded ''QUEUE_ROW_INVALID'' (''Invalid task queue reason: '' @ v)))"

datatype item_state = Queued | Dispatching | Failed | DeliveryUnknown

fun item_state_db :: "item_state \<Rightarrow> string" where
  "item_state_db Queued = ''queued''"
| "item_state_db Dispatching = ''dispatching''"
| "item_state_db Failed = ''failed''"
| "item_state_db DeliveryUnknown = ''delivery_unknown''"

definition item_state_from_db :: "string \<Rightarrow> app_error + item_state" where
  "item_state_from_db v =
    (if v = ''queued'' then Inr Queued
     else if v = ''dispatching'' then Inr Dispatching
     else if v = ''failed'' then Inr Failed
     else if v = ''delivery_unknown'' then Inr DeliveryUnknown
     else Inl (Coded ''QUEUE_ROW_INVALID'' (''Invalid task queue item state: '' @ v)))"

section \<open>Drafts and patches\<close>

definition TASK_QUEUE_MAX_ITEMS :: nat where
  "TASK_QUEUE_MAX_ITEMS = 100"

definition TASK_QUEUE_MAX_TEXT_BYTES :: nat where
  "TASK_QUEUE_MAX_TEXT_BYTES = 65536"

definition TASK_QUEUE_MAX_IMAGE_REFS :: nat where
  "TASK_QUEUE_MAX_IMAGE_REFS = 10"

record item_draft =
  dr_text :: string
  dr_images :: "string list"

definition draft_validated :: "item_draft \<Rightarrow> app_error + item_draft" where
  "draft_validated d =
    (let text = trim (dr_text d) in
     if text = [] \<and> dr_images d = [] then
       Inl (Coded ''QUEUE_ITEM_INVALID'' ''A queued task must contain text or an image'')
     else if TASK_QUEUE_MAX_TEXT_BYTES < length text then
       Inl (Coded ''QUEUE_ITEM_INVALID'' ''Queued task text exceeds 65536 UTF-8 bytes'')
     else if TASK_QUEUE_MAX_IMAGE_REFS < length (dr_images d) then
       Inl (Coded ''QUEUE_ITEM_INVALID'' ''A queued task accepts at most 10 images'')
     else if list_ex (\<lambda>v. trim v = []) (dr_images d) then
       Inl (Coded ''IMAGE_REF_INVALID'' ''Image references must not be empty'')
     else Inr \<lparr>dr_text = text, dr_images = dr_images d\<rparr>)"

record control_patch =
  cp_paused :: "bool option"
  cp_unattended :: "bool option"

definition patch_validate :: "control_patch \<Rightarrow> app_error + unit" where
  "patch_validate p =
    (if cp_paused p = None \<and> cp_unattended p = None
     then Inl (Coded ''QUEUE_ITEM_INVALID'' ''Task queue control patch is empty'')
     else Inr ())"

section \<open>Values read from the database\<close>

record task_item =
  ti_id :: string
  ti_session :: string
  ti_position :: int
  ti_text :: string
  ti_images :: "string list"
  ti_state :: item_state
  ti_created_at :: int
  ti_last_error :: "string option"

record queue_snapshot =
  qs_session :: string
  qs_paused :: bool
  qs_unattended :: bool
  qs_unattended_supported :: bool
  qs_state :: queue_state
  qs_reason :: "queue_reason option"
  qs_items :: "task_item list"
  qs_revision :: int
  qs_updated_at :: int

record queue_runtime =
  qr_enabled :: bool
  qr_generation :: int
  qr_updated_at :: int

record queue_claim =
  qc_token :: string
  qc_generation :: int
  qc_item :: task_item

datatype decision_status = Inserted | Existing | FingerprintMismatch

record decision_record =
  dc_status :: decision_status
  dc_decision :: "string option"

section \<open>The tables\<close>

text \<open>A row of \<open>terminal_task_queues\<close>.\<close>

record queue_row =
  q_session :: string
  q_paused :: bool
  q_unattended :: bool
  q_state :: queue_state
  q_reason :: "queue_reason option"
  q_revision :: int
  q_token :: "string option"
  q_started_at :: "int option"
  q_created_at :: int
  q_updated_at :: int

text \<open>A row of \<open>terminal_task_queue_items\<close>.\<close>

record item_row =
  i_id :: string
  i_session :: string
  i_position :: int
  i_text :: string
  i_images :: "string list"
  i_state :: item_state
  i_token :: "string option"
  i_error_code :: "string option"
  i_error_message :: "string option"
  i_created_at :: int
  i_updated_at :: int

text \<open>A row of \<open>terminal_task_queue_permission_decisions\<close>.\<close>

record decision_row =
  d_session :: string
  d_tool_use :: string
  d_fingerprint :: string
  d_decision :: string
  d_created_at :: int

text \<open>The database: each table in the order of its rowids.\<close>

record db =
  db_runtime :: "queue_runtime option"
  db_queues :: "queue_row list"
  db_items :: "item_row list"
  db_decisions :: "decision_row list"

section \<open>Constraints\<close>

definition queue_check :: "queue_row \<Rightarrow> bool" where
  "queue_check q \<longleftrightarrow> q_state q \<notin> {Disabled, Paused} \<and> 0 \<le> q_revision q
    \<and> (q_token q = None \<longleftrightarrow> q_started_at q = None)"

definition item_check :: "item_row \<Rightarrow> bool" where
  "item_check r \<longleftrightarrow> 0 \<le> i_position r \<and> (i_state r = Dispatching \<longleftrightarrow> i_token r \<noteq> None)"

text \<open>Two rows that a unique index does not allow together; no token equals no token.\<close>

definition item_conflict :: "item_row \<Rightarrow> item_row \<Rightarrow> bool" where
  "item_conflict r r' \<longleftrightarrow> i_id r = i_id r'
    \<or> (i_session r = i_session r' \<and> (i_position r = i_position r'
        \<or> (i_token r \<noteq> None \<and> i_token r = i_token r')))"

section \<open>The texts are read back\<close>

lemma queue_state_roundtrip: "queue_state_from_db (queue_state_db s) = Inr s"
  by (cases s) (simp_all add: queue_state_from_db_def)

lemma queue_reason_roundtrip: "queue_reason_from_db (queue_reason_db r) = Inr r"
  by (cases r) (simp_all add: queue_reason_from_db_def)

lemma item_state_roundtrip: "item_state_from_db (item_state_db s) = Inr s"
  by (cases s) (simp_all add: item_state_from_db_def)

lemma queue_state_from_db_only: "queue_state_from_db v = Inr s \<Longrightarrow> v = queue_state_db s"
  by (auto simp: queue_state_from_db_def split: if_splits)

lemma queue_reason_from_db_only: "queue_reason_from_db v = Inr r \<Longrightarrow> v = queue_reason_db r"
  by (auto simp: queue_reason_from_db_def split: if_splits)

lemma item_state_from_db_only: "item_state_from_db v = Inr s \<Longrightarrow> v = item_state_db s"
  by (auto simp: item_state_from_db_def split: if_splits)

end
