(* ===== verification/Queue_Repo.thy ===== *)
theory Queue_Repo
  imports Queue_Model
begin

text \<open>
  The operations of \<open>TaskQueueRepository\<close>, each one transaction on the database: an error rolls
  everything back. The connection is behind a mutex, so the transactions of one process are
  executed one after the other. SQL as SQLite executes it: a statement visits the rows in the
  order of their rowids and checks the constraints after each row, so an update can fail on an
  intermediate state. New uuids are arguments.
\<close>

section \<open>Statements\<close>

type_synonym 'a tx = "app_error + 'a \<times> db"

fun update_rows ::
    "(item_row \<Rightarrow> bool) \<Rightarrow> (item_row \<Rightarrow> item_row) \<Rightarrow> item_row list \<Rightarrow> item_row list
      \<Rightarrow> app_error + nat \<times> item_row list" where
  "update_rows P f seen [] = Inr (0, seen)"
| "update_rows P f seen (r # rs) =
    (if P r then
       if item_check (f r) \<and> \<not> list_ex (item_conflict (f r)) (seen @ rs)
       then res_bind (update_rows P f (seen @ [f r]) rs) (\<lambda>(n, rows). Inr (n + 1, rows))
       else Inl DbConstraint
     else update_rows P f (seen @ [r]) rs)"

definition sql_update_items ::
    "db \<Rightarrow> (item_row \<Rightarrow> bool) \<Rightarrow> (item_row \<Rightarrow> item_row) \<Rightarrow> nat tx" where
  "sql_update_items d P f =
    res_bind (update_rows P f [] (db_items d)) (\<lambda>(n, rows). Inr (n, d\<lparr>db_items := rows\<rparr>))"

definition sql_delete_items :: "db \<Rightarrow> (item_row \<Rightarrow> bool) \<Rightarrow> db" where
  "sql_delete_items d P = d\<lparr>db_items := filter (\<lambda>r. \<not> P r) (db_items d)\<rparr>"

definition sql_insert_item :: "db \<Rightarrow> item_row \<Rightarrow> app_error + db" where
  "sql_insert_item d r =
    (if item_check r \<and> \<not> list_ex (item_conflict r) (db_items d)
        \<and> list_ex (\<lambda>q. q_session q = i_session r) (db_queues d)
     then Inr (d\<lparr>db_items := db_items d @ [r]\<rparr>)
     else Inl DbConstraint)"

definition sql_update_queues ::
    "db \<Rightarrow> (queue_row \<Rightarrow> bool) \<Rightarrow> (queue_row \<Rightarrow> queue_row) \<Rightarrow> nat tx" where
  "sql_update_queues d P f =
    (if list_all (\<lambda>q. P q \<longrightarrow> queue_check (f q)) (db_queues d)
     then Inr (length (filter P (db_queues d)),
               d\<lparr>db_queues := map (\<lambda>q. if P q then f q else q) (db_queues d)\<rparr>)
     else Inl DbConstraint)"

definition find_queue :: "db \<Rightarrow> string \<Rightarrow> queue_row option" where
  "find_queue d s = find (\<lambda>q. q_session q = s) (db_queues d)"

definition session_items :: "db \<Rightarrow> string \<Rightarrow> item_row list" where
  "session_items d s = filter (\<lambda>r. i_session r = s) (db_items d)"

definition find_item :: "db \<Rightarrow> string \<Rightarrow> string \<Rightarrow> item_row option" where
  "find_item d s item_id = find (\<lambda>r. i_session r = s \<and> i_id r = item_id) (db_items d)"

section \<open>Helpers of the repository\<close>

definition ensure_runtime :: "int \<Rightarrow> db \<Rightarrow> db" where
  "ensure_runtime now d =
    (if db_runtime d = None
     then d\<lparr>db_runtime := Some \<lparr>qr_enabled = True, qr_generation = 0, qr_updated_at = now\<rparr>\<rparr>
     else d)"

definition new_queue :: "string \<Rightarrow> int \<Rightarrow> queue_row" where
  "new_queue s now = \<lparr>q_session = s, q_paused = False, q_unattended = False, q_state = Running,
    q_reason = None, q_revision = 0, q_token = None, q_started_at = None, q_created_at = now,
    q_updated_at = now\<rparr>"

definition ensure_queue :: "string \<Rightarrow> int \<Rightarrow> db \<Rightarrow> db" where
  "ensure_queue s now d =
    (if find_queue d s = None then d\<lparr>db_queues := db_queues d @ [new_queue s now]\<rparr> else d)"

definition bump_queue_revision :: "string \<Rightarrow> int \<Rightarrow> db \<Rightarrow> app_error + db" where
  "bump_queue_revision s now d =
    res_bind (sql_update_queues d (\<lambda>q. q_session q = s)
        (\<lambda>q. q\<lparr>q_revision := q_revision q + 1, q_updated_at := now\<rparr>))
      (\<lambda>(n, d). Inr d)"

definition read_runtime :: "db \<Rightarrow> app_error + queue_runtime" where
  "read_runtime d =
    (case db_runtime d of
       Some r \<Rightarrow> Inr r
     | None \<Rightarrow> Inl (Coded ''QUEUE_RUNTIME_MISSING'' ''Task queue runtime row is missing''))"

definition parse_raw_item :: "item_row \<Rightarrow> task_item" where
  "parse_raw_item r = \<lparr>ti_id = i_id r, ti_session = i_session r, ti_position = i_position r,
    ti_text = i_text r, ti_images = i_images r, ti_state = i_state r, ti_created_at = i_created_at r,
    ti_last_error = (case i_error_message r of Some m \<Rightarrow> Some m | None \<Rightarrow> i_error_code r)\<rparr>"

definition fetch_items :: "db \<Rightarrow> string \<Rightarrow> task_item list" where
  "fetch_items d s = map parse_raw_item (order_by i_position (session_items d s))"

definition fetch_head :: "db \<Rightarrow> string \<Rightarrow> task_item option" where
  "fetch_head d s = (case fetch_items d s of [] \<Rightarrow> None | it # _ \<Rightarrow> Some it)"

definition read_snapshot :: "db \<Rightarrow> string \<Rightarrow> app_error + queue_snapshot" where
  "read_snapshot d s =
    res_bind (read_runtime d) (\<lambda>runtime.
      case find_queue d s of
        None \<Rightarrow> Inl (Coded ''SESSION_NOT_FOUND'' ''Task queue session is missing'')
      | Some q \<Rightarrow>
          (let (state, reason) =
             (if \<not> qr_enabled runtime then (Disabled, Some GlobalDisabled)
              else if q_paused q then (Paused, Some UserPaused)
              else (q_state q, q_reason q))
           in Inr \<lparr>qs_session = s, qs_paused = q_paused q, qs_unattended = q_unattended q,
                qs_unattended_supported = False, qs_state = state, qs_reason = reason,
                qs_items = fetch_items d s, qs_revision = q_revision q,
                qs_updated_at = q_updated_at q\<rparr>))"

definition with_snapshot :: "string \<Rightarrow> db \<Rightarrow> queue_snapshot tx" where
  "with_snapshot s d = res_bind (read_snapshot d s) (\<lambda>snap. Inr (snap, d))"

section \<open>Operations\<close>

definition repo_set_global_enabled :: "bool \<Rightarrow> int \<Rightarrow> db \<Rightarrow> queue_runtime tx" where
  "repo_set_global_enabled enabled now d =
    (let d1 = ensure_runtime now d;
         d2 = d1\<lparr>db_runtime := map_option (\<lambda>r. r\<lparr>qr_enabled := enabled,
                qr_generation := qr_generation r + 1, qr_updated_at := now\<rparr>) (db_runtime d1)\<rparr>
     in res_bind (read_runtime d2) (\<lambda>r. Inr (r, d2)))"

definition repo_snapshot :: "string \<Rightarrow> db \<Rightarrow> queue_snapshot tx" where
  "repo_snapshot s d = with_snapshot s (ensure_queue s 0 (ensure_runtime 0 d))"

definition next_position :: "item_row list \<Rightarrow> int" where
  "next_position rows = (case map i_position rows of [] \<Rightarrow> 0 | p # ps \<Rightarrow> foldl max p ps + 1)"

definition repo_add_item :: "string \<Rightarrow> string \<Rightarrow> item_draft \<Rightarrow> int \<Rightarrow> db \<Rightarrow> queue_snapshot tx" where
  "repo_add_item uuid s draft now d =
    res_bind (draft_validated draft) (\<lambda>draft.
    let d1 = ensure_queue s now (ensure_runtime now d) in
    if 100 \<le> length (session_items d1 s)
    then Inl (Coded ''QUEUE_FULL'' ''Task queue cannot contain more than 100 active items'')
    else
      res_bind (sql_insert_item d1 \<lparr>i_id = uuid, i_session = s,
          i_position = next_position (session_items d1 s), i_text = dr_text draft,
          i_images = dr_images draft, i_state = Queued, i_token = None, i_error_code = None,
          i_error_message = None, i_created_at = now, i_updated_at = now\<rparr>) (\<lambda>d2.
      res_bind (bump_queue_revision s now d2) (with_snapshot s)))"

definition shift_down :: "string \<Rightarrow> int \<Rightarrow> int \<Rightarrow> db \<Rightarrow> app_error + db" where
  "shift_down s pos now d =
    res_bind (sql_update_items d (\<lambda>r. i_session r = s \<and> pos < i_position r)
        (\<lambda>r. r\<lparr>i_position := i_position r - 1, i_updated_at := now\<rparr>))
      (\<lambda>(n, d). Inr d)"

definition repo_delete_item :: "string \<Rightarrow> string \<Rightarrow> int \<Rightarrow> db \<Rightarrow> queue_snapshot tx" where
  "repo_delete_item s item_id now d =
    (let d1 = ensure_queue s now d in
     case find_item d1 s item_id of
       None \<Rightarrow> Inl (Coded ''QUEUE_ITEM_NOT_FOUND'' ''Task queue item not found'')
     | Some row \<Rightarrow>
         if i_state row = Dispatching
         then Inl (Coded ''QUEUE_ITEM_INVALID'' ''A dispatching task cannot be cancelled'')
         else
           (let d2 = sql_delete_items d1 (\<lambda>r. i_session r = s \<and> i_id r = item_id) in
            res_bind (shift_down s (i_position row) now d2) (\<lambda>d3.
            res_bind (bump_queue_revision s now d3) (with_snapshot s))))"

definition release_queue :: "int \<Rightarrow> queue_state \<Rightarrow> queue_reason option \<Rightarrow> queue_row \<Rightarrow> queue_row" where
  "release_queue now st reason q = q\<lparr>q_state := st, q_reason := reason, q_token := None,
    q_started_at := None, q_revision := q_revision q + 1, q_updated_at := now\<rparr>"

definition repo_clear_queue :: "string \<Rightarrow> int \<Rightarrow> db \<Rightarrow> queue_snapshot tx" where
  "repo_clear_queue s now d =
    (let d1 = ensure_queue s now d;
         d2 = sql_delete_items d1 (\<lambda>r. i_session r = s \<and> i_state r \<noteq> Dispatching)
     in res_bind (sql_update_queues d2 (\<lambda>q. q_session q = s \<and> q_token q = None)
            (release_queue now Running None)) (\<lambda>(n, d3). with_snapshot s d3))"

definition set_flag :: "string \<Rightarrow> int \<Rightarrow> (bool \<Rightarrow> queue_row \<Rightarrow> queue_row) \<Rightarrow> bool option \<Rightarrow> db \<Rightarrow> app_error + db" where
  "set_flag s now f v d =
    (case v of
       None \<Rightarrow> Inr d
     | Some b \<Rightarrow>
         res_bind (sql_update_queues d (\<lambda>q. q_session q = s) (\<lambda>q. (f b q)\<lparr>q_updated_at := now\<rparr>))
           (\<lambda>(n, d). Inr d))"

definition repo_update_control :: "string \<Rightarrow> control_patch \<Rightarrow> int \<Rightarrow> db \<Rightarrow> queue_snapshot tx" where
  "repo_update_control s patch now d =
    res_bind (patch_validate patch) (\<lambda>_.
    res_bind (set_flag s now (\<lambda>b q. q\<lparr>q_paused := b\<rparr>) (cp_paused patch) (ensure_queue s now d)) (\<lambda>d1.
    res_bind (set_flag s now (\<lambda>b q. q\<lparr>q_unattended := b\<rparr>) (cp_unattended patch) d1) (\<lambda>d2.
    res_bind (bump_queue_revision s now d2) (with_snapshot s))))"

definition repo_retry_item :: "string \<Rightarrow> string \<Rightarrow> int \<Rightarrow> db \<Rightarrow> queue_snapshot tx" where
  "repo_retry_item s item_id now d =
    (let d1 = ensure_queue s now d in
     res_bind (sql_update_items d1
         (\<lambda>r. i_session r = s \<and> i_id r = item_id \<and> (i_state r = Failed \<or> i_state r = DeliveryUnknown))
         (\<lambda>r. r\<lparr>i_state := Queued, i_token := None, i_error_code := None, i_error_message := None,
                 i_updated_at := now\<rparr>)) (\<lambda>(affected, d2).
       if affected = 0 then
         Inl (if find_item d2 s item_id \<noteq> None
              then Coded ''QUEUE_ITEM_INVALID'' ''Only failed or unknown tasks can be retried''
              else Coded ''QUEUE_ITEM_NOT_FOUND'' ''Task queue item not found'')
       else
         res_bind (sql_update_queues d2 (\<lambda>q. q_session q = s) (release_queue now Running None))
           (\<lambda>(n, d3). with_snapshot s d3)))"

definition repo_set_runtime_status ::
    "string \<Rightarrow> queue_state \<Rightarrow> queue_reason option \<Rightarrow> int \<Rightarrow> db \<Rightarrow> queue_snapshot tx" where
  "repo_set_runtime_status s st reason now d =
    (let d1 = ensure_queue s now (ensure_runtime now d) in
     res_bind (sql_update_queues d1
         (\<lambda>q. q_session q = s \<and> q_token q = None \<and> (q_state q \<noteq> st \<or> q_reason q \<noteq> reason))
         (\<lambda>q. q\<lparr>q_state := st, q_reason := reason, q_revision := q_revision q + 1,
                 q_updated_at := now\<rparr>))
       (\<lambda>(n, d2). with_snapshot s d2))"

definition repo_claim_next :: "string \<Rightarrow> string \<Rightarrow> int \<Rightarrow> int \<Rightarrow> db \<Rightarrow> queue_claim option tx" where
  "repo_claim_next uuid s generation now d =
    res_bind (read_runtime d) (\<lambda>runtime.
    if \<not> qr_enabled runtime \<or> qr_generation runtime \<noteq> generation then Inr (None, d)
    else
      (case find_queue d s of
         None \<Rightarrow> Inr (None, d)
       | Some q \<Rightarrow>
           if q_paused q \<or> q_token q \<noteq> None then Inr (None, d)
           else
             (case fetch_head d s of
                None \<Rightarrow> Inr (None, d)
              | Some item \<Rightarrow>
                  if ti_state item \<noteq> Queued then Inr (None, d)
                  else
                    res_bind (sql_update_items d
                        (\<lambda>r. i_session r = s \<and> i_id r = ti_id item \<and> i_state r = Queued \<and> i_token r = None)
                        (\<lambda>r. r\<lparr>i_state := Dispatching, i_token := Some uuid, i_updated_at := now\<rparr>))
                      (\<lambda>(changed, d1).
                        if changed \<noteq> 1 then Inr (None, d1)
                        else
                          res_bind (sql_update_queues d1 (\<lambda>q. q_session q = s \<and> q_token q = None)
                              (\<lambda>q. q\<lparr>q_state := QDispatching, q_reason := None, q_token := Some uuid,
                                      q_started_at := Some now, q_revision := q_revision q + 1,
                                      q_updated_at := now\<rparr>))
                            (\<lambda>(queue_changed, d2).
                              if queue_changed \<noteq> 1
                              then Inl (Coded ''QUEUE_CLAIM_CONFLICT'' ''Task queue dispatch claim changed concurrently'')
                              else Inr (Some \<lparr>qc_token = uuid, qc_generation = generation,
                                          qc_item = item\<lparr>ti_state := Dispatching\<rparr>\<rparr>, d2))))))"

text \<open>The condition under which a claim is current: the item and the queue both carry its token.\<close>

definition claimed_by :: "db \<Rightarrow> string \<Rightarrow> string \<Rightarrow> string \<Rightarrow> item_row \<Rightarrow> bool" where
  "claimed_by d s item_id token r \<longleftrightarrow>
    i_session r = s \<and> i_id r = item_id \<and> i_state r = Dispatching \<and> i_token r = Some token
    \<and> list_ex (\<lambda>q. q_session q = s \<and> q_token q = Some token) (db_queues d)"

definition repo_complete_claim :: "string \<Rightarrow> string \<Rightarrow> string \<Rightarrow> int \<Rightarrow> db \<Rightarrow> bool tx" where
  "repo_complete_claim s item_id token now d =
    (case find (claimed_by d s item_id token) (db_items d) of
       None \<Rightarrow> Inr (False, d)
     | Some row \<Rightarrow>
         (let d1 = sql_delete_items d (\<lambda>r. i_session r = s \<and> i_id r = item_id
                     \<and> i_state r = Dispatching \<and> i_token r = Some token) in
          res_bind (shift_down s (i_position row) now d1) (\<lambda>d2.
          res_bind (sql_update_queues d2 (\<lambda>q. q_session q = s \<and> q_token q = Some token)
              (release_queue now Running None)) (\<lambda>(affected, d3).
          Inr (affected = 1, d3)))))"

fun finish_queue_state :: "item_state \<Rightarrow> queue_state" where
  "finish_queue_state Queued = Running"
| "finish_queue_state Failed = SendFailed"
| "finish_queue_state DeliveryUnknown = ActionRequired"
| "finish_queue_state Dispatching = QDispatching"

fun finish_reason :: "item_state \<Rightarrow> queue_reason option" where
  "finish_reason Queued = None"
| "finish_reason Failed = Some SubmitFailed"
| "finish_reason DeliveryUnknown = Some DeliveryUnknownR"
| "finish_reason Dispatching = None"

definition repo_finish_claim ::
    "string \<Rightarrow> string \<Rightarrow> string \<Rightarrow> item_state \<Rightarrow> string option \<Rightarrow> string option \<Rightarrow> int \<Rightarrow> db
      \<Rightarrow> bool tx" where
  "repo_finish_claim s item_id token st code msg now d =
    res_bind (sql_update_items d (claimed_by d s item_id token)
        (\<lambda>r. r\<lparr>i_state := st, i_token := None, i_error_code := code, i_error_message := msg,
                i_updated_at := now\<rparr>)) (\<lambda>(changed, d1).
      if changed = 0 then Inr (False, d1)
      else
        res_bind (sql_update_queues d1 (\<lambda>q. q_session q = s \<and> q_token q = Some token)
            (release_queue now (finish_queue_state st) (finish_reason st))) (\<lambda>(queue_changed, d2).
          if queue_changed \<noteq> 1
          then Inl (Coded ''QUEUE_CLAIM_CONFLICT'' ''Task queue dispatch claim changed concurrently'')
          else Inr (True, d2)))"

definition repo_return_claim :: "string \<Rightarrow> string \<Rightarrow> string \<Rightarrow> int \<Rightarrow> db \<Rightarrow> bool tx" where
  "repo_return_claim s item_id token now d = repo_finish_claim s item_id token Queued None None now d"

definition repo_fail_claim ::
    "string \<Rightarrow> string \<Rightarrow> string \<Rightarrow> string \<Rightarrow> string \<Rightarrow> int \<Rightarrow> db \<Rightarrow> bool tx" where
  "repo_fail_claim s item_id token code msg now d =
    repo_finish_claim s item_id token Failed (Some code) (Some msg) now d"

definition repo_mark_delivery_unknown ::
    "string \<Rightarrow> string \<Rightarrow> string \<Rightarrow> string \<Rightarrow> int \<Rightarrow> db \<Rightarrow> bool tx" where
  "repo_mark_delivery_unknown s item_id token msg now d =
    repo_finish_claim s item_id token DeliveryUnknown (Some ''DELIVERY_UNKNOWN'') (Some msg) now d"

definition repo_recover_inflight :: "int \<Rightarrow> db \<Rightarrow> nat tx" where
  "repo_recover_inflight now d =
    res_bind (sql_update_queues d
        (\<lambda>q. q_token q \<noteq> None \<or> list_ex (\<lambda>i. i_session i = q_session q \<and> i_state i = Dispatching) (db_items d))
        (release_queue now ActionRequired (Some DeliveryUnknownR))) (\<lambda>(n, d1).
      sql_update_items d1 (\<lambda>r. i_state r = Dispatching)
        (\<lambda>r. r\<lparr>i_state := DeliveryUnknown, i_token := None, i_error_code := Some ''DELIVERY_UNKNOWN'',
                i_error_message := Some ''Dispatch was interrupted before acknowledgement'',
                i_updated_at := now\<rparr>))"

section \<open>Permission decisions\<close>

definition validate_permission_decision_key :: "string \<Rightarrow> string \<Rightarrow> app_error + unit" where
  "validate_permission_decision_key tool_use fingerprint =
    (if trim tool_use = [] \<or> trim fingerprint = []
     then Inl (Coded ''QUEUE_ITEM_INVALID'' ''Permission decisions require a tool id and fingerprint'')
     else Inr ())"

definition upsert_permission_decision ::
    "string \<Rightarrow> string \<Rightarrow> string \<Rightarrow> int \<Rightarrow> db \<Rightarrow> decision_record tx" where
  "upsert_permission_decision s tool_use fingerprint now d =
    (case find (\<lambda>r. d_session r = s \<and> d_tool_use r = tool_use) (db_decisions d) of
       None \<Rightarrow>
         if list_ex (\<lambda>q. q_session q = s) (db_queues d)
         then Inr (\<lparr>dc_status = Inserted, dc_decision = Some ''allow''\<rparr>,
                d\<lparr>db_decisions := db_decisions d @ [\<lparr>d_session = s, d_tool_use = tool_use,
                   d_fingerprint = fingerprint, d_decision = ''allow'', d_created_at = now\<rparr>]\<rparr>)
         else Inl DbConstraint
     | Some r \<Rightarrow>
         if d_fingerprint r = fingerprint
         then Inr (\<lparr>dc_status = Existing, dc_decision = Some ''allow''\<rparr>, d)
         else Inr (\<lparr>dc_status = FingerprintMismatch, dc_decision = None\<rparr>, d))"

definition repo_record_permission_decision ::
    "string \<Rightarrow> string \<Rightarrow> string \<Rightarrow> int \<Rightarrow> db \<Rightarrow> decision_record tx" where
  "repo_record_permission_decision s tool_use fingerprint now d =
    res_bind (validate_permission_decision_key tool_use fingerprint) (\<lambda>_.
      upsert_permission_decision s tool_use fingerprint now (ensure_queue s now d))"

definition decision_eligible :: "string \<Rightarrow> db \<Rightarrow> bool" where
  "decision_eligible s d \<longleftrightarrow>
    (case db_runtime d of Some r \<Rightarrow> qr_enabled r | None \<Rightarrow> False)
    \<and> list_ex (\<lambda>q. q_session q = s \<and> q_unattended q) (db_queues d)
    \<and> list_ex (\<lambda>i. i_session i = s) (db_items d)"

definition repo_record_if_eligible ::
    "string \<Rightarrow> string \<Rightarrow> string \<Rightarrow> int \<Rightarrow> db \<Rightarrow> decision_record option tx" where
  "repo_record_if_eligible s tool_use fingerprint now d =
    res_bind (validate_permission_decision_key tool_use fingerprint) (\<lambda>_.
      if \<not> decision_eligible s d then Inr (None, d)
      else res_bind (upsert_permission_decision s tool_use fingerprint now d)
             (\<lambda>(r, d'). Inr (Some r, d')))"

text \<open>Rows updated at the same time are listed in the order of their rowids.\<close>

definition active_session_ids :: "db \<Rightarrow> string list" where
  "active_session_ids d = map q_session (order_by q_updated_at
    (filter (\<lambda>q. list_ex (\<lambda>i. i_session i = q_session q) (db_items d)) (db_queues d)))"

section \<open>Transactions\<close>

text \<open>An error rolls back.\<close>

definition after :: "'a tx \<Rightarrow> db \<Rightarrow> db" where
  "after x d = (case x of Inr (_, d') \<Rightarrow> d' | Inl _ \<Rightarrow> d)"

definition result_of :: "'a tx \<Rightarrow> app_error + 'a" where
  "result_of x = (case x of Inr (a, _) \<Rightarrow> Inr a | Inl e \<Rightarrow> Inl e)"

datatype queue_op =
    SetEnabled bool int
  | Snapshot string
  | AddItem string string item_draft int
  | DeleteItem string string int
  | ClearQueue string int
  | UpdateControl string control_patch int
  | RetryItem string string int
  | SetStatus string queue_state "queue_reason option" int
  | ClaimNext string string int int
  | CompleteClaim string string string int
  | ReturnClaim string string string int
  | FailClaim string string string string string int
  | MarkUnknown string string string string int
  | RecoverInflight int
  | RecordDecision string string string int
  | RecordIfEligible string string string int

fun queue_exec :: "db \<Rightarrow> queue_op \<Rightarrow> db" where
  "queue_exec d (SetEnabled b now) = after (repo_set_global_enabled b now d) d"
| "queue_exec d (Snapshot s) = after (repo_snapshot s d) d"
| "queue_exec d (AddItem uuid s draft now) = after (repo_add_item uuid s draft now d) d"
| "queue_exec d (DeleteItem s i now) = after (repo_delete_item s i now d) d"
| "queue_exec d (ClearQueue s now) = after (repo_clear_queue s now d) d"
| "queue_exec d (UpdateControl s p now) = after (repo_update_control s p now d) d"
| "queue_exec d (RetryItem s i now) = after (repo_retry_item s i now d) d"
| "queue_exec d (SetStatus s st r now) = after (repo_set_runtime_status s st r now d) d"
| "queue_exec d (ClaimNext uuid s g now) = after (repo_claim_next uuid s g now d) d"
| "queue_exec d (CompleteClaim s i t now) = after (repo_complete_claim s i t now d) d"
| "queue_exec d (ReturnClaim s i t now) = after (repo_return_claim s i t now d) d"
| "queue_exec d (FailClaim s i t c m now) = after (repo_fail_claim s i t c m now d) d"
| "queue_exec d (MarkUnknown s i t m now) = after (repo_mark_delivery_unknown s i t m now d) d"
| "queue_exec d (RecoverInflight now) = after (repo_recover_inflight now d) d"
| "queue_exec d (RecordDecision s tu fp now) = after (repo_record_permission_decision s tu fp now d) d"
| "queue_exec d (RecordIfEligible s tu fp now) = after (repo_record_if_eligible s tu fp now d) d"

text \<open>The database after the migrations, started at a time in milliseconds.\<close>

definition db_init :: "int \<Rightarrow> db" where
  "db_init now = \<lparr>db_runtime = Some \<lparr>qr_enabled = True, qr_generation = 0, qr_updated_at = now\<rparr>,
    db_queues = [], db_items = [], db_decisions = []\<rparr>"

end
