(* ===== verification/Queue_Inv.thy ===== *)
theory Queue_Inv
  imports Queue_Repo
begin

text \<open>
  The invariant of the task queue tables and the effect of every transaction on the lane of a
  session: the items of a session in order, each with its state and token.
\<close>

section \<open>The invariant\<close>

text \<open>
  Two rows in table order: different ids, and within a session the later row has a larger
  position and waits.
\<close>

definition follows :: "item_row \<Rightarrow> item_row \<Rightarrow> bool" where
  "follows r r' \<longleftrightarrow> i_id r \<noteq> i_id r'
    \<and> (i_session r = i_session r' \<longrightarrow> i_position r < i_position r' \<and> i_state r' = Queued)"

definition rows_ok :: "item_row list \<Rightarrow> bool" where
  "rows_ok rows \<longleftrightarrow> sorted_wrt follows rows \<and> (\<forall>r \<in> set rows. item_check r)"

definition head_token :: "item_row list \<Rightarrow> string option" where
  "head_token rows = (case rows of [] \<Rightarrow> None | r # _ \<Rightarrow> i_token r)"

definition session_ok :: "queue_row option \<Rightarrow> item_row list \<Rightarrow> bool" where
  "session_ok q rows \<longleftrightarrow> map i_position rows = map int [0..<length rows] \<and> length rows \<le> 100
    \<and> (case q of None \<Rightarrow> rows = [] | Some q \<Rightarrow> q_token q = head_token rows)"

definition queues_ok :: "queue_row list \<Rightarrow> bool" where
  "queues_ok qs \<longleftrightarrow> distinct (map q_session qs) \<and> (\<forall>q \<in> set qs. queue_check q)"

definition db_ok :: "db \<Rightarrow> bool" where
  "db_ok d \<longleftrightarrow> db_runtime d \<noteq> None \<and> queues_ok (db_queues d) \<and> rows_ok (db_items d)
    \<and> (\<forall>s. session_ok (find_queue d s) (session_items d s))"

lemma db_init_ok: "db_ok (db_init now)"
  by (simp add: db_ok_def db_init_def queues_ok_def rows_ok_def session_ok_def find_queue_def
      session_items_def)

section \<open>Updating item rows\<close>

text \<open>
  An update that keeps the rows in order, also while it is half done, goes through row by row.
\<close>

definition stays :: "(item_row \<Rightarrow> bool) \<Rightarrow> (item_row \<Rightarrow> item_row) \<Rightarrow> item_row \<Rightarrow> item_row" where
  "stays P f r = (if P r then f r else r)"

lemma follows_no_conflict:
  "follows r r' \<Longrightarrow> item_check r \<Longrightarrow> item_check r' \<Longrightarrow> \<not> item_conflict r r' \<and> \<not> item_conflict r' r"
  by (auto simp: follows_def item_conflict_def item_check_def)

lemma update_rows_step:
  assumes "rows_ok (map (stays P f) seen @ rs)"
    and "\<And>r. r \<in> set rs \<Longrightarrow> P r \<Longrightarrow> item_check (f r)"
    and "\<And>r r'. r \<in> set (seen @ rs) \<Longrightarrow> r' \<in> set rs \<Longrightarrow> P r' \<Longrightarrow>
      follows r r' \<Longrightarrow> follows (stays P f r) (f r')"
    and "\<And>r r'. r \<in> set rs \<Longrightarrow> r' \<in> set rs \<Longrightarrow> P r \<Longrightarrow> follows r r' \<Longrightarrow> follows (f r) r'"
    and "sorted_wrt follows (seen @ rs)"
  shows "update_rows P f (map (stays P f) seen) rs
      = Inr (length (filter P rs), map (stays P f) (seen @ rs))
    \<and> rows_ok (map (stays P f) (seen @ rs))"
  using assms
proof (induction rs arbitrary: seen)
  case Nil
  then show ?case by simp
next
  case (Cons r rs)
  let ?u = "stays P f"
  have here: "\<And>x. x \<in> set seen \<Longrightarrow> follows (?u x) r" "\<And>x. x \<in> set rs \<Longrightarrow> follows r x"
    "\<And>x. x \<in> set seen \<Longrightarrow> item_check (?u x)" "\<And>x. x \<in> set rs \<Longrightarrow> item_check x"
    "sorted_wrt follows (map ?u seen)" "sorted_wrt follows rs"
    "\<And>x y. x \<in> set seen \<Longrightarrow> y \<in> set rs \<Longrightarrow> follows (?u x) y"
    using Cons.prems(1) by (auto simp: rows_ok_def sorted_wrt_append)
  have ok: "item_check (?u r)"
    using Cons.prems(1) Cons.prems(2) [of r] by (auto simp: stays_def rows_ok_def)
  have before: "follows (?u x) (?u r)" if "x \<in> set seen" for x
    using here(1) [OF that] Cons.prems(3) [of x r] Cons.prems(5) that
    by (auto simp: stays_def sorted_wrt_append split: if_splits)
  have behind: "follows (?u r) x" if "x \<in> set rs" for x
    using here(2) [OF that] Cons.prems(4) [of r x] that by (simp add: stays_def split: if_splits)
  have rows: "rows_ok (map ?u (seen @ [r]) @ rs)"
    using here before behind ok by (auto simp: rows_ok_def sorted_wrt_append)
  have free: "\<not> list_ex (item_conflict (?u r)) (map ?u seen @ rs)"
    using follows_no_conflict [OF before here(3) ok] follows_no_conflict [OF behind ok here(4)]
    by (auto simp: list_ex_iff)
  have "update_rows P f (map ?u (seen @ [r])) rs
      = Inr (length (filter P rs), map ?u ((seen @ [r]) @ rs)) \<and> rows_ok (map ?u ((seen @ [r]) @ rs))"
    by (rule Cons.IH [OF rows]) (use Cons.prems(2-5) in auto)
  moreover have "?u r = (if P r then f r else r)" by (simp add: stays_def)
  ultimately show ?case using free ok by (cases "P r") simp_all
qed

lemma update_rows_ok:
  assumes "rows_ok rows"
    and "\<And>r. r \<in> set rows \<Longrightarrow> P r \<Longrightarrow> item_check (f r)"
    and "\<And>r r'. r \<in> set rows \<Longrightarrow> r' \<in> set rows \<Longrightarrow> P r' \<Longrightarrow>
      follows r r' \<Longrightarrow> follows (stays P f r) (f r')"
    and "\<And>r r'. r \<in> set rows \<Longrightarrow> r' \<in> set rows \<Longrightarrow> P r \<Longrightarrow> follows r r' \<Longrightarrow> follows (f r) r'"
  shows "update_rows P f [] rows = Inr (length (filter P rows), map (stays P f) rows)"
    and "rows_ok (map (stays P f) rows)"
  using update_rows_step [of P f "[]" rows] assms by (auto simp: rows_ok_def)

lemma rows_ok_filter: "rows_ok rows \<Longrightarrow> rows_ok (filter P rows)"
  by (auto simp: rows_ok_def sorted_wrt_filter)

lemma rows_ok_order:
  assumes "rows_ok (xs @ r # ys)" and "x \<in> set ys"
  shows "follows r x"
  using assms by (auto simp: rows_ok_def sorted_wrt_append)

lemma rows_ok_unique:
  assumes "rows_ok rows" "r \<in> set rows" "r' \<in> set rows" "i_id r = i_id r'"
  shows "r = r'"
  using assms by (induction rows) (auto simp: rows_ok_def follows_def)

lemma rows_ok_distinct: "rows_ok rows \<Longrightarrow> distinct rows"
  by (induction rows) (auto simp: rows_ok_def follows_def)

lemma rows_ok_total:
  "rows_ok rows \<Longrightarrow> x \<in> set rows \<Longrightarrow> y \<in> set rows \<Longrightarrow> x \<noteq> y \<Longrightarrow> follows x y \<or> follows y x"
  by (induction rows) (auto simp: rows_ok_def)

text \<open>The head of a session and the rows behind it.\<close>

lemma session_split:
  assumes "rows_ok (db_items d)" and "session_items d s = r # rs"
  shows "r \<in> set (db_items d)" "i_session r = s" "item_check r"
    "\<forall>x \<in> set rs. i_session x = s \<and> i_state x = Queued \<and> i_token x = None \<and> i_id x \<noteq> i_id r"
    "\<forall>x \<in> set (db_items d). i_session x = s \<longrightarrow> x = r \<or> x \<in> set rs"
proof -
  have mem: "set (r # rs) = {x \<in> set (db_items d). i_session x = s}"
    using assms(2) by (metis (mono_tags) session_items_def set_filter)
  have ok: "rows_ok (r # rs)" using rows_ok_filter [OF assms(1)] assms(2) by (metis session_items_def)
  show "r \<in> set (db_items d)" "i_session r = s" using mem by auto
  then show "item_check r" using assms(1) by (auto simp: rows_ok_def)
  show "\<forall>x \<in> set (db_items d). i_session x = s \<longrightarrow> x = r \<or> x \<in> set rs" using mem by auto
  show "\<forall>x \<in> set rs. i_session x = s \<and> i_state x = Queued \<and> i_token x = None \<and> i_id x \<noteq> i_id r"
  proof
    fix x assume x: "x \<in> set rs"
    then have "follows r x" using ok by (auto simp: rows_ok_def)
    moreover have "i_session x = s" "i_session r = s" using mem x by auto
    moreover have "item_check x" using ok x by (auto simp: rows_ok_def)
    ultimately show "i_session x = s \<and> i_state x = Queued \<and> i_token x = None \<and> i_id x \<noteq> i_id r"
      by (auto simp: follows_def item_check_def)
  qed
qed

text \<open>A row that is not waiting is the head of its session.\<close>

lemma busy_is_head:
  assumes "rows_ok (db_items d)" and "x \<in> set (db_items d)" and "i_session x = s" and "i_state x \<noteq> Queued"
  obtains rs where "session_items d s = x # rs"
proof -
  have "x \<in> set (session_items d s)" using assms(2,3) by (simp add: session_items_def)
  then obtain r rs where r: "session_items d s = r # rs" by (cases "session_items d s") auto
  with session_split [OF assms(1) r] assms have "x = r" by blast
  with r that show thesis by blast
qed

section \<open>Queues\<close>

lemma find_queue_update:
  assumes "\<And>q. q_session (f q) = q_session q"
  shows "find_queue (d\<lparr>db_queues := map (\<lambda>q. if P q then f q else q) (db_queues d)\<rparr>) s
    = map_option (\<lambda>q. if P q then f q else q) (find_queue d s)"
proof -
  have "find (\<lambda>q. q_session q = s) (map (\<lambda>q. if P q then f q else q) qs)
      = map_option (\<lambda>q. if P q then f q else q) (find (\<lambda>q. q_session q = s) qs)" for qs
    by (induction qs) (auto simp: assms)
  then show ?thesis by (simp add: find_queue_def)
qed

lemma queues_ok_update:
  assumes "queues_ok qs" "\<And>q. q_session (f q) = q_session q" "\<And>q. q \<in> set qs \<Longrightarrow> P q \<Longrightarrow> queue_check (f q)"
  shows "queues_ok (map (\<lambda>q. if P q then f q else q) qs)"
proof -
  let ?g = "\<lambda>q. if P q then f q else q"
  have eq: "q_session \<circ> ?g = q_session" using assms(2) by auto
  have "distinct (map q_session (map ?g qs))"
    using assms(1) by (simp only: map_map eq queues_ok_def)
  moreover have "\<forall>q \<in> set (map ?g qs). queue_check q" using assms by (auto simp: queues_ok_def)
  ultimately show ?thesis by (simp only: queues_ok_def)
qed

lemma find_queue_Some: "find_queue d s = Some q \<Longrightarrow> q \<in> set (db_queues d) \<and> q_session q = s"
  by (auto simp: find_queue_def find_Some_iff)

lemma find_queue_unique:
  assumes "queues_ok (db_queues d)" "q \<in> set (db_queues d)"
  shows "find_queue d (q_session q) = Some q"
proof -
  have "distinct (map q_session qs) \<Longrightarrow> q \<in> set qs \<Longrightarrow> find (\<lambda>x. q_session x = q_session q) qs = Some q" for qs
    by (induction qs) (auto simp: image_iff)
  with assms show ?thesis by (simp add: find_queue_def queues_ok_def)
qed

text \<open>How many queues an update of one session changes.\<close>

lemma one_queue:
  assumes "queues_ok (db_queues d)" "\<And>q. P q \<Longrightarrow> q_session q = s"
  shows "length (filter P (db_queues d)) = (case find_queue d s of Some q \<Rightarrow> if P q then 1 else 0 | None \<Rightarrow> 0)"
proof -
  have "distinct (map q_session qs) \<Longrightarrow> length (filter P qs)
      = (case find (\<lambda>q. q_session q = s) qs of Some q \<Rightarrow> if P q then 1 else 0 | None \<Rightarrow> 0)" for qs
  proof (induction qs)
    case Nil
    then show ?case by simp
  next
    case (Cons q qs)
    show ?case
    proof (cases "q_session q = s")
      case True
      then have "\<not> P x" if "x \<in> set qs" for x using Cons.prems assms(2) [of x] that True by (auto simp: image_iff)
      then have "filter P qs = []" by simp
      with True show ?thesis by simp
    next
      case False
      then have "\<not> P q" using assms(2) by blast
      with False Cons show ?thesis by simp
    qed
  qed
  with assms(1) show ?thesis by (simp add: find_queue_def queues_ok_def)
qed

text \<open>An update of the queues that changes no token.\<close>

lemma update_queues_ok:
  assumes "queues_ok (db_queues d)" and "\<And>q. q_session (f q) = q_session q"
    and "\<And>q. q \<in> set (db_queues d) \<Longrightarrow> P q \<Longrightarrow> queue_check (f q)"
  shows "sql_update_queues d P f = Inr (length (filter P (db_queues d)),
      d\<lparr>db_queues := map (\<lambda>q. if P q then f q else q) (db_queues d)\<rparr>)"
  using assms(3) by (simp add: sql_update_queues_def list_all_iff)

section \<open>Lanes\<close>

text \<open>What a session's queue holds, in order: id, text, images, state and token of each item.\<close>

type_synonym lane_item = "string \<times> string \<times> string list \<times> item_state \<times> string option"

definition lane_item :: "item_row \<Rightarrow> lane_item" where
  "lane_item r = (i_id r, i_text r, i_images r, i_state r, i_token r)"

definition lane :: "db \<Rightarrow> string \<Rightarrow> lane_item list" where
  "lane d s = map lane_item (session_items d s)"

text \<open>Two databases that differ at most in one session and keep the invariant.\<close>

definition steps_to :: "db \<Rightarrow> string \<Rightarrow> lane_item list \<Rightarrow> db \<Rightarrow> bool" where
  "steps_to d s l d' \<longleftrightarrow> db_ok d' \<and> lane d' s = l \<and> (\<forall>s'. s' \<noteq> s \<longrightarrow> lane d' s' = lane d s')"

lemma steps_to_lane: "steps_to d s l d' \<Longrightarrow> lane d' s' = (if s' = s then l else lane d s')"
  by (simp add: steps_to_def)

lemma db_ok_local:
  assumes "db_ok d" and "db_runtime d' \<noteq> None" and "queues_ok (db_queues d')" and "rows_ok (db_items d')"
    and "\<And>s'. s' \<noteq> s \<Longrightarrow> find_queue d' s' = find_queue d s'"
    and "\<And>s'. s' \<noteq> s \<Longrightarrow> session_items d' s' = session_items d s'"
    and "session_ok (find_queue d' s) (session_items d' s)"
  shows "steps_to d s (lane d' s) d'"
proof -
  have "session_ok (find_queue d' s') (session_items d' s')" for s'
    using assms by (cases "s' = s") (simp_all add: db_ok_def)
  with assms show ?thesis by (simp add: steps_to_def db_ok_def lane_def)
qed

lemma db_ok_queue: "db_ok d \<Longrightarrow> find_queue d s = Some q \<Longrightarrow> q_token q = head_token (session_items d s) \<and> queue_check q"
  using find_queue_Some [of d s q] by (auto simp: db_ok_def session_ok_def queues_ok_def dest: spec [of _ s])

lemma db_ok_items: "db_ok d \<Longrightarrow> session_items d s \<noteq> [] \<Longrightarrow> \<exists>q. find_queue d s = Some q"
  by (cases "find_queue d s") (auto simp: db_ok_def session_ok_def dest!: spec [of _ s])

text \<open>Ensuring the rows exist.\<close>

lemma ensure_runtime_id [simp]: "db_ok d \<Longrightarrow> ensure_runtime now d = d"
  by (simp add: ensure_runtime_def db_ok_def)

lemma ensure_queue_sel [simp]:
  "db_items (ensure_queue s now d) = db_items d" "db_runtime (ensure_queue s now d) = db_runtime d"
  "session_items (ensure_queue s now d) = session_items d" "lane (ensure_queue s now d) = lane d"
  "find_item (ensure_queue s now d) = find_item d"
  by (simp_all add: ensure_queue_def session_items_def fun_eq_iff lane_def find_item_def)

lemma find_queue_ensure:
  "find_queue (ensure_queue s now d) s' =
    (if s' = s \<and> find_queue d s = None then Some (new_queue s now) else find_queue d s')"
proof -
  have "find (\<lambda>q. q_session q = s') (qs @ [new_queue s now])
      = (case find (\<lambda>q. q_session q = s') qs of Some q \<Rightarrow> Some q
         | None \<Rightarrow> if s' = s then Some (new_queue s now) else None)" for qs
    by (induction qs) (auto simp: new_queue_def)
  then show ?thesis by (auto simp: ensure_queue_def find_queue_def split: option.split)
qed

lemma ensure_queue_ok:
  assumes "db_ok d"
  shows "db_ok (ensure_queue s now d)"
proof -
  have "queues_ok (db_queues (ensure_queue s now d))"
    using assms by (auto simp: ensure_queue_def db_ok_def queues_ok_def new_queue_def queue_check_def
        find_queue_def find_None_iff)
  moreover have "session_ok (find_queue (ensure_queue s now d) s') (session_items d s')" for s'
  proof -
    have base: "session_ok (find_queue d s') (session_items d s')" using assms by (simp add: db_ok_def)
    show ?thesis
    proof (cases "s' = s \<and> find_queue d s = None")
      case True
      with base show ?thesis by (auto simp: find_queue_ensure session_ok_def new_queue_def head_token_def)
    next
      case False
      with base show ?thesis by (auto simp: find_queue_ensure)
    qed
  qed
  ultimately show ?thesis using assms by (simp add: db_ok_def)
qed

lemma ensured: "\<exists>q. find_queue (ensure_queue s now d) s = Some q"
  by (auto simp: find_queue_ensure)

lemma read_snapshot_ok:
  "db_ok d \<Longrightarrow> find_queue d s = Some q \<Longrightarrow> \<exists>snap. with_snapshot s d = Inr (snap, d)
    \<and> qs_items snap = fetch_items d s"
  by (auto simp: with_snapshot_def read_snapshot_def read_runtime_def db_ok_def Let_def)

text \<open>An update of one session's queue row that keeps its token.\<close>

lemma touch_queue:
  assumes ok: "db_ok d" and f: "\<And>q. q_session (f q) = q_session q" "\<And>q. P q \<Longrightarrow> q_token (f q) = q_token q"
    and P: "\<And>q. P q \<Longrightarrow> q_session q = s" and c: "\<And>q. queue_check q \<Longrightarrow> P q \<Longrightarrow> queue_check (f q)"
  shows "\<exists>n d'. sql_update_queues d P f = Inr (n, d') \<and> steps_to d s (lane d s) d'
    \<and> db_items d' = db_items d \<and> db_runtime d' = db_runtime d
    \<and> (find_queue d s \<noteq> None \<longrightarrow> find_queue d' s \<noteq> None)"
proof -
  let ?d = "d\<lparr>db_queues := map (\<lambda>q. if P q then f q else q) (db_queues d)\<rparr>"
  have upd: "sql_update_queues d P f = Inr (length (filter P (db_queues d)), ?d)"
    using ok c by (intro update_queues_ok f) (auto simp: db_ok_def queues_ok_def)
  have find: "find_queue ?d s' = map_option (\<lambda>q. if P q then f q else q) (find_queue d s')" for s'
    by (rule find_queue_update) (rule f)
  have same: "find_queue ?d s' = find_queue d s'" if "s' \<noteq> s" for s'
    using find_queue_Some [of d s'] P that unfolding find by (cases "find_queue d s'") auto
  have "queues_ok (db_queues ?d)"
    using queues_ok_update [of "db_queues d" f P] ok c f by (simp add: db_ok_def queues_ok_def)
  moreover have "session_ok (find_queue ?d s) (session_items d s)"
    using ok f unfolding find by (auto simp: db_ok_def session_ok_def split: option.split dest!: spec [of _ s])
  ultimately have "steps_to d s (lane ?d s) ?d"
    using ok same by (intro db_ok_local) (auto simp: session_items_def db_ok_def)
  with upd find [of s] show ?thesis by (simp add: lane_def session_items_def)
qed

lemma bump_ok:
  assumes "db_ok d"
  shows "\<exists>d'. bump_queue_revision s now d = Inr d' \<and> steps_to d s (lane d s) d'
    \<and> (find_queue d s \<noteq> None \<longrightarrow> find_queue d' s \<noteq> None)"
  using touch_queue [OF assms, of "\<lambda>q. q\<lparr>q_revision := q_revision q + 1, q_updated_at := now\<rparr>"
      "\<lambda>q. q_session q = s" s]
  by (auto simp: bump_queue_revision_def queue_check_def)

end
