(* ===== verification/Queue_Steps.thy ===== *)
theory Queue_Steps
  imports Queue_Inv
begin

text \<open>
  The effect of every transaction of the repository under the invariant, on its success and on
  each of its errors.
\<close>

section \<open>One item, one queue\<close>

lemma positions_nth:
  "map i_position rows = map int [0..<length rows] \<longleftrightarrow> (\<forall>i < length rows. i_position (rows ! i) = int i)"
proof
  assume eq: "map i_position rows = map int [0..<length rows]"
  show "\<forall>i < length rows. i_position (rows ! i) = int i"
  proof (intro allI impI)
    fix i assume "i < length rows"
    then show "i_position (rows ! i) = int i" using arg_cong [OF eq, of "\<lambda>l. l ! i"] by simp
  qed
next
  assume "\<forall>i < length rows. i_position (rows ! i) = int i"
  then show "map i_position rows = map int [0..<length rows]" by (intro nth_equalityI) simp_all
qed

lemma set_queue:
  assumes q: "queues_ok (db_queues d)" "find_queue d s = Some q" and P: "P q" "\<And>q. P q \<Longrightarrow> q_session q = s"
    and f: "\<And>q. q_session (f q) = q_session q" "queue_check (f q)"
  shows "\<exists>d'. sql_update_queues d P f = Inr (1, d') \<and> queues_ok (db_queues d')
    \<and> find_queue d' s = Some (f q) \<and> (\<forall>s'. s' \<noteq> s \<longrightarrow> find_queue d' s' = find_queue d s')
    \<and> db_items d' = db_items d \<and> db_runtime d' = db_runtime d"
proof -
  let ?d = "d\<lparr>db_queues := map (\<lambda>q. if P q then f q else q) (db_queues d)\<rparr>"
  have only: "x = q" if "x \<in> set (db_queues d)" "P x" for x
    using find_queue_unique [OF q(1) that(1)] q(2) P(2) [OF that(2)] by simp
  have "length (filter P (db_queues d)) = 1"
    using one_queue [OF q(1), of P s] P q(2) by simp
  with only f have upd: "sql_update_queues d P f = Inr (1, ?d)"
    by (subst update_queues_ok [OF q(1)]) auto
  have find: "find_queue ?d s' = map_option (\<lambda>q. if P q then f q else q) (find_queue d s')" for s'
    by (rule find_queue_update) (rule f)
  have same: "find_queue ?d s' = find_queue d s'" if "s' \<noteq> s" for s'
    using find_queue_Some [of d s'] P(2) that unfolding find by (cases "find_queue d s'") auto
  have "queues_ok (db_queues ?d)"
  proof -
    have "queue_check (f x)" if "x \<in> set (db_queues d)" "P x" for x using only [OF that] f(2) by simp
    from queues_ok_update [OF q(1) f(1), of P, OF this] show ?thesis by simp
  qed
  with upd same show ?thesis using find [of s] q(2) P(1) by (intro exI [of _ ?d]) simp
qed

lemma set_head:
  assumes rows: "rows_ok (db_items d)" and head: "session_items d s = r # rs"
    and P: "P r" "\<And>x. x \<in> set (db_items d) \<Longrightarrow> P x \<Longrightarrow> x = r"
    and f: "i_id (f r) = i_id r" "i_session (f r) = s" "i_position (f r) = i_position r" "item_check (f r)"
  shows "\<exists>d'. sql_update_items d P f = Inr (1, d') \<and> rows_ok (db_items d')
    \<and> session_items d' s = f r # rs \<and> (\<forall>s'. s' \<noteq> s \<longrightarrow> session_items d' s' = session_items d s')
    \<and> db_queues d' = db_queues d \<and> db_runtime d' = db_runtime d \<and> find_queue d' = find_queue d"
proof -
  note split = session_split [OF rows head]
  let ?d = "d\<lparr>db_items := map (stays P f) (db_items d)\<rparr>"
  have first: "i_session x \<noteq> s" if "x \<in> set (db_items d)" "follows x r" for x
  proof
    assume "i_session x = s"
    then have "x = r \<or> x \<in> set rs" using split(5) that(1) by blast
    moreover have "follows r x" if "x \<in> set rs"
      using rows_ok_filter [OF rows, of "\<lambda>r. i_session r = s"] that
      unfolding session_items_def [symmetric] head by (simp add: rows_ok_def)
    ultimately show False using that(2) split(2) \<open>i_session x = s\<close> by (auto simp: follows_def)
  qed
  have c1: "item_check (f x)" if "x \<in> set (db_items d)" "P x" for x
    using P(2) [OF that] f(4) by simp
  have c2: "follows (stays P f x) (f x')"
    if x: "x \<in> set (db_items d)" "x' \<in> set (db_items d)" "P x'" "follows x x'" for x x'
  proof -
    have "x' = r" using P(2) x by blast
    with x first have s: "i_session x \<noteq> s" by blast
    then have "stays P f x = x" using P(2) [OF x(1)] split(2) by (auto simp: stays_def)
    with x \<open>x' = r\<close> s f show ?thesis by (auto simp: follows_def)
  qed
  have c3: "follows (f x) x'"
    if x: "x \<in> set (db_items d)" "x' \<in> set (db_items d)" "P x" "follows x x'" for x x'
    using P(2) [OF x(1,3)] x f split(2) by (auto simp: follows_def)
  have upd: "update_rows P f [] (db_items d) = Inr (length (filter P (db_items d)), map (stays P f) (db_items d))
      \<and> rows_ok (map (stays P f) (db_items d))"
    using update_rows_ok [of "db_items d" P f, OF rows c1 c2 c3] by blast
  have "distinct (db_items d)" using rows by (rule rows_ok_distinct)
  moreover have "{x. P x} \<inter> set (db_items d) = {r}" using P split(1) by blast
  ultimately have "length (filter P (db_items d)) = 1" by (simp add: distinct_length_filter)
  with upd have sql: "sql_update_items d P f = Inr (1, ?d)" by (simp add: sql_update_items_def)
  have sess: "i_session (stays P f x) = i_session x" if "x \<in> set (db_items d)" for x
    using P(2) [OF that] f(2) split(2) by (auto simp: stays_def)
  have items: "session_items ?d s' = map (stays P f) (session_items d s')" for s'
  proof -
    have "filter (\<lambda>x. i_session x = s') (map (stays P f) xs) = map (stays P f) (filter (\<lambda>x. i_session x = s') xs)"
      if "set xs \<subseteq> set (db_items d)" for xs
      using that by (induction xs) (auto simp: sess)
    then show ?thesis by (simp add: session_items_def)
  qed
  have "stays P f x = x" if x: "x \<in> set rs" for x
  proof -
    have "x \<in> set (session_items d s)" using x head by simp
    then have "x \<in> set (db_items d)" by (simp add: session_items_def)
    with P(2) [of x] split(4) x show ?thesis by (auto simp: stays_def)
  qed
  then have "map (stays P f) rs = rs" by (simp add: map_idI)
  then have "session_items ?d s = f r # rs" using P(1) by (simp add: items head stays_def)
  moreover have "session_items ?d s' = session_items d s'" if "s' \<noteq> s" for s'
  proof -
    have "stays P f x = x" if "x \<in> set (session_items d s')" for x
      using P(2) [of x] split(2) that \<open>s' \<noteq> s\<close> by (auto simp: stays_def session_items_def)
    then show ?thesis unfolding items by (simp add: map_idI)
  qed
  moreover have "find_queue ?d = find_queue d" by (simp add: find_queue_def fun_eq_iff)
  ultimately show ?thesis using sql upd by (intro exI [of _ ?d]) simp
qed

text \<open>
  Removing an item and closing the gap: the rows behind it move up one by one, in table order,
  and no two rows of the session ever share a position on the way.
\<close>

lemma close_gap:
  assumes "map i_position (xs @ x # ys) = map int [0..<length (xs @ x # ys)]"
    and "\<And>r. u r = (if i_position x < i_position r then r\<lparr>i_position := i_position r - 1, i_updated_at := now\<rparr> else r)"
  shows "map i_position (map u (xs @ ys)) = map int [0..<length (map u (xs @ ys))]"
proof -
  have nth: "i_position ((xs @ x # ys) ! i) = int i" if "i < length (xs @ x # ys)" for i
    using assms(1) that unfolding positions_nth by blast
  have x: "i_position x = int (length xs)" using nth [of "length xs"] by simp
  have "i_position (map u (xs @ ys) ! i) = int i" if "i < length (xs @ ys)" for i
  proof (cases "i < length xs")
    case True
    then show ?thesis using nth [of i] x by (simp add: nth_append assms(2))
  next
    case False
    then have "i_position (ys ! (i - length xs)) = int (i + 1)"
      using nth [of "i + 1"] that by (simp add: nth_append Suc_diff_le)
    with False that x show ?thesis by (simp add: nth_append assms(2))
  qed
  then show ?thesis unfolding positions_nth by simp
qed

lemma remove_item:
  assumes rows: "rows_ok (db_items d)" and pos: "session_items d s = xs @ x # ys"
    and num: "map i_position (session_items d s) = map int [0..<length (session_items d s)]"
    and D: "\<And>r. r \<in> set (db_items d) \<Longrightarrow> D r \<longleftrightarrow> r = x"
  shows "\<exists>d'. shift_down s (i_position x) now (sql_delete_items d D) = Inr d' \<and> rows_ok (db_items d')
    \<and> map lane_item (session_items d' s) = map lane_item (xs @ ys)
    \<and> map i_position (session_items d' s) = map int [0..<length (session_items d' s)]
    \<and> head_token (session_items d' s) = head_token (xs @ ys)
    \<and> (\<forall>s'. s' \<noteq> s \<longrightarrow> session_items d' s' = session_items d s')
    \<and> db_queues d' = db_queues d \<and> db_runtime d' = db_runtime d \<and> find_queue d' = find_queue d"
proof -
  let ?P = "\<lambda>r. i_session r = s \<and> i_position x < i_position r"
  let ?f = "\<lambda>r. r\<lparr>i_position := i_position r - 1, i_updated_at := now\<rparr>"
  let ?rows = "filter (\<lambda>r. \<not> D r) (db_items d)"
  let ?u = "stays ?P ?f"
  have x: "x \<in> set (db_items d)" "i_session x = s"
    using pos by (metis (mono_tags, lifting) in_set_conv_decomp mem_Collect_eq session_items_def set_filter)+
  have left: "rows_ok ?rows" by (rule rows_ok_filter [OF rows])
  have nox: "r \<in> set (db_items d) \<and> r \<noteq> x" if "r \<in> set ?rows" for r using that D by auto
  have checks: "item_check r" if "r \<in> set ?rows" for r using left that by (simp add: rows_ok_def)
  have xcheck: "item_check x" using rows x by (simp add: rows_ok_def)
  have other: "i_position r \<noteq> i_position x" if "r \<in> set ?rows" "i_session r = s" for r
  proof -
    have "follows r x \<or> follows x r"
      using rows_ok_total [OF rows _ x(1)] nox [OF that(1)] by blast
    with that x(2) show ?thesis by (auto simp: follows_def)
  qed
  have c1: "item_check (?f r)" if "r \<in> set ?rows" "?P r" for r
    using checks [OF that(1)] xcheck that(2) by (auto simp: item_check_def)
  have c2: "follows (?u r) (?f r')"
    if "r \<in> set ?rows" "r' \<in> set ?rows" "?P r'" "follows r r'" for r r'
    using that other [OF that(1)] by (auto simp: follows_def stays_def)
  have c3: "follows (?f r) r'" if "r \<in> set ?rows" "r' \<in> set ?rows" "?P r" "follows r r'" for r r'
    using that by (auto simp: follows_def)
  have upd: "update_rows ?P ?f [] ?rows = Inr (length (filter ?P ?rows), map ?u ?rows)"
    by (rule update_rows_ok(1) [OF left c1 c2 c3])
  have sorted: "rows_ok (map ?u ?rows)"
    by (rule update_rows_ok(2) [OF left c1 c2 c3])
  let ?d = "d\<lparr>db_items := map ?u ?rows\<rparr>"
  have gone: "shift_down s (i_position x) now (sql_delete_items d D) = Inr ?d"
    by (simp add: shift_down_def sql_update_items_def sql_delete_items_def upd)
  have items: "session_items ?d s' = map ?u (filter (\<lambda>r. r \<noteq> x) (session_items d s'))" for s'
  proof -
    have "filter (\<lambda>r. i_session r = s') (map ?u (filter (\<lambda>r. \<not> D r) zs))
        = map ?u (filter (\<lambda>r. r \<noteq> x) (filter (\<lambda>r. i_session r = s') zs))" if "set zs \<subseteq> set (db_items d)" for zs
      using that by (induction zs) (auto simp: D stays_def)
    then show ?thesis by (simp add: session_items_def)
  qed
  have "x \<notin> set (xs @ ys)"
  proof -
    have "rows_ok (xs @ x # ys)" using rows_ok_filter [OF rows] pos by (metis session_items_def)
    then show ?thesis by (auto simp: rows_ok_def sorted_wrt_append follows_def)
  qed
  then have here: "session_items ?d s = map ?u (xs @ ys)"
  proof -
    assume "x \<notin> set (xs @ ys)"
    then have "filter (\<lambda>r. r \<noteq> x) xs = xs" "filter (\<lambda>r. r \<noteq> x) ys = ys" by (auto simp: filter_id_conv)
    then show ?thesis unfolding items pos by simp
  qed
  have nums: "map i_position (session_items ?d s) = map int [0..<length (session_items ?d s)]"
  proof -
    have "?u r = (if i_position x < i_position r then ?f r else r)" if "r \<in> set (xs @ ys)" for r
    proof -
      have "r \<in> set (session_items d s)" using that pos by auto
      then have "i_session r = s" by (simp add: session_items_def)
      then show ?thesis by (simp add: stays_def)
    qed
    then have "session_items ?d s = map (\<lambda>r. if i_position x < i_position r then ?f r else r) (xs @ ys)"
      unfolding here by (intro map_cong) auto
    then show ?thesis using close_gap [OF num [unfolded pos]] by simp
  qed
  have others: "session_items ?d s' = session_items d s'" if "s' \<noteq> s" for s'
  proof -
    have "r \<noteq> x \<and> ?u r = r" if "r \<in> set (session_items d s')" for r
      using that x(2) \<open>s' \<noteq> s\<close> by (auto simp: session_items_def stays_def)
    then show ?thesis unfolding items by (simp add: map_idI filter_True)
  qed
  have lanes: "map lane_item (session_items ?d s) = map lane_item (xs @ ys)"
    unfolding here by (simp add: lane_item_def stays_def)
  have heads: "head_token (session_items ?d s) = head_token (xs @ ys)"
    unfolding here by (cases "xs @ ys") (simp_all add: head_token_def stays_def)
  show ?thesis
  proof (intro exI conjI)
    show "shift_down s (i_position x) now (sql_delete_items d D) = Inr ?d" by (rule gone)
    show "rows_ok (db_items ?d)" using sorted by simp
    show "map lane_item (session_items ?d s) = map lane_item (xs @ ys)" by (rule lanes)
    show "map i_position (session_items ?d s) = map int [0..<length (session_items ?d s)]" by (rule nums)
    show "head_token (session_items ?d s) = head_token (xs @ ys)" by (rule heads)
    show "\<forall>s'. s' \<noteq> s \<longrightarrow> session_items ?d s' = session_items d s'" using others by blast
  qed (simp_all add: find_queue_def fun_eq_iff)
qed

end
