(* ===== verification/Queue_Effects.thy ===== *)
theory Queue_Effects
  imports Queue_Steps
begin

text \<open>
  What each transaction of the repository does to the lane of its session, on success and on
  each of its errors.
\<close>

lemma steps_to_refl: "db_ok d \<Longrightarrow> steps_to d s (lane d s) d"
  by (simp add: steps_to_def)

lemma steps_to_ok: "steps_to d s l d' \<Longrightarrow> db_ok d'"
  by (simp add: steps_to_def)

lemma steps_to_trans: "steps_to d s l d1 \<Longrightarrow> steps_to d1 s l' d2 \<Longrightarrow> steps_to d s l' d2"
  by (simp add: steps_to_def)

lemma ensure_queue_steps: "db_ok d \<Longrightarrow> steps_to d s (lane d s) (ensure_queue s now d)"
  by (simp add: steps_to_def ensure_queue_ok)

lemma db_ok_rows: "db_ok d \<Longrightarrow> rows_ok (db_items d)"
  by (simp add: db_ok_def)

lemma db_ok_queues: "db_ok d \<Longrightarrow> queues_ok (db_queues d)"
  by (simp add: db_ok_def)

lemma db_ok_session: "db_ok d \<Longrightarrow> session_ok (find_queue d s) (session_items d s)"
  by (simp add: db_ok_def)

section \<open>Settings and snapshots\<close>

lemma set_enabled_effect:
  assumes "db_ok d"
  shows "\<exists>r d'. repo_set_global_enabled b now d = Inr (r, d') \<and> db_ok d' \<and> lane d' = lane d
    \<and> db_runtime d' = Some r \<and> qr_enabled r = b"
  using assms
  by (auto simp: repo_set_global_enabled_def Let_def read_runtime_def db_ok_def find_queue_def
      session_items_def lane_def fun_eq_iff)

lemma snapshot_effect:
  assumes "db_ok d"
  shows "\<exists>snap d'. repo_snapshot s d = Inr (snap, d') \<and> steps_to d s (lane d s) d'
    \<and> qs_items snap = fetch_items d s"
proof -
  obtain q where "find_queue (ensure_queue s 0 d) s = Some q" using ensured by blast
  from read_snapshot_ok [OF ensure_queue_ok [OF assms] this] assms ensure_queue_steps [OF assms, of s 0]
  show ?thesis by (auto simp: repo_snapshot_def fetch_items_def)
qed

text \<open>The tail of most operations: bump the revision and read the snapshot.\<close>

lemma bump_and_read:
  assumes "steps_to d s l d1" and "find_queue d1 s \<noteq> None"
  shows "\<exists>snap d'. res_bind (bump_queue_revision s now d1) (with_snapshot s) = Inr (snap, d')
    \<and> steps_to d s l d'"
proof -
  obtain d2 where d2: "bump_queue_revision s now d1 = Inr d2" "steps_to d1 s (lane d1 s) d2"
      "find_queue d2 s \<noteq> None"
    using bump_ok [OF steps_to_ok [OF assms(1)], of s now] assms(2) by blast
  then obtain q where "find_queue d2 s = Some q" by blast
  from read_snapshot_ok [OF steps_to_ok [OF d2(2)] this] obtain snap where
    "with_snapshot s d2 = Inr (snap, d2)" by blast
  moreover have "steps_to d s l d2"
    using assms(1) d2(2) by (simp add: steps_to_def)
  ultimately show ?thesis using d2(1) by simp
qed

lemma set_flag_effect:
  assumes "db_ok d" and "\<And>b q. q_session (f b q) = q_session q" "\<And>b q. q_token (f b q) = q_token q"
    and "\<And>b q. queue_check q \<Longrightarrow> queue_check ((f b q)\<lparr>q_updated_at := now\<rparr>)" and "find_queue d s \<noteq> None"
  shows "\<exists>d'. set_flag s now f v d = Inr d' \<and> steps_to d s (lane d s) d' \<and> find_queue d' s \<noteq> None"
proof (cases v)
  case None
  with assms show ?thesis by (simp add: set_flag_def steps_to_refl)
next
  case (Some b)
  from touch_queue [OF assms(1), of "\<lambda>q. (f b q)\<lparr>q_updated_at := now\<rparr>" "\<lambda>q. q_session q = s" s] assms
  show ?thesis by (auto simp: set_flag_def Some)
qed

lemma update_control_effect:
  assumes "db_ok d"
  shows "case patch_validate patch of
      Inl e \<Rightarrow> repo_update_control s patch now d = Inl e
    | Inr _ \<Rightarrow> \<exists>snap d'. repo_update_control s patch now d = Inr (snap, d') \<and> steps_to d s (lane d s) d'"
proof (cases "patch_validate patch")
  case (Inl e)
  then show ?thesis by (simp add: repo_update_control_def)
next
  case (Inr u)
  let ?d = "ensure_queue s now d"
  have base: "db_ok ?d" "find_queue ?d s \<noteq> None"
    using ensure_queue_ok [OF assms] ensured [of s now d] by auto
  obtain d1 where d1: "set_flag s now (\<lambda>b q. q\<lparr>q_paused := b\<rparr>) (cp_paused patch) ?d = Inr d1"
      "steps_to ?d s (lane ?d s) d1" "find_queue d1 s \<noteq> None"
    using set_flag_effect [OF base(1), of "\<lambda>b q. q\<lparr>q_paused := b\<rparr>" now s "cp_paused patch"] base(2)
    by (auto simp: queue_check_def)
  obtain d2 where d2: "set_flag s now (\<lambda>b q. q\<lparr>q_unattended := b\<rparr>) (cp_unattended patch) d1 = Inr d2"
      "steps_to d1 s (lane d1 s) d2" "find_queue d2 s \<noteq> None"
    using set_flag_effect [OF steps_to_ok [OF d1(2)], of "\<lambda>b q. q\<lparr>q_unattended := b\<rparr>" now s "cp_unattended patch"] d1(3)
    by (auto simp: queue_check_def)
  have "steps_to d s (lane d s) d2" using d1(2) d2(2) by (simp add: steps_to_def)
  from bump_and_read [OF this d2(3)] Inr d1(1) d2(1)
  show ?thesis by (simp add: repo_update_control_def)
qed

lemma set_status_effect:
  assumes "db_ok d" and "st \<notin> {Disabled, Paused}"
  shows "\<exists>snap d'. repo_set_runtime_status s st reason now d = Inr (snap, d') \<and> steps_to d s (lane d s) d'"
proof -
  let ?d = "ensure_queue s now d"
  let ?P = "\<lambda>q. q_session q = s \<and> q_token q = None \<and> (q_state q \<noteq> st \<or> q_reason q \<noteq> reason)"
  let ?f = "\<lambda>q. q\<lparr>q_state := st, q_reason := reason, q_revision := q_revision q + 1, q_updated_at := now\<rparr>"
  have base: "db_ok ?d" "find_queue ?d s \<noteq> None"
    using ensure_queue_ok [OF assms(1)] ensured [of s now d] by auto
  have "queue_check (?f q)" if "queue_check q" for q
    using that assms(2) by (simp add: queue_check_def)
  then obtain n d1 where d1: "sql_update_queues ?d ?P ?f = Inr (n, d1)" "steps_to ?d s (lane ?d s) d1"
      "find_queue d1 s \<noteq> None"
    using touch_queue [OF base(1), of ?f ?P s] base(2) by auto
  then obtain q where "find_queue d1 s = Some q" by blast
  from read_snapshot_ok [OF steps_to_ok [OF d1(2)] this] obtain snap where
    "with_snapshot s d1 = Inr (snap, d1)" by blast
  moreover have "steps_to d s (lane d s) d1" using d1(2) by (simp add: steps_to_def)
  ultimately show ?thesis using d1(1) assms(1) by (simp add: repo_set_runtime_status_def)
qed

section \<open>Adding\<close>

lemma foldl_max_sorted: "foldl max (a::int) (map int [k..<n]) = (if k < n then max a (int n - 1) else a)"
  by (induction n) (auto simp: max_def)

lemma next_position_eq:
  assumes "map i_position rows = map int [0..<length rows]"
  shows "next_position rows = int (length rows)"
proof (cases rows)
  case Nil
  then show ?thesis by (simp add: next_position_def)
next
  case (Cons r rs)
  then have "map i_position rows = 0 # map int [1..<length rows]"
    unfolding assms using Cons upt_conv_Cons [of 0 "length rows"] by (simp del: upt_Suc)
  then have "next_position rows = foldl max 0 (map int [1..<length rows]) + 1"
    by (simp add: next_position_def)
  also have "\<dots> = int (length rows)"
    unfolding foldl_max_sorted by (simp add: Cons)
  finally show ?thesis .
qed

lemma add_item_effect:
  assumes ok: "db_ok d"
  shows "case draft_validated draft of
      Inl e \<Rightarrow> repo_add_item uuid s draft now d = Inl e
    | Inr dr \<Rightarrow>
        if 100 \<le> length (lane d s)
        then repo_add_item uuid s draft now d
          = Inl (Coded ''QUEUE_FULL'' ''Task queue cannot contain more than 100 active items'')
        else if uuid \<in> i_id ` set (db_items d) then repo_add_item uuid s draft now d = Inl DbConstraint
        else \<exists>snap d'. repo_add_item uuid s draft now d = Inr (snap, d')
          \<and> steps_to d s (lane d s @ [(uuid, dr_text dr, dr_images dr, Queued, None)]) d'"
proof (cases "draft_validated draft")
  case (Inl e)
  then show ?thesis by (simp add: repo_add_item_def)
next
  case (Inr dr)
  let ?d = "ensure_queue s now d"
  let ?rows = "session_items d s"
  note sess = db_ok_session [OF ok, of s]
  define row where "row = \<lparr>i_id = uuid, i_session = s,
          i_position = next_position (session_items ?d s), i_text = dr_text dr,
          i_images = dr_images dr, i_state = Queued, i_token = None, i_error_code = None,
          i_error_message = None, i_created_at = now, i_updated_at = now\<rparr>"
  have pos: "i_position row = int (length ?rows)"
    using sess next_position_eq [of ?rows] by (simp add: row_def session_ok_def)
  have le: "i_position r < int (length ?rows)" if "r \<in> set (db_items d)" "i_session r = s" for r
  proof -
    have "r \<in> set ?rows" using that by (simp add: session_items_def)
    then obtain i where "i < length ?rows" "?rows ! i = r" by (auto simp: in_set_conv_nth)
    with sess show ?thesis unfolding session_ok_def positions_nth by auto
  qed
  have check: "item_check row" using pos by (simp add: item_check_def row_def)
  have queue: "list_ex (\<lambda>q. q_session q = s) (db_queues ?d)"
    using ensured [of s now d] find_queue_Some by (auto simp: list_ex_iff)
  show ?thesis
  proof (cases "100 \<le> length (lane d s)")
    case True
    with Inr ok show ?thesis by (simp add: repo_add_item_def lane_def)
  next
    case False
    show ?thesis
    proof (cases "uuid \<in> i_id ` set (db_items d)")
      case True
      then have "list_ex (item_conflict row) (db_items ?d)"
        by (auto simp: list_ex_iff item_conflict_def row_def)
      then have "sql_insert_item ?d row = Inl DbConstraint" by (simp add: sql_insert_item_def)
      with True False Inr ok show ?thesis
        by (simp add: repo_add_item_def lane_def row_def)
    next
      case fresh: False
      have "\<not> item_conflict row r" if "r \<in> set (db_items d)" for r
        using that fresh le [of r] pos by (auto simp: item_conflict_def row_def)
      then have "\<not> list_ex (item_conflict row) (db_items ?d)" by (simp add: list_ex_iff)
      then have ins: "sql_insert_item ?d row = Inr (?d\<lparr>db_items := db_items ?d @ [row]\<rparr>)"
        using check queue by (simp add: sql_insert_item_def row_def)
      let ?e = "?d\<lparr>db_items := db_items ?d @ [row]\<rparr>"
      have items: "session_items ?e s' = session_items d s' @ (if s' = s then [row] else [])" for s'
        by (simp add: session_items_def row_def)
      have "follows r row" if "r \<in> set (db_items d)" for r
        using that fresh le [of r] pos by (auto simp: follows_def row_def)
      then have "rows_ok (db_items ?e)"
        using db_ok_rows [OF ok] check by (auto simp: rows_ok_def sorted_wrt_append)
      moreover have "find_queue ?e = find_queue ?d" by (simp add: find_queue_def fun_eq_iff)
      moreover have "session_ok (find_queue ?d s) (?rows @ [row])"
      proof -
        obtain q where q: "find_queue ?d s = Some q" using ensured by blast
        have base: "session_ok (Some q) ?rows" using db_ok_session [OF ensure_queue_ok [OF ok, of s now], of s] q by simp
        with False pos q show ?thesis
          by (auto simp: session_ok_def lane_def head_token_def row_def split: list.split)
      qed
      ultimately have "steps_to ?d s (lane ?e s) ?e"
        using ensure_queue_ok [OF ok, of s now] items by (intro db_ok_local) (auto simp: db_ok_def)
      then have st: "steps_to d s (lane d s @ [(uuid, dr_text dr, dr_images dr, Queued, None)]) ?e"
        using items [of s] by (simp add: steps_to_def lane_def lane_item_def row_def)
      have "find_queue ?e s \<noteq> None" using ensured [of s now d] \<open>find_queue ?e = find_queue ?d\<close> by simp
      from bump_and_read [OF st this] fresh False Inr ok ins
      show ?thesis by (simp add: repo_add_item_def lane_def row_def)
    qed
  qed
qed

section \<open>Removing\<close>

lemma lane_ids: "map fst (lane d s) = map i_id (session_items d s)"
  by (simp add: lane_def lane_item_def comp_def)

lemma find_item_session: "find_item d s item_id = find (\<lambda>r. i_id r = item_id) (session_items d s)"
proof -
  have "find (\<lambda>r. i_session r = s \<and> i_id r = item_id) xs
      = find (\<lambda>r. i_id r = item_id) (filter (\<lambda>r. i_session r = s) xs)" for xs
    by (induction xs) auto
  then show ?thesis by (simp add: find_item_def session_items_def)
qed

lemma lane_remove:
  assumes "rows_ok (xs @ x # ys)"
  shows "map lane_item (xs @ ys) = filter (\<lambda>l. fst l \<noteq> i_id x) (map lane_item (xs @ x # ys))"
proof -
  have "\<forall>r \<in> set (xs @ ys). i_id r \<noteq> i_id x"
    using assms by (auto simp: rows_ok_def sorted_wrt_append follows_def)
  then show ?thesis by (simp add: filter_map comp_def lane_item_def filter_id_conv)
qed

text \<open>Removing an item that carries no token; the queue row is left alone.\<close>

lemma remove_waiting:
  assumes ok: "db_ok d" and x: "x \<in> set (session_items d s)" "i_state x \<noteq> Dispatching"
  shows "\<exists>d'. shift_down s (i_position x) now (sql_delete_items d (\<lambda>r. i_session r = s \<and> i_id r = i_id x)) = Inr d'
    \<and> steps_to d s (filter (\<lambda>l. fst l \<noteq> i_id x) (lane d s)) d' \<and> find_queue d' = find_queue d"
proof -
  note rows = db_ok_rows [OF ok] and sess = db_ok_session [OF ok, of s]
  obtain xs ys where pos: "session_items d s = xs @ x # ys" using x(1) by (meson split_list)
  have ordered: "rows_ok (xs @ x # ys)" using rows_ok_filter [OF rows] pos by (metis session_items_def)
  have xin: "x \<in> set (db_items d)" "i_session x = s" using x(1) by (auto simp: session_items_def)
  have only: "i_session r = s \<and> i_id r = i_id x \<longleftrightarrow> r = x" if "r \<in> set (db_items d)" for r
    using rows_ok_unique [OF rows that xin(1)] xin(2) by blast
  have num: "map i_position (session_items d s) = map int [0..<length (session_items d s)]"
    using sess by (simp add: session_ok_def)
  obtain d' where d': "shift_down s (i_position x) now (sql_delete_items d (\<lambda>r. i_session r = s \<and> i_id r = i_id x)) = Inr d'"
      "rows_ok (db_items d')" "map lane_item (session_items d' s) = map lane_item (xs @ ys)"
      "map i_position (session_items d' s) = map int [0..<length (session_items d' s)]"
      "head_token (session_items d' s) = head_token (xs @ ys)"
      "\<forall>s'. s' \<noteq> s \<longrightarrow> session_items d' s' = session_items d s'"
      "db_queues d' = db_queues d" "db_runtime d' = db_runtime d" "find_queue d' = find_queue d"
    using remove_item [of d s xs x ys "\<lambda>r. i_session r = s \<and> i_id r = i_id x" now, OF rows pos num only] by blast
  have "i_token x = None" using rows xin x(2) by (auto simp: rows_ok_def item_check_def)
  have "head_token (xs @ ys) = head_token (session_items d s)"
  proof (cases xs)
    case Nil
    then show ?thesis
      using \<open>i_token x = None\<close> session_split(4) [OF rows, of s x ys] pos
      by (simp add: head_token_def split: list.split)
  next
    case (Cons a as)
    then show ?thesis by (simp add: pos head_token_def)
  qed
  moreover have "length (session_items d' s) \<le> 100"
    using d'(3) sess pos by (auto simp: session_ok_def dest: arg_cong [where f = length])
  moreover have "session_items d s \<noteq> []" using pos by simp
  ultimately have "session_ok (find_queue d' s) (session_items d' s)"
    using sess d'(4,5,9) by (auto simp: session_ok_def split: option.splits)
  then have "steps_to d s (lane d' s) d'"
    using ok d' by (intro db_ok_local) (auto simp: db_ok_def)
  moreover have "lane d' s = filter (\<lambda>l. fst l \<noteq> i_id x) (lane d s)"
    using d'(3) lane_remove [OF ordered] by (simp add: lane_def pos)
  ultimately show ?thesis using d'(1,9) by auto
qed

text \<open>What deleting an item answers, and what it leaves.\<close>

lemma delete_item_effect:
  assumes ok: "db_ok d"
  shows "case find (\<lambda>l. fst l = item_id) (lane d s) of
      None \<Rightarrow> repo_delete_item s item_id now d = Inl (Coded ''QUEUE_ITEM_NOT_FOUND'' ''Task queue item not found'')
    | Some (i, t, im, st, tok) \<Rightarrow>
        if st = Dispatching
        then repo_delete_item s item_id now d = Inl (Coded ''QUEUE_ITEM_INVALID'' ''A dispatching task cannot be cancelled'')
        else \<exists>snap d'. repo_delete_item s item_id now d = Inr (snap, d')
          \<and> steps_to d s (filter (\<lambda>l. fst l \<noteq> item_id) (lane d s)) d'"
proof -
  let ?d = "ensure_queue s now d"
  have find_lane: "find (\<lambda>l. fst l = item_id) (lane d s) = map_option lane_item (find_item d s item_id)"
  proof -
    have "find (\<lambda>l. fst l = item_id) (map lane_item xs) = map_option lane_item (find (\<lambda>r. i_id r = item_id) xs)" for xs
      by (induction xs) (auto simp: lane_item_def)
    then show ?thesis by (simp add: lane_def find_item_session)
  qed
  show ?thesis
  proof (cases "find_item d s item_id")
    case None
    then show ?thesis unfolding find_lane by (simp add: repo_delete_item_def Let_def)
  next
    case (Some x)
    then have x: "x \<in> set (session_items d s)" "i_id x = item_id"
      by (auto simp: find_item_session find_Some_iff)
    show ?thesis
    proof (cases "i_state x = Dispatching")
      case True
      with Some show ?thesis unfolding find_lane by (simp add: repo_delete_item_def Let_def lane_item_def)
    next
      case False
      from remove_waiting [OF ensure_queue_ok [OF ok, of s now], of x s now] x False
      obtain d1 where d1: "shift_down s (i_position x) now (sql_delete_items ?d (\<lambda>r. i_session r = s \<and> i_id r = item_id)) = Inr d1"
          "steps_to ?d s (filter (\<lambda>l. fst l \<noteq> item_id) (lane d s)) d1" "find_queue d1 = find_queue ?d"
        by auto
      have st: "steps_to d s (filter (\<lambda>l. fst l \<noteq> item_id) (lane d s)) d1"
        using d1(2) by (simp add: steps_to_def)
      have "find_queue d1 s \<noteq> None" using d1(3) ensured [of s now d] by simp
      from bump_and_read [OF st this] d1(1) Some False
      show ?thesis unfolding find_lane by (simp add: repo_delete_item_def Let_def lane_item_def)
    qed
  qed
qed

lemma filter_state_head:
  assumes rows: "rows_ok (db_items d)" and "session_items d s = r # rs"
  shows "filter (\<lambda>x. i_state x = Dispatching) rs = []"
  using session_split(4) [OF assms] by (auto simp: filter_empty_conv)

lemma clear_queue_effect:
  assumes ok: "db_ok d"
  shows "\<exists>snap d'. repo_clear_queue s now d = Inr (snap, d')
    \<and> steps_to d s (filter (\<lambda>(i, t, im, st, tok). st = Dispatching) (lane d s)) d'"
proof -
  let ?d = "ensure_queue s now d"
  let ?D = "\<lambda>r. i_session r = s \<and> i_state r \<noteq> Dispatching"
  let ?e = "sql_delete_items ?d ?D"
  let ?P = "\<lambda>q. q_session q = s \<and> q_token q = None"
  let ?f = "release_queue now Running None"
  note rows = db_ok_rows [OF ok] and sess = db_ok_session [OF ok, of s]
  have items: "session_items ?e s' = (if s' = s then filter (\<lambda>x. i_state x = Dispatching) (session_items d s)
      else session_items d s')" for s'
    by (auto simp: sql_delete_items_def session_items_def filter_filter intro!: filter_cong)
  have queues: "find_queue ?e = find_queue ?d" "db_queues ?e = db_queues ?d" "db_runtime ?e = db_runtime d"
    by (simp_all add: sql_delete_items_def find_queue_def fun_eq_iff)
  have kept: "filter (\<lambda>x. i_state x = Dispatching) (session_items d s)
      = (case session_items d s of [] \<Rightarrow> [] | r # rs \<Rightarrow> if i_state r = Dispatching then [r] else [])"
    using filter_state_head [OF rows] by (simp split: list.split)
  have checks: "\<forall>r \<in> set (session_items d s). item_check r"
    using rows by (simp add: rows_ok_def session_items_def)
  obtain q where q: "find_queue ?d s = Some q" using ensured by blast
  have base: "session_ok (Some q) (session_items d s)"
    using db_ok_session [OF ensure_queue_ok [OF ok, of s now], of s] q by simp
  have "i_position r = 0" if "session_items d s = r # rs" for r rs
  proof -
    have "\<forall>i < length (session_items d s). i_position (session_items d s ! i) = int i"
      using base by (simp add: session_ok_def positions_nth)
    from spec [OF this, of 0] that show ?thesis by simp
  qed
  then have "session_ok (Some q) (session_items ?e s)"
    using base checks unfolding items kept
    by (cases "session_items d s") (auto simp: session_ok_def head_token_def item_check_def)
  moreover have "rows_ok (db_items ?e)" using rows_ok_filter [OF rows] by (simp add: sql_delete_items_def)
  ultimately have "steps_to ?d s (lane ?e s) ?e"
    using ensure_queue_ok [OF ok, of s now] items queues q
    by (intro db_ok_local) (auto simp: db_ok_def)
  then have st: "steps_to d s (lane ?e s) ?e" by (simp add: steps_to_def)
  have lane: "lane ?e s = filter (\<lambda>(i, t, im, st, tok). st = Dispatching) (lane d s)"
    unfolding lane_def items by (simp add: filter_map comp_def lane_item_def)
  obtain n d1 where d1: "sql_update_queues ?e ?P ?f = Inr (n, d1)" "steps_to ?e s (lane ?e s) d1"
      "find_queue d1 s \<noteq> None"
    using touch_queue [OF steps_to_ok [OF st], of ?f ?P s] queues(1) q
    by (auto simp: release_queue_def queue_check_def)
  then obtain q' where "find_queue d1 s = Some q'" by blast
  from read_snapshot_ok [OF steps_to_ok [OF d1(2)] this] obtain snap where
    "with_snapshot s d1 = Inr (snap, d1)" by blast
  moreover have "steps_to d s (lane ?e s) d1" using st d1(2) by (simp add: steps_to_def)
  ultimately show ?thesis using d1(1) lane by (simp add: repo_clear_queue_def Let_def)
qed

end
