(* ===== verification/Queue_Claims.thy ===== *)
theory Queue_Claims
  imports Queue_Effects
begin

text \<open>
  The effect of the transactions that touch the head of a lane: claim, complete, return, fail,
  mark as unknown, retry, recover. The permission decisions.
\<close>

section \<open>Updating the head and its queue\<close>

lemma find_unique:
  assumes "y \<in> set xs" and "P y" and "\<And>x. x \<in> set xs \<Longrightarrow> P x \<Longrightarrow> x = y"
  shows "find P xs = Some y"
proof (cases "find P xs")
  case None
  with assms(1,2) show ?thesis by (simp add: find_None_iff)
next
  case (Some x)
  then have "x \<in> set xs" "P x" by (auto simp: find_Some_iff)
  with assms(3) Some show ?thesis by simp
qed

lemma update_rows_none: "\<forall>r \<in> set rows. \<not> P r \<Longrightarrow> update_rows P f seen rows = Inr (0, seen @ rows)"
  by (induction rows arbitrary: seen) simp_all

lemma sql_update_none: "\<forall>r \<in> set (db_items d). \<not> P r \<Longrightarrow> sql_update_items d P f = Inr (0, d)"
  by (simp add: sql_update_items_def update_rows_none)

lemma head_update:
  assumes ok: "db_ok d" and head: "session_items d s = r # rs"
    and P: "P r" "\<And>x. x \<in> set (db_items d) \<Longrightarrow> P x \<Longrightarrow> x = r"
    and f: "i_id (f r) = i_id r" "i_session (f r) = s" "i_position (f r) = i_position r" "item_check (f r)"
    and q: "find_queue d s = Some q" and Q: "Q q" "\<And>q. Q q \<Longrightarrow> q_session q = s"
    and g: "\<And>q. q_session (g q) = q_session q" "queue_check (g q)" "q_token (g q) = i_token (f r)"
  shows "\<exists>d1 d2. sql_update_items d P f = Inr (1, d1) \<and> sql_update_queues d1 Q g = Inr (1, d2)
    \<and> steps_to d s (lane_item (f r) # map lane_item rs) d2 \<and> find_queue d2 s = Some (g q)"
proof -
  obtain d1 where d1: "sql_update_items d P f = Inr (1, d1)" "rows_ok (db_items d1)"
      "session_items d1 s = f r # rs" "\<forall>s'. s' \<noteq> s \<longrightarrow> session_items d1 s' = session_items d s'"
      "db_queues d1 = db_queues d" "db_runtime d1 = db_runtime d" "find_queue d1 = find_queue d"
    using set_head [OF db_ok_rows [OF ok] head, of P f, OF P f] by blast
  obtain d2 where d2: "sql_update_queues d1 Q g = Inr (1, d2)" "queues_ok (db_queues d2)"
      "find_queue d2 s = Some (g q)" "\<forall>s'. s' \<noteq> s \<longrightarrow> find_queue d2 s' = find_queue d1 s'"
      "db_items d2 = db_items d1" "db_runtime d2 = db_runtime d1"
    using set_queue [of d1 s q Q g] db_ok_queues [OF ok] d1(5,7) q Q g by auto
  have items: "session_items d2 = session_items d1" using d2(5) by (simp add: session_items_def fun_eq_iff)
  have "session_ok (find_queue d2 s) (session_items d2 s)"
    using db_ok_session [OF ok, of s] head q g f d1(3) d2(3) items
    by (simp add: session_ok_def head_token_def)
  then have "steps_to d s (lane d2 s) d2"
    using ok d1 d2 items by (intro db_ok_local) (auto simp: db_ok_def)
  then have "steps_to d s (lane_item (f r) # map lane_item rs) d2"
    using d1(3) items by (simp add: lane_def)
  with d1(1) d2(1,3) show ?thesis by blast
qed

lemma ensure_queue_found: "find_queue d s \<noteq> None \<Longrightarrow> ensure_queue s now d = d"
  by (simp add: ensure_queue_def)

lemma head_queue:
  assumes "db_ok d" and "session_items d s = r # rs"
  obtains q where "find_queue d s = Some q" "q_token q = i_token r" "queue_check q"
proof -
  obtain q where q: "find_queue d s = Some q" using db_ok_items [OF assms(1), of s] assms(2) by auto
  with db_ok_queue [OF assms(1) q] assms(2) that show thesis by (simp add: head_token_def)
qed

lemma head_only:
  assumes "db_ok d" "session_items d s = r # rs" "x \<in> set (db_items d)" "i_session x = s" "i_state x \<noteq> Queued"
  shows "x = r"
  using busy_is_head [OF db_ok_rows [OF assms(1)] assms(3-5)] assms(2) by (metis list.sel(1))

section \<open>Retrying\<close>

lemma retry_item_effect:
  assumes ok: "db_ok d"
  shows "if \<exists>l \<in> set (lane d s). (case l of (i, t, im, st, tok) \<Rightarrow> i = item_id \<and> (st = Failed \<or> st = DeliveryUnknown))
    then \<exists>snap d' t im st tok rest. repo_retry_item s item_id now d = Inr (snap, d')
      \<and> lane d s = (item_id, t, im, st, tok) # rest
      \<and> steps_to d s ((item_id, t, im, Queued, None) # rest) d'
    else repo_retry_item s item_id now d = Inl (if item_id \<in> fst ` set (lane d s)
      then Coded ''QUEUE_ITEM_INVALID'' ''Only failed or unknown tasks can be retried''
      else Coded ''QUEUE_ITEM_NOT_FOUND'' ''Task queue item not found'')"
proof -
  let ?P = "\<lambda>r. i_session r = s \<and> i_id r = item_id \<and> (i_state r = Failed \<or> i_state r = DeliveryUnknown)"
  let ?f = "\<lambda>r. r\<lparr>i_state := Queued, i_token := None, i_error_code := None, i_error_message := None,
                 i_updated_at := now\<rparr>"
  have lane: "(\<exists>l \<in> set (lane d s). (case l of (i, t, im, st, tok) \<Rightarrow> i = item_id \<and> (st = Failed \<or> st = DeliveryUnknown)))
      \<longleftrightarrow> (\<exists>r \<in> set (db_items d). ?P r)"
    by (auto simp: lane_def lane_item_def session_items_def)
  show ?thesis
  proof (cases "\<exists>r \<in> set (db_items d). ?P r")
    case False
    then have "sql_update_items (ensure_queue s now d) ?P ?f = Inr (0, ensure_queue s now d)"
      by (intro sql_update_none) simp
    moreover have "find_item d s item_id \<noteq> None \<longleftrightarrow> item_id \<in> fst ` set (lane d s)"
      unfolding find_item_session by (auto simp: lane_def lane_item_def find_None_iff image_iff)
    ultimately show ?thesis using False unfolding lane by (auto simp: repo_retry_item_def Let_def)
  next
    case True
    then obtain r where r: "r \<in> set (db_items d)" "?P r" by blast
    then have busy: "i_state r \<noteq> Queued" by auto
    obtain rs where head: "session_items d s = r # rs"
      using busy_is_head [OF db_ok_rows [OF ok] r(1) _ busy] r(2) by blast
    obtain q where q: "find_queue d s = Some q" "queue_check q" using head_queue [OF ok head] by blast
    have only: "x = r" if "x \<in> set (db_items d)" "?P x" for x
      using head_only [OF ok head that(1)] that(2) by auto
    have check: "item_check (?f r)"
      using session_split(3) [OF db_ok_rows [OF ok] head] by (simp add: item_check_def)
    obtain d1 d2 where d: "sql_update_items d ?P ?f = Inr (1, d1)"
        "sql_update_queues d1 (\<lambda>q. q_session q = s) (release_queue now Running None) = Inr (1, d2)"
        "steps_to d s (lane_item (?f r) # map lane_item rs) d2" "find_queue d2 s \<noteq> None"
      using head_update [OF ok head, of ?P ?f q "\<lambda>q. q_session q = s" "release_queue now Running None"]
        r(2) only check q find_queue_Some [OF q(1)]
      by (auto simp: release_queue_def queue_check_def)
    from d(4) obtain q2 where "find_queue d2 s = Some q2" by blast
    from read_snapshot_ok [OF steps_to_ok [OF d(3)] this]
    obtain snap where "with_snapshot s d2 = Inr (snap, d2)" by blast
    then have "repo_retry_item s item_id now d = Inr (snap, d2)"
      using d(1,2) q(1) by (simp add: repo_retry_item_def Let_def ensure_queue_found)
    moreover have "lane d s = (item_id, i_text r, i_images r, i_state r, i_token r) # map lane_item rs"
      using r(2) by (simp add: lane_def head lane_item_def)
    moreover have "steps_to d s ((item_id, i_text r, i_images r, Queued, None) # map lane_item rs) d2"
      using d(3) r(2) by (simp add: lane_item_def)
    ultimately show ?thesis using True unfolding lane by auto
  qed
qed

section \<open>Claims\<close>

lemma sorted_positions:
  "map i_position rows = map int [0..<length rows] \<Longrightarrow> order_by i_position rows = rows"
proof -
  assume "map i_position rows = map int [0..<length rows]"
  then have "sorted (map i_position rows)" by (simp add: sorted_iff_nth_mono)
  then show ?thesis by (rule order_by_id)
qed

lemma fetch_items_eq: "db_ok d \<Longrightarrow> fetch_items d s = map parse_raw_item (session_items d s)"
  using db_ok_session [of d s] by (simp add: fetch_items_def session_ok_def sorted_positions)

text \<open>When a claim succeeds.\<close>

definition claimable :: "db \<Rightarrow> string \<Rightarrow> int \<Rightarrow> bool" where
  "claimable d s generation \<longleftrightarrow>
    (case db_runtime d of Some r \<Rightarrow> qr_enabled r \<and> qr_generation r = generation | None \<Rightarrow> False)
    \<and> (case find_queue d s of Some q \<Rightarrow> \<not> q_paused q | None \<Rightarrow> False)
    \<and> (case lane d s of (i, t, im, st, tok) # _ \<Rightarrow> st = Queued | [] \<Rightarrow> False)"

lemma claim_next_effect:
  assumes ok: "db_ok d"
  shows "if claimable d s generation
    then \<exists>claim d' i t im rest. repo_claim_next uuid s generation now d = Inr (Some claim, d')
      \<and> lane d s = (i, t, im, Queued, None) # rest
      \<and> steps_to d s ((i, t, im, Dispatching, Some uuid) # rest) d'
      \<and> qc_token claim = uuid \<and> qc_generation claim = generation
      \<and> ti_id (qc_item claim) = i \<and> ti_text (qc_item claim) = t \<and> ti_images (qc_item claim) = im
      \<and> ti_session (qc_item claim) = s
    else repo_claim_next uuid s generation now d = Inr (None, d)"
proof -
  obtain run where run: "db_runtime d = Some run" using ok by (auto simp: db_ok_def)
  have fetch: "fetch_head d s = (case session_items d s of [] \<Rightarrow> None | r # _ \<Rightarrow> Some (parse_raw_item r))"
    by (simp add: fetch_head_def fetch_items_eq [OF ok] split: list.split)
  show ?thesis
  proof (cases "claimable d s generation")
    case False
    have head: "q_token q = head_token (session_items d s)" if "find_queue d s = Some q" for q
      using db_ok_queue [OF ok that] by simp
    have checks: "item_check r" if "session_items d s = r # rs" for r rs
      by (rule session_split(3) [OF db_ok_rows [OF ok] that])
    from False run head checks show ?thesis
      by (auto simp: repo_claim_next_def claimable_def read_runtime_def fetch lane_def lane_item_def
          parse_raw_item_def split: option.split list.split)
  next
    case True
    then obtain r rs where head: "session_items d s = r # rs" and queued: "i_state r = Queued"
      by (auto simp: claimable_def lane_def lane_item_def split: list.splits)
    obtain q where q: "find_queue d s = Some q" "q_token q = i_token r" "queue_check q"
      using head_queue [OF ok head] by blast
    note split = session_split [OF db_ok_rows [OF ok] head]
    have token: "i_token r = None" using split(3) queued by (auto simp: item_check_def)
    let ?P = "\<lambda>x. i_session x = s \<and> i_id x = i_id r \<and> i_state x = Queued \<and> i_token x = None"
    let ?f = "\<lambda>r. r\<lparr>i_state := Dispatching, i_token := Some uuid, i_updated_at := now\<rparr>"
    let ?g = "\<lambda>q. q\<lparr>q_state := QDispatching, q_reason := None, q_token := Some uuid,
        q_started_at := Some now, q_revision := q_revision q + 1, q_updated_at := now\<rparr>"
    have only: "x = r" if "x \<in> set (db_items d)" "?P x" for x
      using rows_ok_unique [OF db_ok_rows [OF ok] that(1) split(1)] that(2) by blast
    have "item_check (?f r)" using split(3) by (simp add: item_check_def)
    then obtain d1 d2 where d: "sql_update_items d ?P ?f = Inr (1, d1)"
        "sql_update_queues d1 (\<lambda>q. q_session q = s \<and> q_token q = None) ?g = Inr (1, d2)"
        "steps_to d s (lane_item (?f r) # map lane_item rs) d2"
      using head_update [OF ok head, of ?P ?f q "\<lambda>q. q_session q = s \<and> q_token q = None" ?g]
        queued token only split(2) q find_queue_Some [OF q(1)]
      by (auto simp: queue_check_def)
    have "repo_claim_next uuid s generation now d
        = Inr (Some \<lparr>qc_token = uuid, qc_generation = generation,
            qc_item = (parse_raw_item r)\<lparr>ti_state := Dispatching\<rparr>\<rparr>, d2)"
      using True run q token head queued d(1,2)
      by (simp add: repo_claim_next_def claimable_def read_runtime_def fetch parse_raw_item_def)
    moreover have "lane d s = (i_id r, i_text r, i_images r, Queued, None) # map lane_item rs"
      using queued token by (simp add: lane_def head lane_item_def)
    moreover have "steps_to d s ((i_id r, i_text r, i_images r, Dispatching, Some uuid) # map lane_item rs) d2"
      using d(3) by (simp add: lane_item_def)
    ultimately show ?thesis using True split(2)
      by (auto intro!: exI simp: parse_raw_item_def)
  qed
qed

text \<open>The head carries this claim.\<close>

definition held :: "db \<Rightarrow> string \<Rightarrow> string \<Rightarrow> string \<Rightarrow> bool" where
  "held d s item_id token \<longleftrightarrow>
    (case lane d s of (i, t, im, st, tok) # _ \<Rightarrow> i = item_id \<and> st = Dispatching \<and> tok = Some token
     | [] \<Rightarrow> False)"

lemma claimed_iff:
  assumes ok: "db_ok d" and x: "x \<in> set (db_items d)"
  shows "claimed_by d s item_id token x \<longleftrightarrow>
    (\<exists>rs. session_items d s = x # rs) \<and> i_id x = item_id \<and> i_state x = Dispatching \<and> i_token x = Some token"
    (is "?A \<longleftrightarrow> ?B")
proof
  assume a: ?A
  then obtain rs where "session_items d s = x # rs"
    using busy_is_head [OF db_ok_rows [OF ok] x, of s] by (auto simp: claimed_by_def)
  with a show ?B by (auto simp: claimed_by_def)
next
  assume b: ?B
  then obtain rs where head: "session_items d s = x # rs" by blast
  obtain q where q: "find_queue d s = Some q" "q_token q = i_token x" using head_queue [OF ok head] by blast
  have "i_session x = s" using session_split(2) [OF db_ok_rows [OF ok] head] .
  with b q find_queue_Some [OF q(1)] show ?A by (auto simp: claimed_by_def list_ex_iff)
qed

lemma held_row:
  assumes "held d s item_id token"
  obtains r rs where "session_items d s = r # rs" "i_id r = item_id" "i_state r = Dispatching"
    "i_token r = Some token" "lane d s = (item_id, i_text r, i_images r, Dispatching, Some token) # map lane_item rs"
  using assms by (cases "session_items d s") (auto simp: held_def lane_def lane_item_def)

lemma not_held:
  assumes "db_ok d" and "\<not> held d s item_id token"
  shows "\<forall>x \<in> set (db_items d). \<not> claimed_by d s item_id token x"
proof (intro ballI notI)
  fix x assume x: "x \<in> set (db_items d)" "claimed_by d s item_id token x"
  with claimed_iff [OF assms(1) x(1)] assms(2) show False
    by (auto simp: held_def lane_def lane_item_def)
qed

lemma complete_claim_effect:
  assumes ok: "db_ok d"
  shows "if held d s item_id token
    then \<exists>d'. repo_complete_claim s item_id token now d = Inr (True, d') \<and> steps_to d s (tl (lane d s)) d'
    else repo_complete_claim s item_id token now d = Inr (False, d)"
proof (cases "held d s item_id token")
  case False
  have "find (claimed_by d s item_id token) (db_items d) = None"
    using not_held [OF ok False] by (simp add: find_None_iff)
  with False show ?thesis by (simp add: repo_complete_claim_def)
next
  case True
  then obtain r rs where head: "session_items d s = r # rs" and r: "i_id r = item_id"
      "i_state r = Dispatching" "i_token r = Some token"
      and lane: "lane d s = (item_id, i_text r, i_images r, Dispatching, Some token) # map lane_item rs"
    by (rule held_row)
  note rows = db_ok_rows [OF ok] and split = session_split [OF db_ok_rows [OF ok] head]
  have only: "x = r" if "x \<in> set (db_items d)" "i_session x = s" "i_state x = Dispatching" for x
    using head_only [OF ok head that(1,2)] that(3) by simp
  have found: "find (claimed_by d s item_id token) (db_items d) = Some r"
  proof -
    have yes: "claimed_by d s item_id token r" using claimed_iff [OF ok split(1)] head r by simp
    have "x = r" if "x \<in> set (db_items d)" "claimed_by d s item_id token x" for x
      using only [OF that(1)] that(2) by (simp add: claimed_by_def)
    with yes split(1) show ?thesis by (intro find_unique)
  qed
  let ?D = "\<lambda>x. i_session x = s \<and> i_id x = item_id \<and> i_state x = Dispatching \<and> i_token x = Some token"
  have D: "?D x \<longleftrightarrow> x = r" if "x \<in> set (db_items d)" for x
    using only [OF that] r split(2) by auto
  have num: "map i_position (session_items d s) = map int [0..<length (session_items d s)]"
    using db_ok_session [OF ok, of s] by (simp add: session_ok_def)
  have pos: "session_items d s = [] @ r # rs" using head by simp
  obtain d1 where d1: "shift_down s (i_position r) now (sql_delete_items d ?D) = Inr d1"
      "rows_ok (db_items d1)" "map lane_item (session_items d1 s) = map lane_item ([] @ rs)"
      "map i_position (session_items d1 s) = map int [0..<length (session_items d1 s)]"
      "head_token (session_items d1 s) = head_token ([] @ rs)"
      "\<forall>s'. s' \<noteq> s \<longrightarrow> session_items d1 s' = session_items d s'"
      "db_queues d1 = db_queues d" "db_runtime d1 = db_runtime d" "find_queue d1 = find_queue d"
    using remove_item [of d s "[]" r rs ?D now, OF rows pos num D] by blast
  obtain q where q: "find_queue d s = Some q" "q_token q = i_token r" "queue_check q"
    using head_queue [OF ok head] by blast
  let ?Q = "\<lambda>q. q_session q = s \<and> q_token q = Some token"
  obtain d2 where d2: "sql_update_queues d1 ?Q (release_queue now Running None) = Inr (1, d2)"
      "queues_ok (db_queues d2)" "find_queue d2 s = Some (release_queue now Running None q)"
      "\<forall>s'. s' \<noteq> s \<longrightarrow> find_queue d2 s' = find_queue d1 s'" "db_items d2 = db_items d1"
      "db_runtime d2 = db_runtime d1"
    using set_queue [of d1 s q ?Q "release_queue now Running None"] db_ok_queues [OF ok] d1(7,9) q r(3)
      find_queue_Some [OF q(1)]
    by (auto simp: release_queue_def queue_check_def)
  have items: "session_items d2 = session_items d1" using d2(5) by (simp add: session_items_def fun_eq_iff)
  have len: "length (session_items d1 s) = length rs" using d1(3) by (metis append_Nil length_map)
  have "head_token rs = None" using split(4) by (cases rs) (simp_all add: head_token_def)
  then have "session_ok (find_queue d2 s) (session_items d2 s)"
    using db_ok_session [OF ok, of s] head d1(4,5) d2(3) items len
    by (simp add: session_ok_def release_queue_def)
  then have "steps_to d s (lane d2 s) d2"
    using ok d1 d2 items by (intro db_ok_local) (auto simp: db_ok_def)
  then have "steps_to d s (tl (lane d s)) d2"
    using d1(3) items lane by (simp add: lane_def)
  with True found d1(1) d2(1) show ?thesis by (simp add: repo_complete_claim_def Let_def)
qed

lemma finish_claim_effect:
  assumes ok: "db_ok d" and st: "st \<noteq> Dispatching"
  shows "if held d s item_id token
    then \<exists>d' t im tok rest. repo_finish_claim s item_id token st code msg now d = Inr (True, d')
      \<and> lane d s = (item_id, t, im, Dispatching, tok) # rest \<and> steps_to d s ((item_id, t, im, st, None) # rest) d'
    else repo_finish_claim s item_id token st code msg now d = Inr (False, d)"
proof (cases "held d s item_id token")
  case False
  then show ?thesis using sql_update_none [OF not_held [OF ok False]] by (simp add: repo_finish_claim_def)
next
  case True
  then obtain r rs where head: "session_items d s = r # rs" and r: "i_id r = item_id"
      "i_state r = Dispatching" "i_token r = Some token"
      and lane: "lane d s = (item_id, i_text r, i_images r, Dispatching, Some token) # map lane_item rs"
    by (rule held_row)
  note split = session_split [OF db_ok_rows [OF ok] head]
  obtain q where q: "find_queue d s = Some q" "q_token q = i_token r" "queue_check q"
    using head_queue [OF ok head] by blast
  let ?f = "\<lambda>r. r\<lparr>i_state := st, i_token := None, i_error_code := code, i_error_message := msg,
                i_updated_at := now\<rparr>"
  let ?g = "release_queue now (finish_queue_state st) (finish_reason st)"
  have yes: "claimed_by d s item_id token r" using claimed_iff [OF ok split(1)] head r by simp
  have only: "x = r" if "x \<in> set (db_items d)" "claimed_by d s item_id token x" for x
    using head_only [OF ok head that(1)] that(2) by (simp add: claimed_by_def)
  have check: "item_check (?f r)" using split(3) st by (simp add: item_check_def)
  obtain d1 d2 where d: "sql_update_items d (claimed_by d s item_id token) ?f = Inr (1, d1)"
      "sql_update_queues d1 (\<lambda>q. q_session q = s \<and> q_token q = Some token) ?g = Inr (1, d2)"
      "steps_to d s (lane_item (?f r) # map lane_item rs) d2"
    using head_update [OF ok head, of "claimed_by d s item_id token" ?f q
        "\<lambda>q. q_session q = s \<and> q_token q = Some token" ?g]
      yes only check split(2) q r find_queue_Some [OF q(1)] st
    by (cases st) (auto simp: release_queue_def queue_check_def)
  then have "repo_finish_claim s item_id token st code msg now d = Inr (True, d2)"
    by (simp add: repo_finish_claim_def)
  moreover have "steps_to d s ((item_id, i_text r, i_images r, st, None) # map lane_item rs) d2"
    using d(3) r(1) by (simp add: lane_item_def)
  ultimately show ?thesis using True lane by auto
qed

section \<open>Recovering\<close>

text \<open>What recovery makes of an item.\<close>

fun recovered :: "lane_item \<Rightarrow> lane_item" where
  "recovered (i, t, im, st, tok) =
    (if st = Dispatching then (i, t, im, DeliveryUnknown, None) else (i, t, im, st, tok))"

lemma recover_effect:
  assumes ok: "db_ok d"
  shows "\<exists>n d'. repo_recover_inflight now d = Inr (n, d') \<and> db_ok d'
    \<and> (\<forall>s. lane d' s = map recovered (lane d s))"
proof -
  let ?Q = "\<lambda>q. q_token q \<noteq> None \<or> list_ex (\<lambda>i. i_session i = q_session q \<and> i_state i = Dispatching) (db_items d)"
  let ?g = "release_queue now ActionRequired (Some DeliveryUnknownR)"
  let ?P = "\<lambda>r. i_state r = Dispatching"
  let ?f = "\<lambda>r. r\<lparr>i_state := DeliveryUnknown, i_token := None, i_error_code := Some ''DELIVERY_UNKNOWN'',
                i_error_message := Some ''Dispatch was interrupted before acknowledgement'',
                i_updated_at := now\<rparr>"
  let ?u = "stays ?P ?f"
  note rows = db_ok_rows [OF ok]
  have g: "q_session (?g q) = q_session q" "queue_check q \<Longrightarrow> queue_check (?g q)" for q
    by (simp_all add: release_queue_def queue_check_def)
  let ?d1 = "d\<lparr>db_queues := map (\<lambda>q. if ?Q q then ?g q else q) (db_queues d)\<rparr>"
  have qs: "queue_check q" if "q \<in> set (db_queues d)" for q
    using db_ok_queues [OF ok] that by (simp add: queues_ok_def)
  have upd1: "sql_update_queues d ?Q ?g = Inr (length (filter ?Q (db_queues d)), ?d1)"
    by (rule update_queues_ok [OF db_ok_queues [OF ok] g(1)]) (use g(2) qs in blast)
  have queues1: "queues_ok (db_queues ?d1)"
    using queues_ok_update [OF db_ok_queues [OF ok] g(1), of ?Q] g(2) qs by simp
  have find1: "find_queue ?d1 s = map_option (\<lambda>q. if ?Q q then ?g q else q) (find_queue d s)" for s
    by (rule find_queue_update) (rule g)
  have c1: "item_check (?f r)" if "r \<in> set (db_items d)" "?P r" for r
    using rows that by (simp add: rows_ok_def item_check_def)
  have c2: "follows (?u r) (?f r')"
    if "r \<in> set (db_items d)" "r' \<in> set (db_items d)" "?P r'" "follows r r'" for r r'
    using that by (auto simp: follows_def stays_def)
  have c3: "follows (?f r) r'" if "r \<in> set (db_items d)" "r' \<in> set (db_items d)" "?P r" "follows r r'" for r r'
    using that by (auto simp: follows_def)
  have upd: "update_rows ?P ?f [] (db_items d) = Inr (length (filter ?P (db_items d)), map ?u (db_items d))"
    by (rule update_rows_ok(1) [OF rows c1 c2 c3])
  have sorted: "rows_ok (map ?u (db_items d))"
    by (rule update_rows_ok(2) [OF rows c1 c2 c3])
  let ?d2 = "?d1\<lparr>db_items := map ?u (db_items d)\<rparr>"
  have run: "repo_recover_inflight now d = Inr (length (filter ?P (db_items d)), ?d2)"
    unfolding repo_recover_inflight_def upd1 sql_update_items_def by (simp add: upd)
  have items: "session_items ?d2 s = map ?u (session_items d s)" for s
  proof -
    have "filter (\<lambda>x. i_session x = s) (map ?u xs) = map ?u (filter (\<lambda>x. i_session x = s) xs)" for xs
      by (induction xs) (auto simp: stays_def)
    then show ?thesis by (simp add: session_items_def)
  qed
  have find2: "find_queue ?d2 s = find_queue ?d1 s" for s by (simp add: find_queue_def)
  have "session_ok (find_queue ?d2 s) (session_items ?d2 s)" for s
  proof (cases "session_items d s")
    case Nil
    have "session_ok (find_queue d s) (session_items d s)" by (rule db_ok_session [OF ok])
    with Nil show ?thesis unfolding find2 find1 items
      by (auto simp: session_ok_def head_token_def release_queue_def split: option.split)
  next
    case (Cons r rs)
    note split = session_split [OF rows Cons]
    obtain q where q: "find_queue d s = Some q" "q_token q = i_token r" using head_queue [OF ok Cons] by blast
    have "q_session q = s" using find_queue_Some [OF q(1)] by simp
    then have "?Q q \<longleftrightarrow> i_state r = Dispatching"
      using split(1-3,5) q(2) session_split(4) [OF rows Cons]
      by (auto simp: item_check_def list_ex_iff)
    moreover obtain rows' where rows': "map ?u (session_items d s) = rows'" by blast
    moreover have "head_token rows' = None"
      using split(3) rows' [symmetric] by (simp add: Cons head_token_def stays_def item_check_def)
    moreover have "map i_position rows' = map i_position (session_items d s)" "length rows' = length (session_items d s)"
      using rows' [symmetric] by (simp_all add: stays_def)
    ultimately show ?thesis
      using db_ok_session [OF ok, of s] q split(3) unfolding find2 find1 items rows'
      by (auto simp: session_ok_def release_queue_def item_check_def)
  qed
  then have "db_ok ?d2" using ok queues1 sorted by (simp add: db_ok_def)
  moreover have "lane ?d2 s = map recovered (lane d s)" for s
    unfolding lane_def items by (simp add: lane_item_def stays_def)
  ultimately show ?thesis using run by blast
qed

section \<open>Permission decisions\<close>

lemma decisions_lane:
  "lane (d\<lparr>db_decisions := ds\<rparr>) = lane d" "db_ok (d\<lparr>db_decisions := ds\<rparr>) = db_ok d"
  by (simp_all add: lane_def session_items_def db_ok_def find_queue_def fun_eq_iff)

lemma upsert_effect:
  assumes "db_ok d" and "find_queue d s \<noteq> None"
  shows "\<exists>r d'. upsert_permission_decision s tool_use fp now d = Inr (r, d') \<and> db_ok d' \<and> lane d' = lane d"
proof -
  have "list_ex (\<lambda>q. q_session q = s) (db_queues d)"
    using assms(2) find_queue_Some by (auto simp: list_ex_iff)
  with assms(1) show ?thesis
    by (auto simp: upsert_permission_decision_def decisions_lane split: option.split)
qed

lemma record_effect:
  assumes "db_ok d"
  shows "case validate_permission_decision_key tool_use fp of
      Inl e \<Rightarrow> repo_record_permission_decision s tool_use fp now d = Inl e
    | Inr _ \<Rightarrow> \<exists>r d'. repo_record_permission_decision s tool_use fp now d = Inr (r, d') \<and> db_ok d' \<and> lane d' = lane d"
  using upsert_effect [OF ensure_queue_ok [OF assms, of s now], of s tool_use fp now] ensured [of s now d]
  by (auto simp: repo_record_permission_decision_def split: sum.split)

lemma eligible_effect:
  assumes "db_ok d"
  shows "case validate_permission_decision_key tool_use fp of
      Inl e \<Rightarrow> repo_record_if_eligible s tool_use fp now d = Inl e
    | Inr _ \<Rightarrow> \<exists>r d'. repo_record_if_eligible s tool_use fp now d = Inr (r, d') \<and> db_ok d' \<and> lane d' = lane d"
proof -
  have "find_queue d s \<noteq> None" if elig: "decision_eligible s d"
  proof -
    obtain q where q: "q \<in> set (db_queues d)" "q_session q = s"
      using elig by (auto simp: decision_eligible_def list_ex_iff)
    then show ?thesis using find_queue_unique [OF db_ok_queues [OF assms] q(1)] by simp
  qed
  then show ?thesis
    using upsert_effect [OF assms, of s tool_use fp now] assms
    by (auto simp: repo_record_if_eligible_def split: sum.split)
qed

end
