(* ===== verification/Queue_Props.thy ===== *)
theory Queue_Props
  imports Queue_Claims Machines
begin

text \<open>
  The task queue as its clients see it: the tables stay consistent, every transaction acts on
  an abstract first-in first-out lane, a claimed task is protected, stale claims are harmless,
  the errors are the documented ones, a permission decision is never reversed.
\<close>

section \<open>The abstract lane\<close>

definition map_head :: "('a \<Rightarrow> 'a) \<Rightarrow> 'a list \<Rightarrow> 'a list" where
  "map_head f l = (case l of [] \<Rightarrow> [] | x # xs \<Rightarrow> f x # xs)"

lemma map_head_simps [simp]: "map_head f [] = []" "map_head f (x # xs) = f x # xs"
  by (simp_all add: map_head_def)

fun set_state :: "item_state \<Rightarrow> string option \<Rightarrow> lane_item \<Rightarrow> lane_item" where
  "set_state st tok (i, t, im, _, _) = (i, t, im, st, tok)"

text \<open>What an accepted operation does to the lane of a session.\<close>

fun lane_after :: "queue_op \<Rightarrow> string \<Rightarrow> lane_item list \<Rightarrow> lane_item list" where
  "lane_after (AddItem uuid s draft now) s' l =
    (if s' = s then l @ [(uuid, trim (dr_text draft), dr_images draft, Queued, None)] else l)"
| "lane_after (DeleteItem s i now) s' l = (if s' = s then filter (\<lambda>x. fst x \<noteq> i) l else l)"
| "lane_after (ClearQueue s now) s' l =
    (if s' = s then filter (\<lambda>(i, t, im, st, tok). st = Dispatching) l else l)"
| "lane_after (RetryItem s i now) s' l = (if s' = s then map_head (set_state Queued None) l else l)"
| "lane_after (ClaimNext uuid s g now) s' l =
    (if s' = s then map_head (set_state Dispatching (Some uuid)) l else l)"
| "lane_after (CompleteClaim s i tok now) s' l = (if s' = s then tl l else l)"
| "lane_after (ReturnClaim s i tok now) s' l = (if s' = s then map_head (set_state Queued None) l else l)"
| "lane_after (FailClaim s i tok c m now) s' l = (if s' = s then map_head (set_state Failed None) l else l)"
| "lane_after (MarkUnknown s i tok m now) s' l =
    (if s' = s then map_head (set_state DeliveryUnknown None) l else l)"
| "lane_after (RecoverInflight now) s' l = map recovered l"
| "lane_after _ s' l = l"

definition succeeded :: "'a tx \<Rightarrow> bool" where
  "succeeded x = (case x of Inr _ \<Rightarrow> True | Inl _ \<Rightarrow> False)"

text \<open>An operation is accepted if it succeeds and, where its result says so, took effect.\<close>

fun accepted :: "db \<Rightarrow> queue_op \<Rightarrow> bool" where
  "accepted d (AddItem uuid s draft now) = succeeded (repo_add_item uuid s draft now d)"
| "accepted d (DeleteItem s i now) = succeeded (repo_delete_item s i now d)"
| "accepted d (ClearQueue s now) = succeeded (repo_clear_queue s now d)"
| "accepted d (RetryItem s i now) = succeeded (repo_retry_item s i now d)"
| "accepted d (ClaimNext uuid s g now) =
    (case repo_claim_next uuid s g now d of Inr (Some _, _) \<Rightarrow> True | _ \<Rightarrow> False)"
| "accepted d (CompleteClaim s i tok now) = (result_of (repo_complete_claim s i tok now d) = Inr True)"
| "accepted d (ReturnClaim s i tok now) = (result_of (repo_return_claim s i tok now d) = Inr True)"
| "accepted d (FailClaim s i tok c m now) = (result_of (repo_fail_claim s i tok c m now d) = Inr True)"
| "accepted d (MarkUnknown s i tok m now) =
    (result_of (repo_mark_delivery_unknown s i tok m now d) = Inr True)"
| "accepted d _ = True"

definition acts_as :: "db \<Rightarrow> queue_op \<Rightarrow> bool" where
  "acts_as d op \<longleftrightarrow> db_ok (queue_exec d op)
    \<and> (\<forall>s. lane (queue_exec d op) s = (if accepted d op then lane_after op s (lane d s) else lane d s))"

lemmas exec_simps = acts_as_def after_def succeeded_def result_of_def steps_to_def

lemma acts_add: "db_ok d \<Longrightarrow> acts_as d (AddItem uuid s draft now)"
  using add_item_effect [of d, where draft = draft and uuid = uuid and s = s and now = now]
  by (cases "draft_validated draft")
     (auto simp: exec_simps draft_validated_def Let_def split: if_splits)

lemma acts_delete: "db_ok d \<Longrightarrow> acts_as d (DeleteItem s i now)"
  using delete_item_effect [of d, where item_id = i and s = s and now = now]
  by (cases "find (\<lambda>l. fst l = i) (lane d s)") (auto simp: exec_simps split: if_splits)

lemma acts_clear: "db_ok d \<Longrightarrow> acts_as d (ClearQueue s now)"
  using clear_queue_effect [of d, where s = s and now = now] by (auto simp: exec_simps)

lemma acts_retry: "db_ok d \<Longrightarrow> acts_as d (RetryItem s i now)"
  using retry_item_effect [of d, where s = s and item_id = i and now = now] by (auto simp: exec_simps split: if_splits)

lemma acts_claim: "db_ok d \<Longrightarrow> acts_as d (ClaimNext uuid s g now)"
  using claim_next_effect [of d, where s = s and generation = g and uuid = uuid and now = now] by (auto simp: exec_simps split: if_splits)

lemma acts_complete: "db_ok d \<Longrightarrow> acts_as d (CompleteClaim s i tok now)"
  using complete_claim_effect [of d, where s = s and item_id = i and token = tok and now = now] by (auto simp: exec_simps split: if_splits)

lemma acts_finish:
  assumes "db_ok d"
  shows "acts_as d (ReturnClaim s i tok now)" "acts_as d (FailClaim s i tok c m now)"
    "acts_as d (MarkUnknown s i tok m now)"
  using finish_claim_effect [OF assms, where st = Queued and s = s and item_id = i and token = tok and code = None and msg = None and now = now]
    finish_claim_effect [OF assms, where st = Failed and s = s and item_id = i and token = tok and code = "Some c" and msg = "Some m" and now = now]
    finish_claim_effect [OF assms, where st = DeliveryUnknown and s = s and item_id = i and token = tok and code = "Some ''DELIVERY_UNKNOWN''" and msg = "Some m" and now = now] assms
  by (auto simp: exec_simps repo_return_claim_def repo_fail_claim_def repo_mark_delivery_unknown_def
      split: if_splits)

lemma acts_other:
  assumes "db_ok d"
  shows "acts_as d (SetEnabled b now)" "acts_as d (Snapshot s)" "acts_as d (UpdateControl s p now)"
    "acts_as d (RecoverInflight now)" "acts_as d (RecordDecision s tu fp now)" "acts_as d (RecordIfEligible s tu fp now)"
  using set_enabled_effect [OF assms, of b now] snapshot_effect [OF assms, of s]
    update_control_effect [OF assms, where patch = p and s = s and now = now] recover_effect [OF assms, of now]
    record_effect [OF assms, where tool_use = tu and fp = fp and s = s and now = now] eligible_effect [OF assms, where tool_use = tu and fp = fp and s = s and now = now] assms
  by (auto simp: exec_simps split: sum.splits)

lemma update_status_error:
  assumes "db_ok d"
  shows "acts_as d (SetStatus s st r now)"
proof (cases "st \<in> {Disabled, Paused}")
  case False
  with set_status_effect [OF assms, where st = st and s = s and reason = r and now = now] show ?thesis by (auto simp: exec_simps)
next
  case True
  let ?d = "ensure_queue s now d"
  let ?P = "\<lambda>q. q_session q = s \<and> q_token q = None \<and> (q_state q \<noteq> st \<or> q_reason q \<noteq> r)"
  let ?f = "\<lambda>q. q\<lparr>q_state := st, q_reason := r, q_revision := q_revision q + 1, q_updated_at := now\<rparr>"
  have bad: "\<not> queue_check (?f q)" for q using True by (auto simp: queue_check_def)
  show ?thesis
  proof (cases "sql_update_queues ?d ?P ?f")
    case (Inl e)
    then have "repo_set_runtime_status s st r now d = Inl e"
      using assms by (simp add: repo_set_runtime_status_def)
    with assms show ?thesis by (simp add: exec_simps)
  next
    case (Inr x)
    then have none: "\<forall>q \<in> set (db_queues ?d). \<not> ?P q"
      using bad by (auto simp: sql_update_queues_def list_all_iff split: if_splits)
    then have "map (\<lambda>q. if ?P q then ?f q else q) (db_queues ?d) = db_queues ?d"
      by (intro map_idI) auto
    then have upd: "sql_update_queues ?d ?P ?f = Inr (length (filter ?P (db_queues ?d)), ?d)"
      using none by (auto simp: sql_update_queues_def list_all_iff)
    obtain q where "find_queue ?d s = Some q" using ensured by blast
    from read_snapshot_ok [OF ensure_queue_ok [OF assms] this]
    obtain snap where "with_snapshot s ?d = Inr (snap, ?d)" by blast
    then have "repo_set_runtime_status s st r now d = Inr (snap, ?d)"
      using assms upd unfolding repo_set_runtime_status_def ensure_runtime_id [OF assms] Let_def upd by simp
    then show ?thesis using ensure_queue_ok [OF assms, of s now] by (simp add: exec_simps)
  qed
qed

lemma exec_acts: "db_ok d \<Longrightarrow> acts_as d op"
  by (cases op) (simp_all only: acts_add acts_delete acts_clear acts_retry acts_claim acts_complete
      acts_finish acts_other update_status_error)

interpretation queue: inv_machine queue_exec db_ok
  by unfold_locales (use exec_acts in \<open>auto simp: acts_as_def\<close>)

definition queue_run :: "int \<Rightarrow> queue_op list \<Rightarrow> db" where
  "queue_run start ops = foldl queue_exec (db_init start) ops"

lemma queue_run_ok: "db_ok (queue_run start ops)"
  unfolding queue_run_def by (rule queue.fold_good) (rule db_init_ok)

section \<open>A sample run\<close>

text \<open>One task of one session, added and claimed: used where a concrete state is needed.\<close>

lemmas queue_eval = repo_add_item_def repo_claim_next_def ensure_runtime_def ensure_queue_def find_queue_def
  session_items_def next_position_def sql_insert_item_def item_check_def item_conflict_def
  bump_queue_revision_def sql_update_queues_def queue_check_def new_queue_def with_snapshot_def
  read_snapshot_def read_runtime_def fetch_items_def order_by_def fetch_head_def parse_raw_item_def
  sql_update_items_def db_init_def after_def Let_def

definition sample_draft :: item_draft where
  "sample_draft = \<lparr>dr_text = ''x'', dr_images = []\<rparr>"

lemma sample_draft_valid: "draft_validated sample_draft = Inr sample_draft"
proof -
  have "trim ''x'' = ''x''" by code_simp
  then show ?thesis
    by (simp add: sample_draft_def draft_validated_def TASK_QUEUE_MAX_TEXT_BYTES_def TASK_QUEUE_MAX_IMAGE_REFS_def)
qed

lemma sample_added: "queue_exec (db_init 0) (AddItem ''a'' ''s'' sample_draft 1) =
  \<lparr>db_runtime = Some \<lparr>qr_enabled = True, qr_generation = 0, qr_updated_at = 0\<rparr>,
   db_queues = [\<lparr>q_session = ''s'', q_paused = False, q_unattended = False, q_state = Running, q_reason = None,
     q_revision = 1, q_token = None, q_started_at = None, q_created_at = 1, q_updated_at = 1\<rparr>],
   db_items = [\<lparr>i_id = ''a'', i_session = ''s'', i_position = 0, i_text = ''x'', i_images = [], i_state = Queued,
     i_token = None, i_error_code = None, i_error_message = None, i_created_at = 1, i_updated_at = 1\<rparr>],
   db_decisions = []\<rparr>"
  by (simp add: queue_eval sample_draft_valid) (simp add: sample_draft_def)

lemma sample_claimed:
  "lane (queue_run 0 [AddItem ''a'' ''s'' sample_draft 1, ClaimNext ''t'' ''s'' 0 2]) ''s''
    = [(''a'', ''x'', [], Dispatching, Some ''t'')]"
  unfolding queue_run_def foldl.simps sample_added by (simp add: queue_eval lane_def lane_item_def)

section \<open>Properties\<close>

text \<open>
  Property C12. Whatever the clients do, in any order (adding, deleting, clearing, retrying,
  pausing, claiming, completing, failing, recovering, with fresh or reused identifiers), the
  tables stay consistent: the positions of a session's tasks are exactly 0, 1, 2, and so on, there are
  at most 100 of them, every task behind the first is waiting, and the token on the queue row is
  the token on its first task, which is there exactly when that task is being dispatched.
\<close>

theorem queue_tables_consistent:
  "let d = queue_run start ops; rows = session_items d s in
    map i_position rows = map int [0..<length rows] \<and> length rows \<le> 100
    \<and> filter (\<lambda>r. \<not> (i_state r = Queued \<and> i_token r = None)) (tl rows) = []
    \<and> (case (find_queue d s, rows) of
         (Some q, r # _) \<Rightarrow> q_token q = i_token r \<and> (q_token q \<noteq> None \<longleftrightarrow> i_state r = Dispatching)
       | (Some q, []) \<Rightarrow> q_token q = None
       | (None, _) \<Rightarrow> rows = [])"
proof -
  define d where "d = queue_run start ops"
  have ok: "db_ok d" unfolding d_def by (rule queue_run_ok)
  note sess = db_ok_session [OF ok, of s]
  have split: "session_split_ok" if "session_items d s = r # rs" and
    "session_split_ok \<longleftrightarrow> item_check r \<and> (\<forall>x \<in> set rs. i_state x = Queued \<and> i_token x = None)"
    for r rs session_split_ok
    using session_split [OF db_ok_rows [OF ok] that(1)] that(2) by auto
  show ?thesis
  proof (cases "session_items d s")
    case Nil
    with sess show ?thesis
      unfolding d_def [symmetric]
      by (auto simp: Let_def session_ok_def head_token_def split: option.split)
  next
    case (Cons r rs)
    with split [OF Cons refl] sess show ?thesis
      unfolding d_def [symmetric]
      by (auto simp: Let_def session_ok_def head_token_def item_check_def filter_empty_conv split: option.splits)
  qed
qed


text \<open>The operations that may end a given claim.\<close>

fun may_release :: "string \<Rightarrow> string \<Rightarrow> string \<Rightarrow> queue_op \<Rightarrow> bool" where
  "may_release s i tok (CompleteClaim s' i' tok' now) = (s' = s \<and> i' = i \<and> tok' = tok)"
| "may_release s i tok (ReturnClaim s' i' tok' now) = (s' = s \<and> i' = i \<and> tok' = tok)"
| "may_release s i tok (FailClaim s' i' tok' c m now) = (s' = s \<and> i' = i \<and> tok' = tok)"
| "may_release s i tok (MarkUnknown s' i' tok' m now) = (s' = s \<and> i' = i \<and> tok' = tok)"
| "may_release s i tok (RecoverInflight now) = True"
| "may_release s i tok _ = False"

lemma held_lane:
  "held d s i tok \<longleftrightarrow> (\<exists>t im rest. lane d s = (i, t, im, Dispatching, Some tok) # rest)"
  by (cases "lane d s") (auto simp: held_def)

lemma held_step:
  assumes ok: "db_ok d" and lane: "lane d s = (i, t, im, Dispatching, Some tok) # rest"
    and keep: "\<not> may_release s i tok op"
  shows "\<exists>rest'. lane (queue_exec d op) s = (i, t, im, Dispatching, Some tok) # rest'"
proof -
  have acts: "lane (queue_exec d op) s = (if accepted d op then lane_after op s (lane d s) else lane d s)"
    using exec_acts [OF ok, of op] by (simp add: acts_as_def)
  have no: "\<not> held d s i' tok'" if "\<not> (i' = i \<and> tok' = tok)" for i' tok'
    using lane that by (auto simp: held_def)
  show ?thesis
  proof (cases op)
    case (DeleteItem s' j now)
    have "\<not> accepted d op" if "s' = s" "j = i"
      using delete_item_effect [OF ok, where item_id = i and s = s and now = now] lane that DeleteItem
      by (simp add: succeeded_def)
    with acts lane DeleteItem show ?thesis by (cases "s' = s"; cases "j = i") auto
  next
    case (RetryItem s' j now)
    have "\<not> accepted d op" if "s' = s"
    proof -
      have "st = Queued" if "(a, b, c, st, e) \<in> set rest" for a b c st e
      proof -
        obtain r rs where r: "session_items d s = r # rs" using lane by (cases "session_items d s") (auto simp: lane_def)
        then have "rest = map lane_item rs" using lane by (simp add: lane_def)
        with session_split(4) [OF db_ok_rows [OF ok] r] that show ?thesis by (auto simp: lane_item_def)
      qed
      then have "\<not> (\<exists>l \<in> set (lane d s). case l of (i, t, im, st, tok) \<Rightarrow> i = j \<and> (st = Failed \<or> st = DeliveryUnknown))"
        using lane by fastforce
      with retry_item_effect [OF ok, where s = s and item_id = j and now = now] that RetryItem
      show ?thesis by (simp add: succeeded_def)
    qed
    with acts lane RetryItem show ?thesis by (cases "s' = s") auto
  next
    case (ClaimNext uuid s' g now)
    have "\<not> claimable d s g" using lane by (simp add: claimable_def split: option.split)
    then have "\<not> accepted d op" if "s' = s"
      using claim_next_effect [OF ok, where s = s and generation = g and uuid = uuid and now = now] that ClaimNext
      by simp
    with acts lane ClaimNext show ?thesis by (cases "s' = s") auto
  next
    case (CompleteClaim s' j tok' now)
    with keep no have "\<not> accepted d op" if "s' = s"
      using complete_claim_effect [OF ok, where s = s and item_id = j and token = tok' and now = now] that
      by (auto simp: result_of_def)
    with acts lane CompleteClaim show ?thesis by (cases "s' = s") auto
  next
    case (ReturnClaim s' j tok' now)
    with keep no have "\<not> accepted d op" if "s' = s"
      using finish_claim_effect [OF ok, where st = Queued and s = s and item_id = j and token = tok' and code = None
          and msg = None and now = now] that
      by (auto simp: result_of_def repo_return_claim_def)
    with acts lane ReturnClaim show ?thesis by (cases "s' = s") auto
  next
    case (FailClaim s' j tok' c m now)
    with keep no have "\<not> accepted d op" if "s' = s"
      using finish_claim_effect [OF ok, where st = Failed and s = s and item_id = j and token = tok' and code = "Some c"
          and msg = "Some m" and now = now] that
      by (auto simp: result_of_def repo_fail_claim_def)
    with acts lane FailClaim show ?thesis by (cases "s' = s") auto
  next
    case (MarkUnknown s' j tok' m now)
    with keep no have "\<not> accepted d op" if "s' = s"
      using finish_claim_effect [OF ok, where st = DeliveryUnknown and s = s and item_id = j and token = tok'
          and code = "Some ''DELIVERY_UNKNOWN''" and msg = "Some m" and now = now] that
      by (auto simp: result_of_def repo_mark_delivery_unknown_def)
    with acts lane MarkUnknown show ?thesis by (cases "s' = s") auto
  next
    case (RecoverInflight now)
    with keep show ?thesis by simp
  qed (use acts lane in \<open>auto split: if_splits\<close>)
qed

lemma held_run:
  "db_ok d \<Longrightarrow> lane d s = (i, t, im, Dispatching, Some tok) # rest \<Longrightarrow> list_all (\<lambda>op. \<not> may_release s i tok op) ops \<Longrightarrow>
    \<exists>rest'. lane (foldl queue_exec d ops) s = (i, t, im, Dispatching, Some tok) # rest'"
proof (induction ops arbitrary: d rest)
  case Nil
  then show ?case by simp
next
  case (Cons op ops)
  from held_step [OF Cons.prems(1,2)] Cons.prems(3)
  obtain rest' where "lane (queue_exec d op) s = (i, t, im, Dispatching, Some tok) # rest'" by auto
  from Cons.IH [OF queue.next_good [OF Cons.prems(1)] this] Cons.prems(3) show ?case by simp
qed

text \<open>
  Property C14. A claimed task is protected: whatever other clients do, as long as nobody
  completes or finishes this very claim (same session, task and token) and nobody recovers
  interrupted dispatches, the task stays at the head of its lane with its text, its images and
  its token, and every further attempt to claim a task of the session gets nothing and changes
  nothing. So no task is dispatched twice, and no two tasks of a session at once.
\<close>

theorem claimed_task_is_protected:
  assumes "lane (queue_run start ops) s = (i, t, im, Dispatching, Some tok) # rest"
    and "list_all (\<lambda>op. \<not> may_release s i tok op) more_ops"
  shows "(\<exists>rest'. lane (queue_run start (ops @ more_ops)) s = (i, t, im, Dispatching, Some tok) # rest')
    \<and> repo_claim_next uuid s generation now (queue_run start (ops @ more_ops))
      = Inr (None, queue_run start (ops @ more_ops))"
proof
  have run: "queue_run start (ops @ more_ops) = foldl queue_exec (queue_run start ops) more_ops"
    by (simp add: queue_run_def)
  from held_run [OF queue_run_ok assms] obtain rest' where
    lane: "lane (queue_run start (ops @ more_ops)) s = (i, t, im, Dispatching, Some tok) # rest'"
    unfolding run by blast
  then show "\<exists>rest'. lane (queue_run start (ops @ more_ops)) s = (i, t, im, Dispatching, Some tok) # rest'" by blast
  have "\<not> claimable (queue_run start (ops @ more_ops)) s generation"
    using lane by (simp add: claimable_def split: option.split)
  with claim_next_effect [OF queue_run_ok, where s = s and generation = generation and uuid = uuid and now = now]
  show "repo_claim_next uuid s generation now (queue_run start (ops @ more_ops))
      = Inr (None, queue_run start (ops @ more_ops))"
    by simp
qed

theorem claimed_task_is_protected_witness:
  "(\<exists>rest'. lane (queue_run 0 ([AddItem ''a'' ''s'' sample_draft 1, ClaimNext ''t'' ''s'' 0 2]
      @ [ClearQueue ''s'' 3, DeleteItem ''s'' ''a'' 4, RetryItem ''s'' ''a'' 5, SetEnabled False 6])) ''s''
    = (''a'', ''x'', [], Dispatching, Some ''t'') # rest')
  \<and> repo_claim_next ''u'' ''s'' 0 7 (queue_run 0 ([AddItem ''a'' ''s'' sample_draft 1, ClaimNext ''t'' ''s'' 0 2]
      @ [ClearQueue ''s'' 3, DeleteItem ''s'' ''a'' 4, RetryItem ''s'' ''a'' 5, SetEnabled False 6]))
    = Inr (None, queue_run 0 ([AddItem ''a'' ''s'' sample_draft 1, ClaimNext ''t'' ''s'' 0 2]
      @ [ClearQueue ''s'' 3, DeleteItem ''s'' ''a'' 4, RetryItem ''s'' ''a'' 5, SetEnabled False 6]))"
  by (rule claimed_task_is_protected [where rest = "[]"]) (simp_all add: sample_claimed)

text \<open>
  Stale claims are harmless: on any reachable database, completing, returning,
  failing or marking a claim that the head of the lane does not carry (another task, another
  token, or nothing being dispatched) answers false and changes nothing at all.
\<close>

theorem stale_claims_change_nothing:
  "let d = queue_run start ops in
    if held d s i tok then True
    else repo_complete_claim s i tok now d = Inr (False, d)
      \<and> repo_return_claim s i tok now d = Inr (False, d)
      \<and> repo_fail_claim s i tok code msg now d = Inr (False, d)
      \<and> repo_mark_delivery_unknown s i tok msg now d = Inr (False, d)"
  using complete_claim_effect [OF queue_run_ok, of start ops s i tok now]
    finish_claim_effect [OF queue_run_ok, of _ start ops s i tok]
  by (auto simp: Let_def repo_return_claim_def repo_fail_claim_def repo_mark_delivery_unknown_def)

section \<open>Errors\<close>

definition error_of :: "'a tx \<Rightarrow> app_error option" where
  "error_of x = (case x of Inl e \<Rightarrow> Some e | Inr _ \<Rightarrow> None)"

text \<open>The error an operation returns.\<close>

fun op_error :: "db \<Rightarrow> queue_op \<Rightarrow> app_error option" where
  "op_error d (SetEnabled b now) = error_of (repo_set_global_enabled b now d)"
| "op_error d (Snapshot s) = error_of (repo_snapshot s d)"
| "op_error d (AddItem uuid s draft now) = error_of (repo_add_item uuid s draft now d)"
| "op_error d (DeleteItem s i now) = error_of (repo_delete_item s i now d)"
| "op_error d (ClearQueue s now) = error_of (repo_clear_queue s now d)"
| "op_error d (UpdateControl s p now) = error_of (repo_update_control s p now d)"
| "op_error d (RetryItem s i now) = error_of (repo_retry_item s i now d)"
| "op_error d (SetStatus s st r now) = error_of (repo_set_runtime_status s st r now d)"
| "op_error d (ClaimNext uuid s g now) = error_of (repo_claim_next uuid s g now d)"
| "op_error d (CompleteClaim s i t now) = error_of (repo_complete_claim s i t now d)"
| "op_error d (ReturnClaim s i t now) = error_of (repo_return_claim s i t now d)"
| "op_error d (FailClaim s i t c m now) = error_of (repo_fail_claim s i t c m now d)"
| "op_error d (MarkUnknown s i t m now) = error_of (repo_mark_delivery_unknown s i t m now d)"
| "op_error d (RecoverInflight now) = error_of (repo_recover_inflight now d)"
| "op_error d (RecordDecision s tu fp now) = error_of (repo_record_permission_decision s tu fp now d)"
| "op_error d (RecordIfEligible s tu fp now) = error_of (repo_record_if_eligible s tu fp now d)"

text \<open>
  The error it should return, in terms of the lanes. A runtime status of \<open>Disabled\<close> or
  \<open>Paused\<close> is refused by the table's constraint; the dispatcher never writes one.
\<close>

fun expected_error :: "db \<Rightarrow> queue_op \<Rightarrow> app_error option" where
  "expected_error d (AddItem uuid s draft now) =
    (case draft_validated draft of
       Inl e \<Rightarrow> Some e
     | Inr dr \<Rightarrow>
         if 100 \<le> length (lane d s)
         then Some (Coded ''QUEUE_FULL'' ''Task queue cannot contain more than 100 active items'')
         else if uuid \<in> i_id ` set (db_items d) then Some DbConstraint else None)"
| "expected_error d (DeleteItem s i now) =
    (case find (\<lambda>l. fst l = i) (lane d s) of
       None \<Rightarrow> Some (Coded ''QUEUE_ITEM_NOT_FOUND'' ''Task queue item not found'')
     | Some (i, t, im, st, tok) \<Rightarrow>
         if st = Dispatching
         then Some (Coded ''QUEUE_ITEM_INVALID'' ''A dispatching task cannot be cancelled'') else None)"
| "expected_error d (UpdateControl s p now) =
    (if cp_paused p = None \<and> cp_unattended p = None
     then Some (Coded ''QUEUE_ITEM_INVALID'' ''Task queue control patch is empty'') else None)"
| "expected_error d (RetryItem s i now) =
    (if \<exists>l \<in> set (lane d s). (case l of (i', t, im, st, tok) \<Rightarrow> i' = i \<and> (st = Failed \<or> st = DeliveryUnknown))
     then None
     else Some (if i \<in> fst ` set (lane d s)
                then Coded ''QUEUE_ITEM_INVALID'' ''Only failed or unknown tasks can be retried''
                else Coded ''QUEUE_ITEM_NOT_FOUND'' ''Task queue item not found''))"
| "expected_error d (SetStatus s st r now) =
    (if st \<in> {Disabled, Paused} then op_error d (SetStatus s st r now) else None)"
| "expected_error d (RecordDecision s tu fp now) =
    (if trim tu = [] \<or> trim fp = []
     then Some (Coded ''QUEUE_ITEM_INVALID'' ''Permission decisions require a tool id and fingerprint'') else None)"
| "expected_error d (RecordIfEligible s tu fp now) =
    (if trim tu = [] \<or> trim fp = []
     then Some (Coded ''QUEUE_ITEM_INVALID'' ''Permission decisions require a tool id and fingerprint'') else None)"
| "expected_error d _ = None"

lemma errors_ok:
  assumes ok: "db_ok d"
  shows "op_error d op = expected_error d op"
proof (cases op)
  case (SetEnabled b now)
  with set_enabled_effect [OF ok, of b now] show ?thesis by (auto simp: error_of_def)
next
  case (Snapshot s)
  with snapshot_effect [OF ok, of s] show ?thesis by (auto simp: error_of_def)
next
  case (AddItem uuid s draft now)
  with add_item_effect [OF ok, where uuid = uuid and s = s and draft = draft and now = now] show ?thesis
    by (auto simp: error_of_def split: sum.splits if_splits)
next
  case (DeleteItem s i now)
  with delete_item_effect [OF ok, where s = s and item_id = i and now = now] show ?thesis
    by (auto simp: error_of_def split: option.splits if_splits)
next
  case (ClearQueue s now)
  with clear_queue_effect [OF ok, where s = s and now = now] show ?thesis by (auto simp: error_of_def)
next
  case (UpdateControl s p now)
  with update_control_effect [OF ok, where s = s and patch = p and now = now] show ?thesis
    by (auto simp: error_of_def patch_validate_def split: if_splits)
next
  case (RetryItem s i now)
  with retry_item_effect [OF ok, where s = s and item_id = i and now = now] show ?thesis
    by (simp add: error_of_def split: if_splits) auto
next
  case (SetStatus s st r now)
  with set_status_effect [OF ok, where s = s and st = st and reason = r and now = now] show ?thesis
    by (auto simp: error_of_def)
next
  case (ClaimNext uuid s g now)
  with claim_next_effect [OF ok, where s = s and uuid = uuid and generation = g and now = now] show ?thesis
    by (auto simp: error_of_def split: if_splits)
next
  case (CompleteClaim s i t now)
  with complete_claim_effect [OF ok, where s = s and item_id = i and token = t and now = now] show ?thesis
    by (auto simp: error_of_def split: if_splits)
next
  case (ReturnClaim s i t now)
  with finish_claim_effect [OF ok, where st = Queued and s = s and item_id = i and token = t and code = None
      and msg = None and now = now] show ?thesis
    by (auto simp: error_of_def repo_return_claim_def split: if_splits)
next
  case (FailClaim s i t c m now)
  with finish_claim_effect [OF ok, where st = Failed and s = s and item_id = i and token = t and code = "Some c"
      and msg = "Some m" and now = now] show ?thesis
    by (auto simp: error_of_def repo_fail_claim_def split: if_splits)
next
  case (MarkUnknown s i t m now)
  with finish_claim_effect [OF ok, where st = DeliveryUnknown and s = s and item_id = i and token = t
      and code = "Some ''DELIVERY_UNKNOWN''" and msg = "Some m" and now = now] show ?thesis
    by (auto simp: error_of_def repo_mark_delivery_unknown_def split: if_splits)
next
  case (RecoverInflight now)
  with recover_effect [OF ok, of now] show ?thesis by (auto simp: error_of_def)
next
  case (RecordDecision s tu fp now)
  with record_effect [OF ok, where s = s and tool_use = tu and fp = fp and now = now] show ?thesis
    by (auto simp: error_of_def validate_permission_decision_key_def split: if_splits)
next
  case (RecordIfEligible s tu fp now)
  with eligible_effect [OF ok, where s = s and tool_use = tu and fp = fp and now = now] show ?thesis
    by (auto simp: error_of_def validate_permission_decision_key_def split: if_splits)
qed


end
