(* ===== verification/Queue_Dispatch.thy ===== *)
theory Queue_Dispatch
  imports Queue_Props Session_State
begin

text \<open>
  The task queue's service, its dispatcher and the scan of its worker
  (\<open>services/task_queue_service.rs\<close>, \<open>services/task_queue_dispatcher.rs\<close>,
  \<open>src-tauri/src/services/task_queue_worker.rs\<close>). The dispatcher runs several transactions;
  what other clients do before its \<open>n\<close>-th transaction is the argument \<open>env n\<close>. The answers of
  the terminal backend and of the file system are arguments.
\<close>

section \<open>The service\<close>

text \<open>\<open>resolve s r\<close> is the path of the staged image \<open>r\<close> of session \<open>s\<close>, or why there is none.\<close>

fun check_refs ::
    "(string \<Rightarrow> app_error + string) \<Rightarrow> string list \<Rightarrow> string list \<Rightarrow> app_error + unit" where
  "check_refs resolve seen [] = Inr ()"
| "check_refs resolve seen (r # rs) =
    (if r \<in> set seen
     then Inl (Coded ''IMAGE_REF_INVALID'' ''A staged image may appear only once in a task'')
     else res_bind (resolve r) (\<lambda>_. check_refs resolve (r # seen) rs))"

definition svc_add_item ::
    "(string \<Rightarrow> string \<Rightarrow> app_error + string) \<Rightarrow> string \<Rightarrow> string \<Rightarrow> item_draft \<Rightarrow> int \<Rightarrow> db
      \<Rightarrow> queue_snapshot tx" where
  "svc_add_item resolve uuid s draft now d =
    res_bind (draft_validated draft) (\<lambda>draft.
    res_bind (check_refs (resolve s) [] (dr_images draft)) (\<lambda>_.
    repo_add_item uuid s draft now d))"

text \<open>The images of the first item with this id.\<close>

definition images_of :: "task_item list \<Rightarrow> string \<Rightarrow> string list" where
  "images_of items item_id =
    (case find (\<lambda>it. ti_id it = item_id) items of Some it \<Rightarrow> ti_images it | None \<Rightarrow> [])"

text \<open>
  The operations of the service that remove images read the lane in a transaction of their own
  first. They return the references given to \<open>remove_images\<close> next to the result.
\<close>

definition svc_delete_item ::
    "string \<Rightarrow> string \<Rightarrow> int \<Rightarrow> db \<Rightarrow> db \<times> (app_error + queue_snapshot \<times> string list)" where
  "svc_delete_item s item_id now d =
    (case repo_snapshot s d of
       Inl e \<Rightarrow> (d, Inl e)
     | Inr (before, d1) \<Rightarrow>
         (case repo_delete_item s item_id now d1 of
            Inl e \<Rightarrow> (d1, Inl e)
          | Inr (snap, d2) \<Rightarrow> (d2, Inr (snap, images_of (qs_items before) item_id))))"

definition svc_clear_queue ::
    "string \<Rightarrow> int \<Rightarrow> db \<Rightarrow> db \<times> (app_error + queue_snapshot \<times> string list)" where
  "svc_clear_queue s now d =
    (case repo_snapshot s d of
       Inl e \<Rightarrow> (d, Inl e)
     | Inr (before, d1) \<Rightarrow>
         (case repo_clear_queue s now d1 of
            Inl e \<Rightarrow> (d1, Inl e)
          | Inr (snap, d2) \<Rightarrow>
              (let retained = concat (map ti_images (qs_items snap))
               in (d2, Inr (snap, filter (\<lambda>r. r \<notin> set retained) (concat (map ti_images (qs_items before))))))))"

definition compose_prompt :: "string list \<Rightarrow> string \<Rightarrow> string" where
  "compose_prompt paths text =
    (let image_part = join '' '' paths; text = trim text in
     if image_part \<noteq> [] \<and> text \<noteq> [] then image_part @ CHR 0x0A # text
     else if image_part \<noteq> [] then image_part
     else text)"

fun collect_paths :: "(string \<Rightarrow> app_error + string) \<Rightarrow> string list \<Rightarrow> app_error + string list" where
  "collect_paths resolve [] = Inr []"
| "collect_paths resolve (r # rs) =
    res_bind (resolve r) (\<lambda>p. res_bind (collect_paths resolve rs) (\<lambda>ps. Inr (p # ps)))"

definition effective_prompt ::
    "(string \<Rightarrow> string \<Rightarrow> app_error + string) \<Rightarrow> string \<Rightarrow> task_item \<Rightarrow> app_error + string" where
  "effective_prompt resolve s item =
    (if ti_session item \<noteq> s
     then Inl (Coded ''IMAGE_REF_INVALID'' ''Queued task belongs to another terminal session'')
     else res_bind (collect_paths (resolve s) (ti_images item)) (\<lambda>paths.
       Inr (compose_prompt paths (ti_text item))))"

text \<open>The first bytes of a staged image decide its format.\<close>

definition png_magic :: "nat list" where
  "png_magic = [0x89, 0x50, 0x4E, 0x47, 0x0D, 0x0A, 0x1A, 0x0A]"

definition detect_image_extension :: "nat list \<Rightarrow> app_error + string" where
  "detect_image_extension header =
    (if 8 \<le> length header \<and> take 8 header = png_magic then Inr ''png''
     else if 3 \<le> length header \<and> take 3 header = [0xFF, 0xD8, 0xFF] then Inr ''jpg''
     else if 12 \<le> length header \<and> take 4 header = [0x52, 0x49, 0x46, 0x46]
             \<and> take 4 (drop 8 header) = [0x57, 0x45, 0x42, 0x50] then Inr ''webp''
     else Inl (Coded ''IMAGE_REF_INVALID'' ''Image data is not PNG, JPEG, or WebP''))"

datatype unattended_decision = AllowNew | AllowExisting | NoDecision

text \<open>
  \<open>request\<close> is the tool name and the tool id of the payload, if it is a permission request of
  the CLI; \<open>status\<close> and \<open>writable\<close> are the backend's answers; \<open>fingerprint\<close> is the hash of the
  request.
\<close>

definition authorize_unattended ::
    "string \<Rightarrow> string \<Rightarrow> (string \<times> string) option \<Rightarrow> app_error + session_status option
      \<Rightarrow> app_error + bool \<Rightarrow> app_error + string \<Rightarrow> int \<Rightarrow> db \<Rightarrow> unattended_decision tx" where
  "authorize_unattended s cli_tool request status writable fingerprint now d =
    (if cli_tool \<noteq> ''claude'' then Inr (NoDecision, d)
     else
       (case request of
          None \<Rightarrow> Inr (NoDecision, d)
        | Some (tool_name, tool_use) \<Rightarrow>
            if tool_name = ''AskUserQuestion'' then Inr (NoDecision, d)
            else
              res_bind status (\<lambda>st.
              case st of
                None \<Rightarrow> Inr (NoDecision, d)
              | Some st \<Rightarrow>
                  res_bind (if is_terminal st then Inr False else writable) (\<lambda>may_write.
                  if \<not> may_write then Inr (NoDecision, d)
                  else
                    res_bind fingerprint (\<lambda>fp.
                    res_bind (repo_record_if_eligible s tool_use fp now d) (\<lambda>(rec, d').
                    Inr ((case rec of
                            Some r \<Rightarrow>
                              if dc_status r = Inserted \<and> dc_decision r = Some ''allow'' then AllowNew
                              else if dc_status r = Existing \<and> dc_decision r = Some ''allow'' then AllowExisting
                              else NoDecision
                          | None \<Rightarrow> NoDecision), d')))))))"

section \<open>The gateway\<close>

datatype readiness =
    Ready | RGlobalDisabled | RConfirmingIdle | RWaitingInput | RAutomaticWriteUnavailable
  | RSessionError | RSessionExited

datatype submit_failure = NotReady readiness | Definite app_error | SubmitUnknown app_error

text \<open>
  \<open>status\<close> is the backend's answer (its status and the time of the last output), \<open>effective\<close> the
  state machine's view of it, \<open>writable\<close> whether an automatic write is allowed.
\<close>

definition gateway_readiness ::
    "app_error + (session_status \<times> nat) option \<Rightarrow> (session_status \<Rightarrow> nat \<Rightarrow> session_status)
      \<Rightarrow> app_error + bool \<Rightarrow> app_error + readiness" where
  "gateway_readiness status effective writable =
    res_bind status (\<lambda>st.
      case st of
        None \<Rightarrow> Inr RSessionExited
      | Some (backend, last_output_at) \<Rightarrow>
          (case effective backend last_output_at of
             Idle \<Rightarrow> res_bind writable (\<lambda>w. Inr (if w then Ready else RAutomaticWriteUnavailable))
           | WaitingInput \<Rightarrow> Inr RWaitingInput
           | StError \<Rightarrow> Inr RSessionError
           | Exited \<Rightarrow> Inr RSessionExited
           | _ \<Rightarrow> Inr RConfirmingIdle))"

definition gateway_submit :: "app_error + readiness \<Rightarrow> app_error + unit \<Rightarrow> submit_failure + unit" where
  "gateway_submit ready write =
    (case ready of
       Inl e \<Rightarrow> Inl (Definite e)
     | Inr r \<Rightarrow>
         if r \<noteq> Ready then Inl (NotReady r)
         else (case write of Inl e \<Rightarrow> Inl (SubmitUnknown e) | Inr u \<Rightarrow> Inr u))"

section \<open>The dispatcher\<close>

datatype outcome =
    Noop
  | Blocked readiness
  | Submitted string
  | Requeued string readiness
  | FailedItem string
  | UnknownItem string

record dispatch =
  dp_db :: db
  dp_clock :: nat
  dp_tries :: "(string \<times> (submit_failure + unit)) list"
  dp_marks :: nat

type_synonym 'a run = "(dispatch, 'a) svc"

text \<open>One transaction, after whatever the other clients do first.\<close>

definition transact :: "(nat \<Rightarrow> queue_op list) \<Rightarrow> (db \<Rightarrow> 'a tx) \<Rightarrow> 'a run" where
  "transact env tx = (\<lambda>p.
    (let d = foldl queue_exec (dp_db p) (env (dp_clock p)); x = tx d
     in (p\<lparr>dp_db := after x d, dp_clock := dp_clock p + 1\<rparr>, result_of x)))"

definition read_runtime_tx :: "db \<Rightarrow> queue_runtime tx" where
  "read_runtime_tx d = res_bind (read_runtime d) (\<lambda>r. Inr (r, d))"

text \<open>The state and reason a readiness is persisted as; nothing for a global pause.\<close>

fun readiness_status :: "readiness \<Rightarrow> (queue_state \<times> queue_reason option) option" where
  "readiness_status Ready = Some (Running, None)"
| "readiness_status RGlobalDisabled = None"
| "readiness_status RConfirmingIdle = Some (ConfirmingIdle, None)"
| "readiness_status RWaitingInput = Some (ActionRequired, Some WaitingInputR)"
| "readiness_status RAutomaticWriteUnavailable = Some (ActionRequired, Some AutomaticWriteUnavailable)"
| "readiness_status RSessionError = Some (ActionRequired, Some SessionError)"
| "readiness_status RSessionExited = Some (SessionEnded, Some SessionExited)"

definition persist_readiness :: "(nat \<Rightarrow> queue_op list) \<Rightarrow> string \<Rightarrow> readiness \<Rightarrow> int \<Rightarrow> unit run" where
  "persist_readiness env s r now =
    (case readiness_status r of
       None \<Rightarrow> ret ()
     | Some (st, reason) \<Rightarrow>
         run_bind (transact env (repo_set_runtime_status s st reason now)) (\<lambda>_. ret ()))"

definition runtime_blocker :: "(nat \<Rightarrow> queue_op list) \<Rightarrow> int \<Rightarrow> readiness option run" where
  "runtime_blocker env generation =
    run_bind (transact env read_runtime_tx) (\<lambda>runtime.
      ret (if \<not> qr_enabled runtime then Some RGlobalDisabled
           else if qr_generation runtime \<noteq> generation then Some RConfirmingIdle
           else None))"

definition conflict_unless :: "bool \<Rightarrow> string \<Rightarrow> unit run" where
  "conflict_unless b msg = (if b then ret () else of_res (Inl (Coded ''QUEUE_CLAIM_CONFLICT'' msg)))"

definition requeue_claim :: "(nat \<Rightarrow> queue_op list) \<Rightarrow> string \<Rightarrow> string \<Rightarrow> string \<Rightarrow> int \<Rightarrow> unit run" where
  "requeue_claim env s item_id token now =
    run_bind (transact env (repo_return_claim s item_id token now)) (\<lambda>b.
      conflict_unless b ''Task queue claim is no longer current'')"

definition fail_claim ::
    "(nat \<Rightarrow> queue_op list) \<Rightarrow> string \<Rightarrow> string \<Rightarrow> string \<Rightarrow> app_error \<Rightarrow> int \<Rightarrow> unit run" where
  "fail_claim env s item_id token error now =
    run_bind (transact env (repo_fail_claim s item_id token
        (case app_code error of Some c \<Rightarrow> c | None \<Rightarrow> ''SUBMIT_FAILED'') (app_message error) now)) (\<lambda>b.
      conflict_unless b ''Failed task queue claim is no longer current'')"

definition requeue_for_readiness ::
    "(nat \<Rightarrow> queue_op list) \<Rightarrow> string \<Rightarrow> string \<Rightarrow> string \<Rightarrow> readiness \<Rightarrow> int \<Rightarrow> outcome run" where
  "requeue_for_readiness env s item_id token r now =
    run_bind (requeue_claim env s item_id token now) (\<lambda>_.
    run_bind (persist_readiness env s r now) (\<lambda>_.
    ret (Requeued item_id r)))"

text \<open>
  The service's completion reads the lane first. Removing the images of the completed task
  touches the file system only.
\<close>

definition svc_complete_claim :: "(nat \<Rightarrow> queue_op list) \<Rightarrow> string \<Rightarrow> string \<Rightarrow> string \<Rightarrow> int \<Rightarrow> bool run" where
  "svc_complete_claim env s item_id token now =
    run_bind (transact env (repo_snapshot s)) (\<lambda>_.
      transact env (repo_complete_claim s item_id token now))"

definition submit_claim ::
    "(nat \<Rightarrow> queue_op list) \<Rightarrow> string \<Rightarrow> string \<Rightarrow> string \<Rightarrow> string \<Rightarrow> submit_failure + unit \<Rightarrow> int
      \<Rightarrow> outcome run" where
  "submit_claim env s item_id token prompt answer now =
    run_bind (\<lambda>p. (p\<lparr>dp_tries := dp_tries p @ [(prompt, answer)]\<rparr>, Inr answer)) (\<lambda>answer.
      case answer of
        Inr _ \<Rightarrow>
          run_bind (\<lambda>p. (p\<lparr>dp_marks := dp_marks p + 1\<rparr>, Inr ())) (\<lambda>_.
          run_bind (svc_complete_claim env s item_id token now) (\<lambda>b.
          run_bind (conflict_unless b ''Acknowledged task queue claim is no longer current'') (\<lambda>_.
          ret (Submitted item_id))))
      | Inl (NotReady r) \<Rightarrow> requeue_for_readiness env s item_id token r now
      | Inl (Definite e) \<Rightarrow> run_bind (fail_claim env s item_id token e now) (\<lambda>_. ret (FailedItem item_id))
      | Inl (SubmitUnknown e) \<Rightarrow>
          run_bind (transact env (repo_mark_delivery_unknown s item_id token (app_message e) now)) (\<lambda>b.
          run_bind (conflict_unless b ''Unknown-delivery task queue claim is no longer current'') (\<lambda>_.
          ret (UnknownItem item_id))))"

definition dispatch_claim ::
    "(nat \<Rightarrow> queue_op list) \<Rightarrow> (string \<Rightarrow> string \<Rightarrow> app_error + string) \<Rightarrow> string \<Rightarrow> queue_claim
      \<Rightarrow> app_error + readiness \<Rightarrow> submit_failure + unit \<Rightarrow> int \<Rightarrow> outcome run" where
  "dispatch_claim env resolve s claim ready2 answer now =
    run_bind (runtime_blocker env (qc_generation claim)) (\<lambda>blocker.
    run_bind (case blocker of Some r \<Rightarrow> ret r | None \<Rightarrow> of_res ready2) (\<lambda>second.
    if second \<noteq> Ready then requeue_for_readiness env s (ti_id (qc_item claim)) (qc_token claim) second now
    else
      (case effective_prompt resolve s (qc_item claim) of
         Inl e \<Rightarrow>
           run_bind (fail_claim env s (ti_id (qc_item claim)) (qc_token claim) e now) (\<lambda>_.
             ret (FailedItem (ti_id (qc_item claim))))
       | Inr prompt \<Rightarrow>
           run_bind (runtime_blocker env (qc_generation claim)) (\<lambda>blocker.
           case blocker of
             Some r \<Rightarrow> requeue_for_readiness env s (ti_id (qc_item claim)) (qc_token claim) r now
           | None \<Rightarrow> submit_claim env s (ti_id (qc_item claim)) (qc_token claim) prompt answer now))))"

text \<open>\<open>ready1\<close> and \<open>ready2\<close> are the gateway's two answers, \<open>answer\<close> that of the submit.\<close>

definition check_session ::
    "(nat \<Rightarrow> queue_op list) \<Rightarrow> (string \<Rightarrow> string \<Rightarrow> app_error + string) \<Rightarrow> string \<Rightarrow> string
      \<Rightarrow> app_error + readiness \<Rightarrow> app_error + readiness \<Rightarrow> submit_failure + unit \<Rightarrow> int \<Rightarrow> outcome run" where
  "check_session env resolve uuid s ready1 ready2 answer now =
    run_bind (transact env read_runtime_tx) (\<lambda>runtime.
    if \<not> qr_enabled runtime then ret (Blocked RGlobalDisabled)
    else
      run_bind (transact env (repo_snapshot s)) (\<lambda>snap.
      (case qs_items snap of
         [] \<Rightarrow> ret Noop
       | head # _ \<Rightarrow>
           if qs_paused snap \<or> ti_state head \<noteq> Queued then ret Noop
           else
             run_bind (of_res ready1) (\<lambda>ready.
             if ready \<noteq> Ready then
               run_bind (persist_readiness env s ready now) (\<lambda>_. ret (Blocked ready))
             else
               run_bind (transact env (repo_claim_next uuid s (qr_generation runtime) now)) (\<lambda>claim.
               case claim of
                 None \<Rightarrow> ret Noop
               | Some claim \<Rightarrow> dispatch_claim env resolve s claim ready2 answer now)))))"

definition dispatch_start :: "db \<Rightarrow> dispatch" where
  "dispatch_start d = \<lparr>dp_db = d, dp_clock = 0, dp_tries = [], dp_marks = 0\<rparr>"

section \<open>The worker's scan\<close>

definition LEVEL_SCAN_BATCH_SIZE :: nat where
  "LEVEL_SCAN_BATCH_SIZE = 64"

definition next_scan_batch :: "'a list \<Rightarrow> nat \<Rightarrow> nat \<Rightarrow> nat \<times> 'a list" where
  "next_scan_batch sessions cursor limit =
    (if sessions = [] \<or> limit = 0 then (0, [])
     else
       (let cursor = cursor mod length sessions; count = min (length sessions) limit
        in ((cursor + count) mod length sessions,
            map (\<lambda>offset. sessions ! ((cursor + offset) mod length sessions)) [0..<count])))"

end
