(* ===== verification/Dispatch_Runs.thy ===== *)
theory Dispatch_Runs
  imports Queue_Dispatch
begin

text \<open>
  Rules for the runs of the dispatcher, and what every step of a check keeps: the tables, the
  claims that may carry the token of the check, and the attempts made so far.
\<close>

section \<open>Runs of the dispatcher\<close>

text \<open>From a state with \<open>P\<close> the run ends in a state and result with \<open>Q\<close>.\<close>

definition run_ok :: "(dispatch \<Rightarrow> bool) \<Rightarrow> 'a run \<Rightarrow> (dispatch \<Rightarrow> app_error + 'a \<Rightarrow> bool) \<Rightarrow> bool" where
  "run_ok P x Q \<longleftrightarrow> (\<forall>p. P p \<longrightarrow> (case x p of (p', r) \<Rightarrow> Q p' r))"

lemma run_ok_ret: "(\<And>p. P p \<Longrightarrow> Q p (Inr a)) \<Longrightarrow> run_ok P (ret a) Q"
  by (simp add: run_ok_def ret_def)

lemma run_ok_res: "(\<And>p. P p \<Longrightarrow> Q p r) \<Longrightarrow> run_ok P (of_res r) Q"
  by (simp add: run_ok_def of_res_def)

lemma run_ok_weaken: "run_ok P x Q \<Longrightarrow> (\<And>p r. Q p r \<Longrightarrow> Q' p r) \<Longrightarrow> run_ok P x Q'"
  by (fastforce simp: run_ok_def split: prod.splits)

text \<open>The tables are consistent and the token is carried by items of \<open>F\<close> at most.\<close>

definition claims_in :: "string set \<Rightarrow> string \<Rightarrow> string \<Rightarrow> db \<Rightarrow> bool" where
  "claims_in F s uuid d \<longleftrightarrow> db_ok d \<and> (\<forall>i. held d s i uuid \<longrightarrow> i \<in> F)"

definition env_keeps :: "string set \<Rightarrow> string \<Rightarrow> string \<Rightarrow> (nat \<Rightarrow> queue_op list) \<Rightarrow> bool" where
  "env_keeps F s uuid env \<longleftrightarrow> (\<forall>n d. claims_in F s uuid d \<longrightarrow> claims_in F s uuid (foldl queue_exec d (env n)))"

text \<open>The state between two steps: the claims and what was handed over so far.\<close>

definition stands :: "string set \<Rightarrow> string \<Rightarrow> string \<Rightarrow> (string \<times> (submit_failure + unit)) list \<Rightarrow> dispatch \<Rightarrow> bool" where
  "stands F s uuid ts p \<longleftrightarrow> claims_in F s uuid (dp_db p) \<and> dp_tries p = ts"

lemma stands_bind:
  assumes "run_ok (stands F s u ts) x (\<lambda>p r. stands F' s u ts p \<and> R r)"
    and "\<And>a. R (Inr a) \<Longrightarrow> run_ok (stands F' s u ts) (f a) Q"
    and "\<And>p e. R (Inl e) \<Longrightarrow> stands F' s u ts p \<Longrightarrow> Q p (Inl e)"
  shows "run_ok (stands F s u ts) (run_bind x f) Q"
  unfolding run_ok_def run_bind_def
proof (intro allI impI)
  fix p assume p: "stands F s u ts p"
  obtain p' r where x: "x p = (p', r)" by (cases "x p")
  with assms(1) p have mid: "stands F' s u ts p'" "R r" by (auto simp: run_ok_def)
  show "case case x p of (p', Inl e) \<Rightarrow> (p', Inl e) | (p', Inr a) \<Rightarrow> f a p' of (p', r) \<Rightarrow> Q p' r"
  proof (cases r)
    case (Inl e)
    with assms(3) mid x show ?thesis by simp
  next
    case (Inr a)
    with assms(2) mid x show ?thesis by (simp add: run_ok_def)
  qed
qed

lemma stands_tx:
  assumes "env_keeps F s u env"
    and "\<And>d. claims_in F s u d \<Longrightarrow> claims_in F' s u (after (tx d) d) \<and> R (result_of (tx d))"
  shows "run_ok (stands F s u ts) (transact env tx) (\<lambda>p r. stands F' s u ts p \<and> R r)"
  using assms by (auto simp: run_ok_def transact_def Let_def stands_def env_keeps_def)

lemma stands_ret: "Q (Inr a) \<Longrightarrow> run_ok (stands F s u ts) (ret a) (\<lambda>p r. stands F s u ts p \<and> Q r)"
  by (simp add: run_ok_ret)

section \<open>The claim of the dispatcher\<close>

definition is_conflict :: "app_error \<Rightarrow> bool" where
  "is_conflict e \<longleftrightarrow> app_code e = Some ''QUEUE_CLAIM_CONFLICT''"

text \<open>The result is \<open>out\<close>, unless the claim was no longer current.\<close>

definition yields :: "'a \<Rightarrow> app_error + 'a \<Rightarrow> bool" where
  "yields out r \<longleftrightarrow> (case r of Inl e \<Rightarrow> is_conflict e | Inr a \<Rightarrow> a = out)"

lemma yields_simps [simp]: "yields out (Inr a) \<longleftrightarrow> a = out" "yields out (Inl e) \<longleftrightarrow> is_conflict e"
  by (simp_all add: yields_def)

lemma same_lane_claims:
  "claims_in F s uuid d \<Longrightarrow> steps_to d s (lane d s) d' \<Longrightarrow> claims_in F s uuid d'"
  by (simp add: claims_in_def steps_to_def held_def)

lemma runtime_step:
  assumes "env_keeps F s u env"
  shows "run_ok (stands F s u ts) (transact env read_runtime_tx) (\<lambda>p r. stands F s u ts p \<and> (\<exists>a. r = Inr a))"
  by (rule stands_tx [OF assms])
     (auto simp: read_runtime_tx_def read_runtime_def claims_in_def db_ok_def after_def result_of_def)

lemma snapshot_step:
  assumes "env_keeps F s u env"
  shows "run_ok (stands F s u ts) (transact env (repo_snapshot s)) (\<lambda>p r. stands F s u ts p \<and> (\<exists>a. r = Inr a))"
proof (rule stands_tx [OF assms])
  fix d assume d: "claims_in F s u d"
  with snapshot_effect [of d s] obtain snap d' where "repo_snapshot s d = Inr (snap, d')" "steps_to d s (lane d s) d'"
    by (auto simp: claims_in_def)
  with same_lane_claims [OF d] show "claims_in F s u (after (repo_snapshot s d) d)
      \<and> (\<exists>a. result_of (repo_snapshot s d) = Inr a)"
    by (simp add: after_def result_of_def)
qed

lemma persist_step:
  assumes "env_keeps F s u env"
  shows "run_ok (stands F s u ts) (persist_readiness env s r now) (\<lambda>p res. stands F s u ts p \<and> yields () res)"
proof (cases "readiness_status r")
  case None
  then show ?thesis by (simp add: persist_readiness_def stands_ret)
next
  case (Some x)
  obtain st reason where x: "readiness_status r = Some (st, reason)" using Some by (metis surj_pair)
  then have st: "st \<notin> {Disabled, Paused}" by (cases r) auto
  have "run_ok (stands F s u ts) (transact env (repo_set_runtime_status s st reason now))
      (\<lambda>p res. stands F s u ts p \<and> (\<exists>a. res = Inr a))"
  proof (rule stands_tx [OF assms])
    fix d assume d: "claims_in F s u d"
    then obtain snap d' where "repo_set_runtime_status s st reason now d = Inr (snap, d')" "steps_to d s (lane d s) d'"
      using set_status_effect [of d st s reason now] st by (auto simp: claims_in_def)
    with same_lane_claims [OF d] show "claims_in F s u (after (repo_set_runtime_status s st reason now d) d)
        \<and> (\<exists>snap. result_of (repo_set_runtime_status s st reason now d) = Inr snap)"
      by (simp add: after_def result_of_def)
  qed
  then show ?thesis
    unfolding persist_readiness_def x option.case prod.case by (rule stands_bind) (auto simp: stands_ret)
qed

text \<open>A claim that is finished or completed, whether it was still current or not, is gone.\<close>

lemma released_claims:
  assumes "claims_in (insert i F) s uuid d" and "db_ok d'"
    and "if held d s i uuid then (\<forall>j. \<not> held d' s j uuid) else lane d' s = lane d s"
  shows "claims_in F s uuid d'"
  using assms by (auto simp: claims_in_def held_def split: if_splits list.splits)

lemma finish_after:
  assumes d: "claims_in (insert i F) s uuid d" and st: "st \<noteq> Dispatching"
    and tx: "tx d = repo_finish_claim s i uuid st code msg now d"
  shows "claims_in F s uuid (after (tx d) d) \<and> (\<exists>b. result_of (tx d) = Inr b)"
proof -
  have ok: "db_ok d" using d by (simp add: claims_in_def)
  show ?thesis
  proof (cases "held d s i uuid")
    case True
    with finish_claim_effect [OF ok st, where s = s and item_id = i and token = uuid and code = code and msg = msg and now = now]
    obtain d' t im rest where "tx d = Inr (True, d')" "steps_to d s ((i, t, im, st, None) # rest) d'"
      unfolding tx by auto
    with released_claims [OF d, of d'] True show ?thesis
      by (auto simp: after_def result_of_def steps_to_def held_def)
  next
    case False
    with finish_claim_effect [OF ok st, where s = s and item_id = i and token = uuid and code = code and msg = msg and now = now]
    have "tx d = Inr (False, d)" unfolding tx by simp
    with released_claims [OF d ok] False show ?thesis by (auto simp: after_def result_of_def)
  qed
qed

lemma complete_after:
  assumes d: "claims_in (insert i F) s uuid d"
  shows "claims_in F s uuid (after (repo_complete_claim s i uuid now d) d)
    \<and> (\<exists>b. result_of (repo_complete_claim s i uuid now d) = Inr b)"
proof -
  have ok: "db_ok d" using d by (simp add: claims_in_def)
  show ?thesis
  proof (cases "held d s i uuid")
    case True
    then obtain r rs where head: "session_items d s = r # rs"
        and lane: "lane d s = (i, i_text r, i_images r, Dispatching, Some uuid) # map lane_item rs"
      by (rule held_row)
    from complete_claim_effect [OF ok, where s = s and item_id = i and token = uuid and now = now] True
    obtain d' where d': "repo_complete_claim s i uuid now d = Inr (True, d')" "steps_to d s (tl (lane d s)) d'"
      by auto
    have "\<not> held d' s j uuid" for j
      using d'(2) lane session_split(4) [OF db_ok_rows [OF ok] head]
      by (cases rs) (auto simp: held_def steps_to_def lane_item_def)
    with d' released_claims [OF d, of d'] True show ?thesis
      by (auto simp: after_def result_of_def steps_to_def)
  next
    case False
    with complete_claim_effect [OF ok, where s = s and item_id = i and token = uuid and now = now]
    have "repo_complete_claim s i uuid now d = Inr (False, d)" by simp
    with released_claims [OF d ok] False show ?thesis by (auto simp: after_def result_of_def)
  qed
qed


lemma release_step:
  assumes "env_keeps (insert i F) s u env"
    and "\<And>d. claims_in (insert i F) s u d \<Longrightarrow> claims_in F s u (after (tx d) d) \<and> (\<exists>b. result_of (tx d) = Inr b)"
  shows "run_ok (stands (insert i F) s u ts) (run_bind (transact env tx) (\<lambda>b. conflict_unless b msg))
    (\<lambda>p r. stands F s u ts p \<and> yields () r)"
proof (rule stands_bind [OF stands_tx [OF assms(1), where F' = F and R = "\<lambda>r. \<exists>b. r = Inr b"]])
  show "run_ok (stands F s u ts) (conflict_unless b msg) (\<lambda>p r. stands F s u ts p \<and> yields () r)" for b
    by (auto simp: conflict_unless_def is_conflict_def intro: run_ok_ret run_ok_res)
qed (use assms(2) in auto)

lemma requeue_step:
  assumes "env_keeps (insert i F) s u env"
  shows "run_ok (stands (insert i F) s u ts) (requeue_claim env s i u now) (\<lambda>p r. stands F s u ts p \<and> yields () r)"
  unfolding requeue_claim_def
  by (rule release_step [OF assms])
     (rule finish_after [where st = Queued and code = None and msg = None and now = now], auto simp: repo_return_claim_def)

lemma fail_step:
  assumes "env_keeps (insert i F) s u env"
  shows "run_ok (stands (insert i F) s u ts) (fail_claim env s i u e now) (\<lambda>p r. stands F s u ts p \<and> yields () r)"
  unfolding fail_claim_def
  by (rule release_step [OF assms])
     (rule finish_after [where st = Failed and code = "Some (case app_code e of Some c \<Rightarrow> c | None \<Rightarrow> ''SUBMIT_FAILED'')"
        and msg = "Some (app_message e)" and now = now], auto simp: repo_fail_claim_def)

lemma unknown_step:
  assumes "env_keeps (insert i F) s u env"
  shows "run_ok (stands (insert i F) s u ts)
      (run_bind (transact env (repo_mark_delivery_unknown s i u msg now)) (\<lambda>b. conflict_unless b why))
      (\<lambda>p r. stands F s u ts p \<and> yields () r)"
  by (rule release_step [OF assms])
     (rule finish_after [where st = DeliveryUnknown and code = "Some ''DELIVERY_UNKNOWN''" and msg = "Some msg"
        and now = now], auto simp: repo_mark_delivery_unknown_def)

lemma bind_assoc: "run_bind (run_bind x f) g = run_bind x (\<lambda>a. run_bind (f a) g)"
  by (auto simp: run_bind_def fun_eq_iff split: prod.splits sum.splits)

lemma complete_step:
  assumes "env_keeps (insert i F) s u env"
  shows "run_ok (stands (insert i F) s u ts)
      (run_bind (svc_complete_claim env s i u now) (\<lambda>b. conflict_unless b why))
      (\<lambda>p r. stands F s u ts p \<and> yields () r)"
  unfolding svc_complete_claim_def bind_assoc
proof (rule stands_bind [OF snapshot_step [OF assms]])
  show "run_ok (stands (insert i F) s u ts)
      (run_bind (transact env (repo_complete_claim s i u now)) (\<lambda>b. conflict_unless b why))
      (\<lambda>p r. stands F s u ts p \<and> yields () r)"
    by (rule release_step [OF assms complete_after])
qed auto

text \<open>A step that gives \<open>()\<close> and an outcome after it.\<close>

lemma then_ret:
  assumes "run_ok (stands F s u ts) x (\<lambda>p r. stands F' s u ts p \<and> yields () r)"
  shows "run_ok (stands F s u ts) (run_bind x (\<lambda>_. ret out)) (\<lambda>p r. stands F' s u ts p \<and> yields out r)"
  by (rule stands_bind [OF assms]) (auto intro: stands_ret)

lemma requeue_for_step:
  assumes "env_keeps (insert i F) s u env" and "env_keeps F s u env"
  shows "run_ok (stands (insert i F) s u ts) (requeue_for_readiness env s i u r now)
    (\<lambda>p res. stands F s u ts p \<and> yields (Requeued i r) res)"
  unfolding requeue_for_readiness_def
  by (rule stands_bind [OF requeue_step [OF assms(1)]]) (auto intro: then_ret persist_step assms(2))

text \<open>What an attempt amounts to.\<close>

fun attempt_outcome :: "string \<Rightarrow> submit_failure + unit \<Rightarrow> outcome" where
  "attempt_outcome i (Inr _) = Submitted i"
| "attempt_outcome i (Inl (NotReady r)) = Requeued i r"
| "attempt_outcome i (Inl (Definite e)) = FailedItem i"
| "attempt_outcome i (Inl (SubmitUnknown e)) = UnknownItem i"

lemma bind_step: "run_bind (\<lambda>p. (g p, Inr a)) f = (\<lambda>p. f a (g p))"
  by (simp add: run_bind_def fun_eq_iff)

lemma run_ok_after:
  "run_ok (stands F s u ts') x Q \<Longrightarrow> (\<And>p. stands F s u ts p \<Longrightarrow> stands F s u ts' (g p))
    \<Longrightarrow> run_ok (stands F s u ts) (\<lambda>p. x (g p)) Q"
  by (simp add: run_ok_def)

lemma submit_step:
  assumes "env_keeps (insert i F) s u env" and "env_keeps F s u env"
  shows "run_ok (stands (insert i F) s u ts) (submit_claim env s i u prompt answer now)
    (\<lambda>p res. stands F s u (ts @ [(prompt, answer)]) p \<and> yields (attempt_outcome i answer) res)"
  unfolding submit_claim_def bind_step
proof (rule run_ok_after [where ts' = "ts @ [(prompt, answer)]"])
  have done_step: "run_ok (stands (insert i F) s u (ts @ [(prompt, answer)]))
      (\<lambda>p. run_bind (svc_complete_claim env s i u now)
        (\<lambda>b. run_bind (conflict_unless b ''Acknowledged task queue claim is no longer current'') (\<lambda>_. ret (Submitted i)))
        (p\<lparr>dp_marks := dp_marks p + 1\<rparr>))
      (\<lambda>p r. stands F s u (ts @ [(prompt, answer)]) p \<and> yields (Submitted i) r)"
    unfolding bind_assoc [symmetric]
    by (rule run_ok_after [OF then_ret [OF complete_step [OF assms(1)]]]) (simp add: stands_def)
  show "run_ok (stands (insert i F) s u (ts @ [(prompt, answer)]))
    (case answer of Inl (NotReady r) \<Rightarrow> requeue_for_readiness env s i u r now
     | Inl (Definite e) \<Rightarrow> run_bind (fail_claim env s i u e now) (\<lambda>_. ret (FailedItem i))
     | Inl (SubmitUnknown e) \<Rightarrow>
         run_bind (transact env (repo_mark_delivery_unknown s i u (app_message e) now))
          (\<lambda>b. run_bind (conflict_unless b ''Unknown-delivery task queue claim is no longer current'')
            (\<lambda>_. ret (UnknownItem i)))
     | Inr x \<Rightarrow> \<lambda>p. run_bind (svc_complete_claim env s i u now)
          (\<lambda>b. run_bind (conflict_unless b ''Acknowledged task queue claim is no longer current'')
            (\<lambda>_. ret (Submitted i))) (p\<lparr>dp_marks := dp_marks p + 1\<rparr>))
    (\<lambda>p res. stands F s u (ts @ [(prompt, answer)]) p \<and> yields (attempt_outcome i answer) res)"
    using requeue_for_step [OF assms] then_ret [OF fail_step [OF assms(1)]]
      then_ret [OF unknown_step [OF assms(1)]] done_step
    by (auto simp: bind_assoc [symmetric] split: sum.split submit_failure.split)
qed (simp add: stands_def)

section \<open>A check of a session\<close>

text \<open>How a check must end: no attempt and no claim of one, or one attempt and its outcome.\<close>

definition accounted ::
    "string \<Rightarrow> submit_failure + unit \<Rightarrow> (string \<times> (submit_failure + unit)) list \<Rightarrow> app_error + outcome \<Rightarrow> bool" where
  "accounted i answer tries r \<longleftrightarrow>
    (case tries of
       [] \<Rightarrow> (case r of Inr (Submitted j) \<Rightarrow> False | Inr (UnknownItem j) \<Rightarrow> False | _ \<Rightarrow> True)
     | [(prompt, a)] \<Rightarrow> a = answer \<and> yields (attempt_outcome i answer) r
     | _ \<Rightarrow> False)"

definition checked ::
    "string set \<Rightarrow> string \<Rightarrow> string \<Rightarrow> app_error + readiness \<Rightarrow> submit_failure + unit \<Rightarrow> dispatch
      \<Rightarrow> app_error + outcome \<Rightarrow> bool" where
  "checked F s u ready2 answer p r \<longleftrightarrow>
    (\<exists>i. accounted i answer (dp_tries p) r) \<and> db_ok (dp_db p)
    \<and> ((\<exists>e. ready2 = Inl e) \<or> claims_in F s u (dp_db p))"

lemma checkedI:
  "stands F s u ts p \<Longrightarrow> accounted i answer ts r \<Longrightarrow> checked F s u ready2 answer p r"
  by (auto simp: checked_def stands_def claims_in_def)

lemma accounted_simps [simp]:
  "accounted i answer [] (Inr (Requeued j x))" "accounted i answer [] (Inr (FailedItem j))"
  "accounted i answer [] (Inr Noop)" "accounted i answer [] (Inr (Blocked x))" "accounted i answer [] (Inl e)"
  "yields (attempt_outcome i answer) r \<Longrightarrow> accounted i answer [(prompt, answer)] r"
  by (auto simp: accounted_def)

lemma accounted_yields: "yields out r \<Longrightarrow> accounted i answer [] (Inr out) \<Longrightarrow> accounted i answer [] r"
  by (cases r) (auto simp: accounted_def)

lemma blocker_step:
  assumes "env_keeps F s u env"
  shows "run_ok (stands F s u ts) (runtime_blocker env g) (\<lambda>p r. stands F s u ts p \<and> (\<exists>a. r = Inr a))"
  unfolding runtime_blocker_def
  by (rule stands_bind [OF runtime_step [OF assms]]) (auto intro: stands_ret)

lemma requeue_checked:
  assumes "env_keeps (insert i F) s u env" and "env_keeps F s u env"
  shows "run_ok (stands (insert i F) s u []) (requeue_for_readiness env s i u r now) (checked F s u ready2 answer)"
  by (rule run_ok_weaken [OF requeue_for_step [OF assms]])
     (auto intro!: checkedI [where i = i] elim!: accounted_yields)

lemma dispatch_checked:
  assumes "env_keeps (insert (ti_id (qc_item claim)) F) s (qc_token claim) env" and "env_keeps F s (qc_token claim) env"
  shows "run_ok (stands (insert (ti_id (qc_item claim)) F) s (qc_token claim) [])
    (dispatch_claim env resolve s claim ready2 answer now) (checked F s (qc_token claim) ready2 answer)"
proof -
  define i where "i = ti_id (qc_item claim)"
  define u where "u = qc_token claim"
  note keeps = assms [folded i_def u_def]
  let ?P = "stands (insert i F) s u []"
  have fail: "run_ok ?P (run_bind (fail_claim env s i u e now) (\<lambda>_. ret (FailedItem i))) (checked F s u ready2 answer)" for e
    by (rule run_ok_weaken [OF then_ret [OF fail_step [OF keeps(1)]]])
       (auto intro!: checkedI [where i = i] elim!: accounted_yields)
  have submit: "run_ok ?P (submit_claim env s i u prompt answer now) (checked F s u ready2 answer)" for prompt
    by (rule run_ok_weaken [OF submit_step [OF keeps]]) (auto intro!: checkedI [where i = i])
  have last: "run_ok ?P (run_bind (runtime_blocker env g) (\<lambda>blocker.
      case blocker of Some r \<Rightarrow> requeue_for_readiness env s i u r now
      | None \<Rightarrow> submit_claim env s i u prompt answer now)) (checked F s u ready2 answer)" for g prompt
    by (rule stands_bind [OF blocker_step [OF keeps(1)]])
       (use requeue_checked [OF keeps] submit in \<open>auto split: option.split\<close>)
  have rest: "run_ok ?P
      (if second \<noteq> Ready then requeue_for_readiness env s i u second now
       else (case effective_prompt resolve s (qc_item claim) of
         Inl e \<Rightarrow> run_bind (fail_claim env s i u e now) (\<lambda>_. ret (FailedItem i))
       | Inr prompt \<Rightarrow> run_bind (runtime_blocker env (qc_generation claim)) (\<lambda>blocker.
           case blocker of Some r \<Rightarrow> requeue_for_readiness env s i u r now
           | None \<Rightarrow> submit_claim env s i u prompt answer now))) (checked F s u ready2 answer)" for second
    using requeue_checked [OF keeps] fail last by (auto split: sum.split)
  have "run_ok ?P (dispatch_claim env resolve s claim ready2 answer now) (checked F s u ready2 answer)"
    unfolding dispatch_claim_def i_def [symmetric] u_def [symmetric]
  proof (rule stands_bind [OF blocker_step [OF keeps(1)]])
    fix blocker
    have second: "run_ok ?P (case blocker of None \<Rightarrow> of_res ready2 | Some r \<Rightarrow> ret r)
        (\<lambda>p r. ?P p \<and> (case r of Inl e \<Rightarrow> ready2 = Inl e | Inr _ \<Rightarrow> True))"
      by (auto simp: run_ok_def ret_def of_res_def split: option.split sum.split)
    show "run_ok ?P (run_bind (case blocker of None \<Rightarrow> of_res ready2 | Some r \<Rightarrow> ret r)
        (\<lambda>second. if second \<noteq> Ready then requeue_for_readiness env s i u second now
          else (case effective_prompt resolve s (qc_item claim) of
            Inl e \<Rightarrow> run_bind (fail_claim env s i u e now) (\<lambda>_. ret (FailedItem i))
          | Inr prompt \<Rightarrow> run_bind (runtime_blocker env (qc_generation claim)) (\<lambda>blocker.
              case blocker of None \<Rightarrow> submit_claim env s i u prompt answer now
              | Some r \<Rightarrow> requeue_for_readiness env s i u r now)))) (checked F s u ready2 answer)"
      by (rule stands_bind [OF second rest]) (auto simp: checked_def stands_def claims_in_def)
  qed auto
  then show ?thesis by (simp add: i_def u_def)
qed

lemma claim_step:
  assumes "env_keeps F s u env"
  shows "run_ok (stands F s u ts) (transact env (repo_claim_next u s g now))
    (\<lambda>p r. (case r of Inr (Some c) \<Rightarrow> stands (insert (ti_id (qc_item c)) F) s u ts p \<and> qc_token c = u
      | Inr None \<Rightarrow> stands F s u ts p | Inl e \<Rightarrow> False))"
proof -
  have "case result_of (repo_claim_next u s g now d) of
      Inr (Some c) \<Rightarrow> claims_in (insert (ti_id (qc_item c)) F) s u (after (repo_claim_next u s g now d) d) \<and> qc_token c = u
    | Inr None \<Rightarrow> claims_in F s u (after (repo_claim_next u s g now d) d) | Inl e \<Rightarrow> False"
    if d: "claims_in F s u d" for d
    using claim_next_effect [of d s g u now] d
    by (auto simp: claims_in_def after_def result_of_def steps_to_def held_def split: if_splits)
  with assms show ?thesis
    by (fastforce simp: run_ok_def transact_def Let_def stands_def env_keeps_def split: sum.splits option.splits)
qed

lemma check_session_checked:
  assumes keeps: "\<And>i. env_keeps (insert i F) s u env" "env_keeps F s u env"
  shows "run_ok (stands F s u []) (check_session env resolve u s ready1 ready2 answer now) (checked F s u ready2 answer)"
proof -
  let ?P = "stands F s u []"
  have stop: "run_ok ?P (ret out) (checked F s u ready2 answer)" if "accounted [] answer [] (Inr out)" for out
    using that by (auto intro!: run_ok_ret checkedI)
  have blocked: "run_ok ?P (run_bind (persist_readiness env s r now) (\<lambda>_. ret (Blocked r))) (checked F s u ready2 answer)" for r
    by (rule stands_bind [OF persist_step [OF keeps(2)]]) (auto intro: stop checkedI [where i = "[]"])
  have disp: "case dispatch_claim env resolve s c ready2 answer now p of (p', r) \<Rightarrow> checked F s u ready2 answer p' r"
    if "stands (insert (ti_id (qc_item c)) F) s u [] p" "qc_token c = u" for c p
    using dispatch_checked [of c F s env resolve ready2 answer now] keeps that by (simp add: run_ok_def)
  have claim: "run_ok ?P (run_bind (transact env (repo_claim_next u s g now))
      (\<lambda>c. case c of None \<Rightarrow> ret Noop | Some c \<Rightarrow> dispatch_claim env resolve s c ready2 answer now))
      (checked F s u ready2 answer)" for g
    unfolding run_ok_def run_bind_def
  proof (intro allI impI)
    fix p assume p: "?P p"
    obtain p' r where x: "transact env (repo_claim_next u s g now) p = (p', r)" by (cases "transact env (repo_claim_next u s g now) p")
    have mid: "case r of
        Inr (Some c) \<Rightarrow> stands (insert (ti_id (qc_item c)) F) s u [] p' \<and> qc_token c = u
      | Inr None \<Rightarrow> ?P p' | Inl e \<Rightarrow> False"
      using claim_step [OF keeps(2), of "[]" g now, unfolded run_ok_def, rule_format, OF p] x by simp
    show "case case transact env (repo_claim_next u s g now) p of (p', Inl e) \<Rightarrow> (p', Inl e)
        | (p', Inr c) \<Rightarrow> (case c of None \<Rightarrow> ret Noop | Some c \<Rightarrow> dispatch_claim env resolve s c ready2 answer now) p' of
        (p', r) \<Rightarrow> checked F s u ready2 answer p' r"
      using mid x disp stop [of Noop] by (auto simp: run_ok_def split: sum.splits option.splits)
  qed
  show ?thesis
    unfolding check_session_def
  proof (rule stands_bind [OF runtime_step [OF keeps(2)]])
    fix runtime
    let ?rest = "\<lambda>snap. case qs_items snap of [] \<Rightarrow> ret Noop
        | head # _ \<Rightarrow> if qs_paused snap \<or> ti_state head \<noteq> Queued then ret Noop
          else run_bind (of_res ready1) (\<lambda>ready. if ready \<noteq> Ready
              then run_bind (persist_readiness env s ready now) (\<lambda>_. ret (Blocked ready))
              else run_bind (transact env (repo_claim_next u s (qr_generation runtime) now))
                (\<lambda>claim. case claim of None \<Rightarrow> ret Noop | Some claim \<Rightarrow> dispatch_claim env resolve s claim ready2 answer now))"
    have first: "run_ok ?P (of_res ready1) (\<lambda>p r. ?P p \<and> True)" by (simp add: run_ok_res)
    have "run_ok ?P (?rest snap) (checked F s u ready2 answer)" for snap
    proof (cases "qs_items snap")
      case Nil
      then show ?thesis by (simp add: stop)
    next
      case (Cons head items)
      have "run_ok ?P (run_bind (of_res ready1) (\<lambda>ready. if ready \<noteq> Ready
              then run_bind (persist_readiness env s ready now) (\<lambda>_. ret (Blocked ready))
              else run_bind (transact env (repo_claim_next u s (qr_generation runtime) now))
                (\<lambda>claim. case claim of None \<Rightarrow> ret Noop | Some claim \<Rightarrow> dispatch_claim env resolve s claim ready2 answer now)))
          (checked F s u ready2 answer)"
        by (rule stands_bind [OF first]) (use blocked claim in \<open>auto intro: checkedI [where i = "[]"]\<close>)
      with Cons show ?thesis by (simp add: stop)
    qed
    then have "run_ok ?P (run_bind (transact env (repo_snapshot s)) ?rest) (checked F s u ready2 answer)"
      by (intro stands_bind [OF snapshot_step [OF keeps(2)]]) auto
    then show "run_ok ?P (if \<not> qr_enabled runtime then ret (Blocked RGlobalDisabled)
        else run_bind (transact env (repo_snapshot s)) ?rest) (checked F s u ready2 answer)"
      by (cases "qr_enabled runtime") (simp_all only: stop accounted_simps not_True_eq_False not_False_eq_True if_True if_False)
  qed auto
qed

end
