(* ===== verification/Dispatch_Props.thy ===== *)
theory Dispatch_Props
  imports Dispatch_Runs
begin

text \<open>
  The dispatcher hands a prompt over at most once, accounts for every attempt, never leaves its
  claim behind unless the backend fails between claim and submit, and the worker's scan reaches
  every session. A permission decision is never reversed.
\<close>

section \<open>Other clients\<close>

fun claims_as :: "string \<Rightarrow> string \<Rightarrow> queue_op \<Rightarrow> bool" where
  "claims_as s uuid (ClaimNext uuid' s' g now) \<longleftrightarrow> s' = s \<and> uuid' = uuid"
| "claims_as s uuid op \<longleftrightarrow> False"

lemma held_tl: "db_ok d \<Longrightarrow> lane d s = x # l \<Longrightarrow> list_all (\<lambda>(i, t, im, st, tok). st = Queued \<and> tok = None) l"
  using session_split(4) [OF db_ok_rows, of d s]
  by (auto simp: lane_def lane_item_def list_all_iff)

lemma no_new_claim:
  assumes ok: "db_ok d" and no: "\<not> claims_as s uuid op" and now: "held (queue_exec d op) s i uuid"
  shows "held d s i uuid"
proof (rule ccontr)
  assume not: "\<not> held d s i uuid"
  have lane: "lane (queue_exec d op) s = (if accepted d op then lane_after op s (lane d s) else lane d s)"
    using exec_acts [OF ok, of op] by (simp add: acts_as_def)
  with now not have acc: "accepted d op" by (auto simp: held_def split: if_splits)
  then have eq: "lane (queue_exec d op) s = lane_after op s (lane d s)" using lane by simp
  note tl = held_tl [OF ok]
  show False
    using now not no acc tl [of s] unfolding held_def eq
    by (cases op; cases "lane d s")
       (auto split: if_splits list.splits simp: list_all_iff filter_eq_Cons_iff)
qed

lemma env_keeps_db: "env_keeps UNIV s u env"
proof -
  have "db_ok (foldl queue_exec d ops)" if "db_ok d" for d ops using that by (rule queue.fold_good)
  then show ?thesis by (simp add: env_keeps_def claims_in_def)
qed

lemma claims_run:
  "claims_in F s u d \<Longrightarrow> list_all (\<lambda>op. \<not> claims_as s u op) ops \<Longrightarrow> claims_in F s u (foldl queue_exec d ops)"
proof (induction ops arbitrary: d)
  case (Cons op ops)
  then have "claims_in F s u (queue_exec d op)"
    using no_new_claim [of d s u op] queue.next_good [of d op] by (auto simp: claims_in_def)
  with Cons show ?case by simp
qed simp

text \<open>
  A check of a session hands its prompt over at most once and accounts for the
  attempt, whatever other clients do between its transactions and whatever the backend and the
  staged images answer: without an attempt it never reports a submission or an unknown
  delivery, and an acknowledged, refused, failed or unconfirmed attempt is reported as
  submitted, requeued, failed or unknown, unless the claim was lost meanwhile, which is
  reported as a claim conflict. The tables stay consistent throughout.
\<close>

theorem check_accounts_for_the_attempt:
  "case check_session env resolve uuid s ready1 ready2 answer now (dispatch_start (queue_run start ops)) of
    (p, r) \<Rightarrow> (\<exists>i. accounted i answer (dp_tries p) r) \<and> db_ok (dp_db p)"
proof -
  have "stands UNIV s uuid [] (dispatch_start (queue_run start ops))"
    using queue_run_ok by (simp add: stands_def claims_in_def dispatch_start_def)
  with check_session_checked [of UNIV s uuid env resolve ready1 ready2 answer now] env_keeps_db
  have "case check_session env resolve uuid s ready1 ready2 answer now (dispatch_start (queue_run start ops)) of
      (p, r) \<Rightarrow> checked UNIV s uuid ready2 answer p r"
    by (simp add: run_ok_def)
  then show ?thesis by (cases "check_session env resolve uuid s ready1 ready2 answer now
      (dispatch_start (queue_run start ops))") (simp add: checked_def)
qed

text \<open>
  Property C16. A check leaves no claim of its own behind, however it ends, as long as the
  backend answers the readiness question asked after the claim (a negative answer will do) and
  the token of the check is its own: no task of the session is being dispatched under it
  afterwards, so the lane is never blocked by a check that is over.
\<close>

theorem check_leaves_no_claim:
  assumes "list_all (\<lambda>op. \<not> claims_as s uuid op) ops"
    and "\<And>n. list_all (\<lambda>op. \<not> claims_as s uuid op) (env n)"
  shows "\<not> held (dp_db (fst (check_session env resolve uuid s ready1 (Inr ready2) answer now
    (dispatch_start (queue_run start ops))))) s i uuid"
proof -
  have "claims_in {} s uuid (queue_run start ops)"
    unfolding queue_run_def
    by (rule claims_run [OF _ assms(1)])
       (simp add: claims_in_def held_def lane_def session_items_def db_init_def db_init_ok [unfolded db_init_def])
  then have start: "stands {} s uuid [] (dispatch_start (queue_run start ops))"
    by (simp add: stands_def dispatch_start_def)
  have "env_keeps F s uuid env" for F using claims_run assms(2) by (simp add: env_keeps_def)
  with check_session_checked [of "{}" s uuid env resolve ready1 "Inr ready2" answer now] start
  show ?thesis by (fastforce simp: run_ok_def checked_def claims_in_def)
qed

theorem check_leaves_no_claim_witness:
  "\<not> held (dp_db (fst (check_session (\<lambda>n. [ClearQueue ''s'' 3]) (\<lambda>s r. Inr r) ''t'' ''s'' (Inr Ready) (Inr RWaitingInput)
    (Inr ()) 2 (dispatch_start (queue_run 0 [AddItem ''a'' ''s'' sample_draft 1]))))) ''s'' ''a'' ''t''"
  by (rule check_leaves_no_claim) simp_all

section \<open>An undisturbed check\<close>

definition quiet :: "nat \<Rightarrow> queue_op list" where
  "quiet n = []"

lemma bind_eq: "x p = (p', Inr a) \<Longrightarrow> run_bind x f p = f a p'"
  by (simp add: run_bind_def)

lemma quiet_tx:
  "tx (dp_db p) = Inr (a, d') \<Longrightarrow> transact quiet tx p = (p\<lparr>dp_db := d', dp_clock := dp_clock p + 1\<rparr>, Inr a)"
  by (simp add: transact_def quiet_def after_def result_of_def)

text \<open>The lane after an attempt with the first task.\<close>

fun attempt_lane ::
    "submit_failure + unit \<Rightarrow> string \<Rightarrow> string \<Rightarrow> string list \<Rightarrow> lane_item list \<Rightarrow> lane_item list" where
  "attempt_lane (Inr _) i t im rest = rest"
| "attempt_lane (Inl (NotReady r)) i t im rest = (i, t, im, Queued, None) # rest"
| "attempt_lane (Inl (Definite e)) i t im rest = (i, t, im, Failed, None) # rest"
| "attempt_lane (Inl (SubmitUnknown e)) i t im rest = (i, t, im, DeliveryUnknown, None) # rest"

lemma quiet_finish:
  assumes ok: "db_ok (dp_db p)" and lane: "lane (dp_db p) s = (i, t, im, Dispatching, Some u) # rest"
    and st: "st \<noteq> Dispatching" and tx: "\<And>d. tx d = repo_finish_claim s i u st code msg now d"
  shows "\<exists>p'. run_bind (transact quiet tx) (\<lambda>b. conflict_unless b why) p = (p', Inr ())
    \<and> dp_tries p' = dp_tries p \<and> steps_to (dp_db p) s ((i, t, im, st, None) # rest) (dp_db p')"
proof -
  have "held (dp_db p) s i u" using lane by (simp add: held_def)
  with finish_claim_effect [OF ok st, where s = s and item_id = i and token = u and code = code and msg = msg and now = now] lane
  obtain d' where "tx (dp_db p) = Inr (True, d')" "steps_to (dp_db p) s ((i, t, im, st, None) # rest) d'"
    unfolding tx by auto
  then show ?thesis by (simp add: bind_eq [OF quiet_tx] conflict_unless_def ret_def)
qed

lemma quiet_persist:
  assumes ok: "db_ok (dp_db p)"
  shows "\<exists>p'. persist_readiness quiet s r now p = (p', Inr ()) \<and> dp_tries p' = dp_tries p
    \<and> steps_to (dp_db p) s (lane (dp_db p) s) (dp_db p')"
proof (cases "readiness_status r")
  case None
  with ok show ?thesis by (simp add: persist_readiness_def ret_def steps_to_refl)
next
  case (Some x)
  obtain st reason where x: "readiness_status r = Some (st, reason)" using Some by (metis surj_pair)
  then have st: "st \<notin> {Disabled, Paused}" by (cases r) auto
  obtain snap d' where "repo_set_runtime_status s st reason now (dp_db p) = Inr (snap, d')"
      "steps_to (dp_db p) s (lane (dp_db p) s) d'"
    using set_status_effect [OF ok st, where s = s and reason = reason and now = now] by blast
  with x show ?thesis
    by (simp add: persist_readiness_def bind_eq [OF quiet_tx] ret_def)
qed

lemma quiet_complete:
  assumes ok: "db_ok (dp_db p)" and lane: "lane (dp_db p) s = (i, t, im, Dispatching, Some u) # rest"
  shows "\<exists>p'. run_bind (svc_complete_claim quiet s i u now) (\<lambda>b. conflict_unless b why) p = (p', Inr ())
    \<and> dp_tries p' = dp_tries p \<and> steps_to (dp_db p) s rest (dp_db p')"
proof -
  obtain snap d1 where d1: "repo_snapshot s (dp_db p) = Inr (snap, d1)" "steps_to (dp_db p) s (lane (dp_db p) s) d1"
    using snapshot_effect [OF ok, of s] by blast
  have held: "held d1 s i u" "lane d1 s = (i, t, im, Dispatching, Some u) # rest"
    using d1(2) lane by (simp_all add: held_def steps_to_def)
  with complete_claim_effect [OF steps_to_ok [OF d1(2)], where s = s and item_id = i and token = u and now = now]
  obtain d2 where d2: "repo_complete_claim s i u now d1 = Inr (True, d2)" "steps_to d1 s rest d2" by auto
  have "steps_to (dp_db p) s rest d2" by (rule steps_to_trans [OF d1(2) d2(2)])
  moreover have "transact quiet (repo_snapshot s) p = (p\<lparr>dp_db := d1, dp_clock := dp_clock p + 1\<rparr>, Inr snap)"
    using d1(1) by (simp add: quiet_tx)
  moreover have "transact quiet (repo_complete_claim s i u now) (p\<lparr>dp_db := d1, dp_clock := dp_clock p + 1\<rparr>)
      = (p\<lparr>dp_db := d2, dp_clock := dp_clock p + 1 + 1\<rparr>, Inr True)"
    by (subst quiet_tx [where a = True and d' = d2]) (simp_all add: d2(1))
  ultimately show ?thesis
    by (simp add: svc_complete_claim_def bind_assoc bind_eq conflict_unless_def ret_def)
qed

lemma quiet_submit:
  assumes ok: "db_ok (dp_db p)" and lane: "lane (dp_db p) s = (i, t, im, Dispatching, Some u) # rest"
  shows "\<exists>p'. submit_claim quiet s i u prompt answer now p = (p', Inr (attempt_outcome i answer))
    \<and> dp_tries p' = dp_tries p @ [(prompt, answer)]
    \<and> steps_to (dp_db p) s (attempt_lane answer i t im rest) (dp_db p')"
proof -
  define q where "q = p\<lparr>dp_tries := dp_tries p @ [(prompt, answer)]\<rparr>"
  have q: "db_ok (dp_db q)" "lane (dp_db q) s = (i, t, im, Dispatching, Some u) # rest"
    using ok lane by (simp_all add: q_def)
  note finish = quiet_finish [OF q, where now = now]
  show ?thesis
  proof (cases answer)
    case (Inr x)
    define q' where "q' = q\<lparr>dp_marks := dp_marks q + 1\<rparr>"
    obtain p' where "run_bind (svc_complete_claim quiet s i u now)
          (\<lambda>b. conflict_unless b ''Acknowledged task queue claim is no longer current'') q' = (p', Inr ())"
        "dp_tries p' = dp_tries q'" "steps_to (dp_db q') s rest (dp_db p')"
      using quiet_complete [of q' s i t im u rest now] q by (auto simp: q'_def)
    moreover have "submit_claim quiet s i u prompt answer now p =
        run_bind (run_bind (svc_complete_claim quiet s i u now)
          (\<lambda>b. conflict_unless b ''Acknowledged task queue claim is no longer current'')) (\<lambda>_. ret (Submitted i)) q'"
      by (simp only: submit_claim_def bind_step bind_assoc Inr sum.case q_def q'_def)
    ultimately show ?thesis using Inr by (simp add: bind_eq ret_def) (simp add: q'_def q_def)
  next
    case (Inl f)
    show ?thesis
    proof (cases f)
      case (NotReady r)
      obtain p1 where p1: "requeue_claim quiet s i u now q = (p1, Inr ())" "dp_tries p1 = dp_tries q"
          "steps_to (dp_db q) s ((i, t, im, Queued, None) # rest) (dp_db p1)"
        using finish [where st = Queued and code = None and msg = None and tx = "repo_return_claim s i u now"]
        by (auto simp: requeue_claim_def repo_return_claim_def)
      obtain p' where "persist_readiness quiet s r now p1 = (p', Inr ())" "dp_tries p' = dp_tries p1"
          "steps_to (dp_db p1) s (lane (dp_db p1) s) (dp_db p')"
        using quiet_persist [OF steps_to_ok [OF p1(3)]] by blast
      moreover from this p1(3) have "steps_to (dp_db q) s ((i, t, im, Queued, None) # rest) (dp_db p')"
        by (simp add: steps_to_def)
      moreover have "submit_claim quiet s i u prompt answer now p = requeue_for_readiness quiet s i u r now q"
        by (simp only: submit_claim_def bind_step Inl NotReady sum.case submit_failure.case q_def)
      ultimately show ?thesis using Inl NotReady p1(1,2)
        by (simp add: requeue_for_readiness_def bind_eq ret_def) (simp add: q_def)
    next
      case (Definite e)
      obtain p' where "fail_claim quiet s i u e now q = (p', Inr ())" "dp_tries p' = dp_tries q"
          "steps_to (dp_db q) s ((i, t, im, Failed, None) # rest) (dp_db p')"
        using finish [where st = Failed and tx = "repo_fail_claim s i u
            (case app_code e of Some c \<Rightarrow> c | None \<Rightarrow> ''SUBMIT_FAILED'') (app_message e) now"
            and code = "Some (case app_code e of Some c \<Rightarrow> c | None \<Rightarrow> ''SUBMIT_FAILED'')" and msg = "Some (app_message e)"
            and why = "''Failed task queue claim is no longer current''"]
        by (auto simp: fail_claim_def repo_fail_claim_def)
      moreover have "submit_claim quiet s i u prompt answer now p
          = run_bind (fail_claim quiet s i u e now) (\<lambda>_. ret (FailedItem i)) q"
        by (simp only: submit_claim_def bind_step Inl Definite sum.case submit_failure.case q_def)
      ultimately show ?thesis using Inl Definite by (simp add: bind_eq ret_def) (simp add: q_def)
    next
      case (SubmitUnknown e)
      obtain p' where "run_bind (transact quiet (repo_mark_delivery_unknown s i u (app_message e) now))
            (\<lambda>b. conflict_unless b ''Unknown-delivery task queue claim is no longer current'') q = (p', Inr ())"
          "dp_tries p' = dp_tries q" "steps_to (dp_db q) s ((i, t, im, DeliveryUnknown, None) # rest) (dp_db p')"
        using finish [where st = DeliveryUnknown and tx = "repo_mark_delivery_unknown s i u (app_message e) now"
            and code = "Some ''DELIVERY_UNKNOWN''" and msg = "Some (app_message e)"
            and why = "''Unknown-delivery task queue claim is no longer current''"]
        by (auto simp: repo_mark_delivery_unknown_def)
      moreover have "submit_claim quiet s i u prompt answer now p
          = run_bind (run_bind (transact quiet (repo_mark_delivery_unknown s i u (app_message e) now))
            (\<lambda>b. conflict_unless b ''Unknown-delivery task queue claim is no longer current'')) (\<lambda>_. ret (UnknownItem i)) q"
        by (simp only: submit_claim_def bind_step bind_assoc Inl SubmitUnknown sum.case submit_failure.case q_def)
      ultimately show ?thesis using Inl SubmitUnknown by (simp add: bind_eq ret_def) (simp add: q_def)
    qed
  qed
qed

lemma claim_runtime:
  assumes "repo_claim_next u s g now d = Inr (c, d')"
  shows "db_runtime d' = db_runtime d"
  using assms
  by (auto simp: repo_claim_next_def sql_update_items_def sql_update_queues_def res_bind_def
      split: sum.splits option.splits if_splits prod.splits)

lemma quiet_blocker:
  assumes "db_runtime (dp_db p) = Some r" and "qr_enabled r" and "qr_generation r = g"
  shows "runtime_blocker quiet g p = (p\<lparr>dp_clock := dp_clock p + 1\<rparr>, Inr None)"
proof -
  have "read_runtime_tx (dp_db p) = Inr (r, dp_db p)" using assms(1) by (simp add: read_runtime_tx_def read_runtime_def)
  with assms show ?thesis by (simp add: runtime_blocker_def bind_eq [OF quiet_tx] ret_def)
qed

text \<open>An undisturbed check that claims the first task.\<close>

lemma quiet_claim:
  assumes ok: "db_ok d" and lane: "lane d s = (i, t, im, Queued, None) # rest" and claimable: "claimable d s generation"
  obtains claim d2 where
    "check_session quiet resolve uuid s (Inr Ready) ready2 answer now (dispatch_start d)
      = dispatch_claim quiet resolve s claim ready2 answer now \<lparr>dp_db = d2, dp_clock = 3, dp_tries = [], dp_marks = 0\<rparr>"
    "\<And>n. runtime_blocker quiet generation \<lparr>dp_db = d2, dp_clock = n, dp_tries = [], dp_marks = 0\<rparr>
      = (\<lparr>dp_db = d2, dp_clock = n + 1, dp_tries = [], dp_marks = 0\<rparr>, Inr None)"
    "queue_exec d (ClaimNext uuid s generation now) = d2"
    "steps_to d s ((i, t, im, Dispatching, Some uuid) # rest) d2"
    "qc_token claim = uuid" "qc_generation claim = generation"
    "ti_id (qc_item claim) = i" "ti_text (qc_item claim) = t" "ti_images (qc_item claim) = im"
    "ti_session (qc_item claim) = s"
proof -
  from claimable obtain run q where run: "db_runtime d = Some run" "qr_enabled run" "qr_generation run = generation"
      and q: "find_queue d s = Some q" "\<not> q_paused q"
    by (auto simp: claimable_def split: option.splits)
  have runtime: "read_runtime_tx d = Inr (run, d)" using run by (simp add: read_runtime_tx_def read_runtime_def)
  obtain snap where snap: "repo_snapshot s d = Inr (snap, d)" "qs_items snap = fetch_items d s" "qs_paused snap = q_paused q"
    using ok q run by (simp add: repo_snapshot_def ensure_queue_found with_snapshot_def read_snapshot_def read_runtime_def Let_def)
  obtain row rows where head: "session_items d s = row # rows" "i_state row = Queued"
    using lane by (auto simp: lane_def lane_item_def)
  have items: "qs_items snap = parse_raw_item row # map parse_raw_item rows"
    using snap(2) head by (simp add: fetch_items_eq [OF ok])
  obtain claim d2 where claim: "repo_claim_next uuid s generation now d = Inr (Some claim, d2)"
      "steps_to d s ((i, t, im, Dispatching, Some uuid) # rest) d2" "qc_token claim = uuid" "qc_generation claim = generation"
      "ti_id (qc_item claim) = i" "ti_text (qc_item claim) = t" "ti_images (qc_item claim) = im" "ti_session (qc_item claim) = s"
    using claim_next_effect [OF ok, where s = s and generation = generation and uuid = uuid and now = now] claimable lane by auto
  have run2: "db_runtime d2 = Some run" using claim_runtime [OF claim(1)] run(1) by simp
  have blocker: "runtime_blocker quiet generation \<lparr>dp_db = d2, dp_clock = n, dp_tries = [], dp_marks = 0\<rparr>
      = (\<lparr>dp_db = d2, dp_clock = n + 1, dp_tries = [], dp_marks = 0\<rparr>, Inr None)" for n
    by (subst quiet_blocker [OF _ run(2,3)]) (simp_all add: run2)
  have tx: "transact quiet read_runtime_tx (dispatch_start d) = (\<lparr>dp_db = d, dp_clock = 1, dp_tries = [], dp_marks = 0\<rparr>, Inr run)"
    "transact quiet (repo_snapshot s) \<lparr>dp_db = d, dp_clock = 1, dp_tries = [], dp_marks = 0\<rparr>
      = (\<lparr>dp_db = d, dp_clock = 2, dp_tries = [], dp_marks = 0\<rparr>, Inr snap)"
    "transact quiet (repo_claim_next uuid s generation now) \<lparr>dp_db = d, dp_clock = 2, dp_tries = [], dp_marks = 0\<rparr>
      = (\<lparr>dp_db = d2, dp_clock = 3, dp_tries = [], dp_marks = 0\<rparr>, Inr (Some claim))"
    using runtime snap(1) claim(1) by (simp_all add: quiet_tx dispatch_start_def)
  have "check_session quiet resolve uuid s (Inr Ready) ready2 answer now (dispatch_start d)
      = dispatch_claim quiet resolve s claim ready2 answer now \<lparr>dp_db = d2, dp_clock = 3, dp_tries = [], dp_marks = 0\<rparr>"
    using run items q snap(3) head(2)
    by (simp add: check_session_def bind_eq tx of_res_def parse_raw_item_def del: One_nat_def)
  moreover have "queue_exec d (ClaimNext uuid s generation now) = d2" using claim(1) by (simp add: after_def)
  ultimately show thesis using blocker claim(2-) by (intro that)
qed

text \<open>
  Property C17. What an undisturbed check does: when the queue is running, its first task waits,
  the backend is ready and the images of the task resolve, the check hands over exactly the
  composed prompt of this task, once, and the lane afterwards is the lane without the task when
  the write was acknowledged, the lane unchanged when the session had become busy, and the lane
  with the task marked failed or of unknown delivery otherwise. Other sessions' lanes and the
  tasks behind it are untouched, and the outcome says which of these happened.
\<close>

theorem check_delivers_the_first_task:
  assumes "lane (queue_run start ops) s = (i, t, im, Queued, None) # rest"
    and "claimable (queue_run start ops) s generation"
    and "collect_paths (resolve s) im = Inr paths"
  shows "case check_session quiet resolve uuid s (Inr Ready) (Inr Ready) answer now (dispatch_start (queue_run start ops)) of
    (p, r) \<Rightarrow> r = Inr (attempt_outcome i answer)
      \<and> dp_tries p = [(compose_prompt paths t, answer)]
      \<and> (\<forall>s'. lane (dp_db p) s' =
          (if s' = s then attempt_lane answer i t im rest else lane (queue_run start ops) s'))"
proof -
  define d where "d = queue_run start ops"
  have ok: "db_ok d" unfolding d_def by (rule queue_run_ok)
  obtain claim d2 where claim: "check_session quiet resolve uuid s (Inr Ready) (Inr Ready) answer now (dispatch_start d)
      = dispatch_claim quiet resolve s claim (Inr Ready) answer now \<lparr>dp_db = d2, dp_clock = 3, dp_tries = [], dp_marks = 0\<rparr>"
    "\<And>n. runtime_blocker quiet generation \<lparr>dp_db = d2, dp_clock = n, dp_tries = [], dp_marks = 0\<rparr>
      = (\<lparr>dp_db = d2, dp_clock = n + 1, dp_tries = [], dp_marks = 0\<rparr>, Inr None)"
    "steps_to d s ((i, t, im, Dispatching, Some uuid) # rest) d2"
    "qc_token claim = uuid" "qc_generation claim = generation"
    "ti_id (qc_item claim) = i" "ti_text (qc_item claim) = t" "ti_images (qc_item claim) = im"
    "ti_session (qc_item claim) = s"
    by (rule quiet_claim [OF ok assms(1,2) [folded d_def]]) blast
  define p where "p = (\<lparr>dp_db = d2, dp_clock = 5, dp_tries = [], dp_marks = 0\<rparr> :: dispatch)"
  obtain p' where p': "submit_claim quiet s i uuid (compose_prompt paths t) answer now p = (p', Inr (attempt_outcome i answer))"
      "dp_tries p' = dp_tries p @ [(compose_prompt paths t, answer)]"
      "steps_to (dp_db p) s (attempt_lane answer i t im rest) (dp_db p')"
    using quiet_submit [of p s i t im uuid rest "compose_prompt paths t" answer now] steps_to_ok [OF claim(3)] claim(3)
    by (auto simp: p_def steps_to_def)
  have prompt: "effective_prompt resolve s (qc_item claim) = Inr (compose_prompt paths t)"
    using claim assms(3) by (simp add: effective_prompt_def)
  have "check_session quiet resolve uuid s (Inr Ready) (Inr Ready) answer now (dispatch_start d)
      = (p', Inr (attempt_outcome i answer))"
    using p'(1) claim prompt by (simp add: dispatch_claim_def bind_eq of_res_def p_def)
  with p'(2,3) claim(3) show ?thesis unfolding d_def [symmetric] by (simp add: p_def steps_to_def)
qed

lemma sample_lane: "lane (queue_run 0 [AddItem ''a'' ''s'' sample_draft 1]) ''s'' = [(''a'', ''x'', [], Queued, None)]"
  "claimable (queue_run 0 [AddItem ''a'' ''s'' sample_draft 1]) ''s'' 0"
  unfolding queue_run_def foldl.simps sample_added
  by (simp_all add: lane_def lane_item_def session_items_def claimable_def find_queue_def)

theorem check_delivers_the_first_task_witness:
  "case check_session quiet (\<lambda>s r. Inr r) ''t'' ''s'' (Inr Ready) (Inr Ready) (Inr ()) 2
      (dispatch_start (queue_run 0 [AddItem ''a'' ''s'' sample_draft 1])) of
    (p, r) \<Rightarrow> r = Inr (attempt_outcome ''a'' (Inr ())) \<and> dp_tries p = [(compose_prompt [] ''x'', Inr ())]
      \<and> (\<forall>s'. lane (dp_db p) s' = (if s' = ''s'' then attempt_lane (Inr ()) ''a'' ''x'' [] []
          else lane (queue_run 0 [AddItem ''a'' ''s'' sample_draft 1]) s'))"
  by (rule check_delivers_the_first_task [OF sample_lane]) simp

text \<open>
  The gap: when the readiness question asked after the claim is answered with an error, the
  check ends with this error and the task stays claimed. Until the application is restarted no
  operation of a client releases it: further checks do nothing, and deleting, clearing and
  retrying are refused or leave it.
\<close>

lemma failing_readiness:
  "case check_session quiet resolve ''t'' ''s'' (Inr Ready) (Inl e) answer 2
      (dispatch_start (queue_run 0 [AddItem ''a'' ''s'' sample_draft 1])) of
    (p, r) \<Rightarrow> r = Inl e \<and> dp_tries p = [] \<and> dp_db p = queue_run 0 [AddItem ''a'' ''s'' sample_draft 1, ClaimNext ''t'' ''s'' 0 2]"
proof -
  let ?d = "queue_run 0 [AddItem ''a'' ''s'' sample_draft 1]"
  have run: "queue_run 0 [AddItem ''a'' ''s'' sample_draft 1, ClaimNext ''t'' ''s'' 0 2] = queue_exec ?d (ClaimNext ''t'' ''s'' 0 2)"
    by (simp only: queue_run_def foldl.simps)
  obtain claim d2 where "check_session quiet resolve ''t'' ''s'' (Inr Ready) (Inl e) answer 2 (dispatch_start ?d)
      = dispatch_claim quiet resolve ''s'' claim (Inl e) answer 2 \<lparr>dp_db = d2, dp_clock = 3, dp_tries = [], dp_marks = 0\<rparr>"
    "\<And>n. runtime_blocker quiet 0 \<lparr>dp_db = d2, dp_clock = n, dp_tries = [], dp_marks = 0\<rparr>
      = (\<lparr>dp_db = d2, dp_clock = n + 1, dp_tries = [], dp_marks = 0\<rparr>, Inr None)"
    "queue_exec ?d (ClaimNext ''t'' ''s'' 0 2) = d2" "qc_generation claim = 0"
    by (rule quiet_claim [OF queue_run_ok sample_lane]) blast
  then show ?thesis unfolding run by (simp add: dispatch_claim_def run_bind_def of_res_def)
qed

theorem readiness_error_strands_the_claim:
  "case check_session quiet resolve ''t'' ''s'' (Inr Ready) (Inl e) answer 2
      (dispatch_start (queue_run 0 [AddItem ''a'' ''s'' sample_draft 1])) of
    (p, r) \<Rightarrow> r = Inl e \<and> lane (dp_db p) ''s'' = [(''a'', ''x'', [], Dispatching, Some ''t'')]
      \<and> repo_claim_next uuid ''s'' generation now (dp_db p) = Inr (None, dp_db p)
      \<and> lane (queue_exec (dp_db p) (DeleteItem ''s'' ''a'' now)) ''s'' = lane (dp_db p) ''s''
      \<and> lane (queue_exec (dp_db p) (ClearQueue ''s'' now)) ''s'' = lane (dp_db p) ''s''
      \<and> lane (queue_exec (dp_db p) (RetryItem ''s'' ''a'' now)) ''s'' = lane (dp_db p) ''s''"
proof -
  let ?d = "queue_run 0 [AddItem ''a'' ''s'' sample_draft 1, ClaimNext ''t'' ''s'' 0 2]"
  have held: "lane (queue_exec ?d op) ''s'' = lane ?d ''s''"
    if "op \<in> {DeleteItem ''s'' ''a'' now, ClearQueue ''s'' now, RetryItem ''s'' ''a'' now}" for op
    using held_step [OF queue_run_ok sample_claimed, of op] exec_acts [OF queue_run_ok, of 0 _ op] that
    by (auto simp: acts_as_def sample_claimed)
  have "\<not> claimable ?d ''s'' generation" by (simp add: claimable_def sample_claimed split: option.split)
  with claim_next_effect [OF queue_run_ok, where s = "''s''" and generation = generation and uuid = uuid and now = now]
  have "repo_claim_next uuid ''s'' generation now ?d = Inr (None, ?d)" by simp
  moreover obtain p r where check: "check_session quiet resolve ''t'' ''s'' (Inr Ready) (Inl e) answer 2
      (dispatch_start (queue_run 0 [AddItem ''a'' ''s'' sample_draft 1])) = (p, r)"
    by (metis surj_pair)
  moreover have "r = Inl e" "dp_db p = ?d"
    using failing_readiness [where resolve = resolve and e = e and answer = answer] unfolding check prod.case by simp_all
  ultimately show ?thesis using held sample_claimed by (simp only: prod.case insertI1 insertI2 simp_thms)
qed

section \<open>The scan\<close>

text \<open>\<open>n\<close> scans in a row.\<close>

fun scans :: "'a list \<Rightarrow> nat \<Rightarrow> nat \<Rightarrow> nat \<Rightarrow> nat \<times> 'a list" where
  "scans sessions cursor limit 0 = (cursor, [])"
| "scans sessions cursor limit (Suc n) =
    (case next_scan_batch sessions cursor limit of
       (cursor', batch) \<Rightarrow> (case scans sessions cursor' limit n of (c, rest) \<Rightarrow> (c, batch @ rest)))"

text \<open>A batch is the next stretch of the sessions, read as a ring.\<close>

lemma scan_ring:
  assumes "sessions \<noteq> []" and "0 < limit"
  shows "next_scan_batch sessions cursor limit =
    ((cursor + min (length sessions) limit) mod length sessions,
     map (\<lambda>k. sessions ! (k mod length sessions)) [cursor..<cursor + min (length sessions) limit])"
proof -
  have "map (\<lambda>k. sessions ! ((cursor mod length sessions + k) mod length sessions)) [0..<n]
      = map (\<lambda>k. sessions ! (k mod length sessions)) [cursor..<cursor + n]" for n
    by (rule nth_equalityI) (simp_all add: mod_add_left_eq)
  with assms show ?thesis by (simp add: next_scan_batch_def Let_def mod_add_left_eq)
qed

lemma ring_mod:
  fixes c :: nat
  shows "map (\<lambda>k. sessions ! (k mod length sessions)) [c mod length sessions..<c mod length sessions + n]
    = map (\<lambda>k. sessions ! (k mod length sessions)) [c..<c + n]"
  by (rule nth_equalityI) (simp_all add: mod_add_left_eq)

lemma scans_ring:
  assumes "sessions \<noteq> []" and "0 < limit"
  shows "snd (scans sessions cursor limit n) =
    map (\<lambda>k. sessions ! (k mod length sessions)) [cursor..<cursor + n * min (length sessions) limit]"
proof (induction n arbitrary: cursor)
  case 0
  then show ?case by simp
next
  case (Suc n)
  let ?m = "min (length sessions) limit"
  have "[cursor..<cursor + Suc n * ?m] = [cursor..<cursor + ?m] @ [cursor + ?m..<cursor + ?m + n * ?m]"
    using upt_add_eq_append [of cursor "cursor + ?m" "n * ?m"] by (simp add: add.assoc)
  then show ?case
    by (simp add: scan_ring [OF assms] Suc.IH ring_mod split: prod.split)
       (metis Suc.IH ring_mod snd_conv)
qed

lemma scans_ring_all:
  "snd (scans sessions cursor limit n) =
    map (\<lambda>k. sessions ! (k mod length sessions)) [cursor..<cursor + n * min (length sessions) limit]"
proof (cases "sessions = [] \<or> limit = 0")
  case True
  then have "snd (scans sessions cursor limit n) = []"
    by (induction n arbitrary: cursor) (auto simp: next_scan_batch_def split: prod.split)
  with True show ?thesis by auto
qed (simp add: scans_ring)

text \<open>
  The worker's scan is fair. From any cursor (one left by a longer list included)
  scans in a row ask the active sessions one after the other around the ring, without skipping
  one and without asking one twice before all others were asked, and as many scans as it takes
  to cover the list reach every session.
\<close>

theorem scans_reach_every_session:
  assumes "length sessions \<le> n * limit"
  shows "set (snd (scans sessions cursor limit n)) = set sessions
    \<and> snd (scans sessions cursor limit m) =
        map (\<lambda>k. sessions ! (k mod length sessions)) [cursor..<cursor + m * min (length sessions) limit]"
proof
  show "snd (scans sessions cursor limit m) =
      map (\<lambda>k. sessions ! (k mod length sessions)) [cursor..<cursor + m * min (length sessions) limit]"
    by (rule scans_ring_all)
  let ?len = "length sessions"
  have long: "?len \<le> n * min ?len limit"
    using assms by (cases "?len \<le> limit"; cases n) auto
  have "set (map (\<lambda>k. sessions ! (k mod ?len)) [cursor..<cursor + n * min ?len limit]) = set sessions"
  proof (intro equalityI subsetI)
    fix x assume "x \<in> set (map (\<lambda>k. sessions ! (k mod ?len)) [cursor..<cursor + n * min ?len limit])"
    then obtain k where "k < cursor + n * min ?len limit" "cursor \<le> k" "x = sessions ! (k mod ?len)" by auto
    moreover from this have "0 < ?len" by (cases "?len") auto
    ultimately show "x \<in> set sessions" by simp
  next
    fix x assume "x \<in> set sessions"
    then obtain j where j: "j < ?len" "x = sessions ! j" by (auto simp: in_set_conv_nth)
    then have pos: "0 < ?len" by (cases sessions) auto
    define k where "k = cursor + (?len + j - cursor mod ?len) mod ?len"
    have "k mod ?len = (cursor mod ?len + (?len + j - cursor mod ?len)) mod ?len"
      unfolding k_def by (metis mod_add_left_eq mod_add_right_eq)
    also have "cursor mod ?len + (?len + j - cursor mod ?len) = ?len + j"
      using j(1) by (intro le_add_diff_inverse) (metis gr_implies_not0 less_imp_le mod_less_divisor neq0_conv trans_le_add1)
    finally have "k mod ?len = j" using j(1) by simp
    moreover have "cursor \<le> k" "k < cursor + ?len"
      unfolding k_def by (simp, intro add_strict_left_mono mod_less_divisor pos)
    ultimately show "x \<in> set (map (\<lambda>k. sessions ! (k mod ?len)) [cursor..<cursor + n * min ?len limit])"
      using j(2) long by (auto intro!: rev_image_eqI [where x = k])
  qed
  then show "set (snd (scans sessions cursor limit n)) = set sessions"
    by (simp only: scans_ring_all)
qed

theorem scans_reach_every_session_witness:
  "set (snd (scans [1, 2, 3, 4, 5 :: nat] 7 2 3)) = set [1, 2, 3, 4, 5]
    \<and> snd (scans [1, 2, 3, 4, 5 :: nat] 7 2 2)
      = map (\<lambda>k. [1, 2, 3, 4, 5] ! (k mod length [1, 2, 3, 4, 5 :: nat])) [7..<7 + 2 * min (length [1, 2, 3, 4, 5 :: nat]) 2]"
  by (rule scans_reach_every_session) simp

section \<open>Permission decisions\<close>

text \<open>Decisions are only ever added; there is one per session and tool use.\<close>

definition decision_of :: "db \<Rightarrow> string \<Rightarrow> string \<Rightarrow> string option" where
  "decision_of d s tool_use =
    map_option d_fingerprint (find (\<lambda>r. d_session r = s \<and> d_tool_use r = tool_use) (db_decisions d))"

lemma find_app: "find P (xs @ ys) = (case find P xs of Some x \<Rightarrow> Some x | None \<Rightarrow> find P ys)"
  by (induction xs) auto

lemma upsert_decision:
  assumes "upsert_permission_decision s t fp now d = Inr (r, d')"
  shows "decision_of d' s' t' = (if s' = s \<and> t' = t \<and> decision_of d s t = None then Some fp else decision_of d s' t')"
    and "r = (case decision_of d s t of
        None \<Rightarrow> \<lparr>dc_status = Inserted, dc_decision = Some ''allow''\<rparr>
      | Some fp' \<Rightarrow> if fp' = fp then \<lparr>dc_status = Existing, dc_decision = Some ''allow''\<rparr>
          else \<lparr>dc_status = FingerprintMismatch, dc_decision = None\<rparr>)"
  using assms
  by (auto simp: upsert_permission_decision_def decision_of_def find_app split: option.splits if_splits)

lemma record_decision_of:
  assumes "repo_record_permission_decision s t fp now d = Inr (r, d')"
  shows "decision_of d' s' t' = (if s' = s \<and> t' = t \<and> decision_of d s t = None then Some fp else decision_of d s' t')"
proof -
  have "decision_of (ensure_queue s now d) = decision_of d" by (simp add: ensure_queue_def decision_of_def fun_eq_iff)
  with assms show ?thesis
    by (auto simp: repo_record_permission_decision_def res_bind_def split: sum.splits dest!: upsert_decision(1) [where s' = s' and t' = t'])
qed

text \<open>The other operations leave the decisions alone.\<close>

definition keeps_decisions :: "db \<Rightarrow> 'a tx \<Rightarrow> bool" where
  "keeps_decisions d x \<longleftrightarrow> db_decisions (after x d) = db_decisions d"

lemma decisions_ensure [simp]:
  "db_decisions (ensure_queue s now d) = db_decisions d" "db_decisions (ensure_runtime now d) = db_decisions d"
  "db_decisions (sql_delete_items d P) = db_decisions d"
  by (simp_all add: ensure_queue_def ensure_runtime_def sql_delete_items_def)

lemma decisions_sql:
  "sql_update_items d P f = Inr (n, d') \<Longrightarrow> db_decisions d' = db_decisions d"
  "sql_update_queues d Q g = Inr (n, d') \<Longrightarrow> db_decisions d' = db_decisions d"
  "sql_insert_item d r = Inr d' \<Longrightarrow> db_decisions d' = db_decisions d"
  by (auto simp: sql_update_items_def sql_update_queues_def sql_insert_item_def res_bind_def
      split: sum.splits if_splits)

lemma decisions_helpers:
  "bump_queue_revision s now d = Inr d' \<Longrightarrow> db_decisions d' = db_decisions d"
  "shift_down s pos now d = Inr d' \<Longrightarrow> db_decisions d' = db_decisions d"
  "set_flag s now f v d = Inr d' \<Longrightarrow> db_decisions d' = db_decisions d"
  "with_snapshot s d = Inr (snap, d') \<Longrightarrow> d' = d"
  by (auto simp: bump_queue_revision_def shift_down_def set_flag_def with_snapshot_def res_bind_def
      split: sum.splits option.splits dest: decisions_sql)

lemmas decisions_lemmas = decisions_sql decisions_helpers

lemma finish_decisions: "repo_finish_claim s i tok st code msg now d = Inr (b, d') \<Longrightarrow> db_decisions d' = db_decisions d"
  by (auto simp: repo_finish_claim_def res_bind_def split: sum.splits if_splits dest!: decisions_lemmas)

lemma exec_decisions:
  assumes "case op of RecordDecision s t fp now \<Rightarrow> False | RecordIfEligible s t fp now \<Rightarrow> False | _ \<Rightarrow> True"
  shows "db_decisions (queue_exec d op) = db_decisions d"
proof -
  have repo: "keeps_decisions d (repo_set_global_enabled b now d)" "keeps_decisions d (repo_snapshot s d)"
    "keeps_decisions d (repo_add_item uuid s draft now d)" "keeps_decisions d (repo_delete_item s i now d)"
    "keeps_decisions d (repo_clear_queue s now d)" "keeps_decisions d (repo_update_control s patch now d)"
    "keeps_decisions d (repo_retry_item s i now d)" "keeps_decisions d (repo_set_runtime_status s st reason now d)"
    "keeps_decisions d (repo_claim_next uuid s g now d)" "keeps_decisions d (repo_complete_claim s i tok now d)"
    "keeps_decisions d (repo_return_claim s i tok now d)" "keeps_decisions d (repo_fail_claim s i tok code msg now d)"
    "keeps_decisions d (repo_mark_delivery_unknown s i tok msg now d)" "keeps_decisions d (repo_recover_inflight now d)"
    for b now s uuid draft i patch st reason g tok code msg
    unfolding keeps_decisions_def after_def
    by (auto simp: repo_set_global_enabled_def repo_snapshot_def repo_add_item_def repo_delete_item_def
        repo_clear_queue_def repo_update_control_def repo_retry_item_def repo_set_runtime_status_def
        repo_claim_next_def repo_complete_claim_def repo_return_claim_def repo_fail_claim_def
        repo_mark_delivery_unknown_def repo_recover_inflight_def res_bind_def Let_def
        split: sum.splits option.splits if_splits dest!: decisions_lemmas finish_decisions)
  with assms show ?thesis by (cases op) (simp_all add: keeps_decisions_def)
qed

lemma decision_step:
  assumes "decision_of d s t = Some fp"
  shows "decision_of (queue_exec d op) s t = Some fp"
proof (cases "case op of RecordDecision s t fp now \<Rightarrow> False | RecordIfEligible s t fp now \<Rightarrow> False | _ \<Rightarrow> True")
  case True
  with exec_decisions [of op d] assms show ?thesis by (simp add: decision_of_def)
next
  case False
  with assms show ?thesis
    by (cases op)
      (auto simp: after_def repo_record_if_eligible_def res_bind_def split: sum.splits if_splits
        dest!: record_decision_of [where s' = s and t' = t] upsert_decision(1) [where s' = s and t' = t])
qed

lemma decision_run: "decision_of d s t = Some fp \<Longrightarrow> decision_of (foldl queue_exec d ops) s t = Some fp"
  by (induction ops arbitrary: d) (simp_all add: decision_step)

lemma authorize_effect:
  assumes "authorize_unattended s cli_tool request status writable fingerprint now d = Inr (verdict, d')"
  shows "if verdict = NoDecision then True
    else cli_tool = ''claude'' \<and> (\<exists>tool_name t st fp. request = Some (tool_name, t) \<and> tool_name \<noteq> ''AskUserQuestion''
      \<and> status = Inr (Some st) \<and> \<not> is_terminal st \<and> writable = Inr True \<and> fingerprint = Inr fp
      \<and> decision_eligible s d \<and> decision_of d' s t = Some fp
      \<and> (verdict = AllowNew \<longleftrightarrow> decision_of d s t = None)
      \<and> (case decision_of d s t of None \<Rightarrow> True | Some fp' \<Rightarrow> fp' = fp))"
proof (cases "verdict = NoDecision")
  case False
  with assms obtain tool_name t st fp rec where req: "cli_tool = ''claude''" "request = Some (tool_name, t)"
      "tool_name \<noteq> ''AskUserQuestion''" "status = Inr (Some st)" "\<not> is_terminal st" "writable = Inr True"
      "fingerprint = Inr fp" "repo_record_if_eligible s t fp now d = Inr (Some rec, d')"
      and verdict: "verdict = (if dc_status rec = Inserted \<and> dc_decision rec = Some ''allow'' then AllowNew
        else if dc_status rec = Existing \<and> dc_decision rec = Some ''allow'' then AllowExisting else NoDecision)"
    by (auto simp: authorize_unattended_def res_bind_def split: if_splits option.splits sum.splits prod.splits)
  from req(8) have el: "decision_eligible s d" and up: "upsert_permission_decision s t fp now d = Inr (rec, d')"
    by (auto simp: repo_record_if_eligible_def res_bind_def split: sum.splits if_splits)
  show ?thesis
    using False req el verdict upsert_decision [OF up]
    by (auto split: option.splits if_splits)
qed simp

lemma authorize_final:
  assumes "decision_of d s t = Some fp"
  shows "case authorize_unattended s' cli_tool request status writable fingerprint now d of
         Inl e \<Rightarrow> True
       | Inr (verdict, d') \<Rightarrow> if verdict = NoDecision then True
           else cli_tool = ''claude'' \<and> (\<exists>tool_name t' st fp'. request = Some (tool_name, t')
             \<and> tool_name \<noteq> ''AskUserQuestion'' \<and> status = Inr (Some st) \<and> \<not> is_terminal st
             \<and> writable = Inr True \<and> fingerprint = Inr fp' \<and> decision_eligible s' d
             \<and> decision_of d' s' t' = Some fp'
             \<and> (if s' = s \<and> t' = t then fp' = fp \<and> verdict = AllowExisting else True))"
proof (cases "authorize_unattended s' cli_tool request status writable fingerprint now d")
  case (Inl e)
  then show ?thesis by simp
next
  case (Inr x)
  obtain verdict d' where x: "x = (verdict, d')" by (cases x)
  show ?thesis
  proof (cases "verdict = NoDecision")
    case True
    with Inr x show ?thesis by simp
  next
    case False
    with authorize_effect [OF Inr [unfolded x]] obtain tool_name t' st fp' where eff: "cli_tool = ''claude''"
        "request = Some (tool_name, t')" "tool_name \<noteq> ''AskUserQuestion''" "status = Inr (Some st)" "\<not> is_terminal st"
        "writable = Inr True" "fingerprint = Inr fp'" "decision_eligible s' d" "decision_of d' s' t' = Some fp'"
        "verdict = AllowNew \<longleftrightarrow> decision_of d s' t' = None"
        "case decision_of d s' t' of None \<Rightarrow> True | Some fp0 \<Rightarrow> fp0 = fp'"
      by auto
    have "if s' = s \<and> t' = t then fp' = fp \<and> verdict = AllowExisting else True"
      using eff(10,11) assms False by (cases verdict) auto
    with eff False show ?thesis unfolding Inr x sum.case prod.case by auto
  qed
qed


lemma sample_decision:
  "decision_of (queue_run 0 [RecordDecision ''s'' ''t'' ''f'' 1]) ''s'' ''t'' = Some ''f''"
proof -
  have "trim ''t'' \<noteq> []" "trim ''f'' \<noteq> []" by code_simp+
  then show ?thesis
    by (simp add: queue_run_def queue_eval repo_record_permission_decision_def validate_permission_decision_key_def
        upsert_permission_decision_def decision_of_def)
qed


end
