(* ===== verification/Ws_Emitter.thy ===== *)
theory Ws_Emitter
  imports Session_State
begin

text \<open>
  The daemon's event emitter (\<open>cc-panes-daemon/src/ws_emitter.rs\<close>) with the choice between two
  captured resume ids (\<open>services/resume_identity.rs\<close>): one bounded channel per subscription,
  the desynchronisation marker for output that could not be delivered, the gate for connections
  that hide a session, the retained identity events and the control channel. Every operation
  runs under a lock of the emitter and is one step. A bounded channel of tokio is the list of
  the messages it accepted, how many of them were received, and whether its receiver is gone;
  its number stands for its identity. A message is the JSON text of the code, given by the
  value it encodes.
\<close>

section \<open>Captured resume ids\<close>

definition source_priority :: "string \<Rightarrow> nat" where
  "source_priority source =
    (if source = ''manual'' then 40
     else if source = ''hook'' then 35
     else if source \<in> {''issued'', ''osc-title''} then 30
     else if source \<in> {''rollout-scan'', ''backfill'', ''pi-session-file'', ''cursor-chat-scan''} then 10
     else if source = ''rescue'' then 5
     else 0)"

definition should_replace_source :: "string option \<Rightarrow> string \<Rightarrow> bool" where
  "should_replace_source existing incoming =
    (case existing of Some source \<Rightarrow> source_priority source \<le> source_priority incoming | None \<Rightarrow> True)"

definition should_retain_incoming :: "string option \<Rightarrow> string option \<Rightarrow> string \<Rightarrow> string \<Rightarrow> bool" where
  "should_retain_incoming existing_source existing_resume_id incoming_source incoming_resume_id =
    (if (case existing_source of
           Some source \<Rightarrow> strip_prefix ''clear-tombstone:'' source = Some incoming_resume_id
         | None \<Rightarrow> False)
     then False
     else
       (case (existing_source, existing_resume_id) of
          (Some source, Some resume_id) \<Rightarrow>
            (let incoming_priority = source_priority incoming_source;
                 existing_priority = source_priority source
             in if existing_priority < incoming_priority then True
                else incoming_priority = existing_priority \<and> resume_id \<noteq> incoming_resume_id)
        | _ \<Rightarrow> True))"

section \<open>Channels\<close>

record 'm channel =
  ch_id :: nat
  ch_sent :: "'m list"
  ch_taken :: nat
  ch_closed :: bool

datatype send_outcome = Sent | Full | Closed

definition new_channel :: "nat \<Rightarrow> 'm channel" where
  "new_channel n = \<lparr>ch_id = n, ch_sent = [], ch_taken = 0, ch_closed = False\<rparr>"

definition ch_waiting :: "'m channel \<Rightarrow> nat" where
  "ch_waiting c = length (ch_sent c) - ch_taken c"

definition try_send :: "nat \<Rightarrow> 'm \<Rightarrow> 'm channel \<Rightarrow> 'm channel \<times> send_outcome" where
  "try_send capacity msg c =
    (if ch_closed c then (c, Closed)
     else if capacity \<le> ch_waiting c then (c, Full)
     else (c\<lparr>ch_sent := ch_sent c @ [msg]\<rparr>, Sent))"

definition receive :: "'m channel \<Rightarrow> 'm channel" where
  "receive c = (if ch_taken c < length (ch_sent c) then c\<lparr>ch_taken := ch_taken c + 1\<rparr> else c)"

section \<open>Messages and state\<close>

datatype ws_msg = WOutput string "nat option" | WExit int | WKilled string | WDesync

datatype control_msg =
    CLaunchWarning json
  | CNotifier string string "int option"
  | CCheckpointRequest string
  | CSessionKilled string string
  | CResumeIdDetected json

definition SESSION_CHANNEL_CAPACITY :: nat where
  "SESSION_CHANNEL_CAPACITY = 256"

definition CONTROL_CHANNEL_CAPACITY :: nat where
  "CONTROL_CHANNEL_CAPACITY = 1024"

definition MAX_RETAINED_IDENTITY_EVENTS :: nat where
  "MAX_RETAINED_IDENTITY_EVENTS = 1024"

record subscriber =
  sb_tx :: "ws_msg channel"
  sb_desynced :: bool
  sb_connection :: "string option"
  sb_hidden :: bool
  sb_dropped_while_hidden :: bool

record identity_store =
  is_by_session :: "string \<Rightarrow> json option"
  is_order :: "string list"

text \<open>\<open>we_persists\<close> lists the sessions scheduled for persistence, if there is a store.\<close>

record ws_emitter =
  we_subscribers :: "string \<Rightarrow> subscriber list option"
  we_control :: "control_msg channel list"
  we_persists :: "string list option"
  we_identity :: identity_store

definition ws_new :: ws_emitter where
  "ws_new = \<lparr>we_subscribers = (\<lambda>_. None), we_control = [], we_persists = None,
    we_identity = \<lparr>is_by_session = (\<lambda>_. None), is_order = []\<rparr>\<rparr>"

definition set_output_store :: "ws_emitter \<Rightarrow> ws_emitter" where
  "set_output_store e = e\<lparr>we_persists := Some []\<rparr>"

section \<open>Subscribing and hiding\<close>

definition subscribe_with_connection :: "nat \<Rightarrow> string \<Rightarrow> string option \<Rightarrow> ws_emitter \<Rightarrow> ws_emitter" where
  "subscribe_with_connection n session_id connection_id e =
    e\<lparr>we_subscribers := (we_subscribers e)(session_id \<mapsto>
        (case we_subscribers e session_id of Some l \<Rightarrow> l | None \<Rightarrow> []) @
        [\<lparr>sb_tx = new_channel n, sb_desynced = False, sb_connection = connection_id,
          sb_hidden = False, sb_dropped_while_hidden = False\<rparr>])\<rparr>"

definition hide_subscriber :: "string \<Rightarrow> bool \<Rightarrow> subscriber \<Rightarrow> subscriber" where
  "hide_subscriber connection_id should_hide sub =
    (if sb_connection sub \<noteq> Some connection_id then sub
     else if should_hide then sub\<lparr>sb_hidden := True\<rparr>
     else if sb_hidden sub then
       (let sub = sub\<lparr>sb_hidden := False\<rparr> in
        if sb_dropped_while_hidden sub then
          (let sub = sub\<lparr>sb_dropped_while_hidden := False\<rparr> in
           case try_send SESSION_CHANNEL_CAPACITY WDesync (sb_tx sub) of
             (tx, Sent) \<Rightarrow> sub\<lparr>sb_tx := tx\<rparr>
           | (tx, _) \<Rightarrow> sub\<lparr>sb_desynced := True\<rparr>)
        else sub)
     else sub)"

definition set_hidden_sessions :: "string \<Rightarrow> string list \<Rightarrow> ws_emitter \<Rightarrow> ws_emitter" where
  "set_hidden_sessions connection_id hidden_sessions e =
    e\<lparr>we_subscribers := (\<lambda>session_id.
        map_option (map (hide_subscriber connection_id (session_id \<in> set hidden_sessions)))
          (we_subscribers e session_id))\<rparr>"

definition desync_subscriber :: "subscriber \<Rightarrow> subscriber" where
  "desync_subscriber sub =
    (if sb_hidden sub then sub\<lparr>sb_dropped_while_hidden := True\<rparr>
     else
       (case try_send SESSION_CHANNEL_CAPACITY WDesync (sb_tx sub) of
          (tx, Sent) \<Rightarrow> sub\<lparr>sb_tx := tx, sb_desynced := False\<rparr>
        | (tx, _) \<Rightarrow> sub\<lparr>sb_desynced := True\<rparr>))"

definition signal_desync :: "string \<Rightarrow> ws_emitter \<Rightarrow> ws_emitter" where
  "signal_desync session_id e =
    (case we_subscribers e session_id of
       None \<Rightarrow> e
     | Some l \<Rightarrow> e\<lparr>we_subscribers := (we_subscribers e)(session_id \<mapsto> map desync_subscriber l)\<rparr>)"

definition unhide_subscriber :: "string \<Rightarrow> subscriber \<Rightarrow> subscriber" where
  "unhide_subscriber connection_id sub =
    (if sb_connection sub = Some connection_id
     then sub\<lparr>sb_hidden := False, sb_dropped_while_hidden := False\<rparr> else sub)"

definition clear_connection_hidden :: "string \<Rightarrow> ws_emitter \<Rightarrow> ws_emitter" where
  "clear_connection_hidden connection_id e =
    e\<lparr>we_subscribers := (\<lambda>session_id.
        map_option (map (unhide_subscriber connection_id)) (we_subscribers e session_id))\<rparr>"

section \<open>Identity events\<close>

definition ack_one :: "identity_store \<Rightarrow> string \<times> string \<Rightarrow> identity_store" where
  "ack_one store key =
    (case key of (session_id, resume_id) \<Rightarrow>
      if Option.bind (is_by_session store session_id) (extract_str ''resumeSessionId'') = Some resume_id
      then \<lparr>is_by_session = (is_by_session store)(session_id := None),
             is_order = filter (\<lambda>x. x \<noteq> session_id) (is_order store)\<rparr>
      else store)"

definition ack_identity_events :: "(string \<times> string) list \<Rightarrow> ws_emitter \<Rightarrow> ws_emitter" where
  "ack_identity_events keys e = e\<lparr>we_identity := foldl ack_one (we_identity e) keys\<rparr>"

definition identity_snapshot :: "ws_emitter \<Rightarrow> json list" where
  "identity_snapshot e = List.map_filter (is_by_session (we_identity e)) (is_order (we_identity e))"

text \<open>The oldest events beyond the limit are dropped.\<close>

definition evict_identity :: "identity_store \<Rightarrow> identity_store" where
  "evict_identity store =
    (let n = length (is_order store) - MAX_RETAINED_IDENTITY_EVENTS in
     \<lparr>is_by_session = foldl (\<lambda>m k. m(k := None)) (is_by_session store) (take n (is_order store)),
      is_order = drop n (is_order store)\<rparr>)"

definition retain_identity_event :: "string \<Rightarrow> json \<Rightarrow> identity_store \<Rightarrow> identity_store" where
  "retain_identity_event session_id payload store =
    (let incoming_source = (case extract_str ''source'' payload of Some s \<Rightarrow> s | None \<Rightarrow> []);
         incoming_resume_id = (case extract_str ''resumeSessionId'' payload of Some s \<Rightarrow> s | None \<Rightarrow> [])
     in if (case is_by_session store session_id of
              Some existing \<Rightarrow>
                \<not> should_retain_incoming (extract_str ''source'' existing)
                    (extract_str ''resumeSessionId'' existing) incoming_source incoming_resume_id
            | None \<Rightarrow> False)
        then store
        else evict_identity
          \<lparr>is_by_session = (is_by_session store)(session_id \<mapsto> payload),
           is_order = (if is_by_session store session_id = None then is_order store @ [session_id]
                       else is_order store)\<rparr>)"

section \<open>Publishing\<close>

definition subscribe_control :: "nat \<Rightarrow> ws_emitter \<Rightarrow> ws_emitter" where
  "subscribe_control n e = e\<lparr>we_control := we_control e @ [new_channel n]\<rparr>"

definition has_active_subscriber :: "ws_emitter \<Rightarrow> string \<Rightarrow> bool" where
  "has_active_subscriber e session_id =
    (case we_subscribers e session_id of
       Some l \<Rightarrow> list_ex (\<lambda>sub. \<not> ch_closed (sb_tx sub)) l | None \<Rightarrow> False)"

text \<open>A session without a subscriber has no entry.\<close>

definition put_subscribers :: "string \<Rightarrow> subscriber list \<Rightarrow> ws_emitter \<Rightarrow> ws_emitter" where
  "put_subscribers session_id l e =
    e\<lparr>we_subscribers := (we_subscribers e)(session_id := (if l = [] then None else Some l))\<rparr>"

definition cleanup_session :: "string \<Rightarrow> ws_emitter \<Rightarrow> ws_emitter" where
  "cleanup_session session_id e =
    (case we_subscribers e session_id of
       None \<Rightarrow> e
     | Some l \<Rightarrow> put_subscribers session_id (filter (\<lambda>sub. \<not> ch_closed (sb_tx sub)) l) e)"

definition deliver :: "ws_msg \<Rightarrow> bool \<Rightarrow> subscriber \<Rightarrow> subscriber \<times> bool" where
  "deliver msg drop_on_full sub =
    (if sb_hidden sub \<and> drop_on_full then (sub\<lparr>sb_dropped_while_hidden := True\<rparr>, False)
     else
       (let (sub, go) =
          (if sb_desynced sub then
             (case try_send SESSION_CHANNEL_CAPACITY WDesync (sb_tx sub) of
                (tx, Sent) \<Rightarrow> (sub\<lparr>sb_tx := tx, sb_desynced := False\<rparr>, True)
              | (tx, _) \<Rightarrow> (sub, False))
           else (sub, True))
        in if \<not> go then (sub, False)
           else
             (case try_send SESSION_CHANNEL_CAPACITY msg (sb_tx sub) of
                (tx, Sent) \<Rightarrow> (sub\<lparr>sb_tx := tx\<rparr>, True)
              | (tx, Full) \<Rightarrow> (if drop_on_full then sub\<lparr>sb_desynced := True\<rparr> else sub, False)
              | (tx, Closed) \<Rightarrow> (sub, False))))"

definition publish_with :: "string \<Rightarrow> ws_msg \<Rightarrow> bool \<Rightarrow> ws_emitter \<Rightarrow> ws_emitter \<times> bool" where
  "publish_with session_id msg drop_on_full e =
    (case we_subscribers e session_id of
       None \<Rightarrow> (e, False)
     | Some l \<Rightarrow>
         (let sent = map (deliver msg drop_on_full) (filter (\<lambda>sub. \<not> ch_closed (sb_tx sub)) l)
          in (put_subscribers session_id (map fst sent) e, list_ex snd sent)))"

definition drop_session_subscribers :: "string \<Rightarrow> ws_emitter \<Rightarrow> ws_emitter" where
  "drop_session_subscribers session_id e =
    e\<lparr>we_subscribers := (we_subscribers e)(session_id := None)\<rparr>"

fun send_control :: "control_msg \<Rightarrow> control_msg channel list \<Rightarrow> control_msg channel list" where
  "send_control msg [] = []"
| "send_control msg (c # cs) =
    (case try_send CONTROL_CHANNEL_CAPACITY msg c of
       (c', Sent) \<Rightarrow> c' # send_control msg cs
     | (c', Full) \<Rightarrow> c' # send_control msg cs
     | (c', Closed) \<Rightarrow> send_control msg cs)"

definition publish_control :: "control_msg \<Rightarrow> ws_emitter \<Rightarrow> ws_emitter" where
  "publish_control msg e = e\<lparr>we_control := send_control msg (we_control e)\<rparr>"

definition publish_notifier_event :: "string \<Rightarrow> string \<Rightarrow> int option \<Rightarrow> ws_emitter \<Rightarrow> ws_emitter" where
  "publish_notifier_event event session_id exit_code e =
    publish_control (CNotifier event session_id exit_code) e"

definition publish_checkpoint_request :: "string \<Rightarrow> ws_emitter \<Rightarrow> ws_emitter" where
  "publish_checkpoint_request session_id e = publish_control (CCheckpointRequest session_id) e"

definition persist_session_output :: "string \<Rightarrow> ws_emitter \<Rightarrow> ws_emitter" where
  "persist_session_output session_id e =
    e\<lparr>we_persists := map_option (\<lambda>l. l @ [session_id]) (we_persists e)\<rparr>"

section \<open>Emitting\<close>

text \<open>The cast \<open>as i32\<close>.\<close>

definition as_i32 :: "int \<Rightarrow> int" where
  "as_i32 i = (i + 2147483648) mod 4294967296 - 2147483648"

definition ws_emit :: "string \<Rightarrow> json \<Rightarrow> ws_emitter \<Rightarrow> ws_emitter \<times> (string + unit)" where
  "ws_emit event payload e =
    (if event = ''terminal-launch-warning'' then (publish_control (CLaunchWarning payload) e, Inr ())
     else
       (case extract_str ''sessionId'' payload of
          None \<Rightarrow> (e, Inr ())
        | Some session_id \<Rightarrow>
            if event = ''terminal-output'' then
              (let data = or_else (extract_str ''data'' payload) [];
                   end_seq = Option.bind (json_get payload ''endSeq'') json_as_u64;
                   (e1, delivered) = publish_with session_id (WOutput data end_seq) True e
               in (e1, if delivered then Inr ()
                       else Inl ''terminal-output dropped before any subscriber (hidden/none/full)''))
            else if event = ''terminal-exit'' then
              (let exit_code = or_else (Option.bind (json_get payload ''exitCode'') json_as_i64) (-1);
                   (e1, delivered) = publish_with session_id (WExit exit_code) False e;
                   e2 = (if delivered then e1
                         else publish_notifier_event ''sessionExited'' session_id (Some (as_i32 exit_code)) e1)
               in (drop_session_subscribers session_id (persist_session_output session_id e2), Inr ()))
            else if event = ''session-killed'' then
              (let reason = or_else (extract_str ''reason'' payload) ''unknown'';
                   (e1, delivered) = publish_with session_id (WKilled reason) False e;
                   e2 = (if delivered then e1 else publish_control (CSessionKilled session_id reason) e1)
               in (drop_session_subscribers session_id e2, Inr ()))
            else if event = ''terminal-desync'' then (signal_desync session_id e, Inr ())
            else if event = ''terminal-resume-id-detected'' then
              (publish_control (CResumeIdDetected payload)
                (e\<lparr>we_identity := retain_identity_event session_id payload (we_identity e)\<rparr>), Inr ())
            else (e, Inr ())))"

section \<open>Steps\<close>

text \<open>What clients do to the emitter, and the receivers' end of the channels.\<close>

datatype ws_op =
    SetStore
  | Subscribe nat string "string option"
  | SubscribeControl nat
  | SetHidden string "string list"
  | ClearHidden string
  | AckIdentity "(string \<times> string) list"
  | CleanupSession string
  | CheckpointRequest string
  | NotifierEvent string string "int option"
  | Emit string json
  | Receive nat
  | CloseReceiver nat

definition on_channel :: "nat \<Rightarrow> ('m channel \<Rightarrow> 'm channel) \<Rightarrow> 'm channel \<Rightarrow> 'm channel" where
  "on_channel n f c = (if ch_id c = n then f c else c)"

definition on_receiver ::
    "nat \<Rightarrow> (ws_msg channel \<Rightarrow> ws_msg channel) \<Rightarrow> (control_msg channel \<Rightarrow> control_msg channel)
      \<Rightarrow> ws_emitter \<Rightarrow> ws_emitter" where
  "on_receiver n f g e =
    e\<lparr>we_subscribers := (\<lambda>s. map_option (map (\<lambda>sub. sub\<lparr>sb_tx := on_channel n f (sb_tx sub)\<rparr>)) (we_subscribers e s)),
      we_control := map (on_channel n g) (we_control e)\<rparr>"

fun ws_step :: "ws_emitter \<Rightarrow> ws_op \<Rightarrow> ws_emitter" where
  "ws_step e SetStore = set_output_store e"
| "ws_step e (Subscribe n s connection_id) = subscribe_with_connection n s connection_id e"
| "ws_step e (SubscribeControl n) = subscribe_control n e"
| "ws_step e (SetHidden connection_id sessions) = set_hidden_sessions connection_id sessions e"
| "ws_step e (ClearHidden connection_id) = clear_connection_hidden connection_id e"
| "ws_step e (AckIdentity keys) = ack_identity_events keys e"
| "ws_step e (CleanupSession s) = cleanup_session s e"
| "ws_step e (CheckpointRequest s) = publish_checkpoint_request s e"
| "ws_step e (NotifierEvent event s exit_code) = publish_notifier_event event s exit_code e"
| "ws_step e (Emit event payload) = fst (ws_emit event payload e)"
| "ws_step e (Receive n) = on_receiver n receive receive e"
| "ws_step e (CloseReceiver n) = on_receiver n (\<lambda>c. c\<lparr>ch_closed := True\<rparr>) (\<lambda>c. c\<lparr>ch_closed := True\<rparr>) e"

definition ws_run :: "ws_op list \<Rightarrow> ws_emitter" where
  "ws_run ops = foldl ws_step ws_new ops"

end
