(* ===== verification/Ws_Props.thy ===== *)
theory Ws_Props
  imports Ws_Emitter Machines
begin

text \<open>
  What a subscriber of the daemon can rely on: output that it did not get is announced before
  any later output, its channel stays within its capacity, an ended session is always announced,
  and only delivered output is reported as delivered. The retained identity events are
  consistent and a better one is never replaced by a worse one.
\<close>

section \<open>What a client shows\<close>

fun output_of :: "ws_msg \<Rightarrow> (string \<times> nat option) option" where
  "output_of (WOutput d q) = Some (d, q)"
| "output_of _ = None"

text \<open>The output a client was sent since the last marker: a marker makes it start over.\<close>

definition client_view :: "ws_msg list \<Rightarrow> (string \<times> nat option) list" where
  "client_view log = List.map_filter output_of (rev (takeWhile (\<lambda>m. m \<noteq> WDesync) (rev log)))"

lemma client_view_Nil [simp]: "client_view [] = []"
  by (simp add: client_view_def)

lemma map_filter_append: "List.map_filter f (xs @ ys) = List.map_filter f xs @ List.map_filter f ys"
  by (induction xs) (simp_all add: List.map_filter_simps split: option.split)

lemma client_view_snoc [simp]:
  "client_view (log @ [m]) = (if m = WDesync then [] else client_view log @
    (case output_of m of Some o' \<Rightarrow> [o'] | None \<Rightarrow> []))"
  by (simp add: client_view_def map_filter_append List.map_filter_simps split: option.split)

text \<open>
  What \<open>log\<close> tells of \<open>outs\<close>, the output published since the subscription was made: what the
  client shows is one contiguous piece of it, it starts at the beginning unless the client was
  told to start over, and it reaches the end unless a marker is still owed.
\<close>

definition covered :: "(string \<times> nat option) list \<Rightarrow> ws_msg list \<Rightarrow> bool \<Rightarrow> bool" where
  "covered outs log owes \<longleftrightarrow>
    (\<exists>missed owed. outs = missed @ client_view log @ owed \<and> (missed = [] \<or> WDesync \<in> set log)
      \<and> (owed = [] \<or> owes))"

lemma covered_new: "covered [] [] owes"
  by (simp add: covered_def)

lemma covered_marker: "covered outs log owes \<Longrightarrow> covered outs (log @ [WDesync]) owes'"
  by (auto simp: covered_def)

lemma covered_owing: "covered outs log owes \<Longrightarrow> covered (outs @ outs') log True"
proof -
  assume "covered outs log owes"
  then obtain missed owed where "outs = missed @ client_view log @ owed" "missed = [] \<or> WDesync \<in> set log"
    by (auto simp: covered_def)
  then have "outs @ outs' = missed @ client_view log @ (owed @ outs')" "missed = [] \<or> WDesync \<in> set log" by simp_all
  then show ?thesis by (auto simp: covered_def)
qed

lemma covered_owes: "covered outs log owes \<Longrightarrow> covered outs log True"
  using covered_owing [of outs log owes "[]"] by simp

lemma covered_sent:
  assumes "covered outs log False" and m: "m \<noteq> WDesync"
  shows "covered (outs @ (case output_of m of Some o' \<Rightarrow> [o'] | None \<Rightarrow> [])) (log @ [m]) owes"
proof -
  obtain missed where "outs = missed @ client_view log" "missed = [] \<or> WDesync \<in> set log"
    using assms(1) by (auto simp: covered_def)
  with m show ?thesis unfolding covered_def by (intro exI [of _ missed] exI [of _ "[]"]) auto
qed

lemma covered_told: "covered outs log owes \<Longrightarrow> output_of m = None \<Longrightarrow> m \<noteq> WDesync \<Longrightarrow> covered outs (log @ [m]) owes"
  by (auto simp: covered_def)

definition channel_ok :: "nat \<Rightarrow> 'm channel \<Rightarrow> bool" where
  "channel_ok n c \<longleftrightarrow> ch_waiting c \<le> n \<and> ch_taken c \<le> length (ch_sent c)"

text \<open>
  A subscription in order. A gap that is only known behind the gate of a hidden session belongs
  to a hidden one.
\<close>

definition good_sub :: "(string \<times> nat option) list \<Rightarrow> subscriber \<Rightarrow> bool" where
  "good_sub outs sub \<longleftrightarrow>
    covered outs (ch_sent (sb_tx sub)) (sb_desynced sub \<or> sb_dropped_while_hidden sub)
    \<and> channel_ok SESSION_CHANNEL_CAPACITY (sb_tx sub)
    \<and> (sb_dropped_while_hidden sub \<longrightarrow> sb_hidden sub)"

lemma try_send_cases:
  assumes "try_send n m c = (c', r)" and "channel_ok n c"
  obtains "r = Sent" "\<not> ch_closed c" "c' = c\<lparr>ch_sent := ch_sent c @ [m]\<rparr>" "channel_ok n c'"
  | "r = Full" "\<not> ch_closed c" "c' = c" | "r = Closed" "ch_closed c" "c' = c"
  using assms by (auto simp: try_send_def channel_ok_def ch_waiting_def split: if_splits)

section \<open>Every operation keeps the contract\<close>

lemma good_new: "good_sub [] \<lparr>sb_tx = new_channel n, sb_desynced = False, sb_connection = k, sb_hidden = False,
    sb_dropped_while_hidden = False\<rparr>"
  by (simp add: good_sub_def covered_new channel_ok_def new_channel_def ch_waiting_def)

lemma good_hide:
  assumes good: "good_sub outs sub"
  shows "good_sub outs (hide_subscriber k h sub)"
proof (cases "sb_connection sub = Some k \<and> \<not> h \<and> sb_hidden sub \<and> sb_dropped_while_hidden sub")
  case False
  with good show ?thesis by (auto simp: hide_subscriber_def good_sub_def)
next
  case True
  note cov = good [unfolded good_sub_def, THEN conjunct1]
  obtain tx r where send: "try_send SESSION_CHANNEL_CAPACITY WDesync (sb_tx sub) = (tx, r)"
    by (cases "try_send SESSION_CHANNEL_CAPACITY WDesync (sb_tx sub)")
  have ok: "channel_ok SESSION_CHANNEL_CAPACITY (sb_tx sub)" using good by (simp add: good_sub_def)
  from send ok show ?thesis
    by (cases rule: try_send_cases)
       (use True send ok covered_marker [OF cov] covered_owes [OF cov] in
         \<open>auto simp: hide_subscriber_def Let_def good_sub_def\<close>)
qed

lemma good_desync:
  assumes good: "good_sub outs sub"
  shows "good_sub outs (desync_subscriber sub)"
proof -
  note cov = good [unfolded good_sub_def, THEN conjunct1]
  obtain tx r where send: "try_send SESSION_CHANNEL_CAPACITY WDesync (sb_tx sub) = (tx, r)"
    by (cases "try_send SESSION_CHANNEL_CAPACITY WDesync (sb_tx sub)")
  have ok: "channel_ok SESSION_CHANNEL_CAPACITY (sb_tx sub)" using good by (simp add: good_sub_def)
  from send ok show ?thesis
    by (cases rule: try_send_cases)
       (use good send covered_marker [OF cov] covered_owes [OF cov] in
         \<open>auto simp: desync_subscriber_def good_sub_def\<close>)
qed

text \<open>The second half of \<open>deliver\<close>: the message itself.\<close>

lemma good_send:
  assumes good: "good_sub outs v" and settled: "\<not> sb_desynced v" "\<not> (sb_dropped_while_hidden v \<and> output_of m \<noteq> None)"
    and m: "m \<noteq> WDesync" and closed: "\<not> ch_closed (sb_tx v)"
  shows "good_sub (outs @ (case output_of m of Some o' \<Rightarrow> [o'] | None \<Rightarrow> []))
    (case try_send SESSION_CHANNEL_CAPACITY m (sb_tx v) of
       (tx, Sent) \<Rightarrow> v\<lparr>sb_tx := tx\<rparr>
     | (tx, Full) \<Rightarrow> if output_of m \<noteq> None then v\<lparr>sb_desynced := True\<rparr> else v
     | (tx, Closed) \<Rightarrow> v)"
proof -
  note cov = good [unfolded good_sub_def, THEN conjunct1]
  obtain tx r where send: "try_send SESSION_CHANNEL_CAPACITY m (sb_tx v) = (tx, r)"
    by (cases "try_send SESSION_CHANNEL_CAPACITY m (sb_tx v)")
  have ok: "channel_ok SESSION_CHANNEL_CAPACITY (sb_tx v)" using good by (simp add: good_sub_def)
  from send ok show ?thesis
  proof (cases rule: try_send_cases)
    case 1
    show ?thesis
    proof (cases "output_of m")
      case None
      with 1 send good covered_told [OF cov None m] show ?thesis by (auto simp: good_sub_def)
    next
      case (Some o')
      then have "\<not> sb_dropped_while_hidden v" using settled by simp
      with cov settled have "covered outs (ch_sent (sb_tx v)) False" by simp
      from covered_sent [OF this m, of False] Some 1 send good settled show ?thesis by (simp add: good_sub_def)
    qed
  next
    case 2
    with send good covered_owing [OF cov] show ?thesis
      by (cases "output_of m") (auto simp: good_sub_def)
  qed (use closed in simp)
qed

lemma good_deliver:
  assumes good: "good_sub outs sub" and drop: "drop_on_full \<longleftrightarrow> output_of m \<noteq> None" and m: "m \<noteq> WDesync"
    and closed: "\<not> ch_closed (sb_tx sub)"
  shows "good_sub (outs @ (case output_of m of Some o' \<Rightarrow> [o'] | None \<Rightarrow> [])) (fst (deliver m drop_on_full sub))"
    (is "good_sub ?outs' _")
proof -
  note cov = good [unfolded good_sub_def, THEN conjunct1]
  have ok: "channel_ok SESSION_CHANNEL_CAPACITY (sb_tx sub)" using good by (simp add: good_sub_def)
  consider (gate) "sb_hidden sub" "drop_on_full" | (plain) "\<not> (sb_hidden sub \<and> drop_on_full)" "\<not> sb_desynced sub"
    | (owing) "\<not> (sb_hidden sub \<and> drop_on_full)" "sb_desynced sub" by blast
  then show ?thesis
  proof cases
    case gate
    with good covered_owing [OF cov] show ?thesis by (simp add: deliver_def good_sub_def)
  next
    case plain
    have "fst (deliver m drop_on_full sub) = (case try_send SESSION_CHANNEL_CAPACITY m (sb_tx sub) of
        (tx, Sent) \<Rightarrow> sub\<lparr>sb_tx := tx\<rparr> | (tx, Full) \<Rightarrow> if output_of m \<noteq> None then sub\<lparr>sb_desynced := True\<rparr> else sub
      | (tx, Closed) \<Rightarrow> sub)"
      using plain drop by (auto simp: deliver_def split: prod.splits send_outcome.splits)
    with good_send [OF good plain(2) _ m closed] plain drop good show ?thesis
      by (auto simp: good_sub_def)
  next
    case owing
    obtain tx r where send: "try_send SESSION_CHANNEL_CAPACITY WDesync (sb_tx sub) = (tx, r)"
      by (cases "try_send SESSION_CHANNEL_CAPACITY WDesync (sb_tx sub)")
    from send ok show ?thesis
    proof (cases rule: try_send_cases)
      case 1
      let ?v = "sub\<lparr>sb_tx := tx, sb_desynced := False\<rparr>"
      have "good_sub outs ?v" using 1 good covered_marker [OF cov] by (simp add: good_sub_def)
      moreover have "fst (deliver m drop_on_full sub) = (case try_send SESSION_CHANNEL_CAPACITY m (sb_tx ?v) of
          (tx, Sent) \<Rightarrow> ?v\<lparr>sb_tx := tx\<rparr> | (tx, Full) \<Rightarrow> if output_of m \<noteq> None then ?v\<lparr>sb_desynced := True\<rparr> else ?v
        | (tx, Closed) \<Rightarrow> ?v)"
        using owing drop 1 send by (auto simp: deliver_def split: prod.splits send_outcome.splits)
      ultimately show ?thesis using good_send [of outs ?v m] owing drop good m closed 1
        by (auto simp: good_sub_def)
    next
      case 2
      with owing send good covered_owing [OF cov] show ?thesis by (auto simp: deliver_def good_sub_def)
    qed (use closed in simp)
  qed
qed

section \<open>Following one subscription\<close>

definition subs_of :: "ws_emitter \<Rightarrow> string \<Rightarrow> subscriber list" where
  "subs_of e s = or_else (we_subscribers e s) []"

definition tracked :: "nat \<Rightarrow> string \<Rightarrow> string option \<Rightarrow> (string \<times> nat option) list \<Rightarrow> ws_emitter \<Rightarrow> bool" where
  "tracked c s k outs e \<longleftrightarrow>
    (\<forall>sub \<in> set (subs_of e s). ch_id (sb_tx sub) = c \<longrightarrow> good_sub outs sub \<and> sb_connection sub = k)"

text \<open>What an operation publishes to a session.\<close>

fun published :: "string \<Rightarrow> ws_op \<Rightarrow> (string \<times> nat option) list" where
  "published s (Emit event payload) =
    (if event = ''terminal-output'' \<and> extract_str ''sessionId'' payload = Some s
     then [(or_else (extract_str ''data'' payload) [], Option.bind (json_get payload ''endSeq'') json_as_u64)]
     else [])"
| "published s _ = []"

definition outputs_of :: "string \<Rightarrow> ws_op list \<Rightarrow> (string \<times> nat option) list" where
  "outputs_of s ops = concat (map (published s) ops)"

lemma try_send_id: "try_send n m c = (c', r) \<Longrightarrow> ch_id c' = ch_id c"
  by (auto simp: try_send_def split: if_splits)

lemma hide_frame [simp]: "ch_id (sb_tx (hide_subscriber k h sub)) = ch_id (sb_tx sub)"
  "sb_connection (hide_subscriber k h sub) = sb_connection sub"
  by (auto simp: hide_subscriber_def Let_def try_send_def split: prod.splits send_outcome.splits)

lemma desync_frame [simp]: "ch_id (sb_tx (desync_subscriber sub)) = ch_id (sb_tx sub)"
  "sb_connection (desync_subscriber sub) = sb_connection sub"
  by (auto simp: desync_subscriber_def try_send_def split: prod.splits send_outcome.splits)

lemma unhide_frame [simp]: "ch_id (sb_tx (unhide_subscriber k sub)) = ch_id (sb_tx sub)"
  "sb_connection (unhide_subscriber k sub) = sb_connection sub"
  by (simp_all add: unhide_subscriber_def)

lemma deliver_frame [simp]: "ch_id (sb_tx (fst (deliver m b sub))) = ch_id (sb_tx sub)"
  "sb_connection (fst (deliver m b sub)) = sb_connection sub"
  by (auto simp: deliver_def Let_def try_send_def split: prod.splits send_outcome.splits if_splits)

lemma tracked_map:
  assumes "tracked c s k outs e" and "subs_of e' s = map f (filter P (subs_of e s))"
    and "\<And>sub. sub \<in> set (subs_of e s) \<Longrightarrow> P sub \<Longrightarrow> ch_id (sb_tx (f sub)) = ch_id (sb_tx sub)
      \<and> sb_connection (f sub) = sb_connection sub"
    and "\<And>sub. good_sub outs sub \<Longrightarrow> sb_connection sub = k \<Longrightarrow> P sub \<Longrightarrow> good_sub outs' (f sub)"
  shows "tracked c s k outs' e'"
  using assms by (auto simp: tracked_def)

lemma tracked_same: "tracked c s k outs e \<Longrightarrow> subs_of e' s = subs_of e s \<Longrightarrow> tracked c s k outs e'"
  by (simp add: tracked_def)

lemma subs_of_put [simp]: "subs_of (put_subscribers s' l e) s = (if s = s' then l else subs_of e s)"
  by (simp add: subs_of_def put_subscribers_def or_else_def)

lemma subs_of_control [simp]: "subs_of (publish_control m e) s = subs_of e s"
  "subs_of (publish_notifier_event ev s' x e) s = subs_of e s" "subs_of (persist_session_output s' e) s = subs_of e s"
  by (simp_all add: subs_of_def publish_control_def publish_notifier_event_def persist_session_output_def)

lemma subs_of_identity [simp]: "subs_of (e\<lparr>we_identity := i\<rparr>) s = subs_of e s"
  by (simp add: subs_of_def)

lemma subs_of_drop [simp]: "subs_of (drop_session_subscribers s' e) s = (if s = s' then [] else subs_of e s)"
  by (simp add: subs_of_def drop_session_subscribers_def or_else_def)

lemma subs_of_publish:
  "subs_of (fst (publish_with s' m b e)) s = (if s = s'
    then map (\<lambda>sub. fst (deliver m b sub)) (filter (\<lambda>sub. \<not> ch_closed (sb_tx sub)) (subs_of e s)) else subs_of e s)"
  by (simp add: publish_with_def subs_of_def or_else_def put_subscribers_def Let_def comp_def split: option.split)

lemma subs_of_on_receiver:
  "subs_of (on_receiver n f g e) s = map (\<lambda>sub. sub\<lparr>sb_tx := on_channel n f (sb_tx sub)\<rparr>) (subs_of e s)"
  by (simp add: subs_of_def on_receiver_def or_else_def split: option.split)

lemma good_receiver:
  assumes "good_sub outs sub" and "\<And>c. ch_sent (f c) = ch_sent c" and "\<And>c. channel_ok SESSION_CHANNEL_CAPACITY c \<Longrightarrow>
      channel_ok SESSION_CHANNEL_CAPACITY (f c)"
  shows "good_sub outs (sub\<lparr>sb_tx := on_channel n f (sb_tx sub)\<rparr>)"
  using assms by (simp add: good_sub_def on_channel_def)

lemma receive_frame [simp]: "ch_sent (receive c) = ch_sent c" "ch_id (receive c) = ch_id c"
  "channel_ok n c \<Longrightarrow> channel_ok n (receive c)"
  by (auto simp: receive_def channel_ok_def ch_waiting_def)

lemma close_frame [simp]: "channel_ok n (c\<lparr>ch_closed := True\<rparr>) = channel_ok n c"
  by (simp add: channel_ok_def ch_waiting_def)

lemma on_channel_id [simp]: "(\<And>c. ch_id (f c) = ch_id c) \<Longrightarrow> ch_id (on_channel n f c) = ch_id c"
  by (simp add: on_channel_def)

lemma emit_subs:
  "subs_of (fst (ws_emit ev p e)) s =
    (if extract_str ''sessionId'' p \<noteq> Some s \<or> ev = ''terminal-launch-warning'' then subs_of e s
     else if ev = ''terminal-output'' then
       map (\<lambda>sub. fst (deliver (WOutput (or_else (extract_str ''data'' p) [])
           (Option.bind (json_get p ''endSeq'') json_as_u64)) True sub))
         (filter (\<lambda>sub. \<not> ch_closed (sb_tx sub)) (subs_of e s))
     else if ev = ''terminal-exit'' \<or> ev = ''session-killed'' then []
     else if ev = ''terminal-desync'' then map desync_subscriber (subs_of e s)
     else subs_of e s)"
proof -
  have desync: "subs_of (signal_desync s' e) s = (if s = s' then map desync_subscriber (subs_of e s) else subs_of e s)" for s'
    by (simp add: signal_desync_def subs_of_def or_else_def split: option.split)
  show ?thesis
    by (cases "extract_str ''sessionId'' p")
       (auto simp: ws_emit_def Let_def case_prod_unfold subs_of_publish desync)
qed

lemma subs_of_subscribe:
  "subs_of (subscribe_with_connection n s' k e) s = subs_of e s @ (if s = s' then [\<lparr>sb_tx = new_channel n, sb_desynced = False,
    sb_connection = k, sb_hidden = False, sb_dropped_while_hidden = False\<rparr>] else [])"
  by (simp add: subs_of_def subscribe_with_connection_def or_else_def split: option.split)

lemma subs_of_hide: "subs_of (set_hidden_sessions k l e) s = map (hide_subscriber k (s \<in> set l)) (subs_of e s)"
  by (simp add: subs_of_def set_hidden_sessions_def or_else_def split: option.split)

lemma subs_of_clear: "subs_of (clear_connection_hidden k e) s = map (unhide_subscriber k) (subs_of e s)"
  by (simp add: subs_of_def clear_connection_hidden_def or_else_def split: option.split)

lemma subs_of_cleanup: "subs_of (cleanup_session s' e) s = filter (\<lambda>sub. s \<noteq> s' \<or> \<not> ch_closed (sb_tx sub)) (subs_of e s)"
  by (cases "we_subscribers e s'"; cases "s = s'")
     (auto simp: subs_of_def cleanup_session_def put_subscribers_def or_else_def)

lemma subs_of_other [simp]: "subs_of (set_output_store e) s = subs_of e s" "subs_of (subscribe_control n e) s = subs_of e s"
  "subs_of (ack_identity_events keys e) s = subs_of e s" "subs_of (publish_checkpoint_request s' e) s = subs_of e s"
  by (simp_all add: subs_of_def set_output_store_def subscribe_control_def ack_identity_events_def
      publish_checkpoint_request_def publish_control_def)

lemma subs_of_new: "subs_of ws_new s = []"
  by (simp add: subs_of_def ws_new_def or_else_def)

lemmas subs_of_step = subs_of_subscribe subs_of_hide subs_of_clear subs_of_cleanup subs_of_on_receiver emit_subs

lemma tracked_step:
  assumes t: "tracked c s k outs e" and fresh: "\<forall>s' k'. op \<noteq> Subscribe c s' k'"
    and keep: "\<forall>k'. op = ClearHidden k' \<longrightarrow> k \<noteq> Some k'"
  shows "tracked c s k (outs @ published s op) (ws_step e op)"
proof (cases op)
  case (Subscribe n s' k')
  with fresh t show ?thesis by (auto simp: tracked_def subs_of_subscribe new_channel_def)
next
  case (SetHidden k' l)
  have "subs_of (ws_step e op) s = map (hide_subscriber k' (s \<in> set l)) (filter (\<lambda>_. True) (subs_of e s))"
    using SetHidden by (simp add: subs_of_hide)
  from tracked_map [OF t this, of outs] SetHidden good_hide show ?thesis by simp
next
  case (ClearHidden k')
  have "subs_of (ws_step e op) s = map (unhide_subscriber k') (filter (\<lambda>_. True) (subs_of e s))"
    using ClearHidden by (simp add: subs_of_clear)
  from tracked_map [OF t this, of outs] ClearHidden keep show ?thesis by (auto simp: unhide_subscriber_def)
next
  case (CleanupSession s')
  have "subs_of (ws_step e op) s = map (\<lambda>x. x) (filter (\<lambda>sub. s \<noteq> s' \<or> \<not> ch_closed (sb_tx sub)) (subs_of e s))"
    using CleanupSession by (simp add: subs_of_cleanup)
  from tracked_map [OF t this, of outs] CleanupSession show ?thesis by simp
next
  case (Receive n)
  have "subs_of (ws_step e op) s = map (\<lambda>sub. sub\<lparr>sb_tx := on_channel n receive (sb_tx sub)\<rparr>) (filter (\<lambda>_. True) (subs_of e s))"
    using Receive by (simp add: subs_of_on_receiver)
  from tracked_map [OF t this, of outs] Receive good_receiver [of outs _ receive n] show ?thesis by simp
next
  case (CloseReceiver n)
  let ?f = "\<lambda>c. c\<lparr>ch_closed := True\<rparr>"
  have "subs_of (ws_step e op) s = map (\<lambda>sub. sub\<lparr>sb_tx := on_channel n ?f (sb_tx sub)\<rparr>) (filter (\<lambda>_. True) (subs_of e s))"
    using CloseReceiver by (simp add: subs_of_on_receiver)
  from tracked_map [OF t this, of outs] CloseReceiver good_receiver [of outs _ ?f n] show ?thesis by simp
next
  case (Emit ev p)
  let ?m = "WOutput (or_else (extract_str ''data'' p) []) (Option.bind (json_get p ''endSeq'') json_as_u64)"
  consider (other) "extract_str ''sessionId'' p \<noteq> Some s \<or> ev \<notin> {''terminal-output'', ''terminal-exit'', ''session-killed'', ''terminal-desync''}"
    | (out) "extract_str ''sessionId'' p = Some s" "ev = ''terminal-output''"
    | (ended) "extract_str ''sessionId'' p = Some s" "ev = ''terminal-exit'' \<or> ev = ''session-killed''"
    | (desync) "extract_str ''sessionId'' p = Some s" "ev = ''terminal-desync''" by auto
  then show ?thesis
  proof cases
    case other
    with Emit t show ?thesis by (auto simp: emit_subs tracked_def)
  next
    case out
    then have "subs_of (ws_step e op) s = map (\<lambda>sub. fst (deliver ?m True sub)) (filter (\<lambda>sub. \<not> ch_closed (sb_tx sub)) (subs_of e s))"
      using Emit by (simp add: emit_subs)
    from tracked_map [OF t this, of "outs @ published s op"] Emit out good_deliver [of outs _ True ?m] show ?thesis by simp
  next
    case ended
    with Emit show ?thesis by (auto simp: tracked_def emit_subs)
  next
    case desync
    then have "subs_of (ws_step e op) s = map desync_subscriber (filter (\<lambda>_. True) (subs_of e s))"
      using Emit by (simp add: emit_subs)
    from tracked_map [OF t this, of outs] Emit desync good_desync show ?thesis by simp
  qed
qed (use t in \<open>simp_all add: tracked_def\<close>)

fun makes :: "nat \<Rightarrow> ws_op \<Rightarrow> bool" where
  "makes c (Subscribe n s k) \<longleftrightarrow> n = c"
| "makes c _ \<longleftrightarrow> False"

fun clears :: "string option \<Rightarrow> ws_op \<Rightarrow> bool" where
  "clears k (ClearHidden k') \<longleftrightarrow> k = Some k'"
| "clears k _ \<longleftrightarrow> False"

lemma absent_step:
  assumes "\<forall>sub \<in> set (subs_of e s). ch_id (sb_tx sub) \<noteq> c" and "\<not> makes c op"
  shows "\<forall>sub \<in> set (subs_of (ws_step e op) s). ch_id (sb_tx sub) \<noteq> c"
  using assms by (cases op) (auto simp: subs_of_step new_channel_def)

lemma absent_run:
  "list_all (\<lambda>op. \<not> makes c op) ops \<Longrightarrow> \<forall>sub \<in> set (subs_of e s). ch_id (sb_tx sub) \<noteq> c \<Longrightarrow>
    \<forall>sub \<in> set (subs_of (foldl ws_step e ops) s). ch_id (sb_tx sub) \<noteq> c"
proof (induction ops arbitrary: e)
  case (Cons op ops)
  have "\<forall>sub \<in> set (subs_of (ws_step e op) s). ch_id (sb_tx sub) \<noteq> c"
    by (rule absent_step [OF Cons.prems(2)]) (use Cons.prems(1) in simp)
  then show ?case using Cons.IH [of "ws_step e op"] Cons.prems(1) by (simp del: ws_step.simps)
qed (simp only: foldl.simps)

lemma tracked_run:
  "tracked c s k outs e \<Longrightarrow> list_all (\<lambda>op. \<not> makes c op \<and> \<not> clears k op) ops \<Longrightarrow>
    tracked c s k (outs @ outputs_of s ops) (foldl ws_step e ops)"
proof (induction ops arbitrary: e outs)
  case (Cons op ops)
  have "tracked c s k (outs @ published s op) (ws_step e op)"
  proof (rule tracked_step [OF Cons.prems(1)])
    show "\<forall>s' k'. op \<noteq> Subscribe c s' k'" and "\<forall>k'. op = ClearHidden k' \<longrightarrow> k \<noteq> Some k'"
      using Cons.prems(2) by auto
  qed
  from Cons.IH [OF this] Cons.prems(2) show ?case by (simp add: outputs_of_def del: ws_step.simps)
qed (simp add: outputs_of_def)

section \<open>Output is never lost silently\<close>


definition output_event :: "string \<Rightarrow> ws_op" where
  "output_event d = Emit ''terminal-output'' (JObject [(''sessionId'', JString ''s''), (''data'', JString d)])"


text \<open>
  The gap: when the control connection of a client ends, \<open>clear_connection_hidden\<close> forgets that
  output was dropped behind the gate, and output goes on after the gap without a marker if the
  session's own connection is still there. A client that does not follow the coordinates of the
  output shows a torn stream.
\<close>

theorem control_disconnect_hides_a_gap:
  "map (\<lambda>sub. (ch_sent (sb_tx sub), sb_desynced sub, sb_dropped_while_hidden sub))
      (subs_of (ws_run [Subscribe 0 ''s'' (Some ''k''), output_event ''a'', SetHidden ''k'' [''s''], output_event ''b'',
        ClearHidden ''k'', output_event ''c'']) ''s'')
    = [([WOutput ''a'' None, WOutput ''c'' None], False, False)]"
proof -
  let ?sub = "\<lambda>log h d. \<lparr>sb_tx = \<lparr>ch_id = 0, ch_sent = log, ch_taken = 0, ch_closed = False\<rparr>, sb_desynced = False,
    sb_connection = Some ''k'', sb_hidden = h, sb_dropped_while_hidden = d\<rparr>"
  define e1 where "e1 = ws_step ws_new (Subscribe 0 ''s'' (Some ''k''))"
  define e2 where "e2 = ws_step e1 (output_event ''a'')"
  define e3 where "e3 = ws_step e2 (SetHidden ''k'' [''s''])"
  define e4 where "e4 = ws_step e3 (output_event ''b'')"
  define e5 where "e5 = ws_step e4 (ClearHidden ''k'')"
  have out: "subs_of (ws_step e (output_event d)) ''s'' = map (\<lambda>sub. fst (deliver (WOutput d None) True sub))
      (filter (\<lambda>sub. \<not> ch_closed (sb_tx sub)) (subs_of e ''s''))" for e d
    by (simp add: output_event_def emit_subs extract_str_def or_else_def)
  note deliver_simps = deliver_def try_send_def ch_waiting_def SESSION_CHANNEL_CAPACITY_def
  have "subs_of e1 ''s'' = [?sub [] False False]"
    by (simp add: e1_def subs_of_subscribe subs_of_new new_channel_def)
  then have "subs_of e2 ''s'' = [?sub [WOutput ''a'' None] False False]"
    by (simp add: e2_def out deliver_simps)
  then have "subs_of e3 ''s'' = [?sub [WOutput ''a'' None] True False]"
    by (simp add: e3_def subs_of_hide hide_subscriber_def)
  then have "subs_of e4 ''s'' = [?sub [WOutput ''a'' None] True True]"
    by (simp add: e4_def out deliver_simps)
  then have "subs_of e5 ''s'' = [?sub [WOutput ''a'' None] False False]"
    by (simp add: e5_def subs_of_clear unhide_subscriber_def)
  then have "subs_of (ws_step e5 (output_event ''c'')) ''s'' = [?sub [WOutput ''a'' None, WOutput ''c'' None] False False]"
    by (simp add: out deliver_simps)
  then show ?thesis by (simp add: ws_run_def e1_def e2_def e3_def e4_def e5_def del: ws_step.simps)
qed

section \<open>Only delivered output counts\<close>

text \<open>A subscription whose channel takes one more message, after the marker it owes.\<close>

definition takes :: "subscriber \<Rightarrow> bool" where
  "takes sub \<longleftrightarrow> \<not> ch_closed (sb_tx sub)
    \<and> ch_waiting (sb_tx sub) + (if sb_desynced sub then 2 else 1) \<le> SESSION_CHANNEL_CAPACITY"

lemma deliver_takes:
  assumes "\<not> ch_closed (sb_tx sub)" and "channel_ok SESSION_CHANNEL_CAPACITY (sb_tx sub)"
  shows "snd (deliver m b sub) \<longleftrightarrow> takes sub \<and> \<not> (sb_hidden sub \<and> b)"
  using assms
  by (auto simp: deliver_def takes_def try_send_def ch_waiting_def channel_ok_def Let_def)

lemma publish_takes:
  assumes "\<forall>sub \<in> set (subs_of e s). channel_ok SESSION_CHANNEL_CAPACITY (sb_tx sub)"
  shows "snd (publish_with s m b e) \<longleftrightarrow> list_ex (\<lambda>sub. takes sub \<and> \<not> (sb_hidden sub \<and> b)) (subs_of e s)"
proof -
  have "snd (publish_with s m b e)
      \<longleftrightarrow> (\<exists>sub \<in> set (subs_of e s). \<not> ch_closed (sb_tx sub) \<and> snd (deliver m b sub))"
    by (auto simp: publish_with_def subs_of_def or_else_def list_ex_iff Let_def split: option.split)
  then show ?thesis using assms deliver_takes by (auto simp: list_ex_iff takes_def)
qed

lemma channels_step:
  assumes "\<forall>sub \<in> set (subs_of e s). channel_ok SESSION_CHANNEL_CAPACITY (sb_tx sub)"
  shows "\<forall>sub \<in> set (subs_of (ws_step e op) s). channel_ok SESSION_CHANNEL_CAPACITY (sb_tx sub)"
proof -
  have send: "channel_ok SESSION_CHANNEL_CAPACITY (fst (try_send SESSION_CHANNEL_CAPACITY m c))"
    if "channel_ok SESSION_CHANNEL_CAPACITY c" for m and c :: "ws_msg channel"
    using that by (auto simp: try_send_def channel_ok_def ch_waiting_def)
  have hide: "channel_ok SESSION_CHANNEL_CAPACITY (sb_tx (hide_subscriber k h sub))"
    and desync: "channel_ok SESSION_CHANNEL_CAPACITY (sb_tx (desync_subscriber sub))"
    and unhide: "channel_ok SESSION_CHANNEL_CAPACITY (sb_tx (unhide_subscriber k sub))"
    and deliver: "channel_ok SESSION_CHANNEL_CAPACITY (sb_tx (fst (deliver m b sub)))"
    if "channel_ok SESSION_CHANNEL_CAPACITY (sb_tx sub)" for k h m b sub
    using that send
    by (auto simp: hide_subscriber_def desync_subscriber_def unhide_subscriber_def deliver_def Let_def
        split: prod.splits send_outcome.splits) (metis fst_conv)+
  have new: "channel_ok SESSION_CHANNEL_CAPACITY (new_channel n :: ws_msg channel)" for n
    by (simp add: new_channel_def channel_ok_def ch_waiting_def)
  show ?thesis
    using assms by (cases op) (auto simp: subs_of_step hide desync unhide deliver new on_channel_def)
qed

lemma channels_run: "\<forall>sub \<in> set (subs_of (ws_run ops) s). channel_ok SESSION_CHANNEL_CAPACITY (sb_tx sub)"
proof -
  have "\<forall>sub \<in> set (subs_of e s). channel_ok SESSION_CHANNEL_CAPACITY (sb_tx sub) \<Longrightarrow>
      \<forall>sub \<in> set (subs_of (foldl ws_step e ops) s). channel_ok SESSION_CHANNEL_CAPACITY (sb_tx sub)" for e
  proof (induction ops arbitrary: e)
    case (Cons op ops)
    with channels_step [of e s op] show ?case by simp
  qed simp
  from this [of ws_new] show ?thesis by (simp add: ws_run_def subs_of_new)
qed

text \<open>
  Emitting output answers with an error exactly when no subscription of the session
  took it, that is, each is closed, hidden, or has no room for it and the marker it owes; so the
  producer counts only bytes that were delivered. The end of a session is announced to every
  subscription that has room, hidden or not, or else, with the exit code, to every control
  connection, and the subscriptions are removed in any case.
\<close>

theorem emit_reports_delivery:
  "let e = ws_run ops in
    case extract_str ''sessionId'' payload of
      None \<Rightarrow> snd (ws_emit ''terminal-output'' payload e) = Inr ()
    | Some s \<Rightarrow>
        snd (ws_emit ''terminal-output'' payload e)
          = (if list_ex (\<lambda>sub. takes sub \<and> \<not> sb_hidden sub) (subs_of e s) then Inr ()
             else Inl ''terminal-output dropped before any subscriber (hidden/none/full)'')
        \<and> subs_of (fst (ws_emit ''terminal-exit'' payload e)) s = []
        \<and> we_control (fst (ws_emit ''terminal-exit'' payload e))
          = (if list_ex takes (subs_of e s) then we_control e
             else send_control (CNotifier ''sessionExited'' s
               (Some (as_i32 (or_else (Option.bind (json_get payload ''exitCode'') json_as_i64) (-1))))) (we_control e))"
proof (cases "extract_str ''sessionId'' payload")
  case None
  then show ?thesis by (simp add: ws_emit_def)
next
  case (Some s)
  have control: "we_control (fst (publish_with s m b e)) = we_control e" for m b e
    by (simp add: publish_with_def put_subscribers_def Let_def split: option.split)
  show ?thesis
    using Some publish_takes [OF channels_run]
    by (simp add: emit_subs, simp add: ws_emit_def Let_def case_prod_unfold control persist_session_output_def drop_session_subscribers_def
        publish_notifier_event_def publish_control_def)
qed

section \<open>Identity events\<close>

definition id_ok :: "identity_store \<Rightarrow> bool" where
  "id_ok st \<longleftrightarrow> distinct (is_order st) \<and> set (is_order st) = dom (is_by_session st)
    \<and> length (is_order st) \<le> MAX_RETAINED_IDENTITY_EVENTS
    \<and> (\<forall>s p. is_by_session st s = Some p \<longrightarrow> extract_str ''sessionId'' p = Some s)"

text \<open>What makes a captured resume id better than the one retained for the session.\<close>

definition improves :: "json option \<Rightarrow> json \<Rightarrow> bool" where
  "improves old p =
    (let source = or_else (extract_str ''source'' p) []; resume_id = or_else (extract_str ''resumeSessionId'' p) [] in
     case old of
       None \<Rightarrow> True
     | Some q \<Rightarrow>
         extract_str ''source'' q \<noteq> Some (''clear-tombstone:'' @ resume_id)
         \<and> (case (extract_str ''source'' q, extract_str ''resumeSessionId'' q) of
              (Some source', Some resume_id') \<Rightarrow>
                source_priority source' < source_priority source
                \<or> source_priority source' = source_priority source \<and> resume_id' \<noteq> resume_id
            | _ \<Rightarrow> True))"

definition acked :: "string \<Rightarrow> json option \<Rightarrow> ws_op \<Rightarrow> bool" where
  "acked s old op =
    (case (op, Option.bind old (extract_str ''resumeSessionId'')) of
       (AckIdentity keys, Some resume_id) \<Rightarrow> (s, resume_id) \<in> set keys
     | _ \<Rightarrow> False)"

definition detects :: "ws_op \<Rightarrow> (string \<times> json) option" where
  "detects op =
    (case op of
       Emit ev p \<Rightarrow>
         (if ev = ''terminal-resume-id-detected'' then map_option (\<lambda>s. (s, p)) (extract_str ''sessionId'' p) else None)
     | _ \<Rightarrow> None)"

lemma improves_retain:
  "(case old of Some existing \<Rightarrow>
      \<not> should_retain_incoming (extract_str ''source'' existing) (extract_str ''resumeSessionId'' existing)
          (case extract_str ''source'' p of Some s \<Rightarrow> s | None \<Rightarrow> []) (case extract_str ''resumeSessionId'' p of Some s \<Rightarrow> s | None \<Rightarrow> [])
    | None \<Rightarrow> False) \<longleftrightarrow> \<not> improves old p"
  by (auto simp: improves_def should_retain_incoming_def or_else_def Let_def strip_prefix_Some
      split: option.split)

lemma retain_alt:
  "retain_identity_event s p st =
    (if improves (is_by_session st s) p then evict_identity
       \<lparr>is_by_session = (is_by_session st)(s \<mapsto> p),
        is_order = (if is_by_session st s = None then is_order st @ [s] else is_order st)\<rparr>
     else st)"
  unfolding retain_identity_event_def Let_def improves_retain by simp

lemma evict_small: "length (is_order st) \<le> MAX_RETAINED_IDENTITY_EVENTS \<Longrightarrow> evict_identity st = st"
  by (simp add: evict_identity_def)

lemma evict_one:
  "length (k # l) = Suc MAX_RETAINED_IDENTITY_EVENTS \<Longrightarrow>
    evict_identity \<lparr>is_by_session = m, is_order = k # l\<rparr> = \<lparr>is_by_session = m(k := None), is_order = l\<rparr>"
  by (simp add: evict_identity_def)

lemma ack_one_cases:
  assumes "id_ok st"
  shows "id_ok (ack_one st (s', r)) \<and> is_by_session (ack_one st (s', r)) s =
    (if s = s' \<and> Option.bind (is_by_session st s) (extract_str ''resumeSessionId'') = Some r then None else is_by_session st s)"
proof -
  have "length (filter (\<lambda>x. x \<noteq> s') (is_order st)) \<le> MAX_RETAINED_IDENTITY_EVENTS"
    using assms order_trans [OF length_filter_le] by (auto simp: id_ok_def)
  then show ?thesis using assms by (auto simp: ack_one_def id_ok_def)
qed

lemma ack_many:
  "id_ok st \<Longrightarrow> id_ok (foldl ack_one st keys) \<and>
    (is_by_session (foldl ack_one st keys) s = is_by_session st s
     \<or> is_by_session (foldl ack_one st keys) s = None \<and> acked s (is_by_session st s) (AckIdentity keys))"
proof (induction keys arbitrary: st)
  case (Cons key keys)
  obtain s' r where key: "key = (s', r)" by fastforce
  from ack_one_cases [OF Cons.prems, of s' r s] Cons.IH [of "ack_one st key"] key show ?case
    by (auto simp: acked_def split: if_splits option.splits)
qed simp

lemma retain_ok:
  assumes ok: "id_ok st" and p: "extract_str ''sessionId'' p = Some s'"
  shows "id_ok (retain_identity_event s' p st) \<and>
    (is_by_session (retain_identity_event s' p st) s = is_by_session st s
     \<or> s = s' \<and> is_by_session (retain_identity_event s' p st) s = Some p \<and> improves (is_by_session st s) p
     \<or> is_by_session (retain_identity_event s' p st) s = None \<and> is_by_session st s' = None
       \<and> length (is_order st) = MAX_RETAINED_IDENTITY_EVENTS \<and> take 1 (is_order st) = [s])"
proof (cases "improves (is_by_session st s') p")
  case True
  let ?m = "(is_by_session st)(s' \<mapsto> p)"
  consider (old) "is_by_session st s' \<noteq> None"
    | (room) "is_by_session st s' = None" "length (is_order st) < MAX_RETAINED_IDENTITY_EVENTS"
    | (full) "is_by_session st s' = None" "length (is_order st) = MAX_RETAINED_IDENTITY_EVENTS"
    using ok by (fastforce simp: id_ok_def)
  then show ?thesis
  proof cases
    case old
    with True ok p show ?thesis by (auto simp: retain_alt evict_small id_ok_def)
  next
    case room
    with True ok p show ?thesis by (auto simp: retain_alt evict_small id_ok_def)
  next
    case full
    then obtain k l where kl: "is_order st = k # l"
      by (cases "is_order st") (auto simp: MAX_RETAINED_IDENTITY_EVENTS_def)
    with full have "retain_identity_event s' p st = \<lparr>is_by_session = ?m(k := None), is_order = l @ [s']\<rparr>"
      using True by (simp add: retain_alt evict_one)
    moreover have "k \<noteq> s'" using full ok kl by (auto simp: id_ok_def)
    moreover have "set l = dom (is_by_session st) - {k}" "distinct l" using ok kl by (auto simp: id_ok_def)
    ultimately show ?thesis using full ok p kl True by (auto simp: id_ok_def)
  qed
next
  case False
  with ok show ?thesis by (simp add: retain_alt)
qed

lemma identity_unchanged [simp]:
  "we_identity (subscribe_with_connection n s' k e) = we_identity e"
  "we_identity (set_output_store e) = we_identity e"
  "we_identity (subscribe_control n e) = we_identity e"
  "we_identity (set_hidden_sessions k' l e) = we_identity e"
  "we_identity (clear_connection_hidden k' e) = we_identity e"
  "we_identity (cleanup_session s' e) = we_identity e"
  "we_identity (publish_control m e) = we_identity e"
  "we_identity (publish_checkpoint_request s' e) = we_identity e"
  "we_identity (publish_notifier_event ev s' x e) = we_identity e"
  "we_identity (on_receiver n f g e) = we_identity e"
  "we_identity (fst (publish_with s' w b e)) = we_identity e"
  "we_identity (persist_session_output s' e) = we_identity e"
  "we_identity (drop_session_subscribers s' e) = we_identity e"
  "we_identity (signal_desync s' e) = we_identity e"
  by (auto simp: subscribe_with_connection_def set_output_store_def subscribe_control_def set_hidden_sessions_def
      clear_connection_hidden_def cleanup_session_def put_subscribers_def publish_control_def
      publish_checkpoint_request_def publish_notifier_event_def on_receiver_def publish_with_def
      persist_session_output_def drop_session_subscribers_def signal_desync_def Let_def split: option.split)

lemma identity_emit:
  "we_identity (fst (ws_emit ev p e)) =
    (case detects (Emit ev p) of Some (s, p) \<Rightarrow> retain_identity_event s p (we_identity e) | None \<Rightarrow> we_identity e)"
  by (auto simp: ws_emit_def detects_def Let_def case_prod_unfold publish_control_def split: option.split)

lemma identity_step:
  assumes "id_ok (we_identity e)"
  shows "let st = we_identity e; st' = we_identity (ws_step e op); old = is_by_session st s; new = is_by_session st' s in
    id_ok st' \<and>
    (new = old
     \<or> new = None \<and> acked s old op
     \<or> (case detects op of
          Some (s', p) \<Rightarrow>
            s = s' \<and> new = Some p \<and> improves old p
            \<or> new = None \<and> is_by_session st s' = None
              \<and> length (is_order st) = MAX_RETAINED_IDENTITY_EVENTS \<and> take 1 (is_order st) = [s]
        | None \<Rightarrow> False))"
proof (cases op)
  case (Emit ev p)
  show ?thesis
  proof (cases "detects op")
    case None
    with assms Emit show ?thesis by (simp add: identity_emit)
  next
    case (Some sp)
    then obtain s' where sp: "sp = (s', p)" "extract_str ''sessionId'' p = Some s'"
      using Emit by (auto simp: detects_def split: if_splits)
    show ?thesis using retain_ok [OF assms sp(2), of s] Emit Some sp(1) by (auto simp: identity_emit Let_def)
  qed
next
  case (AckIdentity keys)
  with ack_many [OF assms, of keys s] show ?thesis by (auto simp: ack_identity_events_def)
qed (use assms in simp_all)

lemma identity_run: "id_ok (we_identity (ws_run ops))"
proof -
  have "id_ok (we_identity e) \<Longrightarrow> id_ok (we_identity (foldl ws_step e ops))" for e
  proof (induction ops arbitrary: e)
    case (Cons op ops)
    with identity_step [of e op] show ?case by (simp add: Let_def)
  qed simp
  from this [of ws_new] show ?thesis
    by (simp add: ws_run_def) (simp add: ws_new_def id_ok_def)
qed

lemma snapshot_sessions:
  assumes "id_ok (we_identity e)"
  shows "map (extract_str ''sessionId'') (identity_snapshot e) = map Some (is_order (we_identity e))"
proof -
  have "set l \<subseteq> dom (is_by_session (we_identity e)) \<Longrightarrow>
      map (extract_str ''sessionId'') (List.map_filter (is_by_session (we_identity e)) l) = map Some l" for l
    using assms by (induction l) (auto simp: id_ok_def)
  with assms show ?thesis by (simp add: identity_snapshot_def id_ok_def)
qed

text \<open>
  Property C20. The retained identity events are well-formed after every sequence of operations:
  the order has no duplicates and names exactly the sessions with an event, at most the limit,
  and the snapshot lists one event of each of them, in order. One more operation leaves the
  event of a session as it is, or removes it because its resume id was acknowledged, or because
  it is the oldest of a full store and another session's event comes in, or replaces it by a
  detected event of that session that is better: of a source with a higher priority, or of the
  same priority with another resume id, never one that a clear tombstone names.
\<close>

theorem identity_events_are_kept:
  "let e = ws_run ops; st = we_identity e; old = is_by_session st s;
       new = is_by_session (we_identity (ws_step e op)) s in
    distinct (is_order st) \<and> set (is_order st) = dom (is_by_session st)
    \<and> length (is_order st) \<le> MAX_RETAINED_IDENTITY_EVENTS
    \<and> map (extract_str ''sessionId'') (identity_snapshot e) = map Some (is_order st)
    \<and> (new = old
       \<or> new = None \<and> acked s old op
       \<or> (case detects op of
            Some (s', p) \<Rightarrow>
              s = s' \<and> new = Some p \<and> improves old p
              \<or> new = None \<and> is_by_session st s' = None
                \<and> length (is_order st) = MAX_RETAINED_IDENTITY_EVENTS \<and> take 1 (is_order st) = [s]
          | None \<Rightarrow> False))"
  using identity_step [OF identity_run, of ops op s] snapshot_sessions [OF identity_run, of ops] identity_run [of ops]
  by (simp add: Let_def id_ok_def)

end
