(* ===== verification/Plan_Path.thy ===== *)
theory Plan_Path
  imports Rust_Text "HOL-Library.While_Combinator"
begin

text \<open>
  The key under which a plan file is looked up: \<open>normalize_plan_path\<close> of
  \<open>services/task_binding_service.rs\<close>. It unifies separators, reduces a Windows drive path seen
  through WSL to the drive path, and folds the case of drive paths. The theorems say that its
  loop ends, and give the key by the components of the path.
\<close>

section \<open>The code\<close>

definition halve_slashes :: "string \<Rightarrow> string" where
  "halve_slashes s = str_replace [SLASH, SLASH] [SLASH] s"

lemma halve_simps [simp]:
  "halve_slashes [] = []" "halve_slashes [c] = [c]"
  "halve_slashes (a # b # s) =
    (if a = SLASH \<and> b = SLASH then SLASH # halve_slashes s else a # halve_slashes (b # s))"
  by (auto simp: halve_slashes_def)

definition double_slash :: "string \<Rightarrow> bool" where
  "double_slash s \<longleftrightarrow> str_contains [SLASH, SLASH] s"

lemma double_slash_simps [simp]:
  "\<not> double_slash []" "\<not> double_slash [c]"
  "double_slash (a # b # s) \<longleftrightarrow> a = SLASH \<and> b = SLASH \<or> double_slash (b # s)"
  by (auto simp: double_slash_def str_contains_def)

lemma length_halve: "length (halve_slashes s) \<le> length s"
  by (induction s rule: induct_list012) auto

lemma length_halve_less: "double_slash s \<Longrightarrow> length (halve_slashes s) < length s"
proof (induction s rule: induct_list012)
  case (3 x y zs)
  then show ?case using length_halve [of zs] by auto
qed auto

function collapse_slashes :: "string \<Rightarrow> string" where
  "collapse_slashes s = (if double_slash s then collapse_slashes (halve_slashes s) else s)"
  by pat_completeness auto
termination
  by (relation "measure length") (auto simp: length_halve_less)

declare collapse_slashes.simps [simp del]

text \<open>The two parts \<open>splitn(2, '/')\<close> yields, the first one a drive letter.\<close>

definition drive_path :: "string \<Rightarrow> string option" where
  "drive_path rest =
    (case split_once SLASH rest of
       Some (drive, path_rest) \<Rightarrow>
         if length drive = 1 \<and> is_ascii_alphabetic (hd drive) then Some (drive @ '':/'' @ path_rest) else None
     | None \<Rightarrow> None)"

definition normalize_plan_path :: "string \<Rightarrow> string" where
  "normalize_plan_path path =
    (let normalized = collapse_slashes (map (\<lambda>c. if c = BACKSLASH then SLASH else c) (trim path));
         normalized = drop_last_while (\<lambda>c. c = SLASH) normalized;
         lower = to_ascii_lowercase normalized
     in case Option.bind (strip_prefix ''/mnt/'' lower) drive_path of
          Some p \<Rightarrow> p
        | None \<Rightarrow>
            (case Option.bind (str_find ''/mnt/'' lower)
                    (\<lambda>mnt_index. drive_path (drop (mnt_index + length ''/mnt/'') lower)) of
               Some p \<Rightarrow> p
             | None \<Rightarrow>
                 if 3 \<le> length lower \<and> lower ! 1 = CHR '':'' \<and> lower ! 2 = SLASH then lower
                 else normalized))"

section \<open>The loop\<close>

text \<open>Every run of slashes becomes one.\<close>

fun squeeze :: "string \<Rightarrow> string" where
  "squeeze [] = []"
| "squeeze [c] = [c]"
| "squeeze (a # b # s) = (if a = SLASH \<and> b = SLASH then squeeze (b # s) else a # squeeze (b # s))"

lemma squeeze_cons_halve: "squeeze (x # halve_slashes s) = squeeze (x # s)"
  by (induction s arbitrary: x rule: induct_list012) auto

lemma squeeze_halve: "squeeze (halve_slashes s) = squeeze s"
  using squeeze_cons_halve by (cases s rule: squeeze.cases) auto

lemma squeeze_id: "\<not> double_slash s \<Longrightarrow> squeeze s = s"
  by (induction s rule: squeeze.induct) auto

lemma collapse_squeeze: "collapse_slashes s = squeeze s"
proof (induction s rule: collapse_slashes.induct)
  case (1 s)
  then show ?case by (subst collapse_slashes.simps) (simp add: squeeze_halve squeeze_id)
qed

lemma squeeze_Cons: "\<exists>t. squeeze (b # s) = b # t"
  by (induction s arbitrary: b) auto

lemma double_slash_squeeze: "\<not> double_slash (squeeze s)"
proof (induction s rule: squeeze.induct)
  case (3 a b s)
  moreover obtain t where "squeeze (b # s) = b # t" using squeeze_Cons by blast
  ultimately show ?case by auto
qed simp_all

text \<open>
  The loop of normalize_plan_path that replaces double slashes, run as it is
  written, ends on every path, with every run of slashes reduced to one and every other
  character kept; the recursive function of the model computes the same.
\<close>

theorem plan_path_loop_ends:
  "while_option double_slash halve_slashes s = Some (collapse_slashes s)
    \<and> collapse_slashes s = squeeze s \<and> \<not> double_slash (collapse_slashes s)
    \<and> filter (\<lambda>c. c \<noteq> SLASH) (collapse_slashes s) = filter (\<lambda>c. c \<noteq> SLASH) s"
proof -
  obtain t where t: "while_option double_slash halve_slashes s = Some t"
    using measure_while_option_Some [of "\<lambda>_. True" double_slash halve_slashes length s] length_halve_less
    by auto
  have "squeeze t = squeeze s"
    by (rule while_option_rule [OF _ t, of "\<lambda>u. squeeze u = squeeze s"]) (simp_all add: squeeze_halve)
  then have "t = squeeze s"
    using squeeze_id while_option_stop [OF t] by metis
  moreover have "filter (\<lambda>c. c \<noteq> SLASH) (squeeze s) = filter (\<lambda>c. c \<noteq> SLASH) s"
    by (induction s rule: squeeze.induct) auto
  ultimately show ?thesis using t by (simp add: collapse_squeeze double_slash_squeeze)
qed

section \<open>The key by components\<close>

definition is_sep :: "char \<Rightarrow> bool" where
  "is_sep c \<longleftrightarrow> c = SLASH \<or> c = BACKSLASH"

fun components :: "string \<Rightarrow> string \<Rightarrow> string list" where
  "components [] acc = (if acc = [] then [] else [acc])"
| "components (c # cs) acc =
    (if is_sep c then (if acc = [] then components cs [] else acc # components cs [])
     else components cs (acc @ [c]))"

text \<open>Whether a path begins with a separator, and its components.\<close>

definition path_parts :: "string \<Rightarrow> bool \<times> string list" where
  "path_parts path = (let s = trim path in (s \<noteq> [] \<and> is_sep (hd s), components s []))"

definition slashed :: "bool \<Rightarrow> string list \<Rightarrow> string" where
  "slashed rooted parts = (if rooted \<and> parts \<noteq> [] then [SLASH] else []) @ join [SLASH] parts"

text \<open>
  The drive and the rest of a path seen through WSL: the component \<open>mnt\<close>, after a separator,
  then one letter, then more components.
\<close>

definition wsl_drive :: "bool \<Rightarrow> string list \<Rightarrow> (string \<times> string list) option" where
  "wsl_drive rooted parts =
    (case dropWhile (\<lambda>p. p \<noteq> ''mnt'') (if rooted then parts else tl parts) of
       _ # drive # r # rs \<Rightarrow>
         if length drive = 1 \<and> is_ascii_alphabetic (hd drive) then Some (drive, r # rs) else None
     | _ \<Rightarrow> None)"

definition path_key :: "bool \<times> string list \<Rightarrow> string" where
  "path_key rp =
    (let (rooted, parts) = rp; lower = map to_ascii_lowercase parts
     in case wsl_drive rooted lower of
          Some (drive, rest) \<Rightarrow> drive @ '':/'' @ join [SLASH] rest
        | None \<Rightarrow>
            (let s = slashed rooted lower
             in if 3 \<le> length s \<and> s ! 1 = CHR '':'' \<and> s ! 2 = SLASH then s else slashed rooted parts))"

abbreviation rstrip_slash :: "string \<Rightarrow> string" where
  "rstrip_slash \<equiv> drop_last_while (\<lambda>c. c = SLASH)"

lemma rstrip_append:
  "rstrip_slash (a @ z) = (if rstrip_slash z = [] then rstrip_slash a else a @ rstrip_slash z)"
  by (auto simp: drop_last_while_def dropWhile_append)

lemma rstrip_free: "SLASH \<notin> set a \<Longrightarrow> rstrip_slash a = a"
  by (rule drop_last_while_noop) (use last_in_set in fastforce)

lemma squeeze_free: "SLASH \<notin> set a \<Longrightarrow> squeeze (a @ SLASH # s) = a @ squeeze (SLASH # s)"
  by (induction a rule: squeeze.induct) auto

lemma squeeze_slash_char: "c \<noteq> SLASH \<Longrightarrow> squeeze (SLASH # c # s) = SLASH # squeeze (c # s)"
  by simp

lemma squeeze_self: "SLASH \<notin> set a \<Longrightarrow> squeeze a = a"
  by (induction a rule: squeeze.induct) auto

lemma join_Cons: "join sep (x # xs) = x @ (if xs = [] then [] else sep @ join sep xs)"
  by (cases xs) simp_all

lemma unify_parts:
  defines "f \<equiv> \<lambda>c. if c = BACKSLASH then SLASH else c"
  shows "acc \<noteq> [] \<Longrightarrow> SLASH \<notin> set acc \<Longrightarrow>
      rstrip_slash (squeeze (acc @ map f s)) = join [SLASH] (components s acc)"
    and "rstrip_slash (squeeze (SLASH # map f s)) = slashed True (components s [])"
proof (induction s arbitrary: acc)
  case Nil
  {
    case 1
    then show ?case by (simp add: squeeze_self rstrip_free)
  next
    case 2
    then show ?case by (simp add: slashed_def drop_last_while_def)
  }
next
  case (Cons c s)
  {
    case 1
    show ?case
    proof (cases "is_sep c")
      case True
      then have "f c = SLASH" by (auto simp: is_sep_def f_def)
      with 1 True Cons.IH(2) show ?thesis
        by (simp add: squeeze_free rstrip_append rstrip_free join_Cons) (auto simp: slashed_def)
    next
      case False
      then have "f c = c" "c \<noteq> SLASH" by (auto simp: is_sep_def f_def)
      with 1 False Cons.IH(1) [of "acc @ [c]"] show ?thesis by simp
    qed
  next
    case 2
    show ?case
    proof (cases "is_sep c")
      case True
      then have "f c = SLASH" by (auto simp: is_sep_def f_def)
      with True Cons.IH(2) show ?thesis by simp
    next
      case False
      then have c: "f c = c" "c \<noteq> SLASH" by (auto simp: is_sep_def f_def)
      have "rstrip_slash (squeeze (c # map f s)) = join [SLASH] (components s [c])"
        using Cons.IH(1) [of "[c]"] c by simp
      moreover have "rstrip_slash (squeeze (c # map f s)) \<noteq> []"
      proof -
        obtain t where "squeeze (c # map f s) = [c] @ t" using squeeze_Cons by fastforce
        then show ?thesis using c rstrip_append [of "[c]" t] by (auto simp: drop_last_while_def)
      qed
      ultimately show ?thesis
        using c False rstrip_append [of "[SLASH]" "squeeze (c # map f s)"]
        by (auto simp: slashed_def)
    qed
  }
qed

lemma unify: "rstrip_slash (collapse_slashes (map (\<lambda>c. if c = BACKSLASH then SLASH else c) s))
    = slashed (s \<noteq> [] \<and> is_sep (hd s)) (components s [])"
proof (cases s)
  case Nil
  then show ?thesis by (simp add: collapse_squeeze slashed_def drop_last_while_def)
next
  case (Cons c cs)
  show ?thesis
  proof (cases "is_sep c")
    case True
    then have "(if c = BACKSLASH then SLASH else c) = SLASH" by (auto simp: is_sep_def)
    with Cons True unify_parts(2) [of cs] show ?thesis by (simp add: collapse_squeeze)
  next
    case False
    then have "c \<noteq> SLASH" "c \<noteq> BACKSLASH" by (auto simp: is_sep_def)
    with Cons False unify_parts(1) [of "[c]" cs] show ?thesis by (simp add: collapse_squeeze slashed_def)
  qed
qed

lemma components_free: "SLASH \<notin> set acc \<Longrightarrow> p \<in> set (components s acc) \<Longrightarrow> p \<noteq> [] \<and> SLASH \<notin> set p"
proof (induction s arbitrary: acc)
  case (Cons c s)
  show ?case
  proof (cases "is_sep c")
    case True
    with Cons.prems Cons.IH [of "[]"] show ?thesis by (auto split: if_splits)
  next
    case False
    then have "SLASH \<notin> set (acc @ [c])" using Cons.prems by (auto simp: is_sep_def)
    with False Cons.prems Cons.IH [of "acc @ [c]"] show ?thesis by simp
  qed
qed (auto split: if_splits)

lemma ascii_lower_slash [simp]: "ascii_lower c = SLASH \<longleftrightarrow> c = SLASH"
proof -
  have "of_char (char_of (byte_val c + 32) :: char) = (byte_val c + 32) mod 256" by simp
  then have "ascii_lower c = SLASH \<Longrightarrow> c = SLASH"
    unfolding ascii_lower_def by (auto split: if_splits dest: arg_cong [of _ _ byte_val])
  moreover have "ascii_lower SLASH = SLASH" by (simp add: ascii_lower_def)
  ultimately show ?thesis by blast
qed

lemma lower_join: "to_ascii_lowercase (join [SLASH] ps) = join [SLASH] (map to_ascii_lowercase ps)"
  by (induction ps) (simp_all add: join_Cons to_ascii_lowercase_def)

lemma lower_slashed: "to_ascii_lowercase (slashed rooted ps) = slashed rooted (map to_ascii_lowercase ps)"
  using lower_join [of ps] by (auto simp: slashed_def to_ascii_lowercase_def)

text \<open>What the code takes for the rest after \<open>/mnt/\<close>.\<close>

definition after_mnt :: "string \<Rightarrow> string option" where
  "after_mnt s = map_option (\<lambda>i. drop (i + length ''/mnt/'') s) (str_find ''/mnt/'' s)"

lemma after_mnt_Cons: "c \<noteq> SLASH \<Longrightarrow> after_mnt (c # s) = after_mnt s"
  by (simp add: after_mnt_def option.map_comp comp_def)

lemma after_mnt_free: "SLASH \<notin> set a \<Longrightarrow> after_mnt (a @ s) = after_mnt s"
  by (induction a) (auto simp: after_mnt_Cons)

abbreviation tail_path :: "string list \<Rightarrow> string" where
  "tail_path ps \<equiv> concat (map (\<lambda>p. SLASH # p) ps)"

lemma tail_path_join: "tail_path (p # ps) = SLASH # join [SLASH] (p # ps)"
  by (induction ps arbitrary: p) (simp_all add: join_Cons)

lemma slashed_tail:
  "slashed rooted ps = (if rooted then [] else if ps = [] then [] else hd ps) @ tail_path (if rooted then ps else tl ps)"
  using tail_path_join by (cases ps; cases "tl ps") (auto simp: slashed_def)

lemma after_mnt_component:
  assumes "SLASH \<notin> set p" and "p \<noteq> []"
  shows "after_mnt (SLASH # p @ tail_path ps) =
    (if p = ''mnt'' \<and> ps \<noteq> [] then Some (join [SLASH] ps) else after_mnt (tail_path ps))"
proof (cases "p = ''mnt'' \<and> ps \<noteq> []")
  case True
  then obtain q qs where "ps = q # qs" by (cases ps) auto
  with True tail_path_join [of q qs] show ?thesis by (simp add: after_mnt_def)
next
  case False
  have "take (length ''/mnt/'') (SLASH # p @ tail_path ps) \<noteq> ''/mnt/''"
  proof
    assume "take (length ''/mnt/'') (SLASH # p @ tail_path ps) = ''/mnt/''"
    then have "take 4 (p @ tail_path ps) = ''mnt/''" by (simp add: eval_nat_numeral)
    then obtain z where z: "p @ tail_path ps = ''mnt/'' @ z" by (metis append_take_drop_id)
    then have "takeWhile (\<lambda>c. c \<noteq> SLASH) (p @ tail_path ps) = ''mnt''" by simp
    moreover have "takeWhile (\<lambda>c. c \<noteq> SLASH) (p @ tail_path ps) = p"
      using assms(1) by (cases ps) (auto simp: takeWhile_append)
    ultimately show False using False z by auto
  qed
  then have "after_mnt (SLASH # p @ tail_path ps) = after_mnt (p @ tail_path ps)"
    by (simp add: after_mnt_def option.map_comp comp_def)
  with False assms show ?thesis by (auto simp: after_mnt_free)
qed

lemma drive_path_join:
  assumes "SLASH \<notin> set p"
  shows "drive_path (join [SLASH] (p # ps)) =
    (if ps \<noteq> [] \<and> length p = 1 \<and> is_ascii_alphabetic (hd p) then Some (p @ '':/'' @ join [SLASH] ps) else None)"
proof -
  have "split_once SLASH (join [SLASH] (p # ps)) = (if ps = [] then None else Some (p, join [SLASH] ps))"
  proof (cases "ps = []")
    case True
    have "position (\<lambda>x. x = SLASH) p = None" using assms by (auto simp: position_None)
    with True show ?thesis by (simp add: split_once_def)
  next
    case False
    have "position (\<lambda>x. x = SLASH) (p @ SLASH # join [SLASH] ps) = Some (length p)"
      by (rule position_append_hit) (use assms in auto)
    with False show ?thesis by (simp add: split_once_def join_Cons)
  qed
  then show ?thesis by (simp add: drive_path_def)
qed

lemma map_option_drive:
  "(case xs of _ # d # r # rs \<Rightarrow> if P d then Some (d @ c @ f (r # rs)) else None | _ \<Rightarrow> None)
    = map_option (\<lambda>(d, rest). d @ c @ f rest)
        (case xs of _ # d # r # rs \<Rightarrow> if P d then Some (d, r # rs) else None | _ \<Rightarrow> None)"
  by (simp split: list.split)

lemma drive_after_mnt:
  assumes "\<forall>p \<in> set ps. SLASH \<notin> set p \<and> p \<noteq> []"
  shows "Option.bind (after_mnt (tail_path ps)) drive_path =
    (case dropWhile (\<lambda>p. p \<noteq> ''mnt'') ps of
       _ # drive # r # rs \<Rightarrow>
         if length drive = 1 \<and> is_ascii_alphabetic (hd drive) then Some (drive @ '':/'' @ join [SLASH] (r # rs)) else None
     | _ \<Rightarrow> None)"
  using assms
proof (induction ps)
  case Nil
  then show ?case by (simp add: after_mnt_def)
next
  case (Cons p ps)
  then have p: "after_mnt (tail_path (p # ps)) =
      (if p = ''mnt'' \<and> ps \<noteq> [] then Some (join [SLASH] ps) else after_mnt (tail_path ps))"
    using after_mnt_component [of p ps] by simp
  show ?case
  proof (cases "p = ''mnt'' \<and> ps \<noteq> []")
    case True
    then obtain q qs where qs: "ps = q # qs" by (cases ps) auto
    then have "SLASH \<notin> set q" using Cons.prems by simp
    from drive_path_join [OF this, of qs] True p qs show ?thesis by (auto split: list.split)
  next
    case False
    with p Cons show ?thesis by (cases ps) (auto simp: after_mnt_def)
  qed
qed

lemma drive_after_strip:
  "(case Option.bind (strip_prefix ''/mnt/'' s) drive_path of
      Some p \<Rightarrow> p
    | None \<Rightarrow>
        (case Option.bind (str_find ''/mnt/'' s) (\<lambda>i. drive_path (drop (i + length ''/mnt/'') s)) of
           Some p \<Rightarrow> p | None \<Rightarrow> d))
    = (case Option.bind (after_mnt s) drive_path of Some p \<Rightarrow> p | None \<Rightarrow> d)"
proof (cases "strip_prefix ''/mnt/'' s")
  case None
  then show ?thesis by (cases "str_find ''/mnt/'' s") (simp_all add: after_mnt_def)
next
  case (Some r)
  then have "s = ''/mnt/'' @ r" by (simp add: strip_prefix_Some)
  then have "str_find ''/mnt/'' s = Some 0" "drop (length ''/mnt/'') s = r" by simp_all
  with Some show ?thesis by (cases "drive_path r") (simp_all add: after_mnt_def)
qed

lemma plan_path_key_parts:
  "normalize_plan_path path = path_key (path_parts path)"
proof -
  let ?s = "trim path"
  define rooted ps where "rooted = (?s \<noteq> [] \<and> is_sep (hd ?s))" and "ps = components ?s []"
  let ?low = "map to_ascii_lowercase ps"
  have ok: "\<forall>p \<in> set ?low. SLASH \<notin> set p \<and> p \<noteq> []"
    using components_free [of "[]" _ ?s] by (auto simp: ps_def to_ascii_lowercase_def) (metis ascii_lower_slash)
  have norm: "rstrip_slash (collapse_slashes (map (\<lambda>c. if c = BACKSLASH then SLASH else c) ?s)) = slashed rooted ps"
    by (simp add: unify rooted_def ps_def)
  let ?M = "if rooted then ?low else tl ?low"
  have mnt: "after_mnt (slashed rooted ?low) = after_mnt (tail_path ?M)"
    unfolding slashed_tail using ok by (cases ?low) (auto simp: after_mnt_free)
  have M: "\<forall>p \<in> set ?M. SLASH \<notin> set p \<and> p \<noteq> []"
    using ok by (cases ?low) auto
  have "Option.bind (after_mnt (slashed rooted ?low)) drive_path =
      (case dropWhile (\<lambda>p. p \<noteq> ''mnt'') ?M of
         _ # drive # r # rs \<Rightarrow>
           if length drive = 1 \<and> is_ascii_alphabetic (hd drive) then Some (drive @ '':/'' @ join [SLASH] (r # rs)) else None
       | _ \<Rightarrow> None)"
    unfolding mnt by (rule drive_after_mnt [OF M])
  also have "\<dots> = map_option (\<lambda>(drive, rest). drive @ '':/'' @ join [SLASH] rest) (wsl_drive rooted ?low)"
    unfolding wsl_drive_def by (rule map_option_drive)
  finally have "Option.bind (after_mnt (slashed rooted ?low)) drive_path =
      map_option (\<lambda>(drive, rest). drive @ '':/'' @ join [SLASH] rest) (wsl_drive rooted ?low)" .
  then show ?thesis
    unfolding normalize_plan_path_def Let_def norm lower_slashed drive_after_strip path_key_def path_parts_def
    by (auto simp: rooted_def [symmetric] ps_def [symmetric] Let_def split: option.split)
qed

text \<open>
  The key of a plan path depends only on whether it begins with a separator and on
  its components, however they are separated (slashes, backslashes, several of them, trailing
  ones) and whatever white space is around it; it is the drive path in lower case if the
  components are those of a drive seen through WSL, from any mount or share, or of a drive path
  itself, and otherwise the components joined, their case kept.
\<close>

theorem plan_path_key:
  "normalize_plan_path path = path_key (path_parts path)"
  by (rule plan_path_key_parts)

end
