(* ===== verification/Json_Object.thy ===== *)
theory Json_Object
  imports Json "HOL-Library.List_Lexorder" "HOL-Library.Char_ord"
begin

text \<open>
  The objects of \<open>serde_json\<close>: a \<open>Map\<close> is a tree map ordered by the bytes of its keys, here the
  list of its entries in that order. \<open>BTreeMap<String, Value>\<close> is the same.
\<close>

fun obj_insert :: "string \<Rightarrow> json \<Rightarrow> (string \<times> json) list \<Rightarrow> (string \<times> json) list" where
  "obj_insert k v [] = [(k, v)]"
| "obj_insert k v ((k', v') # kvs) =
    (if k = k' then (k, v) # kvs
     else if k < k' then (k, v) # (k', v') # kvs
     else (k', v') # obj_insert k v kvs)"

definition obj_remove :: "string \<Rightarrow> (string \<times> json) list \<Rightarrow> (string \<times> json) list" where
  "obj_remove k kvs = filter (\<lambda>(k', _). k' \<noteq> k) kvs"

fun obj_entries :: "json \<Rightarrow> (string \<times> json) list" where
  "obj_entries (JObject kvs) = kvs"
| "obj_entries _ = []"

text \<open>A value as \<open>serde_json\<close> builds it: the keys of every object are in order, without duplicates.\<close>

fun wf_json :: "json \<Rightarrow> bool" where
  "wf_json (JArray xs) = list_all wf_json xs"
| "wf_json (JObject kvs) = (sorted_wrt (<) (map fst kvs) \<and> list_all (\<lambda>(k, v). wf_json v) kvs)"
| "wf_json _ = True"

section \<open>Objects\<close>

abbreviation keys_sorted :: "(string \<times> json) list \<Rightarrow> bool" where
  "keys_sorted kvs \<equiv> sorted_wrt (<) (map fst kvs)"

lemma map_of_insert: "keys_sorted kvs \<Longrightarrow> map_of (obj_insert k v kvs) = (map_of kvs)(k \<mapsto> v)"
  by (induction kvs) (auto simp: fun_eq_iff)

lemma map_of_remove: "map_of (obj_remove k kvs) = (map_of kvs)(k := None)"
  by (induction kvs) (auto simp: obj_remove_def fun_eq_iff)

lemma keys_insert: "fst ` set (obj_insert k v kvs) = insert k (fst ` set kvs)"
proof (induction kvs)
  case (Cons e kvs)
  then show ?case by (cases e) (simp add: insert_commute)
qed simp

lemma insert_sorted: "keys_sorted kvs \<Longrightarrow> keys_sorted (obj_insert k v kvs)"
proof (induction kvs)
  case (Cons e kvs)
  obtain k' v' where e: "e = (k', v')" by fastforce
  have "\<forall>x \<in> set (map fst (obj_insert k v kvs)). x \<in> insert k (set (map fst kvs))"
    using keys_insert [of k v kvs] by auto
  with Cons e show ?case by (fastforce simp: not_less)
qed simp

lemma remove_sorted: "keys_sorted kvs \<Longrightarrow> keys_sorted (obj_remove k kvs)"
  by (induction kvs) (auto simp: obj_remove_def)

lemma insert_same: "keys_sorted kvs \<Longrightarrow> map_of kvs k = Some v \<Longrightarrow> obj_insert k v kvs = kvs"
proof (induction kvs)
  case (Cons e kvs)
  obtain k' v' where e: "e = (k', v')" by fastforce
  then show ?case using Cons map_of_SomeD [of kvs k v] by (fastforce split: if_splits)
qed simp

lemma remove_absent: "map_of kvs k = None \<Longrightarrow> obj_remove k kvs = kvs"
  by (induction kvs) (auto simp: obj_remove_def split: if_splits)

lemma insert_values: "list_all (\<lambda>(k, v). P v) kvs \<Longrightarrow> P v \<Longrightarrow> list_all (\<lambda>(k, v). P v) (obj_insert k v kvs)"
  by (induction kvs) auto

lemma remove_values: "list_all (\<lambda>(k, v). P v) kvs \<Longrightarrow> list_all (\<lambda>(k, v). P v) (obj_remove k kvs)"
  by (induction kvs) (auto simp: obj_remove_def)

end
