(* ===== verification/Json_Patch.thy ===== *)
theory Json_Patch
  imports Json_Object App_Error
begin

text \<open>
  The merge patch on the metadata of a task binding (\<open>apply_json_merge_patch\<close> of
  \<open>services/task_binding_service.rs\<close>). The entries of an object are those of a
  \<open>serde_json::Map\<close>, a tree map ordered by the bytes of the keys. The theorem compares it with
  what RFC 7396 says the result holds under every path.
\<close>

section \<open>The code\<close>

definition TASK_BINDING_MERGE_PATCH_MAX_DEPTH :: nat where
  "TASK_BINDING_MERGE_PATCH_MAX_DEPTH = 16"

definition entry_or_null :: "(string \<times> json) list \<Rightarrow> string \<Rightarrow> json" where
  "entry_or_null kvs k = (case map_of kvs k of Some v \<Rightarrow> v | None \<Rightarrow> JNull)"

abbreviation patch_too_deep :: app_error where
  "patch_too_deep \<equiv> ErrMessage None ''TaskBinding metadata patch depth must be <= 16''"

fun apply_json_merge_patch :: "json \<Rightarrow> json \<Rightarrow> nat \<Rightarrow> app_error + json"
  and merge_entries :: "(string \<times> json) list \<Rightarrow> (string \<times> json) list \<Rightarrow> nat \<Rightarrow> app_error + (string \<times> json) list"
where
  "apply_json_merge_patch target patch depth =
    (if TASK_BINDING_MERGE_PATCH_MAX_DEPTH < depth then Inl patch_too_deep
     else
       (case patch of
          JObject patch_object \<Rightarrow>
            res_bind (merge_entries (obj_entries target) patch_object depth) (\<lambda>kvs. Inr (JObject kvs))
        | other \<Rightarrow> Inr other))"
| "merge_entries target [] depth = Inr target"
| "merge_entries target ((key, v) # kvs) depth =
    (if v = JNull then merge_entries (obj_remove key target) kvs depth
     else
       res_bind (apply_json_merge_patch (entry_or_null target key) v (depth + 1)) (\<lambda>x.
       merge_entries (obj_insert key x target) kvs depth))"

declare apply_json_merge_patch.simps [simp del]

section \<open>What the standard says\<close>

text \<open>What a value holds under a path of keys; of an object only that it is one.\<close>

fun json_at :: "json \<Rightarrow> string list \<Rightarrow> json option" where
  "json_at (JObject kvs) [] = Some (JObject [])"
| "json_at v [] = Some v"
| "json_at (JObject kvs) (k # ks) = (case map_of kvs k of Some v \<Rightarrow> json_at v ks | None \<Rightarrow> None)"
| "json_at v (k # ks) = None"

text \<open>
  RFC 7396 by paths: a null of the patch removes the value, any other value that is not an
  object replaces it, and what the patch does not name is kept.
\<close>

fun merged_at :: "json \<Rightarrow> json option \<Rightarrow> string list \<Rightarrow> json option" where
  "merged_at (JObject kvs) target [] = Some (JObject [])"
| "merged_at v target [] = Some v"
| "merged_at (JObject kvs) target (k # ks) =
    (case map_of kvs k of
       Some JNull \<Rightarrow> None
     | Some v \<Rightarrow> merged_at v (Option.bind target (\<lambda>t. json_get t k)) ks
     | None \<Rightarrow> Option.bind target (\<lambda>t. json_at t (k # ks)))"
| "merged_at v target (k # ks) = None"

text \<open>How deep the objects of a patch are nested, below nulls not counted.\<close>

fun patch_depth :: "json \<Rightarrow> nat" where
  "patch_depth (JObject kvs) =
    foldr (\<lambda>(k, v) n. if v = JNull then n else max (Suc (patch_depth v)) n) kvs 0"
| "patch_depth _ = 0"

section \<open>Entries\<close>

lemma wf_entries: "wf_json t \<Longrightarrow> keys_sorted (obj_entries t) \<and> list_all (\<lambda>(k, v). wf_json v) (obj_entries t)"
  by (cases t) auto

lemma wf_entry: "list_all (\<lambda>(k, v). wf_json v) kvs \<Longrightarrow> wf_json (entry_or_null kvs k)"
  by (auto simp: entry_or_null_def list_all_iff split: option.split dest: map_of_SomeD)

lemma get_entries: "json_get t k = map_of (obj_entries t) k"
  by (cases t) auto

section \<open>The merge\<close>

lemma merge_error_iff:
  "(\<exists>e. apply_json_merge_patch t p d = Inl e) \<longleftrightarrow> TASK_BINDING_MERGE_PATCH_MAX_DEPTH < d + patch_depth p"
  "d \<le> TASK_BINDING_MERGE_PATCH_MAX_DEPTH \<Longrightarrow>
    (\<exists>e. merge_entries o1 kvs d = Inl e) \<longleftrightarrow> TASK_BINDING_MERGE_PATCH_MAX_DEPTH < d + patch_depth (JObject kvs)"
proof (induction t p d and o1 kvs d rule: apply_json_merge_patch_merge_entries.induct)
  case (1 target patch depth)
  then show ?case
    by (cases patch) (auto simp: apply_json_merge_patch.simps [of target] res_bind_def split: sum.splits)
next
  case (2 target depth)
  then show ?case by simp
next
  case (3 target key v kvs depth)
  show ?case
  proof (cases "v = JNull")
    case True
    with 3 show ?thesis by simp
  next
    case False
    show ?thesis
    proof (cases "apply_json_merge_patch (entry_or_null target key) v (depth + 1)")
      case (Inl e)
      with 3 False show ?thesis by (auto simp: max_def)
    next
      case (Inr x)
      with 3 False show ?thesis by (auto simp: max_def)
    qed
  qed
qed

lemma merge_error: "apply_json_merge_patch t p d = Inl e \<Longrightarrow> e = patch_too_deep"
  "merge_entries o1 kvs d = Inl e \<Longrightarrow> e = patch_too_deep"
proof (induction t p d and o1 kvs d rule: apply_json_merge_patch_merge_entries.induct)
  case (1 target patch depth)
  then show ?case
    by (cases patch) (auto simp: apply_json_merge_patch.simps [of target] res_bind_def split: if_splits sum.splits)
qed (auto simp: res_bind_def split: if_splits sum.splits)

lemma merge_wf:
  "apply_json_merge_patch t p d = Inr r \<Longrightarrow> wf_json t \<Longrightarrow> wf_json p \<Longrightarrow> wf_json r"
  "merge_entries o1 kvs d = Inr o2 \<Longrightarrow> keys_sorted o1 \<and> list_all (\<lambda>(k, v). wf_json v) o1 \<Longrightarrow>
    list_all (\<lambda>(k, v). wf_json v) kvs \<Longrightarrow> keys_sorted o2 \<and> list_all (\<lambda>(k, v). wf_json v) o2"
proof (induction t p d and o1 kvs d arbitrary: r and o2 rule: apply_json_merge_patch_merge_entries.induct)
  case (1 target patch depth)
  then show ?case
    using wf_entries [of target]
    by (cases patch) (auto simp: apply_json_merge_patch.simps [of target] res_bind_eq_Inr split: if_splits)
next
  case (3 target key v kvs depth)
  then show ?case
    by (auto simp: res_bind_eq_Inr insert_sorted remove_sorted wf_entry insert_values [of wf_json]
        remove_values [of wf_json] split: if_splits)
qed auto

lemma merge_entries_at:
  assumes "merge_entries o1 kvs d = Inr o2" and "keys_sorted o1" and "distinct (map fst kvs)"
  shows "keys_sorted o2 \<and> (case map_of kvs k of
      None \<Rightarrow> map_of o2 k = map_of o1 k
    | Some v \<Rightarrow>
        if v = JNull then map_of o2 k = None
        else (\<exists>x. apply_json_merge_patch (entry_or_null o1 k) v (d + 1) = Inr x \<and> map_of o2 k = Some x))"
  using assms
proof (induction kvs arbitrary: o1)
  case (Cons e kvs)
  obtain k' v' where e: "e = (k', v')" by fastforce
  have k': "map_of kvs k' = None" using Cons.prems(3) e by (auto simp: map_of_eq_None_iff)
  show ?case
  proof (cases "v' = JNull")
    case True
    with Cons.prems e have "merge_entries (obj_remove k' o1) kvs d = Inr o2" by simp
    from Cons.IH [OF this remove_sorted [OF Cons.prems(2)]] Cons.prems(3) True e k' show ?thesis
      by (auto simp: map_of_remove entry_or_null_def simp del: map_of_eq_Some_iff split: option.splits if_splits)
  next
    case False
    with Cons.prems e obtain x where x: "apply_json_merge_patch (entry_or_null o1 k') v' (d + 1) = Inr x"
      "merge_entries (obj_insert k' x o1) kvs d = Inr o2" by (auto simp: res_bind_eq_Inr)
    from Cons.IH [OF x(2) insert_sorted [OF Cons.prems(2)]] Cons.prems(3) x(1) False e k' show ?thesis
      by (auto simp: map_of_insert [OF Cons.prems(2)] entry_or_null_def simp del: map_of_eq_Some_iff
          split: option.splits if_splits)
  qed
qed simp

lemma merge_at:
  "wf_json p \<Longrightarrow> apply_json_merge_patch t p d = Inr r \<Longrightarrow> wf_json t \<Longrightarrow>
    json_at r ks = merged_at p (Some t) ks"
proof (induction ks arbitrary: t p d r)
  case Nil
  then show ?case
    by (cases p) (auto simp: apply_json_merge_patch.simps [of t] res_bind_eq_Inr split: if_splits)
next
  case (Cons k ks)
  show ?case
  proof (cases p)
    case (JObject kvs)
    with Cons.prems obtain o2 where r: "r = JObject o2" and m: "merge_entries (obj_entries t) kvs d = Inr o2"
      by (auto simp: apply_json_merge_patch.simps [of t] res_bind_eq_Inr split: if_splits)
    have t: "keys_sorted (obj_entries t)" "list_all (\<lambda>(k, v). wf_json v) (obj_entries t)"
      using wf_entries [OF Cons.prems(3)] by simp_all
    have kvs: "keys_sorted kvs" "list_all (\<lambda>(k, v). wf_json v) kvs"
      using Cons.prems(1) JObject by simp_all
    then have "distinct (map fst kvs)" by (simp add: strict_sorted_iff)
    note at = merge_entries_at [OF m t(1) this, of k, THEN conjunct2]
    show ?thesis
    proof (cases "map_of kvs k")
      case None
      with at have "map_of o2 k = json_get t k" by (simp add: get_entries)
      with r JObject None show ?thesis by (cases t) simp_all
    next
      case (Some v)
      have wfv: "wf_json v" using kvs(2) map_of_SomeD [OF Some] by (auto simp: list_all_iff)
      show ?thesis
      proof (cases "v = JNull")
        case True
        with at Some r JObject show ?thesis by simp
      next
        case False
        with at Some obtain x where x: "apply_json_merge_patch (entry_or_null (obj_entries t) k) v (d + 1) = Inr x"
          "map_of o2 k = Some x" by auto
        have ih: "json_at x ks = merged_at v (Some (entry_or_null (obj_entries t) k)) ks"
          by (rule Cons.IH [OF wfv x(1) wf_entry [OF t(2)]])
        have "merged_at v (Some (entry_or_null (obj_entries t) k)) ks = merged_at v (json_get t k) ks"
        proof (cases "json_get t k")
          case None
          then have "entry_or_null (obj_entries t) k = JNull" by (simp add: entry_or_null_def get_entries)
          with None show ?thesis by (cases v; cases ks) (auto split: option.split json.split)
        qed (simp add: entry_or_null_def get_entries)
        moreover have "merged_at p (Some t) (k # ks) = merged_at v (json_get t k) ks"
          using JObject Some False by (cases v) simp_all
        ultimately show ?thesis using r x(2) ih by simp
      qed
    qed
  qed (use Cons.prems in \<open>auto simp: apply_json_merge_patch.simps [of t] split: if_splits\<close>)
qed

lemma merge_again:
  "apply_json_merge_patch t p d = Inr r \<Longrightarrow> wf_json t \<Longrightarrow> wf_json p \<Longrightarrow> apply_json_merge_patch r p d = Inr r"
proof (induction p arbitrary: t d r)
  case (JObject kvs)
  from JObject.prems obtain o2 where r: "r = JObject o2" and m: "merge_entries (obj_entries t) kvs d = Inr o2"
    and d: "d \<le> TASK_BINDING_MERGE_PATCH_MAX_DEPTH"
    by (auto simp: apply_json_merge_patch.simps [of t] res_bind_eq_Inr split: if_splits)
  have t: "keys_sorted (obj_entries t)" "list_all (\<lambda>(k, v). wf_json v) (obj_entries t)"
    using wf_entries [OF JObject.prems(2)] by simp_all
  have kvs: "keys_sorted kvs" "list_all (\<lambda>(k, v). wf_json v) kvs" using JObject.prems by simp_all
  then have dist: "distinct (map fst kvs)" by (simp add: strict_sorted_iff)
  note at = merge_entries_at [OF m t(1) dist]
  have sorted: "keys_sorted o2" using at by blast
  have "set kvs' \<subseteq> set kvs \<Longrightarrow> merge_entries o2 kvs' d = Inr o2" for kvs'
  proof (induction kvs')
    case (Cons e kvs')
    obtain k v where e: "e = (k, v)" by fastforce
    have v: "map_of kvs k = Some v" "(k, v) \<in> set kvs" using Cons.prems e dist by (auto intro: map_of_is_SomeI)
    show ?case
    proof (cases "v = JNull")
      case True
      with at [of k] v have "obj_remove k o2 = o2" by (simp add: remove_absent)
      with Cons e True show ?thesis by simp
    next
      case False
      with at [of k] v obtain x where x: "apply_json_merge_patch (entry_or_null (obj_entries t) k) v (d + 1) = Inr x"
        "map_of o2 k = Some x" by auto
      have "wf_json v" using kvs(2) v(2) by (auto simp: list_all_iff)
      with JObject.IH [OF v(2) _ x(1) wf_entry [OF t(2)]] have "apply_json_merge_patch x v (d + 1) = Inr x"
        by simp
      with Cons e False x(2) insert_same [OF sorted x(2)] show ?thesis by (simp add: entry_or_null_def)
    qed
  qed simp
  then have "merge_entries o2 kvs d = Inr o2" by blast
  with r d show ?case by (simp add: apply_json_merge_patch.simps [of "JObject o2"])
qed (auto simp: apply_json_merge_patch.simps split: if_splits)

text \<open>
  Property C21. A merge patch on metadata is refused exactly when its objects are nested deeper
  than 16. Otherwise the result holds under every path what RFC 7396 says: null removes, any
  other value replaces, objects are merged, the rest is kept. The result is again well-formed,
  and applying the patch once more changes nothing.
\<close>

theorem merge_patch_is_the_standard:
  assumes "wf_json target" and "wf_json patch"
  shows "case apply_json_merge_patch target patch 0 of
      Inl e \<Rightarrow> e = patch_too_deep \<and> 16 < patch_depth patch
    | Inr r \<Rightarrow> patch_depth patch \<le> 16 \<and> wf_json r
        \<and> json_at r = merged_at patch (Some target)
        \<and> apply_json_merge_patch r patch 0 = Inr r"
  using merge_error(1) [of target patch 0] merge_error_iff(1) [of target patch 0]
    merge_wf(1) [OF _ assms, of 0] merge_at [OF assms(2) _ assms(1), of 0]
    merge_again [OF _ assms, of 0]
  by (auto simp: TASK_BINDING_MERGE_PATCH_MAX_DEPTH_def fun_eq_iff not_less split: sum.split)

theorem merge_patch_is_the_standard_witness:
  "(let target = JObject [(''a'', JBool True), (''b'', JObject [(''c'', JNull)])];
        patch = JObject [(''a'', JNull), (''b'', JObject [(''d'', JNumber ''1'')])]
    in case apply_json_merge_patch target patch 0 of
      Inl e \<Rightarrow> False
    | Inr r \<Rightarrow> json_at r [''b'', ''d''] = Some (JNumber ''1'') \<and> json_at r [''a''] = None
        \<and> json_at r [''b'', ''c''] = Some JNull)"
  using merge_patch_is_the_standard [of "JObject [(''a'', JBool True), (''b'', JObject [(''c'', JNull)])]"
    "JObject [(''a'', JNull), (''b'', JObject [(''d'', JNumber ''1'')])]"]
  by (auto simp: Let_def less_char_def split: sum.splits)

end
