(* ===== verification/Task_Binding.thy ===== *)
theory Task_Binding
  imports Plan_Path Json_Patch Sql_Rows
begin

text \<open>
  The bindings of tasks to terminal sessions: \<open>models/task_binding.rs\<close>, the table
  \<open>task_bindings\<close> and \<open>repository/task_binding_repo.rs\<close>. A row holds the text of role and
  status; the JSON text of the metadata stands for the value it encodes. A time is a number that
  grows as its RFC 3339 text does. Integers are those of the code's \<open>i32\<close> and \<open>u32\<close>; the only
  arithmetic on them is written out.
\<close>

section \<open>Data\<close>

datatype binding_status = BPending | BRunning | BWaiting | BCompleted | BFailed

fun binding_status_as_str :: "binding_status \<Rightarrow> string" where
  "binding_status_as_str BPending = ''pending''"
| "binding_status_as_str BRunning = ''running''"
| "binding_status_as_str BWaiting = ''waiting''"
| "binding_status_as_str BCompleted = ''completed''"
| "binding_status_as_str BFailed = ''failed''"

definition binding_status_from_str :: "string \<Rightarrow> string + binding_status" where
  "binding_status_from_str s =
    (if s = ''pending'' then Inr BPending
     else if s = ''running'' then Inr BRunning
     else if s = ''waiting'' then Inr BWaiting
     else if s = ''completed'' then Inr BCompleted
     else if s = ''failed'' then Inr BFailed
     else Inl (''Invalid TaskBindingStatus: '' @ s))"

datatype binding_role = RTask | RLeader | RWorker

fun binding_role_as_str :: "binding_role \<Rightarrow> string" where
  "binding_role_as_str RTask = ''task''"
| "binding_role_as_str RLeader = ''leader''"
| "binding_role_as_str RWorker = ''worker''"

definition binding_role_from_str :: "string \<Rightarrow> string + binding_role" where
  "binding_role_from_str s =
    (if s = ''task'' then Inr RTask
     else if s = ''leader'' then Inr RLeader
     else if s = ''worker'' \<or> s = ''child'' then Inr RWorker
     else Inl (''Invalid TaskBindingRole: '' @ s))"

record ('r, 's) binding_data =
  b_id :: string
  b_title :: string
  b_role :: 'r
  b_parent_id :: "string option"
  b_plan_path :: "string option"
  b_normalized_plan_path :: "string option"
  b_prompt :: "string option"
  b_session_id :: "string option"
  b_resume_id :: "string option"
  b_pane_id :: "string option"
  b_tab_id :: "string option"
  b_todo_id :: "string option"
  b_project_path :: string
  b_workspace_name :: "string option"
  b_cli_tool :: string
  b_status :: 's
  b_progress :: int
  b_completion_summary :: "string option"
  b_exit_code :: "int option"
  b_sort_order :: int
  b_worker_kind :: "string option"
  b_metadata :: "json option"
  b_created_at :: nat
  b_updated_at :: nat

type_synonym task_binding = "(binding_role, binding_status) binding_data"
type_synonym binding_row = "(string, string) binding_data"

record update_request =
  ur_title :: "string option"
  ur_role :: "binding_role option"
  ur_parent_id :: "string option"
  ur_plan_path :: "string option"
  ur_normalized_plan_path :: "string option"
  ur_prompt :: "string option"
  ur_session_id :: "string option"
  ur_resume_id :: "string option"
  ur_pane_id :: "string option"
  ur_tab_id :: "string option"
  ur_status :: "binding_status option"
  ur_progress :: "int option"
  ur_completion_summary :: "string option"
  ur_exit_code :: "int option"
  ur_sort_order :: "int option"
  ur_worker_kind :: "string option"
  ur_metadata :: "json option"

definition no_update :: update_request where
  "no_update = \<lparr>ur_title = None, ur_role = None, ur_parent_id = None, ur_plan_path = None,
    ur_normalized_plan_path = None, ur_prompt = None, ur_session_id = None, ur_resume_id = None,
    ur_pane_id = None, ur_tab_id = None, ur_status = None, ur_progress = None,
    ur_completion_summary = None, ur_exit_code = None, ur_sort_order = None, ur_worker_kind = None,
    ur_metadata = None\<rparr>"

record binding_query =
  bq_status :: "binding_status option"
  bq_role :: "binding_role option"
  bq_parent_id :: "string option"
  bq_plan_path :: "string option"
  bq_normalized_plan_path :: "string option"
  bq_resume_id :: "string option"
  bq_pane_id :: "string option"
  bq_session_id :: "string option"
  bq_project_path :: "string option"
  bq_workspace_name :: "string option"
  bq_search :: "string option"
  bq_limit :: "nat option"
  bq_offset :: "nat option"

record query_result =
  qr_items :: "task_binding list"
  qr_total :: nat
  qr_has_more :: bool

section \<open>Rows\<close>

definition binding_to_row :: "task_binding \<Rightarrow> binding_row" where
  "binding_to_row b = \<lparr>b_id = b_id b, b_title = b_title b, b_role = binding_role_as_str (b_role b),
    b_parent_id = b_parent_id b, b_plan_path = b_plan_path b,
    b_normalized_plan_path = b_normalized_plan_path b, b_prompt = b_prompt b,
    b_session_id = b_session_id b, b_resume_id = b_resume_id b, b_pane_id = b_pane_id b,
    b_tab_id = b_tab_id b, b_todo_id = b_todo_id b, b_project_path = b_project_path b,
    b_workspace_name = b_workspace_name b, b_cli_tool = b_cli_tool b,
    b_status = binding_status_as_str (b_status b), b_progress = b_progress b,
    b_completion_summary = b_completion_summary b, b_exit_code = b_exit_code b,
    b_sort_order = b_sort_order b, b_worker_kind = b_worker_kind b, b_metadata = b_metadata b,
    b_created_at = b_created_at b, b_updated_at = b_updated_at b\<rparr>"

definition row_to_binding :: "binding_row \<Rightarrow> task_binding" where
  "row_to_binding r = \<lparr>b_id = b_id r, b_title = b_title r,
    b_role = (case binding_role_from_str (b_role r) of Inr role \<Rightarrow> role | Inl _ \<Rightarrow> RTask),
    b_parent_id = b_parent_id r, b_plan_path = b_plan_path r,
    b_normalized_plan_path = b_normalized_plan_path r, b_prompt = b_prompt r,
    b_session_id = b_session_id r, b_resume_id = b_resume_id r, b_pane_id = b_pane_id r,
    b_tab_id = b_tab_id r, b_todo_id = b_todo_id r, b_project_path = b_project_path r,
    b_workspace_name = b_workspace_name r, b_cli_tool = b_cli_tool r,
    b_status = (case binding_status_from_str (b_status r) of Inr status \<Rightarrow> status | Inl _ \<Rightarrow> BPending),
    b_progress = b_progress r,
    b_completion_summary = b_completion_summary r, b_exit_code = b_exit_code r,
    b_sort_order = b_sort_order r, b_worker_kind = b_worker_kind r, b_metadata = b_metadata r,
    b_created_at = b_created_at r, b_updated_at = b_updated_at r\<rparr>"

section \<open>Operations of the repository\<close>

definition repo_insert :: "task_binding \<Rightarrow> binding_row list \<Rightarrow> app_error + binding_row list" where
  "repo_insert b rows =
    (if list_ex (\<lambda>r. b_id r = b_id b) rows then Inl DbConstraint else Inr (rows @ [binding_to_row b]))"

definition repo_get :: "string \<Rightarrow> binding_row list \<Rightarrow> task_binding option" where
  "repo_get bid rows = map_option row_to_binding (find (\<lambda>r. b_id r = bid) rows)"

definition repo_find_by_session_id :: "string \<Rightarrow> binding_row list \<Rightarrow> task_binding option" where
  "repo_find_by_session_id session_id rows =
    map_option row_to_binding (newest b_updated_at (filter (\<lambda>r. b_session_id r = Some session_id) rows))"

definition find_leader_by_plan :: "string \<Rightarrow> string option \<Rightarrow> binding_row list \<Rightarrow> task_binding option" where
  "find_leader_by_plan normalized_plan_path project_path rows =
    map_option row_to_binding
      (newest b_updated_at
        (filter (\<lambda>r. b_role r = ''leader'' \<and> b_normalized_plan_path r = Some normalized_plan_path
            \<and> (case project_path of Some p \<Rightarrow> b_project_path r = p | None \<Rightarrow> True)) rows))"

definition is_worker_row :: "binding_row \<Rightarrow> bool" where
  "is_worker_row r \<longleftrightarrow> b_role r = ''worker'' \<or> b_role r = ''child''"

definition find_workers_of :: "string \<Rightarrow> binding_row list \<Rightarrow> task_binding list" where
  "find_workers_of parent_id rows =
    map row_to_binding
      (order_by b_sort_order (order_by b_created_at
        (filter (\<lambda>r. is_worker_row r \<and> b_parent_id r = Some parent_id) rows)))"

definition find_worker_for_registration ::
    "string \<Rightarrow> string \<Rightarrow> string option \<Rightarrow> binding_row list \<Rightarrow> task_binding option" where
  "find_worker_for_registration parent_id session_id resume_id rows =
    (let by_resume =
       (case resume_id of
          Some resume_id \<Rightarrow>
            if trim resume_id = [] then None
            else newest b_updated_at
              (filter (\<lambda>r. is_worker_row r \<and> b_parent_id r = Some parent_id \<and> b_resume_id r = Some resume_id) rows)
        | None \<Rightarrow> None)
     in map_option row_to_binding
          (case by_resume of
             Some r \<Rightarrow> Some r
           | None \<Rightarrow>
               newest b_updated_at
                 (filter (\<lambda>r. is_worker_row r \<and> b_parent_id r = Some parent_id \<and> b_session_id r = Some session_id) rows)))"

text \<open>The \<open>SET\<close> list of an update: the fields that are present replace the columns.\<close>

definition update_fields :: "update_request \<Rightarrow> bool \<Rightarrow> binding_row \<Rightarrow> binding_row" where
  "update_fields req reset_result r = r\<lparr>
     b_title := or_else (ur_title req) (b_title r),
     b_parent_id := or_option (ur_parent_id req) (b_parent_id r),
     b_plan_path := or_option (ur_plan_path req) (b_plan_path r),
     b_normalized_plan_path := or_option (ur_normalized_plan_path req) (b_normalized_plan_path r),
     b_prompt := or_option (ur_prompt req) (b_prompt r),
     b_session_id := or_option (ur_session_id req) (b_session_id r),
     b_resume_id := or_option (ur_resume_id req) (b_resume_id r),
     b_pane_id := or_option (ur_pane_id req) (b_pane_id r),
     b_tab_id := or_option (ur_tab_id req) (b_tab_id r),
     b_progress := (if reset_result then 0 else or_else (ur_progress req) (b_progress r)),
     b_completion_summary :=
       (if reset_result then None else or_option (ur_completion_summary req) (b_completion_summary r)),
     b_exit_code := (if reset_result then None else or_option (ur_exit_code req) (b_exit_code r)),
     b_sort_order := or_else (ur_sort_order req) (b_sort_order r),
     b_worker_kind := or_option (ur_worker_kind req) (b_worker_kind r),
     b_role := or_else (map_option binding_role_as_str (ur_role req)) (b_role r),
     b_status := or_else (map_option binding_status_as_str (ur_status req)) (b_status r),
     b_metadata := or_option (ur_metadata req) (b_metadata r)\<rparr>"

definition sets_nothing :: "update_request \<Rightarrow> bool \<Rightarrow> bool" where
  "sets_nothing req reset_result \<longleftrightarrow>
    \<not> reset_result \<and> ur_title req = None \<and> ur_parent_id req = None \<and> ur_plan_path req = None
    \<and> ur_normalized_plan_path req = None \<and> ur_prompt req = None \<and> ur_session_id req = None
    \<and> ur_resume_id req = None \<and> ur_pane_id req = None \<and> ur_tab_id req = None
    \<and> ur_progress req = None \<and> ur_completion_summary req = None \<and> ur_exit_code req = None
    \<and> ur_sort_order req = None \<and> ur_worker_kind req = None \<and> ur_role req = None
    \<and> ur_status req = None \<and> ur_metadata req = None"

text \<open>The rows and whether a row was updated.\<close>

definition repo_update ::
    "string \<Rightarrow> update_request \<Rightarrow> bool \<Rightarrow> nat \<Rightarrow> binding_row list \<Rightarrow> binding_row list \<times> bool" where
  "repo_update bid req reset_result now rows =
    (if sets_nothing req reset_result then (rows, False)
     else
       (map (\<lambda>r. if b_id r = bid then (update_fields req reset_result r)\<lparr>b_updated_at := now\<rparr> else r) rows,
        list_ex (\<lambda>r. b_id r = bid) rows))"

definition repo_delete :: "string \<Rightarrow> binding_row list \<Rightarrow> binding_row list \<times> bool" where
  "repo_delete bid rows = (filter (\<lambda>r. b_id r \<noteq> bid) rows, list_ex (\<lambda>r. b_id r = bid) rows)"

text \<open>
  The recursive common table expression with \<open>UNION ALL\<close>: SQLite takes an id from the queue,
  adds it to the result and appends the ids of its children to the queue. Nothing removes
  duplicates, so it need not end.
\<close>

definition children_ids :: "binding_row list \<Rightarrow> string \<Rightarrow> string list" where
  "children_ids rows bid = map b_id (filter (\<lambda>r. b_parent_id r = Some bid) rows)"

partial_function (option) descendants :: "binding_row list \<Rightarrow> string list \<Rightarrow> string list option" where
  "descendants rows queue =
    (case queue of
       [] \<Rightarrow> Some []
     | bid # rest \<Rightarrow> Option.bind (descendants rows (rest @ children_ids rows bid)) (\<lambda>ids. Some (bid # ids)))"

definition repo_delete_cascade :: "string \<Rightarrow> binding_row list \<Rightarrow> (binding_row list \<times> string list) option" where
  "repo_delete_cascade bid rows =
    map_option (\<lambda>ids. (filter (\<lambda>r. b_id r \<notin> set ids) rows, ids))
      (descendants rows (map b_id (filter (\<lambda>r. b_id r = bid) rows)))"

definition query_matches :: "binding_query \<Rightarrow> binding_row \<Rightarrow> bool" where
  "query_matches q r \<longleftrightarrow>
    (case bq_status q of Some s \<Rightarrow> b_status r = binding_status_as_str s | None \<Rightarrow> True)
    \<and> (case bq_role q of
         Some role \<Rightarrow> if role = RWorker then is_worker_row r else b_role r = binding_role_as_str role
       | None \<Rightarrow> True)
    \<and> bq_parent_id q \<in> {None, b_parent_id r}
    \<and> bq_plan_path q \<in> {None, b_plan_path r}
    \<and> bq_normalized_plan_path q \<in> {None, b_normalized_plan_path r}
    \<and> bq_resume_id q \<in> {None, b_resume_id r}
    \<and> bq_pane_id q \<in> {None, b_pane_id r}
    \<and> bq_session_id q \<in> {None, b_session_id r}
    \<and> bq_project_path q \<in> {None, Some (b_project_path r)}
    \<and> bq_workspace_name q \<in> {None, b_workspace_name r}
    \<and> (case bq_search q of
         Some s \<Rightarrow>
           (let pat = ''%'' @ s @ ''%''
            in like pat (b_title r) \<or> (case b_prompt r of Some p \<Rightarrow> like pat p | None \<Rightarrow> False))
       | None \<Rightarrow> True)"

text \<open>The rows by sort order, the newest first; the sum of offset and limit wraps as \<open>u32\<close>.\<close>

definition repo_query :: "binding_query \<Rightarrow> binding_row list \<Rightarrow> query_result" where
  "repo_query q rows =
    (let hits = filter (query_matches q) rows;
         limit = min (or_else (bq_limit q) 50) 200;
         offset = or_else (bq_offset q) 0
     in \<lparr>qr_items = map row_to_binding (take limit (drop offset
              (order_by b_sort_order (order_by (\<lambda>r. - int (b_created_at r)) hits)))),
         qr_total = length hits,
         qr_has_more = (offset + limit) mod 4294967296 < length hits\<rparr>)"

end
