(* ===== verification/Task_Service.thy ===== *)
theory Task_Service
  imports Task_Binding
begin

text \<open>
  The service of the task bindings (\<open>services/task_binding_service.rs\<close>): creating, updating,
  patching, registering the leader and the workers of a plan, reconciling them with the live
  sessions, and recording the exit of a terminal. A service operation makes several accesses to
  the table, each under the lock of the connection. What other threads do before its \<open>n\<close>-th
  access, the clock at that access and the uuid made there are arguments; \<open>update_lock\<close> only
  keeps out the other operations that take it.
\<close>

section \<open>Requests and state\<close>

definition TASK_BINDING_PATCH_MAX_BYTES :: nat where
  "TASK_BINDING_PATCH_MAX_BYTES = 65536"

datatype change_op = OpCreate | OpUpdate | OpDelete | OpRegister | OpReconcile

record create_request =
  cr_title :: string
  cr_role :: "binding_role option"
  cr_parent_id :: "string option"
  cr_plan_path :: "string option"
  cr_normalized_plan_path :: "string option"
  cr_prompt :: "string option"
  cr_session_id :: "string option"
  cr_resume_id :: "string option"
  cr_pane_id :: "string option"
  cr_tab_id :: "string option"
  cr_todo_id :: "string option"
  cr_project_path :: string
  cr_workspace_name :: "string option"
  cr_cli_tool :: "string option"
  cr_worker_kind :: "string option"
  cr_metadata :: "json option"

record leader_request =
  lr_plan_path :: string
  lr_project_path :: string
  lr_title :: "string option"
  lr_prompt :: "string option"
  lr_session_id :: "string option"
  lr_resume_id :: "string option"
  lr_pane_id :: "string option"
  lr_tab_id :: "string option"
  lr_workspace_name :: "string option"
  lr_cli_tool :: "string option"
  lr_metadata :: "json option"

record worker_request =
  wr_leader_id :: "string option"
  wr_plan_path :: "string option"
  wr_session_id :: string
  wr_project_path :: string
  wr_title :: "string option"
  wr_prompt :: "string option"
  wr_resume_id :: "string option"
  wr_pane_id :: "string option"
  wr_tab_id :: "string option"
  wr_workspace_name :: "string option"
  wr_cli_tool :: "string option"
  wr_worker_kind :: "string option"
  wr_metadata :: "json option"

record plan_key_request =
  pk_leader_id :: "string option"
  pk_plan_path :: "string option"
  pk_normalized_plan_path :: "string option"

record live_session =
  ls_session_id :: string
  ls_pane_id :: "string option"
  ls_tab_id :: "string option"

record world =
  w_others :: "nat \<Rightarrow> binding_row list \<Rightarrow> binding_row list"
  w_time :: "nat \<Rightarrow> nat"
  w_uuid :: "nat \<Rightarrow> string"

text \<open>\<open>sv_events\<close> are the events emitted, if there is an emitter.\<close>

record service =
  sv_rows :: "binding_row list"
  sv_events :: "(change_op \<times> string \<times> task_binding option) list option"
  sv_clock :: nat

definition access ::
    "world \<Rightarrow> (nat \<Rightarrow> string \<Rightarrow> binding_row list \<Rightarrow> binding_row list \<times> (app_error + 'a)) \<Rightarrow> (service, 'a) svc" where
  "access w f = (\<lambda>s.
    (let n = sv_clock s; (rows, r) = f (w_time w n) (w_uuid w n) (w_others w n (sv_rows s))
     in (s\<lparr>sv_rows := rows, sv_clock := n + 1\<rparr>, r)))"

definition look :: "world \<Rightarrow> (binding_row list \<Rightarrow> 'a) \<Rightarrow> (service, 'a) svc" where
  "look w f = access w (\<lambda>now uuid rows. (rows, Inr (f rows)))"

definition emit_changed :: "change_op \<Rightarrow> string \<Rightarrow> task_binding option \<Rightarrow> (service, unit) svc" where
  "emit_changed op bid binding = (\<lambda>s. (s\<lparr>sv_events := map_option (\<lambda>l. l @ [(op, bid, binding)]) (sv_events s)\<rparr>, Inr ()))"

abbreviation fails :: "string \<Rightarrow> (service, 'a) svc" where
  "fails msg \<equiv> of_res (Inl (ErrMessage None msg))"

section \<open>Creating and updating\<close>

definition clean_optional :: "string option \<Rightarrow> string option" where
  "clean_optional value = Option.bind value (\<lambda>v. if trim v = [] then None else Some (trim v))"

definition normalize_worker_kind :: "string option \<Rightarrow> string option" where
  "normalize_worker_kind value =
    Option.bind (clean_optional value) (\<lambda>v. if v = ''reviewer'' then Some v else None)"

definition new_binding :: "string \<Rightarrow> nat \<Rightarrow> create_request \<Rightarrow> task_binding" where
  "new_binding uuid now req =
    (let plan_path = clean_optional (cr_plan_path req)
     in \<lparr>b_id = uuid, b_title = trim (cr_title req), b_role = or_else (cr_role req) RTask,
      b_parent_id = clean_optional (cr_parent_id req), b_plan_path = plan_path,
      b_normalized_plan_path =
        or_option (clean_optional (cr_normalized_plan_path req)) (map_option normalize_plan_path plan_path),
      b_prompt = cr_prompt req, b_session_id = clean_optional (cr_session_id req),
      b_resume_id = clean_optional (cr_resume_id req), b_pane_id = clean_optional (cr_pane_id req),
      b_tab_id = clean_optional (cr_tab_id req), b_todo_id = clean_optional (cr_todo_id req),
      b_project_path = cr_project_path req, b_workspace_name = clean_optional (cr_workspace_name req),
      b_cli_tool = or_else (clean_optional (cr_cli_tool req)) ''claude'', b_status = BPending,
      b_progress = 0, b_completion_summary = None, b_exit_code = None, b_sort_order = 0,
      b_worker_kind = clean_optional (cr_worker_kind req), b_metadata = cr_metadata req,
      b_created_at = now, b_updated_at = now\<rparr>)"

definition create_with_emit :: "world \<Rightarrow> create_request \<Rightarrow> bool \<Rightarrow> (service, task_binding) svc" where
  "create_with_emit w req emit =
    (if trim (cr_title req) = [] then fails ''TaskBinding title cannot be empty''
     else
       run_bind (access w (\<lambda>now uuid rows.
         (let binding = new_binding uuid now req
          in case repo_insert binding rows of Inl e \<Rightarrow> (rows, Inl e) | Inr rows \<Rightarrow> (rows, Inr binding)))) (\<lambda>binding.
       run_bind (if emit then emit_changed OpCreate (b_id binding) (Some binding) else ret ()) (\<lambda>_.
       ret binding)))"

definition with_plan_key :: "update_request \<Rightarrow> update_request" where
  "with_plan_key req =
    (if ur_normalized_plan_path req = None
     then req\<lparr>ur_normalized_plan_path := map_option normalize_plan_path (ur_plan_path req)\<rparr> else req)"

definition valid_update :: "update_request \<Rightarrow> app_error + unit" where
  "valid_update req =
    (if (case ur_title req of Some t \<Rightarrow> trim t = [] | None \<Rightarrow> False)
     then Inl (ErrMessage None ''TaskBinding title cannot be empty'')
     else if (case ur_progress req of Some p \<Rightarrow> p < 0 \<or> 100 < p | None \<Rightarrow> False)
     then Inl (ErrMessage None ''Progress must be between 0 and 100'')
     else Inr ())"

definition required :: "string \<Rightarrow> 'a option \<Rightarrow> (service, 'a) svc" where
  "required msg v = (case v of Some x \<Rightarrow> ret x | None \<Rightarrow> fails msg)"

definition not_found :: "string \<Rightarrow> string" where
  "not_found bid = ''TaskBinding '' @ CHR 0x27 # bid @ CHR 0x27 # '' not found''"

definition update_with_result_reset ::
    "world \<Rightarrow> string \<Rightarrow> update_request \<Rightarrow> bool \<Rightarrow> bool \<Rightarrow> (service, task_binding) svc" where
  "update_with_result_reset w bid req emit reset_result =
    run_bind (of_res (valid_update req)) (\<lambda>_.
    run_bind (access w (\<lambda>now uuid rows.
      (fst (repo_update bid (with_plan_key req) reset_result now rows), Inr ()))) (\<lambda>_.
    run_bind (look w (repo_get bid)) (\<lambda>found.
    run_bind (required (not_found bid) found) (\<lambda>binding.
    run_bind (if emit then emit_changed OpUpdate bid (Some binding) else ret ()) (\<lambda>_.
    ret binding)))))"

definition update_with_emit ::
    "world \<Rightarrow> string \<Rightarrow> update_request \<Rightarrow> bool \<Rightarrow> (service, task_binding) svc" where
  "update_with_emit w bid req emit = update_with_result_reset w bid req emit False"

definition update_returning_previous_status ::
    "world \<Rightarrow> string \<Rightarrow> update_request \<Rightarrow> (service, binding_status option \<times> task_binding) svc" where
  "update_returning_previous_status w bid req =
    run_bind (look w (repo_get bid)) (\<lambda>old.
    run_bind (update_with_emit w bid req True) (\<lambda>binding.
    ret (map_option b_status old, binding)))"

section \<open>The exit of a terminal\<close>

definition record_terminal_exit :: "world \<Rightarrow> string \<Rightarrow> int \<Rightarrow> (service, task_binding option) svc" where
  "record_terminal_exit w session_id exit_code =
    (let session_id = trim session_id in
     if session_id = [] then ret None
     else
       run_bind (look w (repo_find_by_session_id session_id)) (\<lambda>found.
       case found of
         None \<Rightarrow> ret None
       | Some existing \<Rightarrow>
           (let completed_by_worker =
              b_status existing = BCompleted
              \<and> (case b_completion_summary existing of Some summary \<Rightarrow> trim summary \<noteq> [] | None \<Rightarrow> False);
              status = (if \<not> completed_by_worker \<and> b_status existing \<noteq> BFailed then Some BFailed else None);
              should_update_exit_code =
              (case b_exit_code existing of
                 Some current \<Rightarrow> if exit_code = -1 \<and> current \<noteq> -1 then False else current \<noteq> exit_code
               | None \<Rightarrow> True);
              exit_code = (if should_update_exit_code then Some exit_code else None)
            in if status = None \<and> exit_code = None then ret (Some existing)
               else
                 run_bind (update_with_emit w (b_id existing)
                   (no_update\<lparr>ur_status := status, ur_exit_code := exit_code\<rparr>) True) (\<lambda>binding.
                 ret (Some binding)))))"

section \<open>Patches\<close>

text \<open>
  Deserialising the fields a patch may set; the wording of a mismatch stands for what \<open>serde\<close>
  says.
\<close>

abbreviation invalid_patch :: app_error where
  "invalid_patch \<equiv> ErrMessage None ''Invalid TaskBinding patch''"

definition field_of :: "(json \<Rightarrow> 'a option) \<Rightarrow> (string \<times> json) list \<Rightarrow> string \<Rightarrow> app_error + 'a option" where
  "field_of parse kvs k =
    (case map_of kvs k of
       None \<Rightarrow> Inr None
     | Some JNull \<Rightarrow> Inr None
     | Some v \<Rightarrow> (case parse v of Some x \<Rightarrow> Inr (Some x) | None \<Rightarrow> Inl invalid_patch))"

definition json_as_i32 :: "json \<Rightarrow> int option" where
  "json_as_i32 v =
    (case json_as_i64 v of
       Some i \<Rightarrow> if -2147483648 \<le> i \<and> i \<le> 2147483647 then Some i else None
     | None \<Rightarrow> None)"

definition json_as_status :: "json \<Rightarrow> binding_status option" where
  "json_as_status v =
    (case json_as_str v of
       Some s \<Rightarrow> (case binding_status_from_str s of Inr st \<Rightarrow> Some st | Inl _ \<Rightarrow> None)
     | None \<Rightarrow> None)"

definition request_of_object :: "(string \<times> json) list \<Rightarrow> app_error + update_request" where
  "request_of_object kvs =
    res_bind (field_of json_as_str kvs ''title'') (\<lambda>title.
    res_bind (field_of json_as_str kvs ''prompt'') (\<lambda>prompt.
    res_bind (field_of json_as_status kvs ''status'') (\<lambda>status.
    res_bind (field_of json_as_i32 kvs ''progress'') (\<lambda>progress.
    res_bind (field_of json_as_str kvs ''completionSummary'') (\<lambda>summary.
    res_bind (field_of json_as_i32 kvs ''exitCode'') (\<lambda>exit_code.
    res_bind (field_of json_as_i32 kvs ''sortOrder'') (\<lambda>sort_order.
    Inr (no_update\<lparr>ur_title := title, ur_prompt := prompt, ur_status := status, ur_progress := progress,
      ur_completion_summary := summary, ur_exit_code := exit_code, ur_sort_order := sort_order\<rparr>))))))))"

definition PATCH_FIELDS :: "string list" where
  "PATCH_FIELDS = [''title'', ''status'', ''progress'', ''completionSummary'', ''exitCode'', ''sortOrder'',
    ''metadata'', ''prompt'']"

text \<open>\<open>ser\<close> is \<open>serde_json::to_vec\<close>.\<close>

definition task_binding_patch_to_update_request ::
    "(json \<Rightarrow> string option) \<Rightarrow> task_binding \<Rightarrow> json \<Rightarrow> app_error + update_request" where
  "task_binding_patch_to_update_request ser existing patch =
    (case ser patch of
       None \<Rightarrow> Inl invalid_patch
     | Some bytes \<Rightarrow>
         if TASK_BINDING_PATCH_MAX_BYTES < length bytes
         then Inl (ErrMessage None ''TaskBinding patch must be <= 65536 bytes'')
         else
           (case patch of
              JObject patch_object \<Rightarrow>
                (let request_object = filter (\<lambda>(k, v). k \<in> set PATCH_FIELDS) patch_object;
                     metadata_patch = map_of request_object ''metadata''
                 in res_bind (request_of_object (obj_remove ''metadata'' request_object)) (\<lambda>request.
                    case metadata_patch of
                      None \<Rightarrow> Inr request
                    | Some metadata_patch \<Rightarrow>
                        res_bind (apply_json_merge_patch (or_else (b_metadata existing) (JObject [])) metadata_patch 0)
                          (\<lambda>metadata. Inr (request\<lparr>ur_metadata := Some metadata\<rparr>))))
            | _ \<Rightarrow> Inl (ErrMessage None ''TaskBinding patch must be a JSON object'')))"

definition update_patch ::
    "(json \<Rightarrow> string option) \<Rightarrow> world \<Rightarrow> string \<Rightarrow> json \<Rightarrow> (service, task_binding) svc" where
  "update_patch ser w bid patch =
    run_bind (look w (repo_get bid)) (\<lambda>found.
    run_bind (required (not_found bid) found) (\<lambda>existing.
    run_bind (of_res (task_binding_patch_to_update_request ser existing patch)) (\<lambda>req.
    update_with_emit w bid (with_plan_key req) True)))"

definition append_metadata_array_item ::
    "world \<Rightarrow> string \<Rightarrow> string \<Rightarrow> json \<Rightarrow> nat \<Rightarrow> (service, task_binding) svc" where
  "append_metadata_array_item w bid key item max_items =
    (if trim key = [] then fails ''TaskBinding metadata array key cannot be empty''
     else if max_items = 0 then fails ''TaskBinding metadata array max_items must be greater than zero''
     else
       run_bind (look w (repo_get bid)) (\<lambda>found.
       run_bind (required (not_found bid) found) (\<lambda>existing.
       (let metadata = obj_entries (or_else (b_metadata existing) (JObject []));
            items = (case map_of metadata key of Some (JArray l) \<Rightarrow> l | _ \<Rightarrow> []) @ [item];
            items = drop (length items - max_items) items
        in update_with_emit w bid
             (no_update\<lparr>ur_metadata := Some (JObject (obj_insert key (JArray items) metadata))\<rparr>) True))))"

section \<open>Deleting and querying\<close>

definition svc_delete :: "world \<Rightarrow> string \<Rightarrow> (service, bool) svc" where
  "svc_delete w bid =
    run_bind (access w (\<lambda>now uuid rows. (case repo_delete bid rows of (rows, b) \<Rightarrow> (rows, Inr b)))) (\<lambda>deleted.
    run_bind (if deleted then emit_changed OpDelete bid None else ret ()) (\<lambda>_.
    ret deleted))"

fun emit_deleted :: "string list \<Rightarrow> (service, unit) svc" where
  "emit_deleted [] = ret ()"
| "emit_deleted (bid # bids) = run_bind (emit_changed OpDelete bid None) (\<lambda>_. emit_deleted bids)"

text \<open>No value: the query of the descendants does not end.\<close>

definition svc_delete_cascade :: "world \<Rightarrow> string \<Rightarrow> service \<Rightarrow> (service \<times> (app_error + bool)) option" where
  "svc_delete_cascade w bid s =
    (case repo_delete_cascade bid (w_others w (sv_clock s) (sv_rows s)) of
       None \<Rightarrow> None
     | Some (rows, deleted_ids) \<Rightarrow>
         Some (run_bind (emit_deleted deleted_ids) (\<lambda>_. ret (deleted_ids \<noteq> []))
           (s\<lparr>sv_rows := rows, sv_clock := sv_clock s + 1\<rparr>)))"

definition svc_query :: "world \<Rightarrow> binding_query \<Rightarrow> (service, query_result) svc" where
  "svc_query w q =
    (let q' = (if bq_normalized_plan_path q = None
               then (case bq_plan_path q of
                       Some p \<Rightarrow> q\<lparr>bq_normalized_plan_path := Some (normalize_plan_path p), bq_plan_path := None\<rparr>
                     | None \<Rightarrow> q)
               else q)
     in look w (repo_query q'))"

section \<open>Plans\<close>

definition plan_file_name :: "string \<Rightarrow> string" where
  "plan_file_name path =
    (let last_part = rev (takeWhile (\<lambda>c. c \<noteq> SLASH) (rev (map (\<lambda>c. if c = BACKSLASH then SLASH else c) path)))
     in if last_part = [] then ''plan.md'' else last_part)"

definition leader_update :: "leader_request \<Rightarrow> string \<Rightarrow> string \<Rightarrow> update_request" where
  "leader_update req plan_path session_id =
    no_update\<lparr>ur_title := lr_title req, ur_role := Some RLeader, ur_plan_path := Some plan_path,
      ur_normalized_plan_path := Some (normalize_plan_path plan_path), ur_prompt := lr_prompt req,
      ur_session_id := Some session_id, ur_resume_id := lr_resume_id req, ur_pane_id := lr_pane_id req,
      ur_tab_id := lr_tab_id req, ur_status := Some BRunning, ur_metadata := lr_metadata req\<rparr>"

definition leader_create :: "leader_request \<Rightarrow> string \<Rightarrow> string \<Rightarrow> string \<Rightarrow> create_request" where
  "leader_create req plan_path project_path session_id =
    \<lparr>cr_title = or_else (lr_title req) (''Plan: '' @ plan_file_name plan_path), cr_role = Some RLeader,
      cr_parent_id = None, cr_plan_path = Some plan_path,
      cr_normalized_plan_path = Some (normalize_plan_path plan_path), cr_prompt = lr_prompt req,
      cr_session_id = Some session_id, cr_resume_id = lr_resume_id req, cr_pane_id = lr_pane_id req,
      cr_tab_id = lr_tab_id req, cr_todo_id = None, cr_project_path = project_path,
      cr_workspace_name = lr_workspace_name req,
      cr_cli_tool = or_option (lr_cli_tool req) (Some ''claude''), cr_worker_kind = None,
      cr_metadata = lr_metadata req\<rparr>"

definition leader_reset :: "task_binding \<Rightarrow> string \<Rightarrow> bool" where
  "leader_reset existing session_id \<longleftrightarrow>
    b_status existing = BCompleted \<or> b_status existing = BFailed \<or> b_session_id existing \<noteq> Some session_id"

text \<open>Creating a binding and marking it running, without events of their own.\<close>

definition create_running :: "world \<Rightarrow> create_request \<Rightarrow> (service, task_binding) svc" where
  "create_running w req =
    run_bind (create_with_emit w req False) (\<lambda>created.
    update_with_emit w (b_id created) (no_update\<lparr>ur_status := Some BRunning\<rparr>) False)"

definition registered :: "task_binding \<Rightarrow> (service, task_binding) svc" where
  "registered binding = run_bind (emit_changed OpRegister (b_id binding) (Some binding)) (\<lambda>_. ret binding)"

definition register_plan_leader :: "world \<Rightarrow> leader_request \<Rightarrow> (service, task_binding) svc" where
  "register_plan_leader w req =
    (let plan_path = trim (lr_plan_path req); project_path = trim (lr_project_path req) in
     if plan_path = [] then fails ''planPath cannot be empty''
     else if project_path = [] then fails ''projectPath cannot be empty''
     else
       run_bind (required ''Plan leader requires sessionId'' (clean_optional (lr_session_id req))) (\<lambda>session_id.
       run_bind (look w (find_leader_by_plan (normalize_plan_path plan_path) (Some project_path))) (\<lambda>found.
       run_bind
         (case found of
            Some existing \<Rightarrow>
              update_with_result_reset w (b_id existing) (leader_update req plan_path session_id) False
                (leader_reset existing session_id)
          | None \<Rightarrow> create_running w (leader_create req plan_path project_path session_id)) registered)))"

definition plan_leader_missing :: "string \<Rightarrow> string" where
  "plan_leader_missing p = ''Plan leader for '' @ CHR 0x27 # p @ CHR 0x27 # '' not found''"

definition resolve_leader :: "world \<Rightarrow> plan_key_request \<Rightarrow> (service, task_binding) svc" where
  "resolve_leader w key =
    (case (case pk_leader_id key of Some i \<Rightarrow> if trim i = [] then None else Some i | None \<Rightarrow> None) of
       Some leader_id \<Rightarrow>
         run_bind (look w (repo_get leader_id)) (\<lambda>found.
         run_bind (required (''Plan leader '' @ CHR 0x27 # leader_id @ CHR 0x27 # '' not found'') found) (\<lambda>binding.
         if b_role binding \<noteq> RLeader
         then fails (''TaskBinding '' @ CHR 0x27 # leader_id @ CHR 0x27 # '' is not a plan leader'')
         else ret binding))
     | None \<Rightarrow>
         run_bind (required ''leaderId or planPath is required''
           (or_option (pk_normalized_plan_path key) (map_option normalize_plan_path (pk_plan_path key)))) (\<lambda>p.
         run_bind (look w (find_leader_by_plan p None)) (\<lambda>found.
         required (plan_leader_missing (or_else (pk_plan_path key) p)) found)))"

definition register_plan_worker :: "world \<Rightarrow> worker_request \<Rightarrow> (service, task_binding) svc" where
  "register_plan_worker w req =
    run_bind (resolve_leader w \<lparr>pk_leader_id = wr_leader_id req, pk_plan_path = wr_plan_path req,
      pk_normalized_plan_path = map_option normalize_plan_path (wr_plan_path req)\<rparr>) (\<lambda>leader.
    run_bind (required ''Plan worker requires planPath or a leader with planPath''
      (or_option (wr_plan_path req) (b_plan_path leader))) (\<lambda>plan_path.
    (let cli_tool = or_else (clean_optional (wr_cli_tool req)) ''codex'';
         title = or_else (wr_title req) (''Worker: '' @ cli_tool);
         worker_kind = normalize_worker_kind (wr_worker_kind req)
     in run_bind (look w (find_worker_for_registration (b_id leader) (wr_session_id req) (wr_resume_id req))) (\<lambda>found.
        run_bind
          (case found of
             Some existing \<Rightarrow>
               update_with_emit w (b_id existing)
                 (no_update\<lparr>ur_title := Some title, ur_role := Some RWorker, ur_parent_id := Some (b_id leader),
                   ur_plan_path := Some plan_path, ur_normalized_plan_path := Some (normalize_plan_path plan_path),
                   ur_prompt := wr_prompt req, ur_session_id := Some (wr_session_id req),
                   ur_resume_id := wr_resume_id req, ur_pane_id := wr_pane_id req, ur_tab_id := wr_tab_id req,
                   ur_status := Some BRunning, ur_worker_kind := worker_kind, ur_metadata := wr_metadata req\<rparr>) False
           | None \<Rightarrow>
               create_running w
                 \<lparr>cr_title = title, cr_role = Some RWorker, cr_parent_id = Some (b_id leader),
                   cr_plan_path = Some plan_path, cr_normalized_plan_path = Some (normalize_plan_path plan_path),
                   cr_prompt = wr_prompt req, cr_session_id = Some (wr_session_id req),
                   cr_resume_id = wr_resume_id req, cr_pane_id = wr_pane_id req, cr_tab_id = wr_tab_id req,
                   cr_todo_id = None, cr_project_path = wr_project_path req,
                   cr_workspace_name = wr_workspace_name req, cr_cli_tool = Some cli_tool,
                   cr_worker_kind = worker_kind, cr_metadata = wr_metadata req\<rparr>) registered))))"

section \<open>Collaboration\<close>

record plan_entry =
  pe_binding :: task_binding
  pe_is_live :: bool
  pe_can_relaunch :: bool
  pe_live_pane_id :: "string option"
  pe_live_tab_id :: "string option"
  pe_prompt :: "string option"
  pe_completion_summary :: "string option"
  pe_metadata :: "json option"

text \<open>The columns an entry always shows are those of \<open>pe_binding\<close>.\<close>

definition entry_from_binding :: "task_binding \<Rightarrow> (string \<Rightarrow> live_session option) \<Rightarrow> bool \<Rightarrow> plan_entry" where
  "entry_from_binding binding live_map verbose =
    (let live = Option.bind (b_session_id binding) live_map
     in \<lparr>pe_binding = binding, pe_is_live = (live \<noteq> None),
      pe_can_relaunch =
        (b_resume_id binding \<noteq> None \<or> b_plan_path binding \<noteq> None \<or> b_prompt binding \<noteq> None),
      pe_live_pane_id = Option.bind live ls_pane_id, pe_live_tab_id = Option.bind live ls_tab_id,
      pe_prompt = (if verbose then b_prompt binding else None),
      pe_completion_summary = (if verbose then b_completion_summary binding else None),
      pe_metadata = (if verbose then b_metadata binding else None)\<rparr>)"

definition collaboration_from_bindings ::
    "task_binding \<Rightarrow> task_binding list \<Rightarrow> (string \<Rightarrow> live_session option) \<Rightarrow> bool
      \<Rightarrow> plan_entry \<times> plan_entry list \<times> nat" where
  "collaboration_from_bindings leader workers live_map verbose =
    (let workers = map (\<lambda>b. entry_from_binding b live_map verbose) workers
     in (entry_from_binding leader live_map verbose, workers, length workers))"

definition get_plan_collaboration ::
    "world \<Rightarrow> plan_key_request \<Rightarrow> bool \<Rightarrow> (service, plan_entry \<times> plan_entry list \<times> nat) svc" where
  "get_plan_collaboration w key verbose =
    run_bind (resolve_leader w key) (\<lambda>leader.
    run_bind (look w (find_workers_of (b_id leader))) (\<lambda>workers.
    ret (collaboration_from_bindings leader workers (\<lambda>_. None) verbose)))"

definition live_map_of :: "live_session list \<Rightarrow> string \<Rightarrow> live_session option" where
  "live_map_of live_sessions = foldl (\<lambda>m l. m(ls_session_id l \<mapsto> l)) (\<lambda>_. None) live_sessions"

text \<open>What reconciling changes in one binding, if anything.\<close>

definition reconcile_update :: "(string \<Rightarrow> live_session option) \<Rightarrow> task_binding \<Rightarrow> update_request option" where
  "reconcile_update live_map binding =
    (case b_session_id binding of
       None \<Rightarrow> None
     | Some session_id \<Rightarrow>
         (case live_map session_id of
            Some live \<Rightarrow>
              if ls_pane_id live \<noteq> b_pane_id binding \<or> ls_tab_id live \<noteq> b_tab_id binding
              then Some (no_update\<lparr>ur_pane_id := ls_pane_id live, ur_tab_id := ls_tab_id live\<rparr>) else None
          | None \<Rightarrow>
              if b_role binding = RWorker \<and> b_status binding = BRunning
              then Some (no_update\<lparr>ur_status := Some BWaiting\<rparr>) else None))"

fun reconcile_bindings ::
    "world \<Rightarrow> (string \<Rightarrow> live_session option) \<Rightarrow> task_binding list \<Rightarrow> (service, string list) svc" where
  "reconcile_bindings w live_map [] = ret []"
| "reconcile_bindings w live_map (b # bs) =
    run_bind
      (case reconcile_update live_map b of
         None \<Rightarrow> ret False
       | Some req \<Rightarrow>
           access w (\<lambda>now uuid rows. (case repo_update (b_id b) req False now rows of (rows, changed) \<Rightarrow> (rows, Inr changed))))
      (\<lambda>changed.
    run_bind (reconcile_bindings w live_map bs) (\<lambda>ids.
    ret (if changed then b_id b # ids else ids)))"

definition reconcile_plan_collaboration ::
    "world \<Rightarrow> plan_key_request \<Rightarrow> live_session list \<Rightarrow> bool
      \<Rightarrow> (service, plan_entry \<times> plan_entry list \<times> nat) svc" where
  "reconcile_plan_collaboration w key live_sessions verbose =
    (let live_map = live_map_of live_sessions in
     run_bind (resolve_leader w key) (\<lambda>leader.
     run_bind (look w (find_workers_of (b_id leader))) (\<lambda>workers.
     run_bind (reconcile_bindings w live_map (leader # workers)) (\<lambda>reconciled_ids.
     run_bind (look w (repo_get (b_id leader))) (\<lambda>found.
     run_bind (required ''Plan leader disappeared during reconcile'' found) (\<lambda>refreshed_leader.
     run_bind (look w (find_workers_of (b_id refreshed_leader))) (\<lambda>refreshed_workers.
     run_bind (if reconciled_ids \<noteq> [] then emit_changed OpReconcile (b_id refreshed_leader) (Some refreshed_leader)
               else ret ()) (\<lambda>_.
     ret (collaboration_from_bindings refreshed_leader refreshed_workers live_map verbose)))))))))"

end
