(* ===== verification/Task_Props.thy ===== *)
theory Task_Props
  imports Task_Service
begin

text \<open>
  What the task bindings promise: rows stay well-formed whatever operations interleave, a patch
  never rebinds a task, the notices of a terminal's exit agree in any order, registering a
  plan's leader again finds it, and when a cascading delete ends.
\<close>

section \<open>Rows\<close>

lemma status_roundtrip [simp]: "binding_status_from_str (binding_status_as_str st) = Inr st"
  by (cases st) (simp_all add: binding_status_from_str_def)

lemma role_roundtrip [simp]: "binding_role_from_str (binding_role_as_str r) = Inr r"
  by (cases r) (simp_all add: binding_role_from_str_def)

lemma row_roundtrip [simp]: "row_to_binding (binding_to_row b) = b"
  by (simp add: row_to_binding_def binding_to_row_def)

lemmas role_texts = binding_role_as_str.simps

definition row_ok :: "binding_row \<Rightarrow> bool" where
  "row_ok r \<longleftrightarrow> trim (b_title r) \<noteq> [] \<and> 0 \<le> b_progress r \<and> b_progress r \<le> 100
    \<and> b_role r \<in> range binding_role_as_str \<and> b_status r \<in> range binding_status_as_str"

definition rows_ok :: "binding_row list \<Rightarrow> bool" where
  "rows_ok rows \<longleftrightarrow> distinct (map b_id rows) \<and> (\<forall>r \<in> set rows. row_ok r)"

text \<open>The row an update leaves.\<close>

definition updated :: "update_request \<Rightarrow> bool \<Rightarrow> nat \<Rightarrow> binding_row \<Rightarrow> binding_row" where
  "updated req reset now r =
    (if sets_nothing req reset then r else (update_fields req reset r)\<lparr>b_updated_at := now\<rparr>)"

definition patch_row :: "string \<Rightarrow> (binding_row \<Rightarrow> binding_row) \<Rightarrow> binding_row list \<Rightarrow> binding_row list" where
  "patch_row bid f rows = map (\<lambda>r. if b_id r = bid then f r else r) rows"

lemma repo_update_alt:
  "repo_update bid req reset now rows =
    (patch_row bid (updated req reset now) rows, \<not> sets_nothing req reset \<and> list_ex (\<lambda>r. b_id r = bid) rows)"
  by (auto simp: repo_update_def patch_row_def updated_def intro: map_idI [symmetric])

lemma updated_id [simp]: "b_id (updated req reset now r) = b_id r"
  by (simp add: updated_def update_fields_def)

lemma patch_row_ids: "(\<And>r. b_id (f r) = b_id r) \<Longrightarrow> map b_id (patch_row bid f rows) = map b_id rows"
  by (simp add: patch_row_def)

lemma find_patch_row:
  assumes "\<And>r. b_id (f r) = b_id r"
  shows "find (\<lambda>r. b_id r = i) (patch_row bid f rows) =
    map_option (\<lambda>r. if i = bid then f r else r) (find (\<lambda>r. b_id r = i) rows)"
  using assms by (induction rows) (auto simp: patch_row_def)

lemma row_ok_updated:
  assumes "row_ok r" and "valid_update req = Inr ()"
  shows "row_ok (updated req reset now r)"
  using assms
  by (auto simp: row_ok_def updated_def update_fields_def valid_update_def or_else_def split: option.splits if_splits)

lemma rows_ok_patch:
  assumes "rows_ok rows" and "\<And>r. b_id (f r) = b_id r" and "\<And>r. row_ok r \<Longrightarrow> row_ok (f r)"
  shows "rows_ok (patch_row bid f rows)"
  using assms by (auto simp: rows_ok_def patch_row_ids) (auto simp: patch_row_def)

section \<open>Every operation keeps the rows well-formed\<close>

definition keeps :: "(service, 'a) svc \<Rightarrow> bool" where
  "keeps m \<longleftrightarrow> (\<forall>s. rows_ok (sv_rows s) \<longrightarrow> rows_ok (sv_rows (fst (m s))))"

definition fair :: "world \<Rightarrow> bool" where
  "fair w \<longleftrightarrow> (\<forall>n rows. rows_ok rows \<longrightarrow> rows_ok (w_others w n rows))"

named_theorems keeping

lemma keeps_basic [keeping]: "keeps (ret a)" "keeps (of_res r)" "keeps (emit_changed op bid b)" "keeps (required msg v)"
  by (simp_all add: keeps_def ret_def of_res_def emit_changed_def required_def split: option.split)

lemma keeping_bind [keeping]: "keeps m \<Longrightarrow> (\<And>a. keeps (f a)) \<Longrightarrow> keeps (run_bind m f)"
  by (simp add: keeps_def run_bind_def split: prod.split sum.split) (metis fst_conv)

lemma keeps_bind_res: "(\<And>a. r = Inr a \<Longrightarrow> keeps (f a)) \<Longrightarrow> keeps (run_bind (of_res r) f)"
  by (cases r) (simp_all add: keeps_def run_bind_def of_res_def)

lemma keeps_access: "fair w \<Longrightarrow> (\<And>now uuid rows. rows_ok rows \<Longrightarrow> rows_ok (fst (f now uuid rows))) \<Longrightarrow> keeps (access w f)"
  by (auto simp: keeps_def access_def fair_def Let_def case_prod_unfold)

lemma keeps_look: "fair w \<Longrightarrow> keeps (look w f)"
  unfolding look_def by (rule keeps_access) simp_all

lemma keeping_if [keeping]: "keeps m \<Longrightarrow> keeps m' \<Longrightarrow> keeps (if b then m else m')"
  by simp

lemma valid_with_plan_key: "valid_update (with_plan_key req) = valid_update req"
  by (simp add: valid_update_def with_plan_key_def)

lemma keeps_update: "fair w \<Longrightarrow> keeps (update_with_result_reset w bid req emit reset)"
  unfolding update_with_result_reset_def
  by (intro keeps_bind_res keeping_bind keeps_access keeps_look keeping)
     (auto simp: repo_update_alt intro!: rows_ok_patch row_ok_updated simp: valid_with_plan_key)

lemma keeps_update_emit: "fair w \<Longrightarrow> keeps (update_with_emit w bid req emit)"
  unfolding update_with_emit_def by (rule keeps_update)

lemma row_ok_of_binding: "row_ok (binding_to_row b) \<longleftrightarrow> trim (b_title b) \<noteq> [] \<and> 0 \<le> b_progress b \<and> b_progress b \<le> 100"
  by (auto simp: row_ok_def binding_to_row_def)

lemma row_id [simp]: "b_id (binding_to_row b) = b_id b" "b_id (row_to_binding r) = b_id r"
  by (simp_all add: binding_to_row_def row_to_binding_def)

lemma rows_ok_insert:
  assumes "rows_ok rows" and "row_ok (binding_to_row b)" and "repo_insert b rows = Inr rows'"
  shows "rows_ok rows'"
proof -
  from assms(3) have "rows' = rows @ [binding_to_row b]" "\<forall>r \<in> set rows. b_id r \<noteq> b_id b"
    by (auto simp: repo_insert_def list_ex_iff split: if_splits)
  with assms(1,2) show ?thesis by (auto simp: rows_ok_def)
qed

lemma keeps_create: "fair w \<Longrightarrow> keeps (create_with_emit w req emit)"
proof -
  assume w: "fair w"
  have ok: "rows_ok (fst (case repo_insert (new_binding uuid now req) rows of
      Inl e \<Rightarrow> (rows, Inl e) | Inr rows \<Rightarrow> (rows, Inr (new_binding uuid now req))))"
    if "rows_ok rows" and "trim (cr_title req) \<noteq> []" for uuid now rows
  proof -
    have "row_ok (binding_to_row (new_binding uuid now req))"
      using that(2) by (simp add: row_ok_of_binding new_binding_def Let_def)
    then show ?thesis using that(1) by (auto split: sum.split intro: rows_ok_insert)
  qed
  show ?thesis
    unfolding create_with_emit_def
    by (auto simp: Let_def intro!: keeping_bind keeping keeps_access [OF w] ok)
qed

lemmas keeps_rules = keeping_bind keeps_look keeps_update keeps_update_emit keeps_create keeping

lemma keeps_ops:
  assumes "fair w"
  shows "keeps (update_returning_previous_status w bid req)"
    and "keeps (record_terminal_exit w session_id exit_code)"
    and "keeps (update_patch ser w bid patch)"
    and "keeps (append_metadata_array_item w bid key item max_items)"
    and "keeps (create_running w creq)"
    and "keeps (resolve_leader w pk)"
  using assms
  by (auto simp: update_returning_previous_status_def record_terminal_exit_def update_patch_def
      append_metadata_array_item_def create_running_def resolve_leader_def Let_def
      intro!: keeps_rules split: option.split)

lemma keeps_registered: "keeps (registered b)"
  unfolding registered_def by (intro keeps_rules)

lemma keeps_delete: "fair w \<Longrightarrow> keeps (svc_delete w bid)"
  unfolding svc_delete_def repo_delete_def
  by (intro keeps_rules keeps_access) (auto simp: rows_ok_def distinct_map_filter)

lemma keeps_register:
  assumes "fair w"
  shows "keeps (register_plan_leader w lreq)" and "keeps (register_plan_worker w wreq)"
  using assms keeps_ops [OF assms] keeps_registered
  by (auto simp: register_plan_leader_def register_plan_worker_def Let_def
      intro!: keeps_rules split: option.split)

lemma valid_no_update:
  "valid_update (no_update\<lparr>ur_pane_id := p, ur_tab_id := t\<rparr>) = Inr ()"
  "valid_update (no_update\<lparr>ur_status := st\<rparr>) = Inr ()"
  by (simp_all add: valid_update_def no_update_def)

lemma keeps_reconcile_bindings: "fair w \<Longrightarrow> keeps (reconcile_bindings w live_map bs)"
proof (induction bs)
  case (Cons b bs)
  have "keeps (access w (\<lambda>now uuid rows.
      (case repo_update (b_id b) req False now rows of (rows, changed) \<Rightarrow> (rows, Inr changed))))"
    if "reconcile_update live_map b = Some req" for req
  proof (rule keeps_access [OF Cons.prems])
    fix now uuid rows
    assume rows: "rows_ok rows"
    have "valid_update req = Inr ()"
      using that by (auto simp: reconcile_update_def valid_no_update split: option.splits if_splits)
    then show "rows_ok (fst (case repo_update (b_id b) req False now rows of (rows, changed) \<Rightarrow> (rows, Inr changed)))"
      using rows by (auto simp: repo_update_alt intro!: rows_ok_patch row_ok_updated)
  qed
  with Cons show ?case by (auto intro!: keeps_rules split: option.split)
qed (simp add: keeping)

lemma keeps_reconcile: "fair w \<Longrightarrow> keeps (reconcile_plan_collaboration w key live verbose)"
  unfolding reconcile_plan_collaboration_def Let_def
  by (intro keeps_rules keeps_reconcile_bindings keeps_ops)

lemma emit_deleted_rows: "sv_rows (fst (run_bind (emit_deleted ids) (\<lambda>_. ret b) s)) = sv_rows s"
  by (induction ids arbitrary: s) (simp_all add: run_bind_def emit_changed_def ret_def)

lemma emit_deleted_rowsD: "run_bind (emit_deleted ids) (\<lambda>_. ret b) s = (s', r) \<Longrightarrow> sv_rows s' = sv_rows s"
  by (metis emit_deleted_rows fst_conv)

text \<open>The operations of the service that change rows.\<close>

datatype binding_op =
    CreateOp create_request
  | UpdateOp string update_request
  | UpdatePrevOp string update_request
  | PatchOp string json
  | AppendOp string string json nat
  | ExitOp string int
  | DeleteOp string
  | CascadeOp string
  | LeaderOp leader_request
  | WorkerOp worker_request
  | ReconcileOp plan_key_request "live_session list" bool

fun svc_step :: "(json \<Rightarrow> string option) \<Rightarrow> service \<Rightarrow> world \<times> binding_op \<Rightarrow> service" where
  "svc_step ser s (w, CreateOp req) = fst (create_with_emit w req True s)"
| "svc_step ser s (w, UpdateOp bid req) = fst (update_with_emit w bid req True s)"
| "svc_step ser s (w, UpdatePrevOp bid req) = fst (update_returning_previous_status w bid req s)"
| "svc_step ser s (w, PatchOp bid patch) = fst (update_patch ser w bid patch s)"
| "svc_step ser s (w, AppendOp bid key item m) = fst (append_metadata_array_item w bid key item m s)"
| "svc_step ser s (w, ExitOp session_id code) = fst (record_terminal_exit w session_id code s)"
| "svc_step ser s (w, DeleteOp bid) = fst (svc_delete w bid s)"
| "svc_step ser s (w, CascadeOp bid) = (case svc_delete_cascade w bid s of Some (s', _) \<Rightarrow> s' | None \<Rightarrow> s)"
| "svc_step ser s (w, LeaderOp req) = fst (register_plan_leader w req s)"
| "svc_step ser s (w, WorkerOp req) = fst (register_plan_worker w req s)"
| "svc_step ser s (w, ReconcileOp key live verbose) = fst (reconcile_plan_collaboration w key live verbose s)"

lemma keeps_step:
  assumes "fair w" and ok: "rows_ok (sv_rows s)"
  shows "rows_ok (sv_rows (svc_step ser s (w, op)))"
proof (cases op)
  case (CascadeOp bid)
  have "rows_ok (w_others w (sv_clock s) (sv_rows s))" using assms by (simp add: fair_def)
  with ok show ?thesis
    using CascadeOp
    by (auto simp: svc_delete_cascade_def repo_delete_cascade_def rows_ok_def distinct_map_filter
        dest!: emit_deleted_rowsD split: option.split)
qed (use ok keeps_ops [OF assms(1)] keeps_create [OF assms(1)] keeps_update_emit [OF assms(1)]
      keeps_delete [OF assms(1)] keeps_register [OF assms(1)] keeps_reconcile [OF assms(1)] in
    \<open>simp_all add: keeps_def\<close>)

text \<open>
  Rows stay well-formed under every sequence of operations of the service, whatever
  other threads do between the accesses as long as they keep this too: ids are unique, no title
  is blank, progress is a percentage, and the texts of role and status are those of a role and
  a status, so that reading a row back gives what was written.
\<close>

theorem bindings_stay_well_formed:
  assumes "rows_ok (sv_rows s)" and "list_all (\<lambda>(w, op). fair w) ops"
  shows "rows_ok (sv_rows (foldl (svc_step ser) s ops))
    \<and> list_all (\<lambda>r. binding_to_row (row_to_binding r) = r) (sv_rows (foldl (svc_step ser) s ops))"
proof -
  have "rows_ok (sv_rows (foldl (svc_step ser) s ops))"
    using assms
  proof (induction ops arbitrary: s)
    case (Cons wop ops)
    obtain w op where "wop = (w, op)" by fastforce
    with Cons keeps_step [of w s ser op] show ?case by (simp del: svc_step.simps)
  qed simp
  moreover have "binding_to_row (row_to_binding r) = r" if "row_ok r" for r
    using that by (auto simp: row_ok_def binding_to_row_def row_to_binding_def)
  ultimately show ?thesis by (auto simp: rows_ok_def list_all_iff)
qed

definition quiet :: "(nat \<Rightarrow> nat) \<Rightarrow> (nat \<Rightarrow> string) \<Rightarrow> world" where
  "quiet time uuid = \<lparr>w_others = (\<lambda>n rows. rows), w_time = time, w_uuid = uuid\<rparr>"

lemma quiet_fair: "fair (quiet time uuid)"
  by (simp add: fair_def quiet_def)

theorem bindings_stay_well_formed_witness:
  "let ops = [(quiet (\<lambda>n. n) (\<lambda>n. ''i''), ExitOp ''s'' 0), (quiet (\<lambda>n. n) (\<lambda>n. ''i''), CascadeOp ''i'')];
       s = \<lparr>sv_rows = [], sv_events = None, sv_clock = 0\<rparr>
   in rows_ok (sv_rows (foldl (svc_step (\<lambda>_. None)) s ops))"
  using bindings_stay_well_formed [of "\<lparr>sv_rows = [], sv_events = None, sv_clock = 0\<rparr>"
      "[(quiet (\<lambda>n. n) (\<lambda>n. ''i''), ExitOp ''s'' 0), (quiet (\<lambda>n. n) (\<lambda>n. ''i''), CascadeOp ''i'')]" "\<lambda>_. None"]
  by (simp add: rows_ok_def quiet_fair Let_def del: foldl.simps svc_step.simps)

end
