(* ===== verification/Task_Exits.thy ===== *)
theory Task_Exits
  imports Task_Props
begin

text \<open>
  Undisturbed calls of the task binding service: the notices of a terminal's exit, patches, and
  the registration of a plan's leader.
\<close>

section \<open>Undisturbed updates\<close>

lemma look_quiet [simp]:
  "look (quiet time uuid) f s = (s\<lparr>sv_clock := sv_clock s + 1\<rparr>, Inr (f (sv_rows s)))"
  by (simp add: look_def access_def quiet_def)

lemma access_quiet:
  "access (quiet time uuid) f s =
    (let (rows, r) = f (time (sv_clock s)) (uuid (sv_clock s)) (sv_rows s)
     in (s\<lparr>sv_rows := rows, sv_clock := sv_clock s + 1\<rparr>, r))"
  by (simp add: access_def quiet_def Let_def)

lemma run_step: "m s = (s', Inr a) \<Longrightarrow> run_bind m f s = f a s'"
  by (simp add: run_bind_def)

lemma run_fail: "m s = (s', Inl e) \<Longrightarrow> run_bind m f s = (s', Inl e)"
  by (simp add: run_bind_def)

lemma required_simps [simp]: "required msg (Some x) = ret x" "required msg None = fails msg"
  by (simp_all add: required_def)

lemma ret_app [simp]: "ret a s = (s, Inr a)"
  by (simp add: ret_def)

lemma of_res_app [simp]: "of_res r s = (s, r)"
  by (simp add: of_res_def)

text \<open>The state after an update of the row \<open>r\<close>.\<close>

definition after_update ::
    "(nat \<Rightarrow> nat) \<Rightarrow> string \<Rightarrow> update_request \<Rightarrow> bool \<Rightarrow> bool \<Rightarrow> binding_row \<Rightarrow> service \<Rightarrow> service" where
  "after_update time bid req emit reset r s =
    s\<lparr>sv_rows := patch_row bid (updated (with_plan_key req) reset (time (sv_clock s))) (sv_rows s),
      sv_clock := sv_clock s + 2,
      sv_events := (if emit
        then map_option (\<lambda>l. l @ [(OpUpdate, bid,
               Some (row_to_binding (updated (with_plan_key req) reset (time (sv_clock s)) r)))]) (sv_events s)
        else sv_events s)\<rparr>"

lemma update_quiet:
  assumes "valid_update req = Inr ()" and "find (\<lambda>r. b_id r = bid) (sv_rows s) = Some r"
  shows "update_with_result_reset (quiet time uuid) bid req emit reset s =
    (after_update time bid req emit reset r s,
     Inr (row_to_binding (updated (with_plan_key req) reset (time (sv_clock s)) r)))"
  using assms
  by (simp add: update_with_result_reset_def run_bind_def access_quiet repo_get_def repo_update_alt
      find_patch_row emit_changed_def after_update_def)

lemma update_invalid:
  "valid_update req = Inl e \<Longrightarrow> update_with_result_reset w bid req emit reset s = (s, Inl e)"
  by (simp add: update_with_result_reset_def run_bind_def)

lemma find_row:
  assumes "distinct (map b_id rows)" and "r \<in> set rows"
  shows "find (\<lambda>r'. b_id r' = b_id r) rows = Some r"
  using assms by (induction rows) auto

lemma newest_first:
  assumes "r \<in> set rows" and "\<forall>r' \<in> set rows. r' \<noteq> r \<longrightarrow> k r' < k r"
  shows "newest k rows = Some r"
proof -
  obtain r' where r': "newest k rows = Some r'" using assms(1) by (cases "newest k rows") auto
  with newest_Some [OF r'] assms show ?thesis by force
qed

text \<open>After an update the row is the newest, if the clock moves on.\<close>

lemma newest_after_update:
  assumes "distinct (map b_id rows)" and "r \<in> set rows" and "P (f r)" and "\<And>r. b_id (f r) = b_id r"
    and "b_updated_at (f r) = now" and "\<forall>r \<in> set rows. b_updated_at r < now"
  shows "newest b_updated_at (filter P (patch_row (b_id r) f rows)) = Some (f r)"
proof (rule newest_first)
  show "f r \<in> set (filter P (patch_row (b_id r) f rows))"
    using assms(2,3) by (force simp: patch_row_def)
  show "\<forall>r' \<in> set (filter P (patch_row (b_id r) f rows)). r' \<noteq> f r \<longrightarrow> b_updated_at r' < b_updated_at (f r)"
    using assms(1,2,5,6) by (auto simp: patch_row_def dest: inj_onD [OF conjunct2 [OF distinct_map [THEN iffD1]]])
qed

section \<open>The exit of a terminal\<close>

definition finished :: "task_binding \<Rightarrow> bool" where
  "finished b \<longleftrightarrow> b_status b = BCompleted
    \<and> (case b_completion_summary b of Some summary \<Rightarrow> trim summary \<noteq> [] | None \<Rightarrow> False)"

text \<open>The exit code to keep: the last one that is known, and \<open>-1\<close> if none is.\<close>

definition last_known :: "int option \<Rightarrow> int list \<Rightarrow> int" where
  "last_known prev codes =
    (case rev (filter (\<lambda>c. c \<noteq> -1) ((case prev of Some c \<Rightarrow> [c] | None \<Rightarrow> []) @ codes)) of
       [] \<Rightarrow> -1 | c # _ \<Rightarrow> c)"

lemma last_known_step: "last_known (Some (last_known prev cs)) cs' = last_known prev (cs @ cs')"
  by (auto simp: last_known_def split: option.split list.split)

definition exit_update :: "task_binding \<Rightarrow> int \<Rightarrow> update_request" where
  "exit_update b c = no_update\<lparr>
    ur_status := (if finished b \<or> b_status b = BFailed then None else Some BFailed),
    ur_exit_code := (if b_exit_code b = Some (last_known (b_exit_code b) [c]) then None else Some c)\<rparr>"

lemma exit_update_code:
  "or_option (ur_exit_code (exit_update b c)) (b_exit_code b) = Some (last_known (b_exit_code b) [c])"
  by (auto simp: exit_update_def no_update_def last_known_def split: option.split)

lemma record_exit_quiet:
  assumes sid: "trim session_id \<noteq> []"
    and found: "newest b_updated_at (filter (\<lambda>r. b_session_id r = Some (trim session_id)) (sv_rows s)) = Some r"
    and ok: "rows_ok (sv_rows s)"
  shows "record_terminal_exit (quiet time uuid) session_id c s =
    (let b = row_to_binding r; req = exit_update b c; s1 = s\<lparr>sv_clock := sv_clock s + 1\<rparr> in
     if sets_nothing req False then (s1, Inr (Some b))
     else (after_update time (b_id r) req True False r s1,
           Inr (Some (row_to_binding (updated req False (time (sv_clock s + 1)) r)))))"
proof -
  let ?b = "row_to_binding r" and ?s1 = "s\<lparr>sv_clock := sv_clock s + 1\<rparr>"
  have r: "r \<in> set (sv_rows s)" using newest_Some [OF found] by simp
  have find: "find (\<lambda>r'. b_id r' = b_id r) (sv_rows ?s1) = Some r"
    using ok r by (simp add: rows_ok_def find_row)
  have key: "with_plan_key (exit_update ?b c) = exit_update ?b c"
    by (simp add: with_plan_key_def exit_update_def no_update_def)
  have valid: "valid_update (exit_update ?b c) = Inr ()"
    by (simp add: valid_update_def exit_update_def no_update_def)
  define status where "status = (if \<not> (b_status ?b = BCompleted
      \<and> (case b_completion_summary ?b of Some x \<Rightarrow> trim x \<noteq> [] | None \<Rightarrow> False)) \<and> b_status ?b \<noteq> BFailed
    then Some BFailed else None)"
  define code where "code = (if (case b_exit_code ?b of
      Some current \<Rightarrow> if c = -1 \<and> current \<noteq> -1 then False else current \<noteq> c | None \<Rightarrow> True)
    then Some c else None)"
  have req: "no_update\<lparr>ur_status := status, ur_exit_code := code\<rparr> = exit_update ?b c"
    by (auto simp: status_def code_def exit_update_def finished_def last_known_def split: option.split)
  have "status = ur_status (exit_update ?b c)" "code = ur_exit_code (exit_update ?b c)"
    by (simp_all add: req [symmetric])
  then have silent: "(status = None \<and> code = None) = sets_nothing (exit_update ?b c) False"
    by (simp add: sets_nothing_def exit_update_def no_update_def)
  have "record_terminal_exit (quiet time uuid) session_id c s =
      (if status = None \<and> code = None then ret (Some ?b)
       else run_bind (update_with_emit (quiet time uuid) (b_id ?b)
              (no_update\<lparr>ur_status := status, ur_exit_code := code\<rparr>) True) (\<lambda>binding. ret (Some binding))) ?s1"
    using sid found unfolding status_def code_def
    by (simp add: record_terminal_exit_def run_bind_def repo_find_by_session_id_def Let_def split del: if_split)
  then show ?thesis
    using update_quiet [OF valid find, of time uuid True False] silent req
    by (cases "status = None \<and> code = None") (auto simp: Let_def update_with_emit_def run_bind_def key)
qed

lemma filter_patch_row:
  "(\<And>r. b_id (f r) = b_id r) \<Longrightarrow> filter (\<lambda>r. b_id r \<noteq> bid) (patch_row bid f rows) = filter (\<lambda>r. b_id r \<noteq> bid) rows"
  by (induction rows) (auto simp: patch_row_def)

text \<open>A clock that moves on, past every time in the table.\<close>

definition clock_ok :: "(nat \<Rightarrow> nat) \<Rightarrow> service \<Rightarrow> bool" where
  "clock_ok time s \<longleftrightarrow> strict_mono time \<and> (\<forall>r \<in> set (sv_rows s). b_updated_at r < time (sv_clock s))"

lemma clock_ok_update:
  assumes "clock_ok time s" and "sv_clock s \<le> m" and "m < sv_clock s'"
    and "sv_rows s' = patch_row bid f (sv_rows s)"
    and "\<And>r. b_updated_at (f r) = b_updated_at r \<or> b_updated_at (f r) = time m"
  shows "clock_ok time s'"
proof -
  have mono: "strict_mono time" using assms(1) by (simp add: clock_ok_def)
  have "time (sv_clock s) < time (sv_clock s')" "time m < time (sv_clock s')"
    using assms(2,3) by (simp_all add: strict_mono_less [OF mono])
  moreover have "b_updated_at (f x) < time (sv_clock s')" if "x \<in> set (sv_rows s)" for x
    using that assms(1) assms(5) [of x] calculation by (auto simp: clock_ok_def)
  moreover have "b_updated_at x < time (sv_clock s')" if "x \<in> set (sv_rows s)" for x
    using that assms(1) calculation(1) by (auto simp: clock_ok_def)
  ultimately show ?thesis
    using mono assms(4) by (auto simp: clock_ok_def patch_row_def)
qed

definition latest_of :: "string \<Rightarrow> service \<Rightarrow> binding_row option" where
  "latest_of session_id s = newest b_updated_at (filter (\<lambda>r. b_session_id r = Some (trim session_id)) (sv_rows s))"

lemma exit_step:
  assumes sid: "trim session_id \<noteq> []" and r: "latest_of session_id s = Some r"
    and ok: "rows_ok (sv_rows s)" and clock: "clock_ok time s"
  obtains r' where "latest_of session_id (fst (record_terminal_exit (quiet time uuid) session_id c s)) = Some r'"
    and "rows_ok (sv_rows (fst (record_terminal_exit (quiet time uuid) session_id c s)))"
    and "clock_ok time (fst (record_terminal_exit (quiet time uuid) session_id c s))"
    and "b_id r' = b_id r"
    and "finished (row_to_binding r') = finished (row_to_binding r)"
    and "b_status (row_to_binding r') = (if finished (row_to_binding r) then BCompleted else BFailed)"
    and "b_exit_code r' = Some (last_known (b_exit_code r) [c])"
    and "filter (\<lambda>x. b_id x \<noteq> b_id r) (sv_rows (fst (record_terminal_exit (quiet time uuid) session_id c s)))
      = filter (\<lambda>x. b_id x \<noteq> b_id r) (sv_rows s)"
proof -
  let ?s' = "fst (record_terminal_exit (quiet time uuid) session_id c s)"
  let ?req = "exit_update (row_to_binding r) c"
  let ?f = "updated ?req False (time (sv_clock s + 1))"
  have rin: "r \<in> set (sv_rows s)" "b_session_id r = Some (trim session_id)"
    using newest_Some [OF r [unfolded latest_of_def]] by auto
  have "row_ok r" using ok rin by (simp add: rows_ok_def)
  have key: "with_plan_key ?req = ?req" by (simp add: with_plan_key_def exit_update_def no_update_def)
  note run = record_exit_quiet [OF sid r [unfolded latest_of_def] ok, of time uuid c]
  have cols: "b_exit_code (row_to_binding r) = b_exit_code r"
    "b_completion_summary (row_to_binding x) = b_completion_summary x" for x :: binding_row
    by (simp_all add: row_to_binding_def)
  have status: "b_status (row_to_binding (?f r)) = (if finished (row_to_binding r) then BCompleted else BFailed)"
    if "\<not> sets_nothing ?req False"
  proof -
    have "b_status (row_to_binding (?f r)) = or_else (ur_status ?req) (b_status (row_to_binding r))"
      using that by (cases "ur_status ?req") (simp_all add: updated_def update_fields_def row_to_binding_def)
    then show ?thesis by (auto simp: exit_update_def no_update_def finished_def split: if_splits)
  qed
  have unchanged: "b_status (row_to_binding r) = (if finished (row_to_binding r) then BCompleted else BFailed)
      \<and> b_exit_code r = Some (last_known (b_exit_code r) [c])" if "sets_nothing ?req False"
    using that
    by (auto simp: sets_nothing_def exit_update_def no_update_def cols finished_def split: if_splits)
  show ?thesis
  proof (cases "sets_nothing ?req False")
    case True
    then have s': "?s' = s\<lparr>sv_clock := sv_clock s + 1\<rparr>" using run by (simp add: Let_def)
    have mono: "strict_mono time" using clock by (simp add: clock_ok_def)
    have "clock_ok time ?s'"
      using clock strict_mono_less [OF mono, of "sv_clock s" "Suc (sv_clock s)"]
      unfolding s' by (auto simp: clock_ok_def)
    with that [of r] r ok s' unchanged [OF True] show ?thesis by (simp add: latest_of_def)
  next
    case False
    then have rows: "sv_rows ?s' = patch_row (b_id r) ?f (sv_rows s)" and clk: "sv_clock ?s' = sv_clock s + 3"
      using run by (simp_all add: Let_def after_update_def key)
    have valid: "valid_update ?req = Inr ()" by (simp add: valid_update_def exit_update_def no_update_def)
    have sess: "b_session_id (?f r) = b_session_id r"
      by (simp add: updated_def update_fields_def exit_update_def no_update_def)
    have at: "b_updated_at (?f x) = time (sv_clock s + 1)" for x using False by (simp add: updated_def)
    have mono: "strict_mono time" using clock by (simp add: clock_ok_def)
    have before: "\<forall>x \<in> set (sv_rows s). b_updated_at x < time (sv_clock s + 1)"
      using clock strict_mono_less [OF mono, of "sv_clock s" "sv_clock s + 1"] by (fastforce simp: clock_ok_def)
    have l: "latest_of session_id ?s' = Some (?f r)"
      unfolding latest_of_def rows
      by (rule newest_after_update) (use ok rin sess at before in \<open>auto simp: rows_ok_def\<close>)
    have o: "rows_ok (sv_rows ?s')"
      unfolding rows by (rule rows_ok_patch [OF ok]) (simp_all add: row_ok_updated valid)
    have cl: "clock_ok time ?s'"
      by (rule clock_ok_update [OF clock _ _ rows, of "sv_clock s + 1"]) (use at in \<open>simp_all add: clk\<close>)
    have "b_completion_summary (?f r) = b_completion_summary r"
      by (simp add: updated_def update_fields_def exit_update_def no_update_def)
    then have "finished (row_to_binding (?f r)) = finished (row_to_binding r)"
      using status [OF False] by (auto simp: finished_def cols)
    moreover have "b_exit_code (?f r) = Some (last_known (b_exit_code r) [c])"
      using False exit_update_code [of "row_to_binding r" c] by (simp add: updated_def update_fields_def cols)
    ultimately show ?thesis
      using that [OF l o cl] status [OF False] by (simp add: rows filter_patch_row)
  qed
qed

text \<open>
  Property C22. The notices of a terminal's exit agree in any order. After any sequence of
  recorded exit codes (with \<open>-1\<close> for a kill, whose code is unknown), undisturbed and with a clock
  that moves on, the newest binding of the session is failed, unless its worker had completed it
  with a summary; its exit code is the last known one, never replaced by an unknown one; no other
  binding has changed.
\<close>

theorem exit_notices_agree:
  assumes "trim session_id \<noteq> []" and "latest_of session_id s = Some r"
    and "rows_ok (sv_rows s)" and "clock_ok time s" and "codes \<noteq> []"
  shows "let s' = foldl (\<lambda>s c. fst (record_terminal_exit (quiet time uuid) session_id c s)) s codes in
    (case repo_get (b_id r) (sv_rows s') of
       Some b \<Rightarrow>
         b_status b = (if finished (row_to_binding r) then BCompleted else BFailed)
         \<and> b_exit_code b = Some (last_known (b_exit_code r) codes)
     | None \<Rightarrow> False)
    \<and> filter (\<lambda>x. b_id x \<noteq> b_id r) (sv_rows s') = filter (\<lambda>x. b_id x \<noteq> b_id r) (sv_rows s)"
  using assms
proof (induction codes arbitrary: s r)
  case (Cons c codes)
  let ?s1 = "fst (record_terminal_exit (quiet time uuid) session_id c s)"
  obtain r1 where r1: "latest_of session_id ?s1 = Some r1" "rows_ok (sv_rows ?s1)" "clock_ok time ?s1"
    "b_id r1 = b_id r" "finished (row_to_binding r1) = finished (row_to_binding r)"
    "b_status (row_to_binding r1) = (if finished (row_to_binding r) then BCompleted else BFailed)"
    "b_exit_code r1 = Some (last_known (b_exit_code r) [c])"
    "filter (\<lambda>x. b_id x \<noteq> b_id r) (sv_rows ?s1) = filter (\<lambda>x. b_id x \<noteq> b_id r) (sv_rows s)"
    by (rule exit_step [OF Cons.prems(1-4)])
  show ?case
  proof (cases codes)
    case Nil
    have "r1 \<in> set (sv_rows ?s1)" using newest_Some [OF r1(1) [unfolded latest_of_def]] by simp
    then have "repo_get (b_id r) (sv_rows ?s1) = Some (row_to_binding r1)"
      using r1(2,4) find_row [of "sv_rows ?s1" r1] by (simp add: repo_get_def rows_ok_def)
    with Nil r1 show ?thesis by (simp add: row_to_binding_def)
  next
    case cs: (Cons c' cs)
    then have "codes \<noteq> []" by simp
    from Cons.IH [OF Cons.prems(1) r1(1-3) this] show ?thesis
      unfolding Let_def r1(4,5,7,8) last_known_step append_Cons append_Nil foldl.simps .
  qed
qed simp

definition example_row :: binding_row where
  "example_row = binding_to_row (new_binding ''i'' 0
     \<lparr>cr_title = ''t'', cr_role = None, cr_parent_id = None, cr_plan_path = None, cr_normalized_plan_path = None,
      cr_prompt = None, cr_session_id = Some ''s'', cr_resume_id = None, cr_pane_id = None, cr_tab_id = None,
      cr_todo_id = None, cr_project_path = ''p'', cr_workspace_name = None, cr_cli_tool = None,
      cr_worker_kind = None, cr_metadata = None\<rparr>)"

lemma trim_letter: "is_ascii c \<Longrightarrow> \<not> is_ws_char [c] \<Longrightarrow> trim [c] = [c]"
  by (rule trim_ascii_noop) simp_all

lemma trim_example [simp]: "trim ''s'' = ''s''" "trim ''t'' = ''t''"
  by (simp_all add: trim_letter is_ascii_def)

lemma example_row_columns:
  "b_id example_row = ''i''" "b_session_id example_row = Some ''s''" "b_updated_at example_row = 0"
  "b_exit_code example_row = None" "b_title example_row = ''t''" "b_parent_id example_row = None"
  "row_ok example_row" "\<not> finished (row_to_binding example_row)"
  by (simp_all add: example_row_def row_ok_of_binding finished_def)
     (simp_all add: binding_to_row_def new_binding_def clean_optional_def)

theorem exit_notices_agree_witness:
  "let s = \<lparr>sv_rows = [example_row], sv_events = None, sv_clock = 0\<rparr>;
       s' = foldl (\<lambda>s c. fst (record_terminal_exit (quiet Suc (\<lambda>_. ''u'')) ''s'' c s)) s [-1, 3, -1]
   in map_option b_exit_code (repo_get ''i'' (sv_rows s')) = Some (Some 3)
      \<and> map_option b_status (repo_get ''i'' (sv_rows s')) = Some BFailed"
proof -
  let ?s = "\<lparr>sv_rows = [example_row], sv_events = None, sv_clock = 0\<rparr>"
  have "strict_mono Suc" by (simp add: strict_mono_Suc_iff)
  then have "clock_ok Suc ?s" by (simp add: clock_ok_def example_row_columns)
  moreover have "latest_of ''s'' ?s = Some example_row" by (simp add: latest_of_def example_row_columns)
  moreover have "rows_ok (sv_rows ?s)" by (simp add: rows_ok_def example_row_columns)
  ultimately show ?thesis
    using exit_notices_agree [of "''s''" ?s example_row Suc "[-1, 3, -1]" "\<lambda>_. ''u''"]
    by (auto simp: Let_def example_row_columns last_known_def simp del: foldl.simps split: option.splits)
qed

end
