(* ===== verification/Task_Cascade.thy ===== *)
theory Task_Cascade
  imports Task_Exits
begin

text \<open>
  When deleting a binding with its descendants ends, and what it deletes. The recursive query
  ends if and only if no cycle of parents can be reached from the binding.
\<close>

section \<open>The query ends on the well-founded part\<close>

definition child_rel :: "binding_row list \<Rightarrow> (string \<times> string) set" where
  "child_rel rows = {(c, p). \<exists>r \<in> set rows. b_id r = c \<and> b_parent_id r = Some p}"

lemma set_children: "set (children_ids rows p) = {c. (c, p) \<in> child_rel rows}"
  by (auto simp: children_ids_def child_rel_def)

lemma descendants_Cons:
  "descendants rows (x # q) = map_option ((#) x) (descendants rows (q @ children_ids rows x))"
  by (subst descendants.simps) (simp add: map_option_case split: option.split)

lemma descendants_Nil [simp]: "descendants rows [] = Some []"
  by (subst descendants.simps) simp

lemma map_option_append [simp]:
  "map_option ((@) []) x = x" "map_option ((@) (a # q)) x = map_option (\<lambda>ids. a # q @ ids) x"
  by (cases x; simp)+

text \<open>A whole level of the queue at once.\<close>

definition next_level :: "binding_row list \<Rightarrow> string list \<Rightarrow> string list" where
  "next_level rows q = concat (map (children_ids rows) q)"

lemma descendants_append:
  "descendants rows (q @ acc) = map_option ((@) q) (descendants rows (acc @ next_level rows q))"
  by (induction q arbitrary: acc)
     (simp_all add: next_level_def descendants_Cons option.map_comp comp_def option.map_ident)

lemma descendants_level: "descendants rows q = map_option ((@) q) (descendants rows (next_level rows q))"
  using descendants_append [of rows q "[]"] by simp

primrec levels :: "binding_row list \<Rightarrow> nat \<Rightarrow> string list \<Rightarrow> string list" where
  "levels rows 0 q = q"
| "levels rows (Suc n) q = levels rows n (next_level rows q)"

lemma levels_append: "levels rows n (q @ q') = levels rows n q @ levels rows n q'"
  by (induction n arbitrary: q q') (simp_all add: next_level_def)

lemma levels_Nil [simp]: "levels rows n [] = []"
  by (induction n) (simp_all add: next_level_def)

lemma levels_concat: "levels rows n (concat qs) = concat (map (levels rows n) qs)"
  by (induction qs) (simp_all add: levels_append)

lemma levels_Suc_single: "levels rows (Suc n) [x] = concat (map (\<lambda>y. levels rows n [y]) (children_ids rows x))"
  using levels_concat [of rows n "map (\<lambda>y. [y]) (children_ids rows x)"]
  by (simp add: next_level_def comp_def)

lemma levels_add: "levels rows (m + n) q = levels rows n (levels rows m q)"
  by (induction m arbitrary: q) simp_all

lemma levels_stay: "levels rows n q = [] \<Longrightarrow> n \<le> m \<Longrightarrow> levels rows m q = []"
  using levels_add [of rows n "m - n" q] by simp

lemma descendants_levels:
  "descendants rows q = map_option ((@) (concat (map (\<lambda>i. levels rows i q) [0..<n]))) (descendants rows (levels rows n q))"
proof (induction n arbitrary: q)
  case (Suc n)
  have "map (\<lambda>i. levels rows i q) [0..<Suc n] = q # map (\<lambda>i. levels rows i (next_level rows q)) [0..<n]"
    by (simp only: upt_conv_Cons map_Suc_upt [symmetric] list.map map_map comp_def zero_less_Suc levels.simps)
  with Suc [of "next_level rows q"] descendants_level [of rows q] show ?case
    by (simp add: option.map_comp comp_def)
qed (simp add: option.map_ident)

lemma acc_levels: "x \<in> Wellfounded.acc (child_rel rows) \<Longrightarrow> \<exists>n. levels rows n [x] = []"
proof (induction rule: acc.induct)
  case (accI x)
  then have "\<forall>y \<in> set (children_ids rows x). \<exists>n. levels rows n [y] = []" by (simp add: set_children)
  then obtain f where f: "\<forall>y \<in> set (children_ids rows x). levels rows (f y) [y] = []" by metis
  let ?n = "Max (set (0 # map f (children_ids rows x)))"
  have "\<forall>y \<in> set (children_ids rows x). levels rows ?n [y] = []"
    using f levels_stay by (metis List.finite_set Max_ge image_eqI list.set_map set_subset_Cons subsetD)
  then have "levels rows (Suc ?n) [x] = []" by (simp add: levels_Suc_single del: levels.simps)
  then show ?case by blast
qed

lemma acc_ends:
  assumes "x \<in> Wellfounded.acc (child_rel rows)"
  shows "descendants rows [x] \<noteq> None"
proof -
  obtain n where "levels rows n [x] = []" using acc_levels [OF assms] by blast
  then show ?thesis using descendants_levels [of rows "[x]" n] by simp
qed

lemma ends_acc:
  assumes "descendants rows q = Some ids"
  shows "set q \<subseteq> Wellfounded.acc (child_rel rows)"
proof (rule descendants.raw_induct [OF _ assms, of "\<lambda>rows q _. set q \<subseteq> Wellfounded.acc (child_rel rows)"], goal_cases)
  case (1 D rows q ids)
  show ?case
  proof (cases q)
    case (Cons x rest)
    with 1(2) obtain ids' where "D rows (rest @ children_ids rows x) = Some ids'"
      by (auto split: Option.bind_splits)
    from 1(1) [OF this] have "set rest \<subseteq> Wellfounded.acc (child_rel rows)"
      "set (children_ids rows x) \<subseteq> Wellfounded.acc (child_rel rows)" by simp_all
    with Cons show ?thesis by (auto simp: set_children intro: acc.accI)
  qed simp
qed

lemma acc_acyclic: "x \<in> Wellfounded.acc r \<Longrightarrow> (x, x) \<notin> r\<^sup>+"
proof (induction rule: acc.induct)
  case (accI x)
  show ?case
  proof
    assume "(x, x) \<in> r\<^sup>+"
    then obtain y where y: "(y, x) \<in> r" "(x, y) \<in> r\<^sup>*" by (meson tranclD2)
    then have "(y, y) \<in> r\<^sup>+" by (rule rtrancl_into_trancl2 [rotated, OF _ , rotated]) 
    with accI(2) [OF y(1)] show False by blast
  qed
qed

section \<open>Cycles of parents\<close>

definition below :: "binding_row list \<Rightarrow> string \<Rightarrow> string set" where
  "below rows bid = {x. (x, bid) \<in> (child_rel rows)\<^sup>*}"

definition has_cycle_below :: "binding_row list \<Rightarrow> string \<Rightarrow> bool" where
  "has_cycle_below rows bid \<longleftrightarrow> (\<exists>x \<in> below rows bid. (x, x) \<in> (child_rel rows)\<^sup>+)"

lemma finite_child_rel: "finite (child_rel rows)"
proof -
  have "child_rel rows \<subseteq> (\<lambda>r. (b_id r, the (b_parent_id r))) ` set rows"
    by (force simp: child_rel_def)
  then show ?thesis by (rule finite_subset) simp
qed

lemma acc_iff_no_cycle: "bid \<in> Wellfounded.acc (child_rel rows) \<longleftrightarrow> \<not> has_cycle_below rows bid"
proof
  assume "bid \<in> Wellfounded.acc (child_rel rows)"
  then have "below rows bid \<subseteq> Wellfounded.acc (child_rel rows)"
    using acc_downwards by (auto simp: below_def)
  then show "\<not> has_cycle_below rows bid"
    using acc_acyclic [of _ "child_rel rows"] unfolding has_cycle_below_def by blast
next
  assume none: "\<not> has_cycle_below rows bid"
  let ?R = "child_rel rows \<inter> below rows bid \<times> below rows bid"
  have "acyclic ?R"
    using none trancl_mono_subset [of ?R "child_rel rows"]
    by (auto simp: acyclic_def has_cycle_below_def dest: tranclD)
  then have wf: "wf ?R" using finite_child_rel by (simp add: finite_acyclic_wf)
  have "x \<in> below rows bid \<Longrightarrow> x \<in> Wellfounded.acc (child_rel rows)" for x
  proof (induction x rule: wf_induct_rule [OF wf])
    case (1 x)
    show ?case
    proof (rule acc.accI)
      fix y
      assume y: "(y, x) \<in> child_rel rows"
      with 1(2) have "y \<in> below rows bid" by (auto simp: below_def intro: converse_rtrancl_into_rtrancl)
      with 1 y show "y \<in> Wellfounded.acc (child_rel rows)" by blast
    qed
  qed
  then show "bid \<in> Wellfounded.acc (child_rel rows)" by (simp add: below_def)
qed

lemma set_levels: "set (levels rows n [bid]) = {x. (x, bid) \<in> child_rel rows ^^ n}"
proof (induction n)
  case (Suc n)
  have "levels rows (Suc n) [bid] = next_level rows (levels rows n [bid])"
    using levels_add [of rows n 1 "[bid]"] by simp
  moreover have "(x, bid) \<in> child_rel rows ^^ Suc n \<longleftrightarrow> (\<exists>y. (x, y) \<in> child_rel rows \<and> (y, bid) \<in> child_rel rows ^^ n)" for x
    by (meson relpow_Suc_D2 relpow_Suc_I2)
  ultimately show ?case using Suc by (auto simp: next_level_def set_children simp del: levels.simps relpow.simps)
qed auto

lemma parent_unique:
  assumes "distinct (map b_id rows)" and "(c, p) \<in> child_rel rows" and "(c, p') \<in> child_rel rows"
  shows "p = p'"
proof -
  obtain r r' where "r \<in> set rows" "r' \<in> set rows" "b_id r = b_id r'" "b_parent_id r = Some p" "b_parent_id r' = Some p'"
    using assms(2,3) by (auto simp: child_rel_def)
  moreover have "inj_on b_id (set rows)" using assms(1) by (simp add: distinct_map)
  ultimately have "r = r'" by (metis inj_onD)
  with \<open>b_parent_id r = Some p\<close> \<open>b_parent_id r' = Some p'\<close> show ?thesis by simp
qed

lemma levels_disjoint:
  assumes "distinct (map b_id rows)" and "(bid, bid) \<notin> (child_rel rows)\<^sup>+"
  shows "i < j \<Longrightarrow> (x, bid) \<in> child_rel rows ^^ i \<Longrightarrow> (x, bid) \<notin> child_rel rows ^^ j"
proof (induction i arbitrary: j x)
  case 0
  then have "x = bid" and "0 < j" by simp_all
  with assms(2) show ?case unfolding trancl_power by blast
next
  case (Suc i)
  then obtain j' where j: "j = Suc j'" "i < j'" by (cases j) auto
  from Suc.prems(2) obtain p where p: "(x, p) \<in> child_rel rows" "(p, bid) \<in> child_rel rows ^^ i"
    by (meson relpow_Suc_D2)
  show ?case
  proof
    assume "(x, bid) \<in> child_rel rows ^^ j"
    with j obtain p' where "(x, p') \<in> child_rel rows" "(p', bid) \<in> child_rel rows ^^ j'"
      by (meson relpow_Suc_D2)
    with parent_unique [OF assms(1) p(1)] Suc.IH [OF j(2) p(2)] show False by auto
  qed
qed

lemma distinct_children: "distinct (map b_id rows) \<Longrightarrow> distinct (children_ids rows p)"
  by (simp add: children_ids_def distinct_map_filter)

lemma distinct_level: "distinct (map b_id rows) \<Longrightarrow> distinct (levels rows n [bid])"
proof (induction n)
  case (Suc n)
  have "levels rows (Suc n) [bid] = concat (map (children_ids rows) (levels rows n [bid]))"
    using levels_add [of rows n 1 "[bid]"] by (simp add: next_level_def)
  moreover have "distinct (concat (map (children_ids rows) q))" if "distinct q" for q
    using that
  proof (induction q)
    case (Cons x q)
    have "set (children_ids rows x) \<inter> set (children_ids rows y) = {}" if "y \<in> set q" for y
      using that Cons.prems parent_unique [OF Suc.prems, of _ x y] by (auto simp: set_children)
    then have "set (children_ids rows x) \<inter> set (concat (map (children_ids rows) q)) = {}" by auto
    with Cons distinct_children [OF Suc.prems, of x] show ?case by simp
  qed simp
  ultimately show ?case using Suc by (simp del: levels.simps)
qed simp

lemma distinct_levels:
  assumes "distinct (map b_id rows)" and "(bid, bid) \<notin> (child_rel rows)\<^sup>+"
  shows "distinct (concat (map (\<lambda>i. levels rows i [bid]) [0..<n]))"
proof (induction n)
  case (Suc n)
  with distinct_level [OF assms(1)] levels_disjoint [OF assms] show ?case by (auto simp: set_levels)
qed simp

lemma descendants_result:
  assumes "distinct (map b_id rows)" and "bid \<in> Wellfounded.acc (child_rel rows)"
  obtains ids where "descendants rows [bid] = Some ids" and "set ids = below rows bid" and "distinct ids"
proof -
  obtain n where n: "levels rows n [bid] = []" using acc_levels [OF assms(2)] by blast
  let ?ids = "concat (map (\<lambda>i. levels rows i [bid]) [0..<n])"
  have ids: "descendants rows [bid] = Some ?ids" using descendants_levels [of rows "[bid]" n] n by simp
  have "x \<in> set ?ids" if "(x, bid) \<in> (child_rel rows)\<^sup>*" for x
  proof -
    from rtrancl_imp_relpow [OF that] obtain i where i: "(x, bid) \<in> child_rel rows ^^ i" by blast
    then have "x \<in> set (levels rows i [bid])" by (simp add: set_levels)
    then have "i < n" using levels_stay [OF n, of i] by (cases "i < n") auto
    with i show ?thesis by (auto simp: set_levels)
  qed
  then have "set ?ids = below rows bid"
    by (auto simp: below_def set_levels dest: relpow_imp_rtrancl)
  with that [OF ids] distinct_levels [OF assms(1) acc_acyclic [OF assms(2)]] show ?thesis by blast
qed

lemma filter_unique:
  assumes "distinct (map b_id rows)" and "r \<in> set rows"
  shows "filter (\<lambda>x. b_id x = b_id r) rows = [r]"
  using assms
proof (induction rows)
  case (Cons a rows)
  then have "b_id a \<notin> b_id ` set rows" by simp
  then have "filter (\<lambda>x. b_id x = b_id a) rows = []" unfolding filter_empty_conv by (metis imageI)
  with Cons \<open>b_id a \<notin> b_id ` set rows\<close> show ?case by (cases "r = a") auto
qed simp

text \<open>
  Property C23. Deleting a binding with its descendants ends exactly if the binding does not exist
  or no cycle of parents lies below it. If it ends it deletes the binding and all its
  descendants and nothing else, and reports each deleted id once, so the number of deleted rows
  is that of the reported ids.
\<close>

theorem cascade_ends_without_cycles:
  assumes "distinct (map b_id rows)"
  shows "case repo_delete_cascade bid rows of
      None \<Rightarrow> bid \<in> b_id ` set rows \<and> has_cycle_below rows bid
    | Some (rows', ids) \<Rightarrow>
        (bid \<in> b_id ` set rows \<longrightarrow> \<not> has_cycle_below rows bid)
        \<and> set ids = (if bid \<in> b_id ` set rows then below rows bid else {})
        \<and> distinct ids
        \<and> rows' = filter (\<lambda>r. b_id r \<notin> set ids) rows
        \<and> length rows' + length ids = length rows"
proof (cases "bid \<in> b_id ` set rows")
  case True
  then obtain r where r: "r \<in> set rows" "b_id r = bid" by auto
  then have "filter (\<lambda>r. b_id r = bid) rows = [r]"
    using filter_unique [OF assms r(1)] r(2) by simp
  then have start: "map b_id (filter (\<lambda>r. b_id r = bid) rows) = [bid]" using r(2) by simp
  show ?thesis
  proof (cases "bid \<in> Wellfounded.acc (child_rel rows)")
    case acc: True
    obtain ids where ids: "descendants rows [bid] = Some ids" "set ids = below rows bid" "distinct ids"
      using descendants_result [OF assms acc] .
    have "set ids \<subseteq> b_id ` set rows"
    proof
      fix x
      assume "x \<in> set ids"
      with ids(2) have "(x, bid) \<in> (child_rel rows)\<^sup>*" by (simp add: below_def)
      then show "x \<in> b_id ` set rows" using True by (cases rule: converse_rtranclE) (auto simp: child_rel_def)
    qed
    then have "b_id ` {r \<in> set rows. b_id r \<in> set ids} = set ids" by auto
    then have "set (map b_id (filter (\<lambda>r. b_id r \<in> set ids) rows)) = set ids" by auto
    moreover have "distinct (map b_id (filter (\<lambda>r. b_id r \<in> set ids) rows))"
      using assms by (simp add: distinct_map_filter)
    ultimately have "card (set ids) = length (filter (\<lambda>r. b_id r \<in> set ids) rows)"
      using distinct_card [of "map b_id (filter (\<lambda>r. b_id r \<in> set ids) rows)"] by simp
    then have "length (filter (\<lambda>r. b_id r \<notin> set ids) rows) + length ids = length rows"
      using distinct_card [OF ids(3)] sum_length_filter_compl [of "\<lambda>r. b_id r \<in> set ids" rows] by simp
    with ids True acc acc_iff_no_cycle [of bid rows] start show ?thesis
      by (simp add: repo_delete_cascade_def)
  next
    case False
    then have "descendants rows [bid] = None" using ends_acc [of rows "[bid]"] by (cases "descendants rows [bid]") auto
    with start True False acc_iff_no_cycle [of bid rows] show ?thesis by (simp add: repo_delete_cascade_def)
  qed
next
  case False
  then have "filter (\<lambda>r. b_id r = bid) rows = []" by (auto simp: filter_empty_conv)
  with False show ?thesis by (simp add: repo_delete_cascade_def)
qed

theorem cascade_ends_without_cycles_witness:
  "repo_delete_cascade ''i'' [example_row] \<noteq> None"
proof -
  have none: "child_rel [example_row] = {}" by (simp add: child_rel_def example_row_columns)
  have "\<not> has_cycle_below [example_row] ''i''" by (simp add: has_cycle_below_def none)
  then show ?thesis
    using cascade_ends_without_cycles [of "[example_row]" "''i''"] by (auto split: option.splits)
qed

text \<open>A binding made its own parent: the update is accepted, and deleting the binding with its descendants hangs.\<close>

theorem own_parent_hangs_the_cascade:
  "let s = \<lparr>sv_rows = [example_row], sv_events = None, sv_clock = 0\<rparr>;
       w = quiet Suc (\<lambda>_. ''u'');
       (s', r) = update_with_emit w ''i'' (no_update\<lparr>ur_parent_id := Some ''i''\<rparr>) True s
   in (\<exists>b. r = Inr b) \<and> svc_delete_cascade w ''i'' s' = None"
proof -
  let ?s = "\<lparr>sv_rows = [example_row], sv_events = None, sv_clock = 0\<rparr>"
  let ?req = "no_update\<lparr>ur_parent_id := Some ''i''\<rparr>"
  have valid: "valid_update ?req = Inr ()" by (simp add: valid_update_def no_update_def)
  have find: "find (\<lambda>r. b_id r = ''i'') (sv_rows ?s) = Some example_row" by (simp add: example_row_columns)
  let ?r = "updated (with_plan_key ?req) False (Suc 0) example_row"
  have cols: "b_id ?r = ''i''" "b_parent_id ?r = Some ''i''"
    by (simp_all add: updated_def update_fields_def with_plan_key_def no_update_def sets_nothing_def example_row_columns)
  have "(''i'', ''i'') \<in> child_rel [?r]" using cols by (simp add: child_rel_def)
  then have "''i'' \<notin> Wellfounded.acc (child_rel [?r])" using acc_acyclic by (metis r_into_trancl')
  then have "descendants [?r] [''i''] = None"
    using ends_acc [of "[?r]" "[''i'']"] by (cases "descendants [?r] [''i'']") auto
  then have "repo_delete_cascade ''i'' [?r] = None" using cols by (simp add: repo_delete_cascade_def)
  then show ?thesis
    using update_quiet [OF valid find, of Suc "\<lambda>_. ''u''" True False]
    by (simp add: update_with_emit_def after_update_def svc_delete_cascade_def quiet_def patch_row_def example_row_columns)
qed

end
