(* ===== verification/Task_Plans.thy ===== *)
theory Task_Plans
  imports Task_Exits
begin

text \<open>
  Patches keep to the fields they may set, and registering the leader of a plan again finds the
  binding of the first registration, in whatever spelling the plan is named.
\<close>

section \<open>Patches\<close>

text \<open>What ties a binding to its task: everything but the fields a patch may set.\<close>

definition ties :: "binding_row \<Rightarrow> binding_row" where
  "ties r = r\<lparr>b_title := [], b_prompt := None, b_status := [], b_progress := 0, b_completion_summary := None,
    b_exit_code := None, b_sort_order := 0, b_metadata := None, b_updated_at := 0\<rparr>"

definition plain_request :: "update_request \<Rightarrow> bool" where
  "plain_request req \<longleftrightarrow> ur_role req = None \<and> ur_parent_id req = None \<and> ur_plan_path req = None
    \<and> ur_normalized_plan_path req = None \<and> ur_session_id req = None \<and> ur_resume_id req = None
    \<and> ur_pane_id req = None \<and> ur_tab_id req = None \<and> ur_worker_kind req = None"

lemma plain_of_patch:
  "task_binding_patch_to_update_request ser b patch = Inr req \<Longrightarrow> plain_request req"
  by (auto simp: task_binding_patch_to_update_request_def request_of_object_def res_bind_eq_Inr
      plain_request_def no_update_def Let_def split: option.splits if_splits json.splits)

lemma patch_metadata:
  "task_binding_patch_to_update_request ser b patch = Inr req \<Longrightarrow>
    (case json_get patch ''metadata'' of
       None \<Rightarrow> ur_metadata req = None
     | Some p \<Rightarrow> \<exists>m. ur_metadata req = Some m \<and> apply_json_merge_patch (or_else (b_metadata b) (JObject [])) p 0 = Inr m)"
proof -
  have "map_of (filter (\<lambda>(k, v). k \<in> set PATCH_FIELDS) kvs) ''metadata'' = map_of kvs ''metadata''" for kvs :: "(string \<times> json) list"
    by (induction kvs) (auto simp: PATCH_FIELDS_def)
  then show "task_binding_patch_to_update_request ser b patch = Inr req \<Longrightarrow> ?thesis"
    by (auto simp: task_binding_patch_to_update_request_def request_of_object_def res_bind_eq_Inr
        no_update_def Let_def split: option.splits if_splits json.splits)
qed

lemma ties_updated: "plain_request req \<Longrightarrow> ties (updated req False now r) = ties r"
  by (cases r) (simp add: ties_def updated_def update_fields_def plain_request_def)

lemma plain_key: "plain_request req \<Longrightarrow> with_plan_key req = req"
  by (cases req) (simp add: plain_request_def with_plan_key_def)

lemma map_patch_row: "(\<And>r. g (f r) = g r) \<Longrightarrow> map g (patch_row bid f rows) = map g rows"
  by (simp add: patch_row_def)


section \<open>The leader of a plan\<close>

definition leads :: "string \<Rightarrow> string \<Rightarrow> binding_row \<Rightarrow> bool" where
  "leads key project r \<longleftrightarrow> b_role r = ''leader'' \<and> b_normalized_plan_path r = Some key \<and> b_project_path r = project"

definition leader_row :: "string \<Rightarrow> string \<Rightarrow> service \<Rightarrow> binding_row option" where
  "leader_row key project s = newest b_updated_at (filter (leads key project) (sv_rows s))"

lemma find_leader_row: "find_leader_by_plan key (Some project) (sv_rows s) = map_option row_to_binding (leader_row key project s)"
  by (simp add: find_leader_by_plan_def leader_row_def leads_def [abs_def] conj_assoc)

text \<open>What a successful registration leaves: the row \<open>r\<close> of the leader, the newest one.\<close>

definition leads_now :: "(nat \<Rightarrow> nat) \<Rightarrow> string \<Rightarrow> string \<Rightarrow> string \<Rightarrow> binding_row \<Rightarrow> service \<Rightarrow> bool" where
  "leads_now time key project session_id r s \<longleftrightarrow>
    leader_row key project s = Some r \<and> rows_ok (sv_rows s) \<and> clock_ok time s
    \<and> b_status r = ''running'' \<and> b_session_id r = Some session_id"

lemma registered_quiet: "registered b s = (s\<lparr>sv_events := map_option (\<lambda>l. l @ [(OpRegister, b_id b, Some b)]) (sv_events s)\<rparr>, Inr b)"
  by (simp add: registered_def run_bind_def emit_changed_def)

lemma leads_now_events: "leads_now time key project session_id r (s\<lparr>sv_events := e\<rparr>) = leads_now time key project session_id r s"
  by (simp add: leads_now_def leader_row_def clock_ok_def)

definition leader_request_ok :: "leader_request \<Rightarrow> string \<Rightarrow> string \<Rightarrow> string \<Rightarrow> bool" where
  "leader_request_ok req key project session_id \<longleftrightarrow>
    trim (lr_plan_path req) \<noteq> [] \<and> trim (lr_project_path req) = project \<and> project \<noteq> []
    \<and> normalize_plan_path (trim (lr_plan_path req)) = key \<and> clean_optional (lr_session_id req) = Some session_id
    \<and> (case lr_title req of Some t \<Rightarrow> trim t \<noteq> [] | None \<Rightarrow> True)"

lemma register_run:
  assumes "leader_request_ok req key project session_id"
  shows "register_plan_leader w req =
    run_bind (look w (find_leader_by_plan key (Some project))) (\<lambda>found.
      run_bind (case found of
          Some existing \<Rightarrow>
            update_with_result_reset w (b_id existing) (leader_update req (trim (lr_plan_path req)) session_id) False
              (leader_reset existing session_id)
        | None \<Rightarrow> create_running w (leader_create req (trim (lr_plan_path req)) project session_id)) registered)"
  using assms by (simp add: register_plan_leader_def leader_request_ok_def Let_def)

lemma register_existing:
  assumes req: "leader_request_ok req key project session_id" and r: "leader_row key project s = Some r"
    and ok: "rows_ok (sv_rows s)" and clock: "clock_ok time s"
  obtains s' r' where "register_plan_leader (quiet time uuid) req s = (s', Inr (row_to_binding r'))"
    and "leads_now time key project session_id r' s'" and "b_id r' = b_id r"
    and "map b_id (sv_rows s') = map b_id (sv_rows s)"
    and "(b_progress r', b_completion_summary r', b_exit_code r') =
      (if leader_reset (row_to_binding r) session_id then (0, None, None)
       else (b_progress r, b_completion_summary r, b_exit_code r))"
proof -
  let ?upd = "leader_update req (trim (lr_plan_path req)) session_id" and ?reset = "leader_reset (row_to_binding r) session_id"
  let ?s1 = "s\<lparr>sv_clock := sv_clock s + 1\<rparr>" and ?f = "updated ?upd ?reset (time (sv_clock s + 1))"
  have rin: "r \<in> set (sv_rows s)" "leads key project r" using newest_Some [OF r [unfolded leader_row_def]] by auto
  have valid: "valid_update ?upd = Inr ()"
    using req by (auto simp: valid_update_def leader_update_def no_update_def leader_request_ok_def split: option.split)
  have key: "with_plan_key ?upd = ?upd" by (simp add: with_plan_key_def leader_update_def)
  have find: "find (\<lambda>r'. b_id r' = b_id r) (sv_rows ?s1) = Some r"
    using ok rin by (simp add: rows_ok_def find_row)
  let ?s2 = "after_update time (b_id r) ?upd False ?reset r ?s1"
  have run: "register_plan_leader (quiet time uuid) req s = registered (row_to_binding (?f r)) ?s2"
    using update_quiet [OF valid find, of time uuid False ?reset]
    by (simp add: register_run [OF req] run_bind_def find_leader_row r key)
  have rows: "sv_rows ?s2 = patch_row (b_id r) ?f (sv_rows s)" by (simp add: after_update_def key)
  have cols: "b_status (?f x) = ''running''" "b_session_id (?f x) = Some session_id" "b_role (?f x) = ''leader''"
    "b_normalized_plan_path (?f x) = Some key" "b_project_path (?f x) = b_project_path x"
    "b_updated_at (?f x) = time (sv_clock s + 1)"
    "(b_progress (?f x), b_completion_summary (?f x), b_exit_code (?f x)) =
      (if ?reset then (0, None, None) else (b_progress x, b_completion_summary x, b_exit_code x))" for x
    using req
    by (simp_all add: updated_def update_fields_def leader_update_def no_update_def sets_nothing_def leader_request_ok_def)
  have mono: "strict_mono time" using clock by (simp add: clock_ok_def)
  have before: "\<forall>x \<in> set (sv_rows s). b_updated_at x < time (sv_clock s + 1)"
    using clock strict_mono_less [OF mono, of "sv_clock s" "sv_clock s + 1"] by (fastforce simp: clock_ok_def)
  have "leader_row key project ?s2 = Some (?f r)"
    unfolding leader_row_def rows
    by (rule newest_after_update) (use ok rin cols before in \<open>auto simp: rows_ok_def leads_def\<close>)
  moreover have "rows_ok (sv_rows ?s2)"
    unfolding rows by (rule rows_ok_patch [OF ok]) (simp_all add: row_ok_updated valid)
  moreover have "clock_ok time ?s2"
    by (rule clock_ok_update [OF clock _ _ rows, of "sv_clock s + 1"]) (use cols(6) in \<open>simp_all add: after_update_def\<close>)
  ultimately have "leads_now time key project session_id (?f r) ?s2"
    using cols by (simp add: leads_now_def)
  then show ?thesis
    using that [OF run [unfolded registered_quiet]] rows cols(7) [of r]
    by (simp add: leads_now_events patch_row_ids)
qed

lemma find_append_fresh: "\<forall>x \<in> set xs. \<not> P x \<Longrightarrow> find P (xs @ ys) = find P ys"
  by (induction xs) auto

lemma register_new:
  assumes req: "leader_request_ok req key project session_id" and none: "leader_row key project s = None"
    and ok: "rows_ok (sv_rows s)" and clock: "clock_ok time s" and key: "trim key = key"
    and run: "register_plan_leader (quiet time uuid) req s = (s', Inr b)"
  obtains r' where "b = row_to_binding r'" and "leads_now time key project session_id r' s'"
    and "map b_id (sv_rows s') = map b_id (sv_rows s) @ [b_id r']"
proof -
  let ?creq = "leader_create req (trim (lr_plan_path req)) project session_id"
  let ?new = "new_binding (uuid (sv_clock s + 1)) (time (sv_clock s + 1)) ?creq"
  let ?row = "binding_to_row ?new" and ?run = "no_update\<lparr>ur_status := Some BRunning\<rparr>"
  let ?f = "updated ?run False (time (sv_clock s + 2))"
  have reg: "register_plan_leader (quiet time uuid) req s =
      run_bind (create_running (quiet time uuid) ?creq) registered (s\<lparr>sv_clock := sv_clock s + 1\<rparr>)"
    by (simp add: register_run [OF req] run_bind_def find_leader_row none)
  have title: "trim (cr_title ?creq) \<noteq> []" and fresh: "\<forall>r \<in> set (sv_rows s). b_id r \<noteq> b_id ?new"
    using run unfolding reg
    by (auto simp: create_running_def create_with_emit_def run_bind_def access_quiet Let_def repo_insert_def
        list_ex_iff split: if_splits)
  let ?s1 = "s\<lparr>sv_rows := sv_rows s @ [?row], sv_clock := sv_clock s + 2\<rparr>"
  have find: "find (\<lambda>r. b_id r = b_id ?new) (sv_rows ?s1) = Some ?row"
    using fresh by (simp add: find_append_fresh)
  have valid: "valid_update ?run = Inr ()" by (rule valid_no_update)
  have plain: "with_plan_key ?run = ?run" by (simp add: with_plan_key_def no_update_def)
  let ?s2 = "after_update time (b_id ?new) ?run False False ?row ?s1"
  have s': "(s', Inr b) = registered (row_to_binding (?f ?row)) ?s2"
    using run update_quiet [OF valid find, of time uuid False False] title fresh unfolding reg
    by (simp add: create_running_def create_with_emit_def run_bind_def access_quiet repo_insert_def list_ex_iff
        update_with_emit_def plain Let_def)
  have row_ok: "row_ok ?row" using title by (simp add: row_ok_of_binding new_binding_def Let_def)
  then have ok1: "rows_ok (sv_rows ?s1)" using ok fresh by (auto simp: rows_ok_def)
  have mono: "strict_mono time" using clock by (simp add: clock_ok_def)
  have times: "time (sv_clock s) < time (sv_clock s + 2)" "time (sv_clock s + 1) < time (sv_clock s + 2)"
    by (simp_all add: strict_mono_less [OF mono])
  have clock1: "clock_ok time ?s1"
    using clock times by (fastforce simp: clock_ok_def binding_to_row_def new_binding_def Let_def)
  have rows: "sv_rows ?s2 = patch_row (b_id ?row) ?f (sv_rows ?s1)" by (simp add: after_update_def plain)
  have sess: "clean_optional (Some session_id) = Some session_id"
    using req by (auto simp: leader_request_ok_def clean_optional_def split: Option.bind_splits if_splits)
  have norm: "or_option (clean_optional (Some key)) (map_option normalize_plan_path (clean_optional (Some (trim (lr_plan_path req)))))
      = Some key"
    using req key by (auto simp: leader_request_ok_def clean_optional_def)
  have cols: "b_status (?f ?row) = ''running''" "b_session_id (?f ?row) = Some session_id" "b_role (?f ?row) = ''leader''"
    "b_normalized_plan_path (?f ?row) = Some key" "b_project_path (?f ?row) = project"
    "b_updated_at (?f ?row) = time (sv_clock s + 2)"
    using req sess norm
    by (simp_all add: updated_def update_fields_def no_update_def sets_nothing_def binding_to_row_def new_binding_def
        leader_create_def leader_request_ok_def Let_def)
  have "leader_row key project ?s2 = Some (?f ?row)"
    unfolding leader_row_def rows
    by (rule newest_after_update) (use ok1 cols clock1 in \<open>auto simp: rows_ok_def leads_def clock_ok_def\<close>)
  moreover have "rows_ok (sv_rows ?s2)"
    unfolding rows by (rule rows_ok_patch [OF ok1]) (simp_all add: row_ok_updated valid)
  moreover have "clock_ok time ?s2"
    by (rule clock_ok_update [OF clock1 _ _ rows, of "sv_clock s + 2"])
       (auto simp: after_update_def updated_def no_update_def sets_nothing_def)
  ultimately have "leads_now time key project session_id (?f ?row) ?s2"
    using cols by (simp add: leads_now_def)
  with s' rows show ?thesis
    using that [of "?f ?row"] by (simp add: registered_quiet leads_now_events patch_row_ids)
qed


definition example_leader :: "string \<Rightarrow> leader_request" where
  "example_leader plan = \<lparr>lr_plan_path = plan, lr_project_path = ''t'', lr_title = Some ''t'', lr_prompt = None,
    lr_session_id = Some ''s'', lr_resume_id = None, lr_pane_id = None, lr_tab_id = None,
    lr_workspace_name = None, lr_cli_tool = None, lr_metadata = None\<rparr>"

lemma trim_ascii_id: "list_all (\<lambda>c. is_ascii c \<and> \<not> is_ws_char [c]) s \<Longrightarrow> trim s = s"
  by (rule trim_ascii_noop) (auto simp: list_all_iff)

lemma example_keys: "trim ''/t'' = ''/t''" "trim ''//t/'' = ''//t/''" "normalize_plan_path ''/t'' = ''/t''"
  "normalize_plan_path ''//t/'' = ''/t''"
proof -
  show t: "trim ''/t'' = ''/t''" "trim ''//t/'' = ''//t/''"
    by (rule trim_ascii_id, simp add: is_ascii_def)+
  show "normalize_plan_path ''/t'' = ''/t''" "normalize_plan_path ''//t/'' = ''/t''"
    by (simp_all add: plan_path_key_parts t path_key_def path_parts_def is_sep_def wsl_drive_def slashed_def
        to_ascii_lowercase_def ascii_lower_def Let_def)
qed


end
