(* ===== verification/Project_Path.thy ===== *)
theory Project_Path
  imports Rust_Text
begin

text \<open>
  When two paths name the same project: \<open>utils/path_normalize.rs\<close> for paths of one host and
  \<open>utils/project_identity.rs\<close> across Windows and WSL. A path that is valid UTF-8 is its text;
  \<open>dunce\<close> stands for \<open>dunce::simplified\<close>, third-party code that is the identity except on
  Windows, where it strips the verbatim prefix of drive paths it finds safe.
\<close>

section \<open>Paths of one host\<close>

definition is_drive_path :: "string \<Rightarrow> bool" where
  "is_drive_path value \<longleftrightarrow> 2 \<le> length value \<and> is_ascii_alphabetic (value ! 0) \<and> value ! 1 = CHR '':''"

definition is_separator :: "char \<Rightarrow> bool" where
  "is_separator c \<longleftrightarrow> c = SLASH \<or> c = BACKSLASH"

abbreviation verbatim :: string where
  "verbatim \<equiv> [BACKSLASH, BACKSLASH, CHR ''?'', BACKSLASH]"

definition strip_verbatim_disk_prefix :: "string \<Rightarrow> string" where
  "strip_verbatim_disk_prefix value =
    (case or_option (strip_prefix verbatim value) (strip_prefix ''//?/'' value) of
       None \<Rightarrow> value
     | Some rest \<Rightarrow> if is_drive_path rest then rest else value)"

text \<open>\<open>trim_start_matches("//")\<close>.\<close>

fun trim_double_slashes :: "string \<Rightarrow> string" where
  "trim_double_slashes (a # b # s) =
    (if a = SLASH \<and> b = SLASH then trim_double_slashes s else a # b # s)"
| "trim_double_slashes s = s"

definition is_share_root :: "string \<Rightarrow> bool" where
  "is_share_root value =
    (let normalized = replace_char BACKSLASH SLASH value in
     if strip_prefix ''//'' normalized = None \<or> strip_prefix ''//?/'' normalized \<noteq> None then False
     else length (split_char SLASH (trim_double_slashes (drop_last_while (\<lambda>c. c = SLASH) normalized))) = 2)"

function pop_separators :: "nat \<Rightarrow> string \<Rightarrow> string" where
  "pop_separators min_len value =
    (if min_len < length value \<and> is_separator (last value) then pop_separators min_len (butlast value) else value)"
  by pat_completeness auto
termination
  by (relation "measure (\<lambda>(n, s). length s)") auto

declare pop_separators.simps [simp del]

definition trim_trailing_separators :: "string \<Rightarrow> string" where
  "trim_trailing_separators value =
    (if value = [] \<or> is_share_root value then value
     else
       (let min_len =
          (if is_separator (hd value) then 1
           else if is_drive_path value \<and> 2 < length value \<and> is_separator (value ! 2) then 3
           else 0)
        in pop_separators min_len value))"

definition upper_drive :: "string \<Rightarrow> string" where
  "upper_drive value = (if is_drive_path value then ascii_upper (hd value) # tl value else value)"

definition normalize_project_path :: "(string \<Rightarrow> string) \<Rightarrow> string \<Rightarrow> string" where
  "normalize_project_path dunce path =
    trim_trailing_separators (upper_drive (strip_verbatim_disk_prefix (dunce path)))"

definition comparison_path :: "(string \<Rightarrow> string) \<Rightarrow> string \<Rightarrow> string" where
  "comparison_path dunce path =
    trim_trailing_separators (replace_char BACKSLASH SLASH (strip_verbatim_disk_prefix (dunce path)))"

definition wsl_mounted_drive_parts :: "string \<Rightarrow> (string \<times> string) option" where
  "wsl_mounted_drive_parts value =
    (case strip_prefix ''//'' value of
       None \<Rightarrow> None
     | Some without_unc \<Rightarrow>
         (case split_char SLASH without_unc of
            server # distro # mnt # drive # _ \<Rightarrow>
              if server \<noteq> ''wsl.localhost'' \<and> server \<noteq> ''wsl$'' then None
              else if mnt \<noteq> ''mnt'' \<or> length drive \<noteq> 1 \<or> \<not> is_ascii_alphabetic (hd drive) then None
              else
                (let prefix_len = 2 + length server + 1 + length distro + 1 + length mnt + 1
                 in Some (take prefix_len value, drop prefix_len value))
          | _ \<Rightarrow> None))"

definition paths_equivalent :: "(string \<Rightarrow> string) \<Rightarrow> string \<Rightarrow> string \<Rightarrow> bool" where
  "paths_equivalent dunce a b =
    (let a = comparison_path dunce a; b = comparison_path dunce b in
     if is_drive_path a \<and> is_drive_path b then eq_ignore_ascii_case a b
     else
       (case (wsl_mounted_drive_parts a, wsl_mounted_drive_parts b) of
          (Some (a_prefix, a_windows), Some (b_prefix, b_windows)) \<Rightarrow>
            a_prefix = b_prefix \<and> eq_ignore_ascii_case a_windows b_windows
        | _ \<Rightarrow> a = b))"

section \<open>Paths across hosts\<close>

definition is_ssh_url :: "string \<Rightarrow> bool" where
  "is_ssh_url path \<longleftrightarrow> is_char_boundary path 6 \<and> eq_ignore_ascii_case (take 6 path) ''ssh://''"

definition format_drive_path :: "char \<Rightarrow> string \<Rightarrow> string" where
  "format_drive_path drive tail =
    (let tail = trim_char SLASH tail in
     if tail = [] then [drive, CHR '':'', BACKSLASH]
     else [drive, CHR '':'', BACKSLASH] @ replace_char SLASH BACKSLASH tail)"

definition canonical_windows_drive_path :: "string \<Rightarrow> string option" where
  "canonical_windows_drive_path path =
    (if \<not> is_drive_path path then None
     else
       (let drive = ascii_upper (hd path); rest = drop 2 path in
        if rest = [] then Some [drive, CHR '':'']
        else if hd rest \<noteq> SLASH then None
        else Some (format_drive_path drive (dropWhile (\<lambda>c. c = SLASH) rest))))"

definition canonical_mnt_drive_path :: "string \<Rightarrow> string option" where
  "canonical_mnt_drive_path path =
    (case strip_prefix ''/mnt/'' path of
       None \<Rightarrow> None
     | Some rest \<Rightarrow>
         (case rest of
            [] \<Rightarrow> None
          | c # rest \<Rightarrow>
              if \<not> is_ascii_alphabetic c then None
              else if rest \<noteq> [] \<and> hd rest \<noteq> SLASH then None
              else Some (format_drive_path (ascii_upper c) (dropWhile (\<lambda>c. c = SLASH) rest))))"

definition matches_wsl_server :: "string \<Rightarrow> bool" where
  "matches_wsl_server server \<longleftrightarrow>
    eq_ignore_ascii_case server ''wsl.localhost'' \<or> eq_ignore_ascii_case server ''wsl$''
    \<or> eq_ignore_ascii_case server ''wsl''"

definition single_drive_letter :: "string \<Rightarrow> char option" where
  "single_drive_letter value =
    (if length value = 1 \<and> is_ascii_alphabetic (hd value) then Some (ascii_upper (hd value)) else None)"

abbreviation wsl_unc :: string where
  "wsl_unc \<equiv> [BACKSLASH, BACKSLASH] @ ''wsl.localhost'' @ [BACKSLASH]"

definition canonical_wsl_unc_path :: "string \<Rightarrow> string option" where
  "canonical_wsl_unc_path path =
    (case strip_prefix ''//'' path of
       None \<Rightarrow> None
     | Some without_prefix \<Rightarrow>
         (case split_char SLASH without_prefix of
            server # distro # parts \<Rightarrow>
              if \<not> matches_wsl_server server \<or> distro = [] then None
              else
                (let remote_parts = filter (\<lambda>part. part \<noteq> []) parts in
                 case (case remote_parts of
                         mnt # drive # tail \<Rightarrow>
                           if mnt = ''mnt'' then map_option (\<lambda>d. (d, tail)) (single_drive_letter drive) else None
                       | _ \<Rightarrow> None) of
                   Some (drive, tail) \<Rightarrow> Some (format_drive_path drive (join [SLASH] tail))
                 | None \<Rightarrow>
                     Some (wsl_unc @ distro
                       @ (if remote_parts = [] then [] else BACKSLASH # join [BACKSLASH] remote_parts)))
          | _ \<Rightarrow> None))"

definition canonical_project_path :: "(string \<Rightarrow> string) \<Rightarrow> string \<Rightarrow> string" where
  "canonical_project_path dunce path =
    (if is_ssh_url path then path
     else
       (let slash_path = replace_char BACKSLASH SLASH (normalize_project_path dunce path) in
        case canonical_windows_drive_path slash_path of
          Some canonical \<Rightarrow> canonical
        | None \<Rightarrow>
            (case canonical_mnt_drive_path slash_path of
               Some canonical \<Rightarrow> canonical
             | None \<Rightarrow>
                 (case canonical_wsl_unc_path slash_path of
                    Some canonical \<Rightarrow> canonical
                  | None \<Rightarrow>
                      if strip_prefix ''//'' slash_path \<noteq> None then replace_char SLASH BACKSLASH slash_path
                      else slash_path))))"

definition project_identity_key :: "(string \<Rightarrow> string) \<Rightarrow> string \<Rightarrow> string" where
  "project_identity_key dunce path =
    (let canonical = canonical_project_path dunce path in
     if is_drive_path canonical then to_ascii_lowercase canonical else canonical)"

definition project_paths_equivalent :: "(string \<Rightarrow> string) \<Rightarrow> string \<Rightarrow> string \<Rightarrow> bool" where
  "project_paths_equivalent dunce a b \<longleftrightarrow> project_identity_key dunce a = project_identity_key dunce b"

datatype host_platform = Windows | Unix

definition windows_drive_to_mnt_path :: "string \<Rightarrow> string option" where
  "windows_drive_to_mnt_path path =
    (if \<not> is_drive_path path then None
     else
       (let drive = ascii_lower (hd path);
            tail = replace_char BACKSLASH SLASH (dropWhile is_separator (drop 2 path))
        in Some (if tail = [] then ''/mnt/'' @ [drive] else ''/mnt/'' @ [drive, SLASH] @ tail)))"

text \<open>\<open>usable\<close> tells whether a path is a directory of this host.\<close>

definition repair_project_path_for_host_with ::
    "(string \<Rightarrow> string) \<Rightarrow> string \<Rightarrow> host_platform \<Rightarrow> (string \<Rightarrow> bool) \<Rightarrow> string" where
  "repair_project_path_for_host_with dunce path host usable =
    (if is_ssh_url path \<or> usable path then path
     else
       (let canonical = canonical_project_path dunce path;
            candidate = (case host of Windows \<Rightarrow> Some canonical | Unix \<Rightarrow> windows_drive_to_mnt_path canonical)
        in case candidate of
             Some c \<Rightarrow> if c \<noteq> path \<and> usable c then c else path
           | None \<Rightarrow> path))"

end
