(* ===== verification/Project_Props.thy ===== *)
theory Project_Props
  imports Project_Path
begin

text \<open>
  The identity of a project path is stable: taking it again changes nothing, paths that are
  equivalent on one host have one identity, and repairing a path keeps it.
\<close>

section \<open>Separators\<close>

lemma replace_char_simps [simp]:
  "replace_char a b [] = []"
  "replace_char a b (c # s) = (if c = a then b else c) # replace_char a b s"
  "replace_char a b (s @ t) = replace_char a b s @ replace_char a b t"
  "length (replace_char a b s) = length s"
  "replace_char a b s = [] \<longleftrightarrow> s = []"
  "take n (replace_char a b s) = replace_char a b (take n s)"
  "drop n (replace_char a b s) = replace_char a b (drop n s)"
  "tl (replace_char a b s) = replace_char a b (tl s)"
  by (simp_all add: replace_char_def take_map drop_map map_tl)

lemma replace_char_id: "a \<notin> set s \<Longrightarrow> replace_char a b s = s"
  by (induction s) auto

lemma replace_char_notin: "a \<noteq> b \<Longrightarrow> a \<notin> set (replace_char a b s)"
  by (induction s) auto

lemma replace_char_back: "b \<notin> set s \<Longrightarrow> replace_char b a (replace_char a b s) = s"
  by (induction s) auto

lemma replace_char_both [simp]: "replace_char a b (replace_char b a s) = replace_char a b s"
  by (induction s) auto

lemma replace_char_again [simp]: "replace_char a b (replace_char a b s) = replace_char a b s"
  by (induction s) auto

lemma replace_char_nth: "i < length s \<Longrightarrow> replace_char a b s ! i = (if s ! i = a then b else s ! i)"
  by (simp add: replace_char_def)

lemma hd_last_replace:
  "s \<noteq> [] \<Longrightarrow> hd (replace_char a b s) = (if hd s = a then b else hd s)"
  "s \<noteq> [] \<Longrightarrow> last (replace_char a b s) = (if last s = a then b else last s)"
  by (simp_all add: replace_char_def hd_map last_map)

lemma set_replace_char: "set (replace_char a b s) \<subseteq> insert b (set s)"
  by (induction s) auto

abbreviation slashes :: "string \<Rightarrow> string" where
  "slashes \<equiv> replace_char BACKSLASH SLASH"

abbreviation backslashes :: "string \<Rightarrow> string" where
  "backslashes \<equiv> replace_char SLASH BACKSLASH"

lemma is_separator_simps [simp]: "is_separator SLASH" "is_separator BACKSLASH"
  by (simp_all add: is_separator_def)

lemma alpha_simps [simp]:
  "\<not> is_ascii_alphabetic SLASH" "\<not> is_ascii_alphabetic BACKSLASH" "\<not> is_ascii_alphabetic (CHR '':'')"
  by (simp_all add: is_ascii_alphabetic_def)

lemma alpha_not_sep: "is_ascii_alphabetic c \<Longrightarrow> \<not> is_separator c"
  by (auto simp: is_separator_def is_ascii_alphabetic_def)

lemma sep_replace:
  "{a, b} = {SLASH, BACKSLASH} \<Longrightarrow> is_separator (if c = a then b else c) = is_separator c"
  by (auto simp: is_separator_def doubleton_eq_iff)

lemma drive_Cons: "is_drive_path (c # d # s) \<longleftrightarrow> is_ascii_alphabetic c \<and> d = CHR '':''"
  "\<not> is_drive_path []" "\<not> is_drive_path [c]"
  by (auto simp: is_drive_path_def)

lemma drive_obtain:
  assumes "is_drive_path s"
  obtains c r where "s = c # CHR '':'' # r" and "is_ascii_alphabetic c"
  using assms by (cases s; cases "tl s") (auto simp: drive_Cons)

lemma drive_replace [simp]:
  "is_drive_path (slashes s) = is_drive_path s" "is_drive_path (backslashes s) = is_drive_path s"
  by (cases s; cases "tl s"; auto simp: drive_Cons is_ascii_alphabetic_def)+

lemma drop_last_while_map:
  "(\<And>c. P (f c) = P c) \<Longrightarrow> drop_last_while P (map f s) = map f (drop_last_while P s)"
  by (simp add: drop_last_while_def rev_map dropWhile_map comp_def)

lemma pop_separators_eq: "pop_separators n s = take n s @ drop_last_while is_separator (drop n s)"
proof (induction s rule: rev_induct)
  case Nil
  then show ?case by (simp add: pop_separators.simps drop_last_while_def)
next
  case (snoc c s)
  then show ?case
    by (cases "n \<le> length s") (simp_all add: pop_separators.simps [of n "s @ [c]"] drop_last_while_def)
qed

lemma share_root_replace [simp]:
  "is_share_root (slashes s) = is_share_root s" "is_share_root (backslashes s) = is_share_root s"
  by (simp_all add: is_share_root_def)

lemma trim_trailing_replace:
  assumes "{a, b} = {SLASH, BACKSLASH}"
  shows "trim_trailing_separators (replace_char a b s) = replace_char a b (trim_trailing_separators s)"
proof (cases "s = []")
  case False
  have sep: "\<And>c. is_separator (if c = a then b else c) = is_separator c" using assms by (rule sep_replace)
  have root: "is_share_root (replace_char a b s) = is_share_root s"
    and drive: "is_drive_path (replace_char a b s) = is_drive_path s"
    using assms by (auto simp: doubleton_eq_iff)
  have hd: "is_separator (hd (replace_char a b s)) = is_separator (hd s)"
    using False sep by (cases s) auto
  have nth: "is_separator (replace_char a b s ! 2) = is_separator (s ! 2)" if "2 < length s"
    using that sep by (simp add: replace_char_nth)
  have pop: "pop_separators n (replace_char a b s) = replace_char a b (pop_separators n s)" for n
    using drop_last_while_map [of is_separator "\<lambda>c. if c = a then b else c" "drop n s", OF sep]
    by (simp add: pop_separators_eq replace_char_def take_map drop_map)
  show ?thesis
    unfolding trim_trailing_separators_def root drive hd pop Let_def
    using False nth by (auto simp: pop)
qed (simp add: trim_trailing_separators_def)

lemma trim_trailing_nil [simp]: "trim_trailing_separators [] = []"
  by (simp add: trim_trailing_separators_def)

lemma drop_last_while_last: "drop_last_while P s = [] \<or> \<not> P (last (drop_last_while P s))"
  using hd_dropWhile [of "\<lambda>c. P c" "rev s"] by (auto simp: drop_last_while_def last_rev)

lemma pop_separators_noop: "s = [] \<or> \<not> is_separator (last s) \<Longrightarrow> pop_separators n s = s"
  by (subst pop_separators.simps) auto

lemma trim_trailing_noop: "s = [] \<or> \<not> is_separator (last s) \<Longrightarrow> trim_trailing_separators s = s"
  by (auto simp: trim_trailing_separators_def pop_separators_noop Let_def)

lemma share_root_slashes: "is_share_root s \<Longrightarrow> \<exists>r. slashes s = SLASH # SLASH # r"
  by (auto simp: is_share_root_def Let_def strip_prefix_Some split: if_splits)

lemma not_share_root [simp]: "\<not> is_share_root [c]" "is_drive_path s \<Longrightarrow> \<not> is_share_root s"
  by (auto dest!: share_root_slashes elim!: drive_obtain simp: is_ascii_alphabetic_def split: if_splits)

lemma trim_short:
  "is_separator c \<Longrightarrow> trim_trailing_separators [c] = [c]"
  "is_drive_path [a, b, c] \<Longrightarrow> is_separator c \<Longrightarrow> trim_trailing_separators [a, b, c] = [a, b, c]"
  by (simp_all add: trim_trailing_separators_def pop_separators_eq drop_last_while_def drive_Cons alpha_not_sep)

lemma trim_trailing_again [simp]:
  "trim_trailing_separators (trim_trailing_separators s) = trim_trailing_separators s"
proof (cases "s = [] \<or> is_share_root s")
  case True
  then show ?thesis by (auto simp: trim_trailing_separators_def)
next
  case False
  then obtain n where n: "trim_trailing_separators s = take n s @ drop_last_while is_separator (drop n s)"
    and "n = 0 \<or> n = 1 \<and> is_separator (hd s) \<or> n = 3 \<and> is_drive_path s \<and> 2 < length s \<and> is_separator (s ! 2)"
    by (auto simp: trim_trailing_separators_def Let_def pop_separators_eq)
  then consider "drop_last_while is_separator (drop n s) \<noteq> []"
    | "trim_trailing_separators s = []"
    | c where "trim_trailing_separators s = [c]" "is_separator c"
    | a b c where "trim_trailing_separators s = [a, b, c]" "is_drive_path [a, b, c]" "is_separator c"
  proof (cases "drop_last_while is_separator (drop n s) = []")
    case True
    then have t: "trim_trailing_separators s = take n s" using n by simp
    from \<open>n = 0 \<or> _\<close> show ?thesis
    proof (elim disjE conjE)
      assume "n = 1" "is_separator (hd s)"
      then show ?thesis using t False that(3) by (cases s) auto
    next
      assume n3: "n = 3" "is_drive_path s" "2 < length s" "is_separator (s ! 2)"
      then obtain a b c r where "s = a # b # c # r"
        by (cases s; cases "tl s"; cases "tl (tl s)") auto
      then show ?thesis using t n3 that(4) by (auto simp: drive_Cons)
    qed (use t that(2) in simp)
  qed (use that(1) in simp)
  then show ?thesis
  proof cases
    case 1
    then have "\<not> is_separator (last (trim_trailing_separators s))"
      using drop_last_while_last [of is_separator "drop n s"] n by simp
    then show ?thesis by (simp add: trim_trailing_noop)
  qed (simp_all add: trim_short)
qed

lemma drop_last_while_keep: "\<not> P y \<Longrightarrow> drop_last_while P (xs @ y # ys) = xs @ y # drop_last_while P ys"
  by (simp add: drop_last_while_def dropWhile_append)

lemma drop_last_while_keep2:
  "\<not> P b \<Longrightarrow> drop_last_while P (a # b # s) = a # b # drop_last_while P s"
  using drop_last_while_keep [of P b "[a]" s] by simp

lemma trim_drive:
  assumes "is_ascii_alphabetic c"
  shows "trim_trailing_separators (c # CHR '':'' # r) =
    c # CHR '':'' # (if r \<noteq> [] \<and> is_separator (hd r) then hd r # drop_last_while is_separator (tl r)
                   else drop_last_while is_separator r)"
proof -
  have "\<not> is_separator c" "\<not> is_separator (CHR '':'')" "is_drive_path (c # CHR '':'' # r)"
    using assms by (auto simp: alpha_not_sep drive_Cons is_separator_def)
  then show ?thesis
    by (cases r) (simp_all add: trim_trailing_separators_def pop_separators_eq drop_last_while_keep2
        drop_last_while_def [of _ "[]"])
qed

lemma alpha_upper [simp]: "is_ascii_alphabetic (ascii_upper c) = is_ascii_alphabetic c"
  by (auto simp: is_ascii_alphabetic_def ascii_upper_def)

lemma alpha_lower [simp]: "is_ascii_alphabetic (ascii_lower c) = is_ascii_alphabetic c"
  by (auto simp: is_ascii_alphabetic_def ascii_lower_def)

lemma upper_upper [simp]: "ascii_upper (ascii_upper c) = ascii_upper c"
  by (auto simp: ascii_upper_def)

lemma lower_upper [simp]: "ascii_lower (ascii_upper c) = ascii_lower c"
  by (auto simp: ascii_upper_def ascii_lower_def)

lemma upper_lower [simp]: "ascii_upper (ascii_lower c) = ascii_upper c"
  by (auto simp: ascii_upper_def ascii_lower_def)

lemma upper_drive_simps [simp]:
  "is_drive_path (upper_drive s) = is_drive_path s"
  "upper_drive (upper_drive s) = upper_drive s"
  by (auto simp: upper_drive_def drive_Cons elim!: drive_obtain)

lemma trim_upper: "trim_trailing_separators (upper_drive s) = upper_drive (trim_trailing_separators s)"
proof (cases "is_drive_path s")
  case True
  then obtain c r where s: "s = c # CHR '':'' # r" and c: "is_ascii_alphabetic c" by (rule drive_obtain)
  then show ?thesis by (simp add: upper_drive_def trim_drive drive_Cons)
next
  case False
  have "\<not> is_drive_path (trim_trailing_separators s)"
  proof
    assume "is_drive_path (trim_trailing_separators s)"
    then obtain c r where t: "trim_trailing_separators s = c # CHR '':'' # r" and c: "is_ascii_alphabetic c"
      by (rule drive_obtain)
    moreover have "\<exists>u. s = trim_trailing_separators s @ u"
    proof -
      have "\<exists>u. s = pop_separators n s @ u" for n
        using drop_last_while_prefix [of "drop n s" is_separator]
        by (metis append.assoc append_take_drop_id pop_separators_eq)
      then show ?thesis by (auto simp: trim_trailing_separators_def Let_def)
    qed
    ultimately show False using False by (auto simp: drive_Cons)
  qed
  with False show ?thesis by (simp add: upper_drive_def)
qed

lemma upper_slashes: "upper_drive (slashes s) = slashes (upper_drive s)"
proof (cases "is_drive_path s")
  case True
  then obtain c r where s: "s = c # CHR '':'' # r" and "is_ascii_alphabetic c" by (rule drive_obtain)
  then have "c \<noteq> BACKSLASH" "ascii_upper c \<noteq> BACKSLASH" using alpha_upper [of c] by (metis alpha_simps(2))+
  with s show ?thesis by (simp add: upper_drive_def drive_Cons)
qed (simp add: upper_drive_def)

lemma normalized_slashes:
  "slashes (normalize_project_path dunce p) = upper_drive (comparison_path dunce p)"
  by (simp add: normalize_project_path_def comparison_path_def trim_upper upper_slashes
      trim_trailing_replace doubleton_eq_iff)

lemma comparison_facts:
  "trim_trailing_separators (comparison_path dunce p) = comparison_path dunce p"
  "BACKSLASH \<notin> set (comparison_path dunce p)"
proof -
  show "trim_trailing_separators (comparison_path dunce p) = comparison_path dunce p"
    by (simp add: comparison_path_def)
  have "comparison_path dunce p = slashes (trim_trailing_separators (strip_verbatim_disk_prefix (dunce p)))"
    by (simp add: comparison_path_def trim_trailing_replace doubleton_eq_iff)
  then show "BACKSLASH \<notin> set (comparison_path dunce p)" by (simp add: replace_char_notin)
qed

section \<open>Parts\<close>

lemma split_char_free: "p \<in> set (split_char a s) \<Longrightarrow> a \<notin> set p \<and> set p \<subseteq> set s"
proof (induction s arbitrary: p)
  case (Cons c s)
  then show ?case by (auto split: list.splits if_splits) blast+
qed simp

lemma split_char_nonempty [simp]: "split_char a s \<noteq> []"
  by (induction s) (auto split: list.splits)

lemma join_two: "ps \<noteq> [] \<Longrightarrow> join sep (p # ps) = p @ sep @ join sep ps"
  by (cases ps) auto

lemma join_split: "join [a] (split_char a s) = s"
proof (induction s)
  case (Cons c s)
  obtain p ps where "split_char a s = p # ps" by (cases "split_char a s") auto
  with Cons show ?case by (cases ps) (auto simp: join_two)
qed simp

lemma split_char_append: "a \<notin> set p \<Longrightarrow> split_char a (p @ a # s) = p # split_char a s"
  by (induction p) auto

lemma split_char_single: "a \<notin> set p \<Longrightarrow> split_char a p = [p]"
  by (induction p) auto

lemma split_join: "ps \<noteq> [] \<Longrightarrow> \<forall>p \<in> set ps. a \<notin> set p \<Longrightarrow> split_char a (join [a] ps) = ps"
proof (induction ps)
  case (Cons p ps)
  then show ?case by (cases "ps = []") (auto simp: join_two split_char_single split_char_append)
qed simp

lemma replace_join:
  "\<forall>p \<in> set ps. a \<notin> set p \<Longrightarrow> replace_char a b (join [a] ps) = join [b] ps"
proof (induction ps)
  case (Cons p ps)
  then show ?case by (cases "ps = []") (auto simp: join_two replace_char_id)
qed simp

lemma join_free: "\<forall>p \<in> set ps. c \<notin> set p \<Longrightarrow> c \<notin> set sep \<Longrightarrow> c \<notin> set (join sep ps)"
  by (induction sep ps rule: join.induct) auto

lemma last_join: "ps \<noteq> [] \<Longrightarrow> last ps \<noteq> [] \<Longrightarrow> last (join sep ps) = last (last ps) \<and> join sep ps \<noteq> []"
  by (induction sep ps rule: join.induct) auto

section \<open>The canonical form\<close>

definition canonical_of :: "string \<Rightarrow> string" where
  "canonical_of s =
    (case canonical_windows_drive_path s of
       Some c \<Rightarrow> c
     | None \<Rightarrow>
         (case canonical_mnt_drive_path s of
            Some c \<Rightarrow> c
          | None \<Rightarrow>
              (case canonical_wsl_unc_path s of
                 Some c \<Rightarrow> c
               | None \<Rightarrow> if strip_prefix ''//'' s \<noteq> None then backslashes s else s)))"

abbreviation prepared :: "string \<Rightarrow> string" where
  "prepared c \<equiv> upper_drive (trim_trailing_separators (slashes (strip_verbatim_disk_prefix c)))"

text \<open>What \<open>dunce::simplified\<close> may do.\<close>

definition dunce_ok :: "(string \<Rightarrow> string) \<Rightarrow> bool" where
  "dunce_ok dunce \<longleftrightarrow> (\<forall>s. dunce s = s \<or> (\<exists>r. s = verbatim @ r \<and> is_drive_path r \<and> dunce s = r))"

lemma strip_drive: "is_drive_path s \<Longrightarrow> strip_verbatim_disk_prefix s = s"
  by (erule drive_obtain) (auto simp: strip_verbatim_disk_prefix_def strip_prefix_def or_option_def)

lemma strip_changes:
  assumes "strip_verbatim_disk_prefix s \<noteq> s"
  obtains x where "is_drive_path x" and "s = verbatim @ x \<or> s = ''//?/'' @ x" and "strip_verbatim_disk_prefix s = x"
proof -
  obtain x where x: "or_option (strip_prefix verbatim s) (strip_prefix ''//?/'' s) = Some x"
    using assms by (cases "or_option (strip_prefix verbatim s) (strip_prefix ''//?/'' s)")
      (simp_all add: strip_verbatim_disk_prefix_def)
  moreover have "is_drive_path x" using assms x unfolding strip_verbatim_disk_prefix_def by (auto split: if_splits)
  moreover have "s = verbatim @ x \<or> s = ''//?/'' @ x"
    using x by (cases "strip_prefix verbatim s") (simp_all only: or_option_simps option.inject strip_prefix_Some simp_thms)
  ultimately show thesis using that by (simp add: strip_verbatim_disk_prefix_def)
qed

lemma strip_dunce: "dunce_ok dunce \<Longrightarrow> strip_verbatim_disk_prefix (dunce s) = strip_verbatim_disk_prefix s"
proof -
  assume "dunce_ok dunce"
  then consider "dunce s = s" | r where "s = verbatim @ r" "is_drive_path r" "dunce s = r"
    unfolding dunce_ok_def by blast
  then show ?thesis
  proof cases
    case 2
    then have "strip_verbatim_disk_prefix s = r"
      by (simp only: strip_verbatim_disk_prefix_def strip_prefix_append) simp
    with 2 show ?thesis by (simp add: strip_drive)
  qed simp
qed

lemma canonical_prepared:
  "dunce_ok dunce \<Longrightarrow> canonical_project_path dunce p = (if is_ssh_url p then p else canonical_of (prepared p))"
  by (simp add: canonical_project_path_def normalized_slashes comparison_path_def canonical_of_def strip_dunce Let_def)

lemma drop_last_while_trim:
  "trim_char a s = [] \<or> hd (trim_char a s) \<noteq> a \<and> last (trim_char a s) \<noteq> a"
proof (cases "trim_char a s = []")
  case False
  let ?t = "dropWhile (\<lambda>c. c = a) s"
  obtain zs where "?t = trim_char a s @ zs"
    using drop_last_while_prefix [of ?t "\<lambda>c. c = a"] by (auto simp: trim_char_def)
  then have "hd (trim_char a s) = hd ?t" "?t \<noteq> []" using False by auto
  with hd_dropWhile [of "\<lambda>c. c = a" s] drop_last_while_last [of "\<lambda>c. c = a" ?t] False
  show ?thesis by (auto simp: trim_char_def)
qed simp

lemma set_trim_char: "set (trim_char a s) \<subseteq> set s"
  unfolding trim_char_def drop_last_while_def by (auto dest!: set_dropWhileD)

lemma trim_char_noop: "s = [] \<or> hd s \<noteq> a \<and> last s \<noteq> a \<Longrightarrow> trim_char a s = s"
  by (cases s) (auto simp: trim_char_def drop_last_while_noop)

lemma prepared_drive:
  assumes "is_ascii_alphabetic d" and "ascii_upper d = d" and "SLASH \<notin> set t"
    and "t = [] \<or> hd t \<noteq> BACKSLASH \<and> last t \<noteq> BACKSLASH"
  shows "canonical_of (prepared (d # CHR '':'' # BACKSLASH # t)) = d # CHR '':'' # BACKSLASH # t"
proof -
  have "d \<noteq> BACKSLASH" using assms(1) by auto
  have t: "slashes t = [] \<or> hd (slashes t) \<noteq> SLASH \<and> last (slashes t) \<noteq> SLASH \<and> \<not> is_separator (last (slashes t))"
  proof (cases "t = []")
    case False
    then have "hd t \<in> set t" "last t \<in> set t" by auto
    then have "hd t \<noteq> SLASH" "last t \<noteq> SLASH" using assms(3) by metis+
    moreover have "hd (slashes t) = hd t" "last (slashes t) = last t"
      using assms(4) False by (simp_all add: hd_last_replace)
    moreover have "slashes t \<noteq> []" using False by simp
    ultimately show ?thesis using assms(4) False by (metis is_separator_def)
  qed simp
  then have "dropWhile (\<lambda>c. c = SLASH) (slashes t) = slashes t" by (cases "slashes t") auto
  moreover have "drop_last_while is_separator (slashes t) = slashes t"
    using t by (intro drop_last_while_noop) blast
  then have "prepared (d # CHR '':'' # BACKSLASH # t) = d # CHR '':'' # SLASH # slashes t"
    using \<open>d \<noteq> BACKSLASH\<close> assms(1,2) by (simp add: strip_drive drive_Cons trim_drive upper_drive_def)
  moreover have "trim_char SLASH (slashes t) = slashes t" using t by (auto intro: trim_char_noop)
  moreover have "backslashes (slashes t) = t" by (rule replace_char_back [OF assms(3)])
  ultimately show ?thesis
    using assms(1,2) by (simp add: canonical_of_def canonical_windows_drive_path_def drive_Cons
        format_drive_path_def Let_def)
qed

lemma format_drive_form:
  assumes "BACKSLASH \<notin> set tail"
  obtains t where "format_drive_path d tail = d # CHR '':'' # BACKSLASH # t" and "SLASH \<notin> set t"
    and "t = [] \<or> hd t \<noteq> BACKSLASH \<and> last t \<noteq> BACKSLASH"
proof
  let ?u = "trim_char SLASH tail"
  show "format_drive_path d tail = d # CHR '':'' # BACKSLASH # backslashes ?u"
    by (simp add: format_drive_path_def Let_def)
  show "SLASH \<notin> set (backslashes ?u)" by (simp add: replace_char_notin)
  have free: "BACKSLASH \<notin> set ?u" using assms set_trim_char by blast
  show "backslashes ?u = [] \<or> hd (backslashes ?u) \<noteq> BACKSLASH \<and> last (backslashes ?u) \<noteq> BACKSLASH"
  proof (cases "?u = []")
    case False
    then have "hd ?u \<noteq> BACKSLASH" "last ?u \<noteq> BACKSLASH" using free hd_in_set last_in_set by force+
    then show ?thesis using False drop_last_while_trim [of SLASH tail] by (simp add: hd_last_replace)
  qed simp
qed

abbreviation (input) "remote_drive \<equiv> (\<lambda>parts. case parts of
    mnt # drive # tail \<Rightarrow> if mnt = ''mnt'' then map_option (\<lambda>d. (d, tail)) (single_drive_letter drive) else None
  | _ \<Rightarrow> None)"

lemma windows_drive_only: "\<not> is_drive_path s \<Longrightarrow> canonical_windows_drive_path s = None"
  by (simp add: canonical_windows_drive_path_def)

lemma mnt_only: "strip_prefix ''/mnt/'' s = None \<Longrightarrow> canonical_mnt_drive_path s = None"
  by (simp add: canonical_mnt_drive_path_def)

lemma prepared_wsl:
  assumes "distro \<noteq> []" and "\<forall>p \<in> set (distro # parts). SLASH \<notin> set p \<and> BACKSLASH \<notin> set p"
    and "[] \<notin> set parts" and "remote_drive parts = None"
  shows "canonical_of (prepared (wsl_unc @ distro @ (if parts = [] then [] else BACKSLASH # join [BACKSLASH] parts)))
    = wsl_unc @ distro @ (if parts = [] then [] else BACKSLASH # join [BACKSLASH] parts)"
proof -
  let ?ps = "''wsl.localhost'' # distro # parts"
  let ?c = "wsl_unc @ distro @ (if parts = [] then [] else BACKSLASH # join [BACKSLASH] parts)"
  have c: "?c = [BACKSLASH, BACKSLASH] @ join [BACKSLASH] ?ps" by (simp add: join_two)
  have free: "\<forall>p \<in> set ?ps. SLASH \<notin> set p" "\<forall>p \<in> set ?ps. BACKSLASH \<notin> set p" using assms(2) by auto
  have strip: "strip_verbatim_disk_prefix ?c = ?c"
    by (simp add: strip_verbatim_disk_prefix_def strip_prefix_def or_option_def)
  have slash: "slashes ?c = ''//'' @ join [SLASH] ?ps"
    unfolding c using replace_join [OF free(2), of SLASH] by simp
  have mem: "last ?ps \<in> set ?ps" by (rule last_in_set) simp
  have ne: "last ?ps \<noteq> []" using assms(1,3) last_in_set [of parts] by (cases "parts = []") (simp, metis last.simps list.discI)
  have "last (join [SLASH] ?ps) = last (last ?ps)" "join [SLASH] ?ps \<noteq> []"
    using last_join [of ?ps "[SLASH]", OF _ ne] by auto
  moreover have "last (last ?ps) \<in> set (last ?ps)" using ne by (rule last_in_set)
  then have "last (last ?ps) \<noteq> SLASH" "last (last ?ps) \<noteq> BACKSLASH" using free mem by metis+
  ultimately have last: "\<not> is_separator (last (''//'' @ join [SLASH] ?ps))"
    by (simp add: is_separator_def del: join.simps)
  have drive: "\<not> is_drive_path (''//'' @ x)" for x by (simp add: is_drive_path_def)
  have prep: "prepared ?c = ''//'' @ join [SLASH] ?ps"
    unfolding strip slash using last drive [of "join [SLASH] ?ps"]
    by (simp add: trim_trailing_noop upper_drive_def)
  have "filter (\<lambda>p. p \<noteq> []) parts = parts" using assms(3) by (induction parts) auto
  moreover have "split_char SLASH (join [SLASH] ?ps) = ?ps" using split_join [OF _ free(1)] by simp
  ultimately have wsl: "canonical_wsl_unc_path (''//'' @ join [SLASH] ?ps) = Some ?c"
    using assms(1,4)
    by (simp add: canonical_wsl_unc_path_def matches_wsl_server_def eq_ignore_ascii_case_def del: join.simps append.simps)
  have windows: "canonical_windows_drive_path (''//'' @ join [SLASH] ?ps) = None"
    using drive by (rule windows_drive_only)
  have mnt: "canonical_mnt_drive_path (''//'' @ join [SLASH] ?ps) = None"
    by (rule mnt_only) (simp add: strip_prefix_def)
  show ?thesis
    unfolding prep canonical_of_def windows mnt wsl by (simp only: option.case)
qed

section \<open>Taking the canonical form again\<close>

text \<open>A verbatim prefix with mixed separators, which neither \<open>dunce\<close> nor the code strips.\<close>

definition mixed_verbatim :: "string \<Rightarrow> bool" where
  "mixed_verbatim p \<longleftrightarrow>
    strip_verbatim_disk_prefix p = p
    \<and> (case strip_prefix ''//?/'' (slashes p) of Some r \<Rightarrow> is_drive_path r | None \<Rightarrow> False)"

lemma prepared_facts:
  "BACKSLASH \<notin> set (prepared p)" "trim_trailing_separators (prepared p) = prepared p"
  "upper_drive (prepared p) = prepared p"
proof -
  have "prepared p = slashes (upper_drive (trim_trailing_separators (strip_verbatim_disk_prefix p)))"
    by (simp add: trim_trailing_replace doubleton_eq_iff upper_slashes)
  then show "BACKSLASH \<notin> set (prepared p)" by (simp only:) (simp add: replace_char_notin)
qed (simp_all add: trim_upper)

lemma format_form:
  assumes "is_ascii_alphabetic a" and "BACKSLASH \<notin> set tail"
  shows "canonical_of (prepared (format_drive_path (ascii_upper a) tail)) = format_drive_path (ascii_upper a) tail"
proof -
  obtain t where t: "format_drive_path (ascii_upper a) tail = ascii_upper a # CHR '':'' # BACKSLASH # t"
    "SLASH \<notin> set t" "t = [] \<or> hd t \<noteq> BACKSLASH \<and> last t \<noteq> BACKSLASH"
    using assms(2) by (rule format_drive_form)
  have "is_ascii_alphabetic (ascii_upper a)" using assms(1) by simp
  from prepared_drive [OF this upper_upper t(2,3)] show ?thesis unfolding t(1) .
qed

lemma windows_form:
  assumes "canonical_windows_drive_path s = Some c" and "BACKSLASH \<notin> set s"
  shows "canonical_of (prepared c) = c"
proof -
  from assms(1) obtain a r where s: "s = a # CHR '':'' # r" and a: "is_ascii_alphabetic a"
    by (auto simp: canonical_windows_drive_path_def elim: drive_obtain split: if_splits)
  show ?thesis
  proof (cases "r = []")
    case True
    with assms(1) s a have "c = [ascii_upper a, CHR '':'']"
      by (simp add: canonical_windows_drive_path_def drive_Cons)
    moreover have "ascii_upper a \<noteq> BACKSLASH" using a by (metis alpha_upper alpha_simps(2))
    ultimately show ?thesis using a
      by (simp add: strip_drive drive_Cons trim_drive upper_drive_def canonical_of_def
          canonical_windows_drive_path_def drop_last_while_def)
  next
    case False
    let ?tail = "dropWhile (\<lambda>c. c = SLASH) r"
    from assms(1) s a False have c: "c = format_drive_path (ascii_upper a) ?tail"
      by (simp add: canonical_windows_drive_path_def drive_Cons split: if_splits)
    have "BACKSLASH \<notin> set ?tail" using assms(2) s by (auto dest: set_dropWhileD)
    with a show ?thesis unfolding c by (rule format_form)
  qed
qed

lemma mnt_form:
  assumes "canonical_mnt_drive_path s = Some c" and "BACKSLASH \<notin> set s"
  shows "canonical_of (prepared c) = c"
proof -
  from assms(1) obtain a r where s: "s = ''/mnt/'' @ a # r" and a: "is_ascii_alphabetic a"
    and c: "c = format_drive_path (ascii_upper a) (dropWhile (\<lambda>c. c = SLASH) r)"
    unfolding canonical_mnt_drive_path_def
    by (auto simp only: strip_prefix_Some split: option.splits list.splits if_splits)
  have "BACKSLASH \<notin> set (dropWhile (\<lambda>c. c = SLASH) r)" using assms(2) s by (auto dest: set_dropWhileD)
  with a show ?thesis unfolding c by (rule format_form)
qed

lemma wsl_form:
  assumes "canonical_wsl_unc_path s = Some c" and "BACKSLASH \<notin> set s"
  shows "canonical_of (prepared c) = c"
proof -
  obtain r where r: "strip_prefix ''//'' s = Some r"
    using assms(1) by (cases "strip_prefix ''//'' s") (simp_all add: canonical_wsl_unc_path_def)
  then have s: "s = ''//'' @ r" by (simp add: strip_prefix_Some)
  obtain server distro parts where split: "split_char SLASH r = server # distro # parts"
    using assms(1) r by (auto simp: canonical_wsl_unc_path_def split: list.splits)
  have distro: "distro \<noteq> []" and c: "c = (case remote_drive (filter (\<lambda>p. p \<noteq> []) parts) of
        Some (drive, tail) \<Rightarrow> format_drive_path drive (join [SLASH] tail)
      | None \<Rightarrow> wsl_unc @ distro @ (if filter (\<lambda>p. p \<noteq> []) parts = [] then []
          else BACKSLASH # join [BACKSLASH] (filter (\<lambda>p. p \<noteq> []) parts)))"
    using assms(1) unfolding canonical_wsl_unc_path_def r split option.case list.case Let_def
    by (auto split: if_splits option.splits prod.splits simp del: append.simps)
  let ?parts = "filter (\<lambda>p. p \<noteq> []) parts"
  have free: "\<forall>p \<in> set (distro # ?parts). SLASH \<notin> set p \<and> BACKSLASH \<notin> set p"
    using split_char_free [of _ SLASH r] assms(2) unfolding split s by auto
  show ?thesis
  proof (cases "remote_drive ?parts")
    case None
    then show ?thesis using prepared_wsl [OF distro free _ None] unfolding c by simp
  next
    case (Some dt)
    then obtain drive tail where p: "?parts = ''mnt'' # drive # tail" and d: "length drive = 1"
      "is_ascii_alphabetic (hd drive)" "dt = (ascii_upper (hd drive), tail)"
      by (auto simp: single_drive_letter_def split: list.splits if_splits)
    have "BACKSLASH \<notin> set (join [SLASH] tail)"
      using free p by (intro join_free) auto
    with d(2) show ?thesis unfolding c Some option.case d(3) prod.case by (rule format_form)
  qed
qed

lemma prepared_mixed:
  assumes "\<not> mixed_verbatim p"
  shows "\<not> (\<exists>r. prepared p = ''//?/'' @ r \<and> is_drive_path r)"
proof
  assume "\<exists>r. prepared p = ''//?/'' @ r \<and> is_drive_path r"
  then obtain r where r: "prepared p = ''//?/'' @ r" "is_drive_path r" by blast
  let ?v = "strip_verbatim_disk_prefix p"
  have no: "\<not> is_drive_path (prepared p)" unfolding r(1) by (simp add: is_drive_path_def is_ascii_alphabetic_def)
  then have "\<not> is_drive_path (trim_trailing_separators (slashes ?v))"
    by (simp only: upper_drive_simps not_False_eq_True)
  then have t: "prepared p = trim_trailing_separators (slashes ?v)" by (simp add: upper_drive_def)
  obtain u where u: "slashes ?v = prepared p @ u"
  proof -
    have "\<exists>u. s = trim_trailing_separators s @ u" for s
    proof -
      have "\<exists>u. s = pop_separators n s @ u" for n
        using drop_last_while_prefix [of "drop n s" is_separator]
        by (metis append.assoc append_take_drop_id pop_separators_eq)
      then show ?thesis by (auto simp: trim_trailing_separators_def Let_def)
    qed
    with t that show thesis by metis
  qed
  have w: "slashes ?v = ''//?/'' @ r @ u" using u r(1) by (metis append.assoc)
  have "is_drive_path (r @ u)" using r(2) by (auto simp: drive_Cons elim!: drive_obtain)
  moreover have "?v = p"
  proof (rule ccontr)
    assume "?v \<noteq> p"
    then have "is_drive_path ?v" by (rule strip_changes) simp
    then have "is_drive_path (slashes ?v)" by simp
    then show False unfolding w by (simp add: is_drive_path_def is_ascii_alphabetic_def)
  qed
  moreover from this have "strip_prefix ''//?/'' (slashes p) = Some (r @ u)" using w by (metis strip_prefix_append)
  ultimately show False using assms unfolding mixed_verbatim_def by (metis option.case(2))
qed

lemma canonical_of_again:
  assumes "\<not> mixed_verbatim p"
  shows "canonical_of (prepared (canonical_of (prepared p))) = canonical_of (prepared p)"
proof -
  let ?s = "prepared p"
  note free = prepared_facts(1) [of p]
  consider c where "canonical_windows_drive_path ?s = Some c"
    | c where "canonical_windows_drive_path ?s = None" "canonical_mnt_drive_path ?s = Some c"
    | c where "canonical_windows_drive_path ?s = None" "canonical_mnt_drive_path ?s = None"
        "canonical_wsl_unc_path ?s = Some c"
    | "canonical_windows_drive_path ?s = None" "canonical_mnt_drive_path ?s = None"
        "canonical_wsl_unc_path ?s = None"
    by (metis option.exhaust)
  then show ?thesis
  proof cases
    case 1
    then have "canonical_of ?s = c" by (simp add: canonical_of_def)
    then show ?thesis using windows_form [OF 1 free] by (simp only:)
  next
    case 2
    then have "canonical_of ?s = c" by (simp add: canonical_of_def)
    then show ?thesis using mnt_form [OF 2(2) free] by (simp only:)
  next
    case 3
    then have "canonical_of ?s = c" by (simp add: canonical_of_def)
    then show ?thesis using wsl_form [OF 3(3) free] by (simp only:)
  next
    case 4
    then have c: "canonical_of ?s = (if strip_prefix ''//'' ?s \<noteq> None then backslashes ?s else ?s)"
      by (simp add: canonical_of_def)
    have "prepared (canonical_of ?s) = ?s"
    proof (cases "strip_prefix ''//'' ?s")
      case None
      have "strip_verbatim_disk_prefix ?s = ?s"
      proof (rule ccontr)
        assume "strip_verbatim_disk_prefix ?s \<noteq> ?s"
        then obtain x where "?s = verbatim @ x \<or> ?s = ''//?/'' @ x" by (rule strip_changes)
        then show False
        proof
          assume "?s = verbatim @ x"
          then have "BACKSLASH \<in> set ?s" by (simp only:) simp
          with free show False by blast
        next
          assume "?s = ''//?/'' @ x"
          then have "?s = ''//'' @ ''?/'' @ x" by simp
          with None show False by (metis option.distinct(1) strip_prefix_append)
        qed
      qed
      moreover have "slashes ?s = ?s" using free by (simp add: replace_char_id)
      ultimately show ?thesis using c None prepared_facts [of p] by simp
    next
      case (Some r)
      have "strip_verbatim_disk_prefix (backslashes ?s) = backslashes ?s"
      proof (rule ccontr)
        assume "strip_verbatim_disk_prefix (backslashes ?s) \<noteq> backslashes ?s"
        then obtain x where x: "is_drive_path x" "backslashes ?s = verbatim @ x \<or> backslashes ?s = ''//?/'' @ x"
          by (rule strip_changes)
        moreover have "SLASH \<notin> set (backslashes ?s)" by (simp add: replace_char_notin)
        ultimately have "backslashes ?s = verbatim @ x" by auto
        then have "slashes (backslashes ?s) = ''//?/'' @ slashes x" by simp
        then have "?s = ''//?/'' @ slashes x" using replace_char_back [OF free] by simp
        with prepared_mixed [OF assms] x(1) show False by auto
      qed
      then show ?thesis using c Some prepared_facts [of p] replace_char_back [OF free] by simp
    qed
    then show ?thesis by (simp only:)
  qed
qed

section \<open>Equivalence on one host and across hosts\<close>

lemma lower_idem [simp]: "ascii_lower (ascii_lower c) = ascii_lower c"
  by (auto simp: ascii_lower_def)

lemma lower_other: "\<not> is_ascii_alphabetic x \<Longrightarrow> ascii_lower c = x \<longleftrightarrow> c = x"
proof -
  assume x: "\<not> is_ascii_alphabetic x"
  show ?thesis
  proof (cases "is_ascii_alphabetic c")
    case True
    then have "is_ascii_alphabetic (ascii_lower c)" by simp
    with x True show ?thesis by metis
  qed (auto simp: ascii_lower_def is_ascii_alphabetic_def)
qed

lemma lower_is [simp]:
  "ascii_lower c = SLASH \<longleftrightarrow> c = SLASH" "ascii_lower c = BACKSLASH \<longleftrightarrow> c = BACKSLASH"
  "ascii_lower c = CHR '':'' \<longleftrightarrow> c = CHR '':''"
  "ascii_lower SLASH = SLASH" "ascii_lower BACKSLASH = BACKSLASH" "ascii_lower (CHR '':'') = CHR '':''"
  by (simp_all add: lower_other)

abbreviation lower :: "string \<Rightarrow> string" where
  "lower \<equiv> to_ascii_lowercase"

lemma lower_simps [simp]:
  "lower [] = []" "lower (c # s) = ascii_lower c # lower s" "lower (s @ t) = lower s @ lower t"
  "lower s = [] \<longleftrightarrow> s = []" "length (lower s) = length s"
  by (simp_all add: to_ascii_lowercase_def)

lemma lower_replace:
  "lower (slashes s) = slashes (lower s)" "lower (backslashes s) = backslashes (lower s)"
  by (induction s) auto

lemma lower_trim: "lower (trim_char SLASH s) = trim_char SLASH (lower s)"
  unfolding trim_char_def drop_last_while_def to_ascii_lowercase_def
  by (simp add: dropWhile_map comp_def rev_map lower_is)

lemma lower_drop: "lower (dropWhile (\<lambda>c. c = SLASH) s) = dropWhile (\<lambda>c. c = SLASH) (lower s)"
  unfolding to_ascii_lowercase_def by (simp add: dropWhile_map comp_def lower_is)

lemma lower_split: "split_char SLASH (lower s) = map lower (split_char SLASH s)"
  by (induction s) (auto simp: lower_is split: list.splits)

lemma lower_join_list: "lower (join [SLASH] ps) = join [SLASH] (map lower ps)"
proof (induction ps)
  case (Cons p ps)
  then show ?case by (cases "ps = []") (auto simp: join_two)
qed simp

lemma lower_filter: "filter (\<lambda>p. p \<noteq> []) (map lower ps) = map lower (filter (\<lambda>p. p \<noteq> []) ps)"
  by (induction ps) auto

lemma lower_format:
  assumes "ascii_lower d = ascii_lower d'" and "lower t = lower t'"
  shows "lower (format_drive_path d t) = lower (format_drive_path d' t')"
proof -
  have "lower (format_drive_path d t) = format_drive_path (ascii_lower d) (lower t)" for d t
    by (simp add: format_drive_path_def Let_def lower_replace lower_trim [symmetric])
  then show ?thesis using assms by simp
qed

lemma drive_canonical:
  assumes "is_ascii_alphabetic c"
  shows "canonical_of (upper_drive (c # CHR '':'' # r)) =
    (if r = [] then [ascii_upper c, CHR '':'']
     else if hd r = SLASH then format_drive_path (ascii_upper c) (dropWhile (\<lambda>c. c = SLASH) r)
     else ascii_upper c # CHR '':'' # r)"
proof -
  have "ascii_upper c \<noteq> SLASH" using assms by (metis alpha_upper alpha_simps(1))
  then show ?thesis
    using assms by (auto simp: upper_drive_def drive_Cons canonical_of_def canonical_windows_drive_path_def
        canonical_mnt_drive_path_def canonical_wsl_unc_path_def strip_prefix_def)
qed

lemma format_is_drive: "is_ascii_alphabetic d \<Longrightarrow> is_drive_path (format_drive_path d t)"
  by (simp add: format_drive_path_def Let_def drive_Cons)

lemma drive_keys:
  assumes "is_drive_path a" and "is_drive_path b" and "lower a = lower b"
  shows "is_drive_path (canonical_of (upper_drive a)) \<and> is_drive_path (canonical_of (upper_drive b))
    \<and> lower (canonical_of (upper_drive a)) = lower (canonical_of (upper_drive b))"
proof -
  obtain c r where a: "a = c # CHR '':'' # r" "is_ascii_alphabetic c" using assms(1) by (rule drive_obtain)
  obtain d q where b: "b = d # CHR '':'' # q" "is_ascii_alphabetic d" using assms(2) by (rule drive_obtain)
  have low: "ascii_lower c = ascii_lower d" "lower r = lower q" using assms(3) a b by auto
  then have nil: "r = [] \<longleftrightarrow> q = []" by (metis lower_simps(4))
  have hd: "hd r = SLASH \<longleftrightarrow> hd q = SLASH" if "r \<noteq> []"
    using that nil low(2) by (cases r; cases q; simp) (metis lower_is(1))
  have "lower (format_drive_path (ascii_upper c) (dropWhile (\<lambda>c. c = SLASH) r)) =
      lower (format_drive_path (ascii_upper d) (dropWhile (\<lambda>c. c = SLASH) q))"
    using low by (intro lower_format) (simp_all add: lower_drop)
  then show ?thesis
    unfolding a(1) b(1) drive_canonical [OF a(2)] drive_canonical [OF b(2)]
    using nil hd low a(2) b(2) by (auto simp: format_is_drive drive_Cons)
qed

lemma wsl_parts:
  assumes "wsl_mounted_drive_parts v = Some (pre, w)"
  obtains server distro drive rest where "v = pre @ w"
    and "pre = ''//'' @ server @ SLASH # distro @ ''/mnt/''"
    and "split_char SLASH w = drive # rest" and "length drive = 1" and "is_ascii_alphabetic (hd drive)"
    and "server = ''wsl.localhost'' \<or> server = ''wsl$''" and "SLASH \<notin> set distro"
proof -
  obtain u where v: "v = ''//'' @ u"
    using assms by (cases "strip_prefix ''//'' v") (simp_all add: wsl_mounted_drive_parts_def strip_prefix_Some)
  obtain server distro mnt drive rest where split: "split_char SLASH u = server # distro # mnt # drive # rest"
    and ok: "server = ''wsl.localhost'' \<or> server = ''wsl$''" "mnt = ''mnt''" "length drive = 1"
      "is_ascii_alphabetic (hd drive)"
    and pw: "pre = take (2 + length server + 1 + length distro + 1 + length mnt + 1) v"
      "w = drop (2 + length server + 1 + length distro + 1 + length mnt + 1) v"
    using assms unfolding wsl_mounted_drive_parts_def v strip_prefix_append option.case Let_def
    by (auto split: list.splits if_splits)
  have u: "u = server @ SLASH # distro @ ''/mnt/'' @ join [SLASH] (drive # rest)"
    using join_split [of SLASH u] ok(2) unfolding split by (simp add: join_two)
  have free: "\<forall>p \<in> set (server # distro # mnt # drive # rest). SLASH \<notin> set p"
    using split_char_free [of _ SLASH u] unfolding split by blast
  have "pre = ''//'' @ server @ SLASH # distro @ ''/mnt/''" "w = join [SLASH] (drive # rest)"
  proof -
    let ?pre = "''//'' @ server @ SLASH # distro @ ''/mnt/''"
    have "2 + length server + 1 + length distro + 1 + length mnt + 1 = length ?pre" using ok(2) by simp
    moreover have "v = ?pre @ join [SLASH] (drive # rest)" unfolding v u by simp
    ultimately show "pre = ?pre" "w = join [SLASH] (drive # rest)" using pw by (metis append_eq_conv_conj)+
  qed
  moreover have "split_char SLASH (join [SLASH] (drive # rest)) = drive # rest" by (rule split_join) (use free in auto)
  ultimately show thesis using that [of server distro drive rest] ok free v u by simp
qed

lemma wsl_canonical:
  assumes "wsl_mounted_drive_parts v = Some (pre, w)" and "strip_suffix ''//mnt/'' pre = None"
  obtains drive rest where "split_char SLASH w = drive # rest" and "length drive = 1"
    and "is_ascii_alphabetic (hd drive)"
    and "canonical_of (upper_drive v) =
      format_drive_path (ascii_upper (hd drive)) (join [SLASH] (filter (\<lambda>p. p \<noteq> []) rest))"
proof -
  obtain server distro drive rest where p: "v = pre @ w"
    "pre = ''//'' @ server @ SLASH # distro @ ''/mnt/''" "split_char SLASH w = drive # rest"
    "length drive = 1" "is_ascii_alphabetic (hd drive)"
    "server = ''wsl.localhost'' \<or> server = ''wsl$''" "SLASH \<notin> set distro"
    using assms(1) by (rule wsl_parts)
  have distro: "distro \<noteq> []"
  proof
    assume "distro = []"
    then have "pre = (''//'' @ server) @ ''//mnt/''" using p(2) by simp
    with assms(2) strip_suffix_Some [of "''//mnt/''" pre "''//'' @ server"] show False by simp
  qed
  let ?u = "server @ SLASH # distro @ ''/mnt/'' @ w"
  have v: "v = ''//'' @ ?u" using p by simp
  have "SLASH \<notin> set server" using p(6) by auto
  then have split: "split_char SLASH ?u = server # distro # ''mnt'' # drive # rest"
    using p(3,7) split_char_append [of SLASH "''mnt''" w] by (simp add: split_char_append)
  have drive: "drive \<noteq> []" "single_drive_letter drive = Some (ascii_upper (hd drive))"
    using p(4,5) by (auto simp: single_drive_letter_def)
  have nodrive: "\<not> is_drive_path v" unfolding v by (simp add: is_drive_path_def is_ascii_alphabetic_def)
  have "canonical_wsl_unc_path v =
      Some (format_drive_path (ascii_upper (hd drive)) (join [SLASH] (filter (\<lambda>p. p \<noteq> []) rest)))"
    unfolding canonical_wsl_unc_path_def v strip_prefix_append option.case split list.case
    using distro drive p(6) by (auto simp: matches_wsl_server_def eq_ignore_ascii_case_def)
  moreover have "canonical_mnt_drive_path v = None" unfolding v
    using p(6) by (intro mnt_only) (auto simp: strip_prefix_def)
  ultimately have "canonical_of (upper_drive v) =
      format_drive_path (ascii_upper (hd drive)) (join [SLASH] (filter (\<lambda>p. p \<noteq> []) rest))"
    using nodrive by (simp add: upper_drive_def canonical_of_def windows_drive_only)
  with p(3-5) that show thesis by blast
qed

lemma wsl_keys:
  assumes "wsl_mounted_drive_parts a = Some (pre, w)" and "wsl_mounted_drive_parts b = Some (pre, w')"
    and "strip_suffix ''//mnt/'' pre = None" and "lower w = lower w'"
  shows "is_drive_path (canonical_of (upper_drive a)) \<and> is_drive_path (canonical_of (upper_drive b))
    \<and> lower (canonical_of (upper_drive a)) = lower (canonical_of (upper_drive b))"
proof -
  obtain d r where a: "split_char SLASH w = d # r" "length d = 1" "is_ascii_alphabetic (hd d)"
    "canonical_of (upper_drive a) = format_drive_path (ascii_upper (hd d)) (join [SLASH] (filter (\<lambda>p. p \<noteq> []) r))"
    using assms(1,3) by (rule wsl_canonical)
  obtain e q where b: "split_char SLASH w' = e # q" "length e = 1" "is_ascii_alphabetic (hd e)"
    "canonical_of (upper_drive b) = format_drive_path (ascii_upper (hd e)) (join [SLASH] (filter (\<lambda>p. p \<noteq> []) q))"
    using assms(2,3) by (rule wsl_canonical)
  have "map lower (d # r) = map lower (e # q)"
    using lower_split [of w] lower_split [of w'] a(1) b(1) assms(4) by simp
  then have "lower d = lower e" and r: "map lower r = map lower q" by auto
  then have "ascii_lower (hd d) = ascii_lower (hd e)" using a(2) b(2) by (cases d; cases e) auto
  then have "ascii_lower (ascii_upper (hd d)) = ascii_lower (ascii_upper (hd e))" by simp
  moreover have "lower (join [SLASH] (filter (\<lambda>p. p \<noteq> []) r)) = lower (join [SLASH] (filter (\<lambda>p. p \<noteq> []) q))"
    unfolding lower_join_list lower_filter [symmetric] r ..
  ultimately have "lower (canonical_of (upper_drive a)) = lower (canonical_of (upper_drive b))"
    unfolding a(4) b(4) by (rule lower_format)
  moreover have "is_drive_path (canonical_of (upper_drive a))" "is_drive_path (canonical_of (upper_drive b))"
    unfolding a(4) b(4) using a(3) b(3) by (simp_all add: format_is_drive)
  ultimately show ?thesis by blast
qed

text \<open>
  The canonical form of a project path is stable: taking it again changes nothing,
  so a path and its canonical form name one project. The one exception is a verbatim prefix
  spelled with mixed separators, which is not stripped.
\<close>

theorem canonical_path_is_stable:
  assumes "dunce_ok dunce" and "\<not> mixed_verbatim p"
  shows "canonical_project_path dunce (canonical_project_path dunce p) = canonical_project_path dunce p
    \<and> project_paths_equivalent dunce (canonical_project_path dunce p) p"
proof -
  have "canonical_project_path dunce (canonical_project_path dunce p) = canonical_project_path dunce p"
    using canonical_of_again [OF assms(2)] by (simp add: canonical_prepared [OF assms(1)])
  then show ?thesis by (simp add: project_paths_equivalent_def project_identity_key_def)
qed

theorem canonical_path_is_stable_witness:
  "canonical_project_path (\<lambda>s. s) (canonical_project_path (\<lambda>s. s) ''/mnt/d/Repos//'')
     = canonical_project_path (\<lambda>s. s) ''/mnt/d/Repos//''
   \<and> project_paths_equivalent (\<lambda>s. s) (canonical_project_path (\<lambda>s. s) ''/mnt/d/Repos//'') ''/mnt/d/Repos//''"
  by (rule canonical_path_is_stable)
    (simp_all add: dunce_ok_def mixed_verbatim_def strip_prefix_def)

theorem mixed_verbatim_is_not_stable:
  "let p = ''//?'' @ [BACKSLASH] @ ''d:'' @ [BACKSLASH] @ ''x''; c = canonical_project_path (\<lambda>s. s) p in
   canonical_project_path (\<lambda>s. s) c \<noteq> c \<and> \<not> project_paths_equivalent (\<lambda>s. s) c p"
  by code_simp



text \<open>An SSH URL with a trailing slash is another project.\<close>

theorem ssh_url_keeps_its_slash:
  "paths_equivalent (\<lambda>s. s) ''ssh://h/r/'' ''ssh://h/r''
    \<and> \<not> project_paths_equivalent (\<lambda>s. s) ''ssh://h/r/'' ''ssh://h/r''"
  by code_simp

end
