(* ===== verification/Launch_Request.thy ===== *)
theory Launch_Request
  imports Project_Path
begin

text \<open>
  The request that creates a terminal session and what a daemon under WSL makes of its paths:
  \<open>CreateSessionRequest\<close>, \<open>CliTool\<close> and \<open>WslLaunchInfo\<close> of \<open>models/terminal.rs\<close> and
  \<open>utils/launch_request.rs\<close>. Fields that none of the modelled code reads are left out. The home
  directory (\<open>dirs::home_dir\<close>) and whether the host is WSL are arguments.
\<close>

datatype cli_tool =
    NoTool | Claude | Codex | Gemini | Kimi | Opencode | Cursor | Grok | Pi | Omp | Jcode

fun as_id :: "cli_tool \<Rightarrow> string" where
  "as_id NoTool = ''none''"
| "as_id Claude = ''claude''"
| "as_id Codex = ''codex''"
| "as_id Gemini = ''gemini''"
| "as_id Kimi = ''kimi''"
| "as_id Opencode = ''opencode''"
| "as_id Cursor = ''cursor''"
| "as_id Grok = ''grok''"
| "as_id Pi = ''pi''"
| "as_id Omp = ''omp''"
| "as_id Jcode = ''jcode''"

record wsl_info =
  wi_remote_path :: string
  wi_workspace_remote_path :: "string option"
  wi_distro :: "string option"

record ssh_info =
  si_host :: string
  si_port :: nat
  si_user :: "string option"
  si_remote_path :: string
  si_identity_file :: "string option"
  si_machine_id :: "string option"

record session_request =
  sr_launch_id :: "string option"
  sr_project_path :: string
  sr_launch_cwd :: "string option"
  sr_cols :: nat
  sr_rows :: nat
  sr_workspace_path :: "string option"
  sr_origin_layout_id :: "string option"
  sr_origin_tab_id :: "string option"
  sr_origin_terminal_pane_id :: "string option"
  sr_expected_saved_session_id :: "string option"
  sr_launch_claude :: bool
  sr_cli_tool :: cli_tool
  sr_resume_id :: "string option"
  sr_ssh :: "ssh_info option"
  sr_wsl :: "wsl_info option"

definition effective_cli_tool :: "session_request \<Rightarrow> cli_tool" where
  "effective_cli_tool r =
    (if sr_cli_tool r = NoTool \<and> sr_launch_claude r then Claude else sr_cli_tool r)"

section \<open>Paths under WSL\<close>

abbreviation QUOTE :: char where
  "QUOTE \<equiv> CHR 0x22"

definition windows_drive_path_to_wsl :: "string \<Rightarrow> string option" where
  "windows_drive_path_to_wsl path =
    (let normalized = replace_char BACKSLASH SLASH (trim_char QUOTE (trim path));
         path = or_else (or_option (strip_prefix ''//?/'' normalized) (strip_prefix ''//./'' normalized)) normalized
     in if length path < 2 \<or> path ! 1 \<noteq> CHR '':'' then None
        else
          (let drive = ascii_lower (path ! 0) in
           if \<not> is_ascii_alphabetic drive then None
           else
             (let rest = dropWhile (\<lambda>c. c = SLASH) (drop 2 path)
              in Some (if rest = [] then ''/mnt/'' @ [drive] else ''/mnt/'' @ [drive, SLASH] @ rest))))"

definition wsl_unc_path_to_posix :: "string \<Rightarrow> string option" where
  "wsl_unc_path_to_posix path =
    (let normalized = replace_char BACKSLASH SLASH (trim_char QUOTE (trim path));
         without_slashes = dropWhile (\<lambda>c. c = SLASH) normalized;
         lower = to_ascii_lowercase without_slashes
     in case or_option (strip_prefix ''wsl.localhost/'' lower)
          (or_option (strip_prefix ''wsl$/'' lower) (strip_prefix ''wsl/'' lower)) of
          None \<Rightarrow> None
        | Some rest \<Rightarrow>
            (let rest_original = drop (length without_slashes - length rest) without_slashes;
                 (distro, remote_path) =
                   (case split_once SLASH rest_original of Some parts \<Rightarrow> parts | None \<Rightarrow> (rest_original, []));
                 remote_path = dropWhile (\<lambda>c. c = SLASH) remote_path
             in if trim distro = [] then None
                else Some (SLASH # remote_path)))"

definition normalize_path_for_wsl :: "string \<Rightarrow> string option" where
  "normalize_path_for_wsl path = or_option (windows_drive_path_to_wsl path) (wsl_unc_path_to_posix path)"

definition non_empty :: "string \<Rightarrow> string option" where
  "non_empty value = (if trim value = [] then None else Some (trim value))"

text \<open>\<open>PathBuf::join\<close> on Unix.\<close>

definition path_join :: "string \<Rightarrow> string \<Rightarrow> string" where
  "path_join base rest =
    (if rest \<noteq> [] \<and> hd rest = SLASH then rest
     else if base = [] \<or> last base = SLASH then base @ rest
     else base @ SLASH # rest)"

definition expand_home_path :: "string option \<Rightarrow> string \<Rightarrow> string" where
  "expand_home_path home path =
    (let path = trim path in
     if path = ''~'' then or_else home path
     else
       (case strip_prefix ''~/'' path of
          Some rest \<Rightarrow> (case home of Some home \<Rightarrow> path_join home rest | None \<Rightarrow> path)
        | None \<Rightarrow> path))"

definition is_same_or_parent_path :: "string \<Rightarrow> string \<Rightarrow> bool" where
  "is_same_or_parent_path parent child =
    (let parent = drop_last_while (\<lambda>c. c = SLASH) parent; child = drop_last_while (\<lambda>c. c = SLASH) child in
     if parent = [] \<or> child = [] then False
     else if parent = [SLASH] then hd child = SLASH
     else child = parent \<or> strip_prefix (parent @ [SLASH]) child \<noteq> None)"

definition normalize_workspace_path_for_wsl ::
    "string option \<Rightarrow> string option \<Rightarrow> string \<Rightarrow> wsl_info \<Rightarrow> string option" where
  "normalize_workspace_path_for_wsl home workspace_path project_path wsl =
    (case Option.bind (wi_workspace_remote_path wsl) non_empty of
       Some remote_path \<Rightarrow> Some (expand_home_path home remote_path)
     | None \<Rightarrow>
         (case workspace_path of
            None \<Rightarrow> None
          | Some workspace_path \<Rightarrow>
              (let normalized = or_else (normalize_path_for_wsl workspace_path) workspace_path in
               if is_same_or_parent_path normalized project_path then Some normalized else None)))"

definition normalize_session_request_for_host ::
    "string option \<Rightarrow> session_request \<Rightarrow> bool \<Rightarrow> session_request" where
  "normalize_session_request_for_host home request running_under_wsl =
    (if \<not> running_under_wsl \<or> sr_ssh request \<noteq> None then request
     else
       (let here = (\<lambda>path. or_else (normalize_path_for_wsl path) path);
            request = request\<lparr>sr_launch_cwd := map_option here (sr_launch_cwd request)\<rparr>
        in case sr_wsl request of
             Some wsl \<Rightarrow>
               (let project_path =
                  (case non_empty (wi_remote_path wsl) of
                     Some path \<Rightarrow> expand_home_path home path
                   | None \<Rightarrow> here (sr_project_path request))
                in request\<lparr>sr_wsl := None,
                     sr_workspace_path :=
                       normalize_workspace_path_for_wsl home (sr_workspace_path request) project_path wsl,
                     sr_project_path := project_path\<rparr>)
           | None \<Rightarrow>
               request\<lparr>sr_project_path := here (sr_project_path request),
                 sr_workspace_path := map_option here (sr_workspace_path request)\<rparr>))"

end
