(* ===== verification/Daemon_Server.thy ===== *)
theory Daemon_Server
  imports Ws_Emitter Osc_Signals Replay_Buffer Launch_Request App_Error
begin

text \<open>
  The daemon that owns the terminals (\<open>cc-panes-daemon/src/server.rs\<close>): the leases that say
  which client instance may write to a session, the birth records of sessions, the replacements
  of saved sessions, the activity of viewers, and the handlers of its routes and sockets. The
  terminal backend is a trait object: its answers are arguments, and the calls the handlers decide
  on are listed in the state, the newest last; a write is carried out on a blocking thread after
  the decision, when the handler no longer holds \<open>session_visibility\<close>. A handler that holds \<open>session_visibility\<close> is one step up
  to the point where it gives the guard up; what it does after a backend call is a step of its
  own. The clock readings of a step are one argument. Of an error response the status, the code
  and the owner are kept, not the wording.
\<close>

section \<open>State\<close>

record session_claim =
  cl_owner :: string
  cl_expires_at :: instant

definition is_live :: "session_claim \<Rightarrow> instant \<Rightarrow> bool" where
  "is_live claim now \<longleftrightarrow> now < cl_expires_at claim"

definition CLAIM_TTL_DEFAULT_MS :: nat where
  "CLAIM_TTL_DEFAULT_MS = 30000"

definition CLAIM_TTL_MIN_MS :: nat where
  "CLAIM_TTL_MIN_MS = 5000"

definition CLAIM_TTL_MAX_MS :: nat where
  "CLAIM_TTL_MAX_MS = 300000"

record provenance =
  pv_session_id :: string
  pv_daemon_generation :: nat
  pv_birth_nonce :: string
  pv_origin_instance_id :: "string option"
  pv_origin_layout_id :: "string option"
  pv_origin_tab_id :: "string option"
  pv_origin_terminal_pane_id :: "string option"
  pv_project_path :: string
  pv_runtime_kind :: string
  pv_cli_tool :: string
  pv_resume_id :: "string option"
  pv_created_at_ms :: nat

datatype backend_call =
    BkWrite string string
  | BkWriteReply string string
  | BkSubmit string string
  | BkResize string nat nat
  | BkKill string kill_reason
  | BkStoreCheckpoint string checkpoint
  | BkHookStatus string session_status
  | BkCancelLaunch string
  | BkAckOutput string nat
  | BkSharedMcpUrls "(string \<times> string) list option"

record daemon =
  ds_token :: string
  ds_started_at :: nat
  ds_shutdown :: bool
  ds_passwords :: "string \<Rightarrow> string option"
  ds_emitter :: ws_emitter
  ds_last_activity :: "(string \<times> instant) list"
  ds_desktop_clients :: nat
  ds_claims :: "string \<Rightarrow> session_claim option"
  ds_provenance :: "string \<Rightarrow> provenance option"
  ds_replacements :: "string \<Rightarrow> string option"
  ds_calls :: "backend_call list"

definition daemon_new :: "string \<Rightarrow> nat \<Rightarrow> ws_emitter \<Rightarrow> daemon" where
  "daemon_new token started_at emitter =
    \<lparr>ds_token = token, ds_started_at = started_at, ds_shutdown = False, ds_passwords = (\<lambda>_. None),
     ds_emitter = emitter, ds_last_activity = [], ds_desktop_clients = 0, ds_claims = (\<lambda>_. None),
     ds_provenance = (\<lambda>_. None), ds_replacements = (\<lambda>_. None), ds_calls = []\<rparr>"

definition backend :: "backend_call \<Rightarrow> daemon \<Rightarrow> daemon" where
  "backend call d = d\<lparr>ds_calls := ds_calls d @ [call]\<rparr>"

section \<open>Leases\<close>

definition try_claim_session ::
    "instant \<Rightarrow> string \<Rightarrow> string \<Rightarrow> nat option \<Rightarrow> daemon \<Rightarrow> daemon \<times> (string + session_claim)" where
  "try_claim_session now session_id owner ttl_ms d =
    (let ttl = clamp CLAIM_TTL_MIN_MS CLAIM_TTL_MAX_MS (or_else ttl_ms CLAIM_TTL_DEFAULT_MS) in
     case ds_claims d session_id of
       Some existing \<Rightarrow>
         if is_live existing now \<and> cl_owner existing \<noteq> owner then (d, Inl (cl_owner existing))
         else
           (let claim = \<lparr>cl_owner = owner, cl_expires_at = now + from_millis ttl\<rparr>
            in (d\<lparr>ds_claims := (ds_claims d)(session_id \<mapsto> claim)\<rparr>, Inr claim))
     | None \<Rightarrow>
         (let claim = \<lparr>cl_owner = owner, cl_expires_at = now + from_millis ttl\<rparr>
          in (d\<lparr>ds_claims := (ds_claims d)(session_id \<mapsto> claim)\<rparr>, Inr claim)))"

definition release_session_claim :: "instant \<Rightarrow> string \<Rightarrow> string \<Rightarrow> daemon \<Rightarrow> daemon \<times> bool" where
  "release_session_claim now session_id owner d =
    (case ds_claims d session_id of
       Some existing \<Rightarrow>
         if cl_owner existing = owner \<or> \<not> is_live existing now
         then (d\<lparr>ds_claims := (ds_claims d)(session_id := None)\<rparr>, True)
         else (d, False)
     | None \<Rightarrow> (d, True))"

definition session_claim_owner :: "instant \<Rightarrow> string \<Rightarrow> daemon \<Rightarrow> string option" where
  "session_claim_owner now session_id d =
    (case ds_claims d session_id of
       Some claim \<Rightarrow> if is_live claim now then Some (cl_owner claim) else None
     | None \<Rightarrow> None)"

definition may_write_session :: "instant \<Rightarrow> string \<Rightarrow> string option \<Rightarrow> daemon \<Rightarrow> bool" where
  "may_write_session now session_id caller d =
    (case session_claim_owner now session_id d of None \<Rightarrow> True | Some owner \<Rightarrow> caller = Some owner)"

definition forget_session_claim :: "string \<Rightarrow> daemon \<Rightarrow> daemon" where
  "forget_session_claim session_id d = d\<lparr>ds_claims := (ds_claims d)(session_id := None)\<rparr>"

definition retain_claims :: "(string \<Rightarrow> session_claim \<Rightarrow> bool) \<Rightarrow> daemon \<Rightarrow> daemon" where
  "retain_claims P d =
    d\<lparr>ds_claims := (\<lambda>s. case ds_claims d s of Some c \<Rightarrow> if P s c then Some c else None | None \<Rightarrow> None)\<rparr>"

definition prune_expired_claims :: "instant \<Rightarrow> daemon \<Rightarrow> daemon" where
  "prune_expired_claims now d = retain_claims (\<lambda>_ claim. is_live claim now) d"

definition live_session_claims :: "instant \<Rightarrow> daemon \<Rightarrow> string \<Rightarrow> string option" where
  "live_session_claims now d = (\<lambda>session_id. session_claim_owner now session_id d)"

section \<open>Activity\<close>

definition touch_session :: "instant \<Rightarrow> string \<Rightarrow> daemon \<Rightarrow> daemon" where
  "touch_session now session_id d =
    d\<lparr>ds_last_activity := (session_id, now) # filter (\<lambda>(s, _). s \<noteq> session_id) (ds_last_activity d)\<rparr>"

definition remove_session_activity :: "string \<Rightarrow> daemon \<Rightarrow> daemon" where
  "remove_session_activity session_id d =
    (let d = forget_session_claim session_id d
     in d\<lparr>ds_provenance := (ds_provenance d)(session_id := None),
          ds_replacements := (\<lambda>expected. case ds_replacements d expected of
             Some replacement \<Rightarrow>
               if expected \<noteq> session_id \<and> replacement \<noteq> session_id then Some replacement else None
           | None \<Rightarrow> None),
          ds_last_activity := filter (\<lambda>(s, _). s \<noteq> session_id) (ds_last_activity d),
          ds_emitter := cleanup_session session_id (ds_emitter d)\<rparr>)"

section \<open>Responses and callers\<close>

datatype http_error = HttpError nat string "string option"

abbreviation http_fail :: "nat \<Rightarrow> string \<Rightarrow> http_error" where
  "http_fail status code \<equiv> HttpError status code None"

abbreviation internal_error :: http_error where
  "internal_error \<equiv> http_fail 500 ''INTERNAL_ERROR''"

abbreviation not_found_error :: http_error where
  "not_found_error \<equiv> http_fail 404 ''NOT_FOUND''"

definition http_of_app_error :: "app_error \<Rightarrow> http_error" where
  "http_of_app_error e =
    (case e of
       NotFound _ \<Rightarrow> http_fail 404 ''NOT_FOUND''
     | ErrMessage (Some code) _ \<Rightarrow> http_fail 400 code
     | ErrMessage None _ \<Rightarrow> http_fail 500 ''INTERNAL_ERROR'')"

record headers =
  hd_authorization :: "string option"
  hd_instance :: "string option"

definition authorize :: "headers \<Rightarrow> daemon \<Rightarrow> http_error + unit" where
  "authorize h d =
    (if hd_authorization h = Some (''Bearer '' @ ds_token d) then Inr ()
     else Inl (http_fail 401 ''UNAUTHORIZED''))"

definition caller_instance :: "headers \<Rightarrow> string option" where
  "caller_instance h = Option.bind (hd_instance h) (\<lambda>v. if trim v = [] then None else Some (trim v))"

definition ensure_may_write :: "instant \<Rightarrow> string \<Rightarrow> headers \<Rightarrow> daemon \<Rightarrow> http_error + unit" where
  "ensure_may_write now session_id h d =
    (if may_write_session now session_id (caller_instance h) d then Inr ()
     else Inl (HttpError 409 ''SESSION_CLAIMED'' (Some (or_else (session_claim_owner now session_id d) []))))"

text \<open>A step that stops at its first error, the state as it is then.\<close>

definition guarded :: "http_error + unit \<Rightarrow> (daemon \<Rightarrow> daemon \<times> (http_error + 'a)) \<Rightarrow> daemon \<Rightarrow> daemon \<times> (http_error + 'a)" where
  "guarded check f d = (case check of Inl e \<Rightarrow> (d, Inl e) | Inr _ \<Rightarrow> f d)"

section \<open>Writing to a session\<close>

text \<open>What an allowed writer does: it counts as activity, and the backend is called.\<close>

definition forward :: "instant \<Rightarrow> string \<Rightarrow> headers \<Rightarrow> backend_call \<Rightarrow> daemon \<Rightarrow> daemon \<times> (http_error + unit)" where
  "forward now session_id h call d =
    guarded (authorize h d) (\<lambda>d.
    guarded (ensure_may_write now session_id h d) (\<lambda>d.
      (backend call (touch_session now session_id d), Inr ())) d) d"

definition write_session ::
    "instant \<Rightarrow> headers \<Rightarrow> string \<Rightarrow> string \<Rightarrow> string option \<Rightarrow> daemon \<Rightarrow> daemon \<times> (http_error + unit)" where
  "write_session now h session_id data source d =
    forward now session_id h
      (if source = Some ''system'' then BkWriteReply session_id data else BkWrite session_id data) d"

definition submit_session ::
    "instant \<Rightarrow> headers \<Rightarrow> string \<Rightarrow> string \<Rightarrow> daemon \<Rightarrow> daemon \<times> (http_error + unit)" where
  "submit_session now h session_id body d = forward now session_id h (BkSubmit session_id body) d"

definition resize_session ::
    "instant \<Rightarrow> headers \<Rightarrow> string \<Rightarrow> nat \<Rightarrow> nat \<Rightarrow> daemon \<Rightarrow> daemon \<times> (http_error + unit)" where
  "resize_session now h session_id cols rows d = forward now session_id h (BkResize session_id cols rows) d"

text \<open>The rest of these handlers: an error of the backend is a missing session.\<close>

definition forwarded :: "app_error + unit \<Rightarrow> http_error + nat" where
  "forwarded answer = (case answer of Inr _ \<Rightarrow> Inr 204 | Inl _ \<Rightarrow> Inl not_found_error)"

fun checkpoint_code :: "store_outcome \<Rightarrow> string" where
  "checkpoint_code RejectedStaleAnchor = ''STALE_ANCHOR''"
| "checkpoint_code RejectedAnchorGap = ''ANCHOR_GAP''"
| "checkpoint_code RejectedFutureAnchor = ''FUTURE_ANCHOR''"
| "checkpoint_code RejectedEpochMismatch = ''EPOCH_MISMATCH''"
| "checkpoint_code RejectedTooLarge = ''TOO_LARGE''"
| "checkpoint_code (Accepted _) = []"

definition upload_session_checkpoint ::
    "(string \<Rightarrow> checkpoint \<Rightarrow> app_error + store_outcome) \<Rightarrow> instant \<Rightarrow> headers \<Rightarrow> string \<Rightarrow> checkpoint
      \<Rightarrow> daemon \<Rightarrow> daemon \<times> (http_error + nat)" where
  "upload_session_checkpoint answer now h session_id cp d =
    (case forward now session_id h (BkStoreCheckpoint session_id cp) d of
       (d, Inl e) \<Rightarrow> (d, Inl e)
     | (d, Inr _) \<Rightarrow>
         (d, case answer session_id cp of
               Inl _ \<Rightarrow> Inl not_found_error
             | Inr (Accepted anchor_seq) \<Rightarrow> Inr anchor_seq
             | Inr rejected \<Rightarrow> Inl (http_fail 409 (checkpoint_code rejected))))"

text \<open>Killing: the decision, and what is dropped after the backend has killed the session.\<close>

definition kill_session_begin ::
    "instant \<Rightarrow> headers \<Rightarrow> string \<Rightarrow> string option \<Rightarrow> daemon \<Rightarrow> daemon \<times> (http_error + unit)" where
  "kill_session_begin now h session_id reason d =
    guarded (authorize h d) (\<lambda>d.
    guarded (ensure_may_write now session_id h d) (\<lambda>d.
      (backend (BkKill session_id (kill_reason_parse reason)) d, Inr ())) d) d"

definition kill_session_end :: "string \<Rightarrow> app_error + unit \<Rightarrow> daemon \<Rightarrow> daemon \<times> (http_error + nat)" where
  "kill_session_end session_id answer d =
    (case answer of
       Inl _ \<Rightarrow> (d, Inl not_found_error)
     | Inr _ \<Rightarrow> (remove_session_activity session_id d, Inr 204))"

section \<open>Leases over the wire\<close>

text \<open>\<open>status\<close> is what the backend says of a session.\<close>

type_synonym statuses = "string \<Rightarrow> app_error + session_status option"

definition claim_session ::
    "statuses \<Rightarrow> instant \<Rightarrow> headers \<Rightarrow> string \<Rightarrow> string option \<Rightarrow> nat option \<Rightarrow> daemon
      \<Rightarrow> daemon \<times> (http_error + string)" where
  "claim_session status now h session_id app_instance_id ttl_ms d =
    guarded (authorize h d) (\<lambda>d.
      case or_option app_instance_id (caller_instance h) of
        None \<Rightarrow> (d, Inl (http_fail 400 ''MISSING_INSTANCE_ID''))
      | Some owner \<Rightarrow>
          if trim owner = [] then (d, Inl (http_fail 400 ''MISSING_INSTANCE_ID''))
          else
            (case status session_id of
               Inl _ \<Rightarrow> (d, Inl internal_error)
             | Inr None \<Rightarrow> (d, Inl (http_fail 404 ''SESSION_NOT_FOUND''))
             | Inr (Some _) \<Rightarrow>
                 (case try_claim_session now session_id owner ttl_ms (prune_expired_claims now d) of
                    (d, Inr _) \<Rightarrow> (touch_session now session_id d, Inr owner)
                  | (d, Inl existing) \<Rightarrow> (d, Inl (HttpError 409 ''SESSION_CLAIMED'' (Some existing)))))) d"

definition release_claim ::
    "instant \<Rightarrow> headers \<Rightarrow> string \<Rightarrow> string option \<Rightarrow> daemon \<Rightarrow> daemon \<times> (http_error + nat)" where
  "release_claim now h session_id app_instance_id d =
    guarded (authorize h d) (\<lambda>d.
      (case release_session_claim now session_id
          (or_else (or_option app_instance_id (caller_instance h)) []) d of
         (d, True) \<Rightarrow> (d, Inr 204)
       | (d, False) \<Rightarrow> (d, Inl (http_fail 409 ''SESSION_CLAIMED'')))) d"

definition list_session_claims ::
    "instant \<Rightarrow> headers \<Rightarrow> daemon \<Rightarrow> daemon \<times> (http_error + (string \<Rightarrow> string option))" where
  "list_session_claims now h d =
    guarded (authorize h d) (\<lambda>d.
      (let d = prune_expired_claims now d in (d, Inr (live_session_claims now d)))) d"

record adoption_snapshot =
  as_claims_supported :: bool
  as_daemon_generation :: "nat option"
  as_owner_instance_id :: "string option"
  as_captured_at_ms :: nat
  as_complete :: bool
  as_sessions :: "(string \<times> session_status) list"
  as_claims :: "string \<Rightarrow> string option"
  as_provenance :: "string \<Rightarrow> provenance option"

definition get_adoption_snapshot ::
    "app_error + (string \<times> session_status) list \<Rightarrow> instant \<Rightarrow> nat \<Rightarrow> headers \<Rightarrow> daemon
      \<Rightarrow> daemon \<times> (http_error + adoption_snapshot)" where
  "get_adoption_snapshot all_status now now_ms h d =
    guarded (authorize h d) (\<lambda>d.
      (case all_status of
         Inl _ \<Rightarrow> (d, Inl internal_error)
       | Inr sessions \<Rightarrow>
           (let live_ids = map fst (filter (\<lambda>(_, st). \<not> is_terminal st) sessions);
                d = retain_claims (\<lambda>s _. s \<in> set live_ids) (prune_expired_claims now d);
                d = d\<lparr>ds_provenance := (\<lambda>s. if s \<in> set live_ids then ds_provenance d s else None)\<rparr>
            in (d, Inr \<lparr>as_claims_supported = True, as_daemon_generation = Some (ds_started_at d),
                  as_owner_instance_id = caller_instance h, as_captured_at_ms = now_ms,
                  as_complete = True, as_sessions = sessions,
                  as_claims = live_session_claims now d, as_provenance = ds_provenance d\<rparr>)))) d"

definition get_session_provenance :: "headers \<Rightarrow> string \<Rightarrow> daemon \<Rightarrow> daemon \<times> (http_error + provenance)" where
  "get_session_provenance h session_id d =
    guarded (authorize h d) (\<lambda>d.
      (case ds_provenance d session_id of
         Some p \<Rightarrow> (d, Inr p) | None \<Rightarrow> (d, Inl not_found_error))) d"

section \<open>Reading and small routes\<close>

text \<open>A route that reads a session counts as activity, whether or not the session exists.\<close>

definition read_session ::
    "instant \<Rightarrow> headers \<Rightarrow> string \<Rightarrow> http_error + 'a \<Rightarrow> daemon \<Rightarrow> daemon \<times> (http_error + 'a)" where
  "read_session now h session_id answer d =
    guarded (authorize h d) (\<lambda>d. (touch_session now session_id d, answer)) d"

definition get_session_status ::
    "statuses \<Rightarrow> instant \<Rightarrow> headers \<Rightarrow> string \<Rightarrow> daemon \<Rightarrow> daemon \<times> (http_error + session_status)" where
  "get_session_status status now h session_id d =
    read_session now h session_id
      (case status session_id of
         Inl _ \<Rightarrow> Inl internal_error | Inr None \<Rightarrow> Inl not_found_error | Inr (Some st) \<Rightarrow> Inr st) d"

definition hook_status ::
    "app_error + unit \<Rightarrow> headers \<Rightarrow> string \<Rightarrow> session_status \<Rightarrow> daemon \<Rightarrow> daemon \<times> (http_error + nat)" where
  "hook_status answer h session_id st d =
    guarded (authorize h d) (\<lambda>d.
      (backend (BkHookStatus session_id st) d,
       case answer of Inr _ \<Rightarrow> Inr 204 | Inl _ \<Rightarrow> Inl internal_error)) d"

definition cancel_launch :: "app_error + unit \<Rightarrow> headers \<Rightarrow> string \<Rightarrow> daemon \<Rightarrow> daemon \<times> (http_error + nat)" where
  "cancel_launch answer h launch_id d =
    guarded (authorize h d) (\<lambda>d.
      (backend (BkCancelLaunch launch_id) d,
       case answer of Inr _ \<Rightarrow> Inr 204 | Inl _ \<Rightarrow> Inl internal_error)) d"

definition shutdown :: "headers \<Rightarrow> daemon \<Rightarrow> daemon \<times> (http_error + unit)" where
  "shutdown h d = guarded (authorize h d) (\<lambda>d. (d\<lparr>ds_shutdown := True\<rparr>, Inr ())) d"

definition set_temporary_ssh_password ::
    "headers \<Rightarrow> string \<Rightarrow> string \<Rightarrow> daemon \<Rightarrow> daemon \<times> (http_error + nat)" where
  "set_temporary_ssh_password h machine_id password d =
    guarded (authorize h d) (\<lambda>d.
      (let machine_id = trim machine_id in
       if machine_id = [] \<or> 256 < length machine_id then (d, Inl (http_fail 400 ''INVALID_MACHINE_ID''))
       else if password = [] \<or> 16384 < length password then (d, Inl (http_fail 400 ''INVALID_SSH_PASSWORD''))
       else (d\<lparr>ds_passwords := (ds_passwords d)(machine_id \<mapsto> password)\<rparr>, Inr 204))) d"

end
