(* ===== verification/Daemon_Create.thy ===== *)
theory Daemon_Create
  imports Daemon_Server
begin

text \<open>
  Creating a session and restoring a saved one (\<open>create_session\<close> and \<open>reuse_expected_session\<close> in
  \<open>cc-panes-daemon/src/server.rs\<close>), and the sockets. A creation is a task with phases: it
  prepares its request, waits for the lock of the saved session it restores, asks for a live
  replacement, lets the backend prepare the terminal, publishes it or is cancelled by its
  deadline, and answers. The two parts under \<open>session_visibility\<close> are one step each.
\<close>

section \<open>The request\<close>

record create_body =
  cb_launch_id :: "string option"
  cb_project_path :: "string option"
  cb_cwd :: "string option"
  cb_launch_cwd :: "string option"
  cb_cols :: "nat option"
  cb_rows :: "nat option"
  cb_workspace_path :: "string option"
  cb_origin_layout_id :: "string option"
  cb_origin_tab_id :: "string option"
  cb_origin_terminal_pane_id :: "string option"
  cb_expected_saved_session_id :: "string option"
  cb_launch_claude :: bool
  cb_cli_tool :: cli_tool
  cb_resume_id :: "string option"
  cb_ssh :: "ssh_info option"
  cb_wsl :: "wsl_info option"

text \<open>
  What differs between hosts and runs: the working directory of the daemon, the home directory,
  whether the host is WSL, and \<open>dunce\<close>.
\<close>

record host =
  ho_default_cwd :: string
  ho_home :: "string option"
  ho_wsl :: bool
  ho_dunce :: "string \<Rightarrow> string"

definition body_runtime_kind :: "create_body \<Rightarrow> string" where
  "body_runtime_kind b =
    (if cb_ssh b \<noteq> None then ''ssh'' else if cb_wsl b \<noteq> None then ''wsl'' else ''local'')"

definition body_project_path :: "host \<Rightarrow> create_body \<Rightarrow> string" where
  "body_project_path ho b = or_else (or_option (cb_project_path b) (cb_cwd b)) (ho_default_cwd ho)"

text \<open>\<open>anchors\<close> are the tab and pane ids minted for a request that names none.\<close>

definition core_request :: "host \<Rightarrow> string \<times> string \<Rightarrow> create_body \<Rightarrow> session_request" where
  "core_request ho anchors b =
    normalize_session_request_for_host (ho_home ho)
      \<lparr>sr_launch_id = cb_launch_id b, sr_project_path = body_project_path ho b,
       sr_launch_cwd = cb_launch_cwd b, sr_cols = or_else (cb_cols b) 120, sr_rows = or_else (cb_rows b) 30,
       sr_workspace_path = cb_workspace_path b, sr_origin_layout_id = cb_origin_layout_id b,
       sr_origin_tab_id = or_option (cb_origin_tab_id b) (Some (fst anchors)),
       sr_origin_terminal_pane_id = or_option (cb_origin_terminal_pane_id b) (Some (snd anchors)),
       sr_expected_saved_session_id = cb_expected_saved_session_id b,
       sr_launch_claude = cb_launch_claude b, sr_cli_tool = cb_cli_tool b,
       sr_resume_id = cb_resume_id b, sr_ssh = cb_ssh b, sr_wsl = cb_wsl b\<rparr>
      (ho_wsl ho)"

definition birth_record ::
    "host \<Rightarrow> string \<times> string \<Rightarrow> string \<Rightarrow> nat \<Rightarrow> string option \<Rightarrow> create_body \<Rightarrow> daemon \<Rightarrow> provenance" where
  "birth_record ho anchors nonce now_ms owner b d =
    \<lparr>pv_session_id = [], pv_daemon_generation = ds_started_at d, pv_birth_nonce = nonce,
     pv_origin_instance_id = owner, pv_origin_layout_id = cb_origin_layout_id b,
     pv_origin_tab_id = or_option (cb_origin_tab_id b) (Some (fst anchors)),
     pv_origin_terminal_pane_id = or_option (cb_origin_terminal_pane_id b) (Some (snd anchors)),
     pv_project_path = body_project_path ho b, pv_runtime_kind = body_runtime_kind b,
     pv_cli_tool = as_id (cb_cli_tool b), pv_resume_id = cb_resume_id b, pv_created_at_ms = now_ms\<rparr>"

section \<open>Restoring\<close>

definition normalized_resume_id :: "string option \<Rightarrow> string option" where
  "normalized_resume_id value =
    Option.bind value (\<lambda>v. if trim v \<noteq> [] \<and> trim v \<noteq> ''new'' then Some (trim v) else None)"

definition request_runtime_kind :: "session_request \<Rightarrow> string" where
  "request_runtime_kind r =
    (if sr_ssh r \<noteq> None then ''ssh'' else if sr_wsl r \<noteq> None then ''wsl'' else ''local'')"

definition restore_identity_matches :: "host \<Rightarrow> session_request \<Rightarrow> provenance \<Rightarrow> bool" where
  "restore_identity_matches ho r p \<longleftrightarrow>
    project_paths_equivalent (ho_dunce ho) (sr_project_path r) (pv_project_path p)
    \<and> request_runtime_kind r = pv_runtime_kind p
    \<and> as_id (effective_cli_tool r) = pv_cli_tool p
    \<and> normalized_resume_id (sr_resume_id r) = normalized_resume_id (pv_resume_id p)"

definition status_alive :: "session_status option \<Rightarrow> bool" where
  "status_alive st \<longleftrightarrow> (case st of Some s \<Rightarrow> s \<noteq> Exited | None \<Rightarrow> False)"

text \<open>The live session a restore request may reuse: the saved one itself, or its replacement.\<close>

definition expected_session ::
    "statuses \<Rightarrow> string \<Rightarrow> daemon \<Rightarrow> daemon \<times> (http_error + string option)" where
  "expected_session status expected d =
    (case status expected of
       Inl _ \<Rightarrow> (d, Inl internal_error)
     | Inr direct \<Rightarrow>
         if status_alive direct then (d, Inr (Some expected))
         else
           (case ds_replacements d expected of
              None \<Rightarrow> (d, Inr None)
            | Some replacement \<Rightarrow>
                (case status replacement of
                   Inl _ \<Rightarrow> (d, Inl internal_error)
                 | Inr st \<Rightarrow>
                     if status_alive st then (d, Inr (Some replacement))
                     else (d\<lparr>ds_replacements := (ds_replacements d)(expected := None)\<rparr>, Inr None))))"

definition reuse_expected_session ::
    "host \<Rightarrow> statuses \<Rightarrow> instant \<Rightarrow> session_request \<Rightarrow> string option \<Rightarrow> daemon
      \<Rightarrow> daemon \<times> (http_error + string option)" where
  "reuse_expected_session ho status now r owner d =
    (case sr_expected_saved_session_id r of
       None \<Rightarrow> (d, Inr None)
     | Some expected \<Rightarrow>
         (case expected_session status expected d of
            (d, Inl e) \<Rightarrow> (d, Inl e)
          | (d, Inr None) \<Rightarrow> (d, Inr None)
          | (d, Inr (Some session_id)) \<Rightarrow>
              (case owner of
                 None \<Rightarrow> (d, Inl (http_fail 409 ''RESTORE_OWNER_MISSING''))
               | Some owner \<Rightarrow>
                   (case ds_provenance d session_id of
                      None \<Rightarrow> (d, Inl (http_fail 409 ''RESTORE_PROVENANCE_MISSING''))
                    | Some p \<Rightarrow>
                        if \<not> restore_identity_matches ho r p
                        then (d, Inl (http_fail 409 ''RESTORE_IDENTITY_MISMATCH''))
                        else
                          (case try_claim_session now session_id owner None d of
                             (d, Inl existing) \<Rightarrow> (d, Inl (http_fail 409 ''SESSION_CLAIMED''))
                           | (d, Inr _) \<Rightarrow> (touch_session now session_id d, Inr (Some session_id)))))))"

section \<open>Publishing\<close>

text \<open>\<open>register\<close> is what the backend's registration answers.\<close>

definition publish_session ::
    "instant \<Rightarrow> bool \<Rightarrow> string option \<Rightarrow> provenance \<Rightarrow> string option \<Rightarrow> string \<Rightarrow> string + unit
      \<Rightarrow> daemon \<Rightarrow> daemon \<times> (string + unit)" where
  "publish_session now cancelled owner birth expected session_id register d =
    (if cancelled then (d, Inl ''Terminal launch cancelled before publication'')
     else if \<not> may_write_session now session_id owner d then (d, Inl ''Session is already claimed'')
     else
       (case register of
          Inl e \<Rightarrow> (d, Inl e)
        | Inr _ \<Rightarrow>
            (case (case owner of
                     Some owner \<Rightarrow>
                       (case try_claim_session now session_id owner None d of
                          (d, Inl existing) \<Rightarrow> (d, Inl (''Session is already claimed by '' @ existing))
                        | (d, Inr _) \<Rightarrow> (d, Inr ()))
                   | None \<Rightarrow> (d, Inr ())) of
               (d, Inl e) \<Rightarrow> (d, Inl e)
             | (d, Inr _) \<Rightarrow>
                 (touch_session now session_id
                    (d\<lparr>ds_provenance := (ds_provenance d)(session_id \<mapsto> birth\<lparr>pv_session_id := session_id\<rparr>),
                       ds_replacements :=
                         (case expected of
                            Some e \<Rightarrow> (ds_replacements d)(e \<mapsto> session_id)
                          | None \<Rightarrow> ds_replacements d)\<rparr>),
                  Inr ()))))"

end
