(* ===== verification/Daemon_Sockets.thy ===== *)
theory Daemon_Sockets
  imports Daemon_Create
begin

text \<open>
  The sockets of the daemon: one per viewed session (\<open>handle_ws\<close>) and one per client for control
  (\<open>handle_control_ws\<close>), and the list of everything that can happen to the daemon. A receiver of the emitter is named by a number the caller chooses.
\<close>

section \<open>Session sockets\<close>

definition ws_authorized :: "string option \<Rightarrow> daemon \<Rightarrow> http_error + unit" where
  "ws_authorized token d = (if token = Some (ds_token d) then Inr () else Inl (http_fail 401 ''UNAUTHORIZED''))"

definition ws_open ::
    "instant \<Rightarrow> nat \<Rightarrow> string option \<Rightarrow> string \<Rightarrow> string option \<Rightarrow> daemon \<Rightarrow> daemon \<times> (http_error + unit)" where
  "ws_open now n token session_id caller d =
    guarded (ws_authorized token d) (\<lambda>d.
      (let d = touch_session now session_id d
       in (d\<lparr>ds_emitter := subscribe_with_connection n session_id caller (ds_emitter d)\<rparr>, Inr ()))) d"

text \<open>A text message is what \<open>serde_json\<close> reads from it.\<close>

datatype ws_in = WsText "json option" | WsBinary string | WsOther

definition ws_input_data :: "ws_in \<Rightarrow> string option" where
  "ws_input_data m =
    (case m of
       WsText v \<Rightarrow>
         Option.bind v (\<lambda>value.
           if Option.bind (json_get value ''type'') json_as_str = Some ''input''
           then Option.bind (json_get value ''data'') json_as_str else None)
     | WsBinary bytes \<Rightarrow> from_utf8 bytes
     | WsOther \<Rightarrow> None)"

definition ws_input :: "instant \<Rightarrow> string \<Rightarrow> string option \<Rightarrow> ws_in \<Rightarrow> daemon \<Rightarrow> daemon" where
  "ws_input now session_id caller m d =
    (case ws_input_data m of
       None \<Rightarrow> d
     | Some data \<Rightarrow>
         if \<not> may_write_session now session_id caller d then d
         else backend (BkWrite session_id data) (touch_session now session_id d))"

definition ws_close :: "nat \<Rightarrow> string \<Rightarrow> daemon \<Rightarrow> daemon" where
  "ws_close n session_id d =
    d\<lparr>ds_emitter := cleanup_session session_id
        (ws_step (ds_emitter d) (CloseReceiver n))\<rparr>"

section \<open>Control sockets\<close>

datatype control_in =
    HiddenSessions "string list"
  | OutputAck "(string \<times> nat) list"
  | IdentityAck "(string \<times> string) list"
  | SharedMcpUrls "(string \<times> string) list"
  | UnknownIn

definition control_open :: "nat \<Rightarrow> string option \<Rightarrow> bool \<Rightarrow> daemon \<Rightarrow> daemon \<times> (http_error + unit)" where
  "control_open n token is_desktop d =
    guarded (ws_authorized token d) (\<lambda>d.
      (d\<lparr>ds_desktop_clients := ds_desktop_clients d + (if is_desktop then 1 else 0),
         ds_emitter := subscribe_control n (ds_emitter d)\<rparr>, Inr ())) d"

definition control_message :: "string \<Rightarrow> bool \<Rightarrow> control_in \<Rightarrow> daemon \<Rightarrow> daemon" where
  "control_message connection_id is_desktop m d =
    (case m of
       HiddenSessions sessions \<Rightarrow> d\<lparr>ds_emitter := set_hidden_sessions connection_id sessions (ds_emitter d)\<rparr>
     | IdentityAck keys \<Rightarrow> d\<lparr>ds_emitter := ack_identity_events keys (ds_emitter d)\<rparr>
     | OutputAck sessions \<Rightarrow> foldl (\<lambda>d (s, end_seq). backend (BkAckOutput s end_seq) d) d sessions
     | SharedMcpUrls servers \<Rightarrow> if is_desktop then backend (BkSharedMcpUrls (Some servers)) d else d
     | UnknownIn \<Rightarrow> d)"

definition control_close :: "nat \<Rightarrow> string \<Rightarrow> bool \<Rightarrow> daemon \<Rightarrow> daemon" where
  "control_close n connection_id is_desktop d =
    (let d = d\<lparr>ds_emitter := clear_connection_hidden connection_id (ds_emitter d)\<rparr>;
         d = (if is_desktop then backend (BkSharedMcpUrls None) d else d);
         d = d\<lparr>ds_emitter := ws_step (ds_emitter d) (CloseReceiver n)\<rparr>
     in d\<lparr>ds_desktop_clients := ds_desktop_clients d - (if is_desktop then 1 else 0)\<rparr>)"

section \<open>Everything that happens to the daemon\<close>

datatype daemon_op =
    DWrite headers string string "string option"
  | DSubmit headers string string
  | DResize headers string nat nat
  | DCheckpoint headers string checkpoint
  | DKill headers string "string option"
  | DKillEnd string "app_error + unit"
  | DClaim headers string "string option" "nat option"
  | DRelease headers string "string option"
  | DListClaims headers
  | DAdopt "app_error + (string \<times> session_status) list" nat headers
  | DRead headers string
  | DHookStatus headers string session_status
  | DCancelLaunch headers string
  | DShutdown headers
  | DPassword headers string string
  | DWsOpen nat "string option" string "string option"
  | DWsInput string "string option" ws_in
  | DWsClose nat string
  | DControlOpen nat "string option" bool
  | DControlMessage string bool control_in
  | DControlClose nat string bool
  | DForget string
  | DEmit string json
  | DReuse host session_request "string option"
  | DPublish bool "string option" provenance "string option" string "string + unit"

text \<open>
  \<open>DForget\<close> is the teardown of a session by the reaper, \<open>DEmit\<close> an event of the backend, \<open>DReuse\<close>
  and \<open>DPublish\<close> are the two fenced parts of a creation.
\<close>

fun daemon_do :: "statuses \<Rightarrow> instant \<Rightarrow> daemon_op \<Rightarrow> daemon \<Rightarrow> daemon" where
  "daemon_do status now (DWrite h s data source) d = fst (write_session now h s data source d)"
| "daemon_do status now (DSubmit h s body) d = fst (submit_session now h s body d)"
| "daemon_do status now (DResize h s cols rows) d = fst (resize_session now h s cols rows d)"
| "daemon_do status now (DCheckpoint h s cp) d = fst (upload_session_checkpoint (\<lambda>_ _. Inr (Accepted 0)) now h s cp d)"
| "daemon_do status now (DKill h s reason) d = fst (kill_session_begin now h s reason d)"
| "daemon_do status now (DKillEnd s answer) d = fst (kill_session_end s answer d)"
| "daemon_do status now (DClaim h s inst ttl) d = fst (claim_session status now h s inst ttl d)"
| "daemon_do status now (DRelease h s inst) d = fst (release_claim now h s inst d)"
| "daemon_do status now (DListClaims h) d = fst (list_session_claims now h d)"
| "daemon_do status now (DAdopt all_status now_ms h) d = fst (get_adoption_snapshot all_status now now_ms h d)"
| "daemon_do status now (DRead h s) d = fst (get_session_status status now h s d)"
| "daemon_do status now (DHookStatus h s st) d = fst (hook_status (Inr ()) h s st d)"
| "daemon_do status now (DCancelLaunch h l) d = fst (cancel_launch (Inr ()) h l d)"
| "daemon_do status now (DShutdown h) d = fst (shutdown h d)"
| "daemon_do status now (DPassword h m p) d = fst (set_temporary_ssh_password h m p d)"
| "daemon_do status now (DWsOpen n token s caller) d = fst (ws_open now n token s caller d)"
| "daemon_do status now (DWsInput s caller m) d = ws_input now s caller m d"
| "daemon_do status now (DWsClose n s) d = ws_close n s d"
| "daemon_do status now (DControlOpen n token desk) d = fst (control_open n token desk d)"
| "daemon_do status now (DControlMessage c desk m) d = control_message c desk m d"
| "daemon_do status now (DControlClose n c desk) d = control_close n c desk d"
| "daemon_do status now (DForget s) d = remove_session_activity s d"
| "daemon_do status now (DEmit event payload) d = d\<lparr>ds_emitter := fst (ws_emit event payload (ds_emitter d))\<rparr>"
| "daemon_do status now (DReuse ho r owner) d = fst (reuse_expected_session ho status now r owner d)"
| "daemon_do status now (DPublish cancelled owner birth expected s register) d =
    fst (publish_session now cancelled owner birth expected s register d)"

end
