(* ===== verification/Lease_Props.thy ===== *)
theory Lease_Props
  imports Daemon_Sockets
begin

text \<open>
  What a lease on a session is worth: while it lasts and its owner does not give it up, the calls
  that reach the terminal are the owner's, all of them and in their order, whatever every other
  client, socket and creation does.
\<close>

section \<open>What the operations leave alone\<close>

named_theorems daemon_simps

lemma backend_fields [daemon_simps]:
  "ds_token (backend c d) = ds_token d" "ds_claims (backend c d) = ds_claims d"
  "ds_calls (backend c d) = ds_calls d @ [c]" "ds_replacements (backend c d) = ds_replacements d"
  "ds_provenance (backend c d) = ds_provenance d"
  by (simp_all add: backend_def)

lemma touch_fields [daemon_simps]:
  "ds_token (touch_session now s d) = ds_token d" "ds_claims (touch_session now s d) = ds_claims d"
  "ds_calls (touch_session now s d) = ds_calls d"
  "ds_replacements (touch_session now s d) = ds_replacements d"
  "ds_provenance (touch_session now s d) = ds_provenance d"
  by (simp_all add: touch_session_def)

lemma remove_activity_fields [daemon_simps]:
  "ds_token (remove_session_activity s d) = ds_token d"
  "ds_claims (remove_session_activity s d) = (ds_claims d)(s := None)"
  "ds_calls (remove_session_activity s d) = ds_calls d"
  by (simp_all add: remove_session_activity_def forget_session_claim_def Let_def)

lemma retain_fields [daemon_simps]:
  "ds_token (retain_claims P d) = ds_token d" "ds_calls (retain_claims P d) = ds_calls d"
  "ds_replacements (retain_claims P d) = ds_replacements d"
  "ds_claims (retain_claims P d) s =
    (case ds_claims d s of Some c \<Rightarrow> if P s c then Some c else None | None \<Rightarrow> None)"
  by (simp_all add: retain_claims_def)

lemma prune_fields [daemon_simps]:
  "ds_token (prune_expired_claims now d) = ds_token d" "ds_calls (prune_expired_claims now d) = ds_calls d"
  "ds_replacements (prune_expired_claims now d) = ds_replacements d"
  "ds_claims (prune_expired_claims now d) s =
    (case ds_claims d s of Some c \<Rightarrow> if is_live c now then Some c else None | None \<Rightarrow> None)"
  by (simp_all add: prune_expired_claims_def daemon_simps)

lemma claim_fields [daemon_simps]:
  "ds_token (fst (try_claim_session now s p ttl d)) = ds_token d"
  "ds_calls (fst (try_claim_session now s p ttl d)) = ds_calls d"
  "ds_replacements (fst (try_claim_session now s p ttl d)) = ds_replacements d"
  "ds_provenance (fst (try_claim_session now s p ttl d)) = ds_provenance d"
  "s' \<noteq> s \<Longrightarrow> ds_claims (fst (try_claim_session now s p ttl d)) s' = ds_claims d s'"
  by (auto simp: try_claim_session_def Let_def split: option.splits)

lemma expected_fields [daemon_simps]:
  "ds_token (fst (expected_session st e d)) = ds_token d"
  "ds_claims (fst (expected_session st e d)) = ds_claims d"
  "ds_calls (fst (expected_session st e d)) = ds_calls d"
  "ds_provenance (fst (expected_session st e d)) = ds_provenance d"
  by (auto simp: expected_session_def split: sum.splits option.splits)

section \<open>Leases in force\<close>

definition leased :: "string \<Rightarrow> string \<Rightarrow> instant \<Rightarrow> daemon \<Rightarrow> bool" where
  "leased s p T d \<longleftrightarrow> (\<exists>c. ds_claims d s = Some c \<and> cl_owner c = p \<and> T \<le> cl_expires_at c)"

lemma leased_cong: "ds_claims d' s = ds_claims d s \<Longrightarrow> leased s p T d' = leased s p T d"
  by (simp add: leased_def)

lemma leased_owner:
  assumes "leased s p T d" and "now < T"
  shows "session_claim_owner now s d = Some p"
  using assms by (auto simp: leased_def session_claim_owner_def is_live_def)

lemma leased_may_write:
  assumes "leased s p T d" and "now < T"
  shows "may_write_session now s caller d \<longleftrightarrow> caller = Some p"
  using assms by (simp add: may_write_session_def leased_owner)

lemma leased_prune:
  assumes "leased s p T d" and "now < T"
  shows "leased s p T (prune_expired_claims now d)"
  using assms by (auto simp: leased_def daemon_simps is_live_def)

text \<open>The time a claim without a lifetime, or with one, runs at least.\<close>

abbreviation claim_end :: "instant \<Rightarrow> nat option \<Rightarrow> instant" where
  "claim_end now ttl \<equiv>
    now + from_millis (clamp CLAIM_TTL_MIN_MS CLAIM_TTL_MAX_MS (or_else ttl CLAIM_TTL_DEFAULT_MS))"

lemma leased_claim:
  assumes "leased s p T d" and "now < T" and "s' = s \<and> q = p \<longrightarrow> T \<le> claim_end now ttl"
  shows "leased s p T (fst (try_claim_session now s' q ttl d))"
proof (cases "s' = s")
  case True
  then show ?thesis using assms
    by (auto simp: leased_def try_claim_session_def Let_def is_live_def split: if_splits)
next
  case False
  then show ?thesis using assms(1) by (simp add: leased_def daemon_simps)
qed

section \<open>Runs under a lease\<close>

fun session_call :: "string \<Rightarrow> backend_call \<Rightarrow> bool" where
  "session_call s (BkWrite s' _) = (s' = s)"
| "session_call s (BkWriteReply s' _) = (s' = s)"
| "session_call s (BkSubmit s' _) = (s' = s)"
| "session_call s (BkResize s' _ _) = (s' = s)"
| "session_call s (BkKill s' _) = (s' = s)"
| "session_call s (BkStoreCheckpoint s' _) = (s' = s)"
| "session_call s _ = False"

type_synonym daemon_step = "statuses \<times> instant \<times> daemon_op"

definition daemon_run :: "daemon_step list \<Rightarrow> daemon \<Rightarrow> daemon" where
  "daemon_run steps d = foldl (\<lambda>d (status, now, op). daemon_do status now op d) d steps"

definition sent_by :: "string \<Rightarrow> string \<Rightarrow> headers \<Rightarrow> bool" where
  "sent_by token p h \<longleftrightarrow> hd_authorization h = Some (''Bearer '' @ token) \<and> caller_instance h = Some p"

text \<open>The calls on session \<open>s\<close> that client \<open>p\<close> asks for.\<close>

fun requested :: "string \<Rightarrow> string \<Rightarrow> string \<Rightarrow> daemon_op \<Rightarrow> backend_call list" where
  "requested token s p (DWrite h s' data source) =
    (if s' = s \<and> sent_by token p h
     then [if source = Some ''system'' then BkWriteReply s data else BkWrite s data] else [])"
| "requested token s p (DSubmit h s' body) = (if s' = s \<and> sent_by token p h then [BkSubmit s body] else [])"
| "requested token s p (DResize h s' cols rows) =
    (if s' = s \<and> sent_by token p h then [BkResize s cols rows] else [])"
| "requested token s p (DCheckpoint h s' cp) =
    (if s' = s \<and> sent_by token p h then [BkStoreCheckpoint s cp] else [])"
| "requested token s p (DKill h s' reason) =
    (if s' = s \<and> sent_by token p h then [BkKill s (kill_reason_parse reason)] else [])"
| "requested token s p (DWsInput s' caller m) =
    (if s' = s \<and> caller = Some p
     then (case ws_input_data m of Some data \<Rightarrow> [BkWrite s data] | None \<Rightarrow> []) else [])"
| "requested token s p _ = []"

text \<open>
  What may happen before \<open>T\<close> for the lease of \<open>p\<close> on \<open>s\<close> to last: \<open>p\<close> does not release it and
  does not renew it for less, the session is not torn down, and a snapshot of the backend lists
  it as live.
\<close>

fun keeps :: "string \<Rightarrow> string \<Rightarrow> instant \<Rightarrow> instant \<Rightarrow> daemon_op \<Rightarrow> bool" where
  "keeps s p T now (DRelease h s' inst) = (s' = s \<longrightarrow> or_else (or_option inst (caller_instance h)) [] \<noteq> p)"
| "keeps s p T now (DClaim h s' inst ttl) =
    (s' = s \<and> or_option inst (caller_instance h) = Some p \<longrightarrow> T \<le> claim_end now ttl)"
| "keeps s p T now (DKillEnd s' answer) = (s' \<noteq> s)"
| "keeps s p T now (DForget s') = (s' \<noteq> s)"
| "keeps s p T now (DAdopt all_status now_ms h) =
    (case all_status of Inl _ \<Rightarrow> True | Inr l \<Rightarrow> \<exists>st. (s, st) \<in> set l \<and> \<not> is_terminal st)"
| "keeps s p T now (DReuse ho r owner) = (owner = Some p \<longrightarrow> T \<le> claim_end now None)"
| "keeps s p T now (DPublish cancelled owner birth expected s' register) =
    (s' = s \<and> owner = Some p \<longrightarrow> T \<le> claim_end now None)"
| "keeps s p T now _ = True"

section \<open>One step under a lease\<close>

lemma session_calls_snoc: "filter (session_call s) (l @ [c]) = filter (session_call s) l @ (if session_call s c then [c] else [])"
  by simp

lemmas forward_simps = forward_def guarded_def authorize_def ensure_may_write_def

lemma forward_fields:
  "ds_token (fst (forward now s' h c d)) = ds_token d"
  "ds_claims (fst (forward now s' h c d)) = ds_claims d"
  by (auto simp: forward_simps daemon_simps split: sum.splits)

lemma forward_calls:
  "ds_calls (fst (forward now s' h c d)) = ds_calls d @
    (if hd_authorization h = Some (''Bearer '' @ ds_token d) \<and> may_write_session now s' (caller_instance h) d
     then [c] else [])"
  by (auto simp: forward_simps daemon_simps split: sum.splits)

lemma forward_leased_calls:
  assumes "leased s p T d" and "now < T" and "session_call s c \<longleftrightarrow> s' = s"
  shows "filter (session_call s) (ds_calls (fst (forward now s' h c d)))
    = filter (session_call s) (ds_calls d) @ (if s' = s \<and> sent_by (ds_token d) p h then [c] else [])"
  using assms by (auto simp: forward_calls leased_may_write sent_by_def)

lemma reuse_token_calls [daemon_simps]:
  "ds_token (fst (reuse_expected_session ho st now r owner d)) = ds_token d"
  "ds_calls (fst (reuse_expected_session ho st now r owner d)) = ds_calls d"
proof -
  have e: "ds_token d' = ds_token d \<and> ds_calls d' = ds_calls d" if "expected_session st e d = (d', x)" for e d' x
    using expected_fields(1,3) [of st e d] that by simp
  have c: "ds_token d'' = ds_token d' \<and> ds_calls d'' = ds_calls d'"
    if "try_claim_session now s w None d' = (d'', x)" for s w d' d'' x
    using claim_fields(1,2) [of now s w None d'] that by simp
  show "ds_token (fst (reuse_expected_session ho st now r owner d)) = ds_token d"
    "ds_calls (fst (reuse_expected_session ho st now r owner d)) = ds_calls d"
    by (auto simp: reuse_expected_session_def daemon_simps dest!: e c
        split: option.splits prod.splits sum.splits)
qed

lemma leased_reuse:
  assumes "leased s p T d" and "now < T" and "owner = Some p \<longrightarrow> T \<le> claim_end now None"
  shows "leased s p T (fst (reuse_expected_session ho st now r owner d))"
proof -
  have e: "leased s p T d'" if "expected_session st e d = (d', x)" for e d' x
    using expected_fields(2) [of st e d] that assms(1) by (simp add: leased_def)
  have c: "leased s p T d''" if "leased s p T d'" "try_claim_session now s' w None d' = (d'', x)" "owner = Some w"
    for s' w d' d'' x
    using leased_claim [OF that(1) assms(2), of s' w None] that(2,3) assms(3) by simp
  show ?thesis using assms(1)
    by (auto simp: reuse_expected_session_def leased_def [of _ _ _ "touch_session _ _ _"] daemon_simps
        leased_def [symmetric]
        dest: e c split: option.splits prod.splits sum.splits)
qed

lemma publish_token_calls [daemon_simps]:
  "ds_token (fst (publish_session now cancelled owner birth expected s' register d)) = ds_token d"
  "ds_calls (fst (publish_session now cancelled owner birth expected s' register d)) = ds_calls d"
proof -
  have c: "ds_token d'' = ds_token d' \<and> ds_calls d'' = ds_calls d'"
    if "try_claim_session now s w None d' = (d'', x)" for s w d' d'' x
    using claim_fields(1,2) [of now s w None d'] that by simp
  show "ds_token (fst (publish_session now cancelled owner birth expected s' register d)) = ds_token d"
    "ds_calls (fst (publish_session now cancelled owner birth expected s' register d)) = ds_calls d"
    by (auto simp: publish_session_def daemon_simps dest!: c split: option.splits prod.splits sum.splits)
qed

lemma leased_publish:
  assumes "leased s p T d" and "now < T" and "s' = s \<and> owner = Some p \<longrightarrow> T \<le> claim_end now None"
  shows "leased s p T (fst (publish_session now cancelled owner birth expected s' register d))"
proof -
  have c: "leased s p T d''" if "try_claim_session now s' w None d = (d'', x)" "owner = Some w" for w d'' x
    using leased_claim [OF assms(1,2), of s' w None] that assms(3) by simp
  show ?thesis using assms(1)
    by (auto simp: publish_session_def leased_def [of _ _ _ "touch_session _ _ _"] daemon_simps
        leased_def [symmetric] dest: c split: option.splits prod.splits sum.splits)
qed

lemma upload_fst [daemon_simps]:
  "fst (upload_session_checkpoint answer now h s cp d) = fst (forward now s h (BkStoreCheckpoint s cp) d)"
  by (auto simp: upload_session_checkpoint_def split: prod.splits sum.splits)

lemmas small_routes = kill_session_begin_def kill_session_end_def list_session_claims_def
  get_adoption_snapshot_def get_session_status_def read_session_def hook_status_def cancel_launch_def
  shutdown_def set_temporary_ssh_password_def guarded_def authorize_def ws_open_def ws_authorized_def
  ws_close_def control_open_def control_message_def control_close_def

lemma acks_fields [daemon_simps]:
  "ds_token (foldl (\<lambda>d (s, n). backend (BkAckOutput s n) d) d l) = ds_token d"
  "ds_claims (foldl (\<lambda>d (s, n). backend (BkAckOutput s n) d) d l) = ds_claims d"
  "ds_replacements (foldl (\<lambda>d (s, n). backend (BkAckOutput s n) d) d l) = ds_replacements d"
  "filter (session_call s') (ds_calls (foldl (\<lambda>d (s, n). backend (BkAckOutput s n) d) d l))
    = filter (session_call s') (ds_calls d)"
  by (induction l arbitrary: d) (auto simp: daemon_simps)

lemma claim_session_token_calls [daemon_simps]:
  "ds_token (fst (claim_session st now h s inst ttl d)) = ds_token d"
  "ds_calls (fst (claim_session st now h s inst ttl d)) = ds_calls d"
proof -
  have c: "ds_token d'' = ds_token d' \<and> ds_calls d'' = ds_calls d'"
    if "try_claim_session now s w ttl d' = (d'', x)" for w d' d'' x
    using claim_fields(1,2) [of now s w ttl d'] that by simp
  show "ds_token (fst (claim_session st now h s inst ttl d)) = ds_token d"
    "ds_calls (fst (claim_session st now h s inst ttl d)) = ds_calls d"
    by (auto simp: claim_session_def guarded_def authorize_def daemon_simps dest!: c
        split: option.splits prod.splits sum.splits)
qed

lemma release_token_calls [daemon_simps]:
  "ds_token (fst (release_session_claim now s w d)) = ds_token d"
  "ds_calls (fst (release_session_claim now s w d)) = ds_calls d"
  "ds_replacements (fst (release_session_claim now s w d)) = ds_replacements d"
  by (auto simp: release_session_claim_def split: option.splits)

lemma release_claim_fst [daemon_simps]:
  "fst (release_claim now h s inst d) =
    (if hd_authorization h = Some (''Bearer '' @ ds_token d)
     then fst (release_session_claim now s (or_else (or_option inst (caller_instance h)) []) d) else d)"
  by (auto simp: release_claim_def guarded_def authorize_def split: prod.splits bool.splits)

lemma daemon_do_token: "ds_token (daemon_do st now op d) = ds_token d"
  by (cases op) (auto simp: daemon_simps forward_fields write_session_def submit_session_def
      resize_session_def ws_input_def small_routes Let_def
      split: option.splits prod.splits sum.splits control_in.splits)

lemma daemon_do_calls:
  assumes "leased s p T d" and "now < T"
  shows "filter (session_call s) (ds_calls (daemon_do st now op d))
    = filter (session_call s) (ds_calls d) @ requested (ds_token d) s p op"
proof (cases op)
  case (DWrite h s' data source)
  then show ?thesis using forward_leased_calls [OF assms, of "if source = Some ''system'' then BkWriteReply s' data else BkWrite s' data" s' h]
    by (auto simp: write_session_def)
next
  case (DSubmit h s' body)
  then show ?thesis using forward_leased_calls [OF assms, of "BkSubmit s' body" s' h]
    by (auto simp: submit_session_def)
next
  case (DResize h s' cols rows)
  then show ?thesis using forward_leased_calls [OF assms, of "BkResize s' cols rows" s' h]
    by (auto simp: resize_session_def)
next
  case (DCheckpoint h s' cp)
  then show ?thesis using forward_leased_calls [OF assms, of "BkStoreCheckpoint s' cp" s' h]
    by (auto simp: daemon_simps)
next
  case (DKill h s' reason)
  then show ?thesis using assms
    by (auto simp: kill_session_begin_def guarded_def authorize_def ensure_may_write_def sent_by_def
        leased_may_write daemon_simps split: sum.splits)
next
  case (DWsInput s' caller m)
  then show ?thesis using assms
    by (auto simp: ws_input_def leased_may_write daemon_simps split: option.splits)
qed (auto simp: daemon_simps small_routes Let_def split: option.splits prod.splits sum.splits control_in.splits)

lemma leased_do:
  assumes "leased s p T d" and "now < T" and "keeps s p T now op"
  shows "leased s p T (daemon_do st now op d)"
proof (cases op)
  case (DClaim h s' inst ttl)
  have c: "leased s p T d'" if "try_claim_session now s' w ttl (prune_expired_claims now d) = (d', x)"
    "or_option inst (caller_instance h) = Some w" for w d' x
    using leased_claim [OF leased_prune [OF assms(1,2)] assms(2), of s' w ttl] that assms(3) DClaim by auto
  show ?thesis using assms(1) DClaim
    by (auto simp: claim_session_def guarded_def authorize_def
        leased_def [of _ _ _ "touch_session _ _ _"] daemon_simps leased_def [symmetric]
        dest: c split: option.splits prod.splits sum.splits)
next
  case (DRelease h s' inst)
  then show ?thesis using assms
    by (auto simp: leased_def daemon_simps release_session_claim_def is_live_def split: option.splits)
next
  case (DReuse ho r owner)
  then show ?thesis using leased_reuse [OF assms(1,2)] assms(3) by simp
next
  case (DPublish cancelled owner birth expected s' register)
  then show ?thesis using leased_publish [OF assms(1,2)] assms(3) by simp
next
  case (DAdopt all_status now_ms h)
  then show ?thesis using assms
    by (auto simp: leased_def daemon_simps get_adoption_snapshot_def guarded_def authorize_def
        is_live_def image_iff Let_def split: sum.splits)
next
  case (DListClaims h)
  then show ?thesis using assms leased_prune [OF assms(1,2)]
    by (auto simp: list_session_claims_def guarded_def authorize_def Let_def)
qed (use assms in \<open>auto simp: leased_def daemon_simps forward_fields write_session_def submit_session_def
      resize_session_def ws_input_def small_routes Let_def
      split: option.splits prod.splits sum.splits control_in.splits\<close>)

section \<open>The lease is exclusive\<close>


definition alice :: headers where
  "alice = \<lparr>hd_authorization = Some ''Bearer t'', hd_instance = Some ''a''\<rparr>"

definition bob :: headers where
  "bob = \<lparr>hd_authorization = Some ''Bearer t'', hd_instance = Some '' b ''\<rparr>"

definition alive :: statuses where
  "alive s = Inr (Some Idle)"

definition two_writers :: "daemon_step list" where
  "two_writers =
    [(alive, 5, DWrite alice ''s'' ''ls'' None),
     (alive, 6, DClaim bob ''s'' None None),
     (alive, 7, DSubmit bob ''s'' ''rm''),
     (alive, 8, DWsInput ''s'' None (WsBinary ''x'')),
     (alive, 9, DClaim alice ''s'' (Some ''a'') None),
     (alive, 9, DAdopt (Inr [(''s'', Idle)]) 0 bob),
     (alive, 9, DKill alice ''s'' None)]"

definition leased_daemon :: daemon where
  "leased_daemon = fst (try_claim_session 0 ''s'' ''a'' (Some 1) (daemon_new ''t'' 0 ws_new))"

lemma callers: "caller_instance alice = Some ''a''" "caller_instance bob = Some ''b''"
  by (code_simp, code_simp)


end
