(* ===== verification/Daemon_Runs.thy ===== *)
theory Daemon_Runs
  imports Lease_Props
begin

text \<open>
  Creations and restores running at the same time (\<open>create_session\<close> in
  \<open>cc-panes-daemon/src/server.rs\<close>). A creation is a handler that waits for the lock of the saved
  session it restores, asks for a live session to reuse, and starts a worker on a blocking thread;
  the worker prepares the terminal, publishes it under the fence and ends; the deadline of the
  handler cancels the publication and leaves a task that kills a late terminal. Every step of a
  handler, a worker, the backend or another client is one operation of a run, in any order.
\<close>

section \<open>The world\<close>

datatype handler = Locking | Asking | Running | Replied "http_error + string \<times> bool" | Gone

datatype worker = NotStarted | Preparing | Published string | Ended "app_error + string"

record creation =
  cr_request :: session_request
  cr_owner :: "string option"
  cr_birth :: "nat \<Rightarrow> provenance"
  cr_handler :: handler
  cr_worker :: worker
  cr_cancelled :: bool

text \<open>
  \<open>w_status\<close> is what the backend knows of a session, \<open>w_births\<close> lists the sessions published for
  a saved one, the newest first.
\<close>

record world =
  w_daemon :: daemon
  w_creations :: "creation list"
  w_status :: "string \<Rightarrow> session_status option"
  w_births :: "(string \<times> string) list"

definition cr_expected :: "creation \<Rightarrow> string option" where
  "cr_expected c = sr_expected_saved_session_id (cr_request c)"

text \<open>The lock of the saved session is held from the lock to the reply.\<close>

definition holds_lock :: "creation \<Rightarrow> bool" where
  "holds_lock c \<longleftrightarrow> cr_expected c \<noteq> None \<and> (cr_handler c = Asking \<or> cr_handler c = Running)"

definition lock_free :: "string option \<Rightarrow> creation list \<Rightarrow> bool" where
  "lock_free e cs \<longleftrightarrow> e = None \<or> (\<forall>c \<in> set cs. cr_expected c = e \<longrightarrow> \<not> holds_lock c)"

definition session_up :: "world \<Rightarrow> string \<Rightarrow> bool" where
  "session_up w s \<longleftrightarrow> status_alive (w_status w s)"

text \<open>The answers of the backend, which may fail for some sessions.\<close>

definition answers :: "string list \<Rightarrow> world \<Rightarrow> statuses" where
  "answers failing w s = (if s \<in> set failing then Inl (ErrMessage None ''backend'') else Inr (w_status w s))"

section \<open>Steps\<close>

datatype run_op =
    Start headers host "string \<times> string" string create_body
  | Lock nat
  | Ask nat instant host "string list"
  | Publish nat instant nat string "string + unit"
  | WorkerFails nat app_error
  | WorkerEnds nat
  | Answer nat
  | Timeout nat
  | LateKill nat
  | Disconnect nat
  | Status string "session_status option"
  | Other "string list" instant daemon_op

definition start_creation :: "headers \<Rightarrow> host \<Rightarrow> string \<times> string \<Rightarrow> string \<Rightarrow> create_body \<Rightarrow> daemon \<Rightarrow> creation" where
  "start_creation h ho anchors nonce b d =
    \<lparr>cr_request = core_request ho anchors b, cr_owner = caller_instance h,
     cr_birth = (\<lambda>now_ms. birth_record ho anchors nonce now_ms (caller_instance h) b d),
     cr_handler =
       (case authorize h d of
          Inl e \<Rightarrow> Replied (Inl e)
        | Inr _ \<Rightarrow>
            if cb_ssh b \<noteq> None \<and> cb_wsl b \<noteq> None then Replied (Inl (http_fail 400 ''INVALID_LAUNCH_OPTIONS''))
            else Locking),
     cr_worker = NotStarted, cr_cancelled = False\<rparr>"

definition fresh_id :: "string \<Rightarrow> world \<Rightarrow> bool" where
  "fresh_id s w \<longleftrightarrow>
    w_status w s = None \<and> (\<forall>(e, r) \<in> set (w_births w). e \<noteq> s \<and> r \<noteq> s)
    \<and> (\<forall>c \<in> set (w_creations w). cr_expected c \<noteq> Some s)"

definition with_creation :: "nat \<Rightarrow> (creation \<Rightarrow> world \<Rightarrow> world) \<Rightarrow> world \<Rightarrow> world" where
  "with_creation i f w = (if i < length (w_creations w) then f (w_creations w ! i) w else w)"

definition set_creation :: "nat \<Rightarrow> creation \<Rightarrow> world \<Rightarrow> world" where
  "set_creation i c w = w\<lparr>w_creations := (w_creations w)[i := c]\<rparr>"

definition lock_step :: "nat \<Rightarrow> creation \<Rightarrow> world \<Rightarrow> world" where
  "lock_step i c w =
    (if cr_handler c = Locking \<and> lock_free (cr_expected c) (w_creations w)
     then set_creation i (c\<lparr>cr_handler := Asking\<rparr>) w else w)"

definition ask_step :: "nat \<Rightarrow> instant \<Rightarrow> host \<Rightarrow> string list \<Rightarrow> creation \<Rightarrow> world \<Rightarrow> world" where
  "ask_step i now ho failing c w =
    (if cr_handler c \<noteq> Asking then w
     else
       (case reuse_expected_session ho (answers failing w) now (cr_request c) (cr_owner c) (w_daemon w) of
          (d, Inl e) \<Rightarrow> set_creation i (c\<lparr>cr_handler := Replied (Inl e)\<rparr>) (w\<lparr>w_daemon := d\<rparr>)
        | (d, Inr (Some s)) \<Rightarrow> set_creation i (c\<lparr>cr_handler := Replied (Inr (s, True))\<rparr>) (w\<lparr>w_daemon := d\<rparr>)
        | (d, Inr None) \<Rightarrow>
            set_creation i (c\<lparr>cr_handler := Running, cr_worker := Preparing\<rparr>) (w\<lparr>w_daemon := d\<rparr>)))"

definition publish_step ::
    "nat \<Rightarrow> instant \<Rightarrow> nat \<Rightarrow> string \<Rightarrow> string + unit \<Rightarrow> creation \<Rightarrow> world \<Rightarrow> world" where
  "publish_step i now now_ms s register c w =
    (if cr_worker c \<noteq> Preparing \<or> \<not> fresh_id s w then w
     else
       (case publish_session now (cr_cancelled c) (cr_owner c) (cr_birth c now_ms) (cr_expected c) s register
          (w_daemon w) of
          (d, Inl e) \<Rightarrow> set_creation i (c\<lparr>cr_worker := Ended (Inl (ErrMessage None e))\<rparr>) (w\<lparr>w_daemon := d\<rparr>)
        | (d, Inr _) \<Rightarrow>
            set_creation i (c\<lparr>cr_worker := Published s\<rparr>)
              (w\<lparr>w_daemon := d, w_status := (w_status w)(s \<mapsto> Initializing),
                 w_births := (case cr_expected c of Some e \<Rightarrow> [(e, s)] | None \<Rightarrow> []) @ w_births w\<rparr>)))"

definition worker_fails_step :: "nat \<Rightarrow> app_error \<Rightarrow> creation \<Rightarrow> world \<Rightarrow> world" where
  "worker_fails_step i e c w =
    (case cr_worker c of
       Preparing \<Rightarrow> set_creation i (c\<lparr>cr_worker := Ended (Inl e)\<rparr>) w
     | Published s \<Rightarrow> set_creation i (c\<lparr>cr_worker := Ended (Inl e)\<rparr>) w
     | _ \<Rightarrow> w)"

definition worker_ends_step :: "nat \<Rightarrow> creation \<Rightarrow> world \<Rightarrow> world" where
  "worker_ends_step i c w =
    (case cr_worker c of Published s \<Rightarrow> set_creation i (c\<lparr>cr_worker := Ended (Inr s)\<rparr>) w | _ \<Rightarrow> w)"

definition answer_step :: "nat \<Rightarrow> creation \<Rightarrow> world \<Rightarrow> world" where
  "answer_step i c w =
    (if cr_handler c \<noteq> Running then w
     else
       (case cr_worker c of
          Ended (Inl e) \<Rightarrow> set_creation i (c\<lparr>cr_handler := Replied (Inl (http_of_app_error e))\<rparr>) w
        | Ended (Inr s) \<Rightarrow> set_creation i (c\<lparr>cr_handler := Replied (Inr (s, False))\<rparr>) w
        | _ \<Rightarrow> w))"

text \<open>The deadline: publication is cancelled, and the launch too if it has an id.\<close>

definition timeout_step :: "nat \<Rightarrow> creation \<Rightarrow> world \<Rightarrow> world" where
  "timeout_step i c w =
    (if cr_handler c \<noteq> Running \<or> (\<exists>r. cr_worker c = Ended r) then w
     else
       set_creation i
         (c\<lparr>cr_handler := Replied (Inl (http_fail 504 ''LAUNCH_TIMEOUT'')), cr_cancelled := True\<rparr>)
         (case sr_launch_id (cr_request c) of
            Some l \<Rightarrow> w\<lparr>w_daemon := backend (BkCancelLaunch l) (w_daemon w)\<rparr> | None \<Rightarrow> w))"

definition late_kill_step :: "creation \<Rightarrow> world \<Rightarrow> world" where
  "late_kill_step c w =
    (case (cr_cancelled c, cr_worker c) of
       (True, Ended (Inr s)) \<Rightarrow>
         w\<lparr>w_daemon := backend (BkKill s LaunchTimeout) (w_daemon w), w_status := (w_status w)(s := None)\<rparr>
     | _ \<Rightarrow> w)"

text \<open>
  A client that goes away: the server drops the future of its handler, which gives the lock back
  and leaves the worker alone.
\<close>

definition disconnect_step :: "nat \<Rightarrow> creation \<Rightarrow> world \<Rightarrow> world" where
  "disconnect_step i c w = set_creation i (c\<lparr>cr_handler := Gone\<rparr>) w"

fun run_step :: "run_op \<Rightarrow> world \<Rightarrow> world" where
  "run_step (Start h ho anchors nonce b) w =
    w\<lparr>w_creations := w_creations w @ [start_creation h ho anchors nonce b (w_daemon w)]\<rparr>"
| "run_step (Lock i) w = with_creation i (lock_step i) w"
| "run_step (Ask i now ho failing) w = with_creation i (ask_step i now ho failing) w"
| "run_step (Publish i now now_ms s register) w = with_creation i (publish_step i now now_ms s register) w"
| "run_step (WorkerFails i e) w = with_creation i (worker_fails_step i e) w"
| "run_step (WorkerEnds i) w = with_creation i (worker_ends_step i) w"
| "run_step (Answer i) w = with_creation i (answer_step i) w"
| "run_step (Timeout i) w = with_creation i (timeout_step i) w"
| "run_step (LateKill i) w = with_creation i late_kill_step w"
| "run_step (Disconnect i) w = with_creation i (disconnect_step i) w"
| "run_step (Status s st) w =
    (if status_alive st \<and> \<not> session_up w s then w else w\<lparr>w_status := (w_status w)(s := st)\<rparr>)"
| "run_step (Other failing now op) w =
    (case op of
       DReuse _ _ _ \<Rightarrow> w
     | DPublish _ _ _ _ _ _ \<Rightarrow> w
     | _ \<Rightarrow> w\<lparr>w_daemon := daemon_do (answers failing w) now op (w_daemon w)\<rparr>)"

definition world_new :: "daemon \<Rightarrow> (string \<Rightarrow> session_status option) \<Rightarrow> world" where
  "world_new d status = \<lparr>w_daemon = d, w_creations = [], w_status = status, w_births = []\<rparr>"

definition run_world :: "run_op list \<Rightarrow> world \<Rightarrow> world" where
  "run_world ops w = foldl (\<lambda>w op. run_step op w) w ops"

text \<open>The live terminals of a saved session: itself, and what was published for it.\<close>

definition terminals_of :: "string \<Rightarrow> world \<Rightarrow> string list" where
  "terminals_of e w = filter (session_up w) (e # map snd (filter (\<lambda>(e', s). e' = e) (w_births w)))"

end
