(* ===== verification/Restore_Props.thy ===== *)
theory Restore_Props
  imports Daemon_Runs
begin

text \<open>
  Restoring a saved session from several clients at once: over any run of creations, deadlines,
  teardowns and other requests a saved session has one live terminal, as long as no teardown
  forgets a live replacement and no client goes away while its terminal is being prepared. The
  runs in which one of these happens, and two terminals live, are here too.
\<close>

section \<open>Teardowns and disconnects that do no harm\<close>

text \<open>
  A teardown forgets the replacements of a session. It is careful if it does not forget one that
  lives. A client that goes away is careful if its terminal is not being prepared at that time.
\<close>

definition forgets_no_live :: "string \<Rightarrow> world \<Rightarrow> bool" where
  "forgets_no_live s w \<longleftrightarrow> (\<forall>(e, r) \<in> set (w_births w). session_up w r \<longrightarrow> e \<noteq> s \<and> r \<noteq> s)"

fun careful_op :: "run_op \<Rightarrow> world \<Rightarrow> bool" where
  "careful_op (Other failing now (DKillEnd s (Inr _))) w = forgets_no_live s w"
| "careful_op (Other failing now (DForget s)) w = forgets_no_live s w"
| "careful_op (Disconnect i) w =
    (i < length (w_creations w) \<longrightarrow> cr_worker (w_creations w ! i) \<noteq> Preparing \<or> cr_cancelled (w_creations w ! i))"
| "careful_op _ w = True"

fun careful :: "run_op list \<Rightarrow> world \<Rightarrow> bool" where
  "careful [] w \<longleftrightarrow> True"
| "careful (op # ops) w \<longleftrightarrow> careful_op op w \<and> careful ops (run_step op w)"

section \<open>The invariant\<close>

definition publishing :: "creation \<Rightarrow> bool" where
  "publishing c \<longleftrightarrow> cr_worker c = Preparing \<and> \<not> cr_cancelled c"

definition births_known :: "world \<Rightarrow> bool" where
  "births_known w \<longleftrightarrow>
    (\<forall>(e, s) \<in> set (w_births w). \<not> session_up w e \<and> (session_up w s \<longrightarrow> ds_replacements (w_daemon w) e = Some s))"

definition nothing_up :: "string \<Rightarrow> world \<Rightarrow> bool" where
  "nothing_up e w \<longleftrightarrow> \<not> session_up w e \<and> (\<forall>(e', s) \<in> set (w_births w). e' = e \<longrightarrow> \<not> session_up w s)"

definition creation_ok :: "world \<Rightarrow> creation \<Rightarrow> bool" where
  "creation_ok w c \<longleftrightarrow>
    (publishing c \<longrightarrow> cr_handler c = Running \<and> (\<forall>e. cr_expected c = Some e \<longrightarrow> nothing_up e w))"

definition one_holder :: "creation list \<Rightarrow> bool" where
  "one_holder cs \<longleftrightarrow>
    (\<forall>i < length cs. \<forall>j < length cs. i \<noteq> j \<and> holds_lock (cs ! i) \<and> holds_lock (cs ! j)
      \<longrightarrow> cr_expected (cs ! i) \<noteq> cr_expected (cs ! j))"

definition world_inv :: "world \<Rightarrow> bool" where
  "world_inv w \<longleftrightarrow>
    births_known w \<and> one_holder (w_creations w) \<and> (\<forall>c \<in> set (w_creations w). creation_ok w c)
    \<and> distinct (map snd (w_births w))"

lemma set_creation_fields [daemon_simps]:
  "w_daemon (set_creation i c w) = w_daemon w" "w_status (set_creation i c w) = w_status w"
  "w_births (set_creation i c w) = w_births w" "w_creations (set_creation i c w) = (w_creations w)[i := c]"
  "session_up (set_creation i c w) s = session_up w s" "nothing_up e (set_creation i c w) = nothing_up e w"
  "creation_ok (set_creation i c w) = creation_ok w" "births_known (set_creation i c w) = births_known w"
  by (auto simp: set_creation_def session_up_def nothing_up_def creation_ok_def births_known_def fun_eq_iff)

lemma one_holder_update:
  assumes "one_holder cs" and "i < length cs" and "cr_expected c = cr_expected (cs ! i)"
    and "holds_lock c \<Longrightarrow> holds_lock (cs ! i)"
  shows "one_holder (cs[i := c])"
  using assms unfolding one_holder_def by (auto simp: nth_list_update)

lemma one_holder_lock:
  assumes "one_holder cs" and "i < length cs" and "cr_expected c = cr_expected (cs ! i)"
    and "lock_free (cr_expected c) cs"
  shows "one_holder (cs[i := c])"
  using assms unfolding one_holder_def lock_free_def
  by (auto simp: nth_list_update holds_lock_def dest: nth_mem)

lemma one_holder_new:
  assumes "one_holder cs" and "\<not> holds_lock c"
  shows "one_holder (cs @ [c])"
  using assms unfolding one_holder_def by (auto simp: nth_append less_Suc_eq)

text \<open>Changing one creation: what is to show of the new value.\<close>

lemma world_inv_set:
  assumes "world_inv w" and "i < length (w_creations w)" and "c = w_creations w ! i"
    and "cr_expected c' = cr_expected c"
    and "holds_lock c' \<Longrightarrow> holds_lock c" and "creation_ok w c'"
  shows "world_inv (set_creation i c' w)"
  using assms by (auto simp: world_inv_def daemon_simps intro!: one_holder_update dest!: set_update_subset_insert [THEN subsetD])

text \<open>Steps that start nothing: what was down stays down, and no replacement of a live session is lost.\<close>

lemma world_inv_weaken:
  assumes "world_inv w" and "w_creations w' = w_creations w" and "w_births w' = w_births w"
    and "\<And>s. session_up w' s \<Longrightarrow> session_up w s"
    and "\<And>e s. (e, s) \<in> set (w_births w) \<Longrightarrow> session_up w' s \<Longrightarrow> ds_replacements (w_daemon w) e = Some s
        \<Longrightarrow> ds_replacements (w_daemon w') e = Some s"
  shows "world_inv w'"
  using assms by (fastforce simp: world_inv_def births_known_def creation_ok_def nothing_up_def)

section \<open>The replacements of the daemon\<close>

lemma replacements_torn:
  "ds_replacements (remove_session_activity s d) e =
    (case ds_replacements d e of Some r \<Rightarrow> if e \<noteq> s \<and> r \<noteq> s then Some r else None | None \<Rightarrow> None)"
  by (simp add: remove_session_activity_def forget_session_claim_def Let_def)

lemma claim_session_replacements [daemon_simps]:
  "ds_replacements (fst (claim_session st now h s inst ttl d)) = ds_replacements d"
proof -
  have c: "ds_replacements d'' = ds_replacements d'"
    if "try_claim_session now s w ttl d' = (d'', x)" for w d' d'' x
    using claim_fields(3) [of now s w ttl d'] that by simp
  show ?thesis
    by (auto simp: claim_session_def guarded_def authorize_def daemon_simps dest!: c
        split: option.splits prod.splits sum.splits)
qed

lemma forward_replacements [daemon_simps]:
  "ds_replacements (fst (forward now s' h c d)) = ds_replacements d"
  by (auto simp: forward_simps daemon_simps split: sum.splits)

lemma other_replacements:
  assumes "ds_replacements d e = Some r" and "\<And>s x. op = DKillEnd s (Inr x) \<Longrightarrow> e \<noteq> s \<and> r \<noteq> s"
    and "\<And>s. op = DForget s \<Longrightarrow> e \<noteq> s \<and> r \<noteq> s"
    and "case op of DReuse _ _ _ \<Rightarrow> False | DPublish _ _ _ _ _ _ \<Rightarrow> False | _ \<Rightarrow> True"
  shows "ds_replacements (daemon_do st now op d) e = Some r"
  using assms
  by (cases op) (auto simp: daemon_simps replacements_torn write_session_def submit_session_def
      resize_session_def ws_input_def small_routes Let_def
      split: option.splits prod.splits sum.splits control_in.splits)

lemma reuse_replacements:
  assumes "reuse_expected_session ho (answers failing w) now r owner d = (d', x)"
    and "ds_replacements d e = Some s" and "session_up w s"
  shows "ds_replacements d' e = Some s"
proof -
  have e: "ds_replacements d1 e = Some s" if "expected_session (answers failing w) e1 d = (d1, y)" for e1 d1 y
    using that assms(2,3)
    by (auto simp: expected_session_def answers_def session_up_def split: if_splits option.splits sum.splits)
  have c: "ds_replacements d2 e = Some s"
    if "try_claim_session now s' ow None d1 = (d2, y)" "ds_replacements d1 e = Some s" for s' ow d1 d2 y
    using that claim_fields(3) [of now s' ow None d1] by simp
  show ?thesis using assms(1,2)
    by (auto simp: reuse_expected_session_def daemon_simps dest: e dest!: c
        split: option.splits prod.splits sum.splits if_splits)
qed

lemma reuse_none:
  assumes "reuse_expected_session ho (answers failing w) now r owner d = (d', Inr None)"
    and "sr_expected_saved_session_id r = Some e"
  shows "\<not> session_up w e" and "ds_replacements d' e = None"
  using assms
  by (auto simp: reuse_expected_session_def expected_session_def answers_def session_up_def
      split: option.splits prod.splits sum.splits if_splits)

text \<open>A publication that may write can claim: after the registration nothing fails any more.\<close>

lemma claim_allowed:
  assumes "may_write_session now s (Some ow) d"
  shows "\<exists>c. snd (try_claim_session now s ow ttl d) = Inr c"
  using assms
  by (auto simp: may_write_session_def session_claim_owner_def try_claim_session_def Let_def
      split: option.splits if_splits)

definition claimed_for :: "instant \<Rightarrow> string option \<Rightarrow> string \<Rightarrow> daemon \<Rightarrow> daemon" where
  "claimed_for now owner s d =
    (case owner of Some ow \<Rightarrow> fst (try_claim_session now s ow None d) | None \<Rightarrow> d)"

lemma claimed_fields [daemon_simps]:
  "ds_replacements (claimed_for now owner s d) = ds_replacements d"
  "ds_provenance (claimed_for now owner s d) = ds_provenance d"
  by (simp_all add: claimed_for_def daemon_simps split: option.split)

lemma publish_alt:
  "publish_session now cancelled owner birth expected s register d =
    (if cancelled then (d, Inl ''Terminal launch cancelled before publication'')
     else if \<not> may_write_session now s owner d then (d, Inl ''Session is already claimed'')
     else case register of Inl e \<Rightarrow> (d, Inl e)
       | Inr _ \<Rightarrow>
          (let d = claimed_for now owner s d
           in (touch_session now s
                 (d\<lparr>ds_provenance := (ds_provenance d)(s \<mapsto> birth\<lparr>pv_session_id := s\<rparr>),
                    ds_replacements := (case expected of Some e \<Rightarrow> (ds_replacements d)(e \<mapsto> s) | None \<Rightarrow> ds_replacements d)\<rparr>),
               Inr ())))"
proof (cases "may_write_session now s owner d \<and> owner \<noteq> None")
  case True
  then obtain ow where ow: "owner = Some ow" "may_write_session now s (Some ow) d" by auto
  from claim_allowed [OF this(2), of None] obtain c d' where "try_claim_session now s ow None d = (d', Inr c)"
    by (metis prod.collapse)
  then show ?thesis by (simp add: publish_session_def claimed_for_def ow Let_def split: sum.split)
next
  case False
  then show ?thesis by (cases owner) (auto simp: publish_session_def claimed_for_def Let_def split: sum.split)
qed

lemma publish_replacements:
  assumes "publish_session now cancelled owner birth expected s register d = (d', x)"
  shows "ds_replacements d' =
      (case x of Inl _ \<Rightarrow> ds_replacements d
       | Inr _ \<Rightarrow> (case expected of Some e \<Rightarrow> (ds_replacements d)(e \<mapsto> s) | None \<Rightarrow> ds_replacements d))"
    and "x = Inr u \<Longrightarrow> \<not> cancelled"
  using assms by (auto simp: publish_alt Let_def daemon_simps split: if_splits sum.splits option.splits)

section \<open>Every careful step keeps the invariant\<close>

lemma creation_mem: "i < length (w_creations w) \<Longrightarrow> w_creations w ! i \<in> set (w_creations w)"
  by simp

lemma inv_creation:
  assumes "world_inv w" and "i < length (w_creations w)"
  shows "creation_ok w (w_creations w ! i)"
  using assms by (simp add: world_inv_def)

lemma inv_with_creation:
  assumes "world_inv w"
    and "i < length (w_creations w) \<Longrightarrow> world_inv (f (w_creations w ! i) w)"
  shows "world_inv (with_creation i f w)"
  using assms by (simp add: with_creation_def)

lemma not_publishing: "\<not> publishing c \<Longrightarrow> creation_ok w c"
  by (simp add: creation_ok_def)

lemma nothing_up_expected:
  assumes "births_known w" and "\<not> session_up w e" and "ds_replacements (w_daemon w) e = None"
  shows "nothing_up e w"
  using assms by (force simp: nothing_up_def births_known_def)

lemma inv_daemon:
  assumes "world_inv w"
    and "\<And>e s. session_up w s \<Longrightarrow> ds_replacements (w_daemon w) e = Some s \<Longrightarrow> ds_replacements d e = Some s"
  shows "world_inv (w\<lparr>w_daemon := d\<rparr>)"
  by (rule world_inv_weaken [OF assms(1)]) (auto simp: session_up_def assms(2))

lemma inv_lock:
  assumes "world_inv w" and "i < length (w_creations w)"
  shows "world_inv (lock_step i (w_creations w ! i) w)"
proof -
  let ?c = "w_creations w ! i"
  have ok: "creation_ok w ?c" by (rule inv_creation [OF assms])
  have "\<not> publishing ?c" if "cr_handler ?c = Locking" using ok that by (simp add: creation_ok_def)
  then show ?thesis using assms
    by (auto simp: lock_step_def world_inv_def daemon_simps creation_ok_def publishing_def cr_expected_def
        intro!: one_holder_lock dest!: set_update_subset_insert [THEN subsetD])
qed

lemma inv_ask:
  assumes "world_inv w" and "i < length (w_creations w)"
  shows "world_inv (ask_step i now ho failing (w_creations w ! i) w)"
proof (cases "cr_handler (w_creations w ! i) = Asking")
  case True
  let ?c = "w_creations w ! i"
  obtain d x where r: "reuse_expected_session ho (answers failing w) now (cr_request ?c) (cr_owner ?c) (w_daemon w) = (d, x)"
    by (cases "reuse_expected_session ho (answers failing w) now (cr_request ?c) (cr_owner ?c) (w_daemon w)")
  let ?w = "w\<lparr>w_daemon := d\<rparr>"
  have w: "world_inv ?w"
    by (rule inv_daemon [OF assms(1)]) (rule reuse_replacements [OF r])
  have np: "\<not> publishing ?c" using inv_creation [OF assms] True by (auto simp: creation_ok_def)
  have up: "session_up ?w = session_up w" by (simp add: session_up_def fun_eq_iff)
  have set: "world_inv (set_creation i c' ?w)"
    if "cr_request c' = cr_request ?c" "creation_ok ?w c'" "holds_lock c' \<Longrightarrow> holds_lock ?c" for c'
    by (rule world_inv_set [OF w _ refl]) (use that assms(2) in \<open>auto simp: cr_expected_def\<close>)
  have none: "nothing_up e ?w" if "x = Inr None" "cr_expected ?c = Some e" for e
    by (rule nothing_up_expected)
      (use w that r reuse_none [of ho failing w now "cr_request ?c" "cr_owner ?c" "w_daemon w" d e] in
        \<open>auto simp: world_inv_def up cr_expected_def\<close>)
  show ?thesis using True np none
    by (auto simp: ask_step_def r holds_lock_def cr_expected_def creation_ok_def publishing_def
        split: sum.split option.split intro!: set)
qed (simp add: ask_step_def assms(1))

lemma one_holderD:
  assumes "one_holder cs" and "i < length cs" and "j < length cs" and "i \<noteq> j"
    and "holds_lock (cs ! i)" and "holds_lock (cs ! j)"
  shows "cr_expected (cs ! i) \<noteq> cr_expected (cs ! j)"
  using assms by (simp add: one_holder_def)

lemma births_distinct_fresh:
  assumes "fresh_id s w" and "distinct (map snd (w_births w))"
  shows "distinct (map snd ((case e of Some e \<Rightarrow> [(e, s)] | None \<Rightarrow> []) @ w_births w))"
  using assms by (auto simp: fresh_id_def split: option.split)

lemma inv_publish:
  assumes "world_inv w" and "i < length (w_creations w)"
  shows "world_inv (publish_step i now now_ms s register (w_creations w ! i) w)"
proof (cases "cr_worker (w_creations w ! i) = Preparing \<and> fresh_id s w")
  case True
  let ?c = "w_creations w ! i"
  obtain d x where r: "publish_session now (cr_cancelled ?c) (cr_owner ?c) (cr_birth ?c now_ms) (cr_expected ?c) s
      register (w_daemon w) = (d, x)"
    by (cases "publish_session now (cr_cancelled ?c) (cr_owner ?c) (cr_birth ?c now_ms) (cr_expected ?c) s
      register (w_daemon w)")
  note rep = publish_replacements [OF r]
  show ?thesis
  proof (cases x)
    case (Inl e)
    let ?w = "w\<lparr>w_daemon := d\<rparr>"
    have w: "world_inv ?w" by (rule inv_daemon [OF assms(1)]) (simp add: rep(1) Inl)
    have "world_inv (set_creation i (?c\<lparr>cr_worker := Ended (Inl (ErrMessage None e))\<rparr>) ?w)"
      by (rule world_inv_set [OF w _ refl])
        (use assms(2) in \<open>auto simp: cr_expected_def holds_lock_def creation_ok_def publishing_def\<close>)
    then show ?thesis using True by (simp add: publish_step_def r Inl)
  next
    case (Inr u)
    let ?b = "(case cr_expected ?c of Some e \<Rightarrow> [(e, s)] | None \<Rightarrow> []) @ w_births w"
    let ?w = "w\<lparr>w_daemon := d, w_status := (w_status w)(s \<mapsto> Initializing), w_births := ?b\<rparr>"
    have pub: "publishing ?c" using True rep(2) Inr by (simp add: publishing_def)
    then have ok: "cr_handler ?c = Running" "\<And>e. cr_expected ?c = Some e \<Longrightarrow> nothing_up e w"
      using inv_creation [OF assms] by (auto simp: creation_ok_def)
    have up: "session_up ?w r \<longleftrightarrow> r = s \<or> session_up w r" for r
      by (simp add: session_up_def status_alive_def)
    have fresh: "e' \<noteq> s" "r \<noteq> s" if "(e', r) \<in> set (w_births w)" for e' r
      using True that by (auto simp: fresh_id_def)
    have known: "births_known ?w"
      using assms(1) ok(2) fresh True
      by (fastforce simp: births_known_def world_inv_def up rep(1) Inr nothing_up_def fresh_id_def
          creation_mem [OF assms(2)] split: option.splits)
    have others: "creation_ok ?w c'" if "j < length (w_creations w)" "j \<noteq> i" "c' = w_creations w ! j" for j c'
    proof (unfold creation_ok_def, intro impI conjI allI)
      assume p: "publishing c'"
      have ok': "creation_ok w c'" using inv_creation [OF assms(1) that(1)] that(3) by simp
      show "cr_handler c' = Running" using ok' p by (simp add: creation_ok_def)
      fix e assume e: "cr_expected c' = Some e"
      have "e \<noteq> s" using True e that(1,3) by (auto simp: fresh_id_def)
      moreover have "cr_expected ?c \<noteq> Some e"
        using assms(1) that e ok(1) assms(2) \<open>cr_handler c' = Running\<close>
        one_holderD [of "w_creations w" i j] by (auto simp: world_inv_def holds_lock_def)
      ultimately show "nothing_up e ?w" using ok' p e fresh
        by (fastforce simp: creation_ok_def nothing_up_def up split: option.splits)
    qed
    have "one_holder ((w_creations w)[i := ?c\<lparr>cr_worker := Published s\<rparr>])"
      using assms by (auto simp: world_inv_def holds_lock_def cr_expected_def intro!: one_holder_update)
    moreover have "distinct (map snd ?b)"
      using births_distinct_fresh [of s w "cr_expected ?c"] True assms(1) by (simp add: world_inv_def)
    moreover have "creation_ok ?w c'" if in': "c' \<in> set ((w_creations w)[i := ?c\<lparr>cr_worker := Published s\<rparr>])" for c'
    proof -
      obtain j where j: "j < length (w_creations w)" "c' = ((w_creations w)[i := ?c\<lparr>cr_worker := Published s\<rparr>]) ! j"
        using in' by (auto simp: in_set_conv_nth)
      show ?thesis
      proof (cases "j = i")
        case True
        then show ?thesis using j by (intro not_publishing) (simp add: publishing_def)
      next
        case False
        then show ?thesis using others [OF j(1) False refl] j(2) by simp
      qed
    qed
    ultimately have "world_inv (set_creation i (?c\<lparr>cr_worker := Published s\<rparr>) ?w)"
      using known by (simp add: world_inv_def daemon_simps)
    then show ?thesis using True by (simp add: publish_step_def r Inr)
  qed
qed (simp add: publish_step_def assms(1))

lemma inv_start:
  assumes "world_inv w" and "\<not> holds_lock c" and "\<not> publishing c"
  shows "world_inv (w\<lparr>w_creations := w_creations w @ [c]\<rparr>)"
  using assms by (auto simp: world_inv_def births_known_def session_up_def creation_ok_def nothing_up_def
      intro: one_holder_new)

lemma inv_other:
  assumes "world_inv w" and "careful_op (Other failing now op) w"
  shows "world_inv (run_step (Other failing now op) w)"
proof (cases "case op of DReuse _ _ _ \<Rightarrow> False | DPublish _ _ _ _ _ _ \<Rightarrow> False | _ \<Rightarrow> True")
  case True
  have "world_inv (w\<lparr>w_daemon := daemon_do (answers failing w) now op (w_daemon w)\<rparr>)"
  proof (rule world_inv_weaken [OF assms(1)])
    fix e s
    assume es: "(e, s) \<in> set (w_births w)"
      "session_up (w\<lparr>w_daemon := daemon_do (answers failing w) now op (w_daemon w)\<rparr>) s"
      "ds_replacements (w_daemon w) e = Some s"
    then have "session_up w s" by (simp add: session_up_def)
    then have keep: "op = DKillEnd r (Inr u) \<Longrightarrow> e \<noteq> r \<and> s \<noteq> r" "op = DForget r \<Longrightarrow> e \<noteq> r \<and> s \<noteq> r" for r u
      using es(1) assms(2) by (auto simp: forgets_no_live_def)
    show "ds_replacements (w_daemon (w\<lparr>w_daemon := daemon_do (answers failing w) now op (w_daemon w)\<rparr>)) e = Some s"
      using other_replacements [OF es(3) keep True] by simp
  qed (auto simp: session_up_def)
  then show ?thesis using True by (simp split: daemon_op.splits)
next
  case False
  then show ?thesis using assms(1) by (auto split: daemon_op.splits)
qed

lemma inv_step:
  assumes "world_inv w" and "careful_op op w"
  shows "world_inv (run_step op w)"
proof (cases op)
  case (Start h ho anchors nonce b)
  then show ?thesis using assms(1)
    by (auto simp: start_creation_def holds_lock_def publishing_def intro!: inv_start split: sum.split)
next
  case (Lock i)
  then show ?thesis using assms(1) by (auto intro: inv_with_creation inv_lock)
next
  case (Ask i now ho failing)
  then show ?thesis using assms(1) by (auto intro: inv_with_creation inv_ask)
next
  case (Publish i now now_ms s register)
  then show ?thesis using assms(1) by (auto intro: inv_with_creation inv_publish)
next
  case (WorkerFails i e)
  then show ?thesis using assms(1)
    by (auto simp: worker_fails_step_def creation_ok_def publishing_def cr_expected_def holds_lock_def
        intro!: inv_with_creation world_inv_set split: worker.split)
next
  case (WorkerEnds i)
  then show ?thesis using assms(1)
    by (auto simp: worker_ends_step_def creation_ok_def publishing_def cr_expected_def holds_lock_def
        intro!: inv_with_creation world_inv_set split: worker.split)
next
  case (Answer i)
  then show ?thesis using assms(1)
    by (auto simp: answer_step_def creation_ok_def publishing_def cr_expected_def holds_lock_def
        intro!: inv_with_creation world_inv_set split: worker.split sum.split)
next
  case (Timeout i)
  have "world_inv (w\<lparr>w_daemon := backend c (w_daemon w)\<rparr>)" for c
    by (rule inv_daemon [OF assms(1)]) (simp add: daemon_simps)
  then show ?thesis using assms(1) Timeout
    by (auto simp: timeout_step_def creation_ok_def publishing_def cr_expected_def holds_lock_def
        intro!: inv_with_creation world_inv_set split: option.split)
next
  case (LateKill i)
  have "world_inv (w\<lparr>w_daemon := backend c (w_daemon w), w_status := (w_status w)(s := None)\<rparr>)" for c s
    by (rule world_inv_weaken [OF assms(1)]) (auto simp: session_up_def status_alive_def daemon_simps split: if_splits)
  then show ?thesis using assms(1) LateKill
    by (auto simp: late_kill_step_def intro!: inv_with_creation split: worker.split sum.split bool.split)
next
  case (Disconnect i)
  then show ?thesis using assms
    by (auto simp: disconnect_step_def creation_ok_def publishing_def cr_expected_def holds_lock_def
        intro!: inv_with_creation world_inv_set)
next
  case (Status s st)
  have "world_inv (w\<lparr>w_status := (w_status w)(s := st)\<rparr>)" if "status_alive st \<Longrightarrow> session_up w s"
    by (rule world_inv_weaken [OF assms(1)]) (use that in \<open>auto simp: session_up_def split: if_splits\<close>)
  then show ?thesis using Status assms(1) by auto
next
  case (Other failing now op')
  then show ?thesis using inv_other assms by blast
qed

end
