(* ===== verification/Restore_Runs.thy ===== *)
theory Restore_Runs
  imports Restore_Props
begin

text \<open>
  The two properties of restores: a saved session has one live terminal, and a client that
  restores again gets the terminal it restored; with the runs that break the first when a
  teardown is not careful or a client disconnects, and the requests the second leaves out.
\<close>

section \<open>One terminal for a saved session\<close>

lemma inv_run:
  assumes "world_inv w" and "careful ops w"
  shows "world_inv (run_world ops w)"
  using assms by (induction ops arbitrary: w) (auto simp: run_world_def inv_step)

lemma inv_new: "world_inv (world_new d status)"
  by (simp add: world_inv_def world_new_def births_known_def one_holder_def)

lemma length_le_1: "distinct xs \<Longrightarrow> (\<And>x. x \<in> set xs \<Longrightarrow> x = a) \<Longrightarrow> length xs \<le> 1"
  by (cases xs; cases "tl xs") auto

lemma inv_terminals:
  assumes "world_inv w"
  shows "length (terminals_of e w) \<le> 1"
proof (cases "session_up w e")
  case True
  then have "filter (\<lambda>(e', s). e' = e) (w_births w) = []"
    using assms by (auto simp: world_inv_def births_known_def filter_empty_conv)
  then show ?thesis by (simp add: terminals_of_def)
next
  case False
  have "distinct (map snd (filter (\<lambda>(e', s). e' = e) (w_births w)))"
    using assms by (simp add: world_inv_def distinct_map_filter)
  then have "length (filter (session_up w) (map snd (filter (\<lambda>(e', s). e' = e) (w_births w)))) \<le> 1"
    using assms by (intro length_le_1 [where a = "the (ds_replacements (w_daemon w) e)"])
      (auto simp: world_inv_def births_known_def)
  then show ?thesis using False by (simp add: terminals_of_def)
qed

text \<open>
  Property C27. A saved session never has two terminals. Whatever creations, restores, deadlines,
  worker failures, kills, snapshots and other requests run at the same time, and in whatever
  order their steps come, at most one of the saved session and the terminals published for it is
  live, provided no teardown forgets a live replacement and no client disconnects while its
  terminal is being prepared.
\<close>

theorem one_terminal_per_saved_session:
  assumes "careful ops (world_new d status)"
  shows "length (terminals_of e (run_world ops (world_new d status))) \<le> 1"
  by (rule inv_terminals [OF inv_run [OF inv_new assms]])

definition restore_body :: create_body where
  "restore_body =
    \<lparr>cb_launch_id = None, cb_project_path = Some ''/p'', cb_cwd = None, cb_launch_cwd = None,
     cb_cols = None, cb_rows = None, cb_workspace_path = None, cb_origin_layout_id = None,
     cb_origin_tab_id = None, cb_origin_terminal_pane_id = None,
     cb_expected_saved_session_id = Some ''old'', cb_launch_claude = False, cb_cli_tool = Claude,
     cb_resume_id = None, cb_ssh = None, cb_wsl = None\<rparr>"

definition linux :: host where
  "linux = \<lparr>ho_default_cwd = ''/'', ho_home = None, ho_wsl = False, ho_dunce = (\<lambda>s. s)\<rparr>"

abbreviation begin_restore :: "headers \<Rightarrow> nat \<Rightarrow> run_op list" where
  "begin_restore h i \<equiv> [Start h linux (''tab'', ''pane'') ''nonce'' restore_body, Lock i, Ask i 0 linux []]"

lemma core_restore [simp]:
  "core_request linux anchors restore_body =
    \<lparr>sr_launch_id = None, sr_project_path = ''/p'', sr_launch_cwd = None, sr_cols = 120, sr_rows = 30,
     sr_workspace_path = None, sr_origin_layout_id = None, sr_origin_tab_id = Some (fst anchors),
     sr_origin_terminal_pane_id = Some (snd anchors), sr_expected_saved_session_id = Some ''old'',
     sr_launch_claude = False, sr_cli_tool = Claude, sr_resume_id = None, sr_ssh = None, sr_wsl = None\<rparr>"
  by (simp add: core_request_def restore_body_def linux_def normalize_session_request_for_host_def
      body_project_path_def)

lemma restore_fields [simp]: "cb_ssh restore_body = None" "cb_wsl restore_body = None"
  by (simp_all add: restore_body_def)

lemmas world_steps = run_world_def with_creation_def start_creation_def lock_step_def lock_free_def
  ask_step_def publish_step_def publish_alt claimed_for_def worker_ends_step_def answer_step_def
  timeout_step_def late_kill_step_def disconnect_step_def set_creation_def cr_expected_def holds_lock_def
  reuse_expected_session_def expected_session_def answers_def fresh_id_def try_claim_session_def
  may_write_session_def session_claim_owner_def touch_session_def remove_session_activity_def
  forget_session_claim_def world_new_def daemon_new_def authorize_def callers terminals_of_def session_up_def
  status_alive_def Let_def

lemma authorized [simp]: "hd_authorization alice = Some ''Bearer t''" "hd_authorization bob = Some ''Bearer t''"
  by (simp_all add: alice_def bob_def)

text \<open>A teardown of the saved session, which the reaper does when somebody looked at it.\<close>

theorem forgotten_alias_gives_two_terminals:
  "terminals_of ''old'' (run_world
      (begin_restore alice 0 @ [Publish 0 0 0 ''new1'' (Inr ()), WorkerEnds 0, Answer 0,
        Other [] 1 (DRead bob ''old''), Other [] 2 (DForget ''old'')]
       @ begin_restore bob 1 @ [Publish 1 3 0 ''new2'' (Inr ())])
      (world_new (daemon_new ''t'' 0 ws_new) (\<lambda>_. None)))
    = [''new2'', ''new1'']"
  by (simp add: world_steps get_session_status_def read_session_def guarded_def)

text \<open>A client that goes away while its terminal is being prepared.\<close>

theorem disconnect_gives_two_terminals:
  "terminals_of ''old'' (run_world
      (begin_restore alice 0 @ [Disconnect 0] @ begin_restore bob 1
       @ [Publish 0 3 0 ''new1'' (Inr ()), Publish 1 4 0 ''new2'' (Inr ())])
      (world_new (daemon_new ''t'' 0 ws_new) (\<lambda>_. None)))
    = [''new2'', ''new1'']"
  by (simp add: world_steps)

section \<open>A restore finds what it made\<close>

lemma own_birth_matches:
  assumes "\<not> ho_wsl ho \<or> cb_ssh b \<noteq> None" and "cb_cli_tool b \<noteq> NoTool \<or> \<not> cb_launch_claude b"
  shows "restore_identity_matches ho (core_request ho anchors' b)
    ((birth_record ho anchors nonce now_ms owner b d)\<lparr>pv_session_id := s\<rparr>)"
  using assms
  by (auto simp: restore_identity_matches_def core_request_def birth_record_def
      normalize_session_request_for_host_def project_paths_equivalent_def request_runtime_kind_def
      body_runtime_kind_def effective_cli_tool_def)


text \<open>A request with \<open>launchClaude\<close> and no tool, and one for WSL under WSL, are never recognised.\<close>

theorem launch_claude_is_not_recognised:
  assumes "cb_cli_tool b = NoTool" and "cb_launch_claude b"
  shows "\<not> restore_identity_matches ho (core_request ho anchors' b)
    ((birth_record ho anchors nonce now_ms owner b d)\<lparr>pv_session_id := s\<rparr>)"
proof -
  have "sr_cli_tool (core_request ho anchors' b) = NoTool \<and> sr_launch_claude (core_request ho anchors' b)"
    using assms by (simp add: core_request_def normalize_session_request_for_host_def Let_def split: option.split)
  then show ?thesis using assms(1)
    by (simp add: restore_identity_matches_def effective_cli_tool_def birth_record_def)
qed

theorem wsl_launch_is_not_recognised:
  assumes "ho_wsl ho" and "cb_ssh b = None" and "cb_wsl b \<noteq> None"
  shows "\<not> restore_identity_matches ho (core_request ho anchors' b)
    ((birth_record ho anchors nonce now_ms owner b d)\<lparr>pv_session_id := s\<rparr>)"
proof -
  have "request_runtime_kind (core_request ho anchors' b) = ''local''"
    using assms by (auto simp: core_request_def normalize_session_request_for_host_def Let_def
        request_runtime_kind_def split: option.split)
  then show ?thesis using assms(2,3)
    by (auto simp: restore_identity_matches_def birth_record_def body_runtime_kind_def)
qed

lemma restore_identity [simp]:
  "restore_identity_matches linux
      \<lparr>sr_launch_id = None, sr_project_path = ''/p'', sr_launch_cwd = None, sr_cols = 120, sr_rows = 30,
       sr_workspace_path = None, sr_origin_layout_id = None, sr_origin_tab_id = x,
       sr_origin_terminal_pane_id = y, sr_expected_saved_session_id = Some ''old'',
       sr_launch_claude = False, sr_cli_tool = Claude, sr_resume_id = None, sr_ssh = None, sr_wsl = None\<rparr>
    ((birth_record linux anchors nonce now_ms owner restore_body d)\<lparr>pv_session_id := s\<rparr>)"
  by (simp add: restore_identity_matches_def request_runtime_kind_def effective_cli_tool_def birth_record_def
      body_runtime_kind_def body_project_path_def project_paths_equivalent_def restore_body_def)

theorem one_terminal_per_saved_session_witness:
  "length (terminals_of ''old'' (run_world
      (begin_restore alice 0 @ begin_restore bob 1
       @ [Publish 0 3 0 ''new1'' (Inr ()), Timeout 0, Lock 1, Ask 1 4 linux [], WorkerEnds 0, LateKill 0,
          Other [] 5 (DForget ''new1'')])
      (world_new (daemon_new ''t'' 0 ws_new) (\<lambda>_. None)))) \<le> 1"
  by (rule one_terminal_per_saved_session) (simp add: world_steps forgets_no_live_def backend_def is_live_def
      from_millis_def clamp_def CLAIM_TTL_MIN_MS_def CLAIM_TTL_MAX_MS_def CLAIM_TTL_DEFAULT_MS_def)


text \<open>
  The deadline passes after the publication. The client tries again and gets the terminal with
  its lease; then the task the deadline left behind kills it.
\<close>

theorem late_kill_takes_a_reused_terminal:
  "let w = run_world
      (begin_restore alice 0 @ [Publish 0 3 0 ''new1'' (Inr ()), Timeout 0]
       @ begin_restore alice 1 @ [WorkerEnds 0, LateKill 0])
      (world_new (daemon_new ''t'' 0 ws_new) (\<lambda>_. None))
   in cr_handler (w_creations w ! 1) = Replied (Inr (''new1'', True)) \<and> \<not> session_up w ''new1''
      \<and> session_claim_owner 4 ''new1'' (w_daemon w) = Some ''a''
      \<and> BkKill ''new1'' LaunchTimeout \<in> set (ds_calls (w_daemon w))"
  by (simp add: world_steps backend_def is_live_def from_millis_def clamp_def
      CLAIM_TTL_MIN_MS_def CLAIM_TTL_MAX_MS_def CLAIM_TTL_DEFAULT_MS_def)

definition first_restore :: daemon where
  "first_restore =
    fst (publish_session 0 False (Some ''a'') (birth_record linux (''tab'', ''pane'') ''nonce'' 0 (Some ''a'')
      restore_body (daemon_new ''t'' 0 ws_new)) (Some ''old'') ''new'' (Inr ()) (daemon_new ''t'' 0 ws_new))"


end
