(* ===== verification/Session_Reaper.thy ===== *)
theory Session_Reaper
  imports Lease_Props Ws_Props
begin

text \<open>
  The reaper of orphaned sessions (\<open>cc-panes-daemon/src/session_reaper.rs\<close>) and the choice of the
  sessions whose checkpoint is asked for (\<open>checkpoint_monitor.rs\<close>). A sweep is a sequence of
  accesses to the daemon and the backend; what other threads do before each access, the clocks
  at that access and whether the backend fails there are arguments.
\<close>

section \<open>What expires\<close>

record reaper_entry =
  re_session_id :: string
  re_last_viewer_activity :: instant
  re_has_active_subscriber :: bool
  re_has_live_owner :: bool
  re_status :: session_status
  re_last_output_at :: nat

definition is_reap_protected_status :: "session_status \<Rightarrow> bool" where
  "is_reap_protected_status st \<longleftrightarrow> is_busy st \<or> st = Initializing \<or> st = WaitingInput"

definition select_expired :: "reaper_entry list \<Rightarrow> duration \<Rightarrow> instant \<Rightarrow> nat \<Rightarrow> string list" where
  "select_expired entries ttl now now_epoch_millis =
    map re_session_id
      (sort_key re_last_viewer_activity
        (filter (\<lambda>entry.
            \<not> re_has_active_subscriber entry \<and> \<not> re_has_live_owner entry
            \<and> \<not> is_reap_protected_status (re_status entry)
            \<and> ttl < now - re_last_viewer_activity entry
            \<and> as_millis ttl < now_epoch_millis - re_last_output_at entry)
          entries))"

text \<open>The settings of the reaper: the switch, and the minutes of the lifetime.\<close>

definition sweep_ttl :: "bool \<Rightarrow> nat \<Rightarrow> duration option" where
  "sweep_ttl daemon_orphan_reaper_disabled daemon_orphan_ttl_minutes =
    (if daemon_orphan_reaper_disabled \<or> daemon_orphan_ttl_minutes = 0 then None
     else Some (from_secs (daemon_orphan_ttl_minutes * 60)))"

section \<open>Accesses\<close>

text \<open>
  The backend lists its sessions with their status and the time of their last output in
  milliseconds. \<open>sw_reaped\<close> are the sessions the reaper killed, \<open>sw_forgotten\<close> those it tore down.
\<close>

record sweep_world =
  sw_daemon :: daemon
  sw_sessions :: "(string \<times> session_status \<times> nat) list"
  sw_access :: nat
  sw_reaped :: "string list"
  sw_forgotten :: "string list"

record others =
  ot_do :: "nat \<Rightarrow> sweep_world \<Rightarrow> daemon \<times> (string \<times> session_status \<times> nat) list"
  ot_clock :: "nat \<Rightarrow> instant"
  ot_wall :: "nat \<Rightarrow> nat"
  ot_fails :: "nat \<Rightarrow> bool"

definition meanwhile :: "others \<Rightarrow> sweep_world \<Rightarrow> sweep_world" where
  "meanwhile v w =
    (case ot_do v (sw_access w) w of (d, sessions) \<Rightarrow>
       w\<lparr>sw_daemon := d, sw_sessions := sessions, sw_access := Suc (sw_access w)\<rparr>)"

definition look_sweep :: "others \<Rightarrow> (nat \<Rightarrow> sweep_world \<Rightarrow> 'a) \<Rightarrow> sweep_world \<Rightarrow> sweep_world \<times> 'a" where
  "look_sweep v f w = (let w' = meanwhile v w in (w', f (sw_access w) w'))"

definition forget_swept :: "others \<Rightarrow> string \<Rightarrow> sweep_world \<Rightarrow> sweep_world" where
  "forget_swept v session_id w =
    (let w = meanwhile v w
     in w\<lparr>sw_daemon := remove_session_activity session_id (sw_daemon w),
          sw_forgotten := sw_forgotten w @ [session_id]\<rparr>)"

definition touch_swept :: "others \<Rightarrow> string \<Rightarrow> sweep_world \<Rightarrow> sweep_world" where
  "touch_swept v session_id w =
    (let n = sw_access w; w = meanwhile v w
     in w\<lparr>sw_daemon := touch_session (ot_clock v n) session_id (sw_daemon w)\<rparr>)"

text \<open>A kill by the backend, false if it fails; a session the backend does not have is an error.\<close>

definition kill_swept :: "others \<Rightarrow> string \<Rightarrow> sweep_world \<Rightarrow> sweep_world \<times> bool" where
  "kill_swept v session_id w =
    (let n = sw_access w; w = meanwhile v w in
     if ot_fails v n \<or> session_id \<notin> fst ` set (sw_sessions w) then (w, False)
     else
       (w\<lparr>sw_daemon := backend (BkKill session_id DaemonReaper) (sw_daemon w),
          sw_sessions := filter (\<lambda>(s, _). s \<noteq> session_id) (sw_sessions w),
          sw_reaped := sw_reaped w @ [session_id]\<rparr>, True))"

section \<open>A sweep\<close>

fun prune_gone :: "others \<Rightarrow> string list \<Rightarrow> string list \<Rightarrow> sweep_world \<Rightarrow> sweep_world" where
  "prune_gone v listed [] w = w"
| "prune_gone v listed (k # ks) w =
    prune_gone v listed ks (if k \<in> set listed then w else forget_swept v k w)"

definition watched :: "others \<Rightarrow> string \<Rightarrow> sweep_world \<Rightarrow> sweep_world \<times> bool" where
  "watched v s = look_sweep v (\<lambda>_ w. has_active_subscriber (ds_emitter (sw_daemon w)) s)"

definition owned :: "others \<Rightarrow> string \<Rightarrow> sweep_world \<Rightarrow> sweep_world \<times> bool" where
  "owned v s = look_sweep v (\<lambda>n w. session_claim_owner (ot_clock v n) s (sw_daemon w) \<noteq> None)"

fun sweep_entries ::
    "others \<Rightarrow> instant \<Rightarrow> (string \<times> instant) list \<Rightarrow> (string \<times> session_status \<times> nat) list \<Rightarrow> sweep_world
      \<Rightarrow> sweep_world \<times> reaper_entry list" where
  "sweep_entries v now activity [] w = (w, [])"
| "sweep_entries v now activity ((s, st, last_output_at) # rest) w =
    (let (w, last_activity) =
       (case map_of activity s of Some t \<Rightarrow> (w, t) | None \<Rightarrow> (touch_swept v s w, now));
         (w, has_subscriber) = watched v s w;
         (w, has_owner) = owned v s w;
         (w, entries) = sweep_entries v now activity rest w
     in (w, \<lparr>re_session_id = s, re_last_viewer_activity = last_activity,
             re_has_active_subscriber = has_subscriber, re_has_live_owner = has_owner,
             re_status = st, re_last_output_at = last_output_at\<rparr> # entries))"

text \<open>One candidate: everything is asked again before the kill.\<close>

definition reattached :: "others \<Rightarrow> duration \<Rightarrow> string \<Rightarrow> sweep_world \<Rightarrow> sweep_world \<times> bool" where
  "reattached v ttl s = look_sweep v (\<lambda>n w.
    case map_of (ds_last_activity (sw_daemon w)) s of
      Some t \<Rightarrow> ot_clock v n - t \<le> ttl | None \<Rightarrow> False)"

definition at_work :: "others \<Rightarrow> duration \<Rightarrow> string \<Rightarrow> sweep_world \<Rightarrow> sweep_world \<times> bool" where
  "at_work v ttl s = look_sweep v (\<lambda>n w.
    if ot_fails v n then True
    else
      (case map_of (sw_sessions w) s of
         None \<Rightarrow> True
       | Some (st, last_output_at) \<Rightarrow>
           is_reap_protected_status st \<or> ot_wall v n - last_output_at \<le> as_millis ttl))"

text \<open>Questions asked in turn, up to the first that is answered with yes.\<close>

fun any_of :: "(sweep_world \<Rightarrow> sweep_world \<times> bool) list \<Rightarrow> sweep_world \<Rightarrow> sweep_world \<times> bool" where
  "any_of [] w = (w, False)"
| "any_of (q # qs) w = (case q w of (w, b) \<Rightarrow> if b then (w, True) else any_of qs w)"

definition reap_candidate :: "others \<Rightarrow> duration \<Rightarrow> string \<Rightarrow> sweep_world \<Rightarrow> sweep_world" where
  "reap_candidate v ttl s w =
    (case any_of [watched v s, owned v s, reattached v ttl s, at_work v ttl s] w of
       (w, True) \<Rightarrow> w
     | (w, False) \<Rightarrow>
         (case kill_swept v s w of
            (w, False) \<Rightarrow> w
          | (w, True) \<Rightarrow> forget_swept v s w))"

definition sweep :: "others \<Rightarrow> bool \<Rightarrow> nat \<Rightarrow> sweep_world \<Rightarrow> sweep_world" where
  "sweep v disabled minutes w =
    (case sweep_ttl disabled minutes of
       None \<Rightarrow> w
     | Some ttl \<Rightarrow>
         (let (w, listed) = look_sweep v (\<lambda>n w. if ot_fails v n then None else Some (sw_sessions w)) w in
          case listed of
            None \<Rightarrow> w
          | Some sessions \<Rightarrow>
              (let (w, now, now_epoch_millis, activity) =
                 look_sweep v (\<lambda>n w. (ot_clock v n, ot_wall v n, ds_last_activity (sw_daemon w))) w;
                   w = prune_gone v (map fst sessions) (map fst activity) w;
                   (w, entries) = sweep_entries v now activity sessions w
               in fold (reap_candidate v ttl) (select_expired entries ttl now now_epoch_millis) w)))"

section \<open>Asking for checkpoints\<close>

definition CHECKPOINT_DELTA_THRESHOLD_BYTES :: nat where
  "CHECKPOINT_DELTA_THRESHOLD_BYTES = 4 * 1024 * 1024"

definition PER_SESSION_THROTTLE :: duration where
  "PER_SESSION_THROTTLE = from_secs 60"

text \<open>The filter visits the candidates in order and records each one it lets through.\<close>

fun throttled :: "instant \<Rightarrow> duration \<Rightarrow> string list \<Rightarrow> (string \<Rightarrow> instant option) \<Rightarrow> string list \<times> (string \<Rightarrow> instant option)" where
  "throttled now throttle [] last_requested = ([], last_requested)"
| "throttled now throttle (s # rest) last_requested =
    (if (case last_requested s of Some t \<Rightarrow> now - t < throttle | None \<Rightarrow> False)
     then throttled now throttle rest last_requested
     else
       (let (selected, last_requested) = throttled now throttle rest (last_requested(s \<mapsto> now))
        in (s # selected, last_requested)))"

definition select_throttled ::
    "string list \<Rightarrow> (string \<Rightarrow> instant option) \<Rightarrow> instant \<Rightarrow> duration \<Rightarrow> string list \<times> (string \<Rightarrow> instant option)" where
  "select_throttled candidates last_requested now throttle =
    throttled now throttle candidates
      (\<lambda>s. case last_requested s of
         Some t \<Rightarrow> if s \<in> set candidates \<or> now - t < throttle then Some t else None
       | None \<Rightarrow> None)"

end
