(* ===== verification/Reaper_Quiet.thy ===== *)
theory Reaper_Quiet
  imports Reaper_Props Restore_Runs
begin

text \<open>
  A sweep that nobody disturbs reaps exactly the orphans, the longest unseen first; and the sweep
  that forgets a session published while it lists.
\<close>

section \<open>An undisturbed sweep\<close>

definition alone :: "instant \<Rightarrow> nat \<Rightarrow> others" where
  "alone now wall =
    \<lparr>ot_do = (\<lambda>_ w. (sw_daemon w, sw_sessions w)), ot_clock = (\<lambda>_. now), ot_wall = (\<lambda>_. wall), ot_fails = (\<lambda>_. False)\<rparr>"

lemma meanwhile_alone [simp]: "meanwhile (alone now wall) w = w\<lparr>sw_access := Suc (sw_access w)\<rparr>"
  by (simp add: meanwhile_def alone_def)

lemma alone_fields [simp]:
  "ot_clock (alone now wall) n = now" "ot_wall (alone now wall) n = wall" "ot_fails (alone now wall) n = False"
  by (simp_all add: alone_def)

text \<open>A session nobody has seen counts as seen when the sweep starts.\<close>

definition seen_at :: "instant \<Rightarrow> (string \<times> instant) list \<Rightarrow> string \<Rightarrow> instant" where
  "seen_at now activity s = or_else (map_of activity s) now"

definition orphan :: "duration \<Rightarrow> instant \<Rightarrow> nat \<Rightarrow> daemon \<Rightarrow> string \<times> session_status \<times> nat \<Rightarrow> bool" where
  "orphan ttl now wall d = (\<lambda>(s, st, last_output_at).
    \<not> has_active_subscriber (ds_emitter d) s \<and> session_claim_owner now s d = None
    \<and> \<not> is_reap_protected_status st \<and> ttl < now - seen_at now (ds_last_activity d) s
    \<and> as_millis ttl < wall - last_output_at)"

definition orphans :: "duration \<Rightarrow> instant \<Rightarrow> nat \<Rightarrow> sweep_world \<Rightarrow> string list" where
  "orphans ttl now wall w =
    map fst (sort_key (\<lambda>(s, _). seen_at now (ds_last_activity (sw_daemon w)) s)
      (filter (orphan ttl now wall (sw_daemon w)) (sw_sessions w)))"

text \<open>What the questions of the reaper depend on.\<close>

definition same_view :: "daemon \<Rightarrow> daemon \<Rightarrow> string \<Rightarrow> bool" where
  "same_view d d' s \<longleftrightarrow>
    has_active_subscriber (ds_emitter d') s = has_active_subscriber (ds_emitter d) s
    \<and> ds_claims d' s = ds_claims d s"

lemma prune_alone:
  "sw_sessions (prune_gone (alone now wall) listed ks w) = sw_sessions w
   \<and> sw_reaped (prune_gone (alone now wall) listed ks w) = sw_reaped w
   \<and> sw_forgotten (prune_gone (alone now wall) listed ks w) = sw_forgotten w @ filter (\<lambda>k. k \<notin> set listed) ks
   \<and> (\<forall>s \<in> set listed. same_view (sw_daemon w) (sw_daemon (prune_gone (alone now wall) listed ks w)) s
      \<and> map_of (ds_last_activity (sw_daemon (prune_gone (alone now wall) listed ks w))) s
        = map_of (ds_last_activity (sw_daemon w)) s)"
proof (induction ks arbitrary: w)
  case (Cons k ks)
  show ?case
  proof (cases "k \<in> set listed")
    case False
    then have "s \<noteq> k" if "s \<in> set listed" for s using that by auto
    with False Cons.IH [of "forget_swept (alone now wall) k w"] show ?thesis
      by (auto simp: forget_swept_def Let_def same_view_def remove_views)
  qed (simp add: Cons.IH)
qed (simp add: same_view_def)

definition entry_of :: "instant \<Rightarrow> (string \<times> instant) list \<Rightarrow> daemon \<Rightarrow> string \<times> session_status \<times> nat \<Rightarrow> reaper_entry" where
  "entry_of now activity d = (\<lambda>(s, st, out).
    \<lparr>re_session_id = s, re_last_viewer_activity = seen_at now activity s,
     re_has_active_subscriber = has_active_subscriber (ds_emitter d) s,
     re_has_live_owner = (session_claim_owner now s d \<noteq> None), re_status = st, re_last_output_at = out\<rparr>)"

lemma entry_of_cong: "same_view d d' (fst x) \<Longrightarrow> entry_of now activity d' x = entry_of now activity d x"
  using owner_cong [of d' "fst x" d now] by (cases x) (simp add: entry_of_def same_view_def)

lemma entries_alone:
  assumes "sweep_entries (alone now wall) now activity l w = (w', entries)"
  shows "entries = map (entry_of now activity (sw_daemon w)) l
    \<and> sw_sessions w' = sw_sessions w \<and> sw_reaped w' = sw_reaped w \<and> sw_forgotten w' = sw_forgotten w
    \<and> (\<forall>s. same_view (sw_daemon w) (sw_daemon w') s)
    \<and> (\<forall>s. map_of activity s \<noteq> None \<longrightarrow>
        map_of (ds_last_activity (sw_daemon w')) s = map_of (ds_last_activity (sw_daemon w)) s)"
  using assms
proof (induction l arbitrary: w w' entries)
  case (Cons x l)
  obtain s st out where x: "x = (s, st, out)" by (cases x)
  define w1 where "w1 = (case map_of activity s of Some t \<Rightarrow> w | None \<Rightarrow> touch_swept (alone now wall) s w)"
  let ?w3 = "w1\<lparr>sw_access := Suc (Suc (sw_access w1))\<rparr>"
  obtain w4 es where 4: "sweep_entries (alone now wall) now activity l ?w3 = (w4, es)"
    by (cases "sweep_entries (alone now wall) now activity l ?w3")
  have w1: "same_view (sw_daemon w) (sw_daemon w1) r"
    "map_of activity r \<noteq> None \<Longrightarrow> map_of (ds_last_activity (sw_daemon w1)) r = map_of (ds_last_activity (sw_daemon w)) r" for r
    by (auto simp: w1_def touch_swept_def Let_def same_view_def touch_views split: option.split)
  have lists: "sw_sessions w1 = sw_sessions w" "sw_reaped w1 = sw_reaped w" "sw_forgotten w1 = sw_forgotten w"
    by (simp_all add: w1_def touch_swept_def Let_def split: option.split)
  have res: "w' = w4 \<and> entries = entry_of now activity (sw_daemon w1) x # es"
    using Cons.prems 4
    by (cases "map_of activity s")
      (auto simp: x w1_def watched_def owned_def look_sweep_def Let_def entry_of_def seen_at_def)
  have "map (entry_of now activity (sw_daemon w1)) (x # l) = map (entry_of now activity (sw_daemon w)) (x # l)"
    using w1(1) by (simp add: entry_of_cong)
  then show ?case using res Cons.IH [OF 4] w1 lists by (auto simp: same_view_def)
qed (auto simp: same_view_def)

lemma insort_key_map: "insort_key f (g x) (map g l) = map g (insort_key (\<lambda>y. f (g y)) x l)"
  by (induction l) auto

lemma sort_key_map: "sort_key f (map g l) = map g (sort_key (\<lambda>y. f (g y)) l)"
  by (induction l) (simp_all add: insort_key_map)

lemma expired_entries:
  "select_expired (map (entry_of now (ds_last_activity d) d) l) ttl now wall
    = map fst (sort_key (\<lambda>(s, _). seen_at now (ds_last_activity d) s) (filter (orphan ttl now wall d) l))"
proof -
  have "(\<lambda>entry. \<not> re_has_active_subscriber entry \<and> \<not> re_has_live_owner entry
      \<and> \<not> is_reap_protected_status (re_status entry) \<and> ttl < now - re_last_viewer_activity entry
      \<and> as_millis ttl < wall - re_last_output_at entry) \<circ> entry_of now (ds_last_activity d) d = orphan ttl now wall d"
    by (auto simp: fun_eq_iff entry_of_def orphan_def)
  moreover have "re_session_id \<circ> entry_of now (ds_last_activity d) d = fst"
    "(\<lambda>y. re_last_viewer_activity (entry_of now (ds_last_activity d) d y)) = (\<lambda>(s, _). seen_at now (ds_last_activity d) s)"
    by (auto simp: fun_eq_iff entry_of_def)
  ultimately show ?thesis by (simp add: select_expired_def filter_map sort_key_map flip: o_assoc)
qed

text \<open>A candidate that every question leaves an orphan.\<close>

definition ripe :: "duration \<Rightarrow> instant \<Rightarrow> nat \<Rightarrow> sweep_world \<Rightarrow> string \<Rightarrow> bool" where
  "ripe ttl now wall w s \<longleftrightarrow>
    \<not> has_active_subscriber (ds_emitter (sw_daemon w)) s \<and> session_claim_owner now s (sw_daemon w) = None
    \<and> (\<exists>t. map_of (ds_last_activity (sw_daemon w)) s = Some t \<and> ttl < now - t)
    \<and> (\<exists>st out. map_of (sw_sessions w) s = Some (st, out) \<and> \<not> is_reap_protected_status st
        \<and> as_millis ttl < wall - out)"

lemma reap_ripe:
  assumes "ripe ttl now wall w s"
  shows "reap_candidate (alone now wall) ttl s w =
    w\<lparr>sw_daemon := remove_session_activity s (backend (BkKill s DaemonReaper) (sw_daemon w)),
      sw_sessions := filter (\<lambda>(x, _). x \<noteq> s) (sw_sessions w), sw_access := sw_access w + 6,
      sw_reaped := sw_reaped w @ [s], sw_forgotten := sw_forgotten w @ [s]\<rparr>"
proof -
  have "s \<in> fst ` set (sw_sessions w)" using assms by (force simp: ripe_def dest: map_of_SomeD)
  then show ?thesis using assms
    by (auto simp: reap_candidate_def watched_def owned_def reattached_def at_work_def look_sweep_def ripe_def
        kill_swept_def forget_swept_def Let_def not_le split: bool.splits)
qed

lemma ripe_others:
  assumes "ripe ttl now wall w r" and "r \<noteq> s"
  shows "ripe ttl now wall
    (w\<lparr>sw_daemon := remove_session_activity s (backend (BkKill s DaemonReaper) (sw_daemon w)),
      sw_sessions := filter (\<lambda>(x, _). x \<noteq> s) (sw_sessions w), sw_access := n, sw_reaped := l, sw_forgotten := l'\<rparr>) r"
proof -
  have "session_claim_owner now r (remove_session_activity s (backend (BkKill s DaemonReaper) (sw_daemon w)))
      = session_claim_owner now r (sw_daemon w)"
    by (rule owner_cong) (simp add: remove_views [OF assms(2)] backend_views)
  then show ?thesis using assms
    by (simp add: ripe_def remove_views [OF assms(2)] backend_views map_of_killed)
qed

lemma reap_all_ripe:
  assumes "distinct l" and "\<forall>s \<in> set l. ripe ttl now wall w s"
  shows "let w' = fold (reap_candidate (alone now wall) ttl) l w in
    sw_reaped w' = sw_reaped w @ l \<and> sw_forgotten w' = sw_forgotten w @ l
    \<and> sw_sessions w' = filter (\<lambda>(s, _). s \<notin> set l) (sw_sessions w)"
  using assms
proof (induction l arbitrary: w)
  case (Cons s l)
  have "ripe ttl now wall w s" using Cons.prems(2) by simp
  note step = reap_ripe [OF this]
  have "\<forall>r \<in> set l. ripe ttl now wall (reap_candidate (alone now wall) ttl s w) r"
  proof
    fix r assume r: "r \<in> set l"
    then have "r \<noteq> s" "ripe ttl now wall w r" using Cons.prems by auto
    then show "ripe ttl now wall (reap_candidate (alone now wall) ttl s w) r" unfolding step by (rule ripe_others [rotated])
  qed
  from Cons.IH [OF _ this] Cons.prems(1) show ?case
    by (simp add: step Let_def) (auto intro: filter_cong)
qed (auto simp: Let_def intro: filter_True [symmetric])

text \<open>
  Property C31. An undisturbed sweep reaps the orphans. It kills exactly the sessions nobody
  watches or leases, that are at rest and whose last look and last output are older than the
  lifetime, the longest unseen first, tears each of them down, and forgets the sessions the
  backend no longer has; every other session stays.
\<close>

theorem quiet_sweep_reaps_the_orphans:
  assumes "sweep_ttl disabled minutes = Some ttl" and "distinct (map fst (sw_sessions w))"
  shows "let w' = sweep (alone now wall) disabled minutes w;
             gone = filter (\<lambda>s. s \<notin> fst ` set (sw_sessions w)) (map fst (ds_last_activity (sw_daemon w)));
             dead = orphans ttl now wall w
    in sw_reaped w' = sw_reaped w @ dead
      \<and> sw_forgotten w' = sw_forgotten w @ gone @ dead
      \<and> sw_sessions w' = filter (\<lambda>(s, _). s \<notin> set dead) (sw_sessions w)"
proof -
  let ?act = "ds_last_activity (sw_daemon w)" and ?ids = "map fst (sw_sessions w)"
  define w2 where "w2 = w\<lparr>sw_access := Suc (Suc (sw_access w))\<rparr>"
  define w3 where "w3 = prune_gone (alone now wall) ?ids (map fst ?act) w2"
  note prune = prune_alone [of now wall ?ids "map fst ?act" w2, folded w3_def]
  obtain w4 entries where ent: "sweep_entries (alone now wall) now ?act (sw_sessions w) w3 = (w4, entries)"
    by (cases "sweep_entries (alone now wall) now ?act (sw_sessions w) w3")
  note e = entries_alone [OF ent]
  have view: "same_view (sw_daemon w) (sw_daemon w3) s"
    "map_of (ds_last_activity (sw_daemon w3)) s = map_of ?act s" if "s \<in> set ?ids" for s
    using prune that by (auto simp: w2_def)
  have "entries = map (entry_of now ?act (sw_daemon w)) (sw_sessions w)"
    using e view by (auto intro!: entry_of_cong)
  then have dead: "select_expired entries ttl now wall = orphans ttl now wall w"
    by (simp add: expired_entries orphans_def)
  have ripe: "ripe ttl now wall w4 s" if "s \<in> set (orphans ttl now wall w)" for s
  proof -
    from that obtain st out where o: "(s, st, out) \<in> set (sw_sessions w)" "orphan ttl now wall (sw_daemon w) (s, st, out)"
      by (auto simp: orphans_def)
    then have s: "s \<in> set ?ids" by force
    from o(2) obtain t where t: "map_of ?act s = Some t" "ttl < now - t"
      by (cases "map_of ?act s") (auto simp: orphan_def seen_at_def)
    have "session_claim_owner now s (sw_daemon w4) = session_claim_owner now s (sw_daemon w)"
      using e view(1) [OF s] by (intro owner_cong) (simp add: same_view_def)
    moreover have "map_of (sw_sessions w) s = Some (st, out)" using o(1) assms(2) by simp
    ultimately show ?thesis using o(2) t e view [OF s] prune
      by (simp add: ripe_def orphan_def same_view_def w2_def)
  qed
  have "distinct (orphans ttl now wall w)"
    using assms(2) by (simp add: orphans_def distinct_map distinct_map_filter inj_on_def) 
  note all = reap_all_ripe [OF this, of ttl now wall w4] 
  have "sweep (alone now wall) disabled minutes w = fold (reap_candidate (alone now wall) ttl) (orphans ttl now wall w) w4"
    using ent dead by (simp add: sweep_def assms(1) look_sweep_def Let_def w2_def w3_def)
  then show ?thesis using all ripe e prune by (simp add: Let_def w2_def)
qed

section \<open>Examples\<close>

definition two_sessions :: sweep_world where
  "two_sessions =
    \<lparr>sw_daemon = (daemon_new ''t'' 0 ws_new)\<lparr>ds_last_activity := [(''old'', 0), (''gone'', 0), (''busy'', 0)]\<rparr>,
     sw_sessions = [(''busy'', WaitingInput, 0), (''old'', Idle, 0)],
     sw_access = 0, sw_reaped = [], sw_forgotten = []\<rparr>"

lemma one_minute: "sweep_ttl False 1 = Some (from_secs 60)"
  by (simp add: sweep_ttl_def)

theorem quiet_sweep_reaps_the_orphans_witness:
  "sw_reaped (sweep (alone (from_secs 61) 61000) False 1 two_sessions) = [''old'']
   \<and> sw_forgotten (sweep (alone (from_secs 61) 61000) False 1 two_sessions) = [''gone'', ''old'']"
proof -
  have "distinct (map fst (sw_sessions two_sessions))" by (simp add: two_sessions_def)
  note swept = quiet_sweep_reaps_the_orphans [OF one_minute this, of "from_secs 61" 61000]
  have "orphans (from_secs 60) (from_secs 61) 61000 two_sessions = [''old'']"
    by (simp add: orphans_def two_sessions_def orphan_def daemon_new_def ws_new_def has_active_subscriber_def
        session_claim_owner_def is_reap_protected_status_def is_busy_def seen_at_def as_millis_def from_secs_def)
  then show ?thesis using swept by (simp add: Let_def) (simp add: two_sessions_def)
qed

theorem reaper_spares_sessions_in_use_witness:
  "''busy'' \<notin> set (sw_reaped (sweep (alone (from_secs 61) 61000) False 1 two_sessions))"
proof -
  let ?v = "alone (from_secs 61) 61000" and ?P = "works (alone (from_secs 61) 61000) (from_secs 60) ''busy''"
  have "?P two_sessions" by (simp add: works_def two_sessions_def is_reap_protected_status_def)
  moreover have "kept_by ?v ?P" by (simp add: kept_by_def works_def)
  ultimately show ?thesis
    using reaper_spares_sessions_in_use [OF _ _ _ one_minute, of ?P "''busy''" ?v two_sessions]
    by (simp add: two_sessions_def)
qed

text \<open>
  A session published between the listing of the sessions and the look at the activity is taken
  for one that is gone: its lease, its birth record and the replacement it is are forgotten,
  although it lives.
\<close>

definition publishes_in_between :: others where
  "publishes_in_between =
    \<lparr>ot_do = (\<lambda>n w. if n = 1 then (first_restore, [(''new'', Initializing, 0)]) else (sw_daemon w, sw_sessions w)),
     ot_clock = (\<lambda>_. 9), ot_wall = (\<lambda>_. 0), ot_fails = (\<lambda>_. False)\<rparr>"

theorem sweep_forgets_a_newborn:
  "let w = sweep publishes_in_between False 1
       \<lparr>sw_daemon = daemon_new ''t'' 0 ws_new, sw_sessions = [], sw_access = 0, sw_reaped = [], sw_forgotten = []\<rparr>
   in sw_sessions w = [(''new'', Initializing, 0)] \<and> sw_forgotten w = [''new'']
      \<and> ds_claims first_restore ''new'' \<noteq> None \<and> ds_claims (sw_daemon w) ''new'' = None
      \<and> ds_provenance (sw_daemon w) ''new'' = None \<and> ds_replacements (sw_daemon w) ''old'' = None"
proof -
  have f: "ds_last_activity first_restore = [(''new'', 0)]" "ds_replacements first_restore ''old'' = Some ''new''"
    "ds_claims first_restore ''new'' \<noteq> None"
    by (simp_all add: first_restore_def publish_alt may_write_session_def session_claim_owner_def daemon_new_def
        Let_def claimed_for_def try_claim_session_def touch_session_def)
  have "ds_last_activity (daemon_new ''t'' 0 ws_new) = []" by (simp add: daemon_new_def)
  then show ?thesis using f
    by (simp add: sweep_def one_minute [simplified] look_sweep_def meanwhile_def publishes_in_between_def Let_def
        forget_swept_def select_expired_def remove_session_activity_def forget_session_claim_def)
qed

end
