(* ===== verification/Ip_Text.thy ===== *)
theory Ip_Text
  imports Rust_Text "HOL-Library.Word"
begin

text \<open>
  The addresses of \<open>std::net\<close> and their parser (\<open>IpAddr: FromStr\<close>), which decides what the
  entries of the whitelist of the web server mean: four decimal octets without leading zeros, or
  up to eight groups of hexadecimal digits with one \<open>::\<close> and possibly an embedded IPv4 address.
  A reader takes the rest of the input and gives the value with what is left, or fails and leaves
  the input alone.
\<close>

datatype ip_addr =
    V4 "8 word" "8 word" "8 word" "8 word"
  | V6 "16 word" "16 word" "16 word" "16 word" "16 word" "16 word" "16 word" "16 word"

fun is_loopback :: "ip_addr \<Rightarrow> bool" where
  "is_loopback (V4 a b c d) \<longleftrightarrow> a = 127"
| "is_loopback (V6 a b c d e f g h) \<longleftrightarrow>
     a = 0 \<and> b = 0 \<and> c = 0 \<and> d = 0 \<and> e = 0 \<and> f = 0 \<and> g = 0 \<and> h = 1"

section \<open>Readers\<close>

type_synonym 'a reader = "string \<Rightarrow> ('a \<times> string) option"

definition read_number :: "nat \<Rightarrow> nat \<Rightarrow> bool \<Rightarrow> nat \<Rightarrow> nat reader" where
  "read_number radix max_digits allow_zero_prefix bound s =
    (let ds = takeWhile (\<lambda>c. to_digit radix c \<noteq> None) s in
     if ds = [] \<or> max_digits < length ds \<or> bound < number_of radix ds
        \<or> \<not> allow_zero_prefix \<and> hd ds = CHR ''0'' \<and> 1 < length ds
     then None else Some (number_of radix ds, drop (length ds) s))"

definition read_given_char :: "char \<Rightarrow> unit reader" where
  "read_given_char c s = (case s of x # r \<Rightarrow> if x = c then Some ((), r) else None | [] \<Rightarrow> None)"

definition read_separator :: "char \<Rightarrow> nat \<Rightarrow> 'a reader \<Rightarrow> 'a reader" where
  "read_separator sep i inner s =
    (if 0 < i then (case read_given_char sep s of Some (_, r) \<Rightarrow> inner r | None \<Rightarrow> None)
     else inner s)"

definition read_octet :: "nat reader" where
  "read_octet = read_number 10 3 False 255"

definition read_group :: "nat reader" where
  "read_group = read_number 16 4 True 65535"

definition read_ipv4_addr :: "(nat \<times> nat \<times> nat \<times> nat) reader" where
  "read_ipv4_addr s =
    do { (a, s) \<leftarrow> read_separator CHR ''.'' 0 read_octet s;
         (b, s) \<leftarrow> read_separator CHR ''.'' 1 read_octet s;
         (c, s) \<leftarrow> read_separator CHR ''.'' 2 read_octet s;
         (d, s) \<leftarrow> read_separator CHR ''.'' 3 read_octet s;
         Some ((a, b, c, d), s) }"

text \<open>The groups from the \<open>i\<close>-th on, whether the last two are an IPv4 address, and the rest.\<close>

function read_groups :: "nat \<Rightarrow> nat \<Rightarrow> string \<Rightarrow> nat list \<times> bool \<times> string" where
  "read_groups limit i s =
    (if limit \<le> i then ([], False, s)
     else
      case (if i < limit - 1 then read_separator CHR '':'' i read_ipv4_addr s else None) of
        Some ((a, b, c, d), r) \<Rightarrow> ([256 * a + b, 256 * c + d], True, r)
      | None \<Rightarrow>
          (case read_separator CHR '':'' i read_group s of
             Some (g, r) \<Rightarrow>
               (let (gs, v4, r') = read_groups limit (Suc i) r in (g # gs, v4, r'))
           | None \<Rightarrow> ([], False, s)))"
  by pat_completeness auto
termination by (relation "measure (\<lambda>(limit, i, s). limit - i)") auto

declare read_groups.simps [simp del]

definition v6_of_groups :: "nat list \<Rightarrow> ip_addr option" where
  "v6_of_groups gs =
    (case map word_of_nat gs of
       [a, b, c, d, e, f, g, h] \<Rightarrow> Some (V6 a b c d e f g h)
     | _ \<Rightarrow> None)"

definition read_ipv6_addr :: "ip_addr reader" where
  "read_ipv6_addr s =
    (let (head, head_ipv4, r) = read_groups 8 0 s in
     if length head = 8 then map_option (\<lambda>a. (a, r)) (v6_of_groups head)
     else if head_ipv4 then None
     else
      do { (_, r) \<leftarrow> read_given_char CHR '':'' r;
           (_, r) \<leftarrow> read_given_char CHR '':'' r;
           (let (tail, _, r) = read_groups (8 - (length head + 1)) 0 r in
            map_option (\<lambda>a. (a, r))
              (v6_of_groups (head @ replicate (8 - length head - length tail) 0 @ tail))) })"

definition read_ip_addr :: "ip_addr reader" where
  "read_ip_addr s =
    (case read_ipv4_addr s of
       Some ((a, b, c, d), r) \<Rightarrow>
         Some (V4 (word_of_nat a) (word_of_nat b) (word_of_nat c) (word_of_nat d), r)
     | None \<Rightarrow> read_ipv6_addr s)"

definition parse_ip :: "string \<Rightarrow> ip_addr option" where
  "parse_ip s = (case read_ip_addr s of Some (a, []) \<Rightarrow> Some a | _ \<Rightarrow> None)"

section \<open>The text of an IPv4 address\<close>

text \<open>\<open>Display\<close> of an IPv4 address.\<close>

definition show_ipv4 :: "8 word \<Rightarrow> 8 word \<Rightarrow> 8 word \<Rightarrow> 8 word \<Rightarrow> string" where
  "show_ipv4 a b c d =
    dec (unat a) @ ''.'' @ dec (unat b) @ ''.'' @ dec (unat c) @ ''.'' @ dec (unat d)"

text \<open>An octet is read back whatever follows it, unless another digit does.\<close>

lemma read_octet_dec:
  assumes "n \<le> 255" and "rest = [] \<or> \<not> is_digit (hd rest)"
  shows "read_octet (dec n @ rest) = Some (n, rest)"
proof -
  have d: "takeWhile is_digit (dec n @ rest) = dec n"
    using assms(2) dec_digits [of n]
    by (cases rest) (auto simp: takeWhile_append list_all_iff takeWhile_eq_all_conv)
  have t: "takeWhile (\<lambda>c. to_digit 10 c \<noteq> None) (dec n @ rest) = dec n"
    using d by (simp add: to_digit_decimal cong: takeWhile_cong)
  have "length (dec n) \<le> 3" using assms(1) by (intro length_dec) simp_all
  moreover have "\<not> (hd (dec n) = CHR ''0'' \<and> 1 < length (dec n))"
    using dec_leading [of n] by fastforce
  ultimately show ?thesis
    using assms(1)
    unfolding read_octet_def read_number_def t Let_def by (auto simp: number_of_decimal dec_digits)
qed

lemma unat_octet: "unat (a :: 8 word) \<le> 255"
  using unsigned_less [of a, where ?'a = nat] by simp

lemma read_ipv4_show: "read_ipv4_addr (show_ipv4 a b c d) = Some ((unat a, unat b, unat c, unat d), [])"
  using read_octet_dec [OF unat_octet [of d], of "[]"]
  by (simp add: read_ipv4_addr_def show_ipv4_def read_separator_def read_given_char_def
      read_octet_dec unat_octet is_digit_def)

text \<open>Printing an IPv4 address and parsing the text gives the address.\<close>

lemma parse_show_ipv4 [simp]: "parse_ip (show_ipv4 a b c d) = Some (V4 a b c d)"
  by (simp add: parse_ip_def read_ip_addr_def read_ipv4_show)

end
