(* ===== verification/Web_Access.thy ===== *)
theory Web_Access
  imports Ip_Text Ccp_Prelude
begin

unbundle bit_operations_syntax

text \<open>
  The settings of the web server (\<open>WebAccessSettings\<close> of \<open>cc-panes-core/src/models/settings.rs\<close>)
  with its password, and the address it listens on (\<open>resolve_bind_host\<close> of
  \<open>cc-panes-web/src/main.rs\<close>, \<open>desired_bind_host\<close> of the desktop). The digest of the \<open>sha2\<close> crate
  is the argument \<open>sha256\<close>; the random salt is an argument of \<open>set_password\<close>.
\<close>

record web_access_settings =
  wa_enabled :: bool
  wa_auto_open :: bool
  wa_port :: nat
  wa_allow_lan :: bool
  wa_ip_whitelist :: "string list"
  wa_auth_enabled :: bool
  wa_username :: string
  wa_password_salt :: "string option"
  wa_password_hash :: "string option"
  wa_lock_on_idle_minutes :: nat
  wa_remote_read_only :: bool
  wa_remote_authenticated_write :: bool

definition DEFAULT_WEB_ACCESS_PORT :: nat where
  "DEFAULT_WEB_ACCESS_PORT = 18080"

definition default_web_access_username :: string where
  "default_web_access_username = ''admin''"

definition default_web_lock_on_idle_minutes :: nat where
  "default_web_lock_on_idle_minutes = 30"

definition default_web_access :: web_access_settings where
  "default_web_access =
    \<lparr>wa_enabled = True, wa_auto_open = False, wa_port = DEFAULT_WEB_ACCESS_PORT,
     wa_allow_lan = False, wa_ip_whitelist = [], wa_auth_enabled = False,
     wa_username = default_web_access_username, wa_password_salt = None, wa_password_hash = None,
     wa_lock_on_idle_minutes = default_web_lock_on_idle_minutes, wa_remote_read_only = False,
     wa_remote_authenticated_write = False\<rparr>"

definition merge_missing_defaults :: "web_access_settings \<Rightarrow> web_access_settings" where
  "merge_missing_defaults s =
    s\<lparr>wa_port := (if 1 \<le> wa_port s \<and> wa_port s \<le> 65535 then wa_port s
                 else DEFAULT_WEB_ACCESS_PORT),
      wa_username := (if trim (wa_username s) = [] then default_web_access_username
                      else trim (wa_username s)),
      wa_ip_whitelist := filter (\<lambda>v. v \<noteq> []) (map trim (wa_ip_whitelist s)),
      wa_lock_on_idle_minutes := (if 24 * 60 < wa_lock_on_idle_minutes s
                                  then default_web_lock_on_idle_minutes
                                  else wa_lock_on_idle_minutes s),
      wa_password_hash := (if wa_password_hash s = Some [] then None else wa_password_hash s),
      wa_password_salt := (if wa_password_salt s = Some [] then None else wa_password_salt s)\<rparr>"

definition password_configured :: "web_access_settings \<Rightarrow> bool" where
  "password_configured s \<longleftrightarrow> wa_password_hash s \<noteq> None \<and> wa_password_salt s \<noteq> None"

definition auth_required :: "web_access_settings \<Rightarrow> bool" where
  "auth_required s \<longleftrightarrow> wa_auth_enabled s \<and> password_configured s"

section \<open>The password\<close>

definition hex_digit :: "nat \<Rightarrow> char" where
  "hex_digit n = (if n < 10 then char_of (48 + n) else char_of (87 + n))"

definition bytes_to_hex :: "string \<Rightarrow> string" where
  "bytes_to_hex bs = concat (map (\<lambda>b. [hex_digit (byte_val b div 16), hex_digit (byte_val b mod 16)]) bs)"

text \<open>\<open>u8::from_str_radix(_, 16)\<close> on two bytes; a leading plus is a sign.\<close>

definition hex_pair :: "char \<Rightarrow> char \<Rightarrow> char option" where
  "hex_pair x y =
    (case to_digit 16 y of
       None \<Rightarrow> None
     | Some l \<Rightarrow>
         if x = CHR ''+'' then Some (char_of l)
         else (case to_digit 16 x of Some h \<Rightarrow> Some (char_of (16 * h + l)) | None \<Rightarrow> None))"

fun hex_pairs :: "string \<Rightarrow> string option" where
  "hex_pairs [] = Some []"
| "hex_pairs [x] = None"
| "hex_pairs (x # y # r) =
    (case hex_pair x y of
       Some b \<Rightarrow> map_option ((#) b) (hex_pairs r)
     | None \<Rightarrow> None)"

definition hex_to_bytes :: "string \<Rightarrow> string option" where
  "hex_to_bytes v = hex_pairs (trim v)"

definition WEB_PASSWORD_HASH_ITERATIONS :: nat where
  "WEB_PASSWORD_HASH_ITERATIONS = 120000"

definition hash_web_password :: "(string \<Rightarrow> string) \<Rightarrow> string \<Rightarrow> string \<Rightarrow> string option" where
  "hash_web_password sha256 password salt_hex =
    (case hex_to_bytes salt_hex of
       None \<Rightarrow> None
     | Some salt \<Rightarrow>
         Some (''sha256:'' @ dec WEB_PASSWORD_HASH_ITERATIONS @ '':''
           @ bytes_to_hex
               (((\<lambda>digest. sha256 (digest @ salt)) ^^ WEB_PASSWORD_HASH_ITERATIONS)
                  (password @ salt))))"

definition constant_time_eq :: "string \<Rightarrow> string \<Rightarrow> bool" where
  "constant_time_eq l r \<longleftrightarrow>
    length l = length r
    \<and> foldl (\<lambda>acc (x, y). acc OR (x XOR y)) (0 :: 8 word)
        (zip (map (\<lambda>c. word_of_nat (byte_val c)) l) (map (\<lambda>c. word_of_nat (byte_val c)) r)) = 0"

definition set_password ::
    "(string \<Rightarrow> string) \<Rightarrow> string \<Rightarrow> string \<Rightarrow> web_access_settings \<Rightarrow> web_access_settings option" where
  "set_password sha256 salt_bytes password s =
    (if trim password = [] then Some (s\<lparr>wa_password_salt := None, wa_password_hash := None\<rparr>)
     else
      let salt = bytes_to_hex salt_bytes in
      case hash_web_password sha256 (trim password) salt of
        None \<Rightarrow> None
      | Some hash \<Rightarrow> Some (s\<lparr>wa_password_salt := Some salt, wa_password_hash := Some hash\<rparr>))"

definition verify_password :: "(string \<Rightarrow> string) \<Rightarrow> web_access_settings \<Rightarrow> string \<Rightarrow> bool" where
  "verify_password sha256 s password =
    (case wa_password_salt s of
       None \<Rightarrow> False
     | Some salt \<Rightarrow>
         (case wa_password_hash s of
            None \<Rightarrow> False
          | Some expected \<Rightarrow>
              (case hash_web_password sha256 password salt of
                 None \<Rightarrow> False
               | Some actual \<Rightarrow> constant_time_eq actual expected)))"

section \<open>The address to listen on\<close>

definition desired_bind_host :: "web_access_settings \<Rightarrow> string" where
  "desired_bind_host s = (if wa_allow_lan s \<and> auth_required s then ''0.0.0.0'' else ''127.0.0.1'')"

definition is_loopback_host :: "string \<Rightarrow> bool" where
  "is_loopback_host host \<longleftrightarrow> host \<in> {''127.0.0.1'', ''::1'', ''[::1]'', ''localhost''}"

definition resolve_bind_host :: "string option \<Rightarrow> web_access_settings \<Rightarrow> string option" where
  "resolve_bind_host explicit s =
    (case explicit of
       None \<Rightarrow> Some (if wa_allow_lan s \<and> auth_required s then ''0.0.0.0'' else ''127.0.0.1'')
     | Some host \<Rightarrow>
         if is_loopback_host (trim host) then Some host
         else if auth_required s then Some host else None)"

section \<open>Facts about the password\<close>

lemma byte_word_inj: "word_of_nat (byte_val x) = (word_of_nat (byte_val y) :: 8 word) \<longleftrightarrow> x = y"
  by (simp add: word_of_nat_eq_iff take_bit_nat_eq_self)

lemma fold_xor_zero:
  "foldl (\<lambda>acc (x, y). acc OR (x XOR y)) (acc :: 8 word) ps = 0 \<longleftrightarrow>
     acc = 0 \<and> (\<forall>(x, y) \<in> set ps. x = y)"
proof (induction ps arbitrary: acc)
  case (Cons p ps)
  have x: "x XOR y = 0 \<longleftrightarrow> x = y" for x y :: "8 word" by (auto simp: bit_eq_iff bit_xor_iff)
  have o: "x OR y = 0 \<longleftrightarrow> x = 0 \<and> y = 0" for x y :: "8 word" by (auto simp: bit_eq_iff bit_or_iff)
  show ?case by (cases p) (simp add: Cons x o conj_assoc)
qed simp

lemma zip_all_eq: "length xs = length ys \<Longrightarrow> (\<forall>(x, y) \<in> set (zip xs ys). x = y) \<longleftrightarrow> xs = ys"
  by (induction xs ys rule: list_induct2) auto

lemma constant_time_eq_iff [simp]: "constant_time_eq l r \<longleftrightarrow> l = r"
proof -
  have "map (\<lambda>c. word_of_nat (byte_val c) :: 8 word) l = map (\<lambda>c. word_of_nat (byte_val c)) r \<longleftrightarrow> l = r"
    by (intro inj_map_eq_map injI) (simp add: byte_word_inj)
  then show ?thesis
    unfolding constant_time_eq_def
    by (cases "length l = length r") (simp_all only: fold_xor_zero zip_all_eq length_map, auto)
qed

lemma to_digit_hex_digit: "n < 16 \<Longrightarrow> to_digit 16 (hex_digit n) = Some n"
  by (auto simp: to_digit_def hex_digit_def is_digit_def digit_val_def of_char_of Let_def)

lemma hex_digit_not_plus: "n < 16 \<Longrightarrow> hex_digit n \<noteq> CHR ''+''"
  using to_digit_hex_digit [of n] by (auto simp: to_digit_def is_digit_def)

lemma hex_pairs_bytes_to_hex: "hex_pairs (bytes_to_hex bs) = Some bs"
proof (induction bs)
  case (Cons b bs)
  have "byte_val b div 16 < 16" by (simp add: less_mult_imp_div_less)
  moreover have "char_of (16 * (byte_val b div 16) + byte_val b mod 16) = b" by simp
  ultimately have "hex_pair (hex_digit (byte_val b div 16)) (hex_digit (byte_val b mod 16)) = Some b"
    by (simp only: hex_pair_def to_digit_hex_digit hex_digit_not_plus mod_less_divisor zero_less_numeral
        option.case if_False)
  with Cons show ?case by (simp add: bytes_to_hex_def)
qed (simp add: bytes_to_hex_def)

lemma hex_digit_plain: "n < 16 \<Longrightarrow> is_ascii (hex_digit n) \<and> \<not> is_ws_char [hex_digit n]"
  by (auto simp: hex_digit_def is_ascii_def of_char_of)

lemma hex_to_bytes_to_hex [simp]: "hex_to_bytes (bytes_to_hex bs) = Some bs"
proof -
  have d: "byte_val b div 16 < 16" "byte_val b mod 16 < 16" for b :: char
    by (simp_all add: less_mult_imp_div_less)
  have "\<forall>c \<in> set (bytes_to_hex bs). is_ascii c \<and> \<not> is_ws_char [c]"
    using hex_digit_plain [OF d(1)] hex_digit_plain [OF d(2)]
    by (simp add: bytes_to_hex_def del: is_ws_char.simps)
  then have "trim (bytes_to_hex bs) = bytes_to_hex bs" by (intro trim_ascii_noop) auto
  then show ?thesis by (simp add: hex_to_bytes_def hex_pairs_bytes_to_hex)
qed

text \<open>The password that was set is the trimmed one.\<close>

lemma set_password_total: "\<exists>s'. set_password sha256 salt password s = Some s'"
  by (simp add: set_password_def hash_web_password_def Let_def)

lemma verify_after_set:
  assumes "set_password sha256 salt password s = Some s'" and "trim password \<noteq> []"
  shows "verify_password sha256 s' q \<longleftrightarrow>
    hash_web_password sha256 q (bytes_to_hex salt)
      = hash_web_password sha256 (trim password) (bytes_to_hex salt)"
  using assms by (auto simp: set_password_def verify_password_def hash_web_password_def Let_def)

end
