(* ===== verification/Web_Auth.thy ===== *)
theory Web_Auth
  imports Web_Access Json
begin

text \<open>
  Who may do what on the web server: \<open>cc-panes-web/src/web_auth.rs\<close>, the order of the layers in
  \<open>routes/mod.rs\<close> and the input side of the terminal sockets in \<open>ws_handler.rs\<close>. A request comes
  with what the server's library has parsed of it: method, path, which header names occur, the
  text of its first cookie header, and the peer's address where the listener knows it. Every
  read of the settings is an argument of its own, because they may change between two reads; the
  map of sessions is accessed once per request, under its lock.
\<close>

section \<open>Requests and their origin\<close>

datatype http_method = GET | HEAD | OPTIONS | POST | PUT | DELETE | PATCH | OtherMethod string

datatype request_origin = Local | Remote

record web_request =
  rq_method :: http_method
  rq_path :: string
  rq_has_header :: "string \<Rightarrow> bool"
  rq_cookie :: "string option"
  rq_peer :: "ip_addr option"
  rq_origin :: "request_origin option"

definition classify_origin :: "ip_addr option \<Rightarrow> (string \<Rightarrow> bool) \<Rightarrow> request_origin" where
  "classify_origin remote_ip has_header =
    (let loopback = (case remote_ip of Some ip \<Rightarrow> is_loopback ip | None \<Rightarrow> False) in
     if \<not> loopback then Remote
     else
      let proxied = has_header ''x-forwarded-for'' \<or> has_header ''tailscale-user-login'' in
      if proxied then Remote else Local)"

definition READ_ONLY_POST_ALLOWLIST :: "string list" where
  "READ_ONLY_POST_ALLOWLIST =
    [''/api/todos/query'',
     ''/api/task-bindings/query'',
     ''/api/memories/search'',
     ''/api/memories/format'',
     ''/api/runner/ports/conflicts'',
     ''/api/launch-profiles/preview'',
     ''/api/workspace-migrations/preview'',
     ''/api/project-migrations/preview'',
     ''/api/terminal/path-link/resolve'']"

definition effective_read_only :: "request_origin \<Rightarrow> web_access_settings \<Rightarrow> bool" where
  "effective_read_only origin settings \<longleftrightarrow>
    origin = Remote \<and> wa_remote_read_only settings
    \<and> \<not> (wa_remote_authenticated_write settings \<and> auth_required settings)"

definition read_only_denies :: "request_origin \<Rightarrow> bool \<Rightarrow> http_method \<Rightarrow> string \<Rightarrow> bool" where
  "read_only_denies origin remote_read_only method path \<longleftrightarrow>
    (if \<not> remote_read_only \<or> origin = Local then False
     else if method \<in> {GET, HEAD, OPTIONS} then False
     else \<not> (method = POST \<and> path \<in> set READ_ONLY_POST_ALLOWLIST))"

section \<open>The sessions of the browser\<close>

type_synonym web_sessions = "string \<rightharpoonup> instant"

definition SESSION_TTL :: duration where
  "SESSION_TTL = from_secs (60 * 60 * 24 * 7)"

definition create_session :: "string \<Rightarrow> instant \<Rightarrow> web_sessions \<Rightarrow> web_sessions" where
  "create_session token now m = m(token \<mapsto> now)"

definition retain_fresh :: "instant \<Rightarrow> web_sessions \<Rightarrow> web_sessions" where
  "retain_fresh now m =
    (\<lambda>t. case m t of
       Some last_seen \<Rightarrow> if now - last_seen \<le> SESSION_TTL then Some last_seen else None
     | None \<Rightarrow> None)"

definition validate_session ::
    "string \<Rightarrow> duration option \<Rightarrow> instant \<Rightarrow> web_sessions \<Rightarrow> web_sessions \<times> bool" where
  "validate_session token idle now m =
    (let m = retain_fresh now m in
     case m token of
       None \<Rightarrow> (m, False)
     | Some last_seen \<Rightarrow>
         if (case idle of Some timeout \<Rightarrow> timeout < now - last_seen | None \<Rightarrow> False)
         then (m(token := None), False)
         else (m(token \<mapsto> now), True))"

definition revoke_session :: "string \<Rightarrow> web_sessions \<Rightarrow> web_sessions" where
  "revoke_session token m = m(token := None)"

definition idle_timeout :: "web_access_settings \<Rightarrow> duration option" where
  "idle_timeout s =
    (if 0 < wa_lock_on_idle_minutes s then Some (from_secs (wa_lock_on_idle_minutes s * 60))
     else None)"

definition SESSION_COOKIE :: string where
  "SESSION_COOKIE = ''ccp_web_session''"

fun find_cookie :: "string list \<Rightarrow> string option" where
  "find_cookie [] = None"
| "find_cookie (part # parts) =
    (case split_once CHR ''='' (trim part) of
       Some (name, v) \<Rightarrow> if name = SESSION_COOKIE \<and> v \<noteq> [] then Some v else find_cookie parts
     | None \<Rightarrow> find_cookie parts)"

definition session_from_request :: "web_request \<Rightarrow> string option" where
  "session_from_request rq =
    (case rq_cookie rq of
       None \<Rightarrow> None
     | Some cookie \<Rightarrow> find_cookie (split_char CHR '';'' cookie))"

definition generate_token :: "string \<Rightarrow> string" where
  "generate_token random = bytes_to_hex random"

section \<open>The layers before a protected route\<close>

datatype web_error = WebError nat string

definition remote_allowed :: "ip_addr \<Rightarrow> web_access_settings \<Rightarrow> bool" where
  "remote_allowed ip s =
    (if is_loopback ip then True
     else if \<not> wa_allow_lan s \<or> \<not> auth_required s then False
     else if wa_ip_whitelist s = [] then True
     else list_ex (\<lambda>allowed. allowed = ip) (List.map_filter parse_ip (wa_ip_whitelist s)))"

text \<open>The check of the cookie that \<open>status\<close> and \<open>access_control\<close> share.\<close>

definition check_cookie ::
    "web_access_settings \<Rightarrow> instant \<Rightarrow> web_request \<Rightarrow> web_sessions \<Rightarrow> web_sessions \<times> bool" where
  "check_cookie s now rq m =
    (case session_from_request rq of
       None \<Rightarrow> (m, False)
     | Some token \<Rightarrow> validate_session token (idle_timeout s) now m)"

definition access_control ::
    "web_access_settings \<Rightarrow> instant \<Rightarrow> web_request \<Rightarrow> web_sessions
      \<Rightarrow> web_sessions \<times> (web_error + web_request)" where
  "access_control s now rq m =
    (if (case rq_peer rq of Some ip \<Rightarrow> \<not> remote_allowed ip s | None \<Rightarrow> False)
     then (m, Inl (WebError 403 ''REMOTE_FORBIDDEN''))
     else
      let rq' = rq\<lparr>rq_origin := Some (classify_origin (rq_peer rq) (rq_has_header rq))\<rparr> in
      if \<not> auth_required s then (m, Inr rq')
      else
       let (m', authenticated) = check_cookie s now rq' m in
       if authenticated then (m', Inr rq') else (m', Inl (WebError 401 ''UNAUTHORIZED'')))"

definition origin_of :: "web_request \<Rightarrow> request_origin" where
  "origin_of rq = or_else (rq_origin rq) Remote"

definition read_only_guard :: "web_access_settings \<Rightarrow> web_request \<Rightarrow> web_error + web_request" where
  "read_only_guard s rq =
    (if read_only_denies (origin_of rq) (effective_read_only (origin_of rq) s)
          (rq_method rq) (rq_path rq)
     then Inl (WebError 403 ''READ_ONLY'') else Inr rq)"

text \<open>\<open>route_layer\<close>: what was added last runs first.\<close>

definition protected_layers ::
    "web_access_settings \<Rightarrow> web_access_settings \<Rightarrow> instant \<Rightarrow> web_request \<Rightarrow> web_sessions
      \<Rightarrow> web_sessions \<times> (web_error + web_request)" where
  "protected_layers s1 s2 now rq m =
    (case access_control s1 now rq m of
       (m', Inl e) \<Rightarrow> (m', Inl e)
     | (m', Inr rq') \<Rightarrow> (m', read_only_guard s2 rq'))"

section \<open>Logging in and out\<close>

record auth_status =
  as_auth_required :: bool
  as_authenticated :: bool
  as_username :: string
  as_password_configured :: bool
  as_allow_lan :: bool
  as_lock_on_idle_minutes :: nat
  as_read_only :: bool
  as_remote_authenticated_write :: bool

definition status ::
    "web_access_settings \<Rightarrow> instant \<Rightarrow> web_request \<Rightarrow> web_sessions
      \<Rightarrow> web_sessions \<times> auth_status" where
  "status s now rq m =
    (let (m', authenticated) =
       (if \<not> auth_required s then (m, True) else check_cookie s now rq m);
       origin = classify_origin (rq_peer rq) (rq_has_header rq)
     in (m',
       \<lparr>as_auth_required = auth_required s, as_authenticated = authenticated,
        as_username = wa_username s, as_password_configured = password_configured s,
        as_allow_lan = wa_allow_lan s, as_lock_on_idle_minutes = wa_lock_on_idle_minutes s,
        as_read_only =
          (effective_read_only origin s
           \<or> wa_remote_read_only s \<and> origin = Remote \<and> \<not> authenticated),
        as_remote_authenticated_write = wa_remote_authenticated_write s\<rparr>))"

datatype login_reply = LoginOk "string option" | LoginRefused web_error

text \<open>The reply carries the cookie that the browser is told to keep.\<close>

definition session_cookie :: "string \<Rightarrow> string" where
  "session_cookie token =
    SESSION_COOKIE @ ''='' @ token @ ''; Path=/; HttpOnly; SameSite=Lax; Max-Age=''
      @ dec (as_secs SESSION_TTL)"

definition login ::
    "(string \<Rightarrow> string) \<Rightarrow> web_access_settings \<Rightarrow> instant \<Rightarrow> string \<Rightarrow> string \<Rightarrow> string
      \<Rightarrow> web_sessions \<Rightarrow> web_sessions \<times> login_reply" where
  "login sha256 s now username password random m =
    (if \<not> auth_required s then (m, LoginOk None)
     else if \<not> (trim username = wa_username s) \<or> \<not> verify_password sha256 s password
     then (m, LoginRefused (WebError 401 ''UNAUTHORIZED''))
     else
      let token = generate_token random in
      (create_session token now m, LoginOk (Some (session_cookie token))))"

definition logout :: "web_request \<Rightarrow> web_sessions \<Rightarrow> web_sessions" where
  "logout rq m = (case session_from_request rq of Some token \<Rightarrow> revoke_session token m | None \<Rightarrow> m)"

section \<open>The input of a terminal socket\<close>

text \<open>Whether the socket is read-only is decided once, when it is opened.\<close>

definition ws_upgrade :: "web_access_settings \<Rightarrow> web_request \<Rightarrow> bool" where
  "ws_upgrade s rq = effective_read_only (origin_of rq) s"

datatype client_command = Input string | Resize nat nat

definition dimension :: "json \<Rightarrow> string \<Rightarrow> nat \<Rightarrow> nat option" where
  "dimension message name mn =
    (case Option.bind (json_get message name) json_as_u64 of
       Some v \<Rightarrow> if v \<le> 65535 \<and> mn \<le> v then Some v else None
     | None \<Rightarrow> None)"

text \<open>The argument is the parsed text, \<open>None\<close> where it is not JSON.\<close>

definition parse_command :: "json option \<Rightarrow> bool \<Rightarrow> client_command option" where
  "parse_command parsed read_only =
    (case parsed of
       None \<Rightarrow> None
     | Some message \<Rightarrow>
         let kind = or_else (Option.bind (json_get message ''type'') json_as_str) [] in
         if read_only then None
         else if kind = ''input'' then
           map_option Input (Option.bind (json_get message ''data'') json_as_str)
         else if kind = ''resize'' then
           do { cols \<leftarrow> dimension message ''cols'' 2;
                rows \<leftarrow> dimension message ''rows'' 1;
                Some (Resize cols rows) }
         else None)"

datatype ws_message = TextMessage "json option" | BinaryMessage string | CloseMessage | OtherMessage

text \<open>
  The receiving loop: the calls to the backend that the messages make. The backend's answer to
  each call is taken from a list; a failed call ends the loop, and so does a close message. A
  command that cannot be read is skipped.
\<close>

definition command_of :: "bool \<Rightarrow> ws_message \<Rightarrow> client_command option" where
  "command_of read_only msg =
    (case msg of
       TextMessage parsed \<Rightarrow> parse_command parsed read_only
     | BinaryMessage d \<Rightarrow> if \<not> read_only then map_option Input (from_utf8 d) else None
     | _ \<Rightarrow> None)"

fun ws_receive :: "bool \<Rightarrow> bool list \<Rightarrow> ws_message list \<Rightarrow> client_command list" where
  "ws_receive read_only answers [] = []"
| "ws_receive read_only answers (msg # msgs) =
    (if msg = CloseMessage then []
     else
      case command_of read_only msg of
        None \<Rightarrow> ws_receive read_only answers msgs
      | Some command \<Rightarrow>
          command #
          (case answers of
             True # answers' \<Rightarrow> ws_receive read_only answers' msgs
           | _ \<Rightarrow> []))"

end
