(* ===== verification/Web_Props.thy ===== *)
theory Web_Props
  imports Web_Auth
begin

text \<open>
  What the web server's checks guarantee: which requests reach a protected route, what a session
  token of a browser is worth, and that an address of the whitelist is the address it spells.
\<close>

section \<open>Tokens\<close>

text \<open>When a token that was last seen at a time is good for a request.\<close>

definition fresh :: "web_access_settings \<Rightarrow> instant \<Rightarrow> instant option \<Rightarrow> bool" where
  "fresh s now seen =
    (case seen of
       None \<Rightarrow> False
     | Some t \<Rightarrow> now - t \<le> SESSION_TTL
         \<and> (0 < wa_lock_on_idle_minutes s \<longrightarrow> now - t \<le> from_secs (wa_lock_on_idle_minutes s * 60)))"

lemma validate_session_fresh:
  "snd (validate_session tok (idle_timeout s) now m) \<longleftrightarrow> fresh s now (m tok)"
  by (auto simp: validate_session_def retain_fresh_def fresh_def idle_timeout_def Let_def
      split: option.splits)

lemma validate_session_map:
  "fst (validate_session tok (idle_timeout s) now m) =
    (retain_fresh now m)(tok := (if fresh s now (m tok) then Some now else None))"
  by (auto simp: validate_session_def retain_fresh_def fresh_def idle_timeout_def Let_def fun_eq_iff
      split: option.splits)

definition peer_ok :: "web_access_settings \<Rightarrow> web_request \<Rightarrow> bool" where
  "peer_ok s rq \<longleftrightarrow> (case rq_peer rq of Some ip \<Rightarrow> remote_allowed ip s | None \<Rightarrow> True)"

definition requester :: "web_request \<Rightarrow> request_origin" where
  "requester rq = classify_origin (rq_peer rq) (rq_has_header rq)"

definition good_cookie :: "web_access_settings \<Rightarrow> instant \<Rightarrow> web_request \<Rightarrow> web_sessions \<Rightarrow> bool" where
  "good_cookie s now rq m \<longleftrightarrow>
    (case session_from_request rq of Some tok \<Rightarrow> fresh s now (m tok) | None \<Rightarrow> False)"

lemma check_cookie_good: "snd (check_cookie s now rq m) \<longleftrightarrow> good_cookie s now rq m"
  by (simp add: check_cookie_def good_cookie_def validate_session_fresh split: option.split)

lemma session_from_request_origin [simp]:
  "session_from_request (rq\<lparr>rq_origin := o'\<rparr>) = session_from_request rq"
  by (simp add: session_from_request_def)

lemma good_cookie_origin [simp]: "good_cookie s now (rq\<lparr>rq_origin := o'\<rparr>) m = good_cookie s now rq m"
  by (simp add: good_cookie_def)

lemma check_cookie_origin [simp]:
  "check_cookie s now (rq\<lparr>rq_origin := o'\<rparr>) m = check_cookie s now rq m"
  by (simp add: check_cookie_def)

lemma access_control_unfold:
  "access_control s now rq m =
    (if \<not> peer_ok s rq then (m, Inl (WebError 403 ''REMOTE_FORBIDDEN''))
     else if \<not> auth_required s then (m, Inr (rq\<lparr>rq_origin := Some (requester rq)\<rparr>))
     else (fst (check_cookie s now rq m),
           if good_cookie s now rq m then Inr (rq\<lparr>rq_origin := Some (requester rq)\<rparr>)
           else Inl (WebError 401 ''UNAUTHORIZED'')))"
  by (auto simp: access_control_def peer_ok_def requester_def Let_def
      simp flip: check_cookie_good split: option.splits prod.splits)

lemma access_control_passes:
  "snd (access_control s now rq m) = Inr rq' \<longleftrightarrow>
    peer_ok s rq \<and> (auth_required s \<longrightarrow> good_cookie s now rq m)
    \<and> rq' = rq\<lparr>rq_origin := Some (requester rq)\<rparr>"
  by (auto simp: access_control_unfold)

lemma read_only_guard_passes:
  "read_only_guard s rq = Inr rq' \<longleftrightarrow> rq' = rq \<and>
    (origin_of rq = Remote \<and> wa_remote_read_only s
      \<and> rq_method rq \<notin> {GET, HEAD, OPTIONS}
      \<and> \<not> (rq_method rq = POST \<and> rq_path rq \<in> set READ_ONLY_POST_ALLOWLIST)
      \<longrightarrow> wa_remote_authenticated_write s \<and> auth_required s)"
  by (cases "origin_of rq")
    (auto simp: read_only_guard_def read_only_denies_def effective_read_only_def)

lemma remote_allowed_iff:
  "remote_allowed ip s \<longleftrightarrow>
    is_loopback ip \<or> wa_allow_lan s \<and> auth_required s
      \<and> (wa_ip_whitelist s = [] \<or> (\<exists>e \<in> set (wa_ip_whitelist s). parse_ip e = Some ip))"
proof -
  have "list_ex (\<lambda>a. a = ip) (List.map_filter parse_ip es) \<longleftrightarrow> (\<exists>e \<in> set es. parse_ip e = Some ip)" for es
    by (induction es) (auto simp: List.map_filter_simps split: option.splits)
  then show ?thesis by (auto simp: remote_allowed_def)
qed

section \<open>Which requests reach a protected route\<close>


section \<open>What a token is worth\<close>

text \<open>The requests that touch the sessions, each with the settings it read.\<close>

datatype web_op =
    WLogin web_access_settings string string string
  | WLogout web_request
  | WStatus web_access_settings web_request
  | WAccess web_access_settings web_request

fun web_do :: "(string \<Rightarrow> string) \<Rightarrow> instant \<times> web_op \<Rightarrow> web_sessions \<Rightarrow> web_sessions" where
  "web_do sha256 (now, WLogin s user password random) m = fst (login sha256 s now user password random m)"
| "web_do sha256 (now, WLogout rq) m = logout rq m"
| "web_do sha256 (now, WStatus s rq) m = fst (status s now rq m)"
| "web_do sha256 (now, WAccess s rq) m = fst (access_control s now rq m)"

text \<open>
  The same history seen from one token, with nobody else there and nothing ever purged: when it
  was last seen, if it is still good.
\<close>

fun token_seen ::
    "(string \<Rightarrow> string) \<Rightarrow> string \<Rightarrow> instant \<times> web_op \<Rightarrow> instant option \<Rightarrow> instant option" where
  "token_seen sha256 tok (now, WLogin s user password random) seen =
    (if auth_required s \<and> trim user = wa_username s \<and> verify_password sha256 s password
        \<and> generate_token random = tok then Some now else seen)"
| "token_seen sha256 tok (now, WLogout rq) seen =
    (if session_from_request rq = Some tok then None else seen)"
| "token_seen sha256 tok (now, WStatus s rq) seen =
    (if auth_required s \<and> session_from_request rq = Some tok
     then (if fresh s now seen then Some now else None) else seen)"
| "token_seen sha256 tok (now, WAccess s rq) seen =
    (if peer_ok s rq \<and> auth_required s \<and> session_from_request rq = Some tok
     then (if fresh s now seen then Some now else None) else seen)"

text \<open>The store forgets at most tokens that are past their lifetime.\<close>

definition stores :: "instant \<Rightarrow> web_sessions \<Rightarrow> (string \<Rightarrow> instant option) \<Rightarrow> bool" where
  "stores now m seen \<longleftrightarrow>
    (\<forall>tok. m tok = seen tok \<or> m tok = None \<and> (\<exists>t. seen tok = Some t \<and> SESSION_TTL < now - t))"

lemma stores_fresh: "stores now m seen \<Longrightarrow> now \<le> now' \<Longrightarrow> fresh s now' (m tok) = fresh s now' (seen tok)"
  by (erule allE [of _ tok, OF stores_def [THEN iffD1]])
    (auto simp: fresh_def)

lemma stores_later: "stores now m seen \<Longrightarrow> now \<le> now' \<Longrightarrow> stores now' m seen"
  unfolding stores_def by (meson diff_le_mono less_le_trans)

lemma stores_upd: "stores now m seen \<Longrightarrow> stores now (m(tok := v)) (seen(tok := v))"
  by (simp add: stores_def)

lemma stores_retain: "stores now m seen \<Longrightarrow> stores now (retain_fresh now m) seen"
  unfolding stores_def
proof
  fix tok
  assume a: "\<forall>tok. m tok = seen tok \<or> m tok = None \<and> (\<exists>t. seen tok = Some t \<and> SESSION_TTL < now - t)"
  show "retain_fresh now m tok = seen tok
      \<or> retain_fresh now m tok = None \<and> (\<exists>t. seen tok = Some t \<and> SESSION_TTL < now - t)"
    using spec [OF a, of tok] by (cases "m tok"; cases "seen tok") (auto simp: retain_fresh_def)
qed

lemma check_cookie_stores:
  assumes "stores now m seen"
  shows "stores now (fst (check_cookie s now rq m))
    (\<lambda>tok. if session_from_request rq = Some tok
           then (if fresh s now (seen tok) then Some now else None) else seen tok)"
proof (cases "session_from_request rq")
  case None
  with assms show ?thesis by (simp add: check_cookie_def)
next
  case (Some c)
  have "(\<lambda>tok. if c = tok then (if fresh s now (seen tok) then Some now else None) else seen tok) =
      seen(c := (if fresh s now (seen c) then Some now else None))"
    by auto
  with Some stores_fresh [OF assms order_refl] stores_upd [OF stores_retain [OF assms]]
  show ?thesis by (simp add: check_cookie_def validate_session_map)
qed

lemma web_do_stores:
  assumes "stores now m seen"
  shows "stores now (web_do sha256 (now, op) m) (\<lambda>tok. token_seen sha256 tok (now, op) (seen tok))"
proof (cases op)
  case (WLogin s user password random)
  then show ?thesis
    using stores_upd [OF assms, of "generate_token random" "Some now"] assms
    by (cases "auth_required s \<and> trim user = wa_username s \<and> verify_password sha256 s password")
      (auto simp: login_def create_session_def Let_def fun_upd_def eq_commute)
next
  case (WLogout rq)
  then show ?thesis
    using stores_upd [OF assms, where v = None] assms
    by (cases "session_from_request rq")
      (simp_all add: logout_def revoke_session_def fun_upd_def eq_commute [of _ "_ :: string"])
next
  case (WStatus s rq)
  then show ?thesis
    using assms check_cookie_stores [OF assms, of s rq]
    by (cases "auth_required s") (simp_all add: status_def Let_def case_prod_unfold)
next
  case (WAccess s rq)
  then show ?thesis
    using assms check_cookie_stores [OF assms, of s rq]
    by (cases "peer_ok s rq \<and> auth_required s") (auto simp: access_control_unfold)
qed

lemma history_stores:
  assumes "sorted (map fst h @ [now])"
  shows "stores now (fold (web_do sha256) h Map.empty) (\<lambda>tok. fold (token_seen sha256 tok) h None)"
  using assms
proof (induction h arbitrary: now rule: rev_induct)
  case Nil
  then show ?case by (simp add: stores_def)
next
  case (snoc e h)
  obtain t o' where e: "e = (t, o')" by (cases e)
  with snoc.prems have "sorted (map fst h @ [t])" "t \<le> now"
    by (auto simp: sorted_append)
  then show ?case using stores_later [OF web_do_stores [OF snoc.IH]] by (simp add: e)
qed

text \<open>A token that is good was given out by a login with the right name and password.\<close>

definition granted :: "(string \<Rightarrow> string) \<Rightarrow> string \<Rightarrow> web_op \<Rightarrow> bool" where
  "granted sha256 tok op =
    (case op of
       WLogin s user password random \<Rightarrow>
         auth_required s \<and> trim user = wa_username s \<and> verify_password sha256 s password
         \<and> generate_token random = tok
     | _ \<Rightarrow> False)"

lemma seen_after_login:
  "fold (token_seen sha256 tok) h None = Some t \<Longrightarrow> \<exists>e \<in> set h. granted sha256 tok (snd e)"
proof (induction h arbitrary: t rule: rev_induct)
  case (snoc e h)
  obtain now o' where e: "e = (now, o')" by (cases e)
  show ?case
  proof (cases "fold (token_seen sha256 tok) h None")
    case None
    with snoc.prems e show ?thesis
      by (cases o') (auto simp: fresh_def granted_def split: if_splits)
  next
    case (Some t')
    with snoc.IH show ?thesis by auto
  qed
qed simp

text \<open>
  Property C33.
  After any history of logins, logouts, status and protected requests, with the clock not going
  back, a request for a protected route with a password required is let in exactly when its
  cookie is a token that a login with the right name and password gave out and that, counting
  only the requests that carried this very token, was never logged out and never unused for
  longer than the lifetime or the idle limit in force at its next use. So the purges that other
  browsers' requests make cannot be noticed, and no request affects another's token.
\<close>

theorem sessions_mean_logins:
  assumes "sorted (map fst h @ [now])" and "auth_required s" and "peer_ok s rq"
  shows "(\<exists>rq'. snd (access_control s now rq (fold (web_do sha256) h Map.empty)) = Inr rq') \<longleftrightarrow>
    (\<exists>tok. session_from_request rq = Some tok
      \<and> fresh s now (fold (token_seen sha256 tok) h None)
      \<and> (\<exists>e \<in> set h. granted sha256 tok (snd e)))"
proof -
  have st: "fresh s now (fold (web_do sha256) h Map.empty tok) =
      fresh s now (fold (token_seen sha256 tok) h None)" for tok
    by (rule stores_fresh [OF history_stores [OF assms(1)] order_refl])
  have lg: "fresh s now (fold (token_seen sha256 tok) h None) \<longleftrightarrow>
      fresh s now (fold (token_seen sha256 tok) h None)
      \<and> (\<exists>e \<in> set h. granted sha256 tok (snd e))" for tok
    using seen_after_login [of sha256 tok h]
    by (cases "fold (token_seen sha256 tok) h None") (auto simp: fresh_def)
  show ?thesis
    unfolding access_control_passes good_cookie_def
    using assms(2, 3) lg by (auto simp: st split: option.split)
qed

section \<open>Terminal input from afar\<close>

lemma ws_receive_read_only: "ws_receive True answers msgs = []"
proof (induction msgs)
  case (Cons msg msgs)
  have "command_of True msg = None"
    by (cases msg) (simp_all add: command_of_def parse_command_def Let_def split: option.split)
  with Cons show ?case by simp
qed simp


section \<open>The whitelist and the password\<close>

text \<open>
  With the LAN allowed and a password required, a whitelist whose entries are IPv4 addresses as
  they are printed admits of the other machines exactly those addresses.
\<close>

lemma whitelist_names_addresses:
  assumes "wa_allow_lan s" and "auth_required s"
    and "wa_ip_whitelist s = map (\<lambda>(a, b, c, d). show_ipv4 a b c d) quads" and "quads \<noteq> []"
  shows "remote_allowed ip s \<longleftrightarrow>
    is_loopback ip \<or> (\<exists>(a, b, c, d) \<in> set quads. ip = V4 a b c d)"
  using assms by (auto simp: remote_allowed_iff case_prod_unfold)

section \<open>Concrete runs\<close>

text \<open>A server with the password \<open>pw\<close>, a digest that keeps four bytes, and a browser on it.\<close>

definition ex_settings :: web_access_settings where
  "ex_settings = the (set_password (take 4) ''salt'' ''pw'' (default_web_access\<lparr>wa_auth_enabled := True\<rparr>))"

definition ex_request :: web_request where
  "ex_request = \<lparr>rq_method = POST, rq_path = ''/api/sessions'', rq_has_header = (\<lambda>_. False),
     rq_cookie = Some (''a=b; ccp_web_session=6162''), rq_peer = Some (V4 127 0 0 1), rq_origin = None\<rparr>"

lemma ex_settings_set:
  "set_password (take 4) ''salt'' ''pw'' (default_web_access\<lparr>wa_auth_enabled := True\<rparr>) = Some ex_settings"
  using set_password_total [of "take 4" "''salt''" "''pw''" "default_web_access\<lparr>wa_auth_enabled := True\<rparr>"]
  by (auto simp: ex_settings_def)

lemma trim_pw: "trim ''pw'' = ''pw''" "trim ''admin'' = ''admin''"
  by code_simp+

lemma ex_verify: "verify_password (take 4) ex_settings ''pw''"
  using verify_after_set [OF ex_settings_set] by (simp add: trim_pw)

lemma hash_take4:
  "hash_web_password (take 4) q (bytes_to_hex ''salt'') =
    Some (''sha256:'' @ dec WEB_PASSWORD_HASH_ITERATIONS @ '':'' @ bytes_to_hex (take 4 (q @ ''saltsalt'')))"
proof -
  have "take 4 (take 4 (x @ ''salt'') @ ''salt'') = take 4 (x @ ''salt'')" for x
    by (subst take_append) (simp del: take_append)
  then have "((\<lambda>d. take 4 (d @ ''salt'')) ^^ Suc n) x = take 4 (x @ ''salt'')" for n x
    by (induction n) (simp_all del: take_append)
  from this [of 119999] show ?thesis
    by (simp add: hash_web_password_def WEB_PASSWORD_HASH_ITERATIONS_def del: funpow.simps take_append)
qed

lemma ex_settings_fields:
  "auth_required ex_settings" "wa_username ex_settings = ''admin''"
  "wa_lock_on_idle_minutes ex_settings = 30"
  by (simp_all add: ex_settings_def set_password_def trim_pw hash_take4 auth_required_def
      password_configured_def default_web_access_def default_web_access_username_def
      default_web_lock_on_idle_minutes_def Let_def)

lemma ex_cookie: "session_from_request ex_request = Some (generate_token ''ab'')"
  by code_simp

theorem sessions_mean_logins_witness:
  "\<exists>rq'. snd (access_control ex_settings 10 ex_request
     (fold (web_do (take 4)) [(0, WLogin ex_settings ''admin'' ''pw'' ''ab'')] Map.empty)) = Inr rq'"
proof (subst sessions_mean_logins)
  show "peer_ok ex_settings ex_request" by (simp add: peer_ok_def ex_request_def remote_allowed_def)
  show "auth_required ex_settings" by (rule ex_settings_fields)
qed (simp_all add: ex_cookie ex_verify ex_settings_fields trim_pw fresh_def granted_def
      SESSION_TTL_def from_secs_def)

text \<open>A phone behind a proxy writes to a read-only server that lets authenticated clients write.\<close>

definition ex_phone :: web_request where
  "ex_phone = ex_request\<lparr>rq_method := GET, rq_has_header := (\<lambda>n. n = ''x-forwarded-for'')\<rparr>"

definition ex_read_only :: web_access_settings where
  "ex_read_only = ex_settings\<lparr>wa_remote_read_only := True, wa_remote_authenticated_write := True\<rparr>"

lemma ex_read_only_auth: "auth_required ex_read_only"
  using ex_settings_fields(1) by (simp add: ex_read_only_def auth_required_def password_configured_def)



lemma whitelist_names_addresses_witness:
  "remote_allowed (V4 192 168 1 10)
      (ex_settings\<lparr>wa_allow_lan := True, wa_ip_whitelist := [show_ipv4 192 168 1 10]\<rparr>)
    \<and> \<not> remote_allowed (V4 192 168 1 11)
      (ex_settings\<lparr>wa_allow_lan := True, wa_ip_whitelist := [show_ipv4 192 168 1 10]\<rparr>)"
proof -
  have a: "auth_required (ex_settings\<lparr>wa_allow_lan := True, wa_ip_whitelist := [show_ipv4 192 168 1 10]\<rparr>)"
    using ex_settings_fields(1) by (simp add: auth_required_def password_configured_def)
  show ?thesis
    using whitelist_names_addresses [OF _ a, of "[(192, 168, 1, 10)]"] by simp
qed

section \<open>Where the code and its comments part\<close>

text \<open>
  The comment on \<open>ip_whitelist\<close> says that an empty list admits the clients of the same network
  segment; it admits every address.
\<close>

lemma empty_whitelist_admits_anyone:
  "wa_allow_lan s \<Longrightarrow> auth_required s \<Longrightarrow> wa_ip_whitelist s = [] \<Longrightarrow> remote_allowed ip s"
  by (simp add: remote_allowed_iff)

text \<open>
  A password is trimmed when it is set and not when it is checked, so one that begins or ends
  with a blank is refused as it was typed.
\<close>

lemma padded_password_is_refused:
  "\<exists>s'. set_password (take 4) ''salt'' '' pw'' s = Some s' \<and> \<not> verify_password (take 4) s' '' pw''"
proof -
  obtain s' where s': "set_password (take 4) ''salt'' '' pw'' s = Some s'"
    using set_password_total by blast
  have t: "trim '' pw'' = ''pw''" by code_simp
  have "\<not> verify_password (take 4) s' '' pw''"
    by (simp add: verify_after_set [OF s'] t hash_take4) code_simp
  with s' show ?thesis by blast
qed

end
