(* ===== verification/Daemon_Http.thy ===== *)
theory Daemon_Http
  imports Utf8_Stream App_Error Json
begin

text \<open>
  How the desktop talks HTTP/1.1 to the daemon (\<open>cc-panes-core/src/services/daemon_client.rs\<close>):
  the framing of responses read from a keep-alive connection, the pool of idle connections and
  the one retry. What the reads of a connection return is a list of events; an empty list is a
  peer that stays silent until the read times out.
\<close>

section \<open>Text\<close>

abbreviation CRLF :: string where
  "CRLF \<equiv> [CHR 0x0D, CHR 0x0A]"

text \<open>
  \<open>String::from_utf8_lossy\<close>: U+FFFD for every longest piece that begins no well-formed sequence
  to its end.
\<close>

definition invalid_len :: "string \<Rightarrow> nat" where
  "invalid_len s =
    (if utf8_incomplete (take 3 s) then 3 else if utf8_incomplete (take 2 s) then 2 else 1)"

definition REPLACEMENT :: string where
  "REPLACEMENT = [CHR 0xEF, CHR 0xBF, CHR 0xBD]"

function from_utf8_lossy :: "string \<Rightarrow> string" where
  "from_utf8_lossy s =
    (if s = [] then []
     else
      case utf8_step s of
        Some r \<Rightarrow> take (length s - length r) s @ from_utf8_lossy r
      | None \<Rightarrow> REPLACEMENT @ from_utf8_lossy (drop (invalid_len s) s))"
  by pat_completeness auto
termination
  by (relation "measure length") (auto simp: utf8_step_shorter invalid_len_def)

declare from_utf8_lossy.simps [simp del]

section \<open>The head of a response\<close>

datatype body_framing = ContentLength nat | Chunked | UntilClose

record response_head =
  rh_framing :: body_framing
  rh_connection_close :: bool

definition status_code :: "string \<Rightarrow> nat option" where
  "status_code status_line =
    Option.bind (vec_get (split_whitespace status_line) 1) (parse_unsigned 65535)"

definition status_has_no_body :: "string \<Rightarrow> bool" where
  "status_has_no_body status_line =
    (case status_code status_line of
       None \<Rightarrow> False
     | Some code \<Rightarrow> 100 \<le> code \<and> code < 200 \<or> code = 204 \<or> code = 304)"

definition header_line :: "bool \<Rightarrow> string \<Rightarrow> response_head \<Rightarrow> response_head" where
  "header_line no_body line h =
    (case split_once CHR '':'' line of
       None \<Rightarrow> h
     | Some (name, v) \<Rightarrow>
         let v = trim v in
         if eq_ignore_ascii_case name ''content-length'' then
           (case parse_unsigned 18446744073709551615 v of
              Some n \<Rightarrow> if no_body then h else h\<lparr>rh_framing := ContentLength n\<rparr>
            | None \<Rightarrow> h)
         else if eq_ignore_ascii_case name ''transfer-encoding''
                 \<and> str_contains ''chunked'' (to_ascii_lowercase v) then
           (if no_body then h else h\<lparr>rh_framing := Chunked\<rparr>)
         else if eq_ignore_ascii_case name ''connection'' \<and> eq_ignore_ascii_case v ''close'' then
           h\<lparr>rh_connection_close := True\<rparr>
         else h)"

definition parse_response_head :: "string \<Rightarrow> response_head" where
  "parse_response_head head =
    (let ls = str_lines head;
         status_line = (case ls of l # _ \<Rightarrow> l | [] \<Rightarrow> []);
         no_body = status_has_no_body status_line
     in fold (header_line no_body) (tl ls)
          \<lparr>rh_framing = (if no_body then ContentLength 0 else UntilClose),
           rh_connection_close = False\<rparr>)"

section \<open>Reading\<close>

datatype io_kind = ConnectionReset | ConnectionAborted | WouldBlock | TimedOut | OtherKind

text \<open>\<open>ReadOk []\<close> is the end of the stream.\<close>

datatype read_event = ReadOk string | ReadErr io_kind

text \<open>\<open>Panicked\<close> is the overflow of \<open>size + 2\<close> for the two largest chunk sizes.\<close>

datatype client_error = Protocol string | IoFailure io_kind | Panicked

datatype exchange_error = Stale client_error | Io client_error

fun read_head ::
    "string \<Rightarrow> read_event list \<Rightarrow> exchange_error + (string \<times> string \<times> read_event list)" where
  "read_head bytes evs =
    (case str_find (CRLF @ CRLF) bytes of
       Some index \<Rightarrow> Inr (take (index + 4) bytes, drop (index + 4) bytes, evs)
     | None \<Rightarrow>
         (case evs of
            [] \<Rightarrow> Inl (Io (IoFailure TimedOut))
          | ReadOk d # evs' \<Rightarrow>
              if d = [] then
                (if bytes = [] then Inl (Stale (Protocol ''daemon closed the connection before responding''))
                 else Inl (Io (Protocol ''invalid daemon HTTP response: truncated headers'')))
              else read_head (bytes @ d) evs'
          | ReadErr kind # evs' \<Rightarrow>
              if bytes = [] \<and> (kind = ConnectionReset \<or> kind = ConnectionAborted)
              then Inl (Stale (IoFailure kind)) else Inl (Io (IoFailure kind))))"

declare read_head.simps [simp del]

text \<open>Read on until there are \<open>needed\<close> bytes; the message says what a shorter stream means.\<close>

fun fill ::
    "string \<Rightarrow> nat \<Rightarrow> string \<Rightarrow> read_event list \<Rightarrow> client_error + (string \<times> read_event list)" where
  "fill truncated needed buffered evs =
    (if needed \<le> length buffered then Inr (buffered, evs)
     else
      case evs of
        [] \<Rightarrow> Inl (IoFailure TimedOut)
      | ReadOk d # evs' \<Rightarrow>
          if d = [] then Inl (Protocol truncated) else fill truncated needed (buffered @ d) evs'
      | ReadErr kind # evs' \<Rightarrow> Inl (IoFailure kind))"

declare fill.simps [simp del]

definition truncated_chunked :: string where
  "truncated_chunked = ''invalid daemon HTTP response: truncated chunked body''"

text \<open>The position of the next CR LF; asking for one more byte makes one read.\<close>

fun read_line ::
    "string \<Rightarrow> read_event list \<Rightarrow> client_error + (nat \<times> string \<times> read_event list)" where
  "read_line buffered evs =
    (case str_find CRLF buffered of
       Some index \<Rightarrow> Inr (index, buffered, evs)
     | None \<Rightarrow>
         (case evs of
            [] \<Rightarrow> Inl (IoFailure TimedOut)
          | ReadOk d # evs' \<Rightarrow>
              if d = [] then Inl (Protocol truncated_chunked) else read_line (buffered @ d) evs'
          | ReadErr kind # evs' \<Rightarrow> Inl (IoFailure kind)))"

declare read_line.simps [simp del]

text \<open>Reading moves bytes from the events into the buffer and keeps their number.\<close>

fun event_bytes :: "read_event \<Rightarrow> nat" where
  "event_bytes (ReadOk d) = length d"
| "event_bytes (ReadErr k) = 0"

definition pending :: "string \<Rightarrow> read_event list \<Rightarrow> nat" where
  "pending buffered evs = length buffered + sum_list (map event_bytes evs)"

lemma fill_pending:
  "fill m n b evs = Inr (b', evs') \<Longrightarrow> pending b' evs' = pending b evs \<and> n \<le> length b'"
proof (induction m n b evs rule: fill.induct)
  case (1 m n b evs)
  from 1(2) show ?case
    by (subst (asm) fill.simps)
      (auto simp: pending_def split: if_splits list.splits read_event.splits dest!: 1(1))
qed

lemma str_find_fits: "str_find pat s = Some i \<Longrightarrow> i + length pat \<le> length s"
proof (induction pat s arbitrary: i rule: str_find.induct)
  case (2 pat c cs)
  have "take (length pat) (c # cs) = pat \<Longrightarrow> length pat \<le> length (c # cs)"
    by (metis length_take min.cobounded1)
  with 2 show ?case by (auto split: if_splits)
qed (simp split: if_splits)

lemma read_line_pending:
  "read_line b evs = Inr (i, b', evs') \<Longrightarrow>
     pending b' evs' = pending b evs \<and> str_find CRLF b' = Some i"
proof (induction b evs rule: read_line.induct)
  case (1 b evs)
  from 1(2) show ?case
    by (subst (asm) read_line.simps)
      (auto simp: pending_def split: option.splits if_splits list.splits read_event.splits dest!: 1(1))
qed

lemma pending_drop: "n \<le> length b \<Longrightarrow> pending (drop n b) evs + n = pending b evs"
  by (simp add: pending_def)

function skip_trailers :: "string \<Rightarrow> read_event list \<Rightarrow> client_error + read_event list" where
  "skip_trailers buffered evs =
    (case fill truncated_chunked 2 buffered evs of
       Inl e \<Rightarrow> Inl e
     | Inr (buffered, evs) \<Rightarrow>
         if take 2 buffered = CRLF then Inr evs
         else
          (case read_line buffered evs of
             Inl e \<Rightarrow> Inl e
           | Inr (line_end, buffered, evs) \<Rightarrow> skip_trailers (drop (line_end + 2) buffered) evs))"
  by pat_completeness auto
termination
proof (relation "measure (\<lambda>(b, evs). pending b evs)", goal_cases)
  case (2 b evs ev b1 evs1 b2 i r b3 evs3)
  then have "pending b3 evs3 = pending b evs" "i + 2 \<le> length b3"
    using fill_pending read_line_pending str_find_fits by (fastforce dest: str_find_fits)+
  then show ?case using pending_drop [of "i + 2" b3 evs3] by simp
qed simp

declare skip_trailers.simps [simp del]

definition chunk_size :: "string \<Rightarrow> nat option" where
  "chunk_size size_line =
    parse_hex_usize (trim (hd (split_char CHR '';'' (from_utf8_lossy size_line))))"

function decode_chunked ::
    "string \<Rightarrow> string \<Rightarrow> read_event list \<Rightarrow> client_error + (string \<times> read_event list)" where
  "decode_chunked decoded buffered evs =
    (case read_line buffered evs of
       Inl e \<Rightarrow> Inl e
     | Inr (line_end, buffered, evs) \<Rightarrow>
         (case chunk_size (take line_end buffered) of
            None \<Rightarrow> Inl (Protocol ''invalid daemon HTTP response: bad chunk size'')
          | Some sz \<Rightarrow>
              let buffered = drop (line_end + 2) buffered in
              if sz = 0 then
                (case skip_trailers buffered evs of Inl e \<Rightarrow> Inl e | Inr evs \<Rightarrow> Inr (decoded, evs))
              else if 18446744073709551615 < sz + 2 then Inl Panicked
              else
               (case fill truncated_chunked (sz + 2) buffered evs of
                  Inl e \<Rightarrow> Inl e
                | Inr (buffered, evs) \<Rightarrow>
                    decode_chunked (decoded @ take sz buffered) (drop (sz + 2) buffered) evs)))"
  by pat_completeness auto
termination
proof (relation "measure (\<lambda>(d, b, evs). pending b evs)", goal_cases)
  case (2 d b evs ev i r b1 evs1 sz b2 f b3 evs3)
  then have "pending b1 evs1 = pending b evs" "i + 2 \<le> length b1"
    using read_line_pending by (fastforce dest: str_find_fits)+
  moreover have "pending b3 evs3 = pending b2 evs1" "sz + 2 \<le> length b3"
    using fill_pending 2 by fastforce+
  ultimately show ?case
    using 2 pending_drop [of "i + 2" b1 evs1] pending_drop [of "sz + 2" b3 evs3] by simp
qed simp

declare decode_chunked.simps [simp del]

text \<open>Read to the end of the stream; a silent peer is an end once something has come.\<close>

fun read_until_close ::
    "string \<Rightarrow> read_event list \<Rightarrow> client_error + (string \<times> read_event list)" where
  "read_until_close body [] = (if body \<noteq> [] then Inr (body, []) else Inl (IoFailure TimedOut))"
| "read_until_close body (ReadOk d # evs) =
    (if d = [] then Inr (body, evs) else read_until_close (body @ d) evs)"
| "read_until_close body (ReadErr kind # evs) =
    (if (kind = WouldBlock \<or> kind = TimedOut) \<and> body \<noteq> [] then Inr (body, evs)
     else Inl (IoFailure kind))"

definition read_body ::
    "response_head \<Rightarrow> string \<Rightarrow> read_event list \<Rightarrow> client_error + (string \<times> bool \<times> read_event list)" where
  "read_body parsed body evs =
    (case rh_framing parsed of
       ContentLength n \<Rightarrow>
         (case fill ''invalid daemon HTTP response: truncated body'' n body evs of
            Inl e \<Rightarrow> Inl e
          | Inr (body, evs) \<Rightarrow> Inr (take n body, \<not> rh_connection_close parsed, evs))
     | Chunked \<Rightarrow>
         (case decode_chunked [] body evs of
            Inl e \<Rightarrow> Inl e
          | Inr (body, evs) \<Rightarrow> Inr (body, \<not> rh_connection_close parsed, evs))
     | UntilClose \<Rightarrow>
         (case read_until_close body evs of
            Inl e \<Rightarrow> Inl e
          | Inr (body, evs) \<Rightarrow> Inr (body, False, evs)))"

definition exchange_http ::
    "bool \<Rightarrow> read_event list \<Rightarrow> exchange_error + (string \<times> bool \<times> read_event list)" where
  "exchange_http written evs =
    (if \<not> written then Inl (Stale (IoFailure OtherKind))
     else
      case read_head [] evs of
        Inl e \<Rightarrow> Inl e
      | Inr (bytes, body, evs) \<Rightarrow>
          let head = from_utf8_lossy bytes; parsed = parse_response_head head in
          (case read_body parsed body evs of
             Inl e \<Rightarrow> Inl (Io e)
           | Inr (body, reusable, evs) \<Rightarrow>
               (case from_utf8 body of
                  None \<Rightarrow> Inl (Io (Protocol ''invalid utf-8''))
                | Some text \<Rightarrow> Inr (head @ text, reusable, evs))))"

definition split_http_response :: "string \<Rightarrow> client_error + (nat \<times> string)" where
  "split_http_response response =
    (case str_find (CRLF @ CRLF) response of
       None \<Rightarrow> Inl (Protocol ''invalid daemon HTTP response'')
     | Some i \<Rightarrow>
         let head = take i response; body = drop (i + 4) response in
         (case str_lines head of
            [] \<Rightarrow> Inl (Protocol ''missing daemon HTTP status line'')
          | status_line # _ \<Rightarrow>
              (case vec_get (split_whitespace status_line) 1 of
                 None \<Rightarrow> Inl (Protocol ''missing daemon HTTP status code'')
               | Some w \<Rightarrow>
                   (case parse_unsigned 65535 w of
                      None \<Rightarrow> Inl (Protocol ''invalid daemon HTTP status code'')
                    | Some code \<Rightarrow> Inr (code, body)))))"

section \<open>Requests over the pool\<close>

record http_client =
  hc_addr :: string
  hc_token :: string
  hc_instance_id :: string

definition build_request :: "http_client \<Rightarrow> string \<Rightarrow> string \<Rightarrow> bool \<Rightarrow> string option \<Rightarrow> string" where
  "build_request c method path authorize body =
    method @ '' '' @ path @ '' HTTP/1.1'' @ CRLF
      @ ''Host: '' @ hc_addr c @ CRLF @ ''Accept: application/json'' @ CRLF
      @ (if authorize
         then ''Authorization: Bearer '' @ hc_token c @ CRLF
                @ ''X-CC-Panes-Instance: '' @ hc_instance_id c @ CRLF
         else [])
      @ (case body of
           Some b \<Rightarrow> ''Content-Type: application/json'' @ CRLF
                       @ ''Content-Length: '' @ dec (length b) @ CRLF
         | None \<Rightarrow> [])
      @ CRLF @ or_else body []"

text \<open>
  A connection is the script of its peer: for each request in turn whether it can be written, and
  what the reads return from then on. Bytes that were not read stay for the next response.
\<close>

record connection =
  cn_unread :: "read_event list"
  cn_script :: "(bool \<times> read_event list) list"

definition exchange :: "connection \<Rightarrow> connection \<times> (exchange_error + (string \<times> bool))" where
  "exchange cn =
    (case cn_script cn of
       [] \<Rightarrow> (cn, Inl (Stale (IoFailure OtherKind)))
     | (written, evs) # script \<Rightarrow>
         (case exchange_http written (cn_unread cn @ evs) of
            Inl e \<Rightarrow> (cn\<lparr>cn_script := script\<rparr>, Inl e)
          | Inr (response, reusable, evs') \<Rightarrow>
              (\<lparr>cn_unread = evs', cn_script = script\<rparr>, Inr (response, reusable))))"

definition POOL_MAX_IDLE :: nat where
  "POOL_MAX_IDLE = 4"

definition take_idle_connection :: "connection list \<Rightarrow> connection list \<times> connection option" where
  "take_idle_connection pool = (if pool = [] then ([], None) else (butlast pool, Some (last pool)))"

definition return_idle_connection :: "connection \<Rightarrow> connection list \<Rightarrow> connection list" where
  "return_idle_connection cn pool = (if length pool < POOL_MAX_IDLE then pool @ [cn] else pool)"

text \<open>
  One turn of the loop, on a connection from the pool or a new one.
\<close>

definition use_connection ::
    "connection \<Rightarrow> connection list \<Rightarrow> connection list \<times> (exchange_error + string)" where
  "use_connection cn pool =
    (case exchange cn of
       (cn', Inr (response, reusable)) \<Rightarrow>
         (if reusable then return_idle_connection cn' pool else pool, Inr response)
     | (cn', Inl e) \<Rightarrow> (pool, Inl e))"

definition the_failure :: "exchange_error \<Rightarrow> client_error" where
  "the_failure e = (case e of Stale x \<Rightarrow> x | Io x \<Rightarrow> x)"

text \<open>
  \<open>others\<close> is what other threads do to the pool while this one waits for its answer; \<open>connected\<close>
  is what connecting gives. The result lists the connections that were handed the request.
\<close>

definition request_with_timeout ::
    "(connection list \<Rightarrow> connection list) \<Rightarrow> client_error + connection \<Rightarrow> connection list
      \<Rightarrow> connection list \<times> connection list \<times> (client_error + string)" where
  "request_with_timeout others connected pool =
    (let afresh = (\<lambda>handed pool.
       case connected of
         Inl e \<Rightarrow> (pool, handed, Inl e)
       | Inr cn \<Rightarrow>
           (case use_connection cn pool of
              (pool, Inr response) \<Rightarrow> (pool, handed @ [cn], Inr response)
            | (pool, Inl e) \<Rightarrow> (pool, handed @ [cn], Inl (the_failure e))));
         (pool, pooled) = take_idle_connection pool
     in
     case pooled of
       None \<Rightarrow> afresh [] (others pool)
     | Some cn \<Rightarrow>
         (case use_connection cn (others pool) of
            (pool, Inr response) \<Rightarrow> (pool, [cn], Inr response)
          | (pool, Inl (Stale e)) \<Rightarrow> afresh [cn] pool
          | (pool, Inl (Io e)) \<Rightarrow> (pool, [cn], Inl e)))"

end
