(* ===== verification/Http_Props.thy ===== *)
theory Http_Props
  imports Daemon_Http
begin

text \<open>
  A response is read back as it was sent, whatever pieces it arrives in, and leaves the
  connection at the start of the next one.
\<close>

section \<open>Searching in a prefix\<close>

lemma str_find_Some_iff:
  "pat \<noteq> [] \<Longrightarrow> str_find pat s = Some i \<longleftrightarrow>
    take (length pat) (drop i s) = pat \<and> (\<forall>j < i. take (length pat) (drop j s) \<noteq> pat)"
proof (induction s arbitrary: i)
  case (Cons c cs)
  then show ?case by (cases i) (auto simp: less_Suc_eq_0_disj)
qed auto

lemma str_find_append:
  assumes "pat \<noteq> []" and "str_find pat (a @ b) = Some i"
  shows "str_find pat a = (if i + length pat \<le> length a then Some i else None)"
proof -
  have inside: "take (length pat) (drop j a) = take (length pat) (drop j (a @ b))"
    if "j + length pat \<le> length a" for j
    using that by simp
  have short: "take (length pat) (drop j a) \<noteq> pat" if "\<not> j + length pat \<le> length a" for j
  proof
    assume e: "take (length pat) (drop j a) = pat"
    have "length (take (length pat) (drop j a)) < length pat"
    proof -
      have "0 < length pat" using assms(1) by simp
      with that show ?thesis by (simp, linarith)
    qed
    with e show False by simp
  qed
  have at_i: "take (length pat) (drop i (a @ b)) = pat"
    and before: "\<And>j. j < i \<Longrightarrow> take (length pat) (drop j (a @ b)) \<noteq> pat"
    using assms by (simp_all add: str_find_Some_iff)
  show ?thesis
  proof (cases "i + length pat \<le> length a")
    case True
    then have "take (length pat) (drop j a) = take (length pat) (drop j (a @ b))" if "j \<le> i" for j
      using that by (intro inside) simp
    then have "str_find pat a = Some i"
      using at_i before unfolding str_find_Some_iff [OF assms(1)] by (metis less_imp_le order_refl)
    with True show ?thesis by simp
  next
    case False
    have "str_find pat a = None"
    proof (rule ccontr)
      assume "str_find pat a \<noteq> None"
      then obtain j where j: "str_find pat a = Some j" by blast
      then have fits: "j + length pat \<le> length a" by (rule str_find_fits)
      then have "j < i" using False by simp
      moreover have "take (length pat) (drop j (a @ b)) = pat"
        using j unfolding str_find_Some_iff [OF assms(1)] inside [OF fits] by blast
      ultimately show False using before by blast
    qed
    with False show ?thesis by simp
  qed
qed

section \<open>Streams in pieces\<close>

text \<open>The buffer and the pieces to come are the bytes \<open>s\<close>; what follows them is \<open>after\<close>.\<close>

definition feeds :: "string \<Rightarrow> read_event list \<Rightarrow> string \<Rightarrow> read_event list \<Rightarrow> bool" where
  "feeds b evs s after \<longleftrightarrow>
    (\<exists>segs. evs = map ReadOk segs @ after \<and> [] \<notin> set segs \<and> b @ concat segs = s)"

lemma feeds_step:
  assumes "feeds b evs s after" and "length b < length s"
  obtains d evs' where "evs = ReadOk d # evs'" "d \<noteq> []" "feeds (b @ d) evs' s after"
proof -
  obtain segs where s: "evs = map ReadOk segs @ after" "[] \<notin> set segs" "b @ concat segs = s"
    using assms(1) by (auto simp: feeds_def)
  with assms(2) obtain d r where "segs = d # r" by (cases segs) auto
  with s show ?thesis by (intro that [of d "map ReadOk r @ after"]) (auto simp: feeds_def)
qed

lemma feeds_prefix: "feeds b evs s after \<Longrightarrow> \<exists>r. s = b @ r"
  by (auto simp: feeds_def)

lemma feeds_drop: "feeds b evs s after \<Longrightarrow> n \<le> length b \<Longrightarrow> feeds (drop n b) evs (drop n s) after"
  by (auto simp: feeds_def)

lemma feeds_end: "feeds b evs s after \<Longrightarrow> length s \<le> length b \<Longrightarrow> b = s \<and> evs = after"
proof -
  assume f: "feeds b evs s after" and l: "length s \<le> length b"
  obtain segs where s: "evs = map ReadOk segs @ after" "[] \<notin> set segs" "b @ concat segs = s"
    using f by (auto simp: feeds_def)
  then have "concat segs = []" using l by auto
  then have "segs = []" using s(2) by (cases segs) auto
  with s show ?thesis by simp
qed

lemma feeds_take: "feeds b evs s after \<Longrightarrow> n \<le> length b \<Longrightarrow> take n b = take n s"
  by (auto dest: feeds_prefix)

lemma feeds_find:
  assumes "feeds b evs s after" and "pat \<noteq> []" and "str_find pat s = Some i"
  shows "str_find pat b = (if i + length pat \<le> length b then Some i else None)"
proof -
  obtain r where "s = b @ r" using feeds_prefix [OF assms(1)] ..
  with assms(2, 3) show ?thesis using str_find_append by blast
qed

lemma fill_feeds:
  assumes "feeds b evs s after" and "n \<le> length s"
  shows "\<exists>b' evs'. fill m n b evs = Inr (b', evs') \<and> feeds b' evs' s after \<and> n \<le> length b'"
  using assms
proof (induction m n b evs rule: fill.induct)
  case (1 m n b evs)
  show ?case
  proof (cases "n \<le> length b")
    case True
    with 1(2) show ?thesis by (simp add: fill.simps)
  next
    case False
    then obtain d evs' where e: "evs = ReadOk d # evs'" "d \<noteq> []" "feeds (b @ d) evs' s after"
      using feeds_step [OF 1(2)] 1(3) by (metis le_trans not_le)
    from 1(1) [OF False e(1) refl e(2) e(3) 1(3)] show ?thesis
      by (subst fill.simps) (use e False in simp)
  qed
qed

lemma read_line_feeds:
  assumes "feeds b evs s after" and "str_find CRLF s = Some i"
  shows "\<exists>b' evs'. read_line b evs = Inr (i, b', evs') \<and> feeds b' evs' s after \<and> i + 2 \<le> length b'"
  using assms
proof (induction b evs rule: read_line.induct)
  case (1 b evs)
  have f: "str_find CRLF b = (if i + 2 \<le> length b then Some i else None)"
    using feeds_find [OF 1(2) _ 1(3)] by simp
  show ?case
  proof (cases "i + 2 \<le> length b")
    case True
    with 1(2) f show ?thesis by (simp add: read_line.simps)
  next
    case False
    moreover have "i + 2 \<le> length s" using str_find_fits [OF 1(3)] by simp
    ultimately obtain d evs' where e: "evs = ReadOk d # evs'" "d \<noteq> []" "feeds (b @ d) evs' s after"
      using feeds_step [OF 1(2)] by (metis le_trans not_le)
    from f False have n: "str_find CRLF b = None" by simp
    from 1(1) [OF n e(1) refl e(2) e(3) 1(3)] show ?thesis
      by (subst read_line.simps) (use e n in simp)
  qed
qed

lemma read_head_feeds:
  assumes "feeds b evs s after" and "str_find (CRLF @ CRLF) s = Some i"
  shows "\<exists>b' evs'. read_head b evs = Inr (take (i + 4) s, b', evs') \<and> feeds b' evs' (drop (i + 4) s) after"
  using assms
proof (induction b evs rule: read_head.induct)
  case (1 b evs)
  have f: "str_find (CRLF @ CRLF) b = (if i + 4 \<le> length b then Some i else None)"
    using feeds_find [OF 1(2) _ 1(3)] by simp
  show ?case
  proof (cases "i + 4 \<le> length b")
    case True
    then show ?thesis
      using feeds_drop [OF 1(2) True] feeds_take [OF 1(2) True] f by (subst read_head.simps) simp
  next
    case False
    moreover have "i + 4 \<le> length s" using str_find_fits [OF 1(3)] by simp
    ultimately obtain d evs' where e: "evs = ReadOk d # evs'" "d \<noteq> []" "feeds (b @ d) evs' s after"
      using feeds_step [OF 1(2)] by (metis le_trans not_le)
    from f False have n: "str_find (CRLF @ CRLF) b = None" by simp
    from 1(1) [OF n e(1) refl e(2) e(3) 1(3)] show ?thesis
      by (subst read_head.simps) (use e n in simp)
  qed
qed

section \<open>Bodies in chunks\<close>

lemma find_line: "CHR 0x0D \<notin> set l \<Longrightarrow> str_find CRLF (l @ CRLF @ r) = Some (length l)"
  by (induction l) auto

definition trailer_lines :: "string list \<Rightarrow> string" where
  "trailer_lines ts = concat (map (\<lambda>l. l @ CRLF) ts) @ CRLF"

lemma skip_trailers_feeds:
  assumes "feeds b evs (trailer_lines ts) after" and "\<forall>l \<in> set ts. l \<noteq> [] \<and> CHR 0x0D \<notin> set l"
  shows "skip_trailers b evs = Inr after"
  using assms
proof (induction ts arbitrary: b evs)
  case Nil
  then have f: "feeds b evs CRLF after" by (simp add: trailer_lines_def)
  obtain b' evs' where r: "fill truncated_chunked 2 b evs = Inr (b', evs')" "feeds b' evs' CRLF after" "2 \<le> length b'"
    using fill_feeds [OF f, of 2 truncated_chunked] by auto
  have "b' = CRLF \<and> evs' = after" using feeds_end [OF r(2)] r(3) by simp
  with r(1) show ?case by (subst skip_trailers.simps) simp
next
  case (Cons l ts)
  let ?s = "l @ CRLF @ trailer_lines ts"
  have s: "trailer_lines (l # ts) = ?s" by (simp add: trailer_lines_def)
  obtain b1 e1 where r: "fill truncated_chunked 2 b evs = Inr (b1, e1)" "feeds b1 e1 ?s after" "2 \<le> length b1"
    using fill_feeds [OF Cons.prems(1), of 2 truncated_chunked] s by (auto simp: trailer_lines_def)
  have "take 2 b1 = take 2 ?s" using feeds_take [OF r(2, 3)] .
  moreover have "hd (take 2 ?s) \<noteq> CHR 0x0D" using Cons.prems(2) by (cases l) auto
  ultimately have n: "take 2 b1 \<noteq> CRLF" by auto
  obtain b2 e2 where q: "read_line b1 e1 = Inr (length l, b2, e2)" "feeds b2 e2 ?s after" "length l + 2 \<le> length b2"
    using read_line_feeds [OF r(2) find_line] Cons.prems(2) by auto
  have "feeds (drop (length l + 2) b2) e2 (trailer_lines ts) after"
    using feeds_drop [OF q(2, 3)] by simp
  then show ?case
    using Cons r(1) n q(1) by (subst skip_trailers.simps) simp
qed

text \<open>A chunk is its size line and its data.\<close>

definition chunk_ok :: "string \<times> string \<Rightarrow> bool" where
  "chunk_ok = (\<lambda>(l, d). CHR 0x0D \<notin> set l \<and> d \<noteq> [] \<and> chunk_size l = Some (length d)
    \<and> length d + 2 \<le> 18446744073709551615)"

definition chunked_wire :: "(string \<times> string) list \<Rightarrow> string \<Rightarrow> string list \<Rightarrow> string" where
  "chunked_wire ps z ts =
    concat (map (\<lambda>(l, d). l @ CRLF @ d @ CRLF) ps) @ z @ CRLF @ trailer_lines ts"

definition chunks_ok :: "(string \<times> string) list \<Rightarrow> string \<Rightarrow> string list \<Rightarrow> bool" where
  "chunks_ok ps z ts \<longleftrightarrow> list_all chunk_ok ps \<and> CHR 0x0D \<notin> set z \<and> chunk_size z = Some 0
    \<and> list_all (\<lambda>l. l \<noteq> [] \<and> CHR 0x0D \<notin> set l) ts"

lemma decode_chunked_feeds:
  assumes "feeds b evs (chunked_wire ps z ts) after" and "chunks_ok ps z ts"
  shows "decode_chunked acc b evs = Inr (acc @ concat (map snd ps), after)"
  using assms
proof (induction ps arbitrary: acc b evs)
  case Nil
  let ?s = "z @ CRLF @ trailer_lines ts"
  have z: "CHR 0x0D \<notin> set z" "chunk_size z = Some 0" using Nil.prems(2) by (auto simp: chunks_ok_def)
  obtain b1 e1 where q: "read_line b evs = Inr (length z, b1, e1)" "feeds b1 e1 ?s after" "length z + 2 \<le> length b1"
    using read_line_feeds [OF _ find_line [OF z(1)]] Nil.prems(1) by (force simp: chunked_wire_def)
  have "take (length z) b1 = z" using feeds_take [OF q(2), of "length z"] q(3) by simp
  moreover have "skip_trailers (drop (length z + 2) b1) e1 = Inr after"
    using feeds_drop [OF q(2, 3)] Nil.prems(2)
    by (intro skip_trailers_feeds) (auto simp: chunks_ok_def list_all_iff)
  ultimately show ?case using q(1) z(2) by (subst decode_chunked.simps) simp
next
  case (Cons p ps)
  obtain l d where p: "p = (l, d)" by (cases p)
  let ?t = "d @ CRLF @ chunked_wire ps z ts"
  let ?s = "l @ CRLF @ ?t"
  have ok: "CHR 0x0D \<notin> set l" "d \<noteq> []" "chunk_size l = Some (length d)"
      "length d + 2 \<le> 18446744073709551615" "chunks_ok ps z ts"
    using Cons.prems(2) by (auto simp: chunks_ok_def chunk_ok_def p)
  obtain b1 e1 where q: "read_line b evs = Inr (length l, b1, e1)" "feeds b1 e1 ?s after" "length l + 2 \<le> length b1"
    using read_line_feeds [OF _ find_line [OF ok(1)]] Cons.prems(1) by (force simp: chunked_wire_def p)
  have l: "take (length l) b1 = l" using feeds_take [OF q(2), of "length l"] q(3) by simp
  have f: "feeds (drop (length l + 2) b1) e1 ?t after" using feeds_drop [OF q(2, 3)] by simp
  obtain b2 e2 where r: "fill truncated_chunked (length d + 2) (drop (length l + 2) b1) e1 = Inr (b2, e2)"
      "feeds b2 e2 ?t after" "length d + 2 \<le> length b2"
    using fill_feeds [OF f, of "length d + 2" truncated_chunked] by auto
  have "take (length d) b2 = d" using feeds_take [OF r(2), of "length d"] r(3) by simp
  moreover have "feeds (drop (length d + 2) b2) e2 (chunked_wire ps z ts) after"
    using feeds_drop [OF r(2, 3)] by simp
  ultimately show ?case
    using Cons.IH [OF _ ok(5)] q(1) l ok(2-4) r(1)
    by (subst decode_chunked.simps) (simp add: p Let_def)
qed

section \<open>Whole responses\<close>

lemma from_utf8_lossy_valid: "valid_utf8 s \<Longrightarrow> from_utf8_lossy s = s"
proof (induction s rule: valid_utf8.induct)
  case (1 s)
  show ?case
  proof (cases "s = []")
    case False
    with 1(2) obtain r where r: "utf8_step s = Some r" "valid_utf8 r"
      by (subst (asm) valid_utf8.simps) (auto split: option.splits)
    have "take (length s - length r) s @ r = s" using utf8_step_suffix [OF r(1)] by simp
    with 1(1) [OF r] False r show ?thesis by (subst from_utf8_lossy.simps) simp
  qed (simp add: from_utf8_lossy.simps)
qed

lemma str_find_append_left: "pat \<noteq> [] \<Longrightarrow> str_find pat a = Some i \<Longrightarrow> str_find pat (a @ b) = Some i"
proof -
  assume n: "pat \<noteq> []" and a: "str_find pat a = Some i"
  have fits: "i + length pat \<le> length a" using a by (rule str_find_fits)
  then have "take (length pat) (drop j (a @ b)) = take (length pat) (drop j a)" if "j \<le> i" for j
    using that by simp
  with a show ?thesis unfolding str_find_Some_iff [OF n] by (metis less_imp_le order_refl)
qed

text \<open>How a body is sent: as it is, or in chunks with a closing line and trailers.\<close>

datatype transfer = Plain | InChunks "(string \<times> string) list" string "string list"

fun wire_of :: "transfer \<Rightarrow> string \<Rightarrow> string" where
  "wire_of Plain body = body"
| "wire_of (InChunks ps z ts) body = chunked_wire ps z ts"

text \<open>A response with a definite end: its head, ended by the first blank line, status and body.\<close>

definition response_ok :: "string \<Rightarrow> nat \<Rightarrow> string \<Rightarrow> transfer \<Rightarrow> bool" where
  "response_ok head code body tr \<longleftrightarrow>
    4 \<le> length head \<and> str_find (CRLF @ CRLF) head = Some (length head - 4)
    \<and> valid_utf8 head \<and> valid_utf8 body
    \<and> (case str_lines (take (length head - 4) head) of
         l # _ \<Rightarrow> status_code l = Some code | [] \<Rightarrow> False)
    \<and> (case tr of
         Plain \<Rightarrow> rh_framing (parse_response_head head) = ContentLength (length body)
       | InChunks ps z ts \<Rightarrow>
           rh_framing (parse_response_head head) = Chunked
           \<and> chunks_ok ps z ts \<and> body = concat (map snd ps))"

lemma exchange_http_feeds:
  assumes "response_ok head code body tr" and "feeds [] evs (head @ wire_of tr body) after"
  shows "exchange_http True evs =
    Inr (head @ body, \<not> rh_connection_close (parse_response_head head), after)"
proof -
  let ?s = "head @ wire_of tr body"
  have h: "4 \<le> length head" "str_find (CRLF @ CRLF) head = Some (length head - 4)"
      "valid_utf8 head" "valid_utf8 body"
    using assms(1) by (auto simp: response_ok_def)
  have "str_find (CRLF @ CRLF) ?s = Some (length head - 4)"
    by (rule str_find_append_left [OF _ h(2)]) simp
  from read_head_feeds [OF assms(2) this] h(1) obtain b e where
    r: "read_head [] evs = Inr (head, b, e)" "feeds b e (wire_of tr body) after"
    by auto
  have "read_body (parse_response_head head) b e =
      Inr (body, \<not> rh_connection_close (parse_response_head head), after)"
  proof (cases tr)
    case Plain
    with r(2) have f: "feeds b e body after" by simp
    from fill_feeds [OF f order_refl] obtain b' e' where
      "fill ''invalid daemon HTTP response: truncated body'' (length body) b e = Inr (b', e')"
      "feeds b' e' body after" "length body \<le> length b'"
      by blast
    with feeds_end [of b' e' body after] Plain assms(1) show ?thesis
      by (simp add: read_body_def response_ok_def)
  next
    case (InChunks ps z ts)
    with decode_chunked_feeds [of b e ps z ts after "[]"] r(2) assms(1) show ?thesis
      by (simp add: read_body_def response_ok_def)
  qed
  with r(1) h(3, 4) show ?thesis
    by (simp add: exchange_http_def from_utf8_lossy_valid from_utf8_def Let_def)
qed

lemma split_response:
  assumes "response_ok head code body tr"
  shows "split_http_response (head @ body) = Inr (code, body)"
proof -
  have h: "4 \<le> length head" "str_find (CRLF @ CRLF) head = Some (length head - 4)"
    using assms by (auto simp: response_ok_def)
  have "str_find (CRLF @ CRLF) (head @ body) = Some (length head - 4)"
    by (rule str_find_append_left [OF _ h(2)]) simp
  with h(1) assms show ?thesis
    by (auto simp: split_http_response_def response_ok_def status_code_def Let_def
        split: list.splits option.splits bind_splits)
qed

section \<open>The connection stays in step\<close>

text \<open>Requests one after another, by one thread.\<close>

fun requests ::
    "nat \<Rightarrow> client_error + connection \<Rightarrow> connection list
      \<Rightarrow> connection list \<times> (client_error + nat \<times> string) list" where
  "requests 0 connected pool = (pool, [])"
| "requests (Suc n) connected pool =
    (let (pool, handed, r) = request_with_timeout id connected pool;
         (pool, rs) = requests n connected pool
     in (pool, (case r of Inl e \<Rightarrow> Inl e | Inr response \<Rightarrow> split_http_response response) # rs))"

text \<open>What the peer sends for one request, and the pieces in which it arrives.\<close>

record sent =
  sn_head :: string
  sn_code :: nat
  sn_body :: string
  sn_transfer :: transfer
  sn_pieces :: "string list"

definition sent_ok :: "sent \<Rightarrow> bool" where
  "sent_ok r \<longleftrightarrow> response_ok (sn_head r) (sn_code r) (sn_body r) (sn_transfer r)
    \<and> \<not> rh_connection_close (parse_response_head (sn_head r))
    \<and> [] \<notin> set (sn_pieces r) \<and> concat (sn_pieces r) = sn_head r @ wire_of (sn_transfer r) (sn_body r)"

definition answering :: "sent list \<Rightarrow> (bool \<times> read_event list) list \<Rightarrow> connection" where
  "answering rs script =
    \<lparr>cn_unread = [], cn_script = map (\<lambda>r. (True, map ReadOk (sn_pieces r))) rs @ script\<rparr>"

lemma exchange_answering:
  "sent_ok r \<Longrightarrow> exchange (answering (r # rs) script) = (answering rs script, Inr (sn_head r @ sn_body r, True))"
  using exchange_http_feeds [of "sn_head r" "sn_code r" "sn_body r" "sn_transfer r" "map ReadOk (sn_pieces r)" "[]"]
  by (force simp: exchange_def answering_def sent_ok_def feeds_def)

lemma request_answering:
  assumes "sent_ok r" and "length idle < POOL_MAX_IDLE"
  shows "request_with_timeout id connected (idle @ [answering (r # rs) script]) =
    (idle @ [answering rs script], [answering (r # rs) script], Inr (sn_head r @ sn_body r))"
  using assms
  by (simp add: request_with_timeout_def take_idle_connection_def use_connection_def
      exchange_answering return_idle_connection_def)


text \<open>The bytes of three responses, in awkward pieces.\<close>

definition ex_head :: "string \<Rightarrow> string \<Rightarrow> string" where
  "ex_head st hs = ''HTTP/1.1 '' @ st @ CRLF @ hs @ CRLF @ CRLF"

definition ex_responses :: "sent list" where
  "ex_responses =
    [\<lparr>sn_head = ex_head ''200 OK'' ''content-length: 6'', sn_code = 200,
      sn_body = ''a'' @ CRLF @ CRLF @ ''b'', sn_transfer = Plain,
      sn_pieces = [''HTTP/1.1 200 OK'' @ [CHR 0x0D], [CHR 0x0A] @ ''content-length: 6'' @ CRLF,
                   CRLF @ ''a'' @ CRLF, CRLF @ ''b'']\<rparr>,
     \<lparr>sn_head = ex_head ''204 No Content'' ''x: y'', sn_code = 204, sn_body = [], sn_transfer = Plain,
      sn_pieces = [ex_head ''204 No Content'' ''x: y'']\<rparr>,
     \<lparr>sn_head = ex_head ''409 Conflict'' ''Transfer-Encoding: chunked'', sn_code = 409,
      sn_body = ''abcde'', sn_transfer = InChunks [(''3;q=1'', ''abc''), (''02'', ''de'')] ''0'' [''t: u''],
      sn_pieces = [ex_head ''409 Conflict'' ''Transfer-Encoding: chunked'' @ ''3;q=1'' @ CRLF @ ''ab'',
                   ''c'' @ CRLF @ ''02'' @ [CHR 0x0D], [CHR 0x0A] @ ''de'' @ CRLF @ ''0'' @ CRLF,
                   ''t: u'' @ CRLF @ CRLF]\<rparr>]"

text \<open>The numbers in them, apart from the bounds, are computed; the bounds are compared.\<close>

lemma ex_numbers:
  "parse_unsigned 65535 ''200'' = Some 200" "parse_unsigned 65535 ''204'' = Some 204"
  "parse_unsigned 65535 ''409'' = Some 409" "parse_unsigned 18446744073709551615 ''6'' = Some 6"
  "parse_hex_usize ''3'' = Some 3" "parse_hex_usize ''02'' = Some 2" "parse_hex_usize ''0'' = Some 0"
  by (simp_all add: parse_unsigned_def parse_digits_def digits_val_def parse_hex_usize_def number_of_def
      to_digit_def is_digit_def digit_val_def Let_def)

lemma ex_size_lines:
  "trim (hd (split_char CHR '';'' (from_utf8_lossy ''3;q=1''))) = ''3''"
  "trim (hd (split_char CHR '';'' (from_utf8_lossy ''02''))) = ''02''"
  "trim (hd (split_char CHR '';'' (from_utf8_lossy ''0''))) = ''0''"
  by code_simp+

lemma ex_words:
  "vec_get (split_whitespace ''HTTP/1.1 200 OK'') 1 = Some ''200''"
  "vec_get (split_whitespace ''HTTP/1.1 204 No Content'') 1 = Some ''204''"
  "vec_get (split_whitespace ''HTTP/1.1 409 Conflict'') 1 = Some ''409''"
  by code_simp+

lemma ex_lines:
  "str_lines (ex_head ''200 OK'' ''content-length: 6'') = [''HTTP/1.1 200 OK'', ''content-length: 6'', []]"
  "str_lines (ex_head ''204 No Content'' ''x: y'') = [''HTTP/1.1 204 No Content'', ''x: y'', []]"
  "str_lines (ex_head ''409 Conflict'' ''Transfer-Encoding: chunked'') =
     [''HTTP/1.1 409 Conflict'', ''Transfer-Encoding: chunked'', []]"
  by code_simp+

lemma ex_status_lines:
  "status_code ''HTTP/1.1 200 OK'' = Some 200" "status_code ''HTTP/1.1 204 No Content'' = Some 204"
  "status_code ''HTTP/1.1 409 Conflict'' = Some 409"
  by (simp_all only: status_code_def ex_words ex_numbers bind.bind_lunit)

lemma ex_fields:
  "map_option (map_prod id trim) (split_once CHR '':'' ''content-length: 6'') = Some (''content-length'', ''6'')"
  "map_option (map_prod id trim) (split_once CHR '':'' ''x: y'') = Some (''x'', ''y'')"
  "map_option (map_prod id trim) (split_once CHR '':'' ''Transfer-Encoding: chunked'') =
     Some (''Transfer-Encoding'', ''chunked'')"
  "split_once CHR '':'' [] = None"
  by code_simp+

lemma ex_names:
  "eq_ignore_ascii_case ''content-length'' ''content-length''"
  "\<not> eq_ignore_ascii_case ''x'' ''content-length''"
  "\<not> eq_ignore_ascii_case ''x'' ''transfer-encoding''"
  "\<not> eq_ignore_ascii_case ''x'' ''connection''"
  "\<not> eq_ignore_ascii_case ''Transfer-Encoding'' ''content-length''"
  "eq_ignore_ascii_case ''Transfer-Encoding'' ''transfer-encoding''"
  "str_contains ''chunked'' (to_ascii_lowercase ''chunked'')"
  by code_simp+

lemma header_line_trimmed:
  "map_option (map_prod id trim) (split_once CHR '':'' l) = Some (n, v) \<Longrightarrow>
   header_line no_body l h =
    (if eq_ignore_ascii_case n ''content-length'' then
       (case parse_unsigned 18446744073709551615 v of
          Some k \<Rightarrow> if no_body then h else h\<lparr>rh_framing := ContentLength k\<rparr> | None \<Rightarrow> h)
     else if eq_ignore_ascii_case n ''transfer-encoding'' \<and> str_contains ''chunked'' (to_ascii_lowercase v)
     then (if no_body then h else h\<lparr>rh_framing := Chunked\<rparr>)
     else if eq_ignore_ascii_case n ''connection'' \<and> eq_ignore_ascii_case v ''close''
     then h\<lparr>rh_connection_close := True\<rparr> else h)"
  by (auto simp: header_line_def Let_def)

lemma ex_heads:
  "parse_response_head (ex_head ''200 OK'' ''content-length: 6'') =
     \<lparr>rh_framing = ContentLength 6, rh_connection_close = False\<rparr>"
  "parse_response_head (ex_head ''204 No Content'' ''x: y'') =
     \<lparr>rh_framing = ContentLength 0, rh_connection_close = False\<rparr>"
  "parse_response_head (ex_head ''409 Conflict'' ''Transfer-Encoding: chunked'') =
     \<lparr>rh_framing = Chunked, rh_connection_close = False\<rparr>"
  by (simp_all add: parse_response_head_def ex_lines status_has_no_body_def ex_status_lines
      header_line_trimmed [OF ex_fields(1)] header_line_trimmed [OF ex_fields(2)]
      header_line_trimmed [OF ex_fields(3)] ex_names ex_numbers header_line_def [of _ "[]"] ex_fields(4))

definition head_ends :: "string \<Rightarrow> bool" where
  "head_ends h \<longleftrightarrow> 4 \<le> length h \<and> str_find (CRLF @ CRLF) h = Some (length h - 4) \<and> valid_utf8 h"

lemma ex_ends:
  "head_ends (ex_head ''200 OK'' ''content-length: 6'')"
  "head_ends (ex_head ''204 No Content'' ''x: y'')"
  "head_ends (ex_head ''409 Conflict'' ''Transfer-Encoding: chunked'')"
  "valid_utf8 (''a'' @ CRLF @ CRLF @ ''b'')" "valid_utf8 ''abcde''"
  by code_simp+

lemma ex_first_lines:
  "(let h = ex_head ''200 OK'' ''content-length: 6'' in hd (str_lines (take (length h - 4) h))) = ''HTTP/1.1 200 OK''"
  "(let h = ex_head ''200 OK'' ''content-length: 6'' in str_lines (take (length h - 4) h)) \<noteq> []"
  "(let h = ex_head ''204 No Content'' ''x: y'' in hd (str_lines (take (length h - 4) h))) = ''HTTP/1.1 204 No Content''"
  "(let h = ex_head ''204 No Content'' ''x: y'' in str_lines (take (length h - 4) h)) \<noteq> []"
  "(let h = ex_head ''409 Conflict'' ''Transfer-Encoding: chunked'' in hd (str_lines (take (length h - 4) h))) =
     ''HTTP/1.1 409 Conflict''"
  "(let h = ex_head ''409 Conflict'' ''Transfer-Encoding: chunked'' in str_lines (take (length h - 4) h)) \<noteq> []"
  by code_simp+

lemma response_okI:
  assumes "head_ends head" and "valid_utf8 body"
    and "(let h = head in hd (str_lines (take (length h - 4) h))) = l"
    and "(let h = head in str_lines (take (length h - 4) h)) \<noteq> []" and "status_code l = Some code"
    and "parse_response_head head = \<lparr>rh_framing = fr, rh_connection_close = False\<rparr>"
    and "(case tr of Plain \<Rightarrow> fr = ContentLength (length body)
          | InChunks ps z ts \<Rightarrow> fr = Chunked \<and> chunks_ok ps z ts \<and> body = concat (map snd ps))"
  shows "response_ok head code body tr \<and> \<not> rh_connection_close (parse_response_head head)"
  using assms by (auto simp: response_ok_def head_ends_def Let_def split: list.splits transfer.splits)

lemma ex_chunks_ok: "chunks_ok [(''3;q=1'', ''abc''), (''02'', ''de'')] ''0'' [''t: u'']"
  by (simp add: chunks_ok_def chunk_ok_def chunk_size_def ex_size_lines ex_numbers)

lemma ex_responses_ok: "list_all sent_ok ex_responses"
  using response_okI [OF ex_ends(1, 4) ex_first_lines(1, 2) ex_status_lines(1) ex_heads(1), of Plain]
    response_okI [OF ex_ends(2) valid_utf8_Nil ex_first_lines(3, 4) ex_status_lines(2) ex_heads(2), of Plain]
    response_okI [OF ex_ends(3, 5) ex_first_lines(5, 6) ex_status_lines(3) ex_heads(3),
      of "InChunks [(''3;q=1'', ''abc''), (''02'', ''de'')] ''0'' [''t: u'']"]
  by (simp add: ex_responses_def sent_ok_def ex_chunks_ok)
    (simp add: ex_head_def chunked_wire_def trailer_lines_def)


section \<open>When a request is sent twice\<close>

text \<open>The peer of a connection that fails before it has sent a single byte of its answer.\<close>

definition unanswered :: "connection \<Rightarrow> bool" where
  "unanswered cn \<longleftrightarrow>
    (case cn_script cn of
       [] \<Rightarrow> True
     | (written, evs) # _ \<Rightarrow>
         \<not> written
         \<or> (case cn_unread cn @ evs of
              [] \<Rightarrow> False
            | ReadOk d # _ \<Rightarrow> d = []
            | ReadErr kind # _ \<Rightarrow> kind = ConnectionReset \<or> kind = ConnectionAborted))"

lemma read_head_stale:
  "read_head b evs = Inl (Stale e) \<Longrightarrow>
    b = [] \<and> (case evs of
      [] \<Rightarrow> False
    | ReadOk d # _ \<Rightarrow> d = []
    | ReadErr kind # _ \<Rightarrow> kind = ConnectionReset \<or> kind = ConnectionAborted)"
proof (induction b evs rule: read_head.induct)
  case (1 b evs)
  have "False" if "str_find (CRLF @ CRLF) b = None" "evs = ReadOk d # evs'" "d \<noteq> []"
      "read_head (b @ d) evs' = Inl (Stale e)" for d evs'
    using 1(1) [OF that(1,2) refl that(3, 4)] that(3) by simp
  with 1(2) show ?case
    by (subst (asm) read_head.simps)
      (auto split: option.splits list.splits read_event.splits if_splits)
qed

lemma use_connection_stale: "use_connection cn pool = (pool', Inl (Stale e)) \<Longrightarrow> unanswered cn"
  by (auto simp: use_connection_def exchange_def exchange_http_def unanswered_def Let_def
      dest!: read_head_stale split: list.splits prod.splits sum.splits if_splits option.splits)

text \<open>
  Property C36.
  A request is handed to at most two connections, and to a second one, a new one, only after the
  first came from the pool and failed before a byte of its answer, while others may use the pool
  meanwhile.
\<close>

theorem resend_only_without_an_answer:
  assumes "request_with_timeout others connected pool = (pool', handed, r)"
  shows "length handed \<le> 2
    \<and> (length handed = 2 \<longrightarrow>
        pool \<noteq> [] \<and> handed ! 0 = last pool \<and> unanswered (last pool) \<and> connected = Inr (handed ! 1))"
proof (cases "pool = []")
  case True
  with assms show ?thesis
    by (auto simp: request_with_timeout_def take_idle_connection_def
        split: sum.splits prod.splits)
next
  case False
  obtain p' r' where u: "use_connection (last pool) (others (butlast pool)) = (p', r')" by fastforce
  consider (good) x where "r' = Inr x" | (stale) e where "r' = Inl (Stale e)" | (io) e where "r' = Inl (Io e)"
    by (metis sum.exhaust exchange_error.exhaust)
  then show ?thesis
  proof cases
    case stale
    with use_connection_stale u have "unanswered (last pool)" by blast
    with False assms u stale show ?thesis
      by (auto simp: request_with_timeout_def take_idle_connection_def split: sum.splits prod.splits)
  qed (use False assms u in \<open>auto simp: request_with_timeout_def take_idle_connection_def\<close>)
qed

text \<open>
  The comment calls this retry safe. A peer that has carried the request out and closes before
  it answers, as the daemon does when a handler panics, is given the request again.
\<close>

definition carried_out_then_closed :: connection where
  "carried_out_then_closed = \<lparr>cn_unread = [], cn_script = [(True, [ReadOk []])]\<rparr>"

theorem resend_only_without_an_answer_witness:
  "unanswered carried_out_then_closed
    \<and> fst (snd (request_with_timeout id (Inr (answering [] [])) [carried_out_then_closed]))
        = [carried_out_then_closed, answering [] []]"
proof -
  have r: "request_with_timeout id (Inr (answering [] [])) [carried_out_then_closed] =
      ([], [carried_out_then_closed, answering [] []], Inl (IoFailure OtherKind))"
    by (simp add: request_with_timeout_def take_idle_connection_def use_connection_def exchange_def
        exchange_http_def carried_out_then_closed_def answering_def read_head.simps the_failure_def)
  show ?thesis using resend_only_without_an_answer [OF r] r by simp
qed

end
