(* ===== verification/Daemon_Client.thy ===== *)
theory Daemon_Client
  imports Daemon_Http Daemon_Sockets Output_Flow
begin

text \<open>
  What the desktop makes of the daemon's answers: the methods of \<open>TerminalDaemonClient\<close> in
  \<open>daemon_client.rs\<close>. An answer is a status, the text of the body and what \<open>serde_json\<close> reads in
  it as a plain value (\<open>None\<close> where it is no JSON). Reading a body into a type of its own is the
  argument \<open>de\<close>. The texts of the errors are shortened; a coded error keeps its code, and the
  parameters of a message are left out as in \<open>App_Error\<close>.
\<close>

record answer =
  an_status :: nat
  an_body :: string
  an_json :: "json option"

definition success :: "answer \<Rightarrow> bool" where
  "success a \<longleftrightarrow> 200 \<le> an_status a \<and> an_status a < 300"

section \<open>Errors\<close>

definition stale_daemon_hint :: "answer \<Rightarrow> string option" where
  "stale_daemon_hint a =
    (if an_status a \<noteq> 422 \<or> \<not> str_contains ''unknown variant'' (an_body a) then None
     else Some (an_body a))"

definition daemon_http_error :: "answer \<Rightarrow> app_error" where
  "daemon_http_error a =
    (case stale_daemon_hint a of
       Some hint \<Rightarrow> Coded ''DAEMON_BINARY_STALE'' hint
     | None \<Rightarrow>
         let generic = ErrMessage None
               (''daemon request failed with HTTP '' @ dec (an_status a) @ '': '' @ an_body a) in
         case an_json a of
           None \<Rightarrow> generic
         | Some v \<Rightarrow>
             (case (Option.bind (json_get v ''code'') json_as_str,
                    Option.bind (json_get v ''message'') json_as_str) of
                (Some code, Some message) \<Rightarrow> Coded code message
              | _ \<Rightarrow> generic))"

text \<open>The code of a structured error.\<close>

definition structured_code :: "answer \<Rightarrow> string option" where
  "structured_code a =
    Option.bind (an_json a) (\<lambda>v. Option.bind (json_get v ''code'') json_as_str)"

section \<open>Plain requests\<close>

definition parse_json_response :: "(string \<Rightarrow> app_error + 'a) \<Rightarrow> answer \<Rightarrow> app_error + 'a" where
  "parse_json_response de a = (if \<not> success a then Inl (daemon_http_error a) else de (an_body a))"

definition request_empty :: "answer \<Rightarrow> app_error + unit" where
  "request_empty a = (if \<not> success a then Inl (daemon_http_error a) else Inr ())"

text \<open>
  Routes that a daemon may lack or that miss their session: which statuses mean \<open>None\<close>.
\<close>

definition optional_json ::
    "nat list \<Rightarrow> (string \<Rightarrow> app_error + 'a) \<Rightarrow> answer \<Rightarrow> app_error + 'a option" where
  "optional_json absent de a =
    (if an_status a \<in> set absent then Inr None
     else if \<not> success a then Inl (daemon_http_error a)
     else res_bind (de (an_body a)) (\<lambda>v. Inr (Some v)))"

definition cl_get_session_status ::
    "(string \<Rightarrow> app_error + session_status) \<Rightarrow> answer \<Rightarrow> app_error + session_status option" where
  "cl_get_session_status de a = optional_json [404] de a"

definition cl_get_session_replay_snapshot ::
    "(string \<Rightarrow> app_error + replay_snapshot) \<Rightarrow> answer \<Rightarrow> app_error + replay_snapshot option" where
  "cl_get_session_replay_snapshot de a = optional_json [404] de a"

definition cl_get_terminal_flow_diagnostics ::
    "(string \<Rightarrow> app_error + flow_diagnostics) \<Rightarrow> answer \<Rightarrow> app_error + flow_diagnostics option" where
  "cl_get_terminal_flow_diagnostics de a = optional_json [404] de a"

definition cl_get_session_provenance ::
    "(string \<Rightarrow> app_error + provenance) \<Rightarrow> answer \<Rightarrow> app_error + provenance option" where
  "cl_get_session_provenance de a = optional_json [404, 405] de a"

definition cl_list_session_claims ::
    "(string \<Rightarrow> app_error + (string \<times> string) list) \<Rightarrow> answer \<Rightarrow> app_error + (string \<times> string) list" where
  "cl_list_session_claims de a =
    res_bind (optional_json [404, 405] de a) (\<lambda>r. Inr (or_else r []))"

definition cl_apply_hook_status :: "answer \<Rightarrow> app_error + unit" where
  "cl_apply_hook_status a =
    (if an_status a = 404 \<or> success a then Inr () else Inl (daemon_http_error a))"

definition cl_list_identity_events :: "answer \<Rightarrow> app_error + json list" where
  "cl_list_identity_events a =
    (if an_status a = 404 \<or> an_status a = 405 then Inr []
     else if \<not> success a then Inl (daemon_http_error a)
     else
      case an_json a of
        None \<Rightarrow> Inl (ErrMessage None ''invalid JSON'')
      | Some v \<Rightarrow> (case json_get v ''events'' of Some (JArray es) \<Rightarrow> Inr es | _ \<Rightarrow> Inr []))"

section \<open>Leases\<close>

definition cl_claim_session :: "answer \<Rightarrow> app_error + bool" where
  "cl_claim_session a =
    (if an_status a = 409 then Inr False
     else if an_status a = 404 then Inr (structured_code a \<noteq> Some ''SESSION_NOT_FOUND'')
     else if an_status a = 405 then Inr True
     else if success a then Inr True
     else Inl (daemon_http_error a))"

definition cl_release_session_claim :: "answer \<Rightarrow> app_error + unit" where
  "cl_release_session_claim a =
    (if an_status a \<in> {404, 405, 409} then Inr ()
     else if success a then Inr ()
     else Inl (daemon_http_error a))"

text \<open>\<open>claims_supported\<close> is the field of the daemon's status, missing on old daemons.\<close>

definition cl_claims_supported :: "app_error + bool option \<Rightarrow> bool" where
  "cl_claims_supported status_field =
    (case status_field of Inr f \<Rightarrow> or_else f False | Inl _ \<Rightarrow> False)"

section \<open>Checkpoints\<close>

definition cl_upload_checkpoint :: "answer \<Rightarrow> app_error + store_outcome" where
  "cl_upload_checkpoint a =
    (if success a then
       (case an_json a of
          None \<Rightarrow> Inl (ErrMessage None ''invalid JSON'')
        | Some v \<Rightarrow>
            (case Option.bind (json_get v ''anchorSeq'') json_as_u64 of
               Some anchor_seq \<Rightarrow> Inr (Accepted anchor_seq)
             | None \<Rightarrow> Inl (ErrMessage None ''checkpoint upload response missing anchorSeq'')))
     else if an_status a = 409 then
       (let code = structured_code a in
        if code = Some ''STALE_ANCHOR'' then Inr RejectedStaleAnchor
        else if code = Some ''ANCHOR_GAP'' then Inr RejectedAnchorGap
        else if code = Some ''FUTURE_ANCHOR'' then Inr RejectedFutureAnchor
        else if code = Some ''EPOCH_MISMATCH'' then Inr RejectedEpochMismatch
        else if code = Some ''TOO_LARGE'' then Inr RejectedTooLarge
        else Inl (daemon_http_error a))
     else if an_status a = 404 \<or> an_status a = 405 then
       (if structured_code a = Some ''NOT_FOUND''
        then Inl (NotFound ''session not found for checkpoint upload'')
        else Inl (Coded ''CHECKPOINT_UNSUPPORTED'' ''daemon has no checkpoint endpoint''))
     else Inl (daemon_http_error a))"

definition cl_get_session_recovery_snapshot ::
    "(string \<Rightarrow> app_error + recovery_snapshot) \<Rightarrow> answer \<Rightarrow> app_error + recovery_snapshot option" where
  "cl_get_session_recovery_snapshot de a =
    (if success a then res_bind (de (an_body a)) (\<lambda>v. Inr (Some v))
     else if an_status a = 404 \<or> an_status a = 405 then
       (if structured_code a = Some ''NOT_FOUND'' then Inr None
        else Inl (Coded ''CHECKPOINT_UNSUPPORTED'' ''daemon has no recovery-snapshot endpoint''))
     else Inl (daemon_http_error a))"

section \<open>Creating and cancelling\<close>

datatype 'a response_field = Missing | Present "'a option"

record create_response =
  cs_session_id :: string
  cs_reused_existing :: bool
  cs_resolved_model_id :: "string response_field"

record create_outcome =
  co_session_id :: string
  co_reused_existing :: bool
  co_resolved_model_id :: "string option"

definition cl_create_session ::
    "string option \<Rightarrow> string option \<Rightarrow> (string \<Rightarrow> app_error + create_response) \<Rightarrow> answer
      \<Rightarrow> app_error + create_outcome" where
  "cl_create_session expected_session_id requested_model_id de a =
    res_bind (parse_json_response de a) (\<lambda>parsed. Inr
      \<lparr>co_session_id = cs_session_id parsed,
       co_reused_existing =
         (cs_reused_existing parsed \<or> expected_session_id = Some (cs_session_id parsed)),
       co_resolved_model_id =
         (case cs_resolved_model_id parsed of
            Missing \<Rightarrow> requested_model_id | Present model_id \<Rightarrow> model_id)\<rparr>)"

definition cl_find_session_id_by_launch_id ::
    "string \<Rightarrow> (string \<Rightarrow> app_error + string) \<Rightarrow> app_error + answer \<Rightarrow> app_error + string option" where
  "cl_find_session_id_by_launch_id launch_id de sent =
    (if trim launch_id = [] then Inr None else res_bind sent (optional_json [404] de))"

text \<open>
  Cancelling a launch: the new route, and where the daemon lacks it the lookup and a kill. The
  arguments are the answers of up to three requests.
\<close>

definition cl_cancel_launch ::
    "string \<Rightarrow> (string \<Rightarrow> app_error + string) \<Rightarrow> app_error + answer \<Rightarrow> app_error + answer
      \<Rightarrow> (string \<Rightarrow> app_error + answer) \<Rightarrow> app_error + unit" where
  "cl_cancel_launch launch_id de cancelled found killed =
    (if trim launch_id = [] then Inr ()
     else
      res_bind cancelled (\<lambda>a.
        if success a then Inr ()
        else if an_status a = 404 \<or> an_status a = 405 then
          res_bind (cl_find_session_id_by_launch_id launch_id de found) (\<lambda>r.
            case r of
              Some session_id \<Rightarrow> res_bind (killed session_id) request_empty
            | None \<Rightarrow> Inr ())
        else Inl (daemon_http_error a)))"

text \<open>The snapshot a daemon without the route is taken to have: no leases, nothing complete.\<close>

definition cl_adoption_snapshot ::
    "(string \<Rightarrow> app_error + adoption_snapshot) \<Rightarrow> app_error + (string \<times> session_status) list \<Rightarrow> nat
      \<Rightarrow> answer \<Rightarrow> app_error + adoption_snapshot" where
  "cl_adoption_snapshot de list_sessions now_ms a =
    (if an_status a = 404 \<or> an_status a = 405 then
       res_bind list_sessions (\<lambda>sessions. Inr
         \<lparr>as_claims_supported = False, as_daemon_generation = None, as_owner_instance_id = None,
          as_captured_at_ms = now_ms, as_complete = False, as_sessions = sessions,
          as_claims = (\<lambda>_. None), as_provenance = (\<lambda>_. None)\<rparr>)
     else if \<not> success a then Inl (daemon_http_error a)
     else de (an_body a))"

section \<open>The daemon's side of an answer\<close>

text \<open>
  An error of a handler is \<open>json_error\<close> with its status, of whose fields the client reads the code;
  \<open>ok\<close> is the answer of a success. The JSON the client reads is the one the daemon wrote; \<open>text\<close>
  is its text.
\<close>

fun error_value :: "http_error \<Rightarrow> json" where
  "error_value (HttpError st code owner) =
    JObject ([(''code'', JString code), (''message'', JString [])]
      @ (case owner of Some o' \<Rightarrow> [(''owner'', JString o')] | None \<Rightarrow> []))"

fun error_status :: "http_error \<Rightarrow> nat" where
  "error_status (HttpError st code owner) = st"

definition answer_of :: "string \<Rightarrow> ('a \<Rightarrow> nat \<times> json option) \<Rightarrow> http_error + 'a \<Rightarrow> answer" where
  "answer_of text_of_body ok r =
    (let (st, v) = (case r of Inl e \<Rightarrow> (error_status e, Some (error_value e)) | Inr x \<Rightarrow> ok x)
     in \<lparr>an_status = st, an_body = text_of_body, an_json = v\<rparr>)"

definition checkpoint_accepted :: "nat \<Rightarrow> nat \<times> json option" where
  "checkpoint_accepted anchor_seq =
    (200, Some (JObject [(''accepted'', JBool True), (''anchorSeq'', JNumber (dec anchor_seq))]))"

definition claim_granted :: "string \<Rightarrow> string \<Rightarrow> nat \<times> json option" where
  "claim_granted session_id owner =
    (200, Some (JObject [(''sessionId'', JString session_id), (''owner'', JString owner), (''granted'', JBool True)]))"

definition no_content :: "nat \<Rightarrow> nat \<times> json option" where
  "no_content st = (st, None)"

section \<open>The verdicts arrive\<close>

lemma structured_code_error [simp]:
  "structured_code (answer_of body ok (Inl (HttpError st code owner))) = Some code"
  by (simp add: structured_code_def answer_of_def)

lemma answer_status [simp]:
  "an_status (answer_of body ok (Inl (HttpError st code owner))) = st"
  "an_status (answer_of body ok (Inr x)) = fst (ok x)"
  "an_json (answer_of body ok (Inr x)) = snd (ok x)"
  by (simp_all add: answer_of_def case_prod_unfold Let_def)

lemma upload_rejected:
  "rejected \<noteq> Accepted n \<Longrightarrow>
    cl_upload_checkpoint (answer_of body ok (Inl (http_fail 409 (checkpoint_code rejected)))) =
      (case rejected of Accepted _ \<Rightarrow> cl_upload_checkpoint (answer_of body ok (Inl (http_fail 409 [])))
       | _ \<Rightarrow> Inr rejected)"
  by (cases rejected) (simp_all add: cl_upload_checkpoint_def success_def)

text \<open>
  Property C37.
  What the client reports about an uploaded checkpoint is the verdict of the session's replay
  buffer: the client gets an outcome exactly when it is authorised and may write to the session
  and the buffer gave this very outcome, with its anchor, and an error in every other case.
\<close>

theorem checkpoint_verdict_arrives:
  assumes "\<And>n. answer s cp = Inr (Accepted n) \<Longrightarrow> n < 2 ^ 64"
  shows "cl_upload_checkpoint
      (answer_of body checkpoint_accepted (snd (upload_session_checkpoint answer now h s cp d))) = Inr outcome
    \<longleftrightarrow> hd_authorization h = Some (''Bearer '' @ ds_token d)
      \<and> may_write_session now s (caller_instance h) d \<and> answer s cp = Inr outcome"
proof (cases "hd_authorization h = Some (''Bearer '' @ ds_token d) \<and> may_write_session now s (caller_instance h) d")
  case False
  then show ?thesis
    by (auto simp: upload_session_checkpoint_def forward_def guarded_def authorize_def ensure_may_write_def
        cl_upload_checkpoint_def success_def)
next
  case True
  then have f: "forward now s h call d = (backend call (touch_session now s d), Inr ())" for call
    by (simp add: forward_def guarded_def authorize_def ensure_may_write_def)
  show ?thesis
  proof (cases "answer s cp")
    case (Inl e)
    with True show ?thesis
      by (simp add: upload_session_checkpoint_def f cl_upload_checkpoint_def success_def)
  next
    case (Inr v)
    show ?thesis
    proof (cases v)
      case (Accepted n)
      with Inr assms have "n \<le> 18446744073709551615" by force
      with Inr Accepted True show ?thesis
        by (auto simp: upload_session_checkpoint_def f cl_upload_checkpoint_def success_def
            checkpoint_accepted_def parse_unsigned_dec)
    qed (use Inr True in \<open>auto simp: upload_session_checkpoint_def f cl_upload_checkpoint_def success_def\<close>)
  qed
qed

definition ex_checkpoint :: checkpoint where
  "ex_checkpoint = \<lparr>cp_epoch = 7, cp_anchor_seq = 42, cp_snapshot_ansi = ''ls'', cp_buffer_mode = ModeNormal,
     cp_cols = 80, cp_rows = 24, cp_checkpointed_at_ms = 1\<rparr>"

theorem checkpoint_verdict_arrives_witness:
  "cl_upload_checkpoint (answer_of [] checkpoint_accepted
      (snd (upload_session_checkpoint (\<lambda>_ cp. Inr (Accepted (cp_anchor_seq cp))) 0
        \<lparr>hd_authorization = Some ''Bearer t'', hd_instance = None\<rparr> ''s'' ex_checkpoint
        (daemon_new ''t'' 0 ws_new)))) = Inr (Accepted 42)"
  by (subst checkpoint_verdict_arrives)
    (simp_all add: ex_checkpoint_def may_write_session_def session_claim_owner_def daemon_new_def)

text \<open>
  A claim: \<open>Ok(true)\<close> means that the lease is this client's, \<open>Ok(false)\<close> that it is not, that
  somebody else's is live or the session does not exist.
\<close>

lemma claim_verdict:
  assumes "hd_authorization h = Some (''Bearer '' @ ds_token d)" and "trim inst \<noteq> []"
    and "claim_session status now h s (Some inst) ttl d = (d', r)"
  shows "cl_claim_session (answer_of body (claim_granted s) r) =
    (case status s of
       Inl _ \<Rightarrow> Inl (daemon_http_error (answer_of body (claim_granted s) r))
     | Inr None \<Rightarrow> Inr False
     | Inr (Some _) \<Rightarrow> Inr (session_claim_owner now s d \<in> {None, Some inst}))"
proof -
  have prune: "ds_claims (prune_expired_claims now d) s =
      (case ds_claims d s of Some c \<Rightarrow> if is_live c now then Some c else None | None \<Rightarrow> None)"
    by (simp add: prune_expired_claims_def retain_claims_def)
  from assms show ?thesis
    by (auto simp: claim_session_def guarded_def authorize_def or_option_def cl_claim_session_def success_def
        claim_granted_def try_claim_session_def prune session_claim_owner_def Let_def
        split: sum.splits option.splits if_splits)
qed

end
