(* ===== verification/Client_Lease.thy ===== *)
theory Client_Lease
  imports Daemon_Client
begin

text \<open>
  How the desktop keeps the leases it holds (\<open>DaemonTerminalBackend\<close> in \<open>terminal_backend.rs\<close>): the
  table of owned sessions, the gate of each entry, the thread that renews them, and the calls that
  adopt, create, release and kill. The machine follows one session; its steps are the accesses to
  the table, to the gate and the requests to the daemon, of the renewal and of any number of
  application threads, interleaved with everything that others do to the daemon. The renewal
  rounds follow each other on one thread and a round renews a session at most once.
\<close>

section \<open>Requests that may get lost\<close>

text \<open>
  What becomes of a request: it is answered, it does not reach the daemon, its answer is lost, or
  the client's retry delivers it twice.
\<close>

datatype wire = Answered | Unsent | AnswerLost | Twice

definition rpc :: "wire \<Rightarrow> (daemon \<Rightarrow> daemon \<times> 'a) \<Rightarrow> daemon \<Rightarrow> daemon \<times> (app_error + 'a)" where
  "rpc w f d =
    (let lost = Inl (ErrMessage None ''daemon request failed'') in
     case w of
       Answered \<Rightarrow> (let (d, a) = f d in (d, Inr a))
     | Unsent \<Rightarrow> (d, lost)
     | AnswerLost \<Rightarrow> (fst (f d), lost)
     | Twice \<Rightarrow> (let (d, a) = f (fst (f d)) in (d, Inr a)))"

text \<open>The parties: this instance with its headers, and the session.\<close>

record parties =
  pt_instance :: string
  pt_headers :: headers
  pt_session :: string

definition client_claim ::
    "parties \<Rightarrow> wire \<Rightarrow> instant \<Rightarrow> app_error + session_status option \<Rightarrow> daemon \<Rightarrow> daemon \<times> (app_error + bool)" where
  "client_claim p w now status d =
    (let (d, r) = rpc w (claim_session (\<lambda>_. status) now (pt_headers p) (pt_session p) (Some (pt_instance p)) None) d
     in (d, res_bind r (\<lambda>a. cl_claim_session (answer_of [] (claim_granted (pt_session p)) a))))"

definition client_release :: "parties \<Rightarrow> wire \<Rightarrow> instant \<Rightarrow> daemon \<Rightarrow> daemon \<times> (app_error + unit)" where
  "client_release p w now d =
    (let (d, r) = rpc w (release_claim now (pt_headers p) (pt_session p) (Some (pt_instance p))) d
     in (d, res_bind r (\<lambda>a. cl_release_session_claim (answer_of [] no_content a))))"

text \<open>A kill that the backend carries out, or refuses; without a reason it is sent as unknown.\<close>

definition kill_request ::
    "parties \<Rightarrow> kill_reason \<Rightarrow> instant \<Rightarrow> app_error + unit \<Rightarrow> daemon \<Rightarrow> daemon \<times> (http_error + nat)" where
  "kill_request p reason now done_by_backend d =
    (case kill_session_begin now (pt_headers p) (pt_session p) (Some (kill_reason_as_str reason)) d of
       (d, Inl e) \<Rightarrow> (d, Inl e)
     | (d, Inr _) \<Rightarrow> kill_session_end (pt_session p) done_by_backend d)"

definition client_kill ::
    "parties \<Rightarrow> wire \<Rightarrow> instant \<Rightarrow> kill_reason \<Rightarrow> app_error + unit \<Rightarrow> daemon \<Rightarrow> daemon \<times> (app_error + unit)" where
  "client_kill p w now reason done_by_backend d =
    (let (d, r) = rpc w (kill_request p reason now done_by_backend) d
     in (d, res_bind r (\<lambda>a. request_empty (answer_of [] no_content a))))"

section \<open>The state\<close>

text \<open>
  Entries of the table are told apart by a number, which stands for the identity of the \<open>Arc\<close>.
  The renewal thread and the application threads are at a point of their code; those that are past
  the gate of an entry hold it.
\<close>

datatype renew_pc =
    RIdle
  | RSnapped nat
  | RGated nat
  | RChecked nat
  | RReplied "app_error + bool"
  | RLost

datatype app_pc =
    AIdle
  | Adopting
  | Adopted "app_error + bool"
  | Releasing "nat option"
  | ReleaseGated nat
  | ReleaseCleared nat
  | Released "app_error + unit"
  | Killing
  | Killed "app_error + unit"

record lease_client =
  lc_owned :: "nat option"
  lc_fresh :: nat
  lc_renew :: renew_pc
  lc_threads :: "app_pc list"
  lc_daemon :: daemon
  lc_gone :: bool
  lc_lost :: nat

fun renew_holds :: "nat \<Rightarrow> renew_pc \<Rightarrow> bool" where
  "renew_holds l (RGated l') = (l = l')"
| "renew_holds l (RChecked l') = (l = l')"
| "renew_holds l _ = False"

fun app_holds :: "nat \<Rightarrow> app_pc \<Rightarrow> bool" where
  "app_holds l (ReleaseGated l') = (l = l')"
| "app_holds l (ReleaseCleared l') = (l = l')"
| "app_holds l _ = False"

definition gate_free :: "nat \<Rightarrow> lease_client \<Rightarrow> bool" where
  "gate_free l c \<longleftrightarrow> \<not> renew_holds l (lc_renew c) \<and> \<not> list_ex (app_holds l) (lc_threads c)"

section \<open>The steps\<close>

datatype lease_event =
    RenewSnapshot
  | RenewSkip
  | RenewGate
  | RenewCheck
  | RenewClaim wire instant "app_error + session_status option"
  | RenewJoin
  | RenewReport
  | AdoptStart nat
  | AdoptElsewhere nat statuses instant daemon_op
  | AdoptClaim nat wire instant "app_error + session_status option"
  | AdoptRemember nat
  | ReleaseStart nat
  | ReleaseGate nat
  | ReleaseClear nat
  | ReleaseSend nat wire instant
  | Return nat
  | KillStart nat
  | KillSend nat wire instant kill_reason "app_error + unit"
  | KillClear nat
  | Elsewhere statuses instant daemon_op
  | SessionGone

definition status_now :: "lease_client \<Rightarrow> app_error + session_status option \<Rightarrow> app_error + session_status option" where
  "status_now c status = (if lc_gone c then Inr None else status)"

definition goto :: "nat \<Rightarrow> app_pc \<Rightarrow> lease_client \<Rightarrow> lease_client" where
  "goto t pc c = c\<lparr>lc_threads := (lc_threads c)[t := pc]\<rparr>"

text \<open>The renewal of the session in one round.\<close>

fun renew_step :: "parties \<Rightarrow> lease_event \<Rightarrow> lease_client \<Rightarrow> lease_client option" where
  "renew_step p RenewSnapshot c =
    (case (lc_renew c, lc_owned c) of
       (RIdle, Some l) \<Rightarrow> Some (c\<lparr>lc_renew := RSnapped l\<rparr>)
     | _ \<Rightarrow> None)"
| "renew_step p RenewSkip c =
    (case lc_renew c of RSnapped l \<Rightarrow> Some (c\<lparr>lc_renew := RIdle\<rparr>) | _ \<Rightarrow> None)"
| "renew_step p RenewGate c =
    (case lc_renew c of
       RSnapped l \<Rightarrow> if gate_free l c then Some (c\<lparr>lc_renew := RGated l\<rparr>) else None
     | _ \<Rightarrow> None)"
| "renew_step p RenewCheck c =
    (case lc_renew c of
       RGated l \<Rightarrow> Some (c\<lparr>lc_renew := (if lc_owned c = Some l then RChecked l else RIdle)\<rparr>)
     | _ \<Rightarrow> None)"
| "renew_step p (RenewClaim w now status) c =
    (case lc_renew c of
       RChecked l \<Rightarrow>
         (let (d, outcome) = client_claim p w now (status_now c status) (lc_daemon c)
          in Some (c\<lparr>lc_daemon := d, lc_renew := RReplied outcome\<rparr>))
     | _ \<Rightarrow> None)"
| "renew_step p RenewJoin c =
    (case lc_renew c of
       RReplied outcome \<Rightarrow>
         Some (if outcome = Inr False then c\<lparr>lc_owned := None, lc_renew := RLost\<rparr>
               else c\<lparr>lc_renew := RIdle\<rparr>)
     | _ \<Rightarrow> None)"
| "renew_step p RenewReport c =
    (case lc_renew c of RLost \<Rightarrow> Some (c\<lparr>lc_lost := Suc (lc_lost c), lc_renew := RIdle\<rparr>) | _ \<Rightarrow> None)"
| "renew_step p _ c = None"

definition remember_owned :: "lease_client \<Rightarrow> lease_client" where
  "remember_owned c =
    (case lc_owned c of
       None \<Rightarrow> c\<lparr>lc_owned := Some (lc_fresh c), lc_fresh := Suc (lc_fresh c)\<rparr>
     | Some _ \<Rightarrow> c)"

text \<open>
  Adopting, or creating with the claim that follows: until the claim the daemon may also give the
  lease with a creation (\<open>AdoptElsewhere\<close>).
\<close>

fun adopt_step :: "parties \<Rightarrow> lease_event \<Rightarrow> lease_client \<Rightarrow> lease_client option" where
  "adopt_step p (AdoptStart t) c =
    (case vec_get (lc_threads c) t of Some AIdle \<Rightarrow> Some (goto t Adopting c) | _ \<Rightarrow> None)"
| "adopt_step p (AdoptElsewhere t status now op) c =
    (case vec_get (lc_threads c) t of
       Some Adopting \<Rightarrow> Some (c\<lparr>lc_daemon := daemon_do status now op (lc_daemon c)\<rparr>)
     | _ \<Rightarrow> None)"
| "adopt_step p (AdoptClaim t w now status) c =
    (case vec_get (lc_threads c) t of
       Some Adopting \<Rightarrow>
         (let (d, outcome) = client_claim p w now (status_now c status) (lc_daemon c)
          in Some (goto t (Adopted outcome) (c\<lparr>lc_daemon := d\<rparr>)))
     | _ \<Rightarrow> None)"
| "adopt_step p (AdoptRemember t) c =
    (case vec_get (lc_threads c) t of
       Some (Adopted outcome) \<Rightarrow>
         Some (goto t AIdle (if outcome = Inr True then remember_owned c else c))
     | _ \<Rightarrow> None)"
| "adopt_step p _ c = None"

fun release_step :: "parties \<Rightarrow> lease_event \<Rightarrow> lease_client \<Rightarrow> lease_client option" where
  "release_step p (ReleaseStart t) c =
    (case vec_get (lc_threads c) t of Some AIdle \<Rightarrow> Some (goto t (Releasing (lc_owned c)) c) | _ \<Rightarrow> None)"
| "release_step p (ReleaseGate t) c =
    (case vec_get (lc_threads c) t of
       Some (Releasing (Some l)) \<Rightarrow> if gate_free l c then Some (goto t (ReleaseGated l) c) else None
     | _ \<Rightarrow> None)"
| "release_step p (ReleaseClear t) c =
    (case vec_get (lc_threads c) t of
       Some (ReleaseGated l) \<Rightarrow>
         Some (goto t (ReleaseCleared l)
           (if lc_owned c = Some l then c\<lparr>lc_owned := None\<rparr> else c))
     | _ \<Rightarrow> None)"
| "release_step p (ReleaseSend t w now) c =
    (if vec_get (lc_threads c) t = Some (Releasing None)
        \<or> (case vec_get (lc_threads c) t of Some (ReleaseCleared l) \<Rightarrow> True | _ \<Rightarrow> False)
     then
       (let (d, outcome) = client_release p w now (lc_daemon c)
        in Some (goto t (Released outcome) (c\<lparr>lc_daemon := d\<rparr>)))
     else None)"
| "release_step p (Return t) c =
    (case vec_get (lc_threads c) t of Some (Released outcome) \<Rightarrow> Some (goto t AIdle c) | _ \<Rightarrow> None)"
| "release_step p _ c = None"

fun kill_step :: "parties \<Rightarrow> lease_event \<Rightarrow> lease_client \<Rightarrow> lease_client option" where
  "kill_step p (KillStart t) c =
    (case vec_get (lc_threads c) t of Some AIdle \<Rightarrow> Some (goto t Killing c) | _ \<Rightarrow> None)"
| "kill_step p (KillSend t w now reason done_by_backend) c =
    (case vec_get (lc_threads c) t of
       Some Killing \<Rightarrow>
         (let (d, outcome) = client_kill p w now reason done_by_backend (lc_daemon c)
          in Some (goto t (Killed outcome)
               (c\<lparr>lc_daemon := d, lc_gone := (lc_gone c \<or> done_by_backend = Inr () \<and> ds_calls d \<noteq> ds_calls (lc_daemon c))\<rparr>)))
     | _ \<Rightarrow> None)"
| "kill_step p (KillClear t) c =
    (case vec_get (lc_threads c) t of
       Some (Killed outcome) \<Rightarrow>
         Some (goto t AIdle (if outcome = Inr () then c\<lparr>lc_owned := None\<rparr> else c))
     | _ \<Rightarrow> None)"
| "kill_step p _ c = None"

text \<open>
  What others do to the daemon: any request that does not ask for the lease in this instance's
  name. The session may also end by itself.
\<close>

fun foreign :: "string \<Rightarrow> daemon_op \<Rightarrow> bool" where
  "foreign inst (DClaim h s i ttl) = (or_option i (caller_instance h) \<noteq> Some inst)"
| "foreign inst (DReuse ho r owner) = (owner \<noteq> Some inst)"
| "foreign inst (DPublish cancelled owner birth expected s register) = (owner \<noteq> Some inst)"
| "foreign inst _ = True"

fun other_step :: "parties \<Rightarrow> lease_event \<Rightarrow> lease_client \<Rightarrow> lease_client option" where
  "other_step p (Elsewhere status now op) c =
    (if foreign (pt_instance p) op
     then Some (c\<lparr>lc_daemon := daemon_do status now op (lc_daemon c)\<rparr>) else None)"
| "other_step p SessionGone c = Some (c\<lparr>lc_gone := True\<rparr>)"
| "other_step p _ c = None"

definition lease_step :: "parties \<Rightarrow> lease_event \<Rightarrow> lease_client \<Rightarrow> lease_client option" where
  "lease_step p e c =
    or_option (renew_step p e c) (or_option (adopt_step p e c)
      (or_option (release_step p e c) (or_option (kill_step p e c) (other_step p e c))))"

definition lease_run :: "parties \<Rightarrow> lease_client \<Rightarrow> lease_event list \<Rightarrow> lease_client option" where
  "lease_run p = run_opt (\<lambda>c e. lease_step p e c)"

definition lease_client_new :: "nat \<Rightarrow> daemon \<Rightarrow> lease_client" where
  "lease_client_new threads d =
    \<lparr>lc_owned = None, lc_fresh = 0, lc_renew = RIdle, lc_threads = replicate threads AIdle,
     lc_daemon = d, lc_gone = False, lc_lost = 0\<rparr>"

section \<open>Who may write automatically\<close>

datatype write_authority = Unavailable | ExclusiveInProcess | EnforcedLease string

definition automatic_write_authority ::
    "parties \<Rightarrow> bool \<Rightarrow> app_error + session_status option \<Rightarrow> lease_client \<Rightarrow> write_authority" where
  "automatic_write_authority p claims_supported status c =
    (if \<not> claims_supported then Unavailable
     else if lc_owned c = None then Unavailable
     else
      let live_session = (case status of Inr (Some st) \<Rightarrow> \<not> is_terminal st | _ \<Rightarrow> False) in
      if \<not> live_session then Unavailable else EnforcedLease (pt_instance p))"

end
