(* ===== verification/Lease_Fence.thy ===== *)
theory Lease_Fence
  imports Client_Lease Lease_Props
begin

text \<open>
  The fence between releasing and renewing a lease: once a session is released, the renewal does
  not take the lease again.
\<close>

section \<open>Whose lease it is\<close>

definition unheld :: "string \<Rightarrow> string \<Rightarrow> daemon \<Rightarrow> bool" where
  "unheld inst x d \<longleftrightarrow> (\<forall>c. ds_claims d x = Some c \<longrightarrow> cl_owner c \<noteq> inst)"

lemma unheld_prune: "unheld inst x d \<Longrightarrow> unheld inst x (prune_expired_claims now d)"
  by (auto simp: unheld_def daemon_simps split: option.splits if_splits)

lemma unheld_claim:
  "unheld inst x d \<Longrightarrow> w \<noteq> inst \<Longrightarrow> unheld inst x (fst (try_claim_session now s w ttl d))"
  by (auto simp: unheld_def try_claim_session_def Let_def split: option.splits if_splits)

lemma unheld_release: "unheld inst x d \<Longrightarrow> unheld inst x (fst (release_session_claim now s w d))"
  by (auto simp: unheld_def release_session_claim_def split: option.splits if_splits)

lemma unheld_reuse:
  assumes "unheld inst x d" and "owner \<noteq> Some inst"
  shows "unheld inst x (fst (reuse_expected_session ho st now r owner d))"
proof -
  have e: "unheld inst x d'" if "expected_session st e d = (d', y)" for e d' y
    using expected_fields(2) [of st e d] that assms(1) by (simp add: unheld_def)
  have c: "unheld inst x d''" if "unheld inst x d'" "try_claim_session now s' w None d' = (d'', y)" "owner = Some w"
    for s' w d' d'' y
    using unheld_claim [OF that(1), of w now s' None] that(2,3) assms(2) by simp
  show ?thesis using assms(1)
    by (auto simp: reuse_expected_session_def unheld_def [of _ _ "touch_session _ _ _"] daemon_simps
        unheld_def [symmetric] dest: e c split: option.splits prod.splits sum.splits)
qed

lemma unheld_publish:
  assumes "unheld inst x d" and "owner \<noteq> Some inst"
  shows "unheld inst x (fst (publish_session now cancelled owner birth expected s register d))"
proof -
  have c: "unheld inst x d''" if "try_claim_session now s' w None d = (d'', y)" "owner = Some w" for s' w d'' y
    using unheld_claim [OF assms(1), of w now s' None] that assms(2) by simp
  show ?thesis using assms(1)
    by (auto simp: publish_session_def unheld_def [of _ _ "touch_session _ _ _"] daemon_simps
        unheld_def [symmetric] dest: c split: option.splits prod.splits sum.splits)
qed

lemma unheld_foreign:
  assumes "unheld inst x d" and "foreign inst op"
  shows "unheld inst x (daemon_do st now op d)"
proof (cases op)
  case (DClaim h s i ttl)
  have c: "unheld inst x d'"
    if "try_claim_session now s w ttl (prune_expired_claims now d) = (d', y)"
      "or_option i (caller_instance h) = Some w" for w d' y
    using unheld_claim [OF unheld_prune [OF assms(1), of now], of w now s ttl] that assms(2) DClaim by auto
  show ?thesis using assms(1) DClaim
    by (auto simp: claim_session_def guarded_def authorize_def
        unheld_def [of _ _ "touch_session _ _ _"] daemon_simps unheld_def [symmetric]
        dest: c split: option.splits prod.splits sum.splits)
next
  case (DRelease h s i)
  then show ?thesis using assms(1) by (simp add: daemon_simps unheld_release)
next
  case (DReuse ho r owner)
  then show ?thesis using assms unheld_reuse by simp
next
  case (DPublish cancelled owner birth expected s register)
  then show ?thesis using assms unheld_publish by simp
next
  case (DAdopt all_status now_ms h)
  then show ?thesis using assms(1)
    by (auto simp: unheld_def daemon_simps get_adoption_snapshot_def guarded_def authorize_def
        Let_def split: sum.splits option.splits if_splits)
next
  case (DListClaims h)
  then show ?thesis using assms(1) unheld_prune
    by (auto simp: list_session_claims_def guarded_def authorize_def Let_def split: sum.splits)
qed (use assms in \<open>auto simp: unheld_def daemon_simps forward_fields write_session_def submit_session_def
      resize_session_def ws_input_def small_routes Let_def
      split: option.splits prod.splits sum.splits control_in.splits\<close>)

text \<open>The requests of this client.\<close>

lemma claim_gone: "fst (claim_session (\<lambda>_. Inr None) now h s (Some inst) ttl d) = d"
  by (auto simp: claim_session_def guarded_def authorize_def split: sum.splits)

lemma client_claim_gone: "fst (client_claim p w now (Inr None) d) = d"
  using claim_gone
  by (cases w) (simp_all add: client_claim_def rpc_def Let_def case_prod_unfold)

text \<open>A release that reports success has left no lease of this instance.\<close>

lemma release_claim_clears:
  assumes "release_claim now h x (Some inst) d = (d', r)" and "cl_release_session_claim (answer_of b no_content r) = Inr ()"
  shows "unheld inst x d'"
proof (cases "hd_authorization h = Some (''Bearer '' @ ds_token d)")
  case True
  then show ?thesis using assms(1)
    by (auto simp: release_claim_def guarded_def authorize_def release_session_claim_def unheld_def or_else_def
        split: option.splits if_splits)
next
  case False
  then have "r = Inl (http_fail 401 ''UNAUTHORIZED'')"
    using assms(1) by (simp add: release_claim_def guarded_def authorize_def)
  with assms(2) show ?thesis by (simp add: cl_release_session_claim_def success_def)
qed

lemma client_release_clears:
  assumes "client_release p w now d = (d', Inr ())"
  shows "unheld (pt_instance p) (pt_session p) d'"
proof -
  let ?f = "release_claim now (pt_headers p) (pt_session p) (Some (pt_instance p))"
  have "\<exists>d0. d' = fst (?f d0) \<and> cl_release_session_claim (answer_of [] no_content (snd (?f d0))) = Inr ()"
    using assms by (cases w)
      (auto simp: client_release_def rpc_def Let_def case_prod_unfold res_bind_def split: sum.splits)
  then show ?thesis using release_claim_clears by (metis prod.collapse)
qed

lemma client_release_unheld:
  "unheld inst x d \<Longrightarrow> unheld inst x (fst (client_release p w now d))"
  by (cases w)
    (simp_all add: client_release_def rpc_def Let_def case_prod_unfold daemon_simps unheld_release)

text \<open>A kill does not give a lease, and one that succeeds was carried out.\<close>

lemma kill_request_unheld: "unheld inst x d \<Longrightarrow> unheld inst x (fst (kill_request p reason now answer d))"
  by (auto simp: kill_request_def kill_session_begin_def kill_session_end_def guarded_def authorize_def
      ensure_may_write_def unheld_def daemon_simps split: sum.splits prod.splits if_splits)

lemma kill_request_done:
  "snd (kill_request p reason now answer d) = Inr n \<Longrightarrow>
    answer = Inr () \<and> length (ds_calls d) < length (ds_calls (fst (kill_request p reason now answer d)))"
  by (auto simp: kill_request_def kill_session_begin_def kill_session_end_def guarded_def authorize_def
      ensure_may_write_def daemon_simps split: sum.splits prod.splits if_splits)

lemma kill_request_calls: "length (ds_calls d) \<le> length (ds_calls (fst (kill_request p reason now answer d)))"
  by (auto simp: kill_request_def kill_session_begin_def kill_session_end_def guarded_def authorize_def
      ensure_may_write_def daemon_simps split: sum.splits prod.splits if_splits)

lemma kill_request_refused:
  "snd (kill_request p reason now answer d) = Inl e \<Longrightarrow> request_empty (answer_of [] no_content (Inl e)) \<noteq> Inr ()"
  by (auto simp: kill_request_def kill_session_begin_def kill_session_end_def guarded_def authorize_def
      ensure_may_write_def request_empty_def success_def split: sum.splits prod.splits if_splits)

lemma rpc_answered:
  "rpc w f d = (d', Inr a) \<Longrightarrow> \<exists>d0. f d0 = (d', a) \<and> (d0 = d \<or> d0 = fst (f d))"
  by (cases w) (auto simp: rpc_def Let_def split: prod.splits)

lemma rpc_keeps:
  "P d \<Longrightarrow> (\<And>d. P d \<Longrightarrow> P (fst (f d))) \<Longrightarrow> P (fst (rpc w f d))"
  by (cases w) (simp_all add: rpc_def Let_def case_prod_unfold)

lemma client_kill_unheld: "unheld inst x d \<Longrightarrow> unheld inst x (fst (client_kill p w now reason answer d))"
  using rpc_keeps [of "unheld inst x" d "kill_request p reason now answer" w, OF _ kill_request_unheld]
  by (simp add: client_kill_def case_prod_unfold Let_def)

lemma client_kill_done:
  assumes "client_kill p w now reason answer d = (d', Inr ())"
  shows "answer = Inr () \<and> ds_calls d' \<noteq> ds_calls d"
proof -
  obtain a where a: "rpc w (kill_request p reason now answer) d = (d', Inr a)"
      "request_empty (answer_of [] no_content a) = Inr ()"
    using assms by (auto simp: client_kill_def res_bind_def split: prod.splits sum.splits)
  then obtain d0 where d0: "kill_request p reason now answer d0 = (d', a)" "length (ds_calls d) \<le> length (ds_calls d0)"
    using rpc_answered [OF a(1)] kill_request_calls by fastforce
  obtain n where "a = Inr n"
    using a(2) kill_request_refused [of p reason now answer d0] d0(1) by (cases a) auto
  then show ?thesis using kill_request_done [of p reason now answer d0 n] d0 by auto
qed

section \<open>Invariants of the client\<close>

text \<open>
  A renewal past its check is for the entry of the table, or the session is gone; an entry's gate
  has one holder; a kill that succeeded has ended the session.
\<close>

definition lease_inv :: "lease_client \<Rightarrow> bool" where
  "lease_inv c \<longleftrightarrow>
    (\<forall>l. lc_renew c = RChecked l \<longrightarrow> lc_owned c = Some l \<or> lc_gone c)
    \<and> (\<forall>l. renew_holds l (lc_renew c) \<longrightarrow> (\<forall>pc \<in> set (lc_threads c). \<not> app_holds l pc))
    \<and> (Killed (Inr ()) \<in> set (lc_threads c) \<longrightarrow> lc_gone c)"

lemma vec_get_mem: "vec_get xs i = Some x \<Longrightarrow> x \<in> set xs"
  by (auto simp: vec_get_def split: if_splits)

lemma set_goto: "pc' \<in> set (lc_threads (goto t pc c)) \<Longrightarrow> pc' = pc \<or> pc' \<in> set (lc_threads c)"
  using set_update_subset_insert [of "lc_threads c" t pc] by (auto simp: goto_def)

lemma goto_fields [simp]:
  "lc_owned (goto t pc c) = lc_owned c" "lc_renew (goto t pc c) = lc_renew c"
  "lc_gone (goto t pc c) = lc_gone c" "lc_daemon (goto t pc c) = lc_daemon c"
  "lc_fresh (goto t pc c) = lc_fresh c" "lc_lost (goto t pc c) = lc_lost c"
  by (simp_all add: goto_def)

text \<open>A step that moves a thread keeps the invariant if the new point needs nothing.\<close>

lemma lease_inv_goto:
  assumes "lease_inv c" and "\<And>l. app_holds l pc \<Longrightarrow> \<not> renew_holds l (lc_renew c)"
    and "pc = Killed (Inr ()) \<Longrightarrow> lc_gone c"
  shows "lease_inv (goto t pc c)"
  using assms unfolding lease_inv_def by (auto dest!: set_goto)

lemma remember_fields [simp]:
  "lc_renew (remember_owned c) = lc_renew c" "lc_threads (remember_owned c) = lc_threads c"
  "lc_gone (remember_owned c) = lc_gone c" "lc_daemon (remember_owned c) = lc_daemon c"
  "lc_owned c = Some l \<Longrightarrow> lc_owned (remember_owned c) = Some l"
  by (simp_all add: remember_owned_def split: option.split)

lemma renew_inv: "renew_step p e c = Some c' \<Longrightarrow> lease_inv c \<Longrightarrow> lease_inv c'"
  by (cases e) (auto simp: lease_inv_def gate_free_def list_ex_iff Let_def
      split: renew_pc.splits option.splits prod.splits if_splits)

lemma adopt_inv: "adopt_step p e c = Some c' \<Longrightarrow> lease_inv c \<Longrightarrow> lease_inv c'"
proof (cases e)
  case (AdoptRemember t)
  assume s: "adopt_step p e c = Some c'" and i: "lease_inv c"
  have "lease_inv (remember_owned c)" using i by (auto simp: lease_inv_def)
  with s i AdoptRemember show ?thesis
    by (auto intro!: lease_inv_goto split: option.splits app_pc.splits)
qed (auto intro!: lease_inv_goto simp: lease_inv_def [of "_\<lparr>lc_daemon := _\<rparr>"] lease_inv_def [symmetric] Let_def
      split: option.splits app_pc.splits prod.splits)

lemma release_inv: "release_step p e c = Some c' \<Longrightarrow> lease_inv c \<Longrightarrow> lease_inv c'"
proof (cases e)
  case (ReleaseGate t)
  assume "release_step p e c = Some c'" and "lease_inv c"
  with ReleaseGate show ?thesis
    by (auto intro!: lease_inv_goto simp: gate_free_def split: option.splits app_pc.splits if_splits)
next
  case (ReleaseClear t)
  assume s: "release_step p e c = Some c'" and i: "lease_inv c"
  then obtain l where l: "vec_get (lc_threads c) t = Some (ReleaseGated l)"
    and c': "c' = goto t (ReleaseCleared l) (if lc_owned c = Some l then c\<lparr>lc_owned := None\<rparr> else c)"
    using ReleaseClear by (auto split: option.splits app_pc.splits)
  have free: "\<not> renew_holds l (lc_renew c)"
    using i vec_get_mem [OF l] by (force simp: lease_inv_def)
  then have "lease_inv (if lc_owned c = Some l then c\<lparr>lc_owned := None\<rparr> else c)"
    using i by (auto simp: lease_inv_def)
  with free show ?thesis unfolding c' by (intro lease_inv_goto) auto
qed (auto intro!: lease_inv_goto simp: lease_inv_def [of "_\<lparr>lc_daemon := _\<rparr>"] lease_inv_def [symmetric] Let_def
      split: option.splits app_pc.splits prod.splits if_splits)

lemma kill_inv: "kill_step p e c = Some c' \<Longrightarrow> lease_inv c \<Longrightarrow> lease_inv c'"
proof (cases e)
  case (KillSend t w now reason answer)
  assume s: "kill_step p e c = Some c'" and i: "lease_inv c"
  obtain d r where k: "client_kill p w now reason answer (lc_daemon c) = (d, r)" by fastforce
  let ?c = "c\<lparr>lc_daemon := d, lc_gone := (lc_gone c \<or> answer = Inr () \<and> ds_calls d \<noteq> ds_calls (lc_daemon c))\<rparr>"
  have "c' = goto t (Killed r) ?c"
    using s k KillSend by (auto split: option.splits app_pc.splits)
  moreover have "lease_inv ?c" using i by (auto simp: lease_inv_def)
  moreover have "lc_gone ?c" if "r = Inr ()" using client_kill_done k that by simp
  ultimately show ?thesis by (auto intro!: lease_inv_goto)
next
  case (KillClear t)
  assume s: "kill_step p e c = Some c'" and i: "lease_inv c"
  then obtain r where r: "vec_get (lc_threads c) t = Some (Killed r)"
    and c': "c' = goto t AIdle (if r = Inr () then c\<lparr>lc_owned := None\<rparr> else c)"
    using KillClear by (auto split: option.splits app_pc.splits)
  have "lc_gone c" if "r = Inr ()" using i vec_get_mem [OF r] that by (simp add: lease_inv_def)
  then have "lease_inv (if r = Inr () then c\<lparr>lc_owned := None\<rparr> else c)"
    using i by (auto simp: lease_inv_def)
  then show ?thesis unfolding c' by (intro lease_inv_goto) auto
qed (auto intro!: lease_inv_goto split: option.splits app_pc.splits)

lemma other_inv: "other_step p e c = Some c' \<Longrightarrow> lease_inv c \<Longrightarrow> lease_inv c'"
  by (cases e) (auto simp: lease_inv_def split: if_splits)

lemma lease_step_cases:
  assumes "lease_step p e c = Some c'"
  shows "renew_step p e c = Some c' \<or> adopt_step p e c = Some c' \<or> release_step p e c = Some c'
    \<or> kill_step p e c = Some c' \<or> other_step p e c = Some c'"
  using assms by (auto simp: lease_step_def or_option_def split: option.splits)

lemma lease_step_inv: "lease_step p e c = Some c' \<Longrightarrow> lease_inv c \<Longrightarrow> lease_inv c'"
  by (drule lease_step_cases, elim disjE) (erule (1) renew_inv adopt_inv release_inv kill_inv other_inv)+

interpretation lease: partial_machine "\<lambda>c e. lease_step p e c" lease_inv "\<lambda>_. True" for p
  by unfold_locales (rule lease_step_inv)

section \<open>The fence\<close>

definition adopting :: "app_pc \<Rightarrow> bool" where
  "adopting pc \<longleftrightarrow> (case pc of Adopting \<Rightarrow> True | Adopted _ \<Rightarrow> True | _ \<Rightarrow> False)"

definition nobody_adopts :: "lease_client \<Rightarrow> bool" where
  "nobody_adopts c \<longleftrightarrow> list_all (\<lambda>pc. \<not> adopting pc) (lc_threads c)"

definition no_adoption :: "lease_event \<Rightarrow> bool" where
  "no_adoption e \<longleftrightarrow> (case e of AdoptStart _ \<Rightarrow> False | _ \<Rightarrow> True)"

lemma nobody_goto: "nobody_adopts c \<Longrightarrow> \<not> adopting pc \<Longrightarrow> nobody_adopts (goto t pc c)"
  unfolding nobody_adopts_def list_all_iff by (auto dest!: set_goto)

lemma nobody_mem: "nobody_adopts c \<Longrightarrow> vec_get (lc_threads c) t = Some pc \<Longrightarrow> \<not> adopting pc"
  by (auto simp: nobody_adopts_def list_all_iff dest: vec_get_mem)

lemma adopt_disabled: "nobody_adopts c \<Longrightarrow> no_adoption e \<Longrightarrow> adopt_step p e c = None"
  by (cases e)
    (auto simp: no_adoption_def split: option.splits app_pc.splits dest!: nobody_mem, simp_all add: adopting_def)

text \<open>With nobody adopting the entry of the table can only go.\<close>

lemma fenced_step:
  assumes "lease_step p e c = Some c'" and "nobody_adopts c" and "no_adoption e"
  shows "nobody_adopts c' \<and> (lc_owned c' = lc_owned c \<or> lc_owned c' = None)"
proof -
  from lease_step_cases [OF assms(1)] adopt_disabled [OF assms(2,3), of p]
  consider (renew) "renew_step p e c = Some c'" | (release) "release_step p e c = Some c'"
    | (kill) "kill_step p e c = Some c'" | (other) "other_step p e c = Some c'"
    by auto
  then show ?thesis
  proof cases
    case renew
    then show ?thesis using assms(2)
      by (cases e) (auto simp: nobody_adopts_def Let_def
          split: renew_pc.splits option.splits prod.splits if_splits)
  next
    case release
    have n: "nobody_adopts (c\<lparr>lc_owned := x\<rparr>)" "nobody_adopts (c\<lparr>lc_daemon := y\<rparr>)" for x y
      using assms(2) by (simp_all add: nobody_adopts_def)
    from release show ?thesis using assms(2) n
      by (cases e) (auto simp: adopting_def Let_def intro!: nobody_goto
          split: option.splits app_pc.splits prod.splits if_splits)
  next
    case kill
    have n: "nobody_adopts (c\<lparr>lc_owned := x\<rparr>)" "nobody_adopts (c\<lparr>lc_daemon := y, lc_gone := z\<rparr>)" for x y z
      using assms(2) by (simp_all add: nobody_adopts_def)
    from kill show ?thesis using assms(2) n
      by (cases e) (auto simp: adopting_def Let_def intro!: nobody_goto
          split: option.splits app_pc.splits prod.splits if_splits)
  next
    case other
    then show ?thesis using assms(2)
      by (cases e) (auto simp: nobody_adopts_def split: if_splits)
  qed
qed

text \<open>With the entry gone too, no step gives this instance the lease.\<close>

lemma unheld_step:
  assumes "lease_step p e c = Some c'" and "lease_inv c" and "nobody_adopts c" and "no_adoption e"
    and "lc_owned c = None" and "unheld (pt_instance p) (pt_session p) (lc_daemon c)"
  shows "unheld (pt_instance p) (pt_session p) (lc_daemon c')"
proof -
  from lease_step_cases [OF assms(1)] adopt_disabled [OF assms(3,4), of p]
  consider (renew) "renew_step p e c = Some c'" | (release) "release_step p e c = Some c'"
    | (kill) "kill_step p e c = Some c'" | (other) "other_step p e c = Some c'"
    by auto
  then show ?thesis
  proof cases
    case renew
    then show ?thesis
    proof (cases e)
      case (RenewClaim w now status)
      from renew RenewClaim obtain l where l: "lc_renew c = RChecked l"
        by (auto split: renew_pc.splits)
      with assms(2,5) have "lc_gone c" by (auto simp: lease_inv_def)
      then have "lc_daemon c' = fst (client_claim p w now (Inr None) (lc_daemon c))"
        using renew RenewClaim l by (auto simp: status_now_def Let_def split: prod.splits)
      with assms(6) show ?thesis by (simp add: client_claim_gone)
    qed (use assms(6) in \<open>auto split: renew_pc.splits option.splits if_splits\<close>)
  next
    case release
    have s: "unheld (pt_instance p) (pt_session p) d" if "client_release p w now (lc_daemon c) = (d, r)" for w now d r
      using client_release_unheld [OF assms(6), of p w now] that by simp
    from release show ?thesis using assms(6)
      by (cases e) (auto simp: Let_def dest: s split: option.splits app_pc.splits prod.splits if_splits)
  next
    case kill
    have s: "unheld (pt_instance p) (pt_session p) d"
      if "client_kill p w now reason answer (lc_daemon c) = (d, r)" for w now reason answer d r
      using client_kill_unheld [OF assms(6), of p w now reason answer] that by simp
    from kill show ?thesis using assms(6)
      by (cases e) (auto simp: Let_def dest: s split: option.splits app_pc.splits prod.splits if_splits)
  next
    case other
    then show ?thesis using assms(6) unheld_foreign by (cases e) (auto split: if_splits)
  qed
qed

section \<open>A release that is under way\<close>

definition fenced :: "parties \<Rightarrow> lease_client \<Rightarrow> bool" where
  "fenced p c \<longleftrightarrow> lease_inv c \<and> nobody_adopts c \<and> lc_owned c = None
    \<and> unheld (pt_instance p) (pt_session p) (lc_daemon c)"

interpretation fence: partial_machine "\<lambda>c e. lease_step p e c" "fenced p" no_adoption for p
proof unfold_locales
  fix c e c'
  assume f: "fenced p c" and n: "no_adoption e" and s: "lease_step p e c = Some c'"
  have "lease_inv c'" using s f lease_step_inv by (auto simp: fenced_def)
  moreover have "nobody_adopts c' \<and> lc_owned c' = None"
    using fenced_step [OF s _ n] f by (auto simp: fenced_def)
  moreover have "unheld (pt_instance p) (pt_session p) (lc_daemon c')"
    using unheld_step [OF s _ _ n] f by (simp add: fenced_def)
  ultimately show "fenced p c'" by (simp add: fenced_def)
qed

text \<open>What holds of the table while thread \<open>t\<close> releases.\<close>

definition release_point :: "parties \<Rightarrow> app_pc \<Rightarrow> lease_client \<Rightarrow> bool" where
  "release_point p pc c \<longleftrightarrow>
    (case pc of
       Releasing None \<Rightarrow> lc_owned c = None
     | Releasing (Some l) \<Rightarrow> lc_owned c \<in> {None, Some l}
     | ReleaseGated l \<Rightarrow> lc_owned c \<in> {None, Some l}
     | ReleaseCleared l \<Rightarrow> lc_owned c = None
     | Released r \<Rightarrow> lc_owned c = None
         \<and> (r = Inr () \<longrightarrow> unheld (pt_instance p) (pt_session p) (lc_daemon c))
     | _ \<Rightarrow> False)"

definition releases :: "parties \<Rightarrow> nat \<Rightarrow> lease_client \<Rightarrow> bool" where
  "releases p t c \<longleftrightarrow> lease_inv c \<and> nobody_adopts c
    \<and> (case vec_get (lc_threads c) t of Some pc \<Rightarrow> release_point p pc c | None \<Rightarrow> False)"

lemma vec_get_goto [simp]:
  "vec_get (lc_threads (goto t' pc c)) t =
    (if t = t' \<and> t < length (lc_threads c) then Some pc else vec_get (lc_threads c) t)"
  by (auto simp: goto_def vec_get_def)

lemma vec_get_bound: "vec_get xs t = Some x \<Longrightarrow> t < length xs"
  by (auto simp: vec_get_def split: if_splits)

text \<open>Only its own events move a thread.\<close>

definition moves :: "nat \<Rightarrow> lease_event \<Rightarrow> bool" where
  "moves t e \<longleftrightarrow> (case e of ReleaseGate t' \<Rightarrow> t' = t | ReleaseClear t' \<Rightarrow> t' = t
     | ReleaseSend t' w now \<Rightarrow> t' = t | Return t' \<Rightarrow> t' = t | _ \<Rightarrow> False)"

lemma thread_stays:
  assumes "lease_step p e c = Some c'" and "vec_get (lc_threads c) t = Some pc"
    and "release_point p pc c" and "\<not> moves t e"
  shows "vec_get (lc_threads c') t = Some pc"
  using lease_step_cases [OF assms(1)]
proof (elim disjE)
  assume "renew_step p e c = Some c'"
  then show ?thesis using assms(2)
    by (cases e) (auto simp: Let_def split: renew_pc.splits option.splits prod.splits if_splits)
next
  assume "adopt_step p e c = Some c'"
  then show ?thesis using assms(2,3)
    by (cases e) (auto simp: release_point_def Let_def split: option.splits app_pc.splits prod.splits if_splits)
next
  assume "release_step p e c = Some c'"
  then show ?thesis using assms(2-4)
    by (cases e) (auto simp: release_point_def moves_def Let_def split: option.splits app_pc.splits prod.splits if_splits)
next
  assume "kill_step p e c = Some c'"
  then show ?thesis using assms(2,3)
    by (cases e) (auto simp: release_point_def Let_def split: option.splits app_pc.splits prod.splits if_splits)
next
  assume "other_step p e c = Some c'"
  then show ?thesis using assms(2) by (cases e) (auto split: if_splits)
qed

lemma release_point_later:
  assumes "release_point p pc c" and "lc_owned c' = lc_owned c \<or> lc_owned c' = None"
    and "lc_owned c = None \<Longrightarrow> unheld (pt_instance p) (pt_session p) (lc_daemon c)
      \<Longrightarrow> unheld (pt_instance p) (pt_session p) (lc_daemon c')"
  shows "release_point p pc c'"
  using assms by (auto simp: release_point_def split: app_pc.splits option.splits)

lemma release_gate_moves:
  assumes "release_step p (ReleaseGate t) c = Some c'" and "vec_get (lc_threads c) t = Some pc"
    and "release_point p pc c"
  shows "\<exists>pc'. vec_get (lc_threads c') t = Some pc' \<and> release_point p pc' c'"
proof -
  from assms(1,2) obtain l where "pc = Releasing (Some l)" and "c' = goto t (ReleaseGated l) c"
    by (auto split: app_pc.splits option.splits if_splits)
  with assms(3) vec_get_bound [OF assms(2)] show ?thesis by (simp add: release_point_def)
qed

lemma release_clear_moves:
  assumes "release_step p (ReleaseClear t) c = Some c'" and "vec_get (lc_threads c) t = Some pc"
    and "release_point p pc c"
  shows "\<exists>pc'. vec_get (lc_threads c') t = Some pc' \<and> release_point p pc' c'"
proof -
  from assms(1,2) obtain l where l: "pc = ReleaseGated l"
    and c': "c' = goto t (ReleaseCleared l) (if lc_owned c = Some l then c\<lparr>lc_owned := None\<rparr> else c)"
    by (auto split: app_pc.splits option.splits)
  have "lc_owned c = None \<or> lc_owned c = Some l" using assms(3) l by (auto simp: release_point_def)
  with c' vec_get_bound [OF assms(2)] show ?thesis by (auto simp: release_point_def)
qed

lemma release_send_moves:
  assumes "release_step p (ReleaseSend t w now) c = Some c'" and "vec_get (lc_threads c) t = Some pc"
    and "release_point p pc c"
  shows "\<exists>pc'. vec_get (lc_threads c') t = Some pc' \<and> release_point p pc' c'"
proof -
  obtain d r where q: "client_release p w now (lc_daemon c) = (d, r)" by fastforce
  with assms(1,2) have pc: "pc = Releasing None \<or> (\<exists>l. pc = ReleaseCleared l)"
    and c': "c' = goto t (Released r) (c\<lparr>lc_daemon := d\<rparr>)"
    by (auto split: app_pc.splits option.splits if_splits)
  have "lc_owned c = None" using pc assms(3) by (auto simp: release_point_def)
  moreover have "unheld (pt_instance p) (pt_session p) d" if "r = Inr ()"
    using client_release_clears q that by simp
  ultimately show ?thesis using c' vec_get_bound [OF assms(2)] by (simp add: release_point_def)
qed

lemma release_moves:
  assumes "release_step p e c = Some c'" and "moves t e" and "e \<noteq> Return t"
    and "vec_get (lc_threads c) t = Some pc" and "release_point p pc c"
  shows "\<exists>pc'. vec_get (lc_threads c') t = Some pc' \<and> release_point p pc' c'"
proof -
  consider "e = ReleaseGate t" | "e = ReleaseClear t" | w now where "e = ReleaseSend t w now"
    using assms(2,3) by (cases e) (auto simp: moves_def)
  then show ?thesis
    using release_gate_moves release_clear_moves release_send_moves assms(1,4,5) by cases blast+
qed

interpretation release: partial_machine "\<lambda>c e. lease_step p e c" "releases p t"
  "\<lambda>e. no_adoption e \<and> e \<noteq> Return t" for p t
proof unfold_locales
  fix c e c'
  assume r: "releases p t c" and a: "no_adoption e \<and> e \<noteq> Return t" and s: "lease_step p e c = Some c'"
  obtain pc where pc: "vec_get (lc_threads c) t = Some pc" "release_point p pc c"
    and i: "lease_inv c" "nobody_adopts c"
    using r by (auto simp: releases_def split: option.splits)
  have n: "nobody_adopts c'" "lc_owned c' = lc_owned c \<or> lc_owned c' = None"
    using fenced_step [OF s i(2)] a by auto
  have "\<exists>pc'. vec_get (lc_threads c') t = Some pc' \<and> release_point p pc' c'"
  proof (cases "moves t e")
    case True
    then have "release_step p e c = Some c'"
      using lease_step_cases [OF s] by (cases e) (auto simp: moves_def)
    then show ?thesis using release_moves [OF _ True _ pc] a by simp
  next
    case False
    have "release_point p pc c'"
      by (rule release_point_later [OF pc(2) n(2)]) (use unheld_step [OF s i] a in simp)
    with thread_stays [OF s pc False] show ?thesis by blast
  qed
  then obtain pc' where "vec_get (lc_threads c') t = Some pc'" "release_point p pc' c'" by blast
  with lease_step_inv [OF s i(1)] n(1) show "releases p t c'" by (simp add: releases_def)
qed

lemma release_start:
  assumes "lease_step p (ReleaseStart t) c = Some c'" and "lease_inv c" and "nobody_adopts c"
  shows "releases p t c'"
proof -
  have "release_step p (ReleaseStart t) c = Some c'"
    using lease_step_cases [OF assms(1)] by auto
  then have a: "vec_get (lc_threads c) t = Some AIdle" and c': "c' = goto t (Releasing (lc_owned c)) c"
    by (auto split: option.splits app_pc.splits)
  have "release_point p (Releasing (lc_owned c)) c'"
    by (simp add: c' release_point_def split: option.split)
  moreover have "nobody_adopts c'" unfolding c' using assms(3) by (intro nobody_goto) (simp_all add: adopting_def)
  ultimately show ?thesis
    using lease_step_inv [OF assms(1,2)] vec_get_bound [OF a] by (simp add: releases_def c')
qed

lemma lease_inv_new: "lease_inv (lease_client_new n d)"
  by (simp add: lease_inv_def lease_client_new_def)


end
