(* ===== verification/Lease_Runs.thy ===== *)
theory Lease_Runs
  imports Lease_Fence
begin

text \<open>
  Runs of the client that keeps leases: a release that is final, and two in which the renewal
  reports a lease as lost that is not.
\<close>

section \<open>One instance, its daemon and a rival\<close>

definition ex_parties :: parties where
  "ex_parties = \<lparr>pt_instance = ''a'', pt_headers = alice, pt_session = ''s''\<rparr>"

definition ex_lease_daemon :: daemon where
  "ex_lease_daemon = daemon_new ''t'' 0 ws_new"

lemmas claim_simps = client_claim_def rpc_def claim_session_def guarded_def authorize_def prune_expired_claims_def
  retain_claims_def try_claim_session_def is_live_def cl_claim_session_def success_def claim_granted_def
  ex_parties_def alice_def touch_session_def

lemma ex_no_claim: "ds_claims ex_lease_daemon ''s'' = None" "ds_token ex_lease_daemon = ''t''"
  by (simp_all add: ex_lease_daemon_def daemon_new_def)

lemma ex_trim: "trim ''a'' = ''a''" "trim '' b '' = ''b''" "trim ''b'' = ''b''"
  by code_simp+

text \<open>The lease of a holder until a time.\<close>

definition lease_until :: "string \<Rightarrow> instant \<Rightarrow> daemon \<Rightarrow> bool" where
  "lease_until who T d \<longleftrightarrow> ds_token d = ''t'' \<and> ds_claims d ''s'' = Some \<lparr>cl_owner = who, cl_expires_at = T\<rparr>"

definition lease_none :: "daemon \<Rightarrow> bool" where
  "lease_none d \<longleftrightarrow> ds_token d = ''t'' \<and> ds_claims d ''s'' = None"

definition renewed :: "instant \<Rightarrow> instant" where
  "renewed now = now + from_millis (clamp CLAIM_TTL_MIN_MS CLAIM_TTL_MAX_MS CLAIM_TTL_DEFAULT_MS)"

lemma ex_claim_granted:
  assumes "lease_none d \<or> (lease_until who T d \<and> (who = ''a'' \<or> T \<le> now))"
  shows "snd (client_claim ex_parties Answered now (Inr (Some Idle)) d) = Inr True
    \<and> lease_until ''a'' (renewed now) (fst (client_claim ex_parties Answered now (Inr (Some Idle)) d))"
  using assms
  by (auto simp: lease_none_def lease_until_def renewed_def claim_simps ex_trim Let_def split: if_splits)

lemma ex_claim_refused:
  assumes "lease_until ''b'' T d" and "now < T"
  shows "snd (client_claim ex_parties Answered now (Inr (Some Idle)) d) = Inr False
    \<and> lease_until ''b'' T (fst (client_claim ex_parties Answered now (Inr (Some Idle)) d))"
  using assms
  by (auto simp: lease_until_def claim_simps ex_trim Let_def split: if_splits)

lemma ex_release:
  assumes "lease_until ''a'' T d"
  shows "client_release ex_parties Answered now d =
    (fst (client_release ex_parties Answered now d), Inr ())
    \<and> lease_none (fst (client_release ex_parties Answered now d))"
  using assms
  by (auto simp: lease_until_def lease_none_def client_release_def rpc_def release_claim_def guarded_def
      authorize_def release_session_claim_def cl_release_session_claim_def success_def no_content_def
      ex_parties_def alice_def or_else_def Let_def)

lemma ex_rival_claims:
  assumes "lease_none d \<or> (lease_until who T d \<and> T \<le> now)"
  shows "lease_until ''b'' (renewed now) (daemon_do alive now (DClaim bob ''s'' None None) d)"
  using assms
  by (auto simp: lease_none_def lease_until_def renewed_def claim_session_def guarded_def authorize_def
      prune_expired_claims_def retain_claims_def try_claim_session_def is_live_def touch_session_def
      alive_def callers ex_trim bob_def [THEN arg_cong [of _ _ hd_authorization]] Let_def split: if_splits)

lemma ex_rival_releases:
  assumes "lease_until ''b'' T d"
  shows "lease_none (daemon_do alive now (DRelease bob ''s'' None) d)"
  using assms
  by (auto simp: lease_none_def lease_until_def release_claim_def guarded_def authorize_def
      release_session_claim_def callers or_else_def bob_def [THEN arg_cong [of _ _ hd_authorization]] Let_def)

lemma ex_start: "lease_none ex_lease_daemon"
  by (simp add: lease_none_def ex_no_claim)

lemma foreign_bob [simp]: "foreign ''a'' (DClaim bob ''s'' None ttl)" "foreign ''a'' (DRelease bob ''s'' None)"
  by (simp_all add: callers)

lemmas run_simps = lease_run_def lease_step_def lease_client_new_def goto_def vec_get_def gate_free_def
  remember_owned_def status_now_def Let_def

section \<open>A release during a renewal\<close>

definition adopt_events :: "lease_event list" where
  "adopt_events = [AdoptStart 0, AdoptClaim 0 Answered 10 (Inr (Some Idle)), AdoptRemember 0, RenewSnapshot, RenewGate]"

definition release_events :: "lease_event list" where
  "release_events = [RenewCheck, RenewClaim Answered 20 (Inr (Some Idle)), RenewJoin,
     ReleaseGate 1, ReleaseClear 1, ReleaseSend 1 Answered 30]"

definition later_events :: "lease_event list" where
  "later_events = [Return 1, Elsewhere alive 40 (DClaim bob ''s'' None None)]"


section \<open>Leases reported as lost\<close>

text \<open>
  While the answer that somebody else has the lease waits to be handled, the user takes the
  session back: the claim is granted, but the entry is still in the table and stays as it is; then
  the late answer removes it and reports the loss. The daemon holds the lease for this instance
  and nothing renews it.
\<close>

definition regain_events :: "lease_event list" where
  "regain_events = adopt_events @
    [RenewCheck, Elsewhere alive (renewed 10) (DClaim bob ''s'' None None),
     RenewClaim Answered (renewed 10) (Inr (Some Idle)),
     Elsewhere alive (renewed 10) (DRelease bob ''s'' None),
     AdoptStart 0, AdoptClaim 0 Answered (renewed 10) (Inr (Some Idle)), AdoptRemember 0,
     RenewJoin, RenewReport]"

theorem regained_lease_is_dropped:
  "\<exists>c. lease_run ex_parties (lease_client_new 1 ex_lease_daemon) regain_events = Some c
    \<and> lc_lost c = 1 \<and> lc_owned c = None \<and> lc_threads c = [AIdle] \<and> lc_renew c = RIdle
    \<and> lease_until ''a'' (renewed (renewed 10)) (lc_daemon c)"
proof -
  have late: "now < renewed now" for now
    by (simp add: renewed_def from_millis_def clamp_def CLAIM_TTL_MIN_MS_def CLAIM_TTL_MAX_MS_def
        CLAIM_TTL_DEFAULT_MS_def)
  obtain d1 where d1: "client_claim ex_parties Answered 10 (Inr (Some Idle)) ex_lease_daemon = (d1, Inr True)"
      "lease_until ''a'' (renewed 10) d1"
    using ex_claim_granted [of ex_lease_daemon _ _ 10] ex_start by (metis prod.collapse)
  let ?d2 = "daemon_do alive (renewed 10) (DClaim bob ''s'' None None) d1"
  have d2: "lease_until ''b'' (renewed (renewed 10)) ?d2" using ex_rival_claims d1(2) by blast
  obtain d3 where d3: "client_claim ex_parties Answered (renewed 10) (Inr (Some Idle)) ?d2 = (d3, Inr False)"
      "lease_until ''b'' (renewed (renewed 10)) d3"
    using ex_claim_refused [OF d2 late] by (metis prod.collapse)
  let ?d4 = "daemon_do alive (renewed 10) (DRelease bob ''s'' None) d3"
  have d4: "lease_none ?d4" using ex_rival_releases d3(2) .
  obtain d5 where d5: "client_claim ex_parties Answered (renewed 10) (Inr (Some Idle)) ?d4 = (d5, Inr True)"
      "lease_until ''a'' (renewed (renewed 10)) d5"
    using ex_claim_granted [of ?d4 _ _ "renewed 10"] d4 by (metis prod.collapse)
  have "lease_run ex_parties (lease_client_new 1 ex_lease_daemon) regain_events =
      Some \<lparr>lc_owned = None, lc_fresh = 1, lc_renew = RIdle, lc_threads = [AIdle],
        lc_daemon = d5, lc_gone = False, lc_lost = 1\<rparr>"
    using d1(1) d3(1) d5(1)
    by (simp add: regain_events_def adopt_events_def run_simps ex_parties_def [THEN arg_cong [of _ _ pt_instance]]
        del: daemon_do.simps foreign.simps)
  with d5(2) show ?thesis by simp
qed

text \<open>A kill does not take the gate: a renewal under way finds the session gone and reports its loss.\<close>

definition kill_events :: "lease_event list" where
  "kill_events = adopt_events @
    [RenewCheck, KillStart 0, KillSend 0 Answered 20 KillUnknown (Inr ()), RenewClaim Answered 20 (Inr (Some Idle)),
     KillClear 0, RenewJoin, RenewReport]"

lemma ex_kill:
  assumes "lease_until ''a'' T d"
  shows "\<exists>d'. client_kill ex_parties Answered now KillUnknown (Inr ()) d = (d', Inr ()) \<and> ds_calls d' \<noteq> ds_calls d
    \<and> ds_token d' = ds_token d"
proof -
  let ?d = "remove_session_activity ''s'' (backend (BkKill ''s'' KillUnknown) d)"
  have "client_kill ex_parties Answered now KillUnknown (Inr ()) d = (?d, Inr ())"
    using assms
    by (simp add: lease_until_def client_kill_def rpc_def kill_request_def kill_session_begin_def
        kill_session_end_def guarded_def authorize_def ensure_may_write_def may_write_session_def caller_instance_def ex_trim
        session_claim_owner_def
        kill_reason_parse_def request_empty_def success_def no_content_def ex_parties_def alice_def is_live_def Let_def)
  moreover have "ds_calls ?d \<noteq> ds_calls d \<and> ds_token ?d = ds_token d" by (simp add: daemon_simps)
  ultimately show ?thesis by blast
qed

theorem kill_reports_a_lost_lease:
  "\<exists>c. lease_run ex_parties (lease_client_new 1 ex_lease_daemon) kill_events = Some c
    \<and> lc_lost c = 1 \<and> lc_gone c"
proof -
  obtain d1 where d1: "client_claim ex_parties Answered 10 (Inr (Some Idle)) ex_lease_daemon = (d1, Inr True)"
      "lease_until ''a'' (renewed 10) d1"
    using ex_claim_granted [of ex_lease_daemon _ _ 10] ex_start by (metis prod.collapse)
  obtain d2 where d2: "client_kill ex_parties Answered 20 KillUnknown (Inr ()) d1 = (d2, Inr ())"
      "ds_calls d2 \<noteq> ds_calls d1" "ds_token d2 = ''t''"
    using ex_kill [OF d1(2)] d1(2) by (auto simp: lease_until_def)
  have d3: "client_claim ex_parties Answered 20 (Inr None) d2 = (d2, Inr False)"
    using d2(3) by (simp add: claim_simps ex_trim Let_def)
  show ?thesis
    by (simp add: kill_events_def adopt_events_def run_simps d1(1) d2 d3
        ex_parties_def [THEN arg_cong [of _ _ pt_instance]])
qed

end
