(* ===== verification/Host_Files.thy ===== *)
theory Host_Files
  imports Rust_Text
begin

text \<open>
  Files of the host as \<open>std::fs\<close> shows them: the contents of the regular files by path, and what
  the platform lets a program do during one call. A path is the list of its components.
\<close>

type_synonym path = "string list"

type_synonym files = "path \<Rightarrow> string option"

text \<open>
  \<open>left_over\<close> is what a file holds after a write that failed on the way, given what it held.
\<close>

record platform =
  may_read :: "path \<Rightarrow> bool"
  may_write :: "path \<Rightarrow> bool"
  may_create_dir :: "path \<Rightarrow> bool"
  left_over :: "path \<Rightarrow> string option \<Rightarrow> string option"

definition willing :: platform where
  "willing = \<lparr>may_read = (\<lambda>_. True), may_write = (\<lambda>_. True), may_create_dir = (\<lambda>_. True), left_over = (\<lambda>_ old. old)\<rparr>"

definition fs_read_to_string :: "platform \<Rightarrow> path \<Rightarrow> files \<Rightarrow> string option" where
  "fs_read_to_string io p fs =
    (case fs p of Some text \<Rightarrow> if may_read io p then from_utf8 text else None | None \<Rightarrow> None)"

definition fs_write :: "platform \<Rightarrow> path \<Rightarrow> string \<Rightarrow> files \<Rightarrow> files \<times> bool" where
  "fs_write io p text fs =
    (if may_write io p then (fs(p \<mapsto> text), True) else (fs(p := left_over io p (fs p)), False))"

definition fs_copy :: "platform \<Rightarrow> path \<Rightarrow> path \<Rightarrow> files \<Rightarrow> files \<times> bool" where
  "fs_copy io p q fs =
    (case fs p of
       Some text \<Rightarrow> if may_read io p then fs_write io q text fs else (fs, False)
     | None \<Rightarrow> (fs, False))"

text \<open>\<open>fs_atomic::write_atomic\<close>: a temporary file is renamed over the old one, or nothing happens.\<close>

definition write_atomic :: "platform \<Rightarrow> path \<Rightarrow> string \<Rightarrow> files \<Rightarrow> files \<times> bool" where
  "write_atomic io p text fs =
    (if may_create_dir io (butlast p) \<and> may_write io p then (fs(p \<mapsto> text), True) else (fs, False))"

text \<open>\<open>Path::file_stem\<close> and \<open>Path::with_extension\<close>, for a path with a file name.\<close>

definition file_stem :: "string \<Rightarrow> string" where
  "file_stem name =
    (let stem = rev (drop 1 (dropWhile (\<lambda>c. c \<noteq> CHR ''.'') (rev name)))
     in if stem = [] then name else stem)"

definition with_extension :: "string \<Rightarrow> path \<Rightarrow> path" where
  "with_extension ext p = butlast p @ [file_stem (last p) @ ''.'' @ ext]"

lemma fs_write_elsewhere: "q \<noteq> p \<Longrightarrow> fst (fs_write io p text fs) q = fs q"
  by (simp add: fs_write_def)

lemma fs_copy_elsewhere: "r \<noteq> q \<Longrightarrow> fst (fs_copy io p q fs) r = fs r"
  by (simp add: fs_copy_def fs_write_elsewhere split: option.split)

lemma write_atomic_elsewhere: "q \<noteq> p \<Longrightarrow> fst (write_atomic io p text fs) q = fs q"
  by (simp add: write_atomic_def)

lemma write_atomic_cases:
  "(write_atomic io p text fs = (fs(p \<mapsto> text), True)) \<or> (write_atomic io p text fs = (fs, False))"
  by (simp add: write_atomic_def)

lemma willing_simps [simp]:
  "may_read willing p" "may_write willing p" "may_create_dir willing p"
  by (simp_all add: willing_def)

lemma willing_write [simp]:
  "fs_write willing p text fs = (fs(p \<mapsto> text), True)"
  "write_atomic willing p text fs = (fs(p \<mapsto> text), True)"
  by (simp_all add: fs_write_def write_atomic_def)

end
