(* ===== verification/Mcp_File.thy ===== *)
theory Mcp_File
  imports Json_Object Host_Files
begin

text \<open>
  The project file in which agents without a launch-time channel find their MCP servers
  (\<open>src/cc-cli-adapters/src/mcp_file_injection.rs\<close>): what a launch wants to have in it, how it is
  merged with what the user wrote, and the receipt that tells the two apart. The parser and the
  printer of JSON are arguments; trace messages are left out. An unwinding \<open>expect\<close> is \<open>None\<close>.
\<close>

section \<open>Names\<close>

definition CCPANES_SERVER_NAME :: string where
  "CCPANES_SERVER_NAME = ''ccpanes''"

definition receipt_file_name :: "string \<Rightarrow> string" where
  "receipt_file_name cli_id = ''mcp-injected-'' @ cli_id @ ''.json''"

definition receipt_path :: "string \<Rightarrow> string \<Rightarrow> path" where
  "receipt_path project cli_id = [project, ''.ccpanes'', ''.cache'', receipt_file_name cli_id]"

abbreviation NL :: string where
  "NL \<equiv> [CHR 0x0A]"

definition CCPANES_DIR_GITIGNORE :: string where
  "CCPANES_DIR_GITIGNORE =
    ''# Written by CC-Panes: machine-local caches never belong in the repository.'' @ NL @ ''.cache/'' @ NL"

definition GUARD_MARKER :: string where
  "GUARD_MARKER = ''Written by CC-Panes''"

definition GUARD_BODY :: string where
  "GUARD_BODY =
    ''# Written by CC-Panes: the injected MCP config may contain tokens.'' @ NL
      @ ''mcp.json'' @ NL @ ''mcp.json.bak'' @ NL"

section \<open>What a launch wants\<close>

text \<open>\<open>BTreeMap\<close>s are lists of entries in order, as the objects of JSON are.\<close>

type_synonym servers = "(string \<times> json) list"

record launch_mcp =
  lm_skip_mcp :: bool
  lm_disable_unlisted :: bool
  lm_allowed_ids :: "string list"
  lm_workspace :: servers
  lm_shared_urls :: "(string \<times> string) list"
  lm_shared_stdio :: servers

record collect_options =
  co_stdio_only :: bool
  co_ccpanes_entry :: "json option"

record collected =
  cm_servers :: servers
  cm_skipped_http :: "string list"
  cm_skipped_shared :: "string list"
  cm_skipped_invalid :: "string list"

definition http_server_entry :: "string \<Rightarrow> string option \<Rightarrow> json" where
  "http_server_entry url authorization =
    (let entry = obj_insert ''type'' (JString ''http'') (obj_insert ''url'' (JString url) []) in
     JObject (case authorization of
       Some token_header \<Rightarrow> obj_insert ''headers'' (JObject [(''Authorization'', JString token_header)]) entry
     | None \<Rightarrow> entry))"

definition ccpanes_http_entry :: "nat \<Rightarrow> string \<Rightarrow> json" where
  "ccpanes_http_entry port token =
    http_server_entry (''http://127.0.0.1:'' @ dec port @ ''/mcp?token='' @ token)
      (Some (''Bearer '' @ token))"

definition stdio_server_entry :: "string \<Rightarrow> string list \<Rightarrow> (string \<times> string) list \<Rightarrow> json" where
  "stdio_server_entry command args env =
    JObject [(''args'', JArray (map JString args)), (''command'', JString command),
      (''env'', JObject (map (\<lambda>(k, v). (k, JString v)) env))]"

definition is_stdio_entry :: "json \<Rightarrow> bool" where
  "is_stdio_entry v \<longleftrightarrow> json_get v ''command'' \<noteq> None"

definition is_valid_server_name :: "string \<Rightarrow> bool" where
  "is_valid_server_name name \<longleftrightarrow>
    name \<noteq> [] \<and> length name \<le> 100
    \<and> list_all (\<lambda>c. is_ascii_alphabetic c \<or> is_digit c \<or> c \<in> set ''_.-'') name"

text \<open>\<open>shared_mcp_urls\<close> is a hash map; the list gives the order of its iteration.\<close>

definition allowed_workspace_mcp_servers :: "launch_mcp \<Rightarrow> servers" where
  "allowed_workspace_mcp_servers ctx =
    filter (\<lambda>(name, _). \<not> lm_disable_unlisted ctx \<or> name \<in> set (lm_allowed_ids ctx)) (lm_workspace ctx)"

definition collect_workspace :: "collect_options \<Rightarrow> string \<times> json \<Rightarrow> collected \<Rightarrow> collected" where
  "collect_workspace options = (\<lambda>(name, v) c.
    if co_stdio_only options \<and> \<not> is_stdio_entry v then c\<lparr>cm_skipped_http := cm_skipped_http c @ [name]\<rparr>
    else if \<not> is_valid_server_name name then c\<lparr>cm_skipped_invalid := cm_skipped_invalid c @ [name]\<rparr>
    else if name = CCPANES_SERVER_NAME then c
    else c\<lparr>cm_servers := obj_insert name v (cm_servers c)\<rparr>)"

definition collect_shared_stdio :: "servers \<Rightarrow> string \<times> string \<Rightarrow> collected \<Rightarrow> collected" where
  "collect_shared_stdio stdio = (\<lambda>(name, url) c.
    case map_of stdio name of
      Some spec \<Rightarrow>
        if is_valid_server_name name
        then if name \<noteq> CCPANES_SERVER_NAME then c\<lparr>cm_servers := obj_insert name spec (cm_servers c)\<rparr> else c
        else c\<lparr>cm_skipped_invalid := cm_skipped_invalid c @ [name]\<rparr>
    | None \<Rightarrow> c\<lparr>cm_skipped_shared := cm_skipped_shared c @ [name]\<rparr>)"

definition collect_shared_http :: "string \<times> string \<Rightarrow> collected \<Rightarrow> collected" where
  "collect_shared_http = (\<lambda>(name, url) c.
    if name = CCPANES_SERVER_NAME then c
    else if \<not> is_valid_server_name name then c\<lparr>cm_skipped_invalid := cm_skipped_invalid c @ [name]\<rparr>
    else c\<lparr>cm_servers := obj_insert name (http_server_entry url None) (cm_servers c)\<rparr>)"

definition collect_mcp_servers :: "launch_mcp \<Rightarrow> collect_options \<Rightarrow> collected" where
  "collect_mcp_servers ctx options =
    (let c = \<lparr>cm_servers = [], cm_skipped_http = [], cm_skipped_shared = [], cm_skipped_invalid = []\<rparr> in
     if lm_skip_mcp ctx then c
     else
       let c = fold (collect_workspace options) (allowed_workspace_mcp_servers ctx) c;
           c = fold (if co_stdio_only options then collect_shared_stdio (lm_shared_stdio ctx) else collect_shared_http)
                 (lm_shared_urls ctx) c
       in case co_ccpanes_entry options of
            Some entry \<Rightarrow> c\<lparr>cm_servers := obj_insert CCPANES_SERVER_NAME entry (cm_servers c)\<rparr>
          | None \<Rightarrow> c)"

section \<open>The merge\<close>

record sync_outcome =
  so_written :: bool
  so_injected :: nat
  so_removed :: nat
  so_foreign_collisions :: "string list"

definition outcome_default :: sync_outcome where
  "outcome_default = \<lparr>so_written = False, so_injected = 0, so_removed = 0, so_foreign_collisions = []\<rparr>"

text \<open>A \<open>BTreeSet\<close> of names is the list of its elements in order.\<close>

definition btree_set :: "string list \<Rightarrow> string list" where
  "btree_set names = sort (remdups names)"

definition owned_names_after_sync :: "string list \<Rightarrow> servers \<Rightarrow> string list \<Rightarrow> string list" where
  "owned_names_after_sync owned desired foreign_collisions =
    btree_set (filter (\<lambda>name. map_of desired name \<noteq> None) owned
      @ filter (\<lambda>name. name \<notin> set foreign_collisions) (map fst desired))"

definition sync_owned :: "servers \<Rightarrow> string \<Rightarrow> servers \<times> sync_outcome \<Rightarrow> servers \<times> sync_outcome" where
  "sync_owned desired name = (\<lambda>(servers, out).
    case map_of desired name of
      Some v \<Rightarrow>
        (obj_insert name v servers,
         if map_of servers name \<noteq> Some v then out\<lparr>so_injected := so_injected out + 1\<rparr> else out)
    | None \<Rightarrow>
        (obj_remove name servers,
         if map_of servers name \<noteq> None then out\<lparr>so_removed := so_removed out + 1\<rparr> else out))"

definition add_desired :: "string list \<Rightarrow> string \<times> json \<Rightarrow> servers \<times> sync_outcome \<Rightarrow> servers \<times> sync_outcome" where
  "add_desired owned = (\<lambda>(name, v) (servers, out).
    if name \<in> set owned then (servers, out)
    else if map_of servers name \<noteq> None then
      (servers, out\<lparr>so_foreign_collisions := so_foreign_collisions out @ [name]\<rparr>)
    else (obj_insert name v servers, out\<lparr>so_injected := so_injected out + 1\<rparr>))"

definition apply_desired ::
    "(string \<times> json) list \<Rightarrow> servers \<Rightarrow> string list \<Rightarrow> ((string \<times> json) list \<times> sync_outcome) option" where
  "apply_desired root desired owned =
    (case or_else (map_of root ''mcpServers'') (JObject []) of
       JObject servers \<Rightarrow>
         (let (servers, out) = fold (sync_owned desired) owned (servers, outcome_default);
              (servers, out) = fold (add_desired owned) desired (servers, out)
          in Some (obj_insert ''mcpServers'' (JObject servers) root, out))
     | _ \<Rightarrow> None)"

section \<open>Receipt and guards\<close>

definition read_receipt :: "(string \<Rightarrow> json option) \<Rightarrow> platform \<Rightarrow> path \<Rightarrow> files \<Rightarrow> string list" where
  "read_receipt parse io p fs =
    (case Option.bind (fs_read_to_string io p fs) parse of
       None \<Rightarrow> []
     | Some v \<Rightarrow>
         (case json_get v ''servers'' of
            Some (JArray names) \<Rightarrow> btree_set (List.map_filter json_as_str names)
          | _ \<Rightarrow> []))"

definition write_receipt ::
    "(json \<Rightarrow> string) \<Rightarrow> platform \<Rightarrow> path \<Rightarrow> string list \<Rightarrow> string \<Rightarrow> files \<Rightarrow> files \<times> bool" where
  "write_receipt pretty io p names project fs =
    (if \<not> may_create_dir io (butlast p) then (fs, False)
     else
       let ccpanes_gitignore = [project, ''.ccpanes'', ''.gitignore''];
           fs = (if fs ccpanes_gitignore = None then fst (fs_write io ccpanes_gitignore CCPANES_DIR_GITIGNORE fs) else fs)
       in write_atomic io p (pretty (JObject [(''servers'', JArray (map JString names))])) fs)"

definition ignores_mcp_json :: "string \<Rightarrow> bool" where
  "ignores_mcp_json line \<longleftrightarrow>
    (let trimmed = dropWhile (\<lambda>c. c = CHR ''/'') (dropWhile (\<lambda>c. c = CHR ''!'') (trim line)) in
     trimmed = ''mcp.json'' \<or> trimmed = ''mcp.json.bak'' \<or> strip_prefix ''mcp.json*'' trimmed \<noteq> None
     \<or> trimmed = ''.omp/'' \<or> trimmed = ''.jcode/''
     \<or> strip_suffix ''/.omp/'' trimmed \<noteq> None \<or> strip_suffix ''/.jcode/'' trimmed \<noteq> None
     \<or> trimmed = ''*'' \<or> trimmed = ''.*'')"

definition guarded_text :: "string \<Rightarrow> bool" where
  "guarded_text existing \<longleftrightarrow>
    str_contains existing GUARD_MARKER \<or> list_ex ignores_mcp_json (str_lines existing)"

definition ensure_tool_dir_guard :: "platform \<Rightarrow> path \<Rightarrow> files \<Rightarrow> files" where
  "ensure_tool_dir_guard io tool_dir fs =
    (let guard = tool_dir @ [''.gitignore''] in
     case fs_read_to_string io guard fs of
       Some existing \<Rightarrow>
         if guarded_text existing then fs
         else
           let merged = existing @ (if existing \<noteq> [] \<and> last existing = CHR 0x0A then [] else NL) @ NL @ GUARD_BODY
           in fst (fs_write io guard merged fs)
     | None \<Rightarrow>
         if fs guard \<noteq> None then fs
         else if \<not> may_create_dir io tool_dir then fs
         else fst (fs_write io guard GUARD_BODY fs))"

section \<open>The synchronisation\<close>

datatype sync_error = NoTarget | ReadFailed | TargetNotWritten | ReceiptNotWritten

text \<open>What is done once the merge differs from the file.\<close>

definition publish_sync ::
    "(json \<Rightarrow> string) \<Rightarrow> platform \<Rightarrow> string \<Rightarrow> path \<Rightarrow> path \<Rightarrow> (string \<times> json) list \<Rightarrow> string list
      \<Rightarrow> sync_outcome \<Rightarrow> files \<Rightarrow> files \<times> (sync_error + sync_outcome)" where
  "publish_sync pretty io project target receipt doc next_owned out fs =
    (let fs = (if fs target \<noteq> None then fst (fs_copy io target (with_extension ''json.bak'' target) fs) else fs);
         fs = ensure_tool_dir_guard io (butlast target) fs;
         (fs, ok) = write_atomic io target (pretty (JObject doc) @ NL) fs
     in if \<not> ok then (fs, Inl TargetNotWritten)
        else
          let (fs, ok) = write_receipt pretty io receipt next_owned project fs
          in (fs, if ok then Inr (out\<lparr>so_written := True\<rparr>) else Inl ReceiptNotWritten))"

definition sync_doc ::
    "(json \<Rightarrow> string) \<Rightarrow> platform \<Rightarrow> string \<Rightarrow> path \<Rightarrow> path \<Rightarrow> string list \<Rightarrow> servers
      \<Rightarrow> (string \<times> json) list option \<Rightarrow> files \<Rightarrow> (files \<times> (sync_error + sync_outcome)) option" where
  "sync_doc pretty io project target receipt owned desired original fs =
    (if original = None \<and> desired = [] \<and> owned = [] then Some (fs, Inr outcome_default)
     else
       Option.bind (apply_desired (or_else original []) desired owned) (\<lambda>(doc, out).
         if original = None \<and> map_of doc ''mcpServers'' = Some (JObject []) then
           if owned \<noteq> [] then
             let (fs, ok) = write_receipt pretty io receipt [] project fs
             in Some (fs, if ok then Inr out else Inl ReceiptNotWritten)
           else Some (fs, Inr out)
         else
           let next_owned = owned_names_after_sync owned desired (so_foreign_collisions out) in
           if original = Some doc \<and> next_owned = owned then Some (fs, Inr out)
           else Some (publish_sync pretty io project target receipt doc next_owned out fs)))"

definition sync_project_mcp_file ::
    "(string \<Rightarrow> json option) \<Rightarrow> (json \<Rightarrow> string) \<Rightarrow> platform \<Rightarrow> string \<Rightarrow> string \<Rightarrow> path \<Rightarrow> servers
      \<Rightarrow> files \<Rightarrow> (files \<times> (sync_error + sync_outcome)) option" where
  "sync_project_mcp_file parse pretty io cli_id project target_rel desired fs =
    (if project = [] \<or> target_rel = [] then Some (fs, Inl NoTarget)
     else
       let target = project # target_rel;
           receipt = receipt_path project cli_id;
           owned = read_receipt parse io receipt fs
       in if fs target \<noteq> None \<and> fs_read_to_string io target fs = None then Some (fs, Inl ReadFailed)
          else
            case fs_read_to_string io target fs of
              None \<Rightarrow> sync_doc pretty io project target receipt owned desired None fs
            | Some text \<Rightarrow>
                (case parse text of
                   Some (JObject kvs) \<Rightarrow> sync_doc pretty io project target receipt owned desired (Some kvs) fs
                 | _ \<Rightarrow> Some (fs, Inr outcome_default)))"

text \<open>The adapters' entry: an error does not stop the launch.\<close>

definition sync_adapter_project_mcp ::
    "(string \<Rightarrow> json option) \<Rightarrow> (json \<Rightarrow> string) \<Rightarrow> platform \<Rightarrow> string \<Rightarrow> path \<Rightarrow> string \<Rightarrow> launch_mcp
      \<Rightarrow> collect_options \<Rightarrow> files \<Rightarrow> files option" where
  "sync_adapter_project_mcp parse pretty io cli_id target_rel project_path ctx options fs =
    (let project = trim project_path in
     if project = [] then Some fs
     else
       map_option fst (sync_project_mcp_file parse pretty io cli_id project target_rel
         (cm_servers (collect_mcp_servers ctx options)) fs))"

end
