(* ===== verification/Mcp_Overlay.thy ===== *)
theory Mcp_Overlay
  imports Mcp_File Utf8_Stream Machines
begin

text \<open>
  What launches and the user make of the project's MCP file together, when the platform lets
  every write through: the merge as a function on maps, one launch, the same launch again, and
  any history of launches and of writes by the user.
\<close>

section \<open>The merge as a function on maps\<close>

lemma sync_owned_fold:
  assumes "keys_sorted servers"
  shows "map_of (fst (fold (sync_owned desired) owned (servers, out)))
      = (\<lambda>n. if n \<in> set owned then map_of desired n else map_of servers n)
    \<and> keys_sorted (fst (fold (sync_owned desired) owned (servers, out)))
    \<and> so_foreign_collisions (snd (fold (sync_owned desired) owned (servers, out))) = so_foreign_collisions out"
  using assms
proof (induction owned arbitrary: servers out)
  case (Cons name owned)
  obtain servers' out' where s: "sync_owned desired name (servers, out) = (servers', out')" by fastforce
  have "map_of servers' = (map_of servers)(name := map_of desired name)" and "keys_sorted servers'"
    and "so_foreign_collisions out' = so_foreign_collisions out"
    using s Cons.prems map_of_insert insert_sorted remove_sorted
    by (auto simp: sync_owned_def map_of_remove split: option.splits if_splits)
  with Cons.IH [of servers' out'] s show ?case by (auto simp: fun_eq_iff)
qed simp

lemma add_desired_fold:
  assumes "keys_sorted servers" and "distinct (map fst desired)"
  shows "map_of (fst (fold (add_desired owned) desired (servers, out)))
      = (\<lambda>n. case map_of servers n of Some v \<Rightarrow> Some v | None \<Rightarrow> if n \<in> set owned then None else map_of desired n)
    \<and> keys_sorted (fst (fold (add_desired owned) desired (servers, out)))
    \<and> so_foreign_collisions (snd (fold (add_desired owned) desired (servers, out)))
      = so_foreign_collisions out @ filter (\<lambda>n. n \<notin> set owned \<and> map_of servers n \<noteq> None) (map fst desired)"
  using assms
proof (induction desired arbitrary: servers out)
  case Nil
  then show ?case by (auto simp: fun_eq_iff split: option.split)
next
  case (Cons e desired)
  obtain name v where e: "e = (name, v)" by fastforce
  obtain servers' out' where s: "add_desired owned e (servers, out) = (servers', out')" by fastforce
  have m: "map_of servers' = (if name \<in> set owned \<or> map_of servers name \<noteq> None then map_of servers
        else (map_of servers)(name \<mapsto> v))" and k: "keys_sorted servers'"
    and c: "so_foreign_collisions out' = so_foreign_collisions out @
        (if name \<notin> set owned \<and> map_of servers name \<noteq> None then [name] else [])"
    using s e Cons.prems(1) map_of_insert insert_sorted by (auto simp: add_desired_def split: if_splits)
  have "filter (\<lambda>n. n \<notin> set owned \<and> map_of servers' n \<noteq> None) (map fst desired)
      = filter (\<lambda>n. n \<notin> set owned \<and> map_of servers n \<noteq> None) (map fst desired)"
    using Cons.prems(2) e by (intro filter_cong) (auto simp: m)
  moreover have "map_of desired name = None"
    using Cons.prems(2) e by (simp add: map_of_eq_None_iff)
  ultimately show ?case
    using Cons.IH [of servers' out'] k c m s e Cons.prems(2)
    by (auto simp: fun_eq_iff split: option.split)
qed

lemma map_of_keys_sorted: "keys_sorted a \<Longrightarrow> keys_sorted b \<Longrightarrow> map_of a = map_of b \<Longrightarrow> a = b"
proof -
  assume a: "keys_sorted a" and b: "keys_sorted b" and m: "map_of a = map_of b"
  have d: "distinct (map fst a)" "distinct (map fst b)"
    using a b by (auto simp: strict_sorted_iff)
  then have "set a = set b" using m map_of_inject_set by blast
  then show "a = b"
    using map_sorted_distinct_set_unique [of fst a b] a b d
    by (metis (no_types, lifting) eq_key_imp_eq_value inj_onI prod.collapse strict_sorted_iff Un_absorb)
qed

text \<open>
  Entries the receipt names are the launch's, the others the user's; a launch adds what it wants
  where nothing is.
\<close>

definition overlay :: "(string \<Rightarrow> json option) \<Rightarrow> (string \<Rightarrow> json option) \<Rightarrow> string set \<Rightarrow> string \<Rightarrow> json option" where
  "overlay servers desired owned n =
    (if n \<in> owned then desired n else case servers n of Some v \<Rightarrow> Some v | None \<Rightarrow> desired n)"

lemma wf_value: "list_all (\<lambda>(k, v). wf_json v) kvs \<Longrightarrow> map_of kvs k = Some v \<Longrightarrow> wf_json v"
  by (auto simp: list_all_iff dest!: map_of_SomeD)

lemma sync_values:
  assumes "list_all (\<lambda>(k, v). wf_json v) servers" and "list_all (\<lambda>(k, v). wf_json v) desired"
  shows "list_all (\<lambda>(k, v). wf_json v) (fst (fold (sync_owned desired) owned (servers, out)))"
  using assms
proof (induction owned arbitrary: servers out)
  case (Cons name owned)
  have "list_all (\<lambda>(k, v). wf_json v) (fst (sync_owned desired name (servers, out)))"
    using Cons.prems
    by (cases "map_of desired name") (auto simp: sync_owned_def insert_values remove_values wf_value)
  then show ?case using Cons.IH Cons.prems(2) by (cases "sync_owned desired name (servers, out)") simp
qed simp

lemma add_values:
  assumes "list_all (\<lambda>(k, v). wf_json v) servers" and "list_all (\<lambda>(k, v). wf_json v) desired"
  shows "list_all (\<lambda>(k, v). wf_json v) (fst (fold (add_desired owned) desired (servers, out)))"
  using assms
proof (induction desired arbitrary: servers out)
  case (Cons e desired)
  have "list_all (\<lambda>(k, v). wf_json v) (fst (add_desired owned e (servers, out)))"
    using Cons.prems by (auto simp: add_desired_def insert_values split: prod.split)
  then show ?case using Cons.IH Cons.prems(2) by (cases "add_desired owned e (servers, out)") simp
qed simp

text \<open>The entry for the servers of a document, an empty object if it has none.\<close>

definition servers_of :: "(string \<times> json) list \<Rightarrow> json" where
  "servers_of root = or_else (map_of root ''mcpServers'') (JObject [])"

lemma apply_desired_panics_iff:
  "apply_desired root desired owned = None \<longleftrightarrow> (\<forall>servers. servers_of root \<noteq> JObject servers)"
  by (simp add: apply_desired_def servers_of_def case_prod_unfold Let_def split: json.split)

lemma apply_desired_overlay:
  assumes "wf_json (JObject root)" and "servers_of root = JObject servers" and "wf_json (JObject desired)"
  obtains servers' out where
    "apply_desired root desired owned = Some (obj_insert ''mcpServers'' (JObject servers') root, out)"
    "wf_json (JObject servers')" "map_of servers' = overlay (map_of servers) (map_of desired) (set owned)"
    "set (so_foreign_collisions out)
      = {n \<in> fst ` set desired. n \<notin> set owned \<and> map_of servers n \<noteq> None}"
proof -
  have wf: "wf_json (JObject servers)"
  proof (cases "map_of root ''mcpServers''")
    case (Some v)
    then have "v = JObject servers" using assms(2) by (simp add: servers_of_def or_else_def)
    then show ?thesis using wf_value [OF _ Some] assms(1) by simp
  qed (use assms(2) in \<open>simp add: servers_of_def or_else_def\<close>)
  obtain s1 o1 where f: "fold (sync_owned desired) owned (servers, outcome_default) = (s1, o1)" by fastforce
  obtain s2 o2 where g: "fold (add_desired owned) desired (s1, o1) = (s2, o2)" by fastforce
  have d: "distinct (map fst desired)" using assms(3) by (simp add: strict_sorted_iff)
  note F = sync_owned_fold [of servers desired owned outcome_default]
  note G = add_desired_fold [of s1 desired owned o1]
  have s1: "map_of s1 = (\<lambda>n. if n \<in> set owned then map_of desired n else map_of servers n)"
    "keys_sorted s1" "so_foreign_collisions o1 = []"
    using F f wf by (simp_all add: outcome_default_def)
  have s2: "keys_sorted s2" "map_of s2 = overlay (map_of servers) (map_of desired) (set owned)"
    "set (so_foreign_collisions o2)
      = {n \<in> fst ` set desired. n \<notin> set owned \<and> map_of servers n \<noteq> None}"
    using G g s1 d by (auto simp: overlay_def fun_eq_iff split: option.split)
  have "wf_json (JObject s2)"
    using s2(1) sync_values [of servers desired owned outcome_default] add_values [of s1 desired owned o1]
      f g wf assms(3) by simp
  moreover have "apply_desired root desired owned = Some (obj_insert ''mcpServers'' (JObject s2) root, o2)"
    using assms(2) f g by (simp add: apply_desired_def servers_of_def)
  ultimately show ?thesis using that s2 by blast
qed

lemma wf_with_servers:
  assumes "wf_json (JObject root)" and "wf_json (JObject servers)"
  shows "wf_json (JObject (obj_insert ''mcpServers'' (JObject servers) root))"
    and "map_of (obj_insert ''mcpServers'' (JObject servers) root)
      = (map_of root)(''mcpServers'' \<mapsto> JObject servers)"
    and "servers_of (obj_insert ''mcpServers'' (JObject servers) root) = JObject servers"
  using assms map_of_insert insert_sorted insert_values
  by (auto simp: servers_of_def or_else_def)

lemma btree_set [simp]: "set (btree_set names) = set names" "sorted (btree_set names)" "distinct (btree_set names)"
  by (simp_all add: btree_set_def)

lemma read_receipt_btree: "sorted (read_receipt parse io p fs) \<and> distinct (read_receipt parse io p fs)"
  by (simp add: read_receipt_def split: option.split json.split)

lemma owned_names_after:
  "set (owned_names_after_sync owned desired c)
    = (set owned \<inter> fst ` set desired) \<union> (fst ` set desired - set c)"
  by (auto simp: owned_names_after_sync_def map_of_eq_None_iff)

section \<open>What the files show\<close>

text \<open>The parser reads what the printer wrote, also with a line end, and the text is UTF-8.\<close>

definition reads_back :: "(string \<Rightarrow> json option) \<Rightarrow> (json \<Rightarrow> string) \<Rightarrow> bool" where
  "reads_back parse pretty \<longleftrightarrow>
    (\<forall>v. wf_json v \<longrightarrow>
      parse (pretty v) = Some v \<and> parse (pretty v @ NL) = Some v \<and> valid_utf8 (pretty v))"

lemma valid_utf8_append: "valid_utf8 s \<Longrightarrow> valid_utf8 t \<Longrightarrow> valid_utf8 (s @ t)"
proof (induction s rule: valid_utf8.induct)
  case (1 s)
  show ?case
  proof (cases "utf8_step s")
    case None
    then show ?thesis using 1 by (simp add: valid_utf8.simps [of s])
  next
    case (Some r)
    then have "valid_utf8 (r @ t)"
      using 1 by (cases "s = []") (simp_all add: valid_utf8.simps [of s] utf8_step.simps)
    then show ?thesis
      using utf8_step_append [OF Some, of t] by (simp add: valid_utf8.simps [of "s @ t"])
  qed
qed

lemma valid_utf8_NL: "valid_utf8 s \<Longrightarrow> valid_utf8 (s @ NL)"
  by (rule valid_utf8_append) (simp_all add: valid_utf8_ascii is_ascii_def)

definition mcp_target :: "string \<Rightarrow> string \<Rightarrow> path" where
  "mcp_target project tool = [project, tool, ''mcp.json'']"

lemma mcp_bak: "with_extension ''json.bak'' (mcp_target project tool) = [project, tool, ''mcp.json.bak'']"
  by (simp add: with_extension_def mcp_target_def file_stem_def)

lemma guard_elsewhere: "p \<noteq> tool_dir @ [''.gitignore''] \<Longrightarrow> ensure_tool_dir_guard io tool_dir fs p = fs p"
  by (simp add: ensure_tool_dir_guard_def Let_def fs_write_elsewhere split: option.split)

text \<open>The document, empty if there is no file, and the names of the receipt.\<close>

definition mcp_doc :: "(string \<Rightarrow> json option) \<Rightarrow> path \<Rightarrow> files \<Rightarrow> (string \<times> json) list option" where
  "mcp_doc parse target fs =
    (case fs target of
       None \<Rightarrow> Some []
     | Some text \<Rightarrow>
         (case parse text of
            Some (JObject root) \<Rightarrow>
              if valid_utf8 text \<and> wf_json (JObject root) \<and> (\<exists>s. servers_of root = JObject s) then Some root else None
          | _ \<Rightarrow> None))"

abbreviation mcp_owned :: "(string \<Rightarrow> json option) \<Rightarrow> string \<Rightarrow> string \<Rightarrow> files \<Rightarrow> string list" where
  "mcp_owned parse project cli_id fs \<equiv> read_receipt parse willing (receipt_path project cli_id) fs"

lemma receipt_reads_back:
  assumes "reads_back parse pretty" and "sorted names" and "distinct names"
    and "fs (receipt_path project cli_id) = Some (pretty (JObject [(''servers'', JArray (map JString names))]))"
  shows "mcp_owned parse project cli_id fs = names"
proof -
  let ?v = "JObject [(''servers'', JArray (map JString names))]"
  have "wf_json ?v" by (simp add: list_all_iff)
  then have "parse (pretty ?v) = Some ?v" "valid_utf8 (pretty ?v)"
    using assms(1) by (auto simp: reads_back_def)
  moreover have "List.map_filter json_as_str (map JString names) = names"
    by (induction names) (simp_all add: List.map_filter_simps)
  moreover have "btree_set names = names"
    using assms(2,3) by (simp add: btree_set_def distinct_remdups_id sorted_sort_id)
  ultimately show ?thesis
    using assms(4) by (simp add: read_receipt_def fs_read_to_string_def from_utf8_def)
qed

lemma write_receipt_willing:
  "\<exists>fs'. write_receipt pretty willing p names project fs = (fs', True)
    \<and> fs' p = Some (pretty (JObject [(''servers'', JArray (map JString names))]))
    \<and> (\<forall>q. q \<noteq> p \<longrightarrow> q \<noteq> [project, ''.ccpanes'', ''.gitignore''] \<longrightarrow> fs' q = fs q)"
  by (simp add: write_receipt_def Let_def)

lemma publish_willing:
  fixes project tool cli_id
  defines "target \<equiv> mcp_target project tool" and "receipt \<equiv> receipt_path project cli_id"
  shows "\<exists>fs'. publish_sync pretty willing project target receipt doc names out fs
      = (fs', Inr (out\<lparr>so_written := True\<rparr>))
    \<and> fs' target = Some (pretty (JObject doc) @ NL)
    \<and> fs' receipt = Some (pretty (JObject [(''servers'', JArray (map JString names))]))"
proof -
  obtain fs1 where fs1: "write_receipt pretty willing receipt names project
      ((ensure_tool_dir_guard willing (butlast target)
        (if fs target \<noteq> None then fst (fs_copy willing target (with_extension ''json.bak'' target) fs) else fs))
       (target \<mapsto> pretty (JObject doc) @ NL)) = (fs1, True)"
    "fs1 receipt = Some (pretty (JObject [(''servers'', JArray (map JString names))]))"
    "\<forall>q. q \<noteq> receipt \<longrightarrow> q \<noteq> [project, ''.ccpanes'', ''.gitignore''] \<longrightarrow> fs1 q =
      ((ensure_tool_dir_guard willing (butlast target)
        (if fs target \<noteq> None then fst (fs_copy willing target (with_extension ''json.bak'' target) fs) else fs))
       (target \<mapsto> pretty (JObject doc) @ NL)) q"
    using write_receipt_willing by blast
  have "target \<noteq> receipt" "target \<noteq> [project, ''.ccpanes'', ''.gitignore'']"
    by (simp_all add: target_def receipt_def mcp_target_def receipt_path_def)
  then have "fs1 target = Some (pretty (JObject doc) @ NL)" using fs1(3) by simp
  then show ?thesis using fs1(1,2) by (simp add: publish_sync_def Let_def)
qed

section \<open>A launch\<close>

text \<open>The call comes down to the merge of the document with what the receipt names.\<close>

lemma sync_willing:
  assumes "project \<noteq> []" and "mcp_doc parse (mcp_target project tool) fs = Some root"
  shows "sync_project_mcp_file parse pretty willing cli_id project [tool, ''mcp.json''] desired fs =
    sync_doc pretty willing project (mcp_target project tool) (receipt_path project cli_id)
      (mcp_owned parse project cli_id fs) desired
      (if fs (mcp_target project tool) = None then None else Some root) fs"
proof (cases "fs (mcp_target project tool)")
  case None
  then show ?thesis
    using assms(1) by (simp add: sync_project_mcp_file_def Let_def mcp_target_def fs_read_to_string_def)
next
  case (Some t)
  then have "parse t = Some (JObject root)" and "valid_utf8 t"
    using assms(2) by (auto simp: mcp_doc_def split: option.splits json.splits if_splits)
  with Some show ?thesis
    using assms(1)
    by (simp add: sync_project_mcp_file_def Let_def mcp_target_def fs_read_to_string_def from_utf8_def)
qed

lemma mcp_doc_wf: "mcp_doc parse target fs = Some root \<Longrightarrow> wf_json (JObject root) \<and> (\<exists>s. servers_of root = JObject s)"
  by (auto simp: mcp_doc_def servers_of_def or_else_def split: option.splits json.splits if_splits)

lemma mcp_doc_absent: "mcp_doc parse target fs = Some root \<Longrightarrow> fs target = None \<Longrightarrow> root = []"
  by (simp add: mcp_doc_def)

text \<open>What holds after a launch that found the servers \<open>S\<close> and the receipt \<open>owned\<close>.\<close>

definition launched ::
    "(string \<Rightarrow> json option) \<Rightarrow> string \<Rightarrow> string \<Rightarrow> string \<Rightarrow> servers \<Rightarrow> (string \<times> json) list \<Rightarrow> servers
      \<Rightarrow> string set \<Rightarrow> files \<Rightarrow> bool" where
  "launched parse project tool cli_id desired root S owned fs' \<longleftrightarrow>
    (\<exists>root' S'. mcp_doc parse (mcp_target project tool) fs' = Some root' \<and> servers_of root' = JObject S'
      \<and> map_of S' = overlay (map_of S) (map_of desired) owned
      \<and> (map_of root')(''mcpServers'' := None) = (map_of root)(''mcpServers'' := None)
      \<and> (fs' (mcp_target project tool) = None \<or> map_of root' ''mcpServers'' \<noteq> None))
    \<and> set (mcp_owned parse project cli_id fs')
        = {n \<in> fst ` set desired. n \<in> owned \<or> map_of S n = None}"

lemma launchedI:
  assumes "mcp_doc parse (mcp_target project tool) fs' = Some root'" and "servers_of root' = JObject S'"
    and "map_of S' = overlay (map_of S) (map_of desired) owned"
    and "(map_of root')(''mcpServers'' := None) = (map_of root)(''mcpServers'' := None)"
    and "fs' (mcp_target project tool) = None \<or> map_of root' ''mcpServers'' \<noteq> None"
    and "set (mcp_owned parse project cli_id fs') = {n \<in> fst ` set desired. n \<in> owned \<or> map_of S n = None}"
  shows "launched parse project tool cli_id desired root S owned fs'"
  using assms unfolding launched_def by blast

lemma launched_published:
  assumes "reads_back parse pretty" and "wf_json (JObject root)" and "wf_json (JObject S')"
    and "map_of S' = overlay (map_of S) (map_of desired) owned"
    and "fs' (mcp_target project tool) =
      Some (pretty (JObject (obj_insert ''mcpServers'' (JObject S') root)) @ NL)"
    and "fs' (receipt_path project cli_id) = Some (pretty (JObject [(''servers'', JArray (map JString names))]))"
    and "sorted names" and "distinct names"
    and "set names = {n \<in> fst ` set desired. n \<in> owned \<or> map_of S n = None}"
  shows "launched parse project tool cli_id desired root S owned fs'"
proof (rule launchedI)
  let ?doc = "obj_insert ''mcpServers'' (JObject S') root"
  note w = wf_with_servers [OF assms(2,3)]
  have "parse (pretty (JObject ?doc) @ NL) = Some (JObject ?doc)" "valid_utf8 (pretty (JObject ?doc) @ NL)"
    using assms(1) w(1) valid_utf8_NL by (auto simp: reads_back_def)
  then show "mcp_doc parse (mcp_target project tool) fs' = Some ?doc"
    using assms(5) w by (simp add: mcp_doc_def)
  show "servers_of ?doc = JObject S'" by (rule w(3))
  show "(map_of ?doc)(''mcpServers'' := None) = (map_of root)(''mcpServers'' := None)"
    and "fs' (mcp_target project tool) = None \<or> map_of ?doc ''mcpServers'' \<noteq> None"
    using w(2) by simp_all
  show "set (mcp_owned parse project cli_id fs') = {n \<in> fst ` set desired. n \<in> owned \<or> map_of S n = None}"
    by (simp only: receipt_reads_back [where fs = fs' and names = names, OF assms(1,7,8,6)] assms(9))
qed (rule assms(4))

lemma next_owned:
  assumes "set c = {n \<in> fst ` set desired. n \<notin> set owned \<and> map_of S n \<noteq> None}"
  shows "set (owned_names_after_sync owned desired c) = {n \<in> fst ` set desired. n \<in> set owned \<or> map_of S n = None}"
  using assms by (auto simp: owned_names_after)

lemma owned_names_sorted:
  "sorted (owned_names_after_sync owned desired c)" "distinct (owned_names_after_sync owned desired c)"
  by (simp_all add: owned_names_after_sync_def)

lemma sync_doc_merged:
  assumes "apply_desired (or_else orig []) desired owned = Some (doc, out)"
    and "map_of doc ''mcpServers'' = Some (JObject S')"
  shows "sync_doc pretty io project target receipt owned desired orig fs =
    (if orig = None \<and> desired = [] \<and> owned = [] then Some (fs, Inr outcome_default)
     else if orig = None \<and> S' = [] then
       if owned \<noteq> [] then
         let (fs, ok) = write_receipt pretty io receipt [] project fs in Some (fs, if ok then Inr out else Inl ReceiptNotWritten)
       else Some (fs, Inr out)
     else if orig = Some doc \<and> owned_names_after_sync owned desired (so_foreign_collisions out) = owned
     then Some (fs, Inr out)
     else Some (publish_sync pretty io project target receipt doc
       (owned_names_after_sync owned desired (so_foreign_collisions out)) out fs))"
  by (simp only: sync_doc_def Let_def assms Option.bind.simps bind.bind_lunit prod.case option.inject json.inject)

lemma launch_willing:
  fixes fs :: files
  assumes "reads_back parse pretty" and "project \<noteq> []" and "wf_json (JObject desired)"
    and "mcp_doc parse (mcp_target project tool) fs = Some root" and "servers_of root = JObject S"
  shows "\<exists>fs' out. sync_project_mcp_file parse pretty willing cli_id project [tool, ''mcp.json''] desired fs
      = Some (fs', Inr out)
    \<and> launched parse project tool cli_id desired root S (set (mcp_owned parse project cli_id fs)) fs'"
proof -
  define owned where "owned = mcp_owned parse project cli_id fs"
  define target where "target = mcp_target project tool"
  define receipt where "receipt = receipt_path project cli_id"
  have wf: "wf_json (JObject root)" using mcp_doc_wf assms(4) by blast
  obtain S' out where a: "apply_desired root desired owned = Some (obj_insert ''mcpServers'' (JObject S') root, out)"
      "wf_json (JObject S')" "map_of S' = overlay (map_of S) (map_of desired) (set owned)"
      "set (so_foreign_collisions out) = {n \<in> fst ` set desired. n \<notin> set owned \<and> map_of S n \<noteq> None}"
    by (rule apply_desired_overlay [OF wf assms(5,3), of owned])
  let ?doc = "obj_insert ''mcpServers'' (JObject S') root"
  let ?names = "owned_names_after_sync owned desired (so_foreign_collisions out)"
  define orig where "orig = (if fs target = None then None else Some root)"
  have orig: "orig = None \<longleftrightarrow> fs target = None" "orig = Some r \<longleftrightarrow> fs target \<noteq> None \<and> r = root" for r
    by (auto simp: orig_def)
  have doc: "or_else orig [] = root" using mcp_doc_absent assms(4) by (auto simp: target_def orig_def)
  note w = wf_with_servers [OF wf a(2)]
  have names: "set ?names = {n \<in> fst ` set desired. n \<in> set owned \<or> map_of S n = None}"
    using next_owned [OF a(4)] .
  note sync = sync_willing [OF assms(2,4), of pretty cli_id desired, folded owned_def target_def receipt_def, folded orig_def]
  have "apply_desired (or_else orig []) desired owned = Some (?doc, out)" using a(1) doc by simp
  note eq = sync_doc_merged [OF this, unfolded w(2), OF fun_upd_same, of pretty willing project target receipt fs]
  show ?thesis
  proof (cases "fs target = None \<and> S' = []")
    case True
    then have r: "root = []" using mcp_doc_absent assms(4) by (simp add: target_def)
    then have s: "S = []" using assms(5) by (simp add: servers_of_def or_else_def)
    have d: "desired = []"
    proof (rule ccontr)
      assume "desired \<noteq> []"
      then obtain n v l where "desired = (n, v) # l" by (cases desired) auto
      then have "map_of desired n = Some v" by simp
      moreover have "overlay (map_of S) (map_of desired) (set owned) n = None"
        using True a(3) by (metis map_of.simps(1))
      ultimately show False using s by (simp add: overlay_def split: if_splits)
    qed
    have l: "launched parse project tool cli_id desired root S (set owned) fs'"
      if "fs' target = None" "mcp_owned parse project cli_id fs' = []" for fs' :: files
      by (rule launchedI [of _ _ _ _ "[]" "[]"])
        (use that d r s in \<open>auto simp: mcp_doc_def target_def servers_of_def or_else_def overlay_def fun_eq_iff\<close>)
    show ?thesis
    proof (cases "owned = []")
      case True
      then show ?thesis
        using sync eq d \<open>fs target = None \<and> S' = []\<close> l [of fs] orig(1) by (simp add: owned_def)
    next
      case False
      obtain fs' where f: "write_receipt pretty willing receipt [] project fs = (fs', True)"
          "fs' receipt = Some (pretty (JObject [(''servers'', JArray (map JString []))]))"
          "\<forall>q. q \<noteq> receipt \<longrightarrow> q \<noteq> [project, ''.ccpanes'', ''.gitignore''] \<longrightarrow> fs' q = fs q"
        using write_receipt_willing by blast
      have "fs' target = None"
        using f(3) True by (simp add: target_def receipt_def mcp_target_def receipt_path_def)
      moreover have "mcp_owned parse project cli_id fs' = []"
        using receipt_reads_back [OF assms(1), of "[]" fs'] f(2) by (simp add: receipt_def)
      ultimately show ?thesis
        using l [of fs'] sync eq d False True f(1) orig(1) by (simp add: owned_def)
    qed
  next
    case ne: False
    show ?thesis
    proof (cases "orig = Some ?doc \<and> ?names = owned")
      case True
      then have r: "root = ?doc" "fs target \<noteq> None" using orig(2) [of ?doc] by simp_all
      have "map_of root ''mcpServers'' \<noteq> None"
        using r(1) w(2) by (metis fun_upd_same option.distinct(1))
      note present = this
      have "launched parse project tool cli_id desired root S (set owned) fs"
        by (rule launchedI [OF assms(4) _ a(3)])
          (use r w names True present in \<open>auto simp: owned_def target_def\<close>)
      then show ?thesis using sync eq ne True orig(1) by (simp add: owned_def)
    next
      case False
      obtain fs' where p: "publish_sync pretty willing project target receipt ?doc ?names out fs
            = (fs', Inr (out\<lparr>so_written := True\<rparr>))"
          "fs' target = Some (pretty (JObject ?doc) @ NL)"
          "fs' receipt = Some (pretty (JObject [(''servers'', JArray (map JString ?names))]))"
        using publish_willing unfolding target_def receipt_def by blast
      have "launched parse project tool cli_id desired root S (set owned) fs'"
        using launched_published [OF assms(1) wf a(2,3)] p(2,3) owned_names_sorted names
        by (simp add: target_def receipt_def)
      moreover have c: "\<not> (orig = None \<and> desired = [] \<and> owned = [])"
      proof
        assume "orig = None \<and> desired = [] \<and> owned = []"
        then have z: "fs target = None" "desired = []" "owned = []" using orig(1) by simp_all
        then have "root = []" using mcp_doc_absent assms(4) by (simp add: target_def)
        then have "S = []" using assms(5) by (simp add: servers_of_def)
        with z a(3) have "map_of S' = Map.empty" by (simp add: overlay_def fun_eq_iff)
        then show False using ne z by simp
      qed
      moreover have "\<not> (orig = None \<and> S' = [])" using ne orig(1) by simp
      ultimately have "sync_project_mcp_file parse pretty willing cli_id project [tool, ''mcp.json''] desired fs
          = Some (fs', Inr (out\<lparr>so_written := True\<rparr>))"
        using False by (simp only: sync eq if_False p(1))
      with \<open>launched _ _ _ _ _ _ _ _ fs'\<close> show ?thesis unfolding owned_def by blast
    qed
  qed
qed

text \<open>The same launch again finds everything as it should be and writes nothing.\<close>

lemma launch_again:
  assumes "project \<noteq> []" and "wf_json (JObject desired)"
    and "launched parse project tool cli_id desired root S owned0 fs"
  shows "\<exists>out. sync_project_mcp_file parse pretty willing cli_id project [tool, ''mcp.json''] desired fs
    = Some (fs, Inr out)"
proof -
  define owned where "owned = mcp_owned parse project cli_id fs"
  define target where "target = mcp_target project tool"
  obtain root' T where d: "mcp_doc parse target fs = Some root'" "servers_of root' = JObject T"
      "map_of T = overlay (map_of S) (map_of desired) owned0"
      "fs target = None \<or> map_of root' ''mcpServers'' \<noteq> None"
    and o: "set owned = {n \<in> fst ` set desired. n \<in> owned0 \<or> map_of S n = None}"
    using assms(3) unfolding launched_def owned_def target_def by blast
  have dm: "n \<in> fst ` set desired \<longleftrightarrow> map_of desired n \<noteq> None" for n
    by (simp add: map_of_eq_None_iff)
  have o': "n \<in> set owned \<longleftrightarrow> map_of desired n \<noteq> None \<and> (n \<in> owned0 \<or> map_of S n = None)" for n
    unfolding o by (simp add: map_of_eq_None_iff)
  have wf: "wf_json (JObject root')" using mcp_doc_wf d(1) by blast
  obtain S' out where a: "apply_desired root' desired owned = Some (obj_insert ''mcpServers'' (JObject S') root', out)"
      "wf_json (JObject S')" "map_of S' = overlay (map_of T) (map_of desired) (set owned)"
      "set (so_foreign_collisions out) = {n \<in> fst ` set desired. n \<notin> set owned \<and> map_of T n \<noteq> None}"
    by (rule apply_desired_overlay [OF wf d(2) assms(2), of owned])
  have "map_of S' = map_of T"
    by (auto simp: a(3) d(3) o' overlay_def fun_eq_iff split: option.splits)
  moreover have wfT: "wf_json (JObject T)"
  proof (cases "map_of root' ''mcpServers''")
    case (Some v)
    then show ?thesis using d(2) wf wf_value [OF _ Some] by (simp add: servers_of_def)
  qed (use d(2) in \<open>simp add: servers_of_def\<close>)
  ultimately have S': "S' = T" using map_of_keys_sorted a(2) by simp
  let ?doc = "obj_insert ''mcpServers'' (JObject T) root'"
  define orig where "orig = (if fs target = None then None else Some root')"
  have doc: "or_else orig [] = root'" using mcp_doc_absent d(1) by (auto simp: orig_def)
  have same: "fs target \<noteq> None \<Longrightarrow> ?doc = root'"
    using d(2,4) wf insert_same by (auto simp: servers_of_def)
  have no: "set (owned_names_after_sync owned desired (so_foreign_collisions out)) = set owned"
    unfolding next_owned [OF a(4)] d(3) by (auto simp: dm o' overlay_def split: option.splits)
  then have names: "owned_names_after_sync owned desired (so_foreign_collisions out) = owned"
    using sorted_distinct_set_unique [OF owned_names_sorted(1,2)] read_receipt_btree by (metis owned_def)
  have "apply_desired (or_else orig []) desired owned = Some (?doc, out)" using a(1) doc S' by simp
  note eq = sync_doc_merged [OF this, unfolded wf_with_servers(2) [OF wf wfT], OF fun_upd_same,
      of pretty willing project target "receipt_path project cli_id" fs]
  have absent: "desired = [] \<and> owned = []" if "fs target = None"
  proof -
    have "root' = []" using mcp_doc_absent d(1) that by blast
    then have "T = []" using d(2) by (simp add: servers_of_def)
    then have "overlay (map_of S) (map_of desired) owned0 n = None" for n
      using d(3) by (metis map_of.simps(1))
    then have "map_of desired n = None" for n
      by (cases "map_of S n") (auto simp: overlay_def dest!: meta_spec [of _ n] split: if_splits)
    then have "\<forall>n. n \<notin> fst ` set desired" by (simp add: map_of_eq_None_iff)
    then have "desired = []" by (cases desired) auto
    with o show ?thesis by simp
  qed
  then show ?thesis
    using sync_willing [OF assms(1) d(1) [unfolded target_def], of pretty cli_id desired] eq same names
    by (auto simp: owned_def target_def orig_def split: if_splits)
qed

section \<open>Launches and the user\<close>

text \<open>
  The life of the project's file: launches, each with what it wants, and the user (or another
  program) who writes the file or removes it.
\<close>

datatype mcp_event =
    Launch launch_mcp collect_options
  | Rewrite string
  | Remove

fun mcp_do ::
    "(string \<Rightarrow> json option) \<Rightarrow> (json \<Rightarrow> string) \<Rightarrow> string \<Rightarrow> string \<Rightarrow> string \<Rightarrow> files \<Rightarrow> mcp_event \<Rightarrow> files option" where
  "mcp_do parse pretty cli_id tool project fs (Launch ctx options) =
    sync_adapter_project_mcp parse pretty willing cli_id [tool, ''mcp.json''] project ctx options fs"
| "mcp_do parse pretty cli_id tool project fs (Rewrite t) = Some (fs(mcp_target (trim project) tool \<mapsto> t))"
| "mcp_do parse pretty cli_id tool project fs Remove = Some (fs(mcp_target (trim project) tool := None))"

text \<open>
  What is the user's: the other keys of the document and the entries the launches did not write;
  the third part are the names the last launch wrote.
\<close>

type_synonym shared = "(string \<Rightarrow> json option) \<times> (string \<Rightarrow> json option) \<times> string set"

fun shared_do :: "(string \<Rightarrow> json option) \<Rightarrow> mcp_event \<Rightarrow> shared \<Rightarrow> shared" where
  "shared_do parse (Launch ctx options) (rest, user, names) =
    (rest, user, fst ` set (cm_servers (collect_mcp_servers ctx options)) - dom user)"
| "shared_do parse (Rewrite t) (rest, user, names) =
    (case parse t of
       Some (JObject root) \<Rightarrow>
         ((map_of root)(''mcpServers'' := None), map_of (obj_entries (servers_of root)) |` (- names), names)
     | _ \<Rightarrow> (rest, user, names))"
| "shared_do parse Remove (rest, user, names) = (Map.empty, Map.empty, names)"

definition wf_launch :: "launch_mcp \<Rightarrow> collect_options \<Rightarrow> bool" where
  "wf_launch ctx options \<longleftrightarrow>
    list_all (\<lambda>(k, v). wf_json v) (lm_workspace ctx) \<and> list_all (\<lambda>(k, v). wf_json v) (lm_shared_stdio ctx)
    \<and> (\<forall>v. co_ccpanes_entry options = Some v \<longrightarrow> wf_json v)"

fun mcp_event_ok :: "(string \<Rightarrow> json option) \<Rightarrow> mcp_event \<Rightarrow> bool" where
  "mcp_event_ok parse (Launch ctx options) = wf_launch ctx options"
| "mcp_event_ok parse (Rewrite t) =
    (case parse t of
       Some (JObject root) \<Rightarrow> valid_utf8 t \<and> wf_json (JObject root) \<and> (\<exists>s. servers_of root = JObject s)
     | _ \<Rightarrow> False)"
| "mcp_event_ok parse Remove = True"

lemma obj_wf_insert: "wf_json (JObject kvs) \<Longrightarrow> wf_json v \<Longrightarrow> wf_json (JObject (obj_insert k v kvs))"
  by (simp add: insert_sorted insert_values)

lemma collected_wf:
  assumes "wf_launch ctx options"
  shows "wf_json (JObject (cm_servers (collect_mcp_servers ctx options)))"
proof -
  have w: "wf_json (JObject (cm_servers (collect_workspace options e c)))"
    if "wf_json (JObject (cm_servers c))" "wf_json (snd e)" for e c
    using that by (cases e) (simp add: collect_workspace_def insert_sorted insert_values)
  have s: "wf_json (JObject (cm_servers (collect_shared_stdio (lm_shared_stdio ctx) e c)))"
    if "wf_json (JObject (cm_servers c))" for e c
    using that assms by (cases e)
      (auto simp: collect_shared_stdio_def wf_launch_def insert_sorted insert_values wf_value split: option.split)
  have h: "wf_json (JObject (cm_servers (collect_shared_http e c)))"
    if "wf_json (JObject (cm_servers c))" for e c
    using that by (cases e) (simp add: collect_shared_http_def http_server_entry_def insert_sorted insert_values)
  have fw: "wf_json (JObject (cm_servers (fold (collect_workspace options) es c)))"
    if "wf_json (JObject (cm_servers c))" "\<forall>e \<in> set es. wf_json (snd e)" for es c
    using that w by (induction es arbitrary: c) (simp_all del: wf_json.simps)
  have fd: "wf_json (JObject (cm_servers (fold (collect_shared_stdio (lm_shared_stdio ctx)) es c)))"
    and fh: "wf_json (JObject (cm_servers (fold collect_shared_http es c)))"
    if "wf_json (JObject (cm_servers c))" for es c
    using that s h by (induction es arbitrary: c) (simp_all del: wf_json.simps)
  have "\<forall>e \<in> set (allowed_workspace_mcp_servers ctx). wf_json (snd e)"
    using assms by (auto simp: wf_launch_def allowed_workspace_mcp_servers_def list_all_iff)
  note ws = this
  define c0 where "c0 = \<lparr>cm_servers = [], cm_skipped_http = [], cm_skipped_shared = [], cm_skipped_invalid = []\<rparr>"
  have 0: "wf_json (JObject (cm_servers c0))" by (simp add: c0_def)
  let ?shared = "if co_stdio_only options then collect_shared_stdio (lm_shared_stdio ctx) else collect_shared_http"
  let ?c1 = "fold (collect_workspace options) (allowed_workspace_mcp_servers ctx) c0"
  have 2: "wf_json (JObject (cm_servers (fold ?shared (lm_shared_urls ctx) ?c1)))"
    using fd [OF fw [OF 0 ws]] fh [OF fw [OF 0 ws]] by (simp del: wf_json.simps)
  show ?thesis
    using 0 2 obj_wf_insert [OF 2] assms
    by (cases "co_stdio_only options")
      (simp_all add: collect_mcp_servers_def Let_def wf_launch_def c0_def [symmetric] del: wf_json.simps
        split: option.split)
qed

section \<open>The file refines the shared state\<close>

definition shares ::
    "(string \<Rightarrow> json option) \<Rightarrow> string \<Rightarrow> string \<Rightarrow> string \<Rightarrow> shared \<Rightarrow> files \<Rightarrow> bool" where
  "shares parse cli_id tool project sh fs \<longleftrightarrow>
    (case sh of (rest, user, names) \<Rightarrow>
      \<exists>root S. mcp_doc parse (mcp_target project tool) fs = Some root \<and> servers_of root = JObject S
        \<and> (map_of root)(''mcpServers'' := None) = rest \<and> map_of S |` (- names) = user
        \<and> set (mcp_owned parse project cli_id fs) = names)"

lemma launch_shares:
  assumes "reads_back parse pretty" and "project \<noteq> []" and "wf_json (JObject desired)"
    and "shares parse cli_id tool project (rest, user, names) fs"
  shows "\<exists>fs' out root S. sync_project_mcp_file parse pretty willing cli_id project [tool, ''mcp.json''] desired fs
      = Some (fs', Inr out)
    \<and> shares parse cli_id tool project (rest, user, fst ` set desired - dom user) fs'
    \<and> mcp_doc parse (mcp_target project tool) fs' = Some root \<and> servers_of root = JObject S
    \<and> (map_of root)(''mcpServers'' := None) = rest \<and> map_of S = map_of desired ++ user
    \<and> (\<exists>out. sync_project_mcp_file parse pretty willing cli_id project [tool, ''mcp.json''] desired fs' = Some (fs', Inr out))"
proof -
  obtain root S where s: "mcp_doc parse (mcp_target project tool) fs = Some root" "servers_of root = JObject S"
      "(map_of root)(''mcpServers'' := None) = rest" "map_of S |` (- names) = user"
      "set (mcp_owned parse project cli_id fs) = names"
    using assms(4) by (auto simp: shares_def)
  obtain fs' out where f: "sync_project_mcp_file parse pretty willing cli_id project [tool, ''mcp.json''] desired fs
        = Some (fs', Inr out)"
      "launched parse project tool cli_id desired root S names fs'"
    using launch_willing [OF assms(1-3) s(1,2), of cli_id] s(5) by blast
  obtain root' S' where l: "mcp_doc parse (mcp_target project tool) fs' = Some root'" "servers_of root' = JObject S'"
      "map_of S' = overlay (map_of S) (map_of desired) names"
      "(map_of root')(''mcpServers'' := None) = rest"
      "set (mcp_owned parse project cli_id fs') = {n \<in> fst ` set desired. n \<in> names \<or> map_of S n = None}"
    using f(2) s(3) by (auto simp: launched_def)
  have user: "user n = (if n \<in> names then None else map_of S n)" for n
    using s(4) by (auto simp: restrict_map_def)
  have S': "map_of S' = map_of desired ++ user"
    by (auto simp: l(3) overlay_def user map_add_def fun_eq_iff split: option.splits)
  have names': "set (mcp_owned parse project cli_id fs') = fst ` set desired - dom user"
    using l(5) by (auto simp: user split: if_splits)
  have "map_of S' |` (- (fst ` set desired - dom user)) = user"
  proof
    fix n
    have "map_of desired n = None" if "n \<notin> fst ` set desired" using that by (simp add: map_of_eq_None_iff)
    then show "(map_of S' |` (- (fst ` set desired - dom user))) n = user n"
      by (cases "user n") (auto simp: S' restrict_map_def map_add_def)
  qed
  then have "shares parse cli_id tool project (rest, user, fst ` set desired - dom user) fs'"
    using l(1,2,4) names' by (auto simp: shares_def)
  moreover have "\<exists>out. sync_project_mcp_file parse pretty willing cli_id project [tool, ''mcp.json''] desired fs'
      = Some (fs', Inr out)"
    using launch_again [OF assms(2,3) f(2)] .
  ultimately show ?thesis using f(1) l(1,2,4) S' by blast
qed

lemma adapter_sync:
  "trim project \<noteq> [] \<Longrightarrow>
    sync_adapter_project_mcp parse pretty io cli_id target_rel project ctx options fs =
    map_option fst (sync_project_mcp_file parse pretty io cli_id (trim project) target_rel
      (cm_servers (collect_mcp_servers ctx options)) fs)"
  by (simp add: sync_adapter_project_mcp_def)

lemma receipt_apart: "receipt_path project cli_id \<noteq> mcp_target project tool"
  by (simp add: receipt_path_def mcp_target_def)

lemma owned_elsewhere:
  "mcp_owned parse project cli_id (fs(mcp_target project tool := x)) = mcp_owned parse project cli_id fs"
  using receipt_apart [of project cli_id tool] by (simp add: read_receipt_def fs_read_to_string_def)

lemma mcp_do_shares:
  assumes "reads_back parse pretty" and "trim project \<noteq> []" and "mcp_event_ok parse e"
    and "shares parse cli_id tool (trim project) sh fs"
  shows "\<exists>fs'. mcp_do parse pretty cli_id tool project fs e = Some fs'
    \<and> shares parse cli_id tool (trim project) (shared_do parse e sh) fs'"
proof -
  obtain rest user names where sh: "sh = (rest, user, names)" by (cases sh)
  show ?thesis
  proof (cases e)
    case (Launch ctx options)
    have "wf_json (JObject (cm_servers (collect_mcp_servers ctx options)))"
      using collected_wf assms(3) Launch by simp
    from launch_shares [OF assms(1,2) this assms(4) [unfolded sh]] show ?thesis
      using Launch sh adapter_sync [OF assms(2)] by auto
  next
    case (Rewrite t)
    then obtain root S where r: "parse t = Some (JObject root)" "valid_utf8 t" "wf_json (JObject root)"
        "servers_of root = JObject S"
      using assms(3) by (auto split: option.splits json.splits)
    then show ?thesis
      using Rewrite sh assms(4)
      by (auto simp: shares_def mcp_doc_def owned_elsewhere simp del: wf_json.simps)
  next
    case Remove
    then show ?thesis
      using sh assms(4)
      by (auto simp: shares_def mcp_doc_def owned_elsewhere servers_of_def restrict_map_def)
  qed
qed

lemma mcp_run_shares:
  assumes "reads_back parse pretty" and "trim project \<noteq> []" and "list_all (mcp_event_ok parse) es"
    and "shares parse cli_id tool (trim project) sh fs"
  shows "\<exists>fs'. run_opt (mcp_do parse pretty cli_id tool project) fs es = Some fs'
    \<and> shares parse cli_id tool (trim project) (fold (shared_do parse) es sh) fs'"
  using assms(3,4)
proof (induction es arbitrary: fs sh)
  case (Cons e es)
  then have ok: "mcp_event_ok parse e" "list_all (mcp_event_ok parse) es" by simp_all
  obtain fs' where fs': "mcp_do parse pretty cli_id tool project fs e = Some fs'"
      "shares parse cli_id tool (trim project) (shared_do parse e sh) fs'"
    using mcp_do_shares [OF assms(1,2) ok(1) Cons.prems(2)] by blast
  from Cons.IH [OF ok(2) fs'(2)] fs'(1) show ?case by simp
qed simp


end
