(* ===== verification/Json_Text.thy ===== *)
theory Json_Text
  imports Json_Object Host_Files
begin

text \<open>
  A plain notation for JSON values that can be read back. It shows that the assumption on the
  parser and the printer of \<open>serde_json\<close>, which the theorems on files state, can be met; nothing
  depends on its form.
\<close>

section \<open>The notation\<close>

definition nibbles :: "char \<Rightarrow> string" where
  "nibbles c = [char_of (97 + byte_val c div 16), char_of (97 + byte_val c mod 16)]"

definition note_text :: "string \<Rightarrow> string" where
  "note_text s = concat (map nibbles s) @ ''.''"

fun note_json :: "json \<Rightarrow> string" where
  "note_json JNull = ''n''"
| "note_json (JBool b) = (if b then ''t'' else ''f'')"
| "note_json (JNumber s) = ''d'' @ note_text s"
| "note_json (JString s) = ''s'' @ note_text s"
| "note_json (JArray xs) = ''['' @ concat (map note_json xs) @ '']''"
| "note_json (JObject kvs) = ''{'' @ concat (map (\<lambda>(k, v). '':'' @ note_text k @ note_json v) kvs) @ ''}''"

fun read_text :: "string \<Rightarrow> string \<times> string" where
  "read_text (a # b # r) =
    (if a = CHR ''.'' then ([], b # r)
     else let (s, r') = read_text r in (char_of (16 * (byte_val a - 97) + (byte_val b - 97)) # s, r'))"
| "read_text r = ([], [])"

text \<open>The readers take as many steps as they are given; the length of the text is enough.\<close>

fun read_value :: "nat \<Rightarrow> string \<Rightarrow> (json \<times> string) option"
  and read_values :: "nat \<Rightarrow> string \<Rightarrow> (json list \<times> string) option"
  and read_entries :: "nat \<Rightarrow> string \<Rightarrow> ((string \<times> json) list \<times> string) option" where
  "read_value (Suc n) (c # r) =
    (if c = CHR ''n'' then Some (JNull, r)
     else if c = CHR ''t'' then Some (JBool True, r)
     else if c = CHR ''f'' then Some (JBool False, r)
     else if c = CHR ''d'' then (let (s, r) = read_text r in Some (JNumber s, r))
     else if c = CHR ''s'' then (let (s, r) = read_text r in Some (JString s, r))
     else if c = CHR ''['' then map_option (\<lambda>(xs, r). (JArray xs, r)) (read_values n r)
     else if c = CHR ''{'' then map_option (\<lambda>(kvs, r). (JObject kvs, r)) (read_entries n r)
     else None)"
| "read_value _ _ = None"
| "read_values (Suc n) (c # r) =
    (if c = CHR '']'' then Some ([], r)
     else case read_value n (c # r) of
       Some (x, r) \<Rightarrow> map_option (\<lambda>(xs, r). (x # xs, r)) (read_values n r)
     | None \<Rightarrow> None)"
| "read_values _ _ = None"
| "read_entries (Suc n) (c # r) =
    (if c = CHR ''}'' then Some ([], r)
     else
       let (k, r) = read_text r in
       case read_value n r of
         Some (v, r) \<Rightarrow> map_option (\<lambda>(kvs, r). ((k, v) # kvs, r)) (read_entries n r)
       | None \<Rightarrow> None)"
| "read_entries _ _ = None"

definition read_json :: "string \<Rightarrow> json option" where
  "read_json t =
    (case read_value (length t) t of
       Some (v, r) \<Rightarrow> if r = [] \<or> r = [CHR 0x0A] then Some v else None
     | None \<Rightarrow> None)"

section \<open>Reading back\<close>

lemma nibble_small: "byte_val c div 16 < 16"
  using nat_of_char_less_256 [of c] by (simp add: div_less_iff_less_mult)

lemma nibble_vals [simp]:
  "(97 + byte_val c div 16) mod 256 = 97 + byte_val c div 16"
  "(97 + byte_val c mod 16) mod 256 = 97 + byte_val c mod 16"
  using nibble_small [of c] by (simp_all add: mod_less)

lemma nibble_chars:
  "char_of (97 + byte_val c div 16) \<noteq> CHR ''.''"
  "is_ascii (char_of (97 + byte_val c div 16))" "is_ascii (char_of (97 + byte_val c mod 16))"
proof -
  have "byte_val (char_of (97 + byte_val c div 16)) \<noteq> byte_val (CHR ''.'')" by simp
  then show "char_of (97 + byte_val c div 16) \<noteq> CHR ''.''" by metis
  show "is_ascii (char_of (97 + byte_val c div 16))" "is_ascii (char_of (97 + byte_val c mod 16))"
    using nibble_small [of c] by (simp_all add: is_ascii_def)
qed

lemma read_note_text: "read_text (note_text s @ r) = (s, r)"
proof (induction s)
  case Nil
  then show ?case by (cases r) (simp_all add: note_text_def)
next
  case (Cons c s)
  then show ?case by (simp add: note_text_def nibbles_def nibble_chars(1))
qed

lemma note_nonempty: "\<exists>c t. note_json v = c # t \<and> c \<noteq> CHR '']''"
  by (cases v) auto

lemma read_note: "length (note_json v) \<le> n \<Longrightarrow> read_value n (note_json v @ r) = Some (v, r)"
proof (induction v arbitrary: n r)
  case (JArray xs)
  have "read_values n (concat (map note_json ys) @ CHR '']'' # r) = Some (ys, r)"
    if "set ys \<subseteq> set xs" "length (concat (map note_json ys)) < n" for ys n
    using that
  proof (induction ys arbitrary: n)
    case Nil
    then show ?case by (cases n) simp_all
  next
    case (Cons y ys)
    obtain c t where y: "note_json y = c # t" "c \<noteq> CHR '']''" using note_nonempty by blast
    obtain m where n: "n = Suc m" using Cons.prems by (cases n) simp_all
    have "read_value m (note_json y @ concat (map note_json ys) @ CHR '']'' # r)
        = Some (y, concat (map note_json ys) @ CHR '']'' # r)"
      using JArray.IH [of y m] Cons.prems n by simp
    moreover have "read_values m (concat (map note_json ys) @ CHR '']'' # r) = Some (ys, r)"
      using Cons.IH [of m] Cons.prems n y(1) by simp
    ultimately show ?case using y n by simp
  qed
  from this [of xs "n - 1"] show ?case using JArray.prems by (cases n) simp_all
next
  case (JObject kvs)
  let ?note = "\<lambda>(k, v). '':'' @ note_text k @ note_json v"
  have "read_entries n (concat (map ?note es) @ CHR ''}'' # r) = Some (es, r)"
    if "set es \<subseteq> set kvs" "length (concat (map ?note es)) < n" for es n
    using that
  proof (induction es arbitrary: n)
    case Nil
    then show ?case by (cases n) simp_all
  next
    case (Cons e es)
    obtain k v where e: "e = (k, v)" by fastforce
    obtain m where n: "n = Suc m" using Cons.prems by (cases n) simp_all
    have "read_value m (note_json v @ concat (map ?note es) @ CHR ''}'' # r)
        = Some (v, concat (map ?note es) @ CHR ''}'' # r)"
      using JObject.IH [of e v m] Cons.prems n e by simp
    moreover have "read_entries m (concat (map ?note es) @ CHR ''}'' # r) = Some (es, r)"
      using Cons.IH [of m] Cons.prems n e by simp
    ultimately show ?case using e n by (simp add: read_note_text)
  qed
  from this [of kvs "n - 1"] show ?case using JObject.prems by (cases n) simp_all
next
  case JNull
  then show ?case by (cases n) simp_all
next
  case (JBool b)
  then show ?case by (cases n; cases b) simp_all
next
  case (JNumber s)
  then show ?case by (cases n) (simp_all add: read_note_text)
next
  case (JString s)
  then show ?case by (cases n) (simp_all add: read_note_text)
qed

lemma note_ascii: "c \<in> set (note_json v) \<Longrightarrow> is_ascii c"
proof (induction v)
  case (JObject kvs)
  then show ?case by (auto simp: note_text_def nibbles_def nibble_chars, auto simp: is_ascii_def)
qed (auto simp: note_text_def nibbles_def nibble_chars split: if_splits, auto simp: is_ascii_def)

lemma read_json_note: "read_json (note_json v) = Some v" "read_json (note_json v @ [CHR 0x0A]) = Some v"
  using read_note [of v "length (note_json v)" "[]"] read_note [of v "Suc (length (note_json v))" "[CHR 0x0A]"]
  by (simp_all add: read_json_def)

end
