(* ===== verification/Mcp_Props.thy ===== *)
theory Mcp_Props
  imports Mcp_Overlay Json_Text
begin

text \<open>
  The injection of MCP servers when reads, writes and directories may be refused or break off,
  examples, and what the code does against its comments.
\<close>

section \<open>Whatever the platform does\<close>

definition own_files :: "string \<Rightarrow> string \<Rightarrow> string \<Rightarrow> path set" where
  "own_files project cli_id tool =
    {mcp_target project tool, [project, tool, ''mcp.json.bak''], [project, tool, ''.gitignore''],
     receipt_path project cli_id, [project, ''.ccpanes'', ''.gitignore'']}"

lemma write_receipt_elsewhere:
  "q \<noteq> p \<Longrightarrow> q \<noteq> [project, ''.ccpanes'', ''.gitignore''] \<Longrightarrow>
    fst (write_receipt pretty io p names project fs) q = fs q"
  by (simp add: write_receipt_def Let_def write_atomic_elsewhere fs_write_elsewhere)

text \<open>What the last phase leaves: the target is as before or the new text, the backup is the old one.\<close>

lemma publish_effect:
  fixes project tool cli_id
  defines "target \<equiv> mcp_target project tool" and "receipt \<equiv> receipt_path project cli_id"
    and "bak \<equiv> [project, tool, ''mcp.json.bak'']"
  assumes "publish_sync pretty io project target receipt doc names out fs = (fs', r)"
  shows "fs' target = fs target \<or> fs' target = Some (pretty (JObject doc) @ NL)"
    and "p \<notin> own_files project cli_id tool \<Longrightarrow> fs' p = fs p"
    and "fs target = Some t \<Longrightarrow> may_read io target \<Longrightarrow> may_write io bak \<Longrightarrow> fs' bak = Some t"
proof -
  define fs1 where "fs1 = (if fs target \<noteq> None then fst (fs_copy io target (with_extension ''json.bak'' target) fs) else fs)"
  define fs2 where "fs2 = ensure_tool_dir_guard io (butlast target) fs1"
  define fs3 where "fs3 = fst (write_atomic io target (pretty (JObject doc) @ NL) fs2)"
  have "publish_sync pretty io project target receipt doc names out fs =
    (let (fs4, ok) = write_atomic io target (pretty (JObject doc) @ NL) fs2
     in if \<not> ok then (fs4, Inl TargetNotWritten)
        else let (fs5, ok) = write_receipt pretty io receipt names project fs4
             in (fs5, if ok then Inr (out\<lparr>so_written := True\<rparr>) else Inl ReceiptNotWritten))"
    by (simp only: publish_sync_def Let_def fs2_def fs1_def)
  then have fs': "fs' = fs3 \<or> fs' = fst (write_receipt pretty io receipt names project fs3)"
    using assms(4) by (auto simp: fs3_def split: prod.splits if_splits)
  have bak: "with_extension ''json.bak'' target = bak" by (simp add: target_def bak_def mcp_bak)
  have apart: "target \<noteq> receipt" "target \<noteq> [project, ''.ccpanes'', ''.gitignore'']" "target \<noteq> bak"
    "target \<noteq> butlast target @ [''.gitignore'']" "bak \<noteq> butlast target @ [''.gitignore'']"
    "bak \<noteq> receipt" "bak \<noteq> [project, ''.ccpanes'', ''.gitignore'']"
    by (simp_all add: target_def receipt_def bak_def mcp_target_def receipt_path_def)
  have same: "fs' q = fs3 q" if "q \<noteq> receipt" "q \<noteq> [project, ''.ccpanes'', ''.gitignore'']" for q
    using fs' that write_receipt_elsewhere by metis
  have "fs2 target = fs target"
    using apart by (simp add: fs2_def fs1_def guard_elsewhere fs_copy_elsewhere bak)
  then show "fs' target = fs target \<or> fs' target = Some (pretty (JObject doc) @ NL)"
    using same apart by (auto simp: fs3_def write_atomic_def)
  have fs1: "fs1 q = fs q" if "q \<noteq> bak" for q
    using that by (simp add: fs1_def bak fs_copy_elsewhere)
  show "fs' p = fs p" if "p \<notin> own_files project cli_id tool"
  proof -
    have "p \<noteq> target" "p \<noteq> bak" "p \<noteq> butlast target @ [''.gitignore'']" "p \<noteq> receipt"
      "p \<noteq> [project, ''.ccpanes'', ''.gitignore'']"
      using that by (simp_all add: own_files_def target_def bak_def receipt_def mcp_target_def)
    then show ?thesis
      using same fs1 by (simp add: fs3_def fs2_def write_atomic_elsewhere guard_elsewhere)
  qed
  show "fs' bak = Some t" if "fs target = Some t" "may_read io target" "may_write io bak"
    using that same apart
    by (simp add: fs3_def fs2_def fs1_def write_atomic_elsewhere guard_elsewhere bak fs_copy_def fs_write_def)
qed

text \<open>The document a launch starts from, if it gets that far.\<close>

definition read_doc :: "(string \<Rightarrow> json option) \<Rightarrow> platform \<Rightarrow> path \<Rightarrow> files \<Rightarrow> (string \<times> json) list option" where
  "read_doc parse io target fs =
    (case fs target of
       None \<Rightarrow> Some []
     | Some _ \<Rightarrow>
         (case Option.bind (fs_read_to_string io target fs) parse of
            Some (JObject root) \<Rightarrow> Some root
          | _ \<Rightarrow> None))"

lemma sync_starts:
  assumes "project \<noteq> []"
  shows "sync_project_mcp_file parse pretty io cli_id project [tool, ''mcp.json''] desired fs =
    (case read_doc parse io (mcp_target project tool) fs of
       Some root \<Rightarrow>
         sync_doc pretty io project (mcp_target project tool) (receipt_path project cli_id)
           (read_receipt parse io (receipt_path project cli_id) fs) desired
           (if fs (mcp_target project tool) = None then None else Some root) fs
     | None \<Rightarrow>
         Some (fs, if fs_read_to_string io (mcp_target project tool) fs = None then Inl ReadFailed
                   else Inr outcome_default))"
proof -
  have t: "project # [tool, ''mcp.json''] = mcp_target project tool" by (simp add: mcp_target_def)
  show ?thesis
    using assms
    by (auto simp: sync_project_mcp_file_def Let_def t read_doc_def fs_read_to_string_def
        split: option.split json.split)
qed

text \<open>
  What can become of the file and of everything else, for every outcome of every access.
\<close>

definition spared ::
    "(string \<Rightarrow> json option) \<Rightarrow> (json \<Rightarrow> string) \<Rightarrow> platform \<Rightarrow> string \<Rightarrow> string \<Rightarrow> string \<Rightarrow> files \<Rightarrow> files \<Rightarrow> bool" where
  "spared parse pretty io cli_id project tool fs fs' \<longleftrightarrow>
    (\<forall>p. p \<notin> own_files project cli_id tool \<longrightarrow> fs' p = fs p)
    \<and> (fs' (mcp_target project tool) = fs (mcp_target project tool)
       \<or> (\<exists>root S S'. read_doc parse io (mcp_target project tool) fs = Some root \<and> servers_of root = JObject S
            \<and> fs' (mcp_target project tool) =
                Some (pretty (JObject (obj_insert ''mcpServers'' (JObject S') root)) @ NL)
            \<and> (\<forall>n v. map_of S n = Some v \<longrightarrow>
                 n \<notin> set (read_receipt parse io (receipt_path project cli_id) fs) \<longrightarrow> map_of S' n = Some v)
            \<and> (\<forall>t. fs (mcp_target project tool) = Some t \<longrightarrow> may_write io [project, tool, ''mcp.json.bak''] \<longrightarrow>
                 fs' [project, tool, ''mcp.json.bak''] = Some t)))"

lemma spared_unchanged: "spared parse pretty io cli_id project tool fs fs"
  by (simp add: spared_def)

lemma read_doc_Some:
  "read_doc parse io target fs = Some root \<Longrightarrow> fs target = Some t \<Longrightarrow> may_read io target \<and> parse t = Some (JObject root)"
  by (auto simp: read_doc_def fs_read_to_string_def from_utf8_def split: option.splits json.splits if_splits)

lemma sync_doc_spares:
  assumes "wf_json (JObject desired)" and "\<And>t v. parse t = Some v \<Longrightarrow> wf_json v"
    and "read_doc parse io (mcp_target project tool) fs = Some root"
    and "sync_doc pretty io project (mcp_target project tool) (receipt_path project cli_id)
      (read_receipt parse io (receipt_path project cli_id) fs) desired
      (if fs (mcp_target project tool) = None then None else Some root) fs = Some (fs', r)"
  shows "spared parse pretty io cli_id project tool fs fs'"
proof -
  define owned where "owned = read_receipt parse io (receipt_path project cli_id) fs"
  define orig where "orig = (if fs (mcp_target project tool) = None then None else Some root)"
  have doc: "or_else orig [] = root" using assms(3) by (auto simp: orig_def read_doc_def)
  have wf: "wf_json (JObject root)"
    using assms(2,3) read_doc_Some [OF assms(3)]
    by (cases "fs (mcp_target project tool)") (fastforce simp: read_doc_def)+
  show ?thesis
  proof (cases "\<exists>S. servers_of root = JObject S")
    case False
    then have "apply_desired (or_else orig []) desired owned = None" by (simp add: doc apply_desired_panics_iff)
    then have "fs' = fs"
      using assms(4) [folded owned_def orig_def] by (simp add: sync_doc_def split: if_splits)
    then show ?thesis by (simp add: spared_unchanged)
  next
    case True
    then obtain S where S: "servers_of root = JObject S" by blast
    obtain S' out where a: "apply_desired root desired owned = Some (obj_insert ''mcpServers'' (JObject S') root, out)"
        "wf_json (JObject S')" "map_of S' = overlay (map_of S) (map_of desired) (set owned)"
      by (rule apply_desired_overlay [OF wf S assms(1), of owned])
    let ?doc = "obj_insert ''mcpServers'' (JObject S') root"
    let ?names = "owned_names_after_sync owned desired (so_foreign_collisions out)"
    have "apply_desired (or_else orig []) desired owned = Some (?doc, out)" using a(1) doc by simp
    note eq = sync_doc_merged [OF this, unfolded wf_with_servers(2) [OF wf a(2)], OF fun_upd_same,
        of pretty io project "mcp_target project tool" "receipt_path project cli_id" fs]
    have "fs' = fs \<or> fs' = fst (write_receipt pretty io (receipt_path project cli_id) [] project fs)
      \<or> publish_sync pretty io project (mcp_target project tool) (receipt_path project cli_id) ?doc ?names out fs = (fs', r)"
      using assms(4) [folded owned_def orig_def, unfolded eq] by (auto split: if_splits prod.splits)
    then show ?thesis
    proof (elim disjE)
      assume w: "fs' = fst (write_receipt pretty io (receipt_path project cli_id) [] project fs)"
      have "fs' p = fs p" if "p \<notin> own_files project cli_id tool \<or> p = mcp_target project tool" for p
        using that unfolding w
        by (intro write_receipt_elsewhere) (auto simp: own_files_def mcp_target_def receipt_path_def)
      then show ?thesis by (simp add: spared_def)
    next
      assume p: "publish_sync pretty io project (mcp_target project tool) (receipt_path project cli_id) ?doc ?names out fs = (fs', r)"
      note e = publish_effect [OF p]
      have keep: "map_of S' n = Some v" if "map_of S n = Some v" "n \<notin> set owned" for n v
        using that by (simp add: a(3) overlay_def)
      show ?thesis
        using e assms(3) S keep read_doc_Some [OF assms(3)]
        unfolding spared_def owned_def by blast
    qed (simp add: spared_unchanged)
  qed
qed

section \<open>Examples\<close>

text \<open>A parser that reads the notation of \<open>Json_Text\<close> and, as \<open>serde_json\<close>, gives ordered objects only.\<close>

definition read_wf :: "string \<Rightarrow> json option" where
  "read_wf t = (case read_json t of Some v \<Rightarrow> if wf_json v then Some v else None | None \<Rightarrow> None)"

lemma read_wf: "reads_back read_wf note_json" "read_wf t = Some v \<Longrightarrow> wf_json v"
  using note_ascii
  by (auto simp: reads_back_def read_wf_def read_json_note intro: valid_utf8_ascii split: option.splits if_splits)

lemma read_wf_note: "wf_json v \<Longrightarrow> read_wf (note_json v) = Some v \<and> valid_utf8 (note_json v)"
  using read_wf(1) by (simp add: reads_back_def)

definition users_doc :: "(string \<times> json) list" where
  "users_doc = [(''mcpServers'', JObject [(''db'', JNull), (''wiki'', JBool True)]), (''theme'', JString ''dark'')]"

lemma users_doc_wf: "wf_json (JObject users_doc)" "servers_of users_doc = JObject [(''db'', JNull), (''wiki'', JBool True)]"
  by (simp_all add: users_doc_def servers_of_def)

definition users_files :: files where
  "users_files = [mcp_target ''p'' ''.omp'' \<mapsto> note_json (JObject users_doc)]"

lemma users_files_doc: "mcp_doc read_wf (mcp_target ''p'' ''.omp'') users_files = Some users_doc"
  using read_wf_note [OF users_doc_wf(1)] users_doc_wf by (simp add: mcp_doc_def users_files_def)

definition no_receipts :: platform where
  "no_receipts = willing\<lparr>may_write := (\<lambda>p. p \<noteq> receipt_path ''p'' ''omp'')\<rparr>"


definition ex_launch :: launch_mcp where
  "ex_launch = \<lparr>lm_skip_mcp = False, lm_disable_unlisted = False, lm_allowed_ids = [],
    lm_workspace = [(''db'', JBool False), (''search'', JNull)], lm_shared_urls = [], lm_shared_stdio = []\<rparr>"

definition ex_options :: collect_options where
  "ex_options = \<lparr>co_stdio_only = False, co_ccpanes_entry = Some (JString ''here'')\<rparr>"

lemma ex_collected:
  "cm_servers (collect_mcp_servers ex_launch ex_options) =
    [(''ccpanes'', JString ''here''), (''db'', JBool False), (''search'', JNull)]"
  "cm_servers (collect_mcp_servers (ex_launch\<lparr>lm_skip_mcp := True\<rparr>) ex_options) = []"
  by code_simp+


section \<open>Where the code falls short\<close>

text \<open>Servers that are no object end the launch in a panic; the code's comment has them replaced.\<close>

lemma malformed_servers_panic:
  "sync_project_mcp_file read_wf note_json willing ''omp'' ''p'' [''.omp'', ''mcp.json''] []
    [mcp_target ''p'' ''.omp'' \<mapsto> note_json (JObject [(''mcpServers'', JArray [])])] = None"
proof -
  have "wf_json (JObject [(''mcpServers'', JArray [])])" by simp
  from read_wf_note [OF this] show ?thesis
    by (simp add: sync_starts read_doc_def fs_read_to_string_def from_utf8_def sync_doc_def apply_desired_def)
qed

text \<open>
  A rule that makes git track the file, and one for the backup only, count as rules that hide the
  file with its token.
\<close>

lemma tracked_file_passes_the_guard:
  "ensure_tool_dir_guard willing [''p'', ''.omp''] [[''p'', ''.omp'', ''.gitignore''] \<mapsto> ''!mcp.json'']
    = [[''p'', ''.omp'', ''.gitignore''] \<mapsto> ''!mcp.json'']"
  "ensure_tool_dir_guard willing [''p'', ''.omp''] [[''p'', ''.omp'', ''.gitignore''] \<mapsto> ''mcp.json.bak'']
    = [[''p'', ''.omp'', ''.gitignore''] \<mapsto> ''mcp.json.bak'']"
proof -
  have "guarded_text ''!mcp.json''" "guarded_text ''mcp.json.bak''" "valid_utf8 ''!mcp.json''" "valid_utf8 ''mcp.json.bak''"
    by code_simp+
  then show "ensure_tool_dir_guard willing [''p'', ''.omp''] [[''p'', ''.omp'', ''.gitignore''] \<mapsto> ''!mcp.json'']
      = [[''p'', ''.omp'', ''.gitignore''] \<mapsto> ''!mcp.json'']"
    and "ensure_tool_dir_guard willing [''p'', ''.omp''] [[''p'', ''.omp'', ''.gitignore''] \<mapsto> ''mcp.json.bak'']
      = [[''p'', ''.omp'', ''.gitignore''] \<mapsto> ''mcp.json.bak'']"
    by (simp_all add: ensure_tool_dir_guard_def fs_read_to_string_def from_utf8_def)
qed

text \<open>
  The file is written before the receipt. If the receipt cannot be written, the entries in the
  file are taken for the user's: no later launch, not even one without MCP, removes them.
\<close>

lemma lost_receipt_strands_entries:
  "\<exists>fs1 fs2 out root. sync_project_mcp_file read_wf note_json no_receipts ''omp'' ''p'' [''.omp'', ''mcp.json'']
      [(''ccpanes'', JString ''token'')] Map.empty = Some (fs1, Inl ReceiptNotWritten)
    \<and> sync_project_mcp_file read_wf note_json willing ''omp'' ''p'' [''.omp'', ''mcp.json''] [] fs1 = Some (fs2, Inr out)
    \<and> mcp_doc read_wf (mcp_target ''p'' ''.omp'') fs2 = Some root
    \<and> map_of (obj_entries (servers_of root)) ''ccpanes'' = Some (JString ''token'')"
proof -
  let ?doc = "[(''mcpServers'', JObject [(''ccpanes'', JString ''token'')])]"
  have wf: "wf_json (JObject ?doc)" by simp
  have nr: "receipt_path ''p'' ''omp'' \<noteq> [''p'', ''.ccpanes'', ''.gitignore'']" by (simp add: receipt_path_def)
  obtain fs1 where f: "sync_project_mcp_file read_wf note_json no_receipts ''omp'' ''p'' [''.omp'', ''mcp.json'']
      [(''ccpanes'', JString ''token'')] Map.empty = Some (fs1, Inl ReceiptNotWritten)"
      "fs1 (mcp_target ''p'' ''.omp'') = Some (note_json (JObject ?doc) @ NL)"
      "fs1 (receipt_path ''p'' ''omp'') = None"
    using nr
    by (auto simp: sync_starts read_doc_def sync_doc_def apply_desired_def read_receipt_def fs_read_to_string_def
        add_desired_def outcome_default_def publish_sync_def ensure_tool_dir_guard_def write_atomic_def
        write_receipt_def fs_write_def no_receipts_def mcp_target_def receipt_path_def Let_def)
  have "read_wf (note_json (JObject ?doc) @ NL) = Some (JObject ?doc)"
    and "valid_utf8 (note_json (JObject ?doc) @ NL)"
    using read_wf(1) wf valid_utf8_NL [of "note_json (JObject ?doc)"] unfolding reads_back_def by blast+
  then have d: "mcp_doc read_wf (mcp_target ''p'' ''.omp'') fs1 = Some ?doc"
    using f(2) wf by (simp add: mcp_doc_def servers_of_def)
  have o: "mcp_owned read_wf ''p'' ''omp'' fs1 = []" using f(3) by (simp add: read_receipt_def fs_read_to_string_def)
  have s: "servers_of ?doc = JObject [(''ccpanes'', JString ''token'')]" by (simp add: servers_of_def)
  from launch_willing [OF read_wf(1) _ _ d s, of "[]" "''omp''"] o obtain fs2 out where
    "sync_project_mcp_file read_wf note_json willing ''omp'' ''p'' [''.omp'', ''mcp.json''] [] fs1 = Some (fs2, Inr out)"
    and "launched read_wf ''p'' ''.omp'' ''omp'' [] ?doc [(''ccpanes'', JString ''token'')] {} fs2"
    by auto
  then show ?thesis using f(1) by (fastforce simp: launched_def overlay_def)
qed

end
