(* ===== verification/Spec2Isabelle.thy ===== *)
theory Spec2Isabelle
  imports Session_Props Flow_Props Flow_Threads Replay_Recovery Delivery Osc_Signals Screen_Text
    Dispatch_Props Ws_Props Task_Cascade Task_Plans Project_Props Restore_Runs Reaper_Quiet
    Web_Props Http_Props Lease_Runs Mcp_Props
begin

text \<open>
  CC-Panes runs command-line agents in terminals, shows them in panes and lets them work
  together. This development models the Rust code that decides what a user, a client or another
  agent gets to see and to send: which state a session is in, what of its output reaches a client
  and when the reader is paused, what a client that comes back can rebuild, what the queue of
  prompts of a terminal hands over, and how tasks are bound to sessions. Paths are below
  \<open>src/\<close>; \<open>core\<close> stands for \<open>src/cc-panes-core/src\<close>.

  \<^bold>\<open>The parts and how they work together.\<close> A session has a reader thread on its PTY. It decodes
  the bytes (\<open>Utf8_Stream\<close>), scans them for signals of agents and shells (\<open>Osc_Detect\<close>,
  \<open>Csi_Mode\<close>), which drive the session's state machine (\<open>Osc_Signals\<close>, \<open>Session_State\<close>), keeps
  them for replay (\<open>Replay_Buffer\<close>) and on a plain-text screen (\<open>Screen\<close>), and sends them with
  their byte coordinate to the batcher thread (\<open>Delivery\<close>). The batcher merges and emits them;
  the ledger of \<open>Output_Flow\<close> pauses the reader when a client that acknowledges lags behind. In
  the daemon \<open>Ws_Emitter\<close> distributes the events to the subscriptions of clients, which follow
  the coordinates with an \<open>Output_Cursor\<close>. The task queue (\<open>Queue_Model\<close> to \<open>Queue_Dispatch\<close>)
  hands the prompts of a terminal over when the state machine says that the agent is idle. The
  task bindings (\<open>Task_Binding\<close>, \<open>Task_Service\<close>) tie the tasks of a plan to sessions, under the
  key of the plan's path (\<open>Plan_Path\<close>), and take patches of their metadata (\<open>Json_Patch\<close>).
  Sessions are created through the daemon: a request names a project by paths of several worlds
  (\<open>Project_Path\<close>, \<open>Launch_Request\<close>), the daemon's handlers check who writes and whether a saved
  session is already restored (\<open>Daemon_Server\<close>, \<open>Daemon_Create\<close>, \<open>Daemon_Sockets\<close>), and a sweep
  kills the sessions nobody uses any more (\<open>Session_Reaper\<close>). The desktop speaks to the daemon
  over HTTP (\<open>Daemon_Http\<close>, \<open>Daemon_Client\<close>) and renews the leases it holds (\<open>Client_Lease\<close>).
  Browsers reach the same services through the web server, which decides who may come in
  (\<open>Ip_Text\<close>, \<open>Web_Access\<close>, \<open>Web_Auth\<close>). Before an agent starts, its MCP servers are put into the
  file of the project where it looks for them (\<open>Mcp_File\<close>).

  \<^bold>\<open>Conventions.\<close> A struct is a record, an enum a datatype, both with the source's names; an
  operation is a function from the old state (and the arguments, the clock readings, the uuids)
  to the new state and the result. A Rust \<open>String\<close> is the list of its UTF-8 bytes. An
  operation that can panic (indexing, \<open>remove\<close>, \<open>insert\<close>, checked subtraction) has the value
  \<open>None\<close> where the code panics; one that can fail has a value of a sum type with the error on the
  left. A method that takes one lock is one atomic step; where a call makes several accesses the
  steps between which other threads run are explicit (\<open>Flow_Threads\<close>, \<open>Delivery\<close>,
  \<open>Queue_Dispatch\<close>, \<open>Task_Service\<close>). Byte counts and sequence numbers of type \<open>u64\<close> and \<open>usize\<close>
  are natural numbers, with the saturating and wrapping operations of the code written out; the
  epoch of the replay buffer, built with shifts and masks, is a 64-bit word.

  \<^bold>\<open>Shared theories.\<close> \<open>Ccp_Prelude\<close>: vectors, results, clocks, list lemmas. \<open>Rust_Text\<close>: the
  \<open>str\<close> operations the code uses and the classification of UTF-8 bytes. \<open>Machines\<close>: the
  interfaces, as locales: a machine whose steps do not panic under an invariant
  (\<open>safe_machine\<close>), one whose steps keep it (\<open>inv_machine\<close>, a \<open>safe_machine\<close>), one in which a
  step may be impossible (\<open>partial_machine\<close>), a detector fed in
  chunks (\<open>stream_detector\<close>, \<open>bounded_detector\<close>) and a cell that takes maxima (\<open>max_merge\<close>); each
  is interpreted in the theories of the components that provide it. \<open>Json\<close>: the values of
  \<open>serde_json\<close>. \<open>App_Error\<close>: the error type and programs with a state and an error.
  \<open>Sql_Rows\<close>: ordering, newest row and \<open>LIKE\<close>.
\<close>

text \<open>
  \<^bold>\<open>Sessions and their output.\<close>

  \<^item> \<open>Session_State\<close>, \<open>Session_Props\<close>: \<open>core/services/session_state_machine.rs\<close> with the status
    enum of \<open>terminal_service.rs\<close> and the event enum of \<open>src/cc-cli-adapters/src/lib.rs\<close>. The
    log of transitions given to the listeners is the history of the state; entries are bounded;
    a copy of an event over the other channel counts once; an automatic submission needs a fresh
    observation.
  \<^item> \<open>Output_Flow\<close>, \<open>Flow_Props\<close>, \<open>Flow_Threads\<close>: \<open>core/services/terminal_output_flow.rs\<close>. The
    wait of the reader is a list of wake-ups with what other threads did meanwhile. Acknowledged
    bytes are counted once, the hysteresis bounds the number of pauses, the reader wakes; the
    first two also hold in every interleaving of the accesses to the atomics.
  \<^item> \<open>Replay_Buffer\<close>, \<open>Replay_Props\<close>, \<open>Replay_Recovery\<close>: \<open>ReplayBuffer\<close> in
    \<open>terminal_service.rs\<close>, compared with the whole history of the session: recovery has no gap,
    resizes are replayed where they happened, anchors increase.
  \<^item> \<open>Utf8_Stream\<close>, \<open>Delivery\<close>, \<open>Output_Cursor\<close>: \<open>utf8_safe_process\<close>, the reader and batcher
    closures of \<open>create_session\<close>, \<open>terminal_output_cursor.rs\<close> and \<open>output_batch_clock.rs\<close>. A
    client that follows the batches shows the output, and a loss is noticed.
  \<^item> \<open>Osc_Detect\<close>, \<open>Csi_Mode\<close>, \<open>Osc_Signals\<close>: \<open>terminal_service/osc_state_detect.rs\<close>,
    \<open>csi_mode_detect.rs\<close> and what the reader does with their signals. How the output is cut into
    reads does not matter, and a marker printed by a hook is the event it names.
  \<^item> \<open>Screen\<close>, \<open>Screen_Props\<close>, \<open>Screen_Text\<close>: \<open>terminal_service/plain_output.rs\<close> from the
    callbacks of the parser on. No panic, bounds, the newest text that fits, and no trace of a
    full-screen program.
  \<^item> \<open>Ws_Emitter\<close>, \<open>Ws_Props\<close>: \<open>src/cc-panes-daemon/src/ws_emitter.rs\<close> and the priorities of
    \<open>core/services/resume_identity.rs\<close>. Lost output is announced, delivery is reported truly,
    retained identity events are kept.

  \<^bold>\<open>Prompts and tasks.\<close>

  \<^item> \<open>Queue_Model\<close>, \<open>Queue_Repo\<close>: \<open>core/models/task_queue.rs\<close>, the tables of migration 34 in
    \<open>core/repository/db.rs\<close> and \<open>core/repository/task_queue_repository.rs\<close>, each operation one
    transaction on lists of rows with the constraints of the tables. \<open>Queue_Inv\<close>, \<open>Queue_Steps\<close>,
    \<open>Queue_Effects\<close>, \<open>Queue_Claims\<close> give the effect of each transaction on the lane of its
    session; \<open>Queue_Props\<close> concludes that the tables refine first-in first-out lanes, that a
    claimed task is protected and which errors there are.
  \<^item> \<open>Queue_Dispatch\<close>, \<open>Dispatch_Runs\<close>, \<open>Dispatch_Props\<close>: \<open>task_queue_service.rs\<close>,
    \<open>task_queue_dispatcher.rs\<close> and the scan of
    \<open>src/src-tauri/src/services/task_queue_worker.rs\<close>, with what other clients do between
    transactions as an argument: one attempt at most, accounted for, no claim left behind.
  \<^item> \<open>Plan_Path\<close>, \<open>Json_Patch\<close>: \<open>normalize_plan_path\<close> and \<open>apply_json_merge_patch\<close> of
    \<open>core/services/task_binding_service.rs\<close>, against the components of a path and RFC 7396.
  \<^item> \<open>Task_Binding\<close>, \<open>Task_Service\<close>: \<open>core/models/task_binding.rs\<close>,
    \<open>core/repository/task_binding_repo.rs\<close> and the rest of the service. \<open>Task_Props\<close>: rows stay
    well-formed. \<open>Task_Exits\<close>: the notices of an exit agree. \<open>Task_Cascade\<close>: when the cascading
    delete ends. \<open>Task_Plans\<close>: patches do not rebind, leaders are registered once.

  \<^bold>\<open>The daemon.\<close> Here \<open>daemon\<close> stands for \<open>src/cc-panes-daemon/src\<close>.

  \<^item> \<open>Project_Path\<close>, \<open>Project_Props\<close>: \<open>core/services/project_path_identity.rs\<close>. Paths the desktop
    writes in several ways (WSL shares, drives, \<open>file:\<close> forms) have one identity, and the
    functions are idempotent. \<open>Launch_Request\<close>: the paths of a launch request that are checked
    and rewritten before it is sent.
  \<^item> \<open>Daemon_Server\<close>, \<open>Daemon_Sockets\<close>, \<open>Lease_Props\<close>: the leases of \<open>daemon/server.rs\<close>, its guarded
    routes, kills and the sockets. A live lease is exclusive.
  \<^item> \<open>Daemon_Create\<close>, \<open>Daemon_Runs\<close>, \<open>Restore_Props\<close>, \<open>Restore_Runs\<close>: the creation of sessions as a
    machine whose steps are the accesses of concurrent requests. A saved session gets one
    terminal, and restoring is idempotent; where the code forgets an alias it is shown to give
    two.
  \<^item> \<open>Session_Reaper\<close>, \<open>Reaper_Props\<close>, \<open>Reaper_Quiet\<close>: \<open>daemon/session_reaper.rs\<close>, a sweep
    access by access. It spares what is in use, kills the orphans when nothing interferes, and
    drops the first sighting of a session born during the sweep. The locale \<open>protection\<close> states
    what a ground of exemption must give; every ground of the code is an interpretation.
  \<^item> \<open>Daemon_Http\<close>, \<open>Http_Props\<close>: the HTTP client in \<open>core/services/daemon_client.rs\<close>, from the
    bytes of a connection to status and body, with its pool of connections and its retry. What a
    server writes in any of the three framings, cut into any reads, is read back; a request is
    sent again only if no byte of an answer came.
  \<^item> \<open>Daemon_Client\<close>: what the methods of that client make of an answer; a checkpoint's verdict
    arrives as the replay buffer gave it.
  \<^item> \<open>Client_Lease\<close>, \<open>Lease_Fence\<close>, \<open>Lease_Runs\<close>: \<open>DaemonTerminalBackend\<close> in
    \<open>core/services/terminal_backend.rs\<close>, the renewal thread against releases, kills and adoptions
    of any number of threads, with the handlers of \<open>Daemon_Server\<close> at the other end and requests
    that get lost or arrive twice. A release is final; two runs report a loss that is none.

  \<^bold>\<open>The web server.\<close> \<open>Ip_Text\<close>: the parser of addresses of the standard library that the code
  calls. \<open>Web_Access\<close>: the access settings in \<open>core/models/settings.rs\<close>. \<open>Web_Auth\<close>:
  \<open>src/cc-panes-web/src/web_auth.rs\<close>, the layers of the router and the input of its socket.
  \<open>Web_Props\<close>: a protected route runs only for an origin that is allowed and, if a password is
  set, in a session that stems from a login; the session store refines the log of logins; input of
  a read-only socket reaches no terminal.

  \<^bold>\<open>The agents' files.\<close> \<open>Host_Files\<close>: files by path, with a platform that may refuse or break off
  each access. \<open>Mcp_File\<close>: \<open>src/cc-cli-adapters/src/mcp_file_injection.rs\<close>, the project file through
  which agents without a launch argument for it find their MCP servers. \<open>Mcp_Overlay\<close>: the file
  refines a state in which the user's servers and the launch's are apart, over any history of
  both. \<open>Mcp_Props\<close>: what holds for every fault of the platform, and three faults of the code.
  \<open>Json_Object\<close>: the ordered objects both this and the metadata patch use; \<open>Json_Text\<close>: a notation
  that meets the assumption on parser and printer.

  \<^bold>\<open>Bounds and loops.\<close> Loops of the code are structural recursions or functions with a measure,
  except two: the recursive query of the cascading delete may run forever and is a partial
  function whose value is then \<open>None\<close> (\<open>Task_Cascade\<close> proves when it ends), and the wait of the
  reader consumes a list of wake-ups (\<open>Flow_Props\<close> proves that those up to the deadline are
  enough). No definition of the program uses fuel; the
  reader of \<open>Json_Text\<close> takes the length of its text, which is shown to be enough.

  \<^bold>\<open>Not modelled.\<close> Process and PTY creation, file-system and network access, the parsers and
  databases the code calls (vte, serde, SQLite beyond rows and constraints, encoding tables,
  character widths: parameters where a model uses them), logging, the HTTP and IPC routes that
  forward to the modelled services, the adapters that write the other configuration files of each agent,
  the mobile and TypeScript front ends. The manifest lists the parts one by one.
\<close>

end
